(* ===== verification/Deconz_Prelude.thy ===== *)
theory Deconz_Prelude
  imports Main "HOL-Library.Word" "HOL-Library.Monad_Syntax"
begin

text \<open>
  Shared vocabulary of the development: the machine integer types of the code, readable memory
  as a list of bytes behind a pointer that may be null, the two ways a C expression can go wrong
  (an access outside its object or a failed assertion are both the value \<open>None\<close>), and the
  generic lemmas on words and lists that the component theories share.
\<close>

unbundle bit_operations_syntax

section \<open>Machine integers\<close>

type_synonym u8 = "8 word"
type_synonym u16 = "16 word"
type_synonym u32 = "32 word"
type_synonym u64 = "64 word"

text \<open>The integer promotions the code relies on.\<close>

abbreviation u64_of :: "u8 \<Rightarrow> u64" where
  "u64_of \<equiv> ucast"

named_theorems cdefs \<open>definitions the symbolic execution of the C code unfolds\<close>
named_theorems in_bounds \<open>accesses that are inside their object\<close>

lemma unat_inc: "p < n \<Longrightarrow> unat (p + 1) = Suc (unat p)" for p n :: "'a::len word"
proof -
  assume "p < n"
  moreover have "unat n < 2 ^ LENGTH('a)" by (rule unsigned_less)
  ultimately have "unat p + 1 < 2 ^ LENGTH('a)"
    unfolding word_less_nat_alt by linarith
  then show ?thesis by (simp add: unat_word_ariths)
qed

lemma unat_inc_le: "p < n \<Longrightarrow> unat (p + 1) \<le> unat n" for p n :: "'a::len word"
  by (simp add: unat_inc Suc_le_eq word_less_nat_alt)

lemma inc_dec [simp]: "p - 1 + 1 = p" for p :: "'a::len word"
  by simp

lemma u8_exhaust: "(\<And>n. n < 256 \<Longrightarrow> P (of_nat n)) \<Longrightarrow> P (b :: u8)"
proof -
  assume P: "\<And>n. n < 256 \<Longrightarrow> P (of_nat n)"
  have "unat b < 2 ^ LENGTH(8)" by (rule unsigned_less)
  then have "P (of_nat (unat b))" by (intro P) simp
  then show ?thesis by simp
qed

text \<open>The byte with a given value, kept as one symbol so that the simplifier does not split it.\<close>

definition byte :: "nat \<Rightarrow> u8" where
  "byte n = of_nat n"

lemma unat_u8_less: "unat (b :: u8) < 256"
  using unsigned_less [of b] by simp

lemma unat_byte [simp]: "n < 256 \<Longrightarrow> unat (byte n) = n"
  by (simp add: byte_def unat_of_nat)

lemma byte_unat [simp]: "byte (unat b) = b"
  by (simp add: byte_def)

lemma byte_eq_iff: "byte n = b \<longleftrightarrow> unat b = n" if "n < 256"
  using that by (metis unat_byte byte_unat)

lemma unat_u32_less: "unat (w :: u32) < 4294967296"
  using unsigned_less [of w] by simp

lemma unat_add_of_nat: "unat p + n \<le> unat q \<Longrightarrow> unat (p + of_nat n) = unat p + n" for p q :: "'a::len word"
proof -
  assume "unat p + n \<le> unat q"
  moreover have "unat q < 2 ^ LENGTH('a)" by (rule unsigned_less)
  ultimately have "unat p + n < 2 ^ LENGTH('a)" "n < 2 ^ LENGTH('a)" by linarith+
  then show ?thesis by (simp add: unat_word_ariths unat_of_nat)
qed

lemma unat_add_le: "unat p + unat n \<le> unat q \<Longrightarrow> unat (p + n) = unat p + unat n" for p q n :: "'a::len word"
  using unat_add_of_nat [of p "unat n" q] by simp

section \<open>Memory\<close>

text \<open>
  A \<open>char *\<close> is a block of bytes with an offset into it; \<open>None\<close> is the null pointer.
  Reading outside the block (or through the null pointer) has no value.
\<close>

type_synonym cmem = "u8 list option"

definition rd :: "cmem \<Rightarrow> nat \<Rightarrow> u8 option" where
  "rd m i = (case m of None \<Rightarrow> None | Some bs \<Rightarrow> if i < length bs then Some (bs ! i) else None)"

lemma rd_Some [simp]: "rd (Some bs) i = (if i < length bs then Some (bs ! i) else None)"
  by (simp add: rd_def)

lemma rd_None [simp]: "rd None i = None"
  by (simp add: rd_def)

text \<open>A failed assertion traps.\<close>

definition c_assert :: "bool \<Rightarrow> unit option" where
  "c_assert b = (if b then Some () else None)"

lemma c_assert_simps [simp]: "c_assert True = Some ()" "c_assert False = None"
  by (simp_all add: c_assert_def)

lemma c_assert_eq_Some [simp]: "c_assert b = Some u \<longleftrightarrow> b"
  by (simp add: c_assert_def)

text \<open>The \<open>n\<close> bytes of a block that start at \<open>p\<close>.\<close>

definition seg :: "nat \<Rightarrow> nat \<Rightarrow> 'a list \<Rightarrow> 'a list" where
  "seg p n xs = take n (drop p xs)"

lemma length_seg [simp]: "length (seg p n xs) = min n (length xs - p)"
  by (simp add: seg_def)

lemma seg_0 [simp]: "seg p 0 xs = []"
  by (simp add: seg_def)

lemma nth_seg: "p + n \<le> length xs \<Longrightarrow> i < n \<Longrightarrow> seg p n xs ! i = xs ! (p + i)"
  by (simp add: seg_def)

lemma seg_Suc: "p < length xs \<Longrightarrow> seg p (Suc n) xs = xs ! p # seg (Suc p) n xs"
  by (simp add: seg_def Cons_nth_drop_Suc [symmetric])

lemma seg_snoc: "p + n < length xs \<Longrightarrow> seg p (Suc n) xs = seg p n xs @ [xs ! (p + n)]"
  by (simp add: seg_def take_Suc_conv_app_nth)

lemma seg_add: "seg p (a + b) xs = seg p a xs @ seg (p + a) b xs"
  by (simp add: seg_def take_add drop_drop add.commute)

lemma seg_all: "seg 0 (length xs) xs = xs"
  by (simp add: seg_def)

end
