(* ===== verification/CJ_Utf8.thy ===== *)
theory CJ_Utf8
  imports Deconz_Prelude
begin

text \<open>
  The UTF-8 layer of the C JSON parser: \<open>cj_utf8_to_codepoint\<close> and \<open>cj_is_valid_utf8\<close> of
  \<^verbatim>\<open>cj/cj.c\<close> and \<open>cj_unicode_to_utf8\<close> of \<^verbatim>\<open>cj/extra/cj_copy_ref_utf8.c\<close>, with the
  encoding of RFC 3629 as their abstract specification.
\<close>

section \<open>The code\<close>

subsection \<open>Decoding\<close>

text \<open>
  \<^verbatim>\<open>for (bytes = 0; (cp & (0x80 >> bytes)); bytes++) cp &= ~(0x80 >> bytes);\<close>
\<close>

function cj_lead_bytes :: "u64 \<Rightarrow> nat \<Rightarrow> u64 \<times> nat" where
  "cj_lead_bytes cp bytes =
     (if cp AND drop_bit bytes 0x80 \<noteq> 0
      then cj_lead_bytes (cp AND NOT (drop_bit bytes 0x80)) (Suc bytes)
      else (cp, bytes))"
  by pat_completeness auto

lemma drop_bit_0x80: "7 < n \<Longrightarrow> drop_bit n (0x80 :: u64) = 0"
proof -
  assume "7 < n"
  then have "(2::nat) ^ 8 \<le> 2 ^ n" by (intro power_increasing) auto
  then have "unat (drop_bit n (0x80 :: u64)) = 0"
    by (simp only: unsigned_drop_bit_eq) (simp add: drop_bit_eq_div)
  then show ?thesis by (simp only: unat_0_iff)
qed

termination cj_lead_bytes
  by (relation "measure (\<lambda>(cp, bytes). 8 - bytes)") (auto simp: drop_bit_0x80 not_less not_le intro: ccontr)

declare cj_lead_bytes.simps [simp del]

text \<open>
  The loop over the continuation bytes; the inner \<open>None\<close> is \<^verbatim>\<open>goto invalid\<close>.
\<close>

fun cj_cont_bytes :: "cmem \<Rightarrow> nat \<Rightarrow> nat \<Rightarrow> u64 \<Rightarrow> u64 option option" where
  "cj_cont_bytes m str 0 cp = Some (Some cp)"
| "cj_cont_bytes m str (Suc bytes) cp = do {
     b \<leftarrow> rd m str;
     if u64_of b AND 0xC0 \<noteq> 0x80 then Some None
     else cj_cont_bytes m (Suc str) bytes (push_bit 6 cp OR (u64_of b AND 0x3F)) }"

text \<open>The result is the return value and \<^verbatim>\<open>*codepoint\<close>.\<close>

definition cj_utf8_to_codepoint :: "cmem \<Rightarrow> nat \<Rightarrow> u64 \<Rightarrow> (nat \<times> u64) option" where
  "cj_utf8_to_codepoint m str len =
     (if m = None \<or> len = 0 then Some (0, 0)
      else do {
        b \<leftarrow> rd m str;
        let cp = u64_of b AND 0xFF;
        if cp AND 0x80 = 0 then Some (1, cp)
        else do {
          let (cp, bytes) = cj_lead_bytes cp 0;
          if bytes < 2 \<or> bytes > 4 \<or> bytes > unat len then Some (0, 0)
          else do {
            c \<leftarrow> cj_cont_bytes m (Suc str) (bytes - 1) cp;
            case c of
              None \<Rightarrow> Some (0, 0)
            | Some cp \<Rightarrow>
                if bytes = 2 \<and> cp < 0x80 then Some (0, 0)
                else if bytes = 3 \<and> cp < 0x800 then Some (0, 0)
                else if bytes = 4 \<and> (cp < 0x10000 \<or> cp > 0x10FFFF) then Some (0, 0)
                else if cp \<ge> 0xD800 \<and> cp \<le> 0xDFFF then Some (0, 0)
                else Some (bytes, cp) }}})"

text \<open>
  The do-while loop of \<open>cj_is_valid_utf8\<close>. Each round that goes on consumes at least one byte.
\<close>

function cj_is_valid_utf8 :: "cmem \<Rightarrow> nat \<Rightarrow> u64 \<Rightarrow> bool option" where
  "cj_is_valid_utf8 m str len =
     (case cj_utf8_to_codepoint m str len of
        None \<Rightarrow> None
      | Some (ch_count, codepoint) \<Rightarrow>
          if ch_count > 0 then
            (if len - of_nat ch_count > 0
             then cj_is_valid_utf8 m (str + ch_count) (len - of_nat ch_count)
             else Some True)
          else Some False)"
  by pat_completeness auto

lemma cj_utf8_to_codepoint_count:
  "cj_utf8_to_codepoint m str len = Some (n, cp) \<Longrightarrow> n \<le> unat len \<and> n \<le> 4"
  apply (simp only: cj_utf8_to_codepoint_def Let_def)
  apply (split if_split_asm)
  apply simp
  apply (clarsimp simp only: bind_eq_Some_conv)
  apply (split if_split_asm)
  apply (force simp add: Suc_le_eq unat_gt_0)
  apply (clarsimp simp only: bind_eq_Some_conv split_beta)
  apply (split if_split_asm)
   apply simp
  apply (clarsimp simp only: bind_eq_Some_conv not_less de_Morgan_disj)
  apply (split option.split_asm)
   apply simp
  apply (simp only: split: if_split_asm)
  apply auto
  done

lemma unat_sub_count: "n \<le> unat len \<Longrightarrow> n \<le> 4 \<Longrightarrow> unat (len - of_nat n) = unat len - n" for len :: u64
  by (simp add: unat_sub_if_size unat_of_nat word_le_nat_alt)

termination cj_is_valid_utf8
proof (relation "measure (\<lambda>(m, str, len). unat len)")
  fix m str and len :: u64 and r ch_count and codepoint :: u64
  assume "cj_utf8_to_codepoint m str len = Some r" "(ch_count, codepoint) = r" "0 < ch_count"
  then have "ch_count \<le> unat len \<and> ch_count \<le> 4"
    using cj_utf8_to_codepoint_count by blast
  with \<open>0 < ch_count\<close> show "((m, str + ch_count, len - of_nat ch_count), m, str, len)
      \<in> measure (\<lambda>(m, str, len). unat len)"
    by (simp add: unat_sub_count)
qed simp

declare cj_is_valid_utf8.simps [simp del]

subsection \<open>Encoding\<close>

text \<open>
  \<open>buf\<close> are the bytes behind the pointer; a store outside of them has no value. The result is
  the returned length and the bytes afterwards.
\<close>

definition wr :: "u8 list \<Rightarrow> nat \<Rightarrow> u8 \<Rightarrow> u8 list option" where
  "wr buf i v = (if i < length buf then Some (buf[i := v]) else None)"

definition cj_unicode_to_utf8 :: "u64 \<Rightarrow> u8 list \<Rightarrow> u32 \<Rightarrow> (nat \<times> u8 list) option" where
  "cj_unicode_to_utf8 codepoint buf sz =
     (if codepoint \<le> 0x7F \<and> sz > 1 then do {
        buf \<leftarrow> wr buf 0 (ucast codepoint);
        buf \<leftarrow> wr buf 1 0;
        Some (1, buf) }
      else let codepoint = (if codepoint > 0x10FFFF then 0xFFFD else codepoint) in
      if codepoint \<ge> 0x80 \<and> codepoint \<le> 0x7FF \<and> sz > 2 then do {
        buf \<leftarrow> wr buf 1 (ucast (0x80 OR (codepoint AND 0x3F)));
        let codepoint = drop_bit 6 codepoint;
        buf \<leftarrow> wr buf 0 (ucast (0xC0 OR (codepoint AND 0x1F)));
        buf \<leftarrow> wr buf 2 0;
        Some (2, buf) }
      else if codepoint \<ge> 0x800 \<and> codepoint \<le> 0xFFFF \<and> sz > 3 then do {
        buf \<leftarrow> wr buf 2 (ucast (0x80 OR (codepoint AND 0x3F)));
        let codepoint = drop_bit 6 codepoint;
        buf \<leftarrow> wr buf 1 (ucast (0x80 OR (codepoint AND 0x3F)));
        let codepoint = drop_bit 6 codepoint;
        buf \<leftarrow> wr buf 0 (ucast (0xE0 OR (codepoint AND 0x0F)));
        buf \<leftarrow> wr buf 3 0;
        Some (3, buf) }
      else if codepoint \<ge> 0x10000 \<and> codepoint \<le> 0x10FFFF \<and> sz > 4 then do {
        buf \<leftarrow> wr buf 3 (ucast (0x80 OR (codepoint AND 0x3F)));
        let codepoint = drop_bit 6 codepoint;
        buf \<leftarrow> wr buf 2 (ucast (0x80 OR (codepoint AND 0x3F)));
        let codepoint = drop_bit 6 codepoint;
        buf \<leftarrow> wr buf 1 (ucast (0x80 OR (codepoint AND 0x3F)));
        let codepoint = drop_bit 6 codepoint;
        buf \<leftarrow> wr buf 0 (ucast (0xF0 OR (codepoint AND 0x07)));
        buf \<leftarrow> wr buf 4 0;
        Some (4, buf) }
      else Some (0, buf))"

section \<open>The specification: RFC 3629\<close>

definition is_scalar :: "nat \<Rightarrow> bool" where
  "is_scalar cp \<longleftrightarrow> cp \<le> 0x10FFFF \<and> \<not> (0xD800 \<le> cp \<and> cp \<le> 0xDFFF)"

definition utf8_enc :: "nat \<Rightarrow> u8 list" where
  "utf8_enc cp =
     (if cp < 0x80 then [byte cp]
      else if cp < 0x800 then [byte (0xC0 + cp div 64), byte (0x80 + cp mod 64)]
      else if cp < 0x10000 then
        [byte (0xE0 + cp div 4096), byte (0x80 + cp div 64 mod 64), byte (0x80 + cp mod 64)]
      else
        [byte (0xF0 + cp div 262144), byte (0x80 + cp div 4096 mod 64),
         byte (0x80 + cp div 64 mod 64), byte (0x80 + cp mod 64)])"

definition valid_utf8 :: "u8 list \<Rightarrow> bool" where
  "valid_utf8 bs \<longleftrightarrow> (\<exists>cps. list_all is_scalar cps \<and> bs = concat (map utf8_enc cps))"

section \<open>The decoder meets the specification\<close>

lemma nat_bit_top: "n < 2 ^ Suc j \<Longrightarrow> bit n j \<longleftrightarrow> 2 ^ j \<le> n" for n :: nat
proof (cases "2 ^ j \<le> n")
  case True
  moreover assume "n < 2 ^ Suc j"
  ultimately obtain r where "n = 2 ^ j + r" "r < 2 ^ j"
    using le_Suc_ex by fastforce
  then show ?thesis by (simp add: bit_iff_odd div_add_self1)
qed (simp add: bit_iff_odd)

lemma and_exp_test: "n < 2 ^ Suc j \<Longrightarrow> j < 64 \<Longrightarrow> (of_nat n :: u64) AND 2 ^ j = 0 \<longleftrightarrow> n < 2 ^ j"
  by (simp add: and_exp_eq_0_iff_not_bit bit_of_nat_iff nat_bit_top not_le)

lemma and_not_exp: "r < 2 ^ j \<Longrightarrow> (of_nat (2 ^ j + r) :: u64) AND NOT (2 ^ j) = of_nat r"
proof -
  assume r: "r < 2 ^ j"
  have "(of_nat r :: u64) AND 2 ^ j = 0"
    using r by (simp add: and_exp_eq_0_iff_not_bit bit_of_nat_iff nat_bit_top)
  then have "(of_nat (2 ^ j + r) :: u64) = of_nat r OR 2 ^ j"
    using disjunctive_add_eq_or [of "of_nat r :: u64" "2 ^ j"] by (simp add: add.commute)
  moreover have "(of_nat r OR 2 ^ j) AND NOT (2 ^ j :: u64) = of_nat r AND NOT (2 ^ j)"
    by (rule bit_word_eqI) (auto simp: bit_simps)
  moreover have "of_nat r AND NOT (2 ^ j :: u64) = of_nat r"
    using \<open>of_nat r AND 2 ^ j = 0\<close> by (auto simp: bit_eq_iff bit_simps)
  ultimately show ?thesis by simp
qed

lemma lead_step:
  assumes "n < 2 ^ Suc j" "j = 7 - k" "k < 8"
  shows "cj_lead_bytes (of_nat n) k = (if n < 2 ^ j then (of_nat n, k) else cj_lead_bytes (of_nat (n - 2 ^ j)) (Suc k))"
proof -
  have d: "drop_bit k (0x80 :: u64) = 2 ^ j"
  proof -
    have "\<forall>k \<in> {..<8}. drop_bit k (0x80 :: u64) = 2 ^ (7 - k)" by (simp add: lessThan_nat_numeral lessThan_Suc)
    with assms show ?thesis by simp
  qed
  show ?thesis
  proof (cases "n < 2 ^ j")
    case True
    with assms show ?thesis by (subst cj_lead_bytes.simps) (simp add: d and_exp_test)
  next
    case False
    then obtain r where "n = 2 ^ j + r" "r < 2 ^ j"
      using assms le_Suc_ex by (fastforce simp: not_less)
    with assms False and_exp_test [of n j] and_not_exp [of r j] show ?thesis
      by (subst cj_lead_bytes.simps) (simp add: d)
  qed
qed


lemma lead_chain:
  assumes "d \<le> n" "n < d + 2 ^ Suc j" "j = 7 - k" "k < 8" "e = d + 2 ^ j" "k' = Suc k"
  shows "cj_lead_bytes (of_nat (n - d)) k =
    (if n < e then (of_nat (n - d), k) else cj_lead_bytes (of_nat (n - e)) k')"
proof -
  have "n - d < 2 ^ Suc j" using assms by (simp add: less_diff_conv2)
  moreover have "n - d < 2 ^ j \<longleftrightarrow> n < e" using assms(1,5) by linarith
  ultimately show ?thesis using lead_step [of "n - d" j k] assms by (simp only: diff_diff_left)
qed
lemma T1: "n < 256 \<Longrightarrow> cj_lead_bytes (of_nat n) 0 = (if n < 128 then (of_nat n, 0) else cj_lead_bytes (of_nat (n - 128)) 1)"
  by (rule lead_chain [where j = 7 and d = 0, unfolded diff_zero]) simp_all
lemma T2: "n < 256 \<Longrightarrow> \<not> n < 128 \<Longrightarrow> cj_lead_bytes (of_nat (n - 128)) 1 = (if n < 192 then (of_nat (n - 128), 1) else cj_lead_bytes (of_nat (n - 192)) 2)"
  by (rule lead_chain [where j = 6]) simp_all
lemma T3: "n < 256 \<Longrightarrow> \<not> n < 192 \<Longrightarrow> cj_lead_bytes (of_nat (n - 192)) 2 = (if n < 224 then (of_nat (n - 192), 2) else cj_lead_bytes (of_nat (n - 224)) 3)"
  by (rule lead_chain [where j = 5]) simp_all
lemma T4: "n < 256 \<Longrightarrow> \<not> n < 224 \<Longrightarrow> cj_lead_bytes (of_nat (n - 224)) 3 = (if n < 240 then (of_nat (n - 224), 3) else cj_lead_bytes (of_nat (n - 240)) 4)"
  by (rule lead_chain [where j = 4]) simp_all
lemma T5: "n < 256 \<Longrightarrow> \<not> n < 240 \<Longrightarrow> cj_lead_bytes (of_nat (n - 240)) 4 = (if n < 248 then (of_nat (n - 240), 4) else cj_lead_bytes (of_nat (n - 248)) 5)"
  by (rule lead_chain [where j = 3]) simp_all

lemma cj_lead_bytes_table:
  assumes n: "n < 256"
  shows "cj_lead_bytes (of_nat n) 0 =
    (if n < 128 then (of_nat n, 0) else if n < 192 then (of_nat (n - 128), 1)
     else if n < 224 then (of_nat (n - 192), 2) else if n < 240 then (of_nat (n - 224), 3)
     else if n < 248 then (of_nat (n - 240), 4) else cj_lead_bytes (of_nat (n - 248)) 5)"
  using n by (cases "n < 128"; cases "n < 192"; cases "n < 224"; cases "n < 240"; cases "n < 248")
    (simp_all only: T1 T2 T3 T4 T5 if_True if_False not_False_eq_True)

lemma unat_and_mask: "unat (w AND mask n) = unat w mod 2 ^ n"
  by (simp only: take_bit_eq_mask [symmetric] unsigned_take_bit_eq) (simp add: take_bit_eq_mod)

lemma unat_and_numeral:
  "unat (w AND 7) = unat w mod 8" "unat (w AND 15) = unat w mod 16" "unat (w AND 31) = unat w mod 32"
  "unat (w AND 63) = unat w mod 64" "unat (w AND 255) = unat w mod 256" for w :: u64
  using unat_and_mask [of w 3] unat_and_mask [of w 4] unat_and_mask [of w 5] unat_and_mask [of w 6]
    unat_and_mask [of w 8] by (simp_all add: mask_eq_exp_minus_1)

lemma unat_and_0xC0: "unat (w AND 0xC0) = unat w div 64 mod 4 * 64" for w :: u64
proof -
  have "(0xC0 :: u64) = push_bit 6 (mask 2)"
    by (simp add: mask_eq_exp_minus_1)
  moreover have "w AND push_bit 6 (mask 2) = push_bit 6 (take_bit 2 (drop_bit 6 w))"
    by (rule bit_word_eqI) (auto simp: bit_simps)
  ultimately have "w AND 0xC0 = push_bit 6 (take_bit 2 (drop_bit 6 w))"
    by (simp only:)
  also have "unat \<dots> = unat w div 64 mod 4 * 64"
    by (simp only: unsigned_push_bit_eq unsigned_take_bit_eq unsigned_drop_bit_eq)
      (simp add: push_bit_eq_mult take_bit_eq_mod drop_bit_eq_div mod_less [OF unsigned_less [of w, simplified]])
  finally show ?thesis .
qed
lemma unat_u64_of [simp]: "unat (u64_of b) = unat b"
proof -
  have "unat b < 2 ^ LENGTH(8)" by (rule unsigned_less)
  then have "unat b < 2 ^ 64" by (rule order.strict_trans) simp
  then show ?thesis by (simp add: unsigned_ucast_eq take_bit_nat_eq_self)
qed

lemma cj_lead_bytes_mono: "k \<le> snd (cj_lead_bytes cp k)"
proof (induction cp k rule: cj_lead_bytes.induct)
  case (1 cp k)
  then show ?case by (subst cj_lead_bytes.simps) auto
qed

definition is_cont :: "u8 \<Rightarrow> bool" where
  "is_cont b \<longleftrightarrow> unat b div 64 = 2"

lemma and_0xC0_iff: "u64_of b AND 0xC0 = 0x80 \<longleftrightarrow> is_cont b"
proof -
  have "unat (u64_of b AND 0xC0) = unat b div 64 * 64"
    using unat_u8_less [of b] by (simp only: unat_and_0xC0 unat_u64_of) (simp add: less_mult_imp_div_less)
  moreover have "u64_of b AND 0xC0 = 0x80 \<longleftrightarrow> unat (u64_of b AND 0xC0) = unat (0x80 :: u64)"
    by (rule word_unat_eq_iff)
  ultimately show ?thesis by (simp add: is_cont_def)
qed

lemma unat_cont_step:
  assumes "unat cp < 2 ^ 58"
  shows "unat (push_bit 6 cp OR (u64_of b AND 0x3F)) = unat cp * 64 + unat b mod 64"
proof -
  have "(0x3F :: u64) = mask 6" by (simp add: mask_eq_exp_minus_1)
  moreover have "push_bit 6 cp AND (u64_of b AND mask 6) = 0"
    by (rule bit_word_eqI) (auto simp: bit_simps)
  ultimately have "push_bit 6 cp OR (u64_of b AND 0x3F) = push_bit 6 cp + (u64_of b AND 0x3F)"
    by (simp only: disjunctive_add_eq_or)
  moreover have "unat (push_bit 6 cp) = unat cp * 64"
    using assms by (simp only: unsigned_push_bit_eq) (simp add: push_bit_eq_mult take_bit_eq_mod)
  moreover have "unat (u64_of b AND 0x3F) = unat b mod 64"
    by (simp only: unat_and_numeral unat_u64_of)
  moreover have "unat cp * 64 + unat b mod 64 < 2 ^ LENGTH(64)"
  proof -
    have "unat b mod 64 < 64" by simp
    with assms show ?thesis by simp
  qed
  ultimately show ?thesis by (simp only: unat_word_ariths mod_less)
qed

fun cont_val :: "u8 list \<Rightarrow> nat \<Rightarrow> nat" where
  "cont_val [] v = v"
| "cont_val (b # bs) v = cont_val bs (v * 64 + unat b mod 64)"

lemma cj_cont_bytes_eq:
  assumes "p + k \<le> length bs" "(unat cp + 1) * 64 ^ k \<le> 2 ^ 60"
  shows "cj_cont_bytes (Some bs) p k cp =
    Some (if list_all is_cont (seg p k bs) then Some (of_nat (cont_val (seg p k bs) (unat cp))) else None)"
  using assms
proof (induction k arbitrary: p cp)
  case (Suc k)
  let ?c = "push_bit 6 cp OR (u64_of (bs ! p) AND 0x3F)"
  have "(unat cp + 1) * 64 \<le> (unat cp + 1) * 64 ^ Suc k"
    by (rule mult_le_mono2) simp
  with Suc.prems(2) have "unat cp < 2 ^ 58" by simp
  then have c: "unat ?c = unat cp * 64 + unat (bs ! p) mod 64" by (rule unat_cont_step)
  have "unat (bs ! p) mod 64 + 1 \<le> 64" using mod_less_divisor [of 64 "unat (bs ! p)"] by linarith
  then have "unat ?c + 1 \<le> (unat cp + 1) * 64" unfolding c by simp
  then have "(unat ?c + 1) * 64 ^ k \<le> ((unat cp + 1) * 64) * 64 ^ k" by (rule mult_le_mono1)
  also have "\<dots> \<le> 2 ^ 60" using Suc.prems(2) by (simp only: power_Suc mult.assoc)
  finally have le: "(unat ?c + 1) * 64 ^ k \<le> 2 ^ 60" .
  show ?case
  proof (cases "is_cont (bs ! p)")
    case True
    then have "cj_cont_bytes (Some bs) p (Suc k) cp = cj_cont_bytes (Some bs) (Suc p) k ?c"
      using Suc.prems(1) by (simp add: and_0xC0_iff del: push_bit_numeral)
    with Suc.IH [OF _ le, of "Suc p"] c True Suc.prems(1) show ?thesis
      by (simp add: seg_Suc del: push_bit_numeral)
  next
    case False
    with Suc.prems(1) show ?thesis by (simp add: seg_Suc and_0xC0_iff)
  qed
qed simp

text \<open>The decoder as a table over the lead byte.\<close>

definition lead_width :: "nat \<Rightarrow> nat" where
  "lead_width n = (if n < 192 then 0 else if n < 224 then 2 else if n < 240 then 3 else if n < 248 then 4 else 0)"

definition lead_base :: "nat \<Rightarrow> nat" where
  "lead_base n = (if n < 224 then 192 else if n < 240 then 224 else 240)"

definition min_code :: "nat \<Rightarrow> nat" where
  "min_code k = (if k = 2 then 0x80 else if k = 3 then 0x800 else 0x10000)"

lemma u64_and_0xFF: "u64_of b AND 0xFF = u64_of b"
proof -
  have "unat (u64_of b AND 0xFF) = unat (u64_of b)"
    using unat_u8_less [of b] by (simp only: unat_and_numeral unat_u64_of mod_less)
  then show ?thesis by (simp only: word_unat_eq_iff)
qed

lemma u64_of_nat: "u64_of b = of_nat (unat b)"
  by simp

lemma u64_and_0x80: "u64_of b AND 0x80 = 0 \<longleftrightarrow> unat (b :: u8) < 128"
  using unat_u8_less [of b] and_exp_test [of "unat b" 7] by simp

lemma cj_utf8_to_codepoint_ascii:
  assumes "p < length bs" "len \<noteq> 0" "unat (bs ! p) < 128"
  shows "cj_utf8_to_codepoint (Some bs) p len = Some (1, u64_of (bs ! p))"
  using assms by (simp add: cj_utf8_to_codepoint_def Let_def u64_and_0xFF u64_and_0x80)

lemma cj_lead_bytes_width:
  assumes "128 \<le> unat (b :: u8)"
  shows "lead_width (unat b) \<noteq> 0 \<Longrightarrow>
      cj_lead_bytes (u64_of b) 0 = (of_nat (unat b - lead_base (unat b)), lead_width (unat b))"
    and "lead_width (unat b) = 0 \<Longrightarrow>
      snd (cj_lead_bytes (u64_of b) 0) < 2 \<or> 4 < snd (cj_lead_bytes (u64_of b) 0)"
proof -
  define n where "n = unat b"
  have "n < 256" unfolding n_def by (rule unat_u8_less)
  note T = cj_lead_bytes_table [OF this]
  have b: "u64_of b = of_nat n" unfolding n_def by (rule u64_of_nat)
  show "lead_width (unat b) \<noteq> 0 \<Longrightarrow>
      cj_lead_bytes (u64_of b) 0 = (of_nat (unat b - lead_base (unat b)), lead_width (unat b))"
    using T assms unfolding b n_def [symmetric]
    by (simp del: of_nat_diff add: lead_width_def lead_base_def split: if_split_asm)
  show "lead_width (unat b) = 0 \<Longrightarrow>
      snd (cj_lead_bytes (u64_of b) 0) < 2 \<or> 4 < snd (cj_lead_bytes (u64_of b) 0)"
    using T assms cj_lead_bytes_mono [of 5 "of_nat (n - 248)"] unfolding b n_def [symmetric]
    by (simp del: of_nat_diff add: lead_width_def split: if_split_asm)
qed

lemma cj_utf8_to_codepoint_bad_lead:
  assumes "p < length bs" "len \<noteq> 0" "128 \<le> unat (bs ! p)"
    and w: "lead_width (unat (bs ! p)) = 0 \<or> unat len < lead_width (unat (bs ! p))"
  shows "cj_utf8_to_codepoint (Some bs) p len = Some (0, 0)"
proof -
  let ?r = "cj_lead_bytes (u64_of (bs ! p)) 0"
  have "snd ?r < 2 \<or> snd ?r > 4 \<or> snd ?r > unat len"
    using w cj_lead_bytes_width [OF assms(3)] by (cases "lead_width (unat (bs ! p)) = 0") auto
  with assms show ?thesis
    by (simp add: cj_utf8_to_codepoint_def Let_def u64_and_0xFF u64_and_0x80 split_beta)
qed

lemma cont_val_bound: "cont_val bs v < (v + 1) * 64 ^ length bs"
proof (induction bs arbitrary: v)
  case (Cons b bs)
  have "unat b mod 64 + 1 \<le> 64" using mod_less_divisor [of 64 "unat b"] by linarith
  then have "v * 64 + unat b mod 64 + 1 \<le> (v + 1) * 64" by simp
  then have "(v * 64 + unat b mod 64 + 1) * 64 ^ length bs \<le> (v + 1) * 64 * 64 ^ length bs"
    by (rule mult_le_mono1)
  with Cons.IH [of "v * 64 + unat b mod 64"] have "cont_val (b # bs) v < (v + 1) * 64 * 64 ^ length bs"
    by (simp only: cont_val.simps order.strict_trans2)
  then show ?case by (simp only: length_Cons power_Suc mult.assoc)
qed simp

lemma word_of_nat_cmp:
  assumes "v < 2 ^ 60"
  shows "(of_nat v < (numeral k :: u64)) \<longleftrightarrow> v < unat (numeral k :: u64)"
    "((numeral k :: u64) \<le> of_nat v) \<longleftrightarrow> unat (numeral k :: u64) \<le> v"
    "((numeral k :: u64) < of_nat v) \<longleftrightarrow> unat (numeral k :: u64) < v"
    "(of_nat v \<le> (numeral k :: u64)) \<longleftrightarrow> v \<le> unat (numeral k :: u64)"
  using assms by (simp_all only: word_less_nat_alt word_le_nat_alt) (simp_all add: unat_of_nat)

lemma cj_utf8_to_codepoint_multi:
  assumes len: "p + unat len \<le> length bs" and k: "k = lead_width (unat (bs ! p))" "2 \<le> k" "k \<le> unat len"
    and v: "v = cont_val (seg (Suc p) (k - 1) bs) (unat (bs ! p) - lead_base (unat (bs ! p)))"
  shows "cj_utf8_to_codepoint (Some bs) p len =
     Some (if list_all is_cont (seg (Suc p) (k - 1) bs) \<and> min_code k \<le> v \<and> is_scalar v then (k, of_nat v) else (0, 0))"
proof -
  let ?n = "unat (bs ! p)" let ?w = "?n - lead_base ?n"
  have n: "128 \<le> ?n" and k4: "k \<le> 4" and w: "?w < 32" and k3: "k = 2 \<or> k = 3 \<or> k = 4"
    and w34: "k = 3 \<Longrightarrow> ?w < 16"  "k = 4 \<Longrightarrow> ?w < 8" 
    using k unat_u8_less [of "bs ! p"] by (auto simp: lead_width_def lead_base_def split: if_split_asm)
  have lead: "cj_lead_bytes (u64_of (bs ! p)) 0 = (of_nat ?w, k)"
    using cj_lead_bytes_width(1) [OF n] k by simp
  have unat_w: "unat (of_nat ?w :: u64) = ?w"
    using w by (simp add: unat_of_nat del: of_nat_diff)
  have "(64::nat) ^ (k - 1) \<le> 64 ^ 3" using k4 by (intro power_increasing) auto
  then have W: "(?w + 1) * 64 ^ (k - 1) \<le> 32 * 64 ^ 3"
    using w by (intro mult_le_mono) simp_all
  then have "(unat (of_nat ?w :: u64) + 1) * 64 ^ (k - 1) \<le> 2 ^ 60" unfolding unat_w by simp
  moreover have l: "Suc p + (k - 1) \<le> length bs" using len k by simp
  ultimately have cont: "cj_cont_bytes (Some bs) (Suc p) (k - 1) (of_nat ?w) =
      Some (if list_all is_cont (seg (Suc p) (k - 1) bs) then Some (of_nat v) else None)"
    using cj_cont_bytes_eq [of "Suc p" "k - 1" bs "of_nat ?w"] unat_w v by (simp del: of_nat_diff)
  have vb: "v < (?w + 1) * 64 ^ (k - 1)"
    using cont_val_bound [of "seg (Suc p) (k - 1) bs" ?w] l v by simp
  with W have vb': "v < 2 ^ 60" by simp
  have "k = 2 \<Longrightarrow> v < 0x800" "k = 3 \<Longrightarrow> v < 0x10000" using vb w w34 by simp_all
  moreover have "p < length bs" "len \<noteq> 0" using len k by auto
  ultimately show ?thesis
    using lead cont n k k3 k4 
    apply (simp add: cj_utf8_to_codepoint_def Let_def u64_and_0xFF u64_and_0x80 word_of_nat_cmp [OF vb'] is_scalar_def min_code_def del: of_nat_diff)
    by auto
qed

lemma is_cont_byte: "is_cont b \<longleftrightarrow> b = byte (128 + unat b mod 64)"
proof
  assume "is_cont b"
  then have "unat b = 128 + unat b mod 64"
    unfolding is_cont_def using div_mult_mod_eq [of "unat b" 64] by simp
  then show "b = byte (128 + unat b mod 64)" by (metis byte_unat)
next
  assume "b = byte (128 + unat b mod 64)"
  moreover have "128 + unat b mod 64 < 256" using mod_less_divisor [of 64 "unat b"] by linarith
  ultimately have "unat b = 128 + unat b mod 64" by (metis unat_byte)
  then have "unat b div 64 = (128 + unat b mod 64) div 64" by simp
  also have "\<dots> = 2" by simp
  finally show "is_cont b" by (simp add: is_cont_def)
qed

lemma unat_cont_byte [simp]: "unat (byte (128 + q mod 64)) = 128 + q mod 64"
  using mod_less_divisor [of 64 q] by (intro unat_byte) linarith

lemma mod_64_cont [simp]: "(128 + q mod 64) mod 64 = q mod 64" for q :: nat
  using mod_mult_self3 [of 2 64 "q mod 64"] by simp

lemma cont_byte [simp]: "is_cont (byte (128 + q mod 64))"
  by (simp add: is_cont_def)

lemma length_utf8_enc: "length (utf8_enc c) = (if c < 0x80 then 1 else if c < 0x800 then 2 else if c < 0x10000 then 3 else 4)"
  by (simp add: utf8_enc_def)

lemma decompose_64: "n = n div 64 * 64 + n mod 64" for n :: nat
  by simp

lemma div_64_64: "n div 64 div 64 = n div 4096" "n div 4096 div 64 = n div 262144" for n :: nat
  by (simp_all add: div_mult2_eq [symmetric])

lemma digit_64: "(v * 64 + r mod 64) div 64 = v" "(v * 64 + r mod 64) mod 64 = r mod 64" for v r :: nat
  by simp_all

text \<open>Every byte of an encoding after the first is a continuation byte.\<close>

lemma utf8_enc_decode:
  assumes "c \<le> 0x10FFFF" "0x80 \<le> c"
  defines "x \<equiv> hd (utf8_enc c)" and "k \<equiv> length (utf8_enc c)"
  shows "lead_width (unat x) = k \<and> list_all is_cont (tl (utf8_enc c)) \<and>
    cont_val (tl (utf8_enc c)) (unat x - lead_base (unat x)) = c \<and> min_code k \<le> c"
proof -
  consider "c < 0x800" | "0x800 \<le> c" "c < 0x10000" | "0x10000 \<le> c" by linarith
  then show ?thesis
  proof cases
    case 1
    then have "c div 64 < 32" by simp
    with 1 assms div_mult_mod_eq [of c 64] show ?thesis
      by (simp add: utf8_enc_def lead_width_def lead_base_def min_code_def)
  next
    case 2
    then have "c div 4096 < 16" by simp
    moreover have "c div 4096 * 4096 + c div 64 mod 64 * 64 + c mod 64 = c"
      using decompose_64 [of c] decompose_64 [of "c div 64", unfolded div_64_64] by linarith
    ultimately show ?thesis using 2 assms
      by (simp add: utf8_enc_def lead_width_def lead_base_def min_code_def)
  next
    case 3
    then have "c div 262144 < 8" using assms(1) by simp
    moreover have "c div 262144 * 262144 + c div 4096 mod 64 * 4096 + c div 64 mod 64 * 64 + c mod 64 = c"
      using decompose_64 [of c] decompose_64 [of "c div 64", unfolded div_64_64]
        decompose_64 [of "c div 4096", unfolded div_64_64] by linarith
    ultimately show ?thesis using 3 assms
      by (simp add: utf8_enc_def lead_width_def lead_base_def min_code_def)
  qed
qed

lemma utf8_enc_of_decoded:
  assumes k: "k = lead_width (unat x)" "2 \<le> k" "length ys = k - 1" and c: "list_all is_cont ys"
    and v: "v = cont_val ys (unat x - lead_base (unat x))" "min_code k \<le> v" 
  shows "utf8_enc v = x # ys"
proof -
  let ?w = "unat x - lead_base (unat x)"
  have cont: "byte (128 + unat b mod 64) = b" if "b \<in> set ys" for b
    using c that is_cont_byte by (auto simp: list_all_iff)
  consider "k = 2" | "k = 3" | "k = 4"
    using k unat_u8_less [of x] by (auto simp: lead_width_def split: if_split_asm)
  then show ?thesis
  proof cases
    case 1
    then obtain b where ys: "ys = [b]" using k(3) by (auto simp: length_Suc_conv eval_nat_numeral)
    have w: "192 + ?w = unat x" "?w < 32"
      using 1 k(1) unat_u8_less [of x] by (auto simp: lead_width_def lead_base_def split: if_split_asm)
    have v': "v div 64 = ?w" "v mod 64 = unat b mod 64" "v < 0x800" using v(1) w(2) mod_less_divisor [of 64 "unat b"] by (auto simp: ys)
    show ?thesis using v(2) w cont v' by (simp add: 1 ys utf8_enc_def min_code_def)
  next
    case 2
    then obtain b c where ys: "ys = [b, c]" using k(3) by (auto simp: length_Suc_conv eval_nat_numeral)
    have w: "224 + ?w = unat x" "?w < 16"
      using 2 k(1) unat_u8_less [of x] by (auto simp: lead_width_def lead_base_def split: if_split_asm)
    have veq: "v = (?w * 64 + unat b mod 64) * 64 + unat c mod 64" by (simp only: v(1) ys cont_val.simps)
    have v': "v div 64 = ?w * 64 + unat b mod 64" "v mod 64 = unat c mod 64"
      unfolding veq by (rule digit_64)+
    have "v div 4096 = v div 64 div 64" by (simp add: div_mult2_eq [symmetric])
    then have v'': "v div 4096 = ?w" by (simp only: v' digit_64)
    then have "v < 0x10000" using w(2) by (simp add: div_less_iff_less_mult) 
    show ?thesis using v(2) w cont v' v'' \<open>v < 0x10000\<close> by (simp add: 2 ys utf8_enc_def min_code_def)
  next
    case 3
    then obtain b c d where ys: "ys = [b, c, d]" using k(3) by (auto simp: length_Suc_conv eval_nat_numeral)
    have w: "240 + ?w = unat x" "?w < 8"
      using 3 k(1) unat_u8_less [of x] by (auto simp: lead_width_def lead_base_def split: if_split_asm)
    have veq: "v = ((?w * 64 + unat b mod 64) * 64 + unat c mod 64) * 64 + unat d mod 64" by (simp only: v(1) ys cont_val.simps)
    have v': "v div 64 = (?w * 64 + unat b mod 64) * 64 + unat c mod 64" "v mod 64 = unat d mod 64"
      unfolding veq by (rule digit_64)+
    have "v div 4096 = v div 64 div 64" "v div 262144 = v div 64 div 64 div 64" by (simp_all add: div_mult2_eq [symmetric])
    then have v'': "v div 4096 mod 64 = unat b mod 64" "v div 262144 = ?w" "v div 64 mod 64 = unat c mod 64"
      by (simp_all only: v' digit_64)
    show ?thesis using v(2) w cont v'(2) v'' by (simp add: 3 ys utf8_enc_def min_code_def)
  qed
qed

lemma seg_split: "0 < n \<Longrightarrow> p + n \<le> length xs \<Longrightarrow> seg p n xs = xs ! p # seg (Suc p) (n - 1) xs"
  using seg_Suc [of p xs "n - 1"] by simp

lemma utf8_enc_ne [simp]: "utf8_enc c \<noteq> []" "0 < length (utf8_enc c)"
  by (simp_all add: utf8_enc_def)

text \<open>The decoder accepts the encoding of every scalar value, whatever follows it.\<close>

lemma cj_utf8_to_codepoint_enc:
  assumes "p + unat len \<le> length bs" "is_scalar c"
    and n: "n = length (utf8_enc c)" "n \<le> unat len" "seg p n bs = utf8_enc c"
  shows "cj_utf8_to_codepoint (Some bs) p len = Some (n, of_nat c)"
proof -
  have "0 < n" by (simp add: n)
  then have p: "p < length bs" "len \<noteq> 0" using assms(1) n(2) by (linarith, auto)
  have s: "bs ! p # seg (Suc p) (n - 1) bs = utf8_enc c"
    using n assms(1) \<open>0 < n\<close> by (subst seg_split [symmetric]) auto
  show ?thesis
  proof (cases "c < 128")
    case True
    with s have "bs ! p = byte c" "n = 1" by (simp_all add: n utf8_enc_def)
    then have "unat (bs ! p) = c" using True by simp
    with True p \<open>n = 1\<close> cj_utf8_to_codepoint_ascii [of p bs len] show ?thesis by (metis u64_of_nat)
  next
    case False
    with assms(2) have dec: "lead_width (unat (hd (utf8_enc c))) = n"
      "list_all is_cont (tl (utf8_enc c))" "min_code n \<le> c"
      "cont_val (tl (utf8_enc c)) (unat (hd (utf8_enc c)) - lead_base (unat (hd (utf8_enc c)))) = c"
      using utf8_enc_decode [of c] by (simp_all add: is_scalar_def n(1))
    from s have tl: "tl (utf8_enc c) = seg (Suc p) (n - 1) bs" and hd: "hd (utf8_enc c) = bs ! p"
      by (metis list.sel(3)) (metis s list.sel(1))
    have "2 \<le> n" using False by (simp add: n length_utf8_enc)
    with cj_utf8_to_codepoint_multi [OF assms(1) dec(1) [unfolded hd, symmetric] _ n(2) dec(4) [unfolded hd tl, symmetric]]
      dec(2,3) assms(2) show ?thesis by (simp add: tl)
  qed
qed

text \<open>What it accepts is the encoding of the scalar value it returns.\<close>

lemma cj_utf8_to_codepoint_cases:
  assumes len: "p + unat len \<le> length bs" "len \<noteq> 0"
  obtains (valid) n c where "cj_utf8_to_codepoint (Some bs) p len = Some (n, of_nat c)"
      "0 < n" "n \<le> unat len" "is_scalar c" "seg p n bs = utf8_enc c"
  | (invalid) "cj_utf8_to_codepoint (Some bs) p len = Some (0, 0)"
proof -
  have p: "p < length bs" using assms unat_gt_0 [of len] by linarith
  let ?b = "unat (bs ! p)"
  show thesis
  proof (cases "?b < 128")
    case True
    then have "seg p 1 bs = utf8_enc ?b" using p by (simp add: seg_Suc utf8_enc_def)
    moreover have "is_scalar ?b" using True by (simp add: is_scalar_def)
    moreover have "1 \<le> unat len" using len(2) unat_gt_0 [of len] by linarith
    ultimately show thesis
      using valid [of 1 ?b] cj_utf8_to_codepoint_ascii [OF p len(2) True] by (metis u64_of_nat zero_less_one)
  next
    case False
    let ?k = "lead_width ?b"
    show thesis
    proof (cases "?k = 0 \<or> unat len < ?k")
      case True
      with False p len(2) invalid cj_utf8_to_codepoint_bad_lead [of p bs len] show thesis by simp
    next
      case k: False
      then have k2: "2 \<le> ?k" "?k \<le> unat len" by (auto simp: lead_width_def split: if_split_asm)
      define ys where "ys = seg (Suc p) (?k - 1) bs"
      define v where "v = cont_val ys (?b - lead_base ?b)"
      note M = cj_utf8_to_codepoint_multi [OF len(1) refl k2 v_def [unfolded ys_def], folded ys_def]
      show thesis
      proof (cases "list_all is_cont ys \<and> min_code ?k \<le> v \<and> is_scalar v")
        case True
        have "length ys = ?k - 1" using k2 len(1) by (simp add: ys_def)
        then have "utf8_enc v = bs ! p # ys"
          using True k2 by (intro utf8_enc_of_decoded [OF refl]) (auto simp: v_def)
        also have "\<dots> = seg p ?k bs" using k2 len(1) by (subst seg_split) (auto simp: ys_def)
        finally show thesis using valid [of ?k v] True k2 M by auto
      next
        case False
        then show thesis by (intro invalid) (simp only: M if_False)
      qed
    qed
  qed
qed

theorem cj_utf8_to_codepoint_spec:
  assumes "p + unat len \<le> length bs"
  shows "\<exists>n cp. cj_utf8_to_codepoint (Some bs) p len = Some (n, cp) \<and>
     (if n = 0 then cp = 0 \<and> \<not> (\<exists>c k. is_scalar c \<and> k \<le> unat len \<and> seg p k bs = utf8_enc c)
      else n \<le> unat len \<and> is_scalar (unat cp) \<and> seg p n bs = utf8_enc (unat cp))"
proof (cases "len = 0")
  case True
  then show ?thesis by (simp add: cj_utf8_to_codepoint_def utf8_enc_ne(1) [symmetric])
next
  case False
  with assms show ?thesis
  proof (cases rule: cj_utf8_to_codepoint_cases)
    case (valid n c)
    have "unat (of_nat c :: u64) = c" using valid(4) by (simp add: is_scalar_def unat_of_nat)
    with valid show ?thesis by (intro exI [of _ n] exI [of _ "of_nat c"]) simp
  next
    case invalid
    have False if "is_scalar c" "k \<le> unat len" "seg p k bs = utf8_enc c" for c k
    proof -
      have "length (seg p k bs) = k" using that(2) assms by simp
      with that(3) have "k = length (utf8_enc c)" by simp
      then have "cj_utf8_to_codepoint (Some bs) p len = Some (k, of_nat c)" "0 < k"
        using cj_utf8_to_codepoint_enc [OF assms] that by simp_all
      with invalid show False by simp
    qed
    with invalid show ?thesis by auto
  qed
qed

lemma unat_ne_0: "len \<noteq> 0 \<longleftrightarrow> 0 < unat len" for len :: "'a::len word"
  by (simp add: unat_gt_0)

lemma valid_utf8_Cons:
  assumes "valid_utf8 bs" "bs \<noteq> []"
  obtains c rest where "is_scalar c" "bs = utf8_enc c @ rest" "valid_utf8 rest"
proof -
  from assms obtain cps where cps: "list_all is_scalar cps" "bs = concat (map utf8_enc cps)"
    by (auto simp: valid_utf8_def)
  with assms(2) obtain c cs where "cps = c # cs" by (cases cps) auto
  with cps that [of c "concat (map utf8_enc cs)"] show thesis by (auto simp: valid_utf8_def)
qed

lemma valid_utf8_append: "is_scalar c \<Longrightarrow> valid_utf8 rest \<Longrightarrow> valid_utf8 (utf8_enc c @ rest)"
  unfolding valid_utf8_def by (metis list.pred_inject(2) concat.simps(2) list.simps(9))

lemma utf8_enc_prefix_free:
  assumes "is_scalar c" "is_scalar d" and eq: "utf8_enc c @ r = utf8_enc d @ s"
  shows "c = d"
proof -
  define l where "l = max (length (utf8_enc c)) (length (utf8_enc d))"
  define bs where "bs = utf8_enc c @ r"
  have le: "length (utf8_enc c) \<le> l" "length (utf8_enc d) \<le> l" by (simp_all add: l_def)
  have "l \<le> 4" by (simp add: l_def length_utf8_enc)
  then have ul: "unat (of_nat l :: u64) = l" by (simp add: unat_of_nat)
  have "length (utf8_enc d) \<le> length bs" by (simp add: bs_def eq)
  then have fits: "0 + unat (of_nat l :: u64) \<le> length bs" unfolding ul by (simp add: l_def bs_def)
  have "seg 0 (length (utf8_enc c)) bs = utf8_enc c" "seg 0 (length (utf8_enc d)) bs = utf8_enc d"
    by (simp add: seg_def bs_def) (simp add: seg_def bs_def eq)
  then have "cj_utf8_to_codepoint (Some bs) 0 (of_nat l) = Some (length (utf8_enc c), of_nat c)"
    "cj_utf8_to_codepoint (Some bs) 0 (of_nat l) = Some (length (utf8_enc d), of_nat d)"
    using cj_utf8_to_codepoint_enc [OF fits assms(1) refl] cj_utf8_to_codepoint_enc [OF fits assms(2) refl] le
    unfolding ul by blast+
  then have "unat (of_nat c :: u64) = unat (of_nat d :: u64)" by simp
  with assms show "c = d" by (simp add: is_scalar_def unat_of_nat)
qed

lemma valid_utf8_append_iff:
  assumes "is_scalar c"
  shows "valid_utf8 (utf8_enc c @ rest) \<longleftrightarrow> valid_utf8 rest"
proof
  assume "valid_utf8 (utf8_enc c @ rest)"
  then obtain d rest' where d: "is_scalar d" "utf8_enc c @ rest = utf8_enc d @ rest'" "valid_utf8 rest'"
    by (rule valid_utf8_Cons) simp
  then have "c = d" using assms utf8_enc_prefix_free by blast
  with d show "valid_utf8 rest" by simp
qed (rule valid_utf8_append [OF assms])

theorem cj_is_valid_utf8_spec:
  assumes "p + unat len \<le> length bs" "len \<noteq> 0"
  shows "cj_is_valid_utf8 (Some bs) p len = Some (valid_utf8 (seg p (unat len) bs))"
  using assms
proof (induction "unat len" arbitrary: p len rule: less_induct)
  case less
  from less.prems show ?case
  proof (cases rule: cj_utf8_to_codepoint_cases)
    case (valid n c)
    have n4: "n \<le> unat len \<and> n \<le> 4" by (rule cj_utf8_to_codepoint_count [OF valid(1)])
    then have rem: "unat (len - of_nat n) = unat len - n" by (intro unat_sub_count) auto
    have len: "unat len = n + (unat len - n)" using valid(3) by simp
    have split: "seg p (unat len) bs = utf8_enc c @ seg (p + n) (unat len - n) bs"
      by (subst len, subst seg_add) (simp add: valid(5))
    have v: "valid_utf8 (utf8_enc c @ rest) \<longleftrightarrow> valid_utf8 rest" for rest
      by (rule valid_utf8_append_iff [OF valid(4)])
    show ?thesis
    proof (cases "len - of_nat n = 0")
      case True
      then have "unat len = n" using rem n4 by simp
      have "valid_utf8 []" by (auto simp: valid_utf8_def)
      then show ?thesis using valid v [of "[]"] True split \<open>unat len = n\<close> by (subst cj_is_valid_utf8.simps) simp
    next
      case False
      then have "cj_is_valid_utf8 (Some bs) (p + n) (len - of_nat n) =
          Some (valid_utf8 (seg (p + n) (unat len - n) bs))"
        using less.hyps [of "len - of_nat n" "p + n"] less.prems valid(2,3) by (simp add: rem)
      with valid False show ?thesis
        by (subst cj_is_valid_utf8.simps) (simp add: split v word_gt_0)
    qed
  next
    case invalid
    have "\<not> valid_utf8 (seg p (unat len) bs)"
    proof
      assume "valid_utf8 (seg p (unat len) bs)"
      moreover have "seg p (unat len) bs \<noteq> []"
        using less.prems unat_ne_0 [of len] by (metis length_seg list.size(3) min.absorb1 less_numeral_extra(3) le_diff_conv2 add_leD1 add.commute)
      ultimately obtain c rest where c: "is_scalar c" "seg p (unat len) bs = utf8_enc c @ rest"
        by (rule valid_utf8_Cons)
      let ?k = "length (utf8_enc c)"
      have "length (seg p (unat len) bs) = unat len" using less.prems by simp
      with c have "?k \<le> unat len" by simp
      moreover from this c(2) have "seg p ?k bs = utf8_enc c"
        by (metis append_eq_conv_conj min.absorb1 seg_def take_take)
      ultimately have "cj_utf8_to_codepoint (Some bs) p len = Some (?k, of_nat c)"
        using cj_utf8_to_codepoint_enc [OF less.prems(1) c(1) refl] by blast
      with invalid show False by simp
    qed
    with invalid show ?thesis by (subst cj_is_valid_utf8.simps) simp
  qed
qed

section \<open>The encoder\<close>

lemma ucast_byte: "(ucast (w :: u64) :: u8) = byte (unat w)"
  by (simp add: byte_def)

lemma unat_or_and:
  "unat (0x80 OR (w AND 0x3F)) = 0x80 + unat w mod 64"
  "unat (0xC0 OR (w AND 0x1F)) = 0xC0 + unat w mod 32"
  "unat (0xE0 OR (w AND 0x0F)) = 0xE0 + unat w mod 16"
  "unat (0xF0 OR (w AND 0x07)) = 0xF0 + unat w mod 8" for w :: u64
proof -
  have *: "unat (a OR (w AND b)) = unat a + unat (w AND b)"
    if "a AND b = 0" "unat a < 256" "unat (w AND b) < 64" for a b :: u64
  proof -
    have "a AND (w AND b) = 0" using that(1) by (simp only: and.left_commute [of a w b] that(1)) simp
    then have "a OR (w AND b) = a + (w AND b)" by (simp only: disjunctive_add_eq_or)
    with that(2,3) show ?thesis by (simp add: unat_word_ariths)
  qed
  show "unat (0x80 OR (w AND 0x3F)) = 0x80 + unat w mod 64"
    "unat (0xC0 OR (w AND 0x1F)) = 0xC0 + unat w mod 32"
    "unat (0xE0 OR (w AND 0x0F)) = 0xE0 + unat w mod 16"
    "unat (0xF0 OR (w AND 0x07)) = 0xF0 + unat w mod 8"
    using mod_less_divisor [of 64 "unat w"] mod_less_divisor [of 32 "unat w"] mod_less_divisor [of 16 "unat w"] mod_less_divisor [of 8 "unat w"]
    by (subst *; simp add: unat_and_numeral)+
qed

lemma unat_drop_bit_6: "unat (drop_bit 6 w) = unat w div 64" for w :: u64
  by (simp only: unsigned_drop_bit_eq) (simp add: drop_bit_eq_div take_bit_eq_mod mod_less [OF unsigned_less [of w, simplified]])

lemma wr_eq [simp]: "i < length buf \<Longrightarrow> wr buf i v = Some (buf[i := v])"
  by (simp add: wr_def)

lemma list_eq_updates:
  "Suc 0 < length b \<Longrightarrow> b[0 := x, Suc 0 := y] = x # y # drop 2 b"
  "2 < length b \<Longrightarrow> b[Suc 0 := y, 0 := x, 2 := z] = x # y # z # drop 3 b"
  "3 < length b \<Longrightarrow> b[2 := z, Suc 0 := y, 0 := x, 3 := u] = x # y # z # u # drop 4 b"
  "4 < length b \<Longrightarrow> b[3 := u, 2 := z, Suc 0 := y, 0 := x, 4 := t] = x # y # z # u # t # drop 5 b"
  by (auto simp: Suc_le_length_iff less_eq_Suc_le eval_nat_numeral)

lemma cj_unicode_to_utf8_le:
  assumes "unat sz \<le> length buf" "cp \<le> 0x10FFFF"
  defines "c \<equiv> unat cp"
  shows "cj_unicode_to_utf8 cp buf sz =
     Some (if length (utf8_enc c) < unat sz
           then (length (utf8_enc c), utf8_enc c @ 0 # drop (Suc (length (utf8_enc c))) buf)
           else (0, buf))"
proof -
  have c: "c \<le> 0x10FFFF" using assms(2) by (simp add: word_le_nat_alt c_def)
  have ne: "k < unat sz \<Longrightarrow> buf \<noteq> []" for k using assms(1) by auto
  note defs = cj_unicode_to_utf8_def word_le_nat_alt word_less_nat_alt ucast_byte c_def [symmetric]
    Let_def unat_or_and unat_drop_bit_6 div_mult2_eq [symmetric]
  consider "c < 0x80" | "0x80 \<le> c" "c < 0x800" | "0x800 \<le> c" "c < 0x10000" | "0x10000 \<le> c" by linarith
  then show ?thesis
  proof cases
    case 1
    then have e: "utf8_enc c = [byte c]" and l: "length (utf8_enc c) = 1" by (simp_all add: utf8_enc_def)
    show ?thesis unfolding l
      using 1 assms(1) list_eq_updates(1) [of buf] ne [of 1] by (simp add: defs e) (simp add: numeral_2_eq_2)
  next
    case 2
    then have e: "utf8_enc c = [byte (0xC0 + c div 64), byte (0x80 + c mod 64)]"
      and l: "length (utf8_enc c) = 2" and m: "c div 64 mod 32 = c div 64" by (simp_all add: utf8_enc_def)
    show ?thesis unfolding l
      using 2 m assms(1) list_eq_updates(2) [of buf] ne [of 2] by (simp add: defs e)
  next
    case 3
    then have e: "utf8_enc c = [byte (0xE0 + c div 4096), byte (0x80 + c div 64 mod 64), byte (0x80 + c mod 64)]"
      and l: "length (utf8_enc c) = 3" and m: "c div 4096 mod 16 = c div 4096" by (simp_all add: utf8_enc_def)
    show ?thesis unfolding l
      using 3 m assms(1) list_eq_updates(3) [of buf] ne [of 3] by (simp add: defs e)
  next
    case 4
    then have e: "utf8_enc c = [byte (0xF0 + c div 262144), byte (0x80 + c div 4096 mod 64),
         byte (0x80 + c div 64 mod 64), byte (0x80 + c mod 64)]"
      and l: "length (utf8_enc c) = 4" and m: "c div 262144 mod 8 = c div 262144"
      using c by (simp_all add: utf8_enc_def)
    show ?thesis unfolding l
      using 4 c m assms(1) list_eq_updates(4) [of buf] ne [of 4] by (simp add: defs e)
  qed
qed

theorem cj_unicode_to_utf8_spec:
  fixes cp :: u64
  assumes "unat sz \<le> length buf"
  defines "c \<equiv> if cp > 0x10FFFF then 0xFFFD else unat cp"
  shows "cj_unicode_to_utf8 cp buf sz =
     Some (if length (utf8_enc c) < unat sz
           then (length (utf8_enc c), utf8_enc c @ 0 # drop (Suc (length (utf8_enc c))) buf)
           else (0, buf))"
proof (cases "cp > 0x10FFFF")
  case True
  then have "\<not> cp \<le> 0x7F" by (simp add: word_le_nat_alt word_less_nat_alt)
  with True have "cj_unicode_to_utf8 cp buf sz = cj_unicode_to_utf8 0xFFFD buf sz"
    by (simp add: cj_unicode_to_utf8_def)
  with True cj_unicode_to_utf8_le [OF assms(1), where cp = "0xFFFD"] show ?thesis by (simp add: c_def)
next
  case False
  then have "cp \<le> 0x10FFFF" by (simp add: not_less)
  from cj_unicode_to_utf8_le [OF assms(1) this] show ?thesis by (simp only: c_def False if_False)
qed

end
