(* ===== verification/CJ_Token.thy ===== *)
theory CJ_Token
  imports CJ_Utf8
begin

text \<open>
  The data types of \<^verbatim>\<open>cj/cj.h\<close> and the tokenizer of \<^verbatim>\<open>cj/cj.c\<close>: \<open>cj_eat_white_space\<close>,
  \<open>cj_is_primitive_char\<close>, \<open>cj_alloc_token\<close> and \<open>cj_next_token\<close> with its state machine for
  primitives. Sizes are \<open>cj_size\<close>, 32 bits wide in the default build; a position is an index into
  the input block, and reading the input outside of its block is \<open>None\<close>.
\<close>

section \<open>Types of cj.h\<close>

type_synonym cj_size = u32
type_synonym cj_token_ref = cj_size

definition CJ_INVALID_TOKEN_INDEX :: cj_size where
  "CJ_INVALID_TOKEN_INDEX = NOT 0"

datatype cj_status =
    CJ_OK
  | CJ_ERROR
  | CJ_INVALID_UTF8
  | CJ_PARSE_TOKENS_EXHAUSTED
  | CJ_PARSE_PARENT_CLOSING
  | CJ_PARSE_INVALID_TOKEN
  | CJ_PARSE_INVALID_OBJECT
  | CJ_PARSE_MULTI_TOP_THINGS

datatype cj_token_type =
    CJ_TOKEN_INVALID
  | CJ_TOKEN_STRING
  | CJ_TOKEN_PRIMITIVE
  | CJ_TOKEN_ARRAY_BEG
  | CJ_TOKEN_ARRAY_END
  | CJ_TOKEN_OBJECT_BEG
  | CJ_TOKEN_OBJECT_END
  | CJ_TOKEN_ITEM_SEP
  | CJ_TOKEN_NAME_SEP

record cj_token =
  tok_type :: cj_token_type
  tok_pos :: cj_size
  tok_len :: cj_size
  tok_parent :: cj_token_ref

record cj_ctx =
  ctx_buf :: cmem
  ctx_pos :: cj_size
  ctx_size :: cj_size
  ctx_tokens :: "cj_token list option"
  ctx_tokens_pos :: cj_size
  ctx_tokens_size :: cj_size
  ctx_status :: cj_status

section \<open>Characters\<close>

abbreviation C_TAB :: u8 where "C_TAB \<equiv> 0x09"
abbreviation C_LF :: u8 where "C_LF \<equiv> 0x0A"
abbreviation C_CR :: u8 where "C_CR \<equiv> 0x0D"
abbreviation C_SPACE :: u8 where "C_SPACE \<equiv> 0x20"
abbreviation C_QUOTE :: u8 where "C_QUOTE \<equiv> 0x22"
abbreviation C_PLUS :: u8 where "C_PLUS \<equiv> 0x2B"
abbreviation C_COMMA :: u8 where "C_COMMA \<equiv> 0x2C"
abbreviation C_MINUS :: u8 where "C_MINUS \<equiv> 0x2D"
abbreviation C_DOT :: u8 where "C_DOT \<equiv> 0x2E"
abbreviation C_SLASH :: u8 where "C_SLASH \<equiv> 0x2F"
abbreviation C_0 :: u8 where "C_0 \<equiv> 0x30"
abbreviation C_1 :: u8 where "C_1 \<equiv> 0x31"
abbreviation C_9 :: u8 where "C_9 \<equiv> 0x39"
abbreviation C_COLON :: u8 where "C_COLON \<equiv> 0x3A"
abbreviation C_A :: u8 where "C_A \<equiv> 0x41"
abbreviation C_E :: u8 where "C_E \<equiv> 0x45"
abbreviation C_F :: u8 where "C_F \<equiv> 0x46"
abbreviation C_Z :: u8 where "C_Z \<equiv> 0x5A"
abbreviation C_LBRACK :: u8 where "C_LBRACK \<equiv> 0x5B"
abbreviation C_BACKSLASH :: u8 where "C_BACKSLASH \<equiv> 0x5C"
abbreviation C_RBRACK :: u8 where "C_RBRACK \<equiv> 0x5D"
abbreviation C_a :: u8 where "C_a \<equiv> 0x61"
abbreviation C_b :: u8 where "C_b \<equiv> 0x62"
abbreviation C_e :: u8 where "C_e \<equiv> 0x65"
abbreviation C_f :: u8 where "C_f \<equiv> 0x66"
abbreviation C_l :: u8 where "C_l \<equiv> 0x6C"
abbreviation C_n :: u8 where "C_n \<equiv> 0x6E"
abbreviation C_r :: u8 where "C_r \<equiv> 0x72"
abbreviation C_s :: u8 where "C_s \<equiv> 0x73"
abbreviation C_t :: u8 where "C_t \<equiv> 0x74"
abbreviation C_u :: u8 where "C_u \<equiv> 0x75"
abbreviation C_z :: u8 where "C_z \<equiv> 0x7A"
abbreviation C_LBRACE :: u8 where "C_LBRACE \<equiv> 0x7B"
abbreviation C_RBRACE :: u8 where "C_RBRACE \<equiv> 0x7D"

definition is_white_space :: "u8 \<Rightarrow> bool" where
  "is_white_space c \<longleftrightarrow> c = C_SPACE \<or> c = C_TAB \<or> c = C_CR \<or> c = C_LF"

definition is_digit :: "u8 \<Rightarrow> bool" where
  "is_digit c \<longleftrightarrow> C_0 \<le> c \<and> c \<le> C_9"

definition is_hex_digit :: "u8 \<Rightarrow> bool" where
  "is_hex_digit c \<longleftrightarrow> (C_a \<le> c \<and> c \<le> C_f) \<or> (C_A \<le> c \<and> c \<le> C_F) \<or> is_digit c"

section \<open>White space\<close>

text \<open>
  The loop of \<open>cj_eat_white_space\<close> reads \<open>str[result]\<close> before it compares \<open>result\<close> with
  \<open>len\<close>, as the C condition does.
\<close>

function cj_eat_white_space_loop :: "cmem \<Rightarrow> nat \<Rightarrow> u64 \<Rightarrow> u64 \<Rightarrow> u64 option" where
  "cj_eat_white_space_loop m str len result =
     (case rd m (str + unat result) of
        None \<Rightarrow> None
      | Some c \<Rightarrow>
          if c \<noteq> 0 \<and> result < len then
            (if is_white_space c then cj_eat_white_space_loop m str len (result + 1) else Some result)
          else Some result)"
  by pat_completeness auto

termination cj_eat_white_space_loop
  by (relation "measure (\<lambda>(m, str, len, result). unat len - unat result)")
    (auto simp: unat_inc word_less_nat_alt)

declare cj_eat_white_space_loop.simps [simp del]

definition cj_eat_white_space :: "cmem \<Rightarrow> nat \<Rightarrow> u64 \<Rightarrow> u64 option" where
  "cj_eat_white_space m str len = cj_eat_white_space_loop m str len 0"

definition cj_is_primitive_char :: "u8 \<Rightarrow> bool" where
  "cj_is_primitive_char c \<longleftrightarrow>
     is_digit c \<or> (C_a \<le> c \<and> c \<le> C_z) \<or> (C_A \<le> c \<and> c \<le> C_Z) \<or>
     c = C_PLUS \<or> c = C_DOT \<or> c = C_MINUS"

section \<open>Token allocation\<close>

text \<open>
  Reading and writing the token array; an index outside of it is \<open>None\<close>.
\<close>

definition tok_at :: "cj_ctx \<Rightarrow> cj_token_ref \<Rightarrow> cj_token option" where
  "tok_at ctx i = (case ctx_tokens ctx of None \<Rightarrow> None
     | Some ts \<Rightarrow> if unat i < length ts then Some (ts ! unat i) else None)"

definition tok_set :: "cj_ctx \<Rightarrow> cj_token_ref \<Rightarrow> cj_token \<Rightarrow> cj_ctx option" where
  "tok_set ctx i t = (case ctx_tokens ctx of None \<Rightarrow> None
     | Some ts \<Rightarrow> if unat i < length ts then Some (ctx\<lparr>ctx_tokens := Some (ts[unat i := t])\<rparr>) else None)"

text \<open>
  The result is the reference (\<open>CJ_INVALID_TOKEN_INDEX\<close> when the array is used up, where the C
  code stores the null pointer in \<^verbatim>\<open>*tok\<close>) and the context.
\<close>

definition cj_alloc_token :: "cj_ctx \<Rightarrow> (cj_token_ref \<times> cj_ctx) option" where
  "cj_alloc_token ctx =
     (if ctx_tokens_pos ctx < ctx_tokens_size ctx then do {
        let result = ctx_tokens_pos ctx;
        let ctx = ctx\<lparr>ctx_tokens_pos := ctx_tokens_pos ctx + 1\<rparr>;
        t \<leftarrow> tok_at ctx result;
        ctx \<leftarrow> tok_set ctx result (t\<lparr>tok_type := CJ_TOKEN_INVALID, tok_parent := CJ_INVALID_TOKEN_INDEX\<rparr>);
        Some (result, ctx) }
      else Some (CJ_INVALID_TOKEN_INDEX, ctx))"

section \<open>The state machine of primitives\<close>

datatype cj_primitive_state =
    CJ_PRIM_STATE_INIT
  | CJ_PRIM_STATE_NULL_N
  | CJ_PRIM_STATE_NULL_U
  | CJ_PRIM_STATE_NULL_L1
  | CJ_PRIM_STATE_TRUE_T
  | CJ_PRIM_STATE_TRUE_R
  | CJ_PRIM_STATE_TRUE_U
  | CJ_PRIM_STATE_FALSE_F
  | CJ_PRIM_STATE_FALSE_A
  | CJ_PRIM_STATE_FALSE_L
  | CJ_PRIM_STATE_FALSE_S
  | CJ_PRIM_STATE_FALSE_E
  | CJ_PRIM_STATE_NUMBER_SIGN
  | CJ_PRIM_STATE_NUMBER_INITIAL_ZERO
  | CJ_PRIM_STATE_NUMBER_DIGIT
  | CJ_PRIM_STATE_NUMBER_DOT
  | CJ_PRIM_STATE_NUMBER_FRACT_DIGIT
  | CJ_PRIM_STATE_NUMBER_EXP_E
  | CJ_PRIM_STATE_NUMBER_EXP_SIGN
  | CJ_PRIM_STATE_NUMBER_EXP_DIGIT
  | CJ_PRIM_STATE_FINISH

text \<open>The big switch: \<open>CJ_PRIM_STATE_INIT\<close> as the next state means that \<open>ch\<close> does not go on.\<close>

fun prim_next :: "cj_primitive_state \<Rightarrow> u8 \<Rightarrow> cj_primitive_state" where
  "prim_next CJ_PRIM_STATE_INIT ch =
     (if ch = C_n then CJ_PRIM_STATE_NULL_N
      else if ch = C_t then CJ_PRIM_STATE_TRUE_T
      else if ch = C_f then CJ_PRIM_STATE_FALSE_F
      else if ch = C_MINUS then CJ_PRIM_STATE_NUMBER_SIGN
      else if ch = C_0 then CJ_PRIM_STATE_NUMBER_INITIAL_ZERO
      else if C_1 \<le> ch \<and> ch \<le> C_9 then CJ_PRIM_STATE_NUMBER_DIGIT
      else CJ_PRIM_STATE_INIT)"
| "prim_next CJ_PRIM_STATE_NUMBER_SIGN ch =
     (if ch = C_0 then CJ_PRIM_STATE_NUMBER_INITIAL_ZERO
      else if C_1 \<le> ch \<and> ch \<le> C_9 then CJ_PRIM_STATE_NUMBER_DIGIT
      else CJ_PRIM_STATE_INIT)"
| "prim_next CJ_PRIM_STATE_NUMBER_DIGIT ch =
     (if is_digit ch then CJ_PRIM_STATE_NUMBER_DIGIT
      else if ch = C_DOT then CJ_PRIM_STATE_NUMBER_DOT
      else if ch = C_e \<or> ch = C_E then CJ_PRIM_STATE_NUMBER_EXP_E
      else CJ_PRIM_STATE_INIT)"
| "prim_next CJ_PRIM_STATE_NUMBER_INITIAL_ZERO ch =
     (if ch = C_DOT then CJ_PRIM_STATE_NUMBER_DOT
      else if ch = C_e \<or> ch = C_E then CJ_PRIM_STATE_NUMBER_EXP_E
      else CJ_PRIM_STATE_INIT)"
| "prim_next CJ_PRIM_STATE_NUMBER_DOT ch =
     (if is_digit ch then CJ_PRIM_STATE_NUMBER_FRACT_DIGIT else CJ_PRIM_STATE_INIT)"
| "prim_next CJ_PRIM_STATE_NUMBER_FRACT_DIGIT ch =
     (if is_digit ch then CJ_PRIM_STATE_NUMBER_FRACT_DIGIT
      else if ch = C_e \<or> ch = C_E then CJ_PRIM_STATE_NUMBER_EXP_E
      else CJ_PRIM_STATE_INIT)"
| "prim_next CJ_PRIM_STATE_NUMBER_EXP_E ch =
     (if is_digit ch then CJ_PRIM_STATE_NUMBER_EXP_DIGIT
      else if ch = C_PLUS \<or> ch = C_MINUS then CJ_PRIM_STATE_NUMBER_EXP_SIGN
      else CJ_PRIM_STATE_INIT)"
| "prim_next CJ_PRIM_STATE_NUMBER_EXP_SIGN ch =
     (if is_digit ch then CJ_PRIM_STATE_NUMBER_EXP_DIGIT else CJ_PRIM_STATE_INIT)"
| "prim_next CJ_PRIM_STATE_NUMBER_EXP_DIGIT ch =
     (if is_digit ch then CJ_PRIM_STATE_NUMBER_EXP_DIGIT else CJ_PRIM_STATE_INIT)"
| "prim_next CJ_PRIM_STATE_NULL_N ch = (if ch = C_u then CJ_PRIM_STATE_NULL_U else CJ_PRIM_STATE_INIT)"
| "prim_next CJ_PRIM_STATE_NULL_U ch = (if ch = C_l then CJ_PRIM_STATE_NULL_L1 else CJ_PRIM_STATE_INIT)"
| "prim_next CJ_PRIM_STATE_NULL_L1 ch = (if ch = C_l then CJ_PRIM_STATE_FINISH else CJ_PRIM_STATE_INIT)"
| "prim_next CJ_PRIM_STATE_TRUE_T ch = (if ch = C_r then CJ_PRIM_STATE_TRUE_R else CJ_PRIM_STATE_INIT)"
| "prim_next CJ_PRIM_STATE_TRUE_R ch = (if ch = C_u then CJ_PRIM_STATE_TRUE_U else CJ_PRIM_STATE_INIT)"
| "prim_next CJ_PRIM_STATE_TRUE_U ch = (if ch = C_e then CJ_PRIM_STATE_FINISH else CJ_PRIM_STATE_INIT)"
| "prim_next CJ_PRIM_STATE_FALSE_F ch = (if ch = C_a then CJ_PRIM_STATE_FALSE_A else CJ_PRIM_STATE_INIT)"
| "prim_next CJ_PRIM_STATE_FALSE_A ch = (if ch = C_l then CJ_PRIM_STATE_FALSE_L else CJ_PRIM_STATE_INIT)"
| "prim_next CJ_PRIM_STATE_FALSE_L ch = (if ch = C_s then CJ_PRIM_STATE_FALSE_S else CJ_PRIM_STATE_INIT)"
| "prim_next CJ_PRIM_STATE_FALSE_S ch = (if ch = C_e then CJ_PRIM_STATE_FINISH else CJ_PRIM_STATE_INIT)"
| "prim_next _ ch = CJ_PRIM_STATE_INIT"

text \<open>The states in which a primitive may end (the inner switch).\<close>

definition prim_end_state :: "cj_primitive_state \<Rightarrow> bool" where
  "prim_end_state s \<longleftrightarrow> s = CJ_PRIM_STATE_NUMBER_EXP_DIGIT \<or> s = CJ_PRIM_STATE_NUMBER_FRACT_DIGIT \<or>
     s = CJ_PRIM_STATE_NUMBER_INITIAL_ZERO \<or> s = CJ_PRIM_STATE_NUMBER_DIGIT"

section \<open>The tokenizer\<close>

text \<open>
  One structural character.
\<close>

definition structural_token :: "u8 \<Rightarrow> cj_token_type option" where
  "structural_token ch =
     (if ch = C_LBRACE then Some CJ_TOKEN_OBJECT_BEG
      else if ch = C_RBRACE then Some CJ_TOKEN_OBJECT_END
      else if ch = C_LBRACK then Some CJ_TOKEN_ARRAY_BEG
      else if ch = C_RBRACK then Some CJ_TOKEN_ARRAY_END
      else if ch = C_COMMA then Some CJ_TOKEN_ITEM_SEP
      else if ch = C_COLON then Some CJ_TOKEN_NAME_SEP
      else None)"

text \<open>
  The escape counter inside a string: 0 outside an escape, 1 after the backslash, 2 to 5 before the
  four hex digits. \<open>None\<close>: the token is invalid.
\<close>

definition string_esc_next :: "nat \<Rightarrow> u8 \<Rightarrow> nat option" where
  "string_esc_next esc ch =
     (if esc = 0 then
        (if ch < 0x20 then None else if ch = C_BACKSLASH then Some 1 else Some 0)
      else if esc = 1 then
        (if ch \<in> {C_QUOTE, C_n, C_BACKSLASH, C_SLASH, C_t, C_r, C_b, C_f} then Some 0
         else if ch = C_u then Some 2
         else None)
      else if is_hex_digit ch then (if esc + 1 = 6 then Some 0 else Some (esc + 1))
      else None)"

text \<open>
  The loop of \<open>cj_next_token\<close>. A primitive starts with \<^verbatim>\<open>pos--\<close>, so that the \<^verbatim>\<open>pos++\<close> of the
  for loop comes back to its first character (through \<open>2^32 - 1\<close> when \<open>pos\<close> is 0). The state
  \<open>prim_state\<close> has no value before that; the initial call passes \<open>CJ_PRIM_STATE_INIT\<close>.
  Leaving the loop at the end of the input keeps whatever the token is, except that an open
  string is invalid.
\<close>

function cj_next_token_loop ::
  "cmem \<Rightarrow> cj_size \<Rightarrow> cj_size \<Rightarrow> cj_token \<Rightarrow> nat \<Rightarrow> cj_primitive_state \<Rightarrow> (cj_size \<times> cj_token) option" where
  "cj_next_token_loop str len pos tok esc prim_state =
     (if pos < len then
        (case rd str (unat pos) of
           None \<Rightarrow> None
         | Some ch \<Rightarrow>
             if tok_type tok = CJ_TOKEN_INVALID then
               (case structural_token ch of
                  Some ty \<Rightarrow> Some (pos + 1, tok\<lparr>tok_type := ty, tok_len := 1\<rparr>)
                | None \<Rightarrow>
                    if ch = C_QUOTE then
                      cj_next_token_loop str len (pos + 1)
                        (tok\<lparr>tok_type := CJ_TOKEN_STRING, tok_pos := tok_pos tok + 1\<rparr>) esc prim_state
                    else
                      cj_next_token_loop str len (pos - 1 + 1)
                        (tok\<lparr>tok_type := CJ_TOKEN_PRIMITIVE, tok_len := 0\<rparr>) esc CJ_PRIM_STATE_INIT)
             else if tok_type tok = CJ_TOKEN_STRING then
               (if esc = 0 \<and> ch = C_QUOTE then Some (pos + 1, tok)
                else case string_esc_next esc ch of
                  None \<Rightarrow> Some (pos, tok\<lparr>tok_type := CJ_TOKEN_INVALID\<rparr>)
                | Some esc' \<Rightarrow>
                    cj_next_token_loop str len (pos + 1) (tok\<lparr>tok_len := tok_len tok + 1\<rparr>) esc' prim_state)
             else if tok_type tok = CJ_TOKEN_PRIMITIVE then
               (if ch = 0 then Some (pos, tok\<lparr>tok_type := CJ_TOKEN_INVALID\<rparr>)
                else
                  let prim_state_next = prim_next prim_state ch in
                  if prim_state_next = CJ_PRIM_STATE_INIT then
                    (if prim_end_state prim_state then Some (pos, tok)
                     else Some (pos, tok\<lparr>tok_type := CJ_TOKEN_INVALID\<rparr>))
                  else if prim_state_next = CJ_PRIM_STATE_FINISH then
                    Some (pos + 1, tok\<lparr>tok_len := tok_len tok + 1\<rparr>)
                  else
                    cj_next_token_loop str len (pos + 1) (tok\<lparr>tok_len := tok_len tok + 1\<rparr>) esc prim_state_next)
             else Some (pos, tok))
      else if tok_type tok = CJ_TOKEN_STRING then Some (pos, tok\<lparr>tok_type := CJ_TOKEN_INVALID\<rparr>)
      else Some (pos, tok))"
  by pat_completeness auto

termination cj_next_token_loop
  by (relation "measure (\<lambda>(str, len, pos, tok, esc, prim).
        2 * (unat len - unat pos) + (if tok_type tok = CJ_TOKEN_INVALID then 1 else 0))")
    (auto simp: unat_inc word_less_nat_alt)

declare cj_next_token_loop.simps [simp del]

definition cj_next_token :: "cmem \<Rightarrow> cj_size \<Rightarrow> cj_size \<Rightarrow> cj_token \<Rightarrow> (cj_size \<times> cj_token) option" where
  "cj_next_token str len pos tok = do {
     c_assert (pos \<le> len);
     ws \<leftarrow> cj_eat_white_space str (unat pos) (ucast (len - pos));
     let pos = pos + ucast ws;
     let tok = tok\<lparr>tok_type := CJ_TOKEN_INVALID, tok_pos := pos, tok_len := 0\<rparr>;
     cj_next_token_loop str len pos tok 0 CJ_PRIM_STATE_INIT }"

section \<open>White space and bounds\<close>

lemma cj_eat_white_space_loop_spec:
  assumes "unat r \<le> unat len"
    and "p + unat len < length bs \<or>
      (\<exists>i. unat r \<le> i \<and> i < unat len \<and> p + i < length bs \<and> \<not> is_white_space (bs ! (p + i)))"
  shows "\<exists>r'. cj_eat_white_space_loop (Some bs) p len r = Some r' \<and> unat r \<le> unat r' \<and> unat r' \<le> unat len \<and>
     (\<forall>i. unat r \<le> i \<and> i < unat r' \<longrightarrow> is_white_space (bs ! (p + i))) \<and>
     (unat r' < unat len \<longrightarrow> \<not> is_white_space (bs ! (p + unat r')))"
  using assms
proof (induction "unat len - unat r" arbitrary: r rule: less_induct)
  case less
  from less.prems have in_block: "p + unat r < length bs"
    by auto
  show ?case
  proof (cases "bs ! (p + unat r) \<noteq> 0 \<and> r < len \<and> is_white_space (bs ! (p + unat r))")
    case False
    with in_block less.prems show ?thesis
      by (subst cj_eat_white_space_loop.simps) (auto simp: word_less_nat_alt is_white_space_def)
  next
    case True
    then have inc: "unat (r + 1) = Suc (unat r)"
      by (auto intro: unat_inc)
    have less_len: "unat r < unat len"
      using True by (simp add: word_less_nat_alt)
    then have m: "unat len - unat (r + 1) < unat len - unat r" "unat (r + 1) \<le> unat len"
      unfolding inc by linarith+
    have "p + unat len < length bs \<or> (\<exists>i. unat (r + 1) \<le> i \<and> i < unat len \<and> p + i < length bs \<and> \<not> is_white_space (bs ! (p + i)))"
      using less.prems(2) True unfolding inc by (metis Suc_leI le_neq_implies_less)
    then obtain r' where r': "cj_eat_white_space_loop (Some bs) p len (r + 1) = Some r'"
      "unat (r + 1) \<le> unat r'" "unat r' \<le> unat len"
      "\<forall>i. unat (r + 1) \<le> i \<and> i < unat r' \<longrightarrow> is_white_space (bs ! (p + i))"
      "unat r' < unat len \<longrightarrow> \<not> is_white_space (bs ! (p + unat r'))"
      using less.hyps [OF m] by blast
    have "\<forall>i. unat r \<le> i \<and> i < unat r' \<longrightarrow> is_white_space (bs ! (p + i))"
      using r'(4) True inc by (metis Suc_leI le_neq_implies_less)
    with r' True inc in_block show ?thesis
      by (subst cj_eat_white_space_loop.simps) auto
  qed
qed

lemma cj_eat_white_space_spec:
  assumes "p + unat len < length bs \<or>
      (\<exists>i < unat len. p + i < length bs \<and> \<not> is_white_space (bs ! (p + i)))"
  obtains w where "cj_eat_white_space (Some bs) p len = Some w" "unat w \<le> unat len"
    "\<And>i. i < unat w \<Longrightarrow> is_white_space (bs ! (p + i))"
    "unat w < unat len \<Longrightarrow> \<not> is_white_space (bs ! (p + unat w))"
proof -
  from assms have "p + unat len < length bs \<or>
      (\<exists>i. unat (0::u64) \<le> i \<and> i < unat len \<and> p + i < length bs \<and> \<not> is_white_space (bs ! (p + i)))"
    by auto
  from cj_eat_white_space_loop_spec [OF _ this] that show ?thesis
    unfolding cj_eat_white_space_def by auto
qed

section \<open>Strings\<close>

text \<open>What the body of a JSON string may be, from the grammar.\<close>

definition simple_escapes :: "u8 set" where
  "simple_escapes = {C_QUOTE, C_n, C_BACKSLASH, C_SLASH, C_t, C_r, C_b, C_f}"

inductive json_chars :: "u8 list \<Rightarrow> bool" where
  chars_Nil: "json_chars []"
| chars_plain: "0x20 \<le> c \<Longrightarrow> c \<noteq> C_QUOTE \<Longrightarrow> c \<noteq> C_BACKSLASH \<Longrightarrow> json_chars cs \<Longrightarrow> json_chars (c # cs)"
| chars_escape: "e \<in> simple_escapes \<Longrightarrow> json_chars cs \<Longrightarrow> json_chars (C_BACKSLASH # e # cs)"
| chars_unicode: "list_all is_hex_digit [h1, h2, h3, h4] \<Longrightarrow> json_chars cs \<Longrightarrow>
    json_chars (C_BACKSLASH # C_u # h1 # h2 # h3 # h4 # cs)"

inductive_simps json_chars_Nil [simp]: "json_chars []"
inductive_simps json_chars_Cons: "json_chars (c # cs)"

text \<open>The scanner's counter over a list of bytes; an unescaped quote ends the scan.\<close>

fun string_run :: "nat \<Rightarrow> u8 list \<Rightarrow> nat option" where
  "string_run esc [] = Some esc"
| "string_run esc (c # cs) = (if esc = 0 \<and> c = C_QUOTE then None else
     case string_esc_next esc c of None \<Rightarrow> None | Some esc' \<Rightarrow> string_run esc' cs)"

text \<open>The rest of a body, from inside an escape.\<close>

definition rest_chars :: "nat \<Rightarrow> u8 list \<Rightarrow> bool" where
  "rest_chars esc cs \<longleftrightarrow>
     (if esc = 0 then json_chars cs
      else if esc = 1 then json_chars (C_BACKSLASH # cs)
      else 6 - esc \<le> length cs \<and> list_all is_hex_digit (take (6 - esc) cs) \<and> json_chars (drop (6 - esc) cs))"

lemma rest_chars_Nil [simp]: "esc < 6 \<Longrightarrow> rest_chars esc [] \<longleftrightarrow> esc = 0"
  by (auto simp: rest_chars_def json_chars_Cons simple_escapes_def)

lemma string_esc_next_less: "string_esc_next esc c = Some esc' \<Longrightarrow> esc < 6 \<Longrightarrow> esc' < 6"
  by (auto simp: string_esc_next_def split: if_splits)

lemma rest_chars_hex:
  assumes "2 \<le> esc" "esc < 6"
  shows "rest_chars esc (c # cs) \<longleftrightarrow> is_hex_digit c \<and> rest_chars (if esc + 1 = 6 then 0 else esc + 1) cs"
proof -
  obtain k where k: "6 - esc = Suc k" "k = 5 - esc" using assms by (auto intro: that [of "5 - esc"])
  with assms show ?thesis by (auto simp: rest_chars_def)
qed

lemma rest_chars_esc:
  "rest_chars 1 (c # cs) \<longleftrightarrow> c \<in> simple_escapes \<and> json_chars cs \<or> c = C_u \<and> rest_chars 2 cs"
proof -
  have "rest_chars 2 cs \<longleftrightarrow> (\<exists>h1 h2 h3 h4 cs'. cs = h1 # h2 # h3 # h4 # cs' \<and> list_all is_hex_digit [h1, h2, h3, h4] \<and> json_chars cs')"
    by (cases cs; cases "tl cs"; cases "tl (tl cs)"; cases "tl (tl (tl cs))") (auto simp: rest_chars_def)
  then show ?thesis
    by (auto simp: rest_chars_def json_chars_Cons)
qed

lemma string_run_iff:
  "esc < 6 \<Longrightarrow> string_run esc cs = Some 0 \<longleftrightarrow> rest_chars esc cs"
proof (induction cs arbitrary: esc)
  case Nil
  then show ?case by auto
next
  case (Cons c cs)
  consider "esc = 0" | "esc = 1" | "2 \<le> esc" by linarith
  then show ?case
  proof cases
    case 1
    then show ?thesis using Cons
      by (auto simp: rest_chars_def json_chars_Cons string_esc_next_def not_less split: if_splits)
  next
    case 2
    have "string_run 1 (c # cs) = Some 0 \<longleftrightarrow> c \<in> simple_escapes \<and> string_run 0 cs = Some 0 \<or> c = C_u \<and> string_run 2 cs = Some 0"
      by (auto simp: string_esc_next_def simple_escapes_def)
    with 2 Cons.IH [of 0] Cons.IH [of 2] show ?thesis
      by (simp add: rest_chars_esc del: string_run.simps One_nat_def) (simp add: rest_chars_def)
  next
    case 3
    have "string_run esc (c # cs) = Some 0 \<longleftrightarrow> is_hex_digit c \<and> string_run (if esc + 1 = 6 then 0 else esc + 1) cs = Some 0"
      using 3 by (auto simp: string_esc_next_def)
    also have "\<dots> \<longleftrightarrow> is_hex_digit c \<and> rest_chars (if esc + 1 = 6 then 0 else esc + 1) cs"
      using Cons.prems by (subst Cons.IH) auto
    also have "\<dots> \<longleftrightarrow> rest_chars esc (c # cs)"
      using 3 Cons.prems by (rule rest_chars_hex [symmetric])
    finally show ?thesis .
  qed
qed

lemma string_run_body: "string_run 0 cs = Some 0 \<longleftrightarrow> json_chars cs"
  by (simp add: string_run_iff) (simp add: rest_chars_def)

text \<open>
  The scan for the end of a string over a list of bytes: the number of bytes before the closing
  quote. \<open>cj_next_token\<close> inside a string is this scan.
\<close>

fun scan_string :: "nat \<Rightarrow> u8 list \<Rightarrow> nat option" where
  "scan_string esc [] = None"
| "scan_string esc (c # cs) = (if esc = 0 \<and> c = C_QUOTE then Some 0 else
     case string_esc_next esc c of None \<Rightarrow> None | Some esc' \<Rightarrow> map_option Suc (scan_string esc' cs))"

lemma scan_string_iff:
  "scan_string esc cs = Some n \<longleftrightarrow> n < length cs \<and> cs ! n = C_QUOTE \<and> string_run esc (take n cs) = Some 0"
proof (induction cs arbitrary: esc n)
  case (Cons c cs)
  then show ?case
    by (cases n) (auto split: option.splits)
qed simp

lemma seg_step: "p < q \<Longrightarrow> q \<le> length xs \<Longrightarrow> seg p (q - p) xs = xs ! p # seg (Suc p) (q - Suc p) xs"
  by (metis Suc_diff_Suc less_le_trans seg_Suc)

lemma string_loop_spec:
  assumes "unat pos \<le> unat len" "unat len \<le> length bs" "tok_type tok = CJ_TOKEN_STRING"
  shows "case scan_string esc (seg (unat pos) (unat len - unat pos) bs) of
      Some n \<Rightarrow> cj_next_token_loop (Some bs) len pos tok esc ps = Some (pos + of_nat n + 1, tok\<lparr>tok_len := tok_len tok + of_nat n\<rparr>)
    | None \<Rightarrow> \<exists>pos' tok'. cj_next_token_loop (Some bs) len pos tok esc ps = Some (pos', tok') \<and>
        tok_type tok' = CJ_TOKEN_INVALID \<and> unat pos \<le> unat pos' \<and> unat pos' \<le> unat len"
  using assms
proof (induction "unat len - unat pos" arbitrary: pos tok esc rule: less_induct)
  case less
  show ?case
  proof (cases "pos < len")
    case False
    then have "unat pos = unat len" using less.prems by (simp add: word_less_nat_alt)
    with less.prems False show ?thesis
      by (subst cj_next_token_loop.simps) simp
  next
    case True
    then have p: "unat pos < unat len" "unat pos < length bs" and inc: "unat (pos + 1) = Suc (unat pos)"
      using less.prems by (auto simp: word_less_nat_alt unat_inc)
    let ?c = "bs ! unat pos" and ?tok = "tok\<lparr>tok_len := tok_len tok + 1\<rparr>"
    have seg: "seg (unat pos) (unat len - unat pos) bs = ?c # seg (unat (pos + 1)) (unat len - unat (pos + 1)) bs"
      unfolding inc using p less.prems by (intro seg_step) auto
    have m: "unat len - unat (pos + 1) < unat len - unat pos" "unat (pos + 1) \<le> unat len"
      using p unfolding inc by linarith+
    have step: "cj_next_token_loop (Some bs) len pos tok esc ps =
      (if esc = 0 \<and> ?c = C_QUOTE then Some (pos + 1, tok)
       else case string_esc_next esc ?c of None \<Rightarrow> Some (pos, tok\<lparr>tok_type := CJ_TOKEN_INVALID\<rparr>)
         | Some esc' \<Rightarrow> cj_next_token_loop (Some bs) len (pos + 1) ?tok esc' ps)"
      using True p less.prems(3) by (subst cj_next_token_loop.simps) simp
    show ?thesis
    proof (cases "string_esc_next esc ?c")
      case None
      then show ?thesis using p unfolding seg step by simp
    next
      case (Some esc')
      have "unat pos \<le> unat (1 + pos)"
        using inc by (simp add: add.commute)
      note le = le_trans [OF this]
      show ?thesis
        using less.hyps [OF m less.prems(2), of ?tok esc'] less.prems(3) Some p unfolding seg step
        by (auto simp: inc add_ac split: option.splits intro: le)
    qed
  qed
qed

section \<open>Primitives\<close>

text \<open>The grammar of JSON literals and numbers.\<close>

definition json_literal :: "u8 list \<Rightarrow> bool" where
  "json_literal xs \<longleftrightarrow> xs = [C_n, C_u, C_l, C_l] \<or> xs = [C_t, C_r, C_u, C_e] \<or> xs = [C_f, C_a, C_l, C_s, C_e]"

definition json_digits :: "u8 list \<Rightarrow> bool" where
  "json_digits xs \<longleftrightarrow> list_all is_digit xs"

definition json_digits1 :: "u8 list \<Rightarrow> bool" where
  "json_digits1 xs \<longleftrightarrow> xs \<noteq> [] \<and> list_all is_digit xs"

fun json_exp_tail :: "u8 list \<Rightarrow> bool" where
  "json_exp_tail (c # xs) = (if c = C_PLUS \<or> c = C_MINUS then json_digits1 xs else json_digits1 (c # xs))"
| "json_exp_tail [] = False"

fun json_exp :: "u8 list \<Rightarrow> bool" where
  "json_exp [] = True"
| "json_exp (c # xs) = ((c = C_e \<or> c = C_E) \<and> json_exp_tail xs)"

definition json_frac :: "u8 list \<Rightarrow> bool" where
  "json_frac xs \<longleftrightarrow> xs = [] \<or> (\<exists>ds. xs = C_DOT # ds \<and> json_digits1 ds)"

definition json_int :: "u8 list \<Rightarrow> bool" where
  "json_int xs \<longleftrightarrow> xs = [C_0] \<or> (\<exists>d ds. xs = d # ds \<and> C_1 \<le> d \<and> d \<le> C_9 \<and> json_digits ds)"

definition json_number :: "u8 list \<Rightarrow> bool" where
  "json_number xs \<longleftrightarrow> (\<exists>s i f e. xs = s @ i @ f @ e \<and> (s = [] \<or> s = [C_MINUS]) \<and>
     json_int i \<and> json_frac f \<and> json_exp e)"

definition json_primitive :: "u8 list \<Rightarrow> bool" where
  "json_primitive xs \<longleftrightarrow> json_literal xs \<or> json_number xs"


text \<open>The words the automaton accepts from each of its states.\<close>

fun prim_accepts :: "cj_primitive_state \<Rightarrow> u8 list \<Rightarrow> bool" where
  "prim_accepts s [] \<longleftrightarrow> prim_end_state s \<or> s = CJ_PRIM_STATE_FINISH"
| "prim_accepts s (c # cs) \<longleftrightarrow> prim_next s c \<noteq> CJ_PRIM_STATE_INIT \<and> prim_accepts (prim_next s c) cs"

lemma is_digit_consts [simp]:
  "is_digit C_0" "\<not> is_digit C_DOT" "\<not> is_digit C_e" "\<not> is_digit C_E" "\<not> is_digit C_PLUS" "\<not> is_digit C_MINUS"
  by (simp_all add: is_digit_def)

lemma is_digit_not: "is_digit c \<Longrightarrow> c \<noteq> C_DOT \<and> c \<noteq> C_e \<and> c \<noteq> C_E \<and> c \<noteq> C_PLUS \<and> c \<noteq> C_MINUS \<and> c \<noteq> 0"
  by (auto simp: is_digit_def)

lemma accepts_finish [simp]: "prim_accepts CJ_PRIM_STATE_FINISH xs \<longleftrightarrow> xs = []"
  by (cases xs) auto

lemma accepts_exp_digit [simp]: "prim_accepts CJ_PRIM_STATE_NUMBER_EXP_DIGIT xs \<longleftrightarrow> json_digits xs"
  by (induction xs) (auto simp: prim_end_state_def json_digits_def)

lemma accepts_exp_sign [simp]: "prim_accepts CJ_PRIM_STATE_NUMBER_EXP_SIGN xs \<longleftrightarrow> json_digits1 xs"
  by (cases xs) (auto simp: prim_end_state_def json_digits_def json_digits1_def)

lemma accepts_exp [simp]: "prim_accepts CJ_PRIM_STATE_NUMBER_EXP_E xs \<longleftrightarrow> json_exp_tail xs"
  by (cases xs) (auto simp: prim_end_state_def json_digits_def json_digits1_def dest: is_digit_not)

lemma json_exp_digit: "is_digit c \<Longrightarrow> \<not> json_exp (c # cs)"
  using is_digit_not by auto

lemma split_Cons: "(\<exists>xs ys. c # cs = xs @ ys \<and> P xs \<and> Q ys) \<longleftrightarrow>
    P [] \<and> Q (c # cs) \<or> (\<exists>xs ys. cs = xs @ ys \<and> P (c # xs) \<and> Q ys)"
  by (auto simp: Cons_eq_append_conv)

text \<open>A word that is digits and then something of a language which no digit starts.\<close>

lemma digits_then:
  assumes "\<And>c cs. is_digit c \<Longrightarrow> \<not> L (c # cs)"
  shows "(\<exists>ds r. c # cs = ds @ r \<and> json_digits ds \<and> L r) \<longleftrightarrow>
    (if is_digit c then (\<exists>ds r. cs = ds @ r \<and> json_digits ds \<and> L r) else L (c # cs))"
proof (cases "is_digit c")
  case True
  show ?thesis
  proof
    assume "\<exists>ds r. c # cs = ds @ r \<and> json_digits ds \<and> L r"
    then obtain ds r where "c # cs = ds @ r" "json_digits ds" "L r" by blast
    with True assms [OF True] show "if is_digit c then (\<exists>ds r. cs = ds @ r \<and> json_digits ds \<and> L r) else L (c # cs)"
      by (cases ds) (auto simp: json_digits_def)
  next
    assume "if is_digit c then (\<exists>ds r. cs = ds @ r \<and> json_digits ds \<and> L r) else L (c # cs)"
    with True obtain ds r where "cs = ds @ r" "json_digits ds" "L r" by auto
    with True show "\<exists>ds r. c # cs = ds @ r \<and> json_digits ds \<and> L r"
      by (intro exI [of _ "c # ds"] exI [of _ r]) (simp add: json_digits_def)
  qed
next
  case False
  then have "c # cs = ds @ r \<and> json_digits ds \<and> L r \<longleftrightarrow> ds = [] \<and> r = c # cs \<and> L r" for ds r
    by (cases ds) (auto simp: json_digits_def)
  with False show ?thesis by auto
qed

lemma digits_then_Nil: "(\<exists>ds r. [] = ds @ r \<and> json_digits ds \<and> L r) \<longleftrightarrow> L []"
  by (auto simp: json_digits_def)

lemma accepts_fract [simp]:
  "prim_accepts CJ_PRIM_STATE_NUMBER_FRACT_DIGIT xs \<longleftrightarrow> (\<exists>ds r. xs = ds @ r \<and> json_digits ds \<and> json_exp r)"
proof (induction xs)
  case Nil
  show ?case unfolding digits_then_Nil by (simp add: prim_end_state_def)
next
  case (Cons c cs)
  have "prim_accepts CJ_PRIM_STATE_NUMBER_FRACT_DIGIT (c # cs) \<longleftrightarrow>
    (if is_digit c then prim_accepts CJ_PRIM_STATE_NUMBER_FRACT_DIGIT cs else json_exp (c # cs))" by simp
  then show ?case unfolding Cons.IH by (subst digits_then) (simp_all add: json_exp_digit del: json_exp.simps)
qed

definition json_frac_exp :: "u8 list \<Rightarrow> bool" where
  "json_frac_exp xs \<longleftrightarrow> (\<exists>f e. xs = f @ e \<and> json_frac f \<and> json_exp e)"

lemma accepts_dot: "prim_accepts CJ_PRIM_STATE_NUMBER_DOT xs \<longleftrightarrow> (\<exists>ds r. xs = ds @ r \<and> json_digits1 ds \<and> json_exp r)"
proof (cases xs)
  case Nil
  then show ?thesis by (simp add: prim_end_state_def json_digits1_def)
next
  case (Cons c cs)
  have "prim_accepts CJ_PRIM_STATE_NUMBER_DOT (c # cs) \<longleftrightarrow> is_digit c \<and> (\<exists>ds r. cs = ds @ r \<and> json_digits ds \<and> json_exp r)"
    by simp
  also have "\<dots> \<longleftrightarrow> (\<exists>ds r. c # cs = ds @ r \<and> json_digits1 ds \<and> json_exp r)"
    unfolding split_Cons by (auto simp: json_digits1_def json_digits_def)
  finally show ?thesis using Cons by simp
qed

lemma frac_exp_Nil [simp]: "json_frac_exp []"
  by (simp add: json_frac_exp_def json_frac_def)

lemma frac_exp_Cons: "json_frac_exp (c # cs) \<longleftrightarrow>
   c = C_DOT \<and> (\<exists>ds r. cs = ds @ r \<and> json_digits1 ds \<and> json_exp r) \<or> json_exp (c # cs)"
  unfolding json_frac_exp_def split_Cons by (auto simp: json_frac_def)

lemma frac_exp_digit: "is_digit c \<Longrightarrow> \<not> json_frac_exp (c # cs)"
  using is_digit_not by (auto simp: frac_exp_Cons)

lemma accepts_zero [simp]: "prim_accepts CJ_PRIM_STATE_NUMBER_INITIAL_ZERO xs \<longleftrightarrow> json_frac_exp xs"
  by (cases xs) (auto simp: prim_end_state_def frac_exp_Cons accepts_dot)

lemma accepts_digit [simp]:
  "prim_accepts CJ_PRIM_STATE_NUMBER_DIGIT xs \<longleftrightarrow> (\<exists>ds r. xs = ds @ r \<and> json_digits ds \<and> json_frac_exp r)"
proof (induction xs)
  case Nil
  show ?case unfolding digits_then_Nil by (simp add: prim_end_state_def)
next
  case (Cons c cs)
  have "prim_accepts CJ_PRIM_STATE_NUMBER_DIGIT (c # cs) \<longleftrightarrow>
    (if is_digit c then prim_accepts CJ_PRIM_STATE_NUMBER_DIGIT cs else json_frac_exp (c # cs))"
    by (auto simp: frac_exp_Cons accepts_dot)
  then show ?case unfolding Cons.IH by (subst digits_then) (simp_all add: frac_exp_digit)
qed

definition json_unsigned :: "u8 list \<Rightarrow> bool" where
  "json_unsigned xs \<longleftrightarrow> (\<exists>i r. xs = i @ r \<and> json_int i \<and> json_frac_exp r)"

lemma unsigned_Nil [simp]: "\<not> json_unsigned []"
  by (simp add: json_unsigned_def json_int_def)

lemma unsigned_Cons: "json_unsigned (c # cs) \<longleftrightarrow> c = C_0 \<and> json_frac_exp cs \<or>
    C_1 \<le> c \<and> c \<le> C_9 \<and> (\<exists>ds r. cs = ds @ r \<and> json_digits ds \<and> json_frac_exp r)"
  unfolding json_unsigned_def split_Cons by (auto simp: json_int_def)

lemma accepts_sign [simp]: "prim_accepts CJ_PRIM_STATE_NUMBER_SIGN xs \<longleftrightarrow> json_unsigned xs"
  by (cases xs) (auto simp: prim_end_state_def unsigned_Cons)

lemma json_number_unsigned: "json_number xs \<longleftrightarrow> json_unsigned xs \<or> (\<exists>ys. xs = C_MINUS # ys \<and> json_unsigned ys)"
proof -
  have "json_number xs \<longleftrightarrow> (\<exists>s ys. xs = s @ ys \<and> (s = [] \<or> s = [C_MINUS]) \<and> json_unsigned ys)"
    unfolding json_number_def json_unsigned_def json_frac_exp_def by blast
  then show ?thesis by (metis append_Cons append_Nil)
qed

text \<open>The automaton of \<open>cj_next_token\<close> accepts the literals and numbers of the grammar.\<close>

lemma prim_accepts_iff: "prim_accepts CJ_PRIM_STATE_INIT xs \<longleftrightarrow> json_primitive xs"
proof (cases xs)
  case Nil
  then show ?thesis
    by (simp add: prim_end_state_def json_primitive_def json_literal_def json_number_unsigned)
next
  case (Cons c cs)
  have lit: "prim_accepts CJ_PRIM_STATE_NULL_N cs \<longleftrightarrow> cs = [C_u, C_l, C_l]"
    "prim_accepts CJ_PRIM_STATE_TRUE_T cs \<longleftrightarrow> cs = [C_r, C_u, C_e]"
    "prim_accepts CJ_PRIM_STATE_FALSE_F cs \<longleftrightarrow> cs = [C_a, C_l, C_s, C_e]"
    by (cases cs; cases "tl cs"; cases "tl (tl cs)"; cases "tl (tl (tl cs))"; cases "tl (tl (tl (tl cs)))";
        auto simp: prim_end_state_def)+
  show ?thesis
    using lit unfolding Cons
    by (auto simp: json_primitive_def json_literal_def json_number_unsigned unsigned_Cons)
qed


text \<open>The scan of a primitive over a list of bytes: how many of them belong to it.\<close>

fun scan_prim :: "cj_primitive_state \<Rightarrow> u8 list \<Rightarrow> nat option" where
  "scan_prim s [] = Some 0"
| "scan_prim s (c # cs) =
     (if c = 0 then None
      else let s' = prim_next s c in
        if s' = CJ_PRIM_STATE_INIT then (if prim_end_state s then Some 0 else None)
        else if s' = CJ_PRIM_STATE_FINISH then Some 1
        else map_option Suc (scan_prim s' cs))"

lemma prim_next_0 [simp]: "prim_next s 0 = CJ_PRIM_STATE_INIT"
  by (cases s) (auto simp: is_digit_def)

definition delimiter :: "u8 \<Rightarrow> bool" where
  "delimiter c \<longleftrightarrow> is_white_space c \<or> structural_token c \<noteq> None"

lemma delimiter_iff: "delimiter c \<longleftrightarrow> c \<in> {C_SPACE, C_TAB, C_CR, C_LF, C_LBRACE, C_RBRACE, C_LBRACK, C_RBRACK, C_COMMA, C_COLON}"
  by (auto simp: delimiter_def is_white_space_def structural_token_def)

lemma prim_next_delimiter: "delimiter c \<Longrightarrow> prim_next s c = CJ_PRIM_STATE_INIT"
  unfolding delimiter_iff by (cases s) (auto simp: is_digit_def)

lemma prim_next_not_end: "prim_next s c = CJ_PRIM_STATE_FINISH \<Longrightarrow> \<not> prim_end_state s"
  by (cases s) (auto simp: prim_end_state_def split: if_splits)

lemma scan_prim_sound:
  "scan_prim s cs = Some n \<Longrightarrow> n \<le> length cs \<and> (n < length cs \<longrightarrow> prim_accepts s (take n cs))"
proof (induction cs arbitrary: s n)
  case (Cons c cs)
  then show ?case
    by (auto simp: Let_def split: if_splits)
qed simp

lemma scan_prim_complete:
  assumes "prim_accepts s xs" "s \<noteq> CJ_PRIM_STATE_FINISH" "ys = [] \<or> delimiter (hd ys)"
  shows "scan_prim s (xs @ ys) = Some (length xs)"
  using assms
proof (induction xs arbitrary: s)
  case Nil
  then show ?case
    by (cases ys) (auto simp: prim_next_delimiter delimiter_iff)
next
  case (Cons c xs)
  then show ?case by (auto simp: Let_def)
qed

text \<open>Bytes that can still become a primitive: what a primitive at the end of the input is.\<close>

definition json_primitive_prefix :: "u8 list \<Rightarrow> bool" where
  "json_primitive_prefix xs \<longleftrightarrow> (\<exists>ys. json_primitive (xs @ ys))"

fun prim_completion :: "cj_primitive_state \<Rightarrow> u8 list" where
  "prim_completion CJ_PRIM_STATE_NULL_N = [C_u, C_l, C_l]"
| "prim_completion CJ_PRIM_STATE_NULL_U = [C_l, C_l]"
| "prim_completion CJ_PRIM_STATE_NULL_L1 = [C_l]"
| "prim_completion CJ_PRIM_STATE_TRUE_T = [C_r, C_u, C_e]"
| "prim_completion CJ_PRIM_STATE_TRUE_R = [C_u, C_e]"
| "prim_completion CJ_PRIM_STATE_TRUE_U = [C_e]"
| "prim_completion CJ_PRIM_STATE_FALSE_F = [C_a, C_l, C_s, C_e]"
| "prim_completion CJ_PRIM_STATE_FALSE_A = [C_l, C_s, C_e]"
| "prim_completion CJ_PRIM_STATE_FALSE_L = [C_s, C_e]"
| "prim_completion CJ_PRIM_STATE_FALSE_S = [C_e]"
| "prim_completion s = (if prim_end_state s \<or> s = CJ_PRIM_STATE_FINISH then [] else [C_0])"

lemma prim_accepts_completion: "s \<noteq> CJ_PRIM_STATE_FALSE_E \<Longrightarrow> prim_accepts s (prim_completion s)"
  by (cases s) (simp_all add: prim_end_state_def json_digits_def json_digits1_def unsigned_Cons
      json_primitive_def json_literal_def json_number_unsigned frac_exp_Cons
      )

lemma prim_next_not_false_e: "prim_next s c \<noteq> CJ_PRIM_STATE_FALSE_E"
  by (cases s) auto

lemma scan_prim_prefix:
  assumes "scan_prim s cs = Some (length cs)" "s \<noteq> CJ_PRIM_STATE_FALSE_E"
  shows "\<exists>ys. prim_accepts s (cs @ ys)"
  using assms
proof (induction cs arbitrary: s)
  case Nil
  then show ?case using prim_accepts_completion by auto
next
  case (Cons c cs)
  then show ?case
    using prim_next_not_false_e [of s c] by (auto simp: Let_def split: if_splits)
qed

lemma scan_prim_json:
  assumes "scan_prim CJ_PRIM_STATE_INIT cs = Some n"
  shows "n \<le> length cs \<and> (n < length cs \<longrightarrow> json_primitive (take n cs)) \<and> json_primitive_prefix (take n cs)"
proof (cases "n < length cs")
  case True
  with scan_prim_sound [OF assms] have "json_primitive (take n cs)"
    by (simp add: prim_accepts_iff)
  then show ?thesis using True by (auto simp: json_primitive_prefix_def intro: exI [of _ "[]"])
next
  case False
  with scan_prim_sound [OF assms] have "n = length cs" by simp
  with assms scan_prim_prefix [of CJ_PRIM_STATE_INIT cs] show ?thesis
    by (simp add: prim_accepts_iff json_primitive_prefix_def)
qed

lemma prim_loop_spec:
  assumes "unat pos \<le> unat len" "unat len \<le> length bs" "tok_type tok = CJ_TOKEN_PRIMITIVE"
  shows "case scan_prim ps (seg (unat pos) (unat len - unat pos) bs) of
      Some n \<Rightarrow> cj_next_token_loop (Some bs) len pos tok esc ps = Some (pos + of_nat n, tok\<lparr>tok_len := tok_len tok + of_nat n\<rparr>)
    | None \<Rightarrow> \<exists>pos' tok'. cj_next_token_loop (Some bs) len pos tok esc ps = Some (pos', tok') \<and>
        tok_type tok' = CJ_TOKEN_INVALID \<and> unat pos \<le> unat pos' \<and> unat pos' \<le> unat len"
  using assms
proof (induction "unat len - unat pos" arbitrary: pos tok ps rule: less_induct)
  case less
  show ?case
  proof (cases "pos < len")
    case False
    then have "unat pos = unat len" using less.prems by (simp add: word_less_nat_alt)
    with less.prems False show ?thesis
      by (subst cj_next_token_loop.simps) simp
  next
    case True
    then have p: "unat pos < unat len" "unat pos < length bs" and inc: "unat (pos + 1) = Suc (unat pos)"
      using less.prems by (auto simp: word_less_nat_alt unat_inc)
    let ?c = "bs ! unat pos" and ?tok = "tok\<lparr>tok_len := tok_len tok + 1\<rparr>"
    let ?s = "prim_next ps ?c"
    have seg: "seg (unat pos) (unat len - unat pos) bs = ?c # seg (unat (pos + 1)) (unat len - unat (pos + 1)) bs"
      unfolding inc using p less.prems by (intro seg_step) auto
    have m: "unat len - unat (pos + 1) < unat len - unat pos" "unat (pos + 1) \<le> unat len"
      using p unfolding inc by linarith+
    have step: "cj_next_token_loop (Some bs) len pos tok esc ps =
      (if ?c = 0 then Some (pos, tok\<lparr>tok_type := CJ_TOKEN_INVALID\<rparr>)
       else if ?s = CJ_PRIM_STATE_INIT then
         (if prim_end_state ps then Some (pos, tok) else Some (pos, tok\<lparr>tok_type := CJ_TOKEN_INVALID\<rparr>))
       else if ?s = CJ_PRIM_STATE_FINISH then Some (pos + 1, ?tok)
       else cj_next_token_loop (Some bs) len (pos + 1) ?tok esc ?s)"
      using True p less.prems(3) by (subst cj_next_token_loop.simps) (simp add: Let_def)
    have "unat pos \<le> unat (1 + pos)"
      using inc by (simp add: add.commute)
    note le = le_trans [OF this]
    show ?thesis
      using less.hyps [OF m less.prems(2), of ?tok ?s] less.prems(3) p unfolding seg step
      by (auto simp: inc add_ac Let_def split: option.splits if_split_asm intro: le)
  qed
qed

section \<open>Contract of the tokenizer\<close>

text \<open>
  What a token of the input is: the bytes it covers, and where the scan goes on. A primitive that
  ends before the end of the input is a JSON literal or number; one that reaches the end of the
  input is only known to be the beginning of one.
\<close>

definition token_ok :: "u8 list \<Rightarrow> nat \<Rightarrow> nat \<Rightarrow> cj_token \<Rightarrow> nat \<Rightarrow> bool" where
  "token_ok bs len s t e \<longleftrightarrow>
     (let p = unat (tok_pos t); l = unat (tok_len t) in
      case tok_type t of
        CJ_TOKEN_INVALID \<Rightarrow> False
      | CJ_TOKEN_STRING \<Rightarrow> p = s + 1 \<and> e = p + l + 1 \<and> e \<le> len \<and> bs ! s = C_QUOTE \<and> bs ! (p + l) = C_QUOTE \<and>
          json_chars (seg p l bs)
      | CJ_TOKEN_PRIMITIVE \<Rightarrow> p = s \<and> e = p + l \<and> e \<le> len \<and> 0 < l \<and> json_primitive_prefix (seg p l bs) \<and>
          (e < len \<longrightarrow> json_primitive (seg p l bs)) \<and> scan_prim CJ_PRIM_STATE_INIT (seg p (len - p) bs) = Some l
      | ty \<Rightarrow> p = s \<and> l = 1 \<and> e = s + 1 \<and> e \<le> len \<and> structural_token (bs ! s) = Some ty)"

definition token_start :: "u8 list \<Rightarrow> nat \<Rightarrow> nat \<Rightarrow> nat \<Rightarrow> bool" where
  "token_start bs len p s \<longleftrightarrow> p \<le> s \<and> s \<le> len \<and> (\<forall>i. p \<le> i \<and> i < s \<longrightarrow> is_white_space (bs ! i)) \<and>
     (s < len \<longrightarrow> \<not> is_white_space (bs ! s))"

lemma token_start_unique: "token_start bs len p s \<Longrightarrow> token_start bs len p s' \<Longrightarrow> s = s'"
  unfolding token_start_def by (metis le_neq_implies_less not_less order_less_le_trans nat_le_linear)

text \<open>The tokenizer is the loop from the first byte that is not white space.\<close>

lemma cj_next_token_start:
  assumes le: "unat pos \<le> unat len" "unat len \<le> length bs"
    and stop: "unat len < length bs \<or> (\<exists>i \<ge> unat pos. i < unat len \<and> \<not> is_white_space (bs ! i))"
  obtains s where "token_start bs (unat len) (unat pos) (unat s)"
    "cj_next_token (Some bs) len pos tok =
       cj_next_token_loop (Some bs) len s (tok\<lparr>tok_type := CJ_TOKEN_INVALID, tok_pos := s, tok_len := 0\<rparr>) 0 CJ_PRIM_STATE_INIT"
proof -
  have pl: "pos \<le> len" using le by (simp add: word_le_nat_alt)
  have n: "unat (ucast (len - pos) :: u64) = unat len - unat pos"
    using unat_u32_less [of "len - pos"] pl by (simp add: unsigned_ucast_eq take_bit_eq_mod unat_sub)
  have "unat pos + unat (ucast (len - pos) :: u64) < length bs \<or>
      (\<exists>i < unat (ucast (len - pos) :: u64). unat pos + i < length bs \<and> \<not> is_white_space (bs ! (unat pos + i)))"
    using stop
  proof
    assume "unat len < length bs"
    then show ?thesis using le n by simp
  next
    assume "\<exists>i \<ge> unat pos. i < unat len \<and> \<not> is_white_space (bs ! i)"
    then obtain i where i: "unat pos \<le> i" "i < unat len" "\<not> is_white_space (bs ! i)" by blast
    then have "i - unat pos < unat (ucast (len - pos) :: u64)" "unat pos + (i - unat pos) < length bs"
      "\<not> is_white_space (bs ! (unat pos + (i - unat pos)))"
      using le n by auto
    then show ?thesis by blast
  qed
  then obtain w where "cj_eat_white_space (Some bs) (unat pos) (ucast (len - pos)) = Some w"
    "unat w \<le> unat (ucast (len - pos) :: u64)" "\<And>i. i < unat w \<Longrightarrow> is_white_space (bs ! (unat pos + i))"
    "unat w < unat (ucast (len - pos) :: u64) \<Longrightarrow> \<not> is_white_space (bs ! (unat pos + unat w))"
    using cj_eat_white_space_spec by blast
  note w = this [unfolded n]
  have uw: "unat (ucast w :: u32) = unat w"
    using w(2) unat_u32_less [of len] by (simp add: unsigned_ucast_eq take_bit_eq_mod)
  have s: "unat (pos + ucast w) = unat pos + unat w"
    using unat_add_le [of pos "ucast w" len] uw w(2) le by simp
  have "token_start bs (unat len) (unat pos) (unat (pos + ucast w))"
    unfolding token_start_def s
  proof (intro conjI allI impI)
    fix i assume "unat pos \<le> i \<and> i < unat pos + unat w"
    then show "is_white_space (bs ! i)" using w(3) [of "i - unat pos"] by auto
  qed (use w le in auto)
  moreover have "cj_next_token (Some bs) len pos tok =
       cj_next_token_loop (Some bs) len (pos + ucast w) (tok\<lparr>tok_type := CJ_TOKEN_INVALID, tok_pos := pos + ucast w, tok_len := 0\<rparr>) 0 CJ_PRIM_STATE_INIT"
    using w(1) pl by (simp add: cj_next_token_def Let_def)
  ultimately show ?thesis by (rule that)
qed

lemma cj_next_token_loop_first:
  assumes s: "unat s < unat len" "unat len \<le> length bs" and t: "tok_type t = CJ_TOKEN_INVALID"
  shows "cj_next_token_loop (Some bs) len s t esc ps =
    (case structural_token (bs ! unat s) of
       Some ty \<Rightarrow> Some (s + 1, t\<lparr>tok_type := ty, tok_len := 1\<rparr>)
     | None \<Rightarrow> if bs ! unat s = C_QUOTE
        then cj_next_token_loop (Some bs) len (s + 1) (t\<lparr>tok_type := CJ_TOKEN_STRING, tok_pos := tok_pos t + 1\<rparr>) esc ps
        else cj_next_token_loop (Some bs) len s (t\<lparr>tok_type := CJ_TOKEN_PRIMITIVE, tok_len := 0\<rparr>) esc CJ_PRIM_STATE_INIT)"
proof -
  have "s < len" "unat s < length bs" using s by (simp_all add: word_less_nat_alt)
  then show ?thesis using t by (subst cj_next_token_loop.simps) (simp split: option.split)
qed

lemma scan_prim_pos: "scan_prim CJ_PRIM_STATE_INIT (c # cs) = Some n \<Longrightarrow> 0 < n"
  by (auto simp: Let_def prim_end_state_def split: if_splits)

lemma cj_next_token_loop_parent:
  "cj_next_token_loop m len s t esc ps = Some (p', t') \<Longrightarrow> tok_parent t' = tok_parent t"
proof (induction m len s t esc ps rule: cj_next_token_loop.induct)
  case (1 m len s t esc ps)
  note step = 1(5) [unfolded cj_next_token_loop.simps [of m len s t esc ps]]
  show ?case
    using step by (auto simp: Let_def split: if_split_asm option.split_asm dest: 1(1-4))
qed

lemma string_token_ok:
  assumes s: "unat s < unat (len :: cj_size)" "unat len \<le> length bs" "bs ! unat s = C_QUOTE"
    and scan: "scan_string 0 (seg (unat (s + 1)) (unat len - unat (s + 1)) bs) = Some n"
    and t: "tok_type t = CJ_TOKEN_STRING" "tok_pos t = s + 1" "tok_len t = of_nat n"
  shows "token_ok bs (unat len) (unat s) t (unat (s + 1 + of_nat n + 1))"
    "unat (s + 1 + of_nat n + 1) = unat s + n + 2" "unat s + n + 2 \<le> unat len"
proof -
  have inc: "unat (s + 1) = Suc (unat s)"
    using s(1) unat_inc [of s len] by (simp add: word_less_nat_alt)
  have n: "Suc (unat s) + n < unat len" "bs ! (Suc (unat s) + n) = C_QUOTE" "json_chars (seg (Suc (unat s)) n bs)"
    using scan s(2) unfolding scan_string_iff string_run_body inc
    by (auto simp: nth_seg seg_def min_def split: if_splits)
  have un: "unat (of_nat n :: u32) = n"
    using n(1) unat_u32_less [of len] by (simp add: unat_of_nat)
  have "unat (s + 1 + of_nat n) = unat s + 1 + n"
    using unat_add_of_nat [of "s + 1" n len] n(1) inc by simp
  then show "unat (s + 1 + of_nat n + 1) = unat s + n + 2"
    using unat_add_of_nat [of "s + 1 + of_nat n" 1 len] n(1) by simp
  then show "token_ok bs (unat len) (unat s) t (unat (s + 1 + of_nat n + 1))"
    using n s t inc un by (simp add: token_ok_def)
  show "unat s + n + 2 \<le> unat len" using n(1) by simp
qed

lemma primitive_token_ok:
  assumes s: "unat s < unat (len :: cj_size)" "unat len \<le> length bs"
    and scan: "scan_prim CJ_PRIM_STATE_INIT (seg (unat s) (unat len - unat s) bs) = Some n"
    and t: "tok_type t = CJ_TOKEN_PRIMITIVE" "tok_pos t = s" "tok_len t = of_nat n"
  shows "token_ok bs (unat len) (unat s) t (unat (s + of_nat n))"
    "unat (s + of_nat n) = unat s + n" "unat s + n \<le> unat len"
proof -
  have n: "unat s + n \<le> unat len" "unat s + n < unat len \<longrightarrow> json_primitive (seg (unat s) n bs)"
    "json_primitive_prefix (seg (unat s) n bs)"
    using scan_prim_json [OF scan] s by (auto simp: seg_def min_def split: if_splits)
  have "0 < n"
    using scan s scan_prim_pos by (auto simp: seg_step)
  have un: "unat (of_nat n :: u32) = n"
    using n(1) unat_u32_less [of len] by (simp add: unat_of_nat)
  show "unat (s + of_nat n) = unat s + n" "unat s + n \<le> unat len"
    using unat_add_of_nat [of s n len] n(1) by simp_all
  then show "token_ok bs (unat len) (unat s) t (unat (s + of_nat n))"
    using n s t un scan \<open>0 < n\<close> by (simp add: token_ok_def Let_def)
qed

theorem cj_next_token_spec:
  assumes le: "unat pos \<le> unat len" "unat len \<le> length bs"
    and stop: "unat len < length bs \<or> (\<exists>i \<ge> unat pos. i < unat len \<and> \<not> is_white_space (bs ! i))"
  shows "\<exists>pos' t' s. cj_next_token (Some bs) len pos tok = Some (pos', t') \<and>
     token_start bs (unat len) (unat pos) s \<and> unat pos \<le> unat pos' \<and> unat pos' \<le> unat len \<and>
     tok_parent t' = tok_parent tok \<and>
     (tok_type t' = CJ_TOKEN_INVALID \<or> token_ok bs (unat len) s t' (unat pos'))"
proof -
  obtain s where s: "token_start bs (unat len) (unat pos) (unat s)"
    and eq: "cj_next_token (Some bs) len pos tok =
       cj_next_token_loop (Some bs) len s (tok\<lparr>tok_type := CJ_TOKEN_INVALID, tok_pos := s, tok_len := 0\<rparr>) 0 CJ_PRIM_STATE_INIT"
    using cj_next_token_start [OF assms] by metis
  let ?t = "tok\<lparr>tok_type := CJ_TOKEN_INVALID, tok_pos := s, tok_len := 0\<rparr>"
  have bounds: "unat pos \<le> unat s" "unat s \<le> unat len" using s by (auto simp: token_start_def)
  show ?thesis
  proof (cases "unat s < unat len")
    case False
    then have "\<not> s < len" by (simp add: word_less_nat_alt)
    then have "cj_next_token (Some bs) len pos tok = Some (s, ?t)"
      unfolding eq by (subst cj_next_token_loop.simps) simp
    then show ?thesis using s bounds by auto
  next
    case True
    have inc: "unat (s + 1) = Suc (unat s)"
      using True unat_inc [of s len] by (simp add: word_less_nat_alt)
    note first = cj_next_token_loop_first [OF True le(2), of ?t 0 CJ_PRIM_STATE_INIT, simplified]
    consider (struct) ty where "structural_token (bs ! unat s) = Some ty"
      | (str) "structural_token (bs ! unat s) = None" "bs ! unat s = C_QUOTE"
      | (prim) "structural_token (bs ! unat s) = None" "bs ! unat s \<noteq> C_QUOTE" by fastforce
    then show ?thesis
    proof cases
      case struct
      then have "cj_next_token (Some bs) len pos tok = Some (s + 1, ?t\<lparr>tok_type := ty, tok_len := 1\<rparr>)"
        unfolding eq by (simp add: first)
      moreover have "token_ok bs (unat len) (unat s) (?t\<lparr>tok_type := ty, tok_len := 1\<rparr>) (unat (s + 1))"
        using struct True inc by (auto simp: token_ok_def structural_token_def split: if_splits)
      ultimately show ?thesis using s bounds True inc by (intro exI conjI) (assumption | simp)+
    next
      case str
      let ?u = "?t\<lparr>tok_type := CJ_TOKEN_STRING, tok_pos := s + 1\<rparr>"
      show ?thesis
      proof (cases "scan_string 0 (seg (unat (s + 1)) (unat len - unat (s + 1)) bs)")
        case None
        then obtain p' t' where *: "cj_next_token_loop (Some bs) len (s + 1) ?u 0 CJ_PRIM_STATE_INIT = Some (p', t')"
          "tok_type t' = CJ_TOKEN_INVALID" "unat (s + 1) \<le> unat p'" "unat p' \<le> unat len"
          using string_loop_spec [of "s + 1" len bs ?u 0 CJ_PRIM_STATE_INIT] le True inc by auto
        show ?thesis
          using * cj_next_token_loop_parent [OF *(1)] bounds s str inc unfolding eq by (auto simp: first)
      next
        case (Some n)
        then show ?thesis
          using string_loop_spec [of "s + 1" len bs ?u 0 CJ_PRIM_STATE_INIT] le True inc bounds s str
            string_token_ok [OF True le(2) str(2) Some, of "?u\<lparr>tok_len := of_nat n\<rparr>"]
          unfolding eq by (auto simp: first intro!: exI [of _ "unat s"])
      qed
    next
      case prim
      let ?u = "?t\<lparr>tok_type := CJ_TOKEN_PRIMITIVE, tok_len := 0\<rparr>"
      show ?thesis
      proof (cases "scan_prim CJ_PRIM_STATE_INIT (seg (unat s) (unat len - unat s) bs)")
        case None
        then obtain p' t' where *: "cj_next_token_loop (Some bs) len s ?u 0 CJ_PRIM_STATE_INIT = Some (p', t')"
          "tok_type t' = CJ_TOKEN_INVALID" "unat s \<le> unat p'" "unat p' \<le> unat len"
          using prim_loop_spec [of s len bs ?u 0 CJ_PRIM_STATE_INIT] le True by auto
        show ?thesis
          using * cj_next_token_loop_parent [OF *(1)] bounds s prim unfolding eq by (auto simp: first)
      next
        case (Some n)
        then show ?thesis
          using prim_loop_spec [of s len bs ?u 0 CJ_PRIM_STATE_INIT] le True bounds s prim
            primitive_token_ok [OF True le(2) Some, of "?u\<lparr>tok_len := of_nat n\<rparr>"]
          unfolding eq by (auto simp: first intro!: exI [of _ "unat s"])
      qed
    qed
  qed
qed

text \<open>
  Conversely, what the grammar calls a token is the token the tokenizer returns; a primitive has to
  be followed by white space, a structural character or the end of the input.
\<close>

lemma prim_next_init: "prim_next CJ_PRIM_STATE_INIT c \<noteq> CJ_PRIM_STATE_INIT \<Longrightarrow> c \<noteq> C_QUOTE \<and> structural_token c = None"
  by (auto simp: structural_token_def split: if_splits)

lemma scan_prim_first: "scan_prim CJ_PRIM_STATE_INIT (c # cs) = Some n \<Longrightarrow> c \<noteq> C_QUOTE \<and> structural_token c = None"
  by (rule prim_next_init) (auto simp: Let_def prim_end_state_def split: if_splits)

lemma cj_next_token_of_token_ok:
  assumes le: "unat pos \<le> unat len" "unat len \<le> length bs"
    and start: "token_start bs (unat len) (unat pos) s"
    and ok: "token_ok bs (unat len) s t e"
  shows "cj_next_token (Some bs) len pos tok = Some (of_nat e, t\<lparr>tok_parent := tok_parent tok\<rparr>)"
proof -
  have e: "s < e" "e \<le> unat len"
    using ok by (auto simp: token_ok_def Let_def split: cj_token_type.splits)
  then have s_len: "s < unat len" by simp
  have "\<exists>i \<ge> unat pos. i < unat len \<and> \<not> is_white_space (bs ! i)"
    using start s_len by (auto simp: token_start_def)
  then obtain s' where s': "token_start bs (unat len) (unat pos) (unat s')"
    and eq: "cj_next_token (Some bs) len pos tok =
       cj_next_token_loop (Some bs) len s' (tok\<lparr>tok_type := CJ_TOKEN_INVALID, tok_pos := s', tok_len := 0\<rparr>) 0 CJ_PRIM_STATE_INIT"
    using cj_next_token_start [OF le] by metis
  have us: "unat s' = s" using token_start_unique [OF s' start] .
  let ?t = "tok\<lparr>tok_type := CJ_TOKEN_INVALID, tok_pos := s', tok_len := 0\<rparr>"
  have inc: "unat (s' + 1) = Suc s"
    using s_len unat_inc [of s' len] us by (simp add: word_less_nat_alt)
  note first = cj_next_token_loop_first [OF s_len [folded us] le(2), of ?t 0 CJ_PRIM_STATE_INIT, simplified, unfolded us]
  consider (str) "tok_type t = CJ_TOKEN_STRING" | (prim) "tok_type t = CJ_TOKEN_PRIMITIVE"
    | (struct) "structural_token (bs ! s) = Some (tok_type t)" "unat (tok_pos t) = s" "unat (tok_len t) = 1" "e = s + 1"
    using ok by (auto simp: token_ok_def Let_def split: cj_token_type.splits)
  then show ?thesis
  proof cases
    case struct
    have "tok_pos t = s'" "tok_len t = 1"
      unfolding word_unat_eq_iff us struct by simp_all
    then have "?t\<lparr>tok_type := tok_type t, tok_len := 1\<rparr> = t\<lparr>tok_parent := tok_parent tok\<rparr>"
      by (intro cj_token.equality) simp_all
    moreover have "of_nat e = s' + 1" unfolding struct(4) us [symmetric] by simp
    ultimately show ?thesis
      unfolding eq using struct(1) by (simp add: first)
  next
    case str
    then have ok': "unat (tok_pos t) = s + 1" "e = s + 1 + unat (tok_len t) + 1" "bs ! s = C_QUOTE"
      "bs ! (s + 1 + unat (tok_len t)) = C_QUOTE" "json_chars (seg (s + 1) (unat (tok_len t)) bs)"
      using ok by (auto simp: token_ok_def Let_def)
    have "scan_string 0 (seg (unat (s' + 1)) (unat len - unat (s' + 1)) bs) = Some (unat (tok_len t))"
      unfolding inc scan_string_iff string_run_body using ok' e le(2)
      by (auto simp: nth_seg seg_def min_def)
    with string_loop_spec [of "s' + 1" len bs "?t\<lparr>tok_type := CJ_TOKEN_STRING, tok_pos := s' + 1\<rparr>" 0 CJ_PRIM_STATE_INIT]
    have "cj_next_token (Some bs) len pos tok =
        Some (s' + 1 + tok_len t + 1, ?t\<lparr>tok_type := CJ_TOKEN_STRING, tok_pos := s' + 1, tok_len := tok_len t\<rparr>)"
      unfolding eq using ok' le s_len inc by (simp add: first structural_token_def)
    moreover have "tok_pos t = s' + 1"
      using ok'(1) inc by (simp only: word_unat_eq_iff)
    then have "?t\<lparr>tok_type := CJ_TOKEN_STRING, tok_pos := s' + 1, tok_len := tok_len t\<rparr> = t\<lparr>tok_parent := tok_parent tok\<rparr>"
      using str by (intro cj_token.equality) simp_all
    moreover have "of_nat e = s' + 1 + tok_len t + 1"
      unfolding ok'(2) using us by auto
    ultimately show ?thesis by simp
  next
    case prim
    then have ok': "unat (tok_pos t) = s" "e = s + unat (tok_len t)"
      and scan: "scan_prim CJ_PRIM_STATE_INIT (seg s (unat len - s) bs) = Some (unat (tok_len t))"
      using ok by (auto simp: token_ok_def Let_def)
    have "bs ! s \<noteq> C_QUOTE \<and> structural_token (bs ! s) = None"
      using scan s_len le(2) by (intro scan_prim_first) (simp add: seg_step)
    with prim_loop_spec [of s' len bs "?t\<lparr>tok_type := CJ_TOKEN_PRIMITIVE, tok_len := 0\<rparr>" 0 CJ_PRIM_STATE_INIT]
    have "cj_next_token (Some bs) len pos tok =
        Some (s' + tok_len t, ?t\<lparr>tok_type := CJ_TOKEN_PRIMITIVE, tok_len := tok_len t\<rparr>)"
      unfolding eq using le us s_len scan by (simp add: first)
    moreover have "tok_pos t = s'"
      using ok'(1) us by (simp only: word_unat_eq_iff)
    then have "?t\<lparr>tok_type := CJ_TOKEN_PRIMITIVE, tok_len := tok_len t\<rparr> = t\<lparr>tok_parent := tok_parent tok\<rparr>"
      using prim by (intro cj_token.equality) simp_all
    moreover have "of_nat e = s' + tok_len t"
      unfolding ok'(2) using us by auto
    ultimately show ?thesis by simp
  qed
qed

definition json_token :: "u8 list \<Rightarrow> nat \<Rightarrow> nat \<Rightarrow> cj_token \<Rightarrow> nat \<Rightarrow> bool" where
  "json_token bs len s t e \<longleftrightarrow>
     (let p = unat (tok_pos t); l = unat (tok_len t) in
      case tok_type t of
        CJ_TOKEN_INVALID \<Rightarrow> False
      | CJ_TOKEN_STRING \<Rightarrow> p = s + 1 \<and> e = p + l + 1 \<and> e \<le> len \<and> bs ! s = C_QUOTE \<and> bs ! (p + l) = C_QUOTE \<and>
          json_chars (seg p l bs)
      | CJ_TOKEN_PRIMITIVE \<Rightarrow> p = s \<and> e = p + l \<and> e \<le> len \<and> json_primitive (seg p l bs) \<and> (e < len \<longrightarrow> delimiter (bs ! e))
      | ty \<Rightarrow> p = s \<and> l = 1 \<and> e = s + 1 \<and> e \<le> len \<and> structural_token (bs ! s) = Some ty)"

lemma json_primitive_ne: "\<not> json_primitive []"
  unfolding prim_accepts_iff [symmetric] by (simp add: prim_end_state_def)

lemma json_token_ok:
  assumes "json_token bs len s t e" "len \<le> length bs"
  shows "token_ok bs len s t e"
proof (cases "tok_type t = CJ_TOKEN_PRIMITIVE")
  case False
  then show ?thesis using assms(1)
    by (cases "tok_type t") (simp_all add: json_token_def token_ok_def)
next
  case True
  define l where "l = unat (tok_len t)"
  have p: "unat (tok_pos t) = s" "e = s + l" "e \<le> len" "json_primitive (seg s l bs)" "e < len \<longrightarrow> delimiter (bs ! e)"
    using assms(1) True by (auto simp: json_token_def l_def Let_def)
  let ?xs = "seg s l bs" and ?ys = "seg e (len - e) bs"
  have "seg s (len - s) bs = ?xs @ ?ys"
    using seg_add [of s l "len - e" bs] p by simp
  moreover have "?ys = [] \<or> delimiter (hd ?ys)"
    using p(5) assms(2) by (cases "e < len") (auto simp: seg_step)
  moreover have "length ?xs = l" using p assms(2) by simp
  ultimately have scan: "scan_prim CJ_PRIM_STATE_INIT (seg s (len - s) bs) = Some l"
    using scan_prim_complete [of CJ_PRIM_STATE_INIT ?xs ?ys] p(4) by (simp add: prim_accepts_iff)
  have "l \<noteq> 0" using p(4) json_primitive_ne by (cases l) auto
  moreover have "json_primitive_prefix (seg s l bs)"
    using p(4) by (auto simp: json_primitive_prefix_def intro: exI [of _ "[]"])
  ultimately show ?thesis
    using True p scan by (simp add: token_ok_def l_def)
qed

theorem cj_next_token_complete:
  assumes "unat pos \<le> unat len" "unat len \<le> length bs" "token_start bs (unat len) (unat pos) s"
    and "json_token bs (unat len) s t e"
  shows "cj_next_token (Some bs) len pos tok = Some (of_nat e, t\<lparr>tok_parent := tok_parent tok\<rparr>)"
  using cj_next_token_of_token_ok [OF assms(1-3) json_token_ok [OF assms(4,2)]] .

text \<open>Hence there is at most one token at a place, apart from its parent.\<close>

lemma same_but_parent:
  "t\<lparr>tok_parent := p\<rparr> = t' \<Longrightarrow> tok_type t' = tok_type t \<and> tok_pos t' = tok_pos t \<and> tok_len t' = tok_len t"
  by auto

lemma token_ok_unique:
  assumes "len < 2 ^ 32" "len \<le> length bs" "token_start bs len p s" "token_ok bs len s t e" "token_ok bs len s t' e'"
  shows "e' = e \<and> tok_type t' = tok_type t \<and> tok_pos t' = tok_pos t \<and> tok_len t' = tok_len t"
proof -
  have len: "unat (of_nat len :: cj_size) = len" and p: "unat (of_nat p :: cj_size) = p"
    using assms(1,3) by (auto simp: unat_of_nat token_start_def)
  have small: "unat (of_nat e :: cj_size) = e" "unat (of_nat e' :: cj_size) = e'"
    using assms(1,4,5) by (auto simp: unat_of_nat token_ok_def Let_def split: cj_token_type.splits)
  have run: "cj_next_token (Some bs) (of_nat len) (of_nat p) t' = Some (of_nat f, u\<lparr>tok_parent := tok_parent t'\<rparr>)"
    if "token_ok bs len s u f" for u f
    using cj_next_token_of_token_ok [of "of_nat p" "of_nat len" bs s u f t'] assms(2,3) that
    by (simp add: len p) (simp add: token_start_def)
  have "of_nat e = (of_nat e' :: cj_size)" "t\<lparr>tok_parent := tok_parent t'\<rparr> = t'"
    using run [OF assms(4)] run [OF assms(5)] by auto
  then show ?thesis using small same_but_parent by metis
qed

text \<open>A token does not end in white space.\<close>

lemma scan_prim_last:
  "scan_prim s cs = Some n \<Longrightarrow> 0 < n \<Longrightarrow> \<not> is_white_space (cs ! (n - 1))"
proof (induction s cs arbitrary: n rule: scan_prim.induct)
  case (2 s c cs)
  have "prim_next s c \<noteq> CJ_PRIM_STATE_INIT \<Longrightarrow> \<not> is_white_space c"
    using prim_next_delimiter by (auto simp: delimiter_def)
  with 2 show ?case
    by (auto simp: Let_def nth_Cons split: if_splits nat.splits) fastforce
qed simp

lemma token_ok_last:
  assumes "token_ok bs len s t e" "len \<le> length bs"
  shows "\<not> is_white_space (bs ! (e - 1))"
proof (cases "tok_type t = CJ_TOKEN_PRIMITIVE")
  case True
  then have "scan_prim CJ_PRIM_STATE_INIT (seg s (len - s) bs) = Some (unat (tok_len t))" "0 < unat (tok_len t)"
    "e = s + unat (tok_len t)" "e \<le> len"
    using assms(1) by (auto simp: token_ok_def Let_def)
  with scan_prim_last [OF this(1,2)] assms(2) show ?thesis
    by (simp add: nth_seg)
next
  case False
  then show ?thesis using assms(1)
    by (auto simp: token_ok_def Let_def structural_token_def is_white_space_def split: cj_token_type.splits if_splits)
qed

end
