(* ===== verification/CJ_Parse.thy ===== *)
theory CJ_Parse
  imports CJ_Token
begin

text \<open>
  The parser of \<^verbatim>\<open>cj/cj.c\<close>: \<open>cj_trim_trailing_whitespace\<close>, \<open>cj_parse_init\<close> and \<open>cj_parse\<close>. The body
  of the do-while loop is the sequence of its stages; a stage ends with \<open>Inl\<close> for the \<open>break\<close> of
  an error and with \<open>Inr\<close> when control goes on, and is \<open>None\<close> when it would access the token
  array or the input outside of its object or fail an assertion.
\<close>

section \<open>The parser\<close>

function cj_trim_trailing_whitespace :: "cj_ctx \<Rightarrow> cj_ctx option" where
  "cj_trim_trailing_whitespace ctx =
     (if ctx_size ctx > 0 then do {
        c \<leftarrow> rd (ctx_buf ctx) (unat (ctx_size ctx - 1));
        if is_white_space c then cj_trim_trailing_whitespace (ctx\<lparr>ctx_size := ctx_size ctx - 1\<rparr>)
        else Some ctx }
      else Some ctx)"
  by pat_completeness auto

lemma unat_dec: "0 < w \<Longrightarrow> unat (w - 1) = unat w - 1" for w :: "'a::len word"
  by (metis inc_le unat_1 unat_sub word_less_nat_alt word_le_nat_alt unsigned_0 Suc_leI One_nat_def)

termination cj_trim_trailing_whitespace
  by (relation "measure (\<lambda>ctx. unat (ctx_size ctx))") (auto simp: unat_dec word_less_nat_alt)

declare cj_trim_trailing_whitespace.simps [simp del]

definition cj_parse_init :: "cj_ctx \<Rightarrow> cmem \<Rightarrow> cj_size \<Rightarrow> cj_token list option \<Rightarrow> cj_size \<Rightarrow> cj_ctx" where
  "cj_parse_init ctx json len tokens tokens_size = ctx\<lparr>
     ctx_buf := json, ctx_pos := 0, ctx_size := len,
     ctx_tokens := tokens, ctx_tokens_pos := 0, ctx_tokens_size := tokens_size,
     ctx_status := (if json = None \<or> len = 0 \<or> tokens = None \<or> tokens_size < 8 then CJ_ERROR else CJ_OK)\<rparr>"

text \<open>The local variables of \<open>cj_parse\<close> that live across iterations.\<close>

record parse_state =
  ps_ctx :: cj_ctx
  ps_obj_depth :: int
  ps_arr_depth :: int
  ps_pos :: cj_size
  ps_ncommas :: u32
  ps_ncolons :: u32
  ps_nstructures :: cj_size
  ps_tok_parent :: cj_token_ref

definition ps_break :: "cj_status \<Rightarrow> parse_state \<Rightarrow> (parse_state + 'a) option" where
  "ps_break st s = Some (Inl (s\<lparr>ps_ctx := (ps_ctx s)\<lparr>ctx_status := st\<rparr>\<rparr>))"

text \<open>Allocate a token, fill it from the input and link it to its parent.\<close>

definition parse_next :: "parse_state \<Rightarrow> (parse_state + cj_token_ref \<times> parse_state) option" where
  "parse_next s = do {
     (tok_index, ctx) \<leftarrow> cj_alloc_token (ps_ctx s);
     let s = s\<lparr>ps_ctx := ctx\<rparr>;
     if tok_index = CJ_INVALID_TOKEN_INDEX then ps_break CJ_PARSE_TOKENS_EXHAUSTED s
     else do {
       tok \<leftarrow> tok_at ctx tok_index;
       (pos, tok) \<leftarrow> cj_next_token (ctx_buf ctx) (ctx_size ctx) (ps_pos s) tok;
       ctx \<leftarrow> tok_set ctx tok_index tok;
       let s = s\<lparr>ps_ctx := ctx, ps_pos := pos\<rparr>;
       if tok_type tok = CJ_TOKEN_INVALID then ps_break CJ_PARSE_INVALID_TOKEN s
       else do {
         let tok = tok\<lparr>tok_parent := ps_tok_parent s\<rparr>;
         ctx \<leftarrow> tok_set ctx tok_index tok;
         c_assert (tok_parent tok = CJ_INVALID_TOKEN_INDEX \<or> tok_parent tok < ctx_tokens_pos ctx);
         Some (Inr (tok_index, s\<lparr>ps_ctx := ctx\<rparr>)) } } }"

text \<open>Opening brackets: the token becomes the parent of what follows.\<close>

definition parse_open :: "cj_token_ref \<Rightarrow> parse_state \<Rightarrow> (parse_state \<Rightarrow> parse_state) \<Rightarrow> (parse_state + parse_state) option" where
  "parse_open tok_index s inc_depth =
     (if ctx_tokens_pos (ps_ctx s) > 1 \<and> ps_arr_depth s = 0 \<and> ps_obj_depth s = 0
      then ps_break CJ_PARSE_MULTI_TOP_THINGS s
      else do {
        let s = inc_depth (s\<lparr>ps_nstructures := ps_nstructures s + 1\<rparr>);
        let s = s\<lparr>ps_tok_parent := tok_index\<rparr>;
        c_assert (ps_tok_parent s < ctx_tokens_pos (ps_ctx s));
        Some (Inr s) })"

text \<open>Closing brackets: the parent of the parent becomes the parent again.\<close>

definition parse_close :: "cj_token_ref \<Rightarrow> cj_token \<Rightarrow> parse_state \<Rightarrow> int \<Rightarrow> (parse_state + parse_state) option" where
  "parse_close tok_index tok s depth =
     (if depth < 0 \<or> tok_index < 1 then ps_break CJ_PARSE_PARENT_CLOSING s
      else do {
        c_assert (tok_parent tok < ctx_tokens_pos (ps_ctx s));
        parent \<leftarrow> tok_at (ps_ctx s) (tok_parent tok);
        let s = s\<lparr>ps_tok_parent := tok_parent parent\<rparr>;
        ctx \<leftarrow> tok_set (ps_ctx s) tok_index (tok\<lparr>tok_parent := ps_tok_parent s\<rparr>);
        c_assert (ps_tok_parent s = CJ_INVALID_TOKEN_INDEX \<or> ps_tok_parent s < ctx_tokens_pos ctx);
        Some (Inr (s\<lparr>ps_ctx := ctx\<rparr>)) })"

definition parse_structure :: "cj_token_ref \<Rightarrow> parse_state \<Rightarrow> (parse_state + parse_state) option" where
  "parse_structure tok_index s = do {
     tok \<leftarrow> tok_at (ps_ctx s) tok_index;
     case tok_type tok of
       CJ_TOKEN_OBJECT_BEG \<Rightarrow> parse_open tok_index s (\<lambda>s. s\<lparr>ps_obj_depth := ps_obj_depth s + 1\<rparr>)
     | CJ_TOKEN_ARRAY_BEG \<Rightarrow> parse_open tok_index s (\<lambda>s. s\<lparr>ps_arr_depth := ps_arr_depth s + 1\<rparr>)
     | CJ_TOKEN_OBJECT_END \<Rightarrow>
         (let s = s\<lparr>ps_obj_depth := ps_obj_depth s - 1\<rparr> in parse_close tok_index tok s (ps_obj_depth s))
     | CJ_TOKEN_ARRAY_END \<Rightarrow>
         (let s = s\<lparr>ps_arr_depth := ps_arr_depth s - 1\<rparr> in parse_close tok_index tok s (ps_arr_depth s))
     | _ \<Rightarrow> Some (Inr s) }"

text \<open>Separators: where a \<open>':'\<close> and a \<open>','\<close> may stand.\<close>

definition parse_name_sep :: "cj_token_ref \<Rightarrow> parse_state \<Rightarrow> (parse_state + parse_state) option" where
  "parse_name_sep tok_index s = do {
     tok \<leftarrow> tok_at (ps_ctx s) tok_index;
     if tok_type tok = CJ_TOKEN_NAME_SEP then
       (if tok_index < 2 \<or> tok_parent tok = CJ_INVALID_TOKEN_INDEX then ps_break CJ_PARSE_INVALID_TOKEN s
        else do {
          prev \<leftarrow> tok_at (ps_ctx s) (tok_index - 1);
          if tok_type prev \<noteq> CJ_TOKEN_STRING then ps_break CJ_PARSE_INVALID_TOKEN s
          else do {
            parent \<leftarrow> tok_at (ps_ctx s) (tok_parent tok);
            if tok_type parent \<noteq> CJ_TOKEN_OBJECT_BEG then ps_break CJ_PARSE_INVALID_TOKEN s
            else Some (Inr (s\<lparr>ps_ncolons := ps_ncolons s + 1\<rparr>)) } })
     else Some (Inr s) }"

definition parse_item_sep :: "cj_token_ref \<Rightarrow> parse_state \<Rightarrow> (parse_state + parse_state) option" where
  "parse_item_sep tok_index s = do {
     tok \<leftarrow> tok_at (ps_ctx s) tok_index;
     if tok_type tok = CJ_TOKEN_ITEM_SEP then
       (if tok_index < 2 \<or> tok_parent tok = CJ_INVALID_TOKEN_INDEX then ps_break CJ_PARSE_INVALID_TOKEN s
        else do {
          prev \<leftarrow> tok_at (ps_ctx s) (tok_index - 1);
          if tok_type prev = CJ_TOKEN_OBJECT_BEG \<or> tok_type prev = CJ_TOKEN_ARRAY_BEG
          then ps_break CJ_PARSE_INVALID_TOKEN s
          else do {
            parent \<leftarrow> tok_at (ps_ctx s) (tok_parent tok);
            if tok_type parent = CJ_TOKEN_OBJECT_BEG
            then Some (Inr (s\<lparr>ps_ncommas := ps_ncommas s + 1\<rparr>))
            else Some (Inr s) } })
     else Some (Inr s) }"

text \<open>What may follow the previous token.\<close>

definition value_start :: "cj_token_type \<Rightarrow> bool" where
  "value_start ty \<longleftrightarrow> ty = CJ_TOKEN_STRING \<or> ty = CJ_TOKEN_PRIMITIVE \<or> ty = CJ_TOKEN_OBJECT_BEG \<or> ty = CJ_TOKEN_ARRAY_BEG"

definition value_follow :: "cj_token_type \<Rightarrow> bool" where
  "value_follow ty \<longleftrightarrow> ty = CJ_TOKEN_ITEM_SEP \<or> ty = CJ_TOKEN_OBJECT_END \<or> ty = CJ_TOKEN_ARRAY_END"

definition parse_follow :: "cj_token_ref \<Rightarrow> parse_state \<Rightarrow> (parse_state + parse_state) option" where
  "parse_follow tok_index s =
     (if tok_index \<ge> 1 then do {
        tok \<leftarrow> tok_at (ps_ctx s) tok_index;
        prev \<leftarrow> tok_at (ps_ctx s) (tok_index - 1);
        if tok_type prev = CJ_TOKEN_NAME_SEP \<and> \<not> value_start (tok_type tok) then ps_break CJ_PARSE_INVALID_TOKEN s
        else if tok_type prev = CJ_TOKEN_ITEM_SEP \<and> \<not> value_start (tok_type tok)
        then ps_break CJ_PARSE_INVALID_TOKEN (s\<lparr>ps_pos := tok_pos prev\<rparr>)
        else if tok_type prev = CJ_TOKEN_PRIMITIVE \<and> \<not> value_follow (tok_type tok) then ps_break CJ_PARSE_INVALID_TOKEN s
        else if tok_type prev = CJ_TOKEN_STRING \<and> \<not> (value_follow (tok_type tok) \<or> tok_type tok = CJ_TOKEN_NAME_SEP)
        then ps_break CJ_PARSE_INVALID_TOKEN s
        else Some (Inr s) }
      else Some (Inr s))"

text \<open>A stage after another: a \<open>break\<close> leaves the body.\<close>

definition stage :: "('s + 'a) option \<Rightarrow> ('a \<Rightarrow> ('s + 'b) option) \<Rightarrow> ('s + 'b) option" where
  "stage m f = (case m of None \<Rightarrow> None | Some (Inl s) \<Rightarrow> Some (Inl s) | Some (Inr x) \<Rightarrow> f x)"

lemma stage_simps [simp]:
  "stage None f = None" "stage (Some (Inl s)) f = Some (Inl s)" "stage (Some (Inr x)) f = f x"
  by (simp_all add: stage_def)

definition parse_body :: "parse_state \<Rightarrow> (parse_state + parse_state) option" where
  "parse_body s =
     stage (parse_next s) (\<lambda>(tok_index, s).
     stage (parse_structure tok_index s) (\<lambda>s.
     stage (parse_name_sep tok_index s) (\<lambda>s.
     stage (parse_item_sep tok_index s) (\<lambda>s.
     parse_follow tok_index s))))"

text \<open>Every iteration uses up a token, so the do-while loop ends.\<close>

lemma tok_set_eq_Some: "tok_set ctx i t = Some ctx' \<longleftrightarrow>
    (\<exists>ts. ctx_tokens ctx = Some ts \<and> unat i < length ts \<and> ctx' = ctx\<lparr>ctx_tokens := Some (ts[unat i := t])\<rparr>)"
  by (auto simp: tok_set_def split: option.splits)

lemma tok_at_eq_Some: "tok_at ctx i = Some t \<longleftrightarrow>
    (\<exists>ts. ctx_tokens ctx = Some ts \<and> unat i < length ts \<and> t = ts ! unat i)"
  by (auto simp: tok_at_def split: option.splits)

lemma cj_alloc_token_eq_Some: "cj_alloc_token ctx = Some (i, ctx') \<longleftrightarrow>
    (if ctx_tokens_pos ctx < ctx_tokens_size ctx then i = ctx_tokens_pos ctx \<and>
       (\<exists>ts. ctx_tokens ctx = Some ts \<and> unat i < length ts \<and>
         ctx' = ctx\<lparr>ctx_tokens := Some (ts[unat i := (ts ! unat i)\<lparr>tok_type := CJ_TOKEN_INVALID, tok_parent := CJ_INVALID_TOKEN_INDEX\<rparr>]),
           ctx_tokens_pos := ctx_tokens_pos ctx + 1\<rparr>)
     else i = CJ_INVALID_TOKEN_INDEX \<and> ctx' = ctx)"
  by (auto simp: cj_alloc_token_def bind_eq_Some_conv Let_def tok_set_eq_Some tok_at_eq_Some)

lemmas parse_defs = ps_break_def Let_def bind_eq_Some_conv tok_set_eq_Some tok_at_eq_Some

text \<open>What the body leaves alone, and the tokens it has used.\<close>

definition same_frame :: "parse_state \<Rightarrow> parse_state \<Rightarrow> bool" where
  "same_frame s s' \<longleftrightarrow> ctx_buf (ps_ctx s') = ctx_buf (ps_ctx s) \<and> ctx_size (ps_ctx s') = ctx_size (ps_ctx s) \<and>
     ctx_tokens_size (ps_ctx s') = ctx_tokens_size (ps_ctx s) \<and> ctx_tokens_pos (ps_ctx s') = ctx_tokens_pos (ps_ctx s)"

lemma parse_open_eq_Inr: "parse_open i s f = Some (Inr s') \<longleftrightarrow>
    \<not> (ctx_tokens_pos (ps_ctx s) > 1 \<and> ps_arr_depth s = 0 \<and> ps_obj_depth s = 0) \<and>
    s' = (f (s\<lparr>ps_nstructures := ps_nstructures s + 1\<rparr>))\<lparr>ps_tok_parent := i\<rparr> \<and>
    i < ctx_tokens_pos (ps_ctx (f (s\<lparr>ps_nstructures := ps_nstructures s + 1\<rparr>)))"
  by (auto simp: parse_open_def parse_defs)

lemma parse_close_eq_Inr: "parse_close i tok s d = Some (Inr s') \<longleftrightarrow>
    0 \<le> d \<and> i \<noteq> 0 \<and> tok_parent tok < ctx_tokens_pos (ps_ctx s) \<and>
    (\<exists>ts q. ctx_tokens (ps_ctx s) = Some ts \<and> unat (tok_parent tok) < length ts \<and> unat i < length ts \<and>
      q = tok_parent (ts ! unat (tok_parent tok)) \<and> (q = CJ_INVALID_TOKEN_INDEX \<or> q < ctx_tokens_pos (ps_ctx s)) \<and>
      s' = s\<lparr>ps_tok_parent := q, ps_ctx := (ps_ctx s)\<lparr>ctx_tokens := Some (ts[unat i := tok\<lparr>tok_parent := q\<rparr>])\<rparr>\<rparr>)"
  by (auto simp: parse_close_def parse_defs not_le not_less split: if_split_asm)

lemma parse_structure_frame:
  assumes "parse_structure i s = Some (Inr s')"
  shows "same_frame s s'"
proof -
  obtain tok where tok: "tok_at (ps_ctx s) i = Some tok"
    using assms by (auto simp: parse_structure_def bind_eq_Some_conv)
  show ?thesis
    using assms tok
    by (cases "tok_type tok") (auto simp: parse_structure_def Let_def parse_open_eq_Inr parse_close_eq_Inr same_frame_def)
qed

lemma parse_name_sep_frame: "parse_name_sep i s = Some (Inr s') \<Longrightarrow> same_frame s s'"
  by (auto simp: parse_name_sep_def parse_defs same_frame_def split: if_splits)

lemma parse_item_sep_frame: "parse_item_sep i s = Some (Inr s') \<Longrightarrow> same_frame s s'"
  by (auto simp: parse_item_sep_def parse_defs same_frame_def split: if_splits)

lemma parse_follow_frame: "parse_follow i s = Some (Inr s') \<Longrightarrow> same_frame s s'"
  by (auto simp: parse_follow_def parse_defs same_frame_def split: if_splits)

lemma parse_next_frame:
  "parse_next s = Some (Inr (i, s')) \<Longrightarrow>
    ctx_tokens_pos (ps_ctx s) < ctx_tokens_size (ps_ctx s) \<and> i = ctx_tokens_pos (ps_ctx s) \<and>
    ctx_tokens_pos (ps_ctx s') = ctx_tokens_pos (ps_ctx s) + 1 \<and> ctx_tokens_size (ps_ctx s') = ctx_tokens_size (ps_ctx s) \<and>
    ctx_buf (ps_ctx s') = ctx_buf (ps_ctx s) \<and> ctx_size (ps_ctx s') = ctx_size (ps_ctx s)"
  by (auto simp: parse_next_def parse_defs cj_alloc_token_eq_Some split: if_splits)

lemma stage_InrD: "stage m f = Some (Inr y) \<Longrightarrow> \<exists>x. m = Some (Inr x) \<and> f x = Some (Inr y)"
  by (auto simp: stage_def split: option.splits sum.splits)

lemma parse_body_frame:
  assumes "parse_body s = Some (Inr s')"
  shows "ctx_tokens_pos (ps_ctx s) < ctx_tokens_size (ps_ctx s)"
    "ctx_tokens_pos (ps_ctx s') = ctx_tokens_pos (ps_ctx s) + 1"
    "ctx_tokens_size (ps_ctx s') = ctx_tokens_size (ps_ctx s)"
    "ctx_buf (ps_ctx s') = ctx_buf (ps_ctx s)" "ctx_size (ps_ctx s') = ctx_size (ps_ctx s)"
  using assms unfolding parse_body_def
  by (auto dest!: stage_InrD parse_next_frame parse_structure_frame parse_name_sep_frame
      parse_item_sep_frame parse_follow_frame simp: same_frame_def)

function cj_parse_loop :: "parse_state \<Rightarrow> parse_state option" where
  "cj_parse_loop s =
     (case parse_body s of
        None \<Rightarrow> None
      | Some (Inl s') \<Rightarrow> Some s'
      | Some (Inr s') \<Rightarrow> if ps_pos s' < ctx_size (ps_ctx s') then cj_parse_loop s' else Some s')"
  by pat_completeness auto

termination cj_parse_loop
proof (relation "measure (\<lambda>s. unat (ctx_tokens_size (ps_ctx s)) - unat (ctx_tokens_pos (ps_ctx s)))", goal_cases)
  case (2 s x s')
  then have "parse_body s = Some (Inr s')" by simp
  note f = parse_body_frame [OF this]
  have "unat (ctx_tokens_pos (ps_ctx s')) = Suc (unat (ctx_tokens_pos (ps_ctx s)))"
    unfolding f(2) by (rule unat_inc [OF f(1)])
  then show ?case using f(1,3) by (simp add: word_less_nat_alt)
qed simp

declare cj_parse_loop.simps [simp del]

text \<open>The checks after the loop.\<close>

definition parse_finish :: "parse_state \<Rightarrow> cj_ctx option" where
  "parse_finish s = do {
     let ctx = (ps_ctx s)\<lparr>ctx_pos := ps_pos s\<rparr>;
     if ctx_status ctx = CJ_OK then
       (if ps_obj_depth s \<noteq> 0 \<or> ps_arr_depth s \<noteq> 0 then Some (ctx\<lparr>ctx_status := CJ_PARSE_PARENT_CLOSING\<rparr>)
        else if ps_nstructures s > 0 then do {
          tok \<leftarrow> tok_at ctx (ctx_tokens_pos ctx - 1);
          if tok_type tok \<noteq> CJ_TOKEN_OBJECT_END \<and> tok_type tok \<noteq> CJ_TOKEN_ARRAY_END
          then Some (ctx\<lparr>ctx_status := CJ_PARSE_INVALID_TOKEN\<rparr>)
          else if ps_ncommas s \<noteq> 0 \<and> ps_ncommas s \<ge> ps_ncolons s
          then Some (ctx\<lparr>ctx_status := CJ_PARSE_INVALID_OBJECT\<rparr>)
          else Some ctx }
        else Some ctx)
     else Some ctx }"

definition parse_state_init :: "cj_ctx \<Rightarrow> parse_state" where
  "parse_state_init ctx = \<lparr>ps_ctx = ctx, ps_obj_depth = 0, ps_arr_depth = 0, ps_pos = 0, ps_ncommas = 0,
     ps_ncolons = 0, ps_nstructures = 0, ps_tok_parent = CJ_INVALID_TOKEN_INDEX\<rparr>"

definition cj_parse :: "cj_ctx \<Rightarrow> cj_ctx option" where
  "cj_parse ctx =
     (if ctx_status ctx \<noteq> CJ_OK then Some ctx
      else do {
        valid \<leftarrow> cj_is_valid_utf8 (ctx_buf ctx) 0 (ucast (ctx_size ctx));
        if \<not> valid then Some (ctx\<lparr>ctx_status := CJ_INVALID_UTF8\<rparr>)
        else do {
          ctx \<leftarrow> cj_trim_trailing_whitespace (ctx\<lparr>ctx_status := CJ_OK\<rparr>);
          s \<leftarrow> cj_parse_loop (parse_state_init ctx);
          parse_finish s } })"

end
