(* ===== verification/CJ_Machine.thy ===== *)
theory CJ_Machine
  imports CJ_Parse
begin

text \<open>
  The parser of \<^verbatim>\<open>cj/cj.c\<close> as a machine over token types with an explicit stack of open
  structures, its invariant, and the refinement: every run of \<open>cj_parse\<close> is a run of this machine
  over the types of the tokens that cover the input.
\<close>

section \<open>The parser as a machine over token types\<close>

text \<open>
  What the parser keeps of the tokens it has seen: their types, the stack of the structures that are
  open (the parent chain of the token array), and the counters.
\<close>

record pm =
  pm_types :: "cj_token_type list"
  pm_stack :: "cj_token_type list"
  pm_obj :: int
  pm_arr :: int
  pm_commas :: nat
  pm_colons :: nat
  pm_structs :: nat

definition pm_init :: pm where
  "pm_init = \<lparr>pm_types = [], pm_stack = [], pm_obj = 0, pm_arr = 0, pm_commas = 0, pm_colons = 0, pm_structs = 0\<rparr>"

definition is_open :: "cj_token_type \<Rightarrow> bool" where
  "is_open ty \<longleftrightarrow> ty = CJ_TOKEN_OBJECT_BEG \<or> ty = CJ_TOKEN_ARRAY_BEG"

definition is_close :: "cj_token_type \<Rightarrow> bool" where
  "is_close ty \<longleftrightarrow> ty = CJ_TOKEN_OBJECT_END \<or> ty = CJ_TOKEN_ARRAY_END"

lemma is_open_simps [simp]:
  "is_open CJ_TOKEN_OBJECT_BEG" "is_open CJ_TOKEN_ARRAY_BEG" "\<not> is_open CJ_TOKEN_OBJECT_END"
  "\<not> is_open CJ_TOKEN_ARRAY_END" "\<not> is_open CJ_TOKEN_STRING" "\<not> is_open CJ_TOKEN_PRIMITIVE"
  "\<not> is_open CJ_TOKEN_ITEM_SEP" "\<not> is_open CJ_TOKEN_NAME_SEP" "\<not> is_open CJ_TOKEN_INVALID"
  by (simp_all add: is_open_def)

lemma is_close_simps [simp]:
  "is_close CJ_TOKEN_OBJECT_END" "is_close CJ_TOKEN_ARRAY_END" "\<not> is_close CJ_TOKEN_OBJECT_BEG"
  "\<not> is_close CJ_TOKEN_ARRAY_BEG" "\<not> is_close CJ_TOKEN_STRING" "\<not> is_close CJ_TOKEN_PRIMITIVE"
  "\<not> is_close CJ_TOKEN_ITEM_SEP" "\<not> is_close CJ_TOKEN_NAME_SEP" "\<not> is_close CJ_TOKEN_INVALID"
  by (simp_all add: is_close_def)

definition pm_depths :: "cj_token_type \<Rightarrow> pm \<Rightarrow> pm" where
  "pm_depths ty m =
     (case ty of
        CJ_TOKEN_OBJECT_BEG \<Rightarrow> m\<lparr>pm_obj := pm_obj m + 1\<rparr>
      | CJ_TOKEN_ARRAY_BEG \<Rightarrow> m\<lparr>pm_arr := pm_arr m + 1\<rparr>
      | CJ_TOKEN_OBJECT_END \<Rightarrow> m\<lparr>pm_obj := pm_obj m - 1\<rparr>
      | CJ_TOKEN_ARRAY_END \<Rightarrow> m\<lparr>pm_arr := pm_arr m - 1\<rparr>
      | _ \<Rightarrow> m)"

definition pm_structure :: "cj_token_type \<Rightarrow> pm \<Rightarrow> cj_status + pm" where
  "pm_structure ty m =
     (if is_open ty then
        (if pm_types m \<noteq> [] \<and> pm_stack m = [] then Inl CJ_PARSE_MULTI_TOP_THINGS
         else Inr ((pm_depths ty m)\<lparr>pm_stack := ty # pm_stack m, pm_structs := pm_structs m + 1\<rparr>))
      else if is_close ty then
        (let m' = pm_depths ty m in
         if pm_obj m' < 0 \<or> pm_arr m' < 0 \<or> pm_types m = [] then Inl CJ_PARSE_PARENT_CLOSING
         else Inr (m'\<lparr>pm_stack := tl (pm_stack m)\<rparr>))
      else Inr m)"

definition pm_prev :: "pm \<Rightarrow> cj_token_type option" where
  "pm_prev m = (if pm_types m = [] then None else Some (last (pm_types m)))"

definition follow_ok :: "cj_token_type option \<Rightarrow> cj_token_type \<Rightarrow> bool" where
  "follow_ok prev ty \<longleftrightarrow>
     (prev = Some CJ_TOKEN_NAME_SEP \<or> prev = Some CJ_TOKEN_ITEM_SEP \<longrightarrow> value_start ty) \<and>
     (prev = Some CJ_TOKEN_PRIMITIVE \<longrightarrow> value_follow ty) \<and>
     (prev = Some CJ_TOKEN_STRING \<longrightarrow> value_follow ty \<or> ty = CJ_TOKEN_NAME_SEP)"

definition name_sep_ok :: "pm \<Rightarrow> bool" where
  "name_sep_ok m \<longleftrightarrow> 2 \<le> length (pm_types m) \<and> pm_prev m = Some CJ_TOKEN_STRING \<and>
     (\<exists>st. pm_stack m = CJ_TOKEN_OBJECT_BEG # st)"

definition item_sep_ok :: "pm \<Rightarrow> bool" where
  "item_sep_ok m \<longleftrightarrow> 2 \<le> length (pm_types m) \<and> pm_stack m \<noteq> [] \<and>
     pm_prev m \<noteq> Some CJ_TOKEN_OBJECT_BEG \<and> pm_prev m \<noteq> Some CJ_TOKEN_ARRAY_BEG"

definition pm_step :: "cj_token_type \<Rightarrow> pm \<Rightarrow> cj_status + pm" where
  "pm_step ty m =
     (case pm_structure ty m of
        Inl st \<Rightarrow> Inl st
      | Inr m' \<Rightarrow>
          if (ty = CJ_TOKEN_NAME_SEP \<longrightarrow> name_sep_ok m) \<and> (ty = CJ_TOKEN_ITEM_SEP \<longrightarrow> item_sep_ok m) \<and> follow_ok (pm_prev m) ty
          then Inr (m'\<lparr>pm_types := pm_types m @ [ty],
             pm_colons := (if ty = CJ_TOKEN_NAME_SEP then pm_colons m + 1 else pm_colons m),
             pm_commas := (if ty = CJ_TOKEN_ITEM_SEP \<and> hd (pm_stack m) = CJ_TOKEN_OBJECT_BEG then pm_commas m + 1 else pm_commas m)\<rparr>)
          else Inl CJ_PARSE_INVALID_TOKEN)"

definition pm_finish :: "pm \<Rightarrow> cj_status" where
  "pm_finish m =
     (if pm_obj m \<noteq> 0 \<or> pm_arr m \<noteq> 0 then CJ_PARSE_PARENT_CLOSING
      else if pm_structs m > 0 then
        (if \<not> is_close (last (pm_types m)) then CJ_PARSE_INVALID_TOKEN
         else if pm_commas m \<noteq> 0 \<and> pm_commas m \<ge> pm_colons m then CJ_PARSE_INVALID_OBJECT
         else CJ_OK)
      else CJ_OK)"

text \<open>The invariant of the machine: its counters are what the list of types says.\<close>

definition pm_inv :: "pm \<Rightarrow> bool" where
  "pm_inv m \<longleftrightarrow> 0 \<le> pm_obj m \<and> 0 \<le> pm_arr m \<and>
     pm_obj m + pm_arr m = int (length (pm_stack m)) \<and> list_all is_open (pm_stack m) \<and>
     pm_obj m = int (count_list (pm_types m) CJ_TOKEN_OBJECT_BEG) - int (count_list (pm_types m) CJ_TOKEN_OBJECT_END) \<and>
     pm_arr m = int (count_list (pm_types m) CJ_TOKEN_ARRAY_BEG) - int (count_list (pm_types m) CJ_TOKEN_ARRAY_END) \<and>
     pm_colons m = count_list (pm_types m) CJ_TOKEN_NAME_SEP \<and>
     pm_commas m \<le> count_list (pm_types m) CJ_TOKEN_ITEM_SEP \<and>
     pm_structs m = length (filter is_open (pm_types m)) \<and>
     CJ_TOKEN_INVALID \<notin> set (pm_types m)"

lemma pm_inv_init: "pm_inv pm_init"
  by (simp add: pm_inv_def pm_init_def)

lemma count_list_snoc [simp]: "count_list (xs @ [x]) y = count_list xs y + (if x = y then 1 else 0)"
  by (induction xs) auto

lemma pm_structure_inv:
  assumes "pm_inv m" "pm_structure ty m = Inr m'"
  shows "pm_obj m' = pm_obj m + of_bool (ty = CJ_TOKEN_OBJECT_BEG) - of_bool (ty = CJ_TOKEN_OBJECT_END) \<and>
    pm_arr m' = pm_arr m + of_bool (ty = CJ_TOKEN_ARRAY_BEG) - of_bool (ty = CJ_TOKEN_ARRAY_END) \<and>
    0 \<le> pm_obj m' \<and> 0 \<le> pm_arr m' \<and>
    pm_obj m' + pm_arr m' = int (length (pm_stack m')) \<and> list_all is_open (pm_stack m') \<and>
    pm_structs m' = pm_structs m + of_bool (is_open ty)"
proof (cases "is_open ty \<or> is_close ty")
  case False
  then have "m' = m \<and> ty \<noteq> CJ_TOKEN_OBJECT_BEG \<and> ty \<noteq> CJ_TOKEN_ARRAY_BEG \<and> ty \<noteq> CJ_TOKEN_OBJECT_END \<and> ty \<noteq> CJ_TOKEN_ARRAY_END"
    using assms(2) by (auto simp: pm_structure_def is_open_def is_close_def)
  with assms(1) False show ?thesis by (simp add: pm_inv_def)
next
  case True
  then have ty: "ty = CJ_TOKEN_OBJECT_BEG \<or> ty = CJ_TOKEN_ARRAY_BEG \<or> ty = CJ_TOKEN_OBJECT_END \<or> ty = CJ_TOKEN_ARRAY_END"
    by (auto simp: is_open_def is_close_def)
  have len: "pm_obj m + pm_arr m = int (length (pm_stack m))" and "0 \<le> pm_obj m" "0 \<le> pm_arr m" "list_all is_open (pm_stack m)"
    using assms(1) by (auto simp: pm_inv_def)
  then show ?thesis
    using assms(2) ty
    by (cases "pm_stack m"; elim disjE)
       (auto simp: pm_structure_def pm_depths_def Let_def split: if_split_asm)
qed

lemma pm_step_eq_Inr: "pm_step ty m = Inr m' \<longleftrightarrow>
    (\<exists>m1. pm_structure ty m = Inr m1 \<and>
      (ty = CJ_TOKEN_NAME_SEP \<longrightarrow> name_sep_ok m) \<and> (ty = CJ_TOKEN_ITEM_SEP \<longrightarrow> item_sep_ok m) \<and> follow_ok (pm_prev m) ty \<and>
      m' = m1\<lparr>pm_types := pm_types m @ [ty],
             pm_colons := (if ty = CJ_TOKEN_NAME_SEP then pm_colons m + 1 else pm_colons m),
             pm_commas := (if ty = CJ_TOKEN_ITEM_SEP \<and> hd (pm_stack m) = CJ_TOKEN_OBJECT_BEG then pm_commas m + 1 else pm_commas m)\<rparr>)"
  by (cases "pm_structure ty m") (auto simp: pm_step_def)

lemma pm_step_inv:
  assumes "pm_inv m" "pm_step ty m = Inr m'" "ty \<noteq> CJ_TOKEN_INVALID"
  shows "pm_inv m'"
proof -
  obtain m1 where m1: "pm_structure ty m = Inr m1" and m': "m' = m1\<lparr>pm_types := pm_types m @ [ty],
             pm_colons := (if ty = CJ_TOKEN_NAME_SEP then pm_colons m + 1 else pm_colons m),
             pm_commas := (if ty = CJ_TOKEN_ITEM_SEP \<and> hd (pm_stack m) = CJ_TOKEN_OBJECT_BEG then pm_commas m + 1 else pm_commas m)\<rparr>"
    using assms(2) unfolding pm_step_eq_Inr by blast
  show ?thesis
    using assms(1,3) pm_structure_inv [OF assms(1) m1] unfolding m' pm_inv_def by auto
qed

lemma pm_step_types: "pm_step ty m = Inr m' \<Longrightarrow> pm_types m' = pm_types m @ [ty]"
  by (auto simp: pm_step_def split: sum.splits if_split_asm)

section \<open>The token array\<close>

text \<open>The parent chain from a reference, with the types of the structures on it.\<close>

fun chain :: "cj_token list \<Rightarrow> nat \<Rightarrow> cj_token_ref \<Rightarrow> cj_token_type list \<Rightarrow> bool" where
  "chain ts k p [] \<longleftrightarrow> p = CJ_INVALID_TOKEN_INDEX"
| "chain ts k p (ty # st) \<longleftrightarrow> unat p < k \<and> k \<le> length ts \<and> p \<noteq> CJ_INVALID_TOKEN_INDEX \<and>
     tok_type (ts ! unat p) = ty \<and> is_open ty \<and> chain ts (unat p) (tok_parent (ts ! unat p)) st"

lemma chain_cong:
  assumes "\<And>i. i < k \<Longrightarrow> ts' ! i = ts ! i" "length ts' = length ts"
  shows "chain ts' k p st = chain ts k p st"
  using assms by (induction st arbitrary: k p) auto

lemma chain_mono: "chain ts k p st \<Longrightarrow> k \<le> k' \<Longrightarrow> k' \<le> length ts \<Longrightarrow> chain ts k' p st"
  by (cases st) auto

lemma chain_update [simp]: "k \<le> i \<Longrightarrow> chain (ts[i := t]) k p st = chain ts k p st"
  by (rule chain_cong) auto

text \<open>Tokens that cover the input one after the other, with only white space between them.\<close>

inductive lexed :: "u8 list \<Rightarrow> nat \<Rightarrow> cj_token list \<Rightarrow> nat \<Rightarrow> bool" for bs len where
  lexed_Nil: "lexed bs len [] 0"
| lexed_snoc: "lexed bs len ts e \<Longrightarrow> token_start bs len e s \<Longrightarrow> token_ok bs len s t e' \<Longrightarrow> lexed bs len (ts @ [t]) e'"

lemma token_ok_parent [simp]: "token_ok bs len s (t\<lparr>tok_parent := p\<rparr>) e = token_ok bs len s t e"
  by (simp add: token_ok_def)

lemma token_ok_bounds: "token_ok bs len s t e \<Longrightarrow> s < e \<and> e \<le> len \<and> tok_type t \<noteq> CJ_TOKEN_INVALID \<and>
    s \<le> unat (tok_pos t) \<and> unat (tok_pos t) + unat (tok_len t) \<le> e"
  by (auto simp: token_ok_def Let_def split: cj_token_type.splits)

lemma lexed_bound: "lexed bs len ts e \<Longrightarrow> e \<le> len"
  by (induction rule: lexed.induct) (auto dest: token_ok_bounds)

section \<open>The refinement relation\<close>

text \<open>
  \<open>parse_rel bs s m\<close>: between two iterations of the loop, the variables and the token array stand
  for the machine state \<open>m\<close>.
\<close>

definition tokens_rel :: "cj_token list \<Rightarrow> cj_token_type list \<Rightarrow> bool" where
  "tokens_rel ts tys \<longleftrightarrow> length tys \<le> length ts \<and> map tok_type (take (length tys) ts) = tys \<and>
     (\<forall>i < length tys. \<exists>st. chain ts i (tok_parent (ts ! i)) st)"

definition counters_rel :: "parse_state \<Rightarrow> pm \<Rightarrow> bool" where
  "counters_rel s m \<longleftrightarrow> ps_obj_depth s = pm_obj m \<and> ps_arr_depth s = pm_arr m \<and>
     ps_ncommas s = of_nat (pm_commas m) \<and> ps_ncolons s = of_nat (pm_colons m) \<and> ps_nstructures s = of_nat (pm_structs m)"

definition ctx_rel :: "u8 list \<Rightarrow> cj_ctx \<Rightarrow> cj_token list \<Rightarrow> nat \<Rightarrow> bool" where
  "ctx_rel bs ctx ts n \<longleftrightarrow> ctx_buf ctx = Some bs \<and> unat (ctx_size ctx) \<le> length bs \<and> ctx_tokens ctx = Some ts \<and>
     unat (ctx_tokens_size ctx) \<le> length ts \<and> unat (ctx_tokens_pos ctx) = n \<and> n \<le> unat (ctx_tokens_size ctx)"

definition parse_rel :: "u8 list \<Rightarrow> parse_state \<Rightarrow> pm \<Rightarrow> bool" where
  "parse_rel bs s m \<longleftrightarrow> (\<exists>ts. ctx_rel bs (ps_ctx s) ts (length (pm_types m)) \<and> ctx_status (ps_ctx s) = CJ_OK \<and>
     tokens_rel ts (pm_types m) \<and>
     lexed bs (unat (ctx_size (ps_ctx s))) (take (length (pm_types m)) ts) (unat (ps_pos s)) \<and>
     chain ts (length (pm_types m)) (ps_tok_parent s) (pm_stack m) \<and>
     counters_rel s m \<and> pm_inv m)"

text \<open>What holds of the context when an error has ended the loop.\<close>

definition parse_failed :: "u8 list \<Rightarrow> nat \<Rightarrow> cj_ctx \<Rightarrow> cj_ctx \<Rightarrow> bool" where
  "parse_failed bs len ctx ctx' \<longleftrightarrow> (\<exists>ts n. ctx_rel bs ctx' ts n \<and> length ts = len \<and>
     ctx_size ctx' = ctx_size ctx \<and> ctx_tokens_size ctx' = ctx_tokens_size ctx)"

text \<open>
  The stages after the token is in the array: token \<open>tok\<close> is the last one, the machine has not
  seen it yet.
\<close>

definition stage_rel :: "u8 list \<Rightarrow> cj_token_ref \<Rightarrow> parse_state \<Rightarrow> pm \<Rightarrow> cj_token_type \<Rightarrow> bool" where
  "stage_rel bs i s m ty \<longleftrightarrow> (\<exists>ts. ctx_rel bs (ps_ctx s) ts (Suc (length (pm_types m))) \<and> ctx_status (ps_ctx s) = CJ_OK \<and>
     unat i = length (pm_types m) \<and>
     tokens_rel ts (pm_types m) \<and> tok_type (ts ! unat i) = ty \<and> ty \<noteq> CJ_TOKEN_INVALID \<and>
     lexed bs (unat (ctx_size (ps_ctx s))) (take (Suc (length (pm_types m))) ts) (unat (ps_pos s)) \<and>
     chain ts (length (pm_types m)) (ps_tok_parent s) (pm_stack m) \<and> tok_parent (ts ! unat i) = ps_tok_parent s \<and>
     counters_rel s m \<and> pm_inv m)"

text \<open>After the structure stage the machine state \<open>m'\<close> has the new stack and depths.\<close>

definition stage_rel' :: "u8 list \<Rightarrow> cj_token_ref \<Rightarrow> parse_state \<Rightarrow> pm \<Rightarrow> pm \<Rightarrow> cj_token_type \<Rightarrow> bool" where
  "stage_rel' bs i s m m' ty \<longleftrightarrow> (\<exists>ts. ctx_rel bs (ps_ctx s) ts (Suc (length (pm_types m))) \<and> ctx_status (ps_ctx s) = CJ_OK \<and>
     unat i = length (pm_types m) \<and>
     tokens_rel ts (pm_types m) \<and> tok_type (ts ! unat i) = ty \<and> ty \<noteq> CJ_TOKEN_INVALID \<and>
     lexed bs (unat (ctx_size (ps_ctx s))) (take (Suc (length (pm_types m))) ts) (unat (ps_pos s)) \<and>
     chain ts (Suc (length (pm_types m))) (ps_tok_parent s) (pm_stack m') \<and>
     (\<exists>st. chain ts (unat i) (tok_parent (ts ! unat i)) st) \<and>
     (\<not> is_open ty \<longrightarrow> tok_parent (ts ! unat i) = ps_tok_parent s) \<and>
     counters_rel s m' \<and> pm_structure ty m = Inr m' \<and> pm_inv m)"

text \<open>A stage that breaks leaves a status that is not \<open>CJ_OK\<close> and the token array usable.\<close>

definition broke :: "u8 list \<Rightarrow> parse_state \<Rightarrow> cj_status \<Rightarrow> parse_state \<Rightarrow> bool" where
  "broke bs s st s' \<longleftrightarrow> ctx_status (ps_ctx s') = st \<and> st \<noteq> CJ_OK \<and>
     (\<exists>ts n. ctx_rel bs (ps_ctx s') ts n) \<and> ctx_size (ps_ctx s') = ctx_size (ps_ctx s) \<and>
     ctx_tokens_size (ps_ctx s') = ctx_tokens_size (ps_ctx s) \<and> unat (ps_pos s') \<le> unat (ctx_size (ps_ctx s'))"

section \<open>Each stage refines the machine\<close>

lemma unat_invalid [simp]: "unat CJ_INVALID_TOKEN_INDEX = 4294967295"
  by (simp add: CJ_INVALID_TOKEN_INDEX_def unsigned_minus_1_eq_mask mask_eq_exp_minus_1)

lemma below_size_valid: "unat (i :: cj_size) < unat (n :: cj_size) \<Longrightarrow> i \<noteq> CJ_INVALID_TOKEN_INDEX"
  using unat_u32_less [of n] by auto

lemma lexed_snoc_iff: "lexed bs len (ts @ [t]) e' \<longleftrightarrow>
    (\<exists>e s. lexed bs len ts e \<and> token_start bs len e s \<and> token_ok bs len s t e')"
  by (subst lexed.simps) auto

lemma lexed_update_parent:
  assumes "lexed bs len (take (Suc n) ts) e" "n < length ts"
  shows "lexed bs len (take (Suc n) (ts[n := (ts ! n)\<lparr>tok_parent := q\<rparr>])) e"
  using assms by (simp add: take_Suc_conv_app_nth lexed_snoc_iff)

lemma tokens_rel_update [simp]: "length tys \<le> i \<Longrightarrow> tokens_rel (ts[i := t]) tys = tokens_rel ts tys"
  by (auto simp: tokens_rel_def)

lemma parse_structure_rel:
  assumes "stage_rel bs i s m ty"
  shows "case pm_structure ty m of
      Inl st \<Rightarrow> \<exists>s'. parse_structure i s = Some (Inl s') \<and> broke bs s st s'
    | Inr m' \<Rightarrow> \<exists>s'. parse_structure i s = Some (Inr s') \<and> stage_rel' bs i s' m m' ty \<and> same_frame s s' \<and> ps_pos s' = ps_pos s"
proof -
  define n where "n = length (pm_types m)"
  obtain ts where ctx: "ctx_rel bs (ps_ctx s) ts (Suc n)" and ok: "ctx_status (ps_ctx s) = CJ_OK"
    and i: "unat i = n" and toks: "tokens_rel ts (pm_types m)" and ty: "tok_type (ts ! n) = ty" "ty \<noteq> CJ_TOKEN_INVALID"
    and lex: "lexed bs (unat (ctx_size (ps_ctx s))) (take (Suc n) ts) (unat (ps_pos s))"
    and ch: "chain ts n (ps_tok_parent s) (pm_stack m)" and par: "tok_parent (ts ! n) = ps_tok_parent s"
    and cnt: "counters_rel s m" and inv: "pm_inv m"
    using assms unfolding stage_rel_def n_def [symmetric] by metis
  have n: "n < length ts" "ctx_tokens (ps_ctx s) = Some ts" "unat (ctx_tokens_pos (ps_ctx s)) = Suc n"
    using ctx by (auto simp: ctx_rel_def)
  have i_valid: "i \<noteq> CJ_INVALID_TOKEN_INDEX"
    using below_size_valid [of i "ctx_tokens_size (ps_ctx s)"] ctx i by (auto simp: ctx_rel_def)
  have tok: "tok_at (ps_ctx s) i = Some (ts ! n)"
    using n i by (simp add: tok_at_def)
  have pos: "unat (ps_pos s) \<le> unat (ctx_size (ps_ctx s))" using lexed_bound [OF lex] .
  have depths: "ps_obj_depth s = pm_obj m" "ps_arr_depth s = pm_arr m" "0 \<le> pm_obj m" "0 \<le> pm_arr m"
    "pm_obj m + pm_arr m = int (length (pm_stack m))"
    using cnt inv by (auto simp: counters_rel_def pm_inv_def)
  consider (op) "is_open ty" | (cl) "is_close ty" | (other) "\<not> is_open ty" "\<not> is_close ty" by blast
  then show ?thesis
  proof cases
    case op
    have cond: "ctx_tokens_pos (ps_ctx s) > 1 \<and> ps_arr_depth s = 0 \<and> ps_obj_depth s = 0 \<longleftrightarrow> pm_types m \<noteq> [] \<and> pm_stack m = []"
      using depths n(3) by (auto simp: word_less_nat_alt n_def)
    define f :: "parse_state \<Rightarrow> parse_state" where "f = (if ty = CJ_TOKEN_OBJECT_BEG then (\<lambda>s. s\<lparr>ps_obj_depth := ps_obj_depth s + 1\<rparr>)
       else (\<lambda>s. s\<lparr>ps_arr_depth := ps_arr_depth s + 1\<rparr>))"
    have po: "parse_structure i s = parse_open i s f"
      using op tok ty by (auto simp: parse_structure_def f_def is_open_def)
    show ?thesis
    proof (cases "pm_types m \<noteq> [] \<and> pm_stack m = []")
      case True
      then show ?thesis
        using op cond ctx pos by (auto simp: po parse_open_def pm_structure_def ps_break_def broke_def ctx_rel_def)
    next
      case False
      let ?s = "(f (s\<lparr>ps_nstructures := ps_nstructures s + 1\<rparr>))\<lparr>ps_tok_parent := i\<rparr>"
      let ?m = "(pm_depths ty m)\<lparr>pm_stack := ty # pm_stack m, pm_structs := pm_structs m + 1\<rparr>"
      have f: "ps_ctx (f t) = ps_ctx t" "ps_pos (f t) = ps_pos t" for t by (auto simp: f_def)
      have "i < ctx_tokens_pos (ps_ctx s)" using i n(3) by (simp add: word_less_nat_alt)
      then have "parse_structure i s = Some (Inr ?s)"
        unfolding po parse_open_eq_Inr using False cond f by auto
      moreover have pm: "pm_structure ty m = Inr ?m" using False op by (auto simp: pm_structure_def)
      moreover have "stage_rel' bs i ?s m ?m ty"
      proof -
        have "chain ts (Suc n) i (ty # pm_stack m)"
          using i n(1) i_valid ty op ch par by simp
        moreover have "counters_rel ?s ?m"
          using cnt op by (auto simp: counters_rel_def f_def pm_depths_def is_open_def)
        ultimately show ?thesis
          unfolding stage_rel'_def n_def [symmetric]
          using ctx ok i toks ty lex ch par inv op n(1) f pm by (intro exI [of _ ts]) auto
      qed
      ultimately show ?thesis using f by (simp add: same_frame_def)
    qed
  next
    case cl
    define s1 where "s1 = (if ty = CJ_TOKEN_OBJECT_END then s\<lparr>ps_obj_depth := ps_obj_depth s - 1\<rparr>
       else s\<lparr>ps_arr_depth := ps_arr_depth s - 1\<rparr>)"
    define d where "d = (if ty = CJ_TOKEN_OBJECT_END then ps_obj_depth s - 1 else ps_arr_depth s - 1)"
    have pc: "parse_structure i s = parse_close i (ts ! n) s1 d"
      using cl tok ty by (auto simp: parse_structure_def s1_def d_def is_close_def)
    have s1: "ps_ctx s1 = ps_ctx s" "ps_pos s1 = ps_pos s" by (auto simp: s1_def)
    let ?m' = "pm_depths ty m"
    have cond: "pm_obj ?m' < 0 \<or> pm_arr ?m' < 0 \<or> pm_types m = [] \<longleftrightarrow> d < 0 \<or> i = 0"
      using cl depths i by (auto simp: pm_depths_def d_def is_close_def n_def unat_eq_zero)
    have "\<not> is_open ty" using cl by (auto simp: is_open_def is_close_def)
    then have pmc: "pm_structure ty m = (if d < 0 \<or> i = 0 then Inl CJ_PARSE_PARENT_CLOSING
        else Inr (?m'\<lparr>pm_stack := tl (pm_stack m)\<rparr>))"
      unfolding pm_structure_def Let_def cond using cl by simp
    show ?thesis
    proof (cases "d < 0 \<or> i = 0")
      case True
      then have "i < 1 \<or> d < 0" by auto
      with True show ?thesis
        using ctx pos by (auto simp: pc pmc parse_close_def ps_break_def broke_def ctx_rel_def s1)
    next
      case False
      then have "pm_stack m \<noteq> []"
        using depths cl by (auto simp: d_def split: if_splits)
      then obtain ty0 st where st: "pm_stack m = ty0 # st" by (cases "pm_stack m") auto
      define p where "p = ps_tok_parent s"
      define q where "q = tok_parent (ts ! unat p)"
      have p: "unat p < n" "chain ts (unat p) q st"
        using ch st by (simp_all add: p_def q_def)
      have q: "q = CJ_INVALID_TOKEN_INDEX \<or> unat q < n"
        using p by (cases st) auto
      let ?ts = "ts[n := (ts ! n)\<lparr>tok_parent := q\<rparr>]"
      let ?s = "s1\<lparr>ps_tok_parent := q, ps_ctx := (ps_ctx s)\<lparr>ctx_tokens := Some ?ts\<rparr>\<rparr>"
      let ?m = "?m'\<lparr>pm_stack := tl (pm_stack m)\<rparr>"
      have run: "parse_structure i s = Some (Inr ?s)"
        unfolding pc parse_close_eq_Inr using False n i p q par
        by (auto simp: s1 p_def [symmetric] q_def word_less_nat_alt)
      have pm: "pm_structure ty m = Inr ?m"
        using False by (simp add: pmc)
      have "stage_rel' bs i ?s m ?m ty"
      proof -
        have base: "chain ?ts (unat p) q st"
          using p by simp
        have "chain ?ts (Suc n) q st" "chain ?ts n q st"
          by (rule chain_mono [OF base]; use p n(1) in simp)+
        moreover have "counters_rel ?s ?m"
          using cnt cl by (auto simp: counters_rel_def s1_def pm_depths_def is_close_def)
        ultimately show ?thesis
          unfolding stage_rel'_def n_def [symmetric]
          using ctx ok i toks ty lexed_update_parent [OF lex n(1), of q] inv n(1) pm st s1
          by (intro exI [of _ ?ts]) (auto simp: ctx_rel_def n_def)
      qed
      then show ?thesis using run pm s1 by (simp add: same_frame_def)
    qed
  next
    case other
    then have "parse_structure i s = Some (Inr s)"
      using tok ty by (cases ty) (auto simp: parse_structure_def)
    moreover have "stage_rel' bs i s m m ty"
      unfolding stage_rel'_def n_def [symmetric] using ctx ok i toks ty lex ch par cnt inv other n(1)
      by (intro exI [of _ ts]) (auto simp: pm_structure_def intro: chain_mono)
    ultimately show ?thesis using other by (simp add: pm_structure_def same_frame_def)
  qed
qed

text \<open>What the separator stages see in the token array.\<close>

lemma unat_dec1: "unat i = Suc k \<Longrightarrow> unat (i - 1) = k" for i :: "'a::len word"
  using unat_dec [of i] by (simp add: word_less_nat_alt)

definition stage_view :: "cj_token_ref \<Rightarrow> cj_ctx \<Rightarrow> pm \<Rightarrow> cj_token_type \<Rightarrow> bool" where
  "stage_view i ctx m ty \<longleftrightarrow> unat i = length (pm_types m) \<and>
     (\<exists>tok. tok_at ctx i = Some tok \<and> tok_type tok = ty \<and>
       (ty = CJ_TOKEN_NAME_SEP \<or> ty = CJ_TOKEN_ITEM_SEP \<longrightarrow>
         (case pm_stack m of [] \<Rightarrow> tok_parent tok = CJ_INVALID_TOKEN_INDEX
          | st # sts \<Rightarrow> tok_parent tok \<noteq> CJ_INVALID_TOKEN_INDEX \<and>
              (\<exists>parent. tok_at ctx (tok_parent tok) = Some parent \<and> tok_type parent = st)))) \<and>
     (pm_types m \<noteq> [] \<longrightarrow> (\<exists>prev. tok_at ctx (i - 1) = Some prev \<and> tok_type prev = last (pm_types m) \<and>
        unat (tok_pos prev) \<le> unat (ctx_size ctx)))"

lemma lexed_nth_bound: "lexed bs len ts e \<Longrightarrow> j < length ts \<Longrightarrow> unat (tok_pos (ts ! j)) \<le> len"
  by (induction rule: lexed.induct) (auto simp: nth_append less_Suc_eq dest!: token_ok_bounds lexed_bound)

lemma stage_rel'_view:
  assumes "stage_rel' bs i s m m' ty"
  shows "stage_view i (ps_ctx s) m ty"
proof -
  define n where "n = length (pm_types m)"
  obtain ts where ctx: "ctx_rel bs (ps_ctx s) ts (Suc n)"
    and i: "unat i = n" and toks: "tokens_rel ts (pm_types m)" and ty: "tok_type (ts ! n) = ty"
    and lex: "lexed bs (unat (ctx_size (ps_ctx s))) (take (Suc n) ts) (unat (ps_pos s))"
    and ch: "chain ts (Suc n) (ps_tok_parent s) (pm_stack m')"
    and par: "\<not> is_open ty \<longrightarrow> tok_parent (ts ! n) = ps_tok_parent s" and st: "pm_structure ty m = Inr m'"
    using assms unfolding stage_rel'_def n_def [symmetric] by metis
  have n: "n < length ts" "ctx_tokens (ps_ctx s) = Some ts"
    using ctx by (auto simp: ctx_rel_def)
  have tok: "tok_at (ps_ctx s) i = Some (ts ! n)"
    using n i by (simp add: tok_at_def)
  have prev: "\<exists>prev. tok_at (ps_ctx s) (i - 1) = Some prev \<and> tok_type prev = last (pm_types m) \<and>
      unat (tok_pos prev) \<le> unat (ctx_size (ps_ctx s))" if "pm_types m \<noteq> []"
  proof -
    from that obtain k where k: "n = Suc k" by (cases n) (auto simp: n_def)
    then have "tok_at (ps_ctx s) (i - 1) = Some (ts ! k)"
      using n i unat_dec1 [of i k] by (simp add: tok_at_def)
    moreover have "tok_type (ts ! k) = last (pm_types m)"
    proof -
      have "map tok_type (take n ts) ! k = pm_types m ! k"
        using toks unfolding tokens_rel_def n_def by simp
      then show ?thesis using that k n(1) by (simp add: last_conv_nth flip: n_def)
    qed
    moreover have "unat (tok_pos (ts ! k)) \<le> unat (ctx_size (ps_ctx s))"
      using lexed_nth_bound [OF lex, of k] k n(1) by simp
    ultimately show ?thesis by blast
  qed
  have "case pm_stack m of [] \<Rightarrow> tok_parent (ts ! n) = CJ_INVALID_TOKEN_INDEX
          | st # sts \<Rightarrow> tok_parent (ts ! n) \<noteq> CJ_INVALID_TOKEN_INDEX \<and>
              (\<exists>parent. tok_at (ps_ctx s) (tok_parent (ts ! n)) = Some parent \<and> tok_type parent = st)"
    if "ty = CJ_TOKEN_NAME_SEP \<or> ty = CJ_TOKEN_ITEM_SEP"
  proof -
    have "m' = m" "tok_parent (ts ! n) = ps_tok_parent s"
      using that st par by (auto simp: pm_structure_def)
    then show ?thesis
      using ch n by (cases "pm_stack m") (auto simp: tok_at_def)
  qed
  then show ?thesis
    unfolding stage_view_def n_def [symmetric] using tok ty prev i by auto
qed

lemma parse_name_sep_eval:
  assumes "stage_view i (ps_ctx s) m ty"
  shows "parse_name_sep i s =
    (if ty \<noteq> CJ_TOKEN_NAME_SEP then Some (Inr s)
     else if name_sep_ok m then Some (Inr (s\<lparr>ps_ncolons := ps_ncolons s + 1\<rparr>))
     else ps_break CJ_PARSE_INVALID_TOKEN s)"
proof (cases "ty = CJ_TOKEN_NAME_SEP")
  case True
  have "i < 2 \<longleftrightarrow> length (pm_types m) < 2"
    using assms by (simp add: stage_view_def word_less_nat_alt)
  moreover have "2 \<le> length (pm_types m) \<Longrightarrow> pm_types m \<noteq> []" by auto
  ultimately show ?thesis
    using assms True
    by (cases "pm_stack m") (auto simp: parse_name_sep_def stage_view_def name_sep_ok_def pm_prev_def)
qed (use assms in \<open>auto simp: parse_name_sep_def stage_view_def\<close>)

lemma parse_item_sep_eval:
  assumes "stage_view i (ps_ctx s) m ty"
  shows "parse_item_sep i s =
    (if ty \<noteq> CJ_TOKEN_ITEM_SEP then Some (Inr s)
     else if item_sep_ok m
     then Some (Inr (if hd (pm_stack m) = CJ_TOKEN_OBJECT_BEG then s\<lparr>ps_ncommas := ps_ncommas s + 1\<rparr> else s))
     else ps_break CJ_PARSE_INVALID_TOKEN s)"
proof (cases "ty = CJ_TOKEN_ITEM_SEP")
  case True
  have "i < 2 \<longleftrightarrow> length (pm_types m) < 2"
    using assms by (simp add: stage_view_def word_less_nat_alt)
  moreover have "2 \<le> length (pm_types m) \<Longrightarrow> pm_types m \<noteq> []" by auto
  ultimately show ?thesis
    using assms True
    by (cases "pm_stack m") (auto simp: parse_item_sep_def stage_view_def item_sep_ok_def pm_prev_def)
qed (use assms in \<open>auto simp: parse_item_sep_def stage_view_def\<close>)

lemma break_keeps_pos:
  "\<exists>p. ps_break st s = ps_break st (s\<lparr>ps_pos := p\<rparr>) \<and> (p = ps_pos s \<or> Q p)"
  by (rule exI [of _ "ps_pos s"]) simp

lemma parse_follow_eval:
  assumes "stage_view i (ps_ctx s) m ty"
  shows "if follow_ok (pm_prev m) ty then parse_follow i s = Some (Inr s)
    else \<exists>p. parse_follow i s = ps_break CJ_PARSE_INVALID_TOKEN (s\<lparr>ps_pos := p\<rparr>) \<and>
      (p = ps_pos s \<or> unat p \<le> unat (ctx_size (ps_ctx s)))"
proof (cases "pm_types m = []")
  case True
  then have "\<not> 1 \<le> i" using assms by (simp add: stage_view_def word_le_nat_alt)
  then show ?thesis using True by (simp add: parse_follow_def follow_ok_def pm_prev_def)
next
  case False
  then have "1 \<le> i" using assms by (auto simp: stage_view_def word_le_nat_alt Suc_le_eq)
  then show ?thesis using assms False
    by (auto simp: parse_follow_def stage_view_def follow_ok_def pm_prev_def intro: break_keeps_pos)
qed

lemma pm_structure_frame:
  "pm_structure ty m = Inr m' \<Longrightarrow> pm_types m' = pm_types m \<and> pm_commas m' = pm_commas m \<and> pm_colons m' = pm_colons m"
  by (cases ty) (auto simp: pm_structure_def pm_depths_def Let_def split: if_split_asm)

lemma tokens_rel_snoc:
  assumes "tokens_rel ts tys" "length tys < length ts" "tok_type (ts ! length tys) = ty"
    "\<exists>st. chain ts (length tys) (tok_parent (ts ! length tys)) st"
  shows "tokens_rel ts (tys @ [ty])"
  using assms by (auto simp: tokens_rel_def take_Suc_conv_app_nth less_Suc_eq)

text \<open>The last three stages together: the checks of the machine, and its counters.\<close>

lemma parse_checks_rel:
  assumes rel: "stage_rel' bs i s m m1 ty"
  shows "case pm_step ty m of
      Inl st \<Rightarrow> \<exists>s'. stage (parse_name_sep i s) (\<lambda>s. stage (parse_item_sep i s) (\<lambda>s. parse_follow i s)) = Some (Inl s') \<and> broke bs s st s'
    | Inr m' \<Rightarrow> \<exists>s'. stage (parse_name_sep i s) (\<lambda>s. stage (parse_item_sep i s) (\<lambda>s. parse_follow i s)) = Some (Inr s') \<and>
        parse_rel bs s' m' \<and> same_frame s s' \<and> ps_pos s' = ps_pos s"
proof -
  have struct: "pm_structure ty m = Inr m1" and inv: "pm_inv m" using rel by (auto simp: stage_rel'_def)
  have view: "stage_view i (ps_ctx s') m ty" if "ps_ctx s' = ps_ctx s" for s' :: parse_state
    using stage_rel'_view [OF rel] that by simp
  have broke: "broke bs s CJ_PARSE_INVALID_TOKEN (t\<lparr>ps_ctx := (ps_ctx s)\<lparr>ctx_status := CJ_PARSE_INVALID_TOKEN\<rparr>\<rparr>)"
    if "unat (ps_pos t) \<le> unat (ctx_size (ps_ctx s))" for t :: parse_state
    using rel that by (fastforce simp: stage_rel'_def broke_def ctx_rel_def)
  have pos: "unat (ps_pos s) \<le> unat (ctx_size (ps_ctx s))"
    using rel lexed_bound by (auto simp: stage_rel'_def)
  define s1 where "s1 = (if ty = CJ_TOKEN_NAME_SEP then s\<lparr>ps_ncolons := ps_ncolons s + 1\<rparr> else s)"
  define s2 where "s2 = (if ty = CJ_TOKEN_ITEM_SEP \<and> hd (pm_stack m) = CJ_TOKEN_OBJECT_BEG then s1\<lparr>ps_ncommas := ps_ncommas s1 + 1\<rparr> else s1)"
  have c: "ps_ctx s1 = ps_ctx s" "ps_ctx s2 = ps_ctx s" "ps_pos s1 = ps_pos s" "ps_pos s2 = ps_pos s"
    by (auto simp: s1_def s2_def)
  note ev = parse_name_sep_eval [OF view [OF refl]] parse_item_sep_eval [OF view [OF c(1)]] parse_follow_eval [OF view [OF c(2)]]
  let ?rest = "stage (parse_name_sep i s) (\<lambda>s. stage (parse_item_sep i s) (\<lambda>s. parse_follow i s))"
  consider (name) "ty = CJ_TOKEN_NAME_SEP" "\<not> name_sep_ok m"
    | (item) "ty = CJ_TOKEN_ITEM_SEP" "\<not> item_sep_ok m"
    | (follow) "ty = CJ_TOKEN_NAME_SEP \<longrightarrow> name_sep_ok m" "ty = CJ_TOKEN_ITEM_SEP \<longrightarrow> item_sep_ok m" "\<not> follow_ok (pm_prev m) ty"
    | (good) "ty = CJ_TOKEN_NAME_SEP \<longrightarrow> name_sep_ok m" "ty = CJ_TOKEN_ITEM_SEP \<longrightarrow> item_sep_ok m" "follow_ok (pm_prev m) ty"
    by blast
  then show ?thesis
  proof cases
    case name
    then have "?rest = ps_break CJ_PARSE_INVALID_TOKEN s" "pm_step ty m = Inl CJ_PARSE_INVALID_TOKEN"
      using struct by (simp_all add: ev ps_break_def pm_step_def)
    then show ?thesis using broke [of s] pos by (simp add: ps_break_def)
  next
    case item
    then have "?rest = ps_break CJ_PARSE_INVALID_TOKEN s" "pm_step ty m = Inl CJ_PARSE_INVALID_TOKEN"
      using struct ev(2) by (simp_all add: ev(1) ps_break_def pm_step_def s1_def)
    then show ?thesis using broke [of s] pos by (simp add: ps_break_def)
  next
    case follow
    have "parse_name_sep i s = Some (Inr s1)" "parse_item_sep i s1 = Some (Inr s2)"
      using follow ev by (auto simp: s1_def s2_def)
    moreover obtain p where "parse_follow i s2 = ps_break CJ_PARSE_INVALID_TOKEN (s2\<lparr>ps_pos := p\<rparr>)"
      "unat p \<le> unat (ctx_size (ps_ctx s))"
      using follow ev(3) c pos by auto
    ultimately have "?rest = ps_break CJ_PARSE_INVALID_TOKEN (s2\<lparr>ps_pos := p\<rparr>)" "pm_step ty m = Inl CJ_PARSE_INVALID_TOKEN"
      using struct follow by (simp_all add: pm_step_def)
    then show ?thesis
      using broke [of "s2\<lparr>ps_pos := p\<rparr>"] \<open>unat p \<le> _\<close> c by (simp add: ps_break_def)
  next
    case good
    have run: "?rest = Some (Inr s2)"
      using good ev by (auto simp: s1_def s2_def)
    obtain m' where m': "pm_step ty m = Inr m'" and m'_eq: "m' = m1\<lparr>pm_types := pm_types m @ [ty],
             pm_colons := (if ty = CJ_TOKEN_NAME_SEP then pm_colons m + 1 else pm_colons m),
             pm_commas := (if ty = CJ_TOKEN_ITEM_SEP \<and> hd (pm_stack m) = CJ_TOKEN_OBJECT_BEG then pm_commas m + 1 else pm_commas m)\<rparr>"
      using good struct by (simp add: pm_step_def)
    have "counters_rel s2 m'"
      using rel pm_structure_frame [OF struct]
      by (auto simp: stage_rel'_def counters_rel_def m'_eq s2_def s1_def)
    moreover have "pm_inv m'"
      using pm_step_inv [OF inv m'] rel by (auto simp: stage_rel'_def)
    moreover obtain ts where ts: "ctx_rel bs (ps_ctx s) ts (Suc (length (pm_types m)))" "ctx_status (ps_ctx s) = CJ_OK"
      "unat i = length (pm_types m)" "tokens_rel ts (pm_types m)" "tok_type (ts ! unat i) = ty"
      "lexed bs (unat (ctx_size (ps_ctx s))) (take (Suc (length (pm_types m))) ts) (unat (ps_pos s))"
      "chain ts (Suc (length (pm_types m))) (ps_tok_parent s) (pm_stack m1)"
      "\<exists>st. chain ts (unat i) (tok_parent (ts ! unat i)) st"
      using rel unfolding stage_rel'_def by blast
    moreover have "tokens_rel ts (pm_types m @ [ty])"
      by (rule tokens_rel_snoc) (use ts in \<open>auto simp: ctx_rel_def\<close>)
    moreover have "ps_tok_parent s2 = ps_tok_parent s" by (simp add: s1_def s2_def)
    ultimately have "parse_rel bs s2 m'"
      unfolding parse_rel_def by (intro exI [of _ ts]) (simp add: m'_eq c)
    then show ?thesis using run m' c by (simp add: same_frame_def)
  qed
qed

definition scan_on :: "u8 list \<Rightarrow> parse_state \<Rightarrow> bool" where
  "scan_on bs s \<longleftrightarrow> unat (ctx_size (ps_ctx s)) < length bs \<or>
     (\<exists>i \<ge> unat (ps_pos s). i < unat (ctx_size (ps_ctx s)) \<and> \<not> is_white_space (bs ! i))"

definition fresh_token :: "parse_state \<Rightarrow> cj_token" where
  "fresh_token s = (case ctx_tokens (ps_ctx s) of Some ts \<Rightarrow>
     (ts ! unat (ctx_tokens_pos (ps_ctx s)))\<lparr>tok_type := CJ_TOKEN_INVALID, tok_parent := CJ_INVALID_TOKEN_INDEX\<rparr>)"

lemma token_ok_type: "token_ok bs len s t e \<Longrightarrow> tok_type t \<noteq> CJ_TOKEN_INVALID"
  by (auto simp: token_ok_def)

text \<open>The first stage: either the array is used up, or the next token of the input is in it.\<close>

lemma parse_next_exhausted:
  assumes "parse_rel bs s m" "\<not> length (pm_types m) < unat (ctx_tokens_size (ps_ctx s))"
  shows "\<exists>s'. parse_next s = Some (Inl s') \<and> broke bs s CJ_PARSE_TOKENS_EXHAUSTED s'"
proof -
  obtain ts where ctx: "ctx_rel bs (ps_ctx s) ts (length (pm_types m))"
    and lex: "lexed bs (unat (ctx_size (ps_ctx s))) (take (length (pm_types m)) ts) (unat (ps_pos s))"
    using assms(1) by (auto simp: parse_rel_def)
  have "\<not> ctx_tokens_pos (ps_ctx s) < ctx_tokens_size (ps_ctx s)"
    using ctx assms(2) by (simp add: ctx_rel_def word_less_nat_alt)
  then have "parse_next s = ps_break CJ_PARSE_TOKENS_EXHAUSTED s"
    by (simp add: parse_next_def cj_alloc_token_def)
  moreover have "broke bs s CJ_PARSE_TOKENS_EXHAUSTED (s\<lparr>ps_ctx := (ps_ctx s)\<lparr>ctx_status := CJ_PARSE_TOKENS_EXHAUSTED\<rparr>\<rparr>)"
    using ctx lexed_bound [OF lex] by (auto simp: broke_def ctx_rel_def)
  ultimately show ?thesis by (simp add: ps_break_def)
qed

lemma parse_next_rel:
  assumes rel: "parse_rel bs s m" and on: "scan_on bs s"
    and room: "length (pm_types m) < unat (ctx_tokens_size (ps_ctx s))"
    and tok: "cj_next_token (Some bs) (ctx_size (ps_ctx s)) (ps_pos s) (fresh_token s) = Some (pos', t')"
  shows "if tok_type t' = CJ_TOKEN_INVALID
    then \<exists>s'. parse_next s = Some (Inl s') \<and> broke bs s CJ_PARSE_INVALID_TOKEN s'
    else \<exists>i s'. parse_next s = Some (Inr (i, s')) \<and> stage_rel bs i s' m (tok_type t') \<and> ps_pos s' = pos' \<and>
      ctx_size (ps_ctx s') = ctx_size (ps_ctx s) \<and> ctx_tokens_size (ps_ctx s') = ctx_tokens_size (ps_ctx s)"
proof -
  define n where "n = length (pm_types m)"
  define ctx where "ctx = ps_ctx s"
  define i where "i = ctx_tokens_pos ctx"
  obtain ts where ctx: "ctx_rel bs ctx ts n" and ok: "ctx_status ctx = CJ_OK"
    and toks: "tokens_rel ts (pm_types m)"
    and lex: "lexed bs (unat (ctx_size ctx)) (take n ts) (unat (ps_pos s))"
    and ch: "chain ts n (ps_tok_parent s) (pm_stack m)" and cnt: "counters_rel s m" and inv: "pm_inv m"
    using rel unfolding parse_rel_def n_def [symmetric] ctx_def [symmetric] by metis
  have c: "ctx_buf ctx = Some bs" "unat (ctx_size ctx) \<le> length bs" "ctx_tokens ctx = Some ts"
    "unat (ctx_tokens_size ctx) \<le> length ts" "unat i = n"
    using ctx by (auto simp: ctx_rel_def i_def)
  have n: "n < length ts" "n < unat (ctx_tokens_size ctx)" using room c by (simp_all add: n_def ctx_def)
  have i: "i < ctx_tokens_size ctx" "i \<noteq> CJ_INVALID_TOKEN_INDEX"
    using n(2) c(5) below_size_valid [of i "ctx_tokens_size ctx"] by (simp_all add: word_less_nat_alt)
  have i1: "unat (i + 1) = Suc n" using unat_inc [OF i(1)] c(5) by simp
  let ?fresh = "(ts ! n)\<lparr>tok_type := CJ_TOKEN_INVALID, tok_parent := CJ_INVALID_TOKEN_INDEX\<rparr>"
  have fresh: "fresh_token s = ?fresh"
    using c by (simp add: fresh_token_def ctx_def [symmetric] i_def [symmetric])
  let ?ctx1 = "ctx\<lparr>ctx_tokens := Some (ts[n := ?fresh]), ctx_tokens_pos := i + 1\<rparr>"
  let ?ctx2 = "ctx\<lparr>ctx_tokens := Some (ts[n := t']), ctx_tokens_pos := i + 1\<rparr>"
  let ?ctx3 = "ctx\<lparr>ctx_tokens := Some (ts[n := t'\<lparr>tok_parent := ps_tok_parent s\<rparr>]), ctx_tokens_pos := i + 1\<rparr>"
  have al: "cj_alloc_token ctx = Some (i, ?ctx1)"
    unfolding cj_alloc_token_eq_Some using i(1) c n by (auto simp: i_def)
  have at: "tok_at ?ctx1 i = Some ?fresh" using c n by (simp add: tok_at_def)
  have set2: "tok_set ?ctx1 i t' = Some ?ctx2" using c n by (simp add: tok_set_def)
  have set3: "tok_set ?ctx2 i (t'\<lparr>tok_parent := ps_tok_parent s\<rparr>) = Some ?ctx3" using c n by (simp add: tok_set_def)
  have parent: "ps_tok_parent s = CJ_INVALID_TOKEN_INDEX \<or> ps_tok_parent s < i + 1"
    using ch i1 by (cases "pm_stack m") (auto simp: word_less_nat_alt)
  have run: "parse_next s =
     (if tok_type t' = CJ_TOKEN_INVALID then ps_break CJ_PARSE_INVALID_TOKEN (s\<lparr>ps_ctx := ?ctx2, ps_pos := pos'\<rparr>)
      else Some (Inr (i, s\<lparr>ps_ctx := ?ctx3, ps_pos := pos'\<rparr>)))"
    using al at set2 set3 parent i(2) c tok
    by (simp add: parse_next_def ctx_def [symmetric] Let_def fresh)
  obtain s0 where spec: "token_start bs (unat (ctx_size ctx)) (unat (ps_pos s)) s0" "unat pos' \<le> unat (ctx_size ctx)"
    "tok_type t' = CJ_TOKEN_INVALID \<or> token_ok bs (unat (ctx_size ctx)) s0 t' (unat pos')"
    using cj_next_token_spec [OF lexed_bound [OF lex] c(2), of "fresh_token s"] on tok
    by (auto simp: scan_on_def ctx_def)
  show ?thesis
  proof (cases "tok_type t' = CJ_TOKEN_INVALID")
    case True
    have "broke bs s CJ_PARSE_INVALID_TOKEN (s\<lparr>ps_pos := pos', ps_ctx := ?ctx2\<lparr>ctx_status := CJ_PARSE_INVALID_TOKEN\<rparr>\<rparr>)"
      using c n i1 spec(2) by (auto simp: broke_def ctx_rel_def ctx_def [symmetric])
    with True show ?thesis by (simp add: run ps_break_def)
  next
    case False
    let ?s = "s\<lparr>ps_ctx := ?ctx3, ps_pos := pos'\<rparr>" and ?ts = "ts[n := t'\<lparr>tok_parent := ps_tok_parent s\<rparr>]"
    have "stage_rel bs i ?s m (tok_type t')"
      unfolding stage_rel_def n_def [symmetric]
    proof (intro exI [of _ ?ts] conjI)
      show "lexed bs (unat (ctx_size (ps_ctx ?s))) (take (Suc n) ?ts) (unat (ps_pos ?s))"
        using n(1) lex spec False by (auto simp: take_Suc_conv_app_nth lexed_snoc_iff)
    qed (use c n i1 ok toks ch cnt inv False in \<open>auto simp: ctx_rel_def n_def counters_rel_def\<close>)
    with False show ?thesis by (simp add: run ctx_def)
  qed
qed

text \<open>One iteration.\<close>

theorem parse_body_rel:
  assumes rel: "parse_rel bs s m" and on: "scan_on bs s"
  shows "if length (pm_types m) < unat (ctx_tokens_size (ps_ctx s))
    then \<exists>pos' t'. cj_next_token (Some bs) (ctx_size (ps_ctx s)) (ps_pos s) (fresh_token s) = Some (pos', t') \<and>
      (if tok_type t' = CJ_TOKEN_INVALID
       then \<exists>s'. parse_body s = Some (Inl s') \<and> broke bs s CJ_PARSE_INVALID_TOKEN s'
       else case pm_step (tok_type t') m of
         Inl st \<Rightarrow> \<exists>s'. parse_body s = Some (Inl s') \<and> broke bs s st s'
       | Inr m' \<Rightarrow> \<exists>s'. parse_body s = Some (Inr s') \<and> parse_rel bs s' m' \<and> ps_pos s' = pos' \<and>
           ctx_size (ps_ctx s') = ctx_size (ps_ctx s) \<and> ctx_tokens_size (ps_ctx s') = ctx_tokens_size (ps_ctx s))
    else \<exists>s'. parse_body s = Some (Inl s') \<and> broke bs s CJ_PARSE_TOKENS_EXHAUSTED s'"
proof (cases "length (pm_types m) < unat (ctx_tokens_size (ps_ctx s))")
  case False
  with parse_next_exhausted [OF rel] show ?thesis by (auto simp: parse_body_def)
next
  case room: True
  obtain ts where ctx: "ctx_rel bs (ps_ctx s) ts (length (pm_types m))"
    and lex: "lexed bs (unat (ctx_size (ps_ctx s))) (take (length (pm_types m)) ts) (unat (ps_pos s))"
    using rel by (auto simp: parse_rel_def)
  obtain pos' t' where tok: "cj_next_token (Some bs) (ctx_size (ps_ctx s)) (ps_pos s) (fresh_token s) = Some (pos', t')"
    using cj_next_token_spec [of "ps_pos s" "ctx_size (ps_ctx s)" bs "fresh_token s"] lexed_bound [OF lex] ctx on
    by (auto simp: scan_on_def ctx_rel_def)
  note next_rel = parse_next_rel [OF rel on room tok]
  show ?thesis
  proof (cases "tok_type t' = CJ_TOKEN_INVALID")
    case True
    with next_rel tok room show ?thesis by (auto simp: parse_body_def)
  next
    case False
    then obtain i s1 where s1: "parse_next s = Some (Inr (i, s1))" "stage_rel bs i s1 m (tok_type t')" "ps_pos s1 = pos'"
      "ctx_size (ps_ctx s1) = ctx_size (ps_ctx s)" "ctx_tokens_size (ps_ctx s1) = ctx_tokens_size (ps_ctx s)"
      using next_rel by auto
    have brk: "broke bs s st s'" if "broke bs s2 st s'" "ctx_size (ps_ctx s2) = ctx_size (ps_ctx s)"
      "ctx_tokens_size (ps_ctx s2) = ctx_tokens_size (ps_ctx s)" for s2 st s'
      using that by (auto simp: broke_def)
    show ?thesis
    proof (cases "pm_structure (tok_type t') m")
      case (Inl st)
      with parse_structure_rel [OF s1(2)] obtain s' where "parse_structure i s1 = Some (Inl s')" "broke bs s1 st s'" by auto
      then show ?thesis using Inl tok room False s1 brk by (auto simp: parse_body_def pm_step_def)
    next
      case (Inr m1)
      with parse_structure_rel [OF s1(2)] obtain s2 where s2: "parse_structure i s1 = Some (Inr s2)"
        "stage_rel' bs i s2 m m1 (tok_type t')" "same_frame s1 s2" "ps_pos s2 = ps_pos s1" by auto
      then show ?thesis
        using parse_checks_rel [OF s2(2)] tok room False s1 brk [of s2]
        by (auto simp: parse_body_def same_frame_def split: sum.splits)
    qed
  qed
qed

section \<open>The loop, and the checks after it\<close>

fun pm_steps :: "cj_token_type list \<Rightarrow> pm \<Rightarrow> cj_status + pm" where
  "pm_steps [] m = Inr m"
| "pm_steps (ty # tys) m = (case pm_step ty m of Inl st \<Rightarrow> Inl st | Inr m' \<Rightarrow> pm_steps tys m')"

lemma pm_steps_append: "pm_steps (xs @ ys) m = (case pm_steps xs m of Inl st \<Rightarrow> Inl st | Inr m' \<Rightarrow> pm_steps ys m')"
  by (induction xs arbitrary: m) (auto split: sum.splits)

definition trimmed :: "u8 list \<Rightarrow> nat \<Rightarrow> bool" where
  "trimmed bs n \<longleftrightarrow> (0 < n \<longrightarrow> \<not> is_white_space (bs ! (n - 1)))"

text \<open>How a run may end.\<close>

definition loop_end :: "u8 list \<Rightarrow> parse_state \<Rightarrow> parse_state \<Rightarrow> bool" where
  "loop_end bs s s' \<longleftrightarrow>
     ctx_size (ps_ctx s') = ctx_size (ps_ctx s) \<and> ctx_tokens_size (ps_ctx s') = ctx_tokens_size (ps_ctx s) \<and>
     (\<exists>m. pm_inv m \<and> pm_steps (pm_types m) pm_init = Inr m \<and>
       (if ctx_status (ps_ctx s') = CJ_OK
        then parse_rel bs s' m \<and> pm_types m \<noteq> [] \<and> unat (ps_pos s') = unat (ctx_size (ps_ctx s'))
        else broke bs s (ctx_status (ps_ctx s')) s' \<and>
          (ctx_status (ps_ctx s') = CJ_PARSE_TOKENS_EXHAUSTED \<and> length (pm_types m) = unat (ctx_tokens_size (ps_ctx s)) \<or>
           ctx_status (ps_ctx s') = CJ_PARSE_INVALID_TOKEN \<or>
           (\<exists>ty. pm_step ty m = Inl (ctx_status (ps_ctx s'))))))"

lemma pm_step_status: "pm_step ty m = Inl st \<Longrightarrow> st \<in> {CJ_PARSE_MULTI_TOP_THINGS, CJ_PARSE_PARENT_CLOSING, CJ_PARSE_INVALID_TOKEN}"
  by (auto simp: pm_step_def pm_structure_def Let_def split: sum.splits if_split_asm)

lemma broke_loop_end:
  assumes "broke bs s st s'" "pm_inv m" "pm_steps (pm_types m) pm_init = Inr m"
    and "st = CJ_PARSE_TOKENS_EXHAUSTED \<and> length (pm_types m) = unat (ctx_tokens_size (ps_ctx s)) \<or>
      st = CJ_PARSE_INVALID_TOKEN \<or> (\<exists>ty. pm_step ty m = Inl st)"
  shows "loop_end bs s s'"
  using assms unfolding loop_end_def by (auto simp: broke_def intro!: exI [of _ m])

lemma cj_parse_loop_rel:
  assumes "parse_rel bs s m" "scan_on bs s" "trimmed bs (unat (ctx_size (ps_ctx s)))" "pm_steps (pm_types m) pm_init = Inr m"
  shows "\<exists>s'. cj_parse_loop s = Some s' \<and> loop_end bs s s'"
  using assms
proof (induction "unat (ctx_tokens_size (ps_ctx s)) - length (pm_types m)" arbitrary: s m rule: less_induct)
  case less
  have inv: "pm_inv m" using less.prems(1) by (auto simp: parse_rel_def)
  have small: "length (pm_types m) \<le> unat (ctx_tokens_size (ps_ctx s))"
    using less.prems(1) by (auto simp: parse_rel_def ctx_rel_def)
  note body = parse_body_rel [OF less.prems(1,2)]
  show ?case
  proof (cases "parse_body s")
    case None
    then show ?thesis using body by (auto split: if_split_asm sum.splits)
  next
    case (Some r)
    show ?thesis
    proof (cases r)
      case (Inl s')
      have "\<exists>st. broke bs s st s' \<and> (st = CJ_PARSE_TOKENS_EXHAUSTED \<and> length (pm_types m) = unat (ctx_tokens_size (ps_ctx s)) \<or>
          st = CJ_PARSE_INVALID_TOKEN \<or> (\<exists>ty. pm_step ty m = Inl st))"
        using body Some Inl small by (auto split: if_split_asm sum.splits)
      then have "loop_end bs s s'"
        using broke_loop_end [OF _ inv less.prems(4)] by blast
      then show ?thesis
        using Some Inl by (subst cj_parse_loop.simps) simp
    next
      case (Inr s')
      obtain ty m' where step: "pm_step ty m = Inr m'" "parse_rel bs s' m'"
        and room: "length (pm_types m) < unat (ctx_tokens_size (ps_ctx s))"
        and frame: "ctx_size (ps_ctx s') = ctx_size (ps_ctx s)" "ctx_tokens_size (ps_ctx s') = ctx_tokens_size (ps_ctx s)"
        using body Some Inr by (auto split: if_split_asm sum.splits)
      have tys: "pm_types m' = pm_types m @ [ty]" by (rule pm_step_types [OF step(1)])
      have steps: "pm_steps (pm_types m') pm_init = Inr m'"
        using less.prems(4) step(1) by (simp add: tys pm_steps_append)
      show ?thesis
      proof (cases "ps_pos s' < ctx_size (ps_ctx s')")
        case True
        have on: "scan_on bs s'"
          using True less.prems(3) frame unfolding scan_on_def trimmed_def word_less_nat_alt
          by (intro disjI2 exI [of _ "unat (ctx_size (ps_ctx s')) - 1"]) auto
        have "\<exists>r. cj_parse_loop s' = Some r \<and> loop_end bs s' r"
          by (rule less.hyps [OF _ step(2) on]) (use room tys frame less.prems(3) steps in auto)
        then obtain r where r: "cj_parse_loop s' = Some r" "loop_end bs s' r" by blast
        then have "loop_end bs s r"
          using frame by (auto simp: loop_end_def broke_def)
        then show ?thesis using Some Inr True r by (subst cj_parse_loop.simps) simp
      next
        case False
        have "unat (ps_pos s') \<le> unat (ctx_size (ps_ctx s'))" "ctx_status (ps_ctx s') = CJ_OK"
          using step(2) lexed_bound by (auto simp: parse_rel_def)
        then have "loop_end bs s s'"
          using False step(2) steps tys frame unfolding loop_end_def
          by (auto simp: word_less_nat_alt parse_rel_def intro!: exI [of _ m'])
        then show ?thesis using Some Inr False by (subst cj_parse_loop.simps) simp
      qed
    qed
  qed
qed

lemma unat_of_nat_small: "n \<le> k \<Longrightarrow> k < 4294967296 \<Longrightarrow> unat (of_nat n :: u32) = n"
  by (simp add: unat_of_nat)

lemma pm_counts_le: "pm_inv m \<Longrightarrow> pm_commas m \<le> length (pm_types m) \<and> pm_colons m \<le> length (pm_types m) \<and> pm_structs m \<le> length (pm_types m)"
  by (auto simp: pm_inv_def intro: le_trans [OF _ count_le_length])

lemma parse_finish_rel:
  assumes rel: "parse_rel bs s m" and ne: "pm_types m \<noteq> []"
  shows "parse_finish s = Some ((ps_ctx s)\<lparr>ctx_pos := ps_pos s, ctx_status := pm_finish m\<rparr>)"
proof -
  obtain ts where ts: "ctx_rel bs (ps_ctx s) ts (length (pm_types m))" "tokens_rel ts (pm_types m)"
    and inv: "pm_inv m" and cnt: "counters_rel s m" and ok: "ctx_status (ps_ctx s) = CJ_OK"
    using rel by (auto simp: parse_rel_def)
  have "length (pm_types m) < 4294967296"
    using ts(1) unat_u32_less [of "ctx_tokens_size (ps_ctx s)"] by (auto simp: ctx_rel_def)
  note counts = unat_of_nat_small [OF _ this]
  obtain k where k: "length (pm_types m) = Suc k" using ne by (cases "pm_types m") auto
  have at: "tok_at (ps_ctx s) (ctx_tokens_pos (ps_ctx s) - 1) = Some (ts ! k)"
    using ts(1) unat_dec1 [of "ctx_tokens_pos (ps_ctx s)" k] k by (auto simp: tok_at_def ctx_rel_def)
  have "map tok_type (take (length (pm_types m)) ts) ! k = pm_types m ! k"
    using ts(2) unfolding tokens_rel_def by simp
  then have last: "tok_type (ts ! k) = last (pm_types m)"
    using k ne ts(1) by (simp add: last_conv_nth ctx_rel_def)
  have c: "ps_ncommas s = of_nat (pm_commas m)" "ps_ncolons s = of_nat (pm_colons m)" "ps_nstructures s = of_nat (pm_structs m)"
    "ps_obj_depth s = pm_obj m" "ps_arr_depth s = pm_arr m"
    using cnt by (auto simp: counters_rel_def)
  have "ps_nstructures s > 0 \<longleftrightarrow> pm_structs m > 0" "ps_ncommas s \<noteq> 0 \<longleftrightarrow> pm_commas m \<noteq> 0"
    "ps_ncommas s \<ge> ps_ncolons s \<longleftrightarrow> pm_commas m \<ge> pm_colons m"
    using pm_counts_le [OF inv] counts
    by (simp_all add: c word_less_nat_alt word_le_nat_alt word_unat_eq_iff)
  note this(1) this(2) this(3)
  moreover have "tok_at ((ps_ctx s)\<lparr>ctx_pos := ps_pos s\<rparr>) i = tok_at (ps_ctx s) i" for i by (simp add: tok_at_def)
  ultimately show ?thesis
    using at last c ok
    by (auto simp: parse_finish_def pm_finish_def Let_def is_close_def)
qed

section \<open>The parser\<close>

lemma cj_trim_trailing_whitespace_spec:
  assumes "ctx_buf ctx = Some bs" "unat (ctx_size ctx) \<le> length bs"
  shows "\<exists>n. cj_trim_trailing_whitespace ctx = Some (ctx\<lparr>ctx_size := n\<rparr>) \<and> n \<le> ctx_size ctx \<and>
    trimmed bs (unat n) \<and> (\<forall>i. unat n \<le> i \<and> i < unat (ctx_size ctx) \<longrightarrow> is_white_space (bs ! i))"
  using assms
proof (induction ctx rule: cj_trim_trailing_whitespace.induct)
  case (1 ctx)
  let ?k = "unat (ctx_size ctx) - 1" and ?ctx = "ctx\<lparr>ctx_size := ctx_size ctx - 1\<rparr>"
  show ?case
  proof (cases "ctx_size ctx > 0 \<and> is_white_space (bs ! ?k)")
    case False
    moreover have "ctx\<lparr>ctx_size := ctx_size ctx\<rparr> = ctx" by simp
    moreover have "trimmed bs (unat (ctx_size ctx))"
      using False by (auto simp: trimmed_def word_less_nat_alt)
    ultimately show ?thesis using 1(2,3)
      by (subst cj_trim_trailing_whitespace.simps) (auto simp: unat_dec word_less_nat_alt intro!: exI [of _ "ctx_size ctx"])
  next
    case True
    then have rd: "rd (ctx_buf ctx) (unat (ctx_size ctx - 1)) = Some (bs ! ?k)" and dec: "unat (ctx_size ctx - 1) = ?k"
      using 1(2,3) by (auto simp: unat_dec word_less_nat_alt)
    obtain n where n: "cj_trim_trailing_whitespace ?ctx = Some (?ctx\<lparr>ctx_size := n\<rparr>)" "n \<le> ctx_size ctx - 1"
      "trimmed bs (unat n)" "\<forall>i. unat n \<le> i \<and> i < ?k \<longrightarrow> is_white_space (bs ! i)"
    proof -
      have "unat (ctx_size ctx) - Suc 0 \<le> length bs" using 1(3) by linarith
      then have "\<exists>n. cj_trim_trailing_whitespace ?ctx = Some (?ctx\<lparr>ctx_size := n\<rparr>) \<and> n \<le> ctx_size ctx - 1 \<and>
        trimmed bs (unat n) \<and> (\<forall>i. unat n \<le> i \<and> i < ?k \<longrightarrow> is_white_space (bs ! i))"
        using 1(1) [OF _ rd] True 1(2) dec by simp
      with that show ?thesis by blast
    qed
    have "n \<le> ctx_size ctx" using n(2) True dec by (simp add: word_le_nat_alt)
    moreover have "\<forall>i. unat n \<le> i \<and> i < unat (ctx_size ctx) \<longrightarrow> is_white_space (bs ! i)"
    proof (intro allI impI)
      fix i assume "unat n \<le> i \<and> i < unat (ctx_size ctx)"
      then show "is_white_space (bs ! i)" using n(4) True by (cases "i = ?k") auto
    qed
    ultimately show ?thesis
      using n True rd by (subst cj_trim_trailing_whitespace.simps) auto
  qed
qed

text \<open>A context that may be parsed, and what a parse that succeeds has put into it.\<close>

definition parse_ready :: "u8 list \<Rightarrow> cj_ctx \<Rightarrow> bool" where
  "parse_ready bs ctx \<longleftrightarrow> ctx_buf ctx = Some bs \<and> 0 < ctx_size ctx \<and> unat (ctx_size ctx) \<le> length bs \<and>
     (\<exists>ts. ctx_tokens ctx = Some ts \<and> unat (ctx_tokens_size ctx) \<le> length ts) \<and>
     ctx_pos ctx = 0 \<and> ctx_tokens_pos ctx = 0 \<and> ctx_status ctx = CJ_OK"

definition ctx_toks :: "cj_ctx \<Rightarrow> cj_token list" where
  "ctx_toks ctx = (case ctx_tokens ctx of None \<Rightarrow> [] | Some ts \<Rightarrow> take (unat (ctx_tokens_pos ctx)) ts)"

definition ctx_types :: "cj_ctx \<Rightarrow> cj_token_type list" where
  "ctx_types ctx = map tok_type (ctx_toks ctx)"

lemma cj_parse_init_ready:
  assumes "0 < len" "unat len \<le> length bs" "8 \<le> n" "unat n \<le> length ts"
  shows "parse_ready bs (cj_parse_init ctx (Some bs) len (Some ts) n)"
  using assms by (auto simp: parse_ready_def cj_parse_init_def not_less)

lemma parse_rel_init:
  assumes "parse_ready bs ctx" "n \<le> ctx_size ctx"
  shows "parse_rel bs (parse_state_init (ctx\<lparr>ctx_size := n\<rparr>)) pm_init"
proof -
  have "unat n \<le> unat (ctx_size ctx)" using assms(2) by (simp add: word_le_nat_alt)
  then show ?thesis
    using assms(1) pm_inv_init unfolding parse_ready_def parse_rel_def
    by (auto simp: ctx_rel_def parse_state_init_def pm_init_def tokens_rel_def lexed_Nil counters_rel_def)
qed

text \<open>What \<open>cj_parse\<close> does with a context that is ready.\<close>

lemma cj_parse_cases:
  assumes ready: "parse_ready bs ctx"
  obtains (invalid_utf8) "\<not> valid_utf8 (take (unat (ctx_size ctx)) bs)"
      "cj_parse ctx = Some (ctx\<lparr>ctx_status := CJ_INVALID_UTF8\<rparr>)"
    | (parsed) n s' ctx' where "valid_utf8 (take (unat (ctx_size ctx)) bs)"
      "n \<le> ctx_size ctx" "trimmed bs (unat n)" "\<forall>i. unat n \<le> i \<and> i < unat (ctx_size ctx) \<longrightarrow> is_white_space (bs ! i)"
      "cj_parse_loop (parse_state_init (ctx\<lparr>ctx_size := n\<rparr>)) = Some s'"
      "loop_end bs (parse_state_init (ctx\<lparr>ctx_size := n\<rparr>)) s'"
      "cj_parse ctx = Some ctx'" "parse_finish s' = Some ctx'"
proof (cases "valid_utf8 (take (unat (ctx_size ctx)) bs)")
  case False
  have "unat (ucast (ctx_size ctx) :: u64) = unat (ctx_size ctx)"
    using unat_u32_less [of "ctx_size ctx"] by (simp add: unsigned_ucast_eq take_bit_eq_mod)
  then have "cj_is_valid_utf8 (ctx_buf ctx) 0 (ucast (ctx_size ctx)) = Some (valid_utf8 (take (unat (ctx_size ctx)) bs))"
    using ready cj_is_valid_utf8_spec [of 0 "ucast (ctx_size ctx)" bs]
    by (auto simp: parse_ready_def seg_def word_less_nat_alt word_unat_eq_iff)
  with False ready invalid_utf8 show ?thesis by (simp add: cj_parse_def parse_ready_def)
next
  case True
  have "unat (ucast (ctx_size ctx) :: u64) = unat (ctx_size ctx)"
    using unat_u32_less [of "ctx_size ctx"] by (simp add: unsigned_ucast_eq take_bit_eq_mod)
  then have utf8: "cj_is_valid_utf8 (ctx_buf ctx) 0 (ucast (ctx_size ctx)) = Some True"
    using ready True cj_is_valid_utf8_spec [of 0 "ucast (ctx_size ctx)" bs]
    by (auto simp: parse_ready_def seg_def word_less_nat_alt word_unat_eq_iff)
  have st: "ctx\<lparr>ctx_status := CJ_OK\<rparr> = ctx" using ready by (simp add: parse_ready_def)
  obtain n where n: "cj_trim_trailing_whitespace ctx = Some (ctx\<lparr>ctx_size := n\<rparr>)" "n \<le> ctx_size ctx"
    "trimmed bs (unat n)" "\<forall>i. unat n \<le> i \<and> i < unat (ctx_size ctx) \<longrightarrow> is_white_space (bs ! i)"
    using cj_trim_trailing_whitespace_spec [of ctx bs] ready by (auto simp: parse_ready_def)
  let ?s = "parse_state_init (ctx\<lparr>ctx_size := n\<rparr>)"
  have size: "ctx_size (ps_ctx ?s) = n" "ps_pos ?s = 0" by (simp_all add: parse_state_init_def)
  have "scan_on bs ?s"
  proof (cases "n = 0")
    case True
    then show ?thesis
      using ready unfolding scan_on_def size by (auto simp: parse_ready_def word_less_nat_alt)
  next
    case False
    then have "0 < unat n" by (simp add: unat_gt_0)
    with n(3) show ?thesis
      unfolding scan_on_def size trimmed_def by (intro disjI2 exI [of _ "unat n - 1"]) auto
  qed
  moreover have "pm_steps (pm_types pm_init) pm_init = Inr pm_init" by (simp add: pm_init_def)
  ultimately obtain s' where s': "cj_parse_loop ?s = Some s'" "loop_end bs ?s s'"
    using cj_parse_loop_rel [OF parse_rel_init [OF ready n(2)]] n(3) size by auto
  obtain ctx' where fin: "parse_finish s' = Some ctx'"
  proof (cases "ctx_status (ps_ctx s') = CJ_OK")
    case True
    with s'(2) parse_finish_rel that show ?thesis by (auto simp: loop_end_def)
  next
    case False
    with that show ?thesis by (auto simp: parse_finish_def Let_def)
  qed
  have "cj_parse ctx = Some ctx'"
    using utf8 n(1) s' fin ready [unfolded parse_ready_def] by (simp add: cj_parse_def st)
  then show ?thesis using parsed True n s' fin by blast
qed


text \<open>The tokens of a parsed context.\<close>

definition parsed_tokens :: "u8 list \<Rightarrow> cj_ctx \<Rightarrow> bool" where
  "parsed_tokens bs ctx \<longleftrightarrow>
     ctx_buf ctx = Some bs \<and> unat (ctx_size ctx) \<le> length bs \<and>
     (\<exists>ts. ctx_tokens ctx = Some ts \<and> unat (ctx_tokens_pos ctx) \<le> length ts) \<and>
     lexed bs (unat (ctx_size ctx)) (ctx_toks ctx) (unat (ctx_size ctx)) \<and>
     (\<forall>i < length (ctx_toks ctx). \<exists>st. chain (ctx_toks ctx) i (tok_parent (ctx_toks ctx ! i)) st)"

lemma chain_take: "chain ts k p st \<Longrightarrow> k \<le> n \<Longrightarrow> chain (take n ts) k p st"
  by (induction st arbitrary: k p) auto

lemma cj_parse_ok_cases:
  assumes "parse_ready bs ctx" "cj_parse ctx = Some ctx'" "ctx_status ctx' = CJ_OK"
  obtains m where "valid_utf8 (take (unat (ctx_size ctx)) bs)" "parsed_tokens bs ctx'"
    "pm_types m = ctx_types ctx'" "pm_steps (ctx_types ctx') pm_init = Inr m" "pm_finish m = CJ_OK" "pm_inv m"
    "ctx_types ctx' \<noteq> []" "ctx_size ctx' \<le> ctx_size ctx"
    "\<forall>i. unat (ctx_size ctx') \<le> i \<and> i < unat (ctx_size ctx) \<longrightarrow> is_white_space (bs ! i)"
  using assms(1)
proof (cases rule: cj_parse_cases)
  case invalid_utf8
  with assms show ?thesis by auto
next
  case (parsed n s' c)
  have c: "c = ctx'" using parsed assms(2) by simp
  have ok: "ctx_status (ps_ctx s') = CJ_OK"
    using parsed(8) assms(3) by (auto simp: c parse_finish_def Let_def split: if_split_asm)
  then obtain m where m: "pm_inv m" "pm_steps (pm_types m) pm_init = Inr m" "parse_rel bs s' m" "pm_types m \<noteq> []"
    "unat (ps_pos s') = unat (ctx_size (ps_ctx s'))" and size: "ctx_size (ps_ctx s') = n"
    using parsed(6) by (auto simp: loop_end_def parse_state_init_def)
  have fin: "ctx' = (ps_ctx s')\<lparr>ctx_pos := ps_pos s', ctx_status := pm_finish m\<rparr>"
    using parse_finish_rel [OF m(3,4)] parsed(8) c by simp
  obtain ts where ts: "ctx_rel bs (ps_ctx s') ts (length (pm_types m))" "tokens_rel ts (pm_types m)"
    "lexed bs (unat (ctx_size (ps_ctx s'))) (take (length (pm_types m)) ts) (unat (ps_pos s'))"
    using m(3) by (auto simp: parse_rel_def)
  have toks: "ctx_toks ctx' = take (length (pm_types m)) ts"
    using ts(1) by (auto simp: fin ctx_toks_def ctx_rel_def)
  have types: "ctx_types ctx' = pm_types m"
    using ts(2) by (simp add: ctx_types_def toks tokens_rel_def)
  have par: "\<exists>st. chain (take (length (pm_types m)) ts) i (tok_parent (ts ! i)) st" if "i < length (pm_types m)" for i
    using ts(2) that chain_take [of ts i _ _ "length (pm_types m)"] unfolding tokens_rel_def by (meson less_imp_le)
  have "parsed_tokens bs ctx'"
    unfolding parsed_tokens_def toks
    using ts m(5) par by (auto simp: fin ctx_rel_def tokens_rel_def)
  then show ?thesis
    using that [of m] parsed(1,2,4) m types size assms(3) by (simp add: fin)
qed

end
