(* ===== verification/CJ_Json.thy ===== *)
theory CJ_Json
  imports CJ_Machine
begin

text \<open>
  JSON texts, and what \<open>cj_parse\<close> of \<^verbatim>\<open>cj/cj.c\<close> guarantees about them: the grammar over token
  types, the acceptance of every JSON text that fits the token array, and what a successful parse
  says about its input.
\<close>

section \<open>The grammar of token types\<close>

inductive json_value :: "cj_token_type list \<Rightarrow> bool"
  and json_members :: "cj_token_type list \<Rightarrow> bool"
  and json_elements :: "cj_token_type list \<Rightarrow> bool"
where
  value_string: "json_value [CJ_TOKEN_STRING]"
| value_primitive: "json_value [CJ_TOKEN_PRIMITIVE]"
| value_object0: "json_value [CJ_TOKEN_OBJECT_BEG, CJ_TOKEN_OBJECT_END]"
| value_object: "json_members ms \<Longrightarrow> json_value (CJ_TOKEN_OBJECT_BEG # ms @ [CJ_TOKEN_OBJECT_END])"
| value_array0: "json_value [CJ_TOKEN_ARRAY_BEG, CJ_TOKEN_ARRAY_END]"
| value_array: "json_elements es \<Longrightarrow> json_value (CJ_TOKEN_ARRAY_BEG # es @ [CJ_TOKEN_ARRAY_END])"
| members_one: "json_value v \<Longrightarrow> json_members (CJ_TOKEN_STRING # CJ_TOKEN_NAME_SEP # v)"
| members_more: "json_value v \<Longrightarrow> json_members ms \<Longrightarrow>
    json_members (CJ_TOKEN_STRING # CJ_TOKEN_NAME_SEP # v @ CJ_TOKEN_ITEM_SEP # ms)"
| elements_one: "json_value v \<Longrightarrow> json_elements v"
| elements_more: "json_value v \<Longrightarrow> json_elements es \<Longrightarrow> json_elements (v @ CJ_TOKEN_ITEM_SEP # es)"

text \<open>Where the machine is ready for a value, and where one has just ended.\<close>

definition at_value :: "pm \<Rightarrow> bool" where
  "at_value m \<longleftrightarrow> pm_prev m \<in> {None, Some CJ_TOKEN_NAME_SEP, Some CJ_TOKEN_ITEM_SEP, Some CJ_TOKEN_ARRAY_BEG} \<and>
     (pm_types m = [] \<or> pm_stack m \<noteq> []) \<and> 0 \<le> pm_obj m \<and> 0 \<le> pm_arr m"

definition after_value :: "pm \<Rightarrow> pm \<Rightarrow> cj_token_type list \<Rightarrow> bool" where
  "after_value m m' tys \<longleftrightarrow> pm_types m' = pm_types m @ tys \<and> pm_stack m' = pm_stack m \<and>
     pm_obj m' = pm_obj m \<and> pm_arr m' = pm_arr m \<and> pm_commas m \<le> pm_commas m' \<and> pm_colons m \<le> pm_colons m' \<and>
     pm_prev m' \<in> {Some CJ_TOKEN_STRING, Some CJ_TOKEN_PRIMITIVE, Some CJ_TOKEN_OBJECT_END, Some CJ_TOKEN_ARRAY_END}"

definition fewer_commas :: "pm \<Rightarrow> pm \<Rightarrow> bool" where
  "fewer_commas m m' \<longleftrightarrow> pm_commas m' - pm_commas m < pm_colons m' - pm_colons m"

definition commas_ok :: "pm \<Rightarrow> pm \<Rightarrow> bool" where
  "commas_ok m m' \<longleftrightarrow> pm_commas m' = pm_commas m \<or> fewer_commas m m'"

lemma pm_prev_snoc: "pm_types m = tys @ [ty] \<Longrightarrow> pm_prev m = Some ty"
  by (simp add: pm_prev_def)

text \<open>Single steps.\<close>

lemma step_scalar:
  assumes "at_value m" "ty = CJ_TOKEN_STRING \<or> ty = CJ_TOKEN_PRIMITIVE"
  shows "pm_step ty m = Inr (m\<lparr>pm_types := pm_types m @ [ty]\<rparr>)"
proof -
  have "follow_ok (pm_prev m) ty" using assms by (auto simp: at_value_def follow_ok_def value_start_def)
  then show ?thesis using assms(2) by (elim disjE) (simp_all add: pm_step_def pm_structure_def)
qed

lemma step_open:
  assumes "at_value m" "is_open ty"
  shows "pm_step ty m = Inr ((pm_depths ty m)\<lparr>pm_types := pm_types m @ [ty], pm_stack := ty # pm_stack m, pm_structs := pm_structs m + 1\<rparr>)"
proof -
  have "\<not> (pm_types m \<noteq> [] \<and> pm_stack m = [])" using assms(1) by (auto simp: at_value_def)
  moreover have "follow_ok (pm_prev m) ty"
    using assms by (auto simp: at_value_def is_open_def follow_ok_def value_start_def)
  moreover have "ty \<noteq> CJ_TOKEN_NAME_SEP" "ty \<noteq> CJ_TOKEN_ITEM_SEP" using assms(2) by auto
  ultimately show ?thesis
    using assms(2) by (cases ty) (simp_all add: pm_step_def pm_structure_def pm_depths_def)
qed

definition closes :: "cj_token_type \<Rightarrow> cj_token_type \<Rightarrow> bool" where
  "closes c ty \<longleftrightarrow> c = CJ_TOKEN_OBJECT_BEG \<and> ty = CJ_TOKEN_OBJECT_END \<or> c = CJ_TOKEN_ARRAY_BEG \<and> ty = CJ_TOKEN_ARRAY_END"

lemma step_close:
  assumes "pm_types m \<noteq> []" "pm_prev m \<notin> {Some CJ_TOKEN_NAME_SEP, Some CJ_TOKEN_ITEM_SEP}" "closes c ty"
    "0 \<le> pm_obj (pm_depths ty m)" "0 \<le> pm_arr (pm_depths ty m)"
  shows "pm_step ty m = Inr ((pm_depths ty m)\<lparr>pm_types := pm_types m @ [ty], pm_stack := tl (pm_stack m)\<rparr>)"
proof -
  have "follow_ok (pm_prev m) ty" "is_close ty" "ty \<noteq> CJ_TOKEN_NAME_SEP" "ty \<noteq> CJ_TOKEN_ITEM_SEP" "\<not> is_open ty"
    using assms by (auto simp: closes_def follow_ok_def value_follow_def)
  then show ?thesis
    using assms by (cases ty) (simp_all add: pm_step_def pm_structure_def pm_depths_def)
qed

lemma step_member:
  assumes "pm_prev m \<in> {Some CJ_TOKEN_OBJECT_BEG, Some CJ_TOKEN_ITEM_SEP}" "pm_stack m = CJ_TOKEN_OBJECT_BEG # st"
  shows "pm_steps (CJ_TOKEN_STRING # CJ_TOKEN_NAME_SEP # tys) m =
    pm_steps tys (m\<lparr>pm_types := pm_types m @ [CJ_TOKEN_STRING, CJ_TOKEN_NAME_SEP], pm_colons := pm_colons m + 1\<rparr>)"
proof -
  have ne: "pm_types m \<noteq> []" using assms(1) by (auto simp: pm_prev_def)
  have "2 \<le> length (pm_types m @ [CJ_TOKEN_STRING])" using ne by (cases "pm_types m") auto
  let ?m = "m\<lparr>pm_types := pm_types m @ [CJ_TOKEN_STRING]\<rparr>"
  have "follow_ok (pm_prev m) CJ_TOKEN_STRING" using assms(1) by (auto simp: follow_ok_def value_start_def)
  then have 1: "pm_step CJ_TOKEN_STRING m = Inr ?m"
    by (simp add: pm_step_def pm_structure_def)
  have "follow_ok (pm_prev ?m) CJ_TOKEN_NAME_SEP" "name_sep_ok ?m"
    using \<open>2 \<le> _\<close> assms(2) by (auto simp: follow_ok_def pm_prev_def name_sep_ok_def)
  then have "pm_step CJ_TOKEN_NAME_SEP ?m =
      Inr (m\<lparr>pm_types := pm_types m @ [CJ_TOKEN_STRING, CJ_TOKEN_NAME_SEP], pm_colons := pm_colons m + 1\<rparr>)"
    by (simp add: pm_step_def pm_structure_def)
  with 1 show ?thesis by simp
qed

lemma step_comma:
  assumes "pm_prev m \<in> {Some CJ_TOKEN_STRING, Some CJ_TOKEN_PRIMITIVE, Some CJ_TOKEN_OBJECT_END, Some CJ_TOKEN_ARRAY_END}"
    "2 \<le> length (pm_types m)" "pm_stack m = c # st"
  shows "pm_step CJ_TOKEN_ITEM_SEP m = Inr (m\<lparr>pm_types := pm_types m @ [CJ_TOKEN_ITEM_SEP],
     pm_commas := pm_commas m + of_bool (c = CJ_TOKEN_OBJECT_BEG)\<rparr>)"
proof -
  have "follow_ok (pm_prev m) CJ_TOKEN_ITEM_SEP" "item_sep_ok m"
    using assms by (auto simp: follow_ok_def value_follow_def item_sep_ok_def)
  then show ?thesis using assms(3) by (simp add: pm_step_def pm_structure_def)
qed


definition in_members :: "pm \<Rightarrow> bool" where
  "in_members m \<longleftrightarrow> pm_prev m \<in> {Some CJ_TOKEN_OBJECT_BEG, Some CJ_TOKEN_ITEM_SEP} \<and>
     (\<exists>st. pm_stack m = CJ_TOKEN_OBJECT_BEG # st) \<and> 0 \<le> pm_obj m \<and> 0 \<le> pm_arr m"

definition in_elements :: "pm \<Rightarrow> bool" where
  "in_elements m \<longleftrightarrow> pm_prev m \<in> {Some CJ_TOKEN_ARRAY_BEG, Some CJ_TOKEN_ITEM_SEP} \<and>
     (\<exists>st. pm_stack m = CJ_TOKEN_ARRAY_BEG # st) \<and> 0 \<le> pm_obj m \<and> 0 \<le> pm_arr m"

lemma in_elements_at_value: "in_elements m \<Longrightarrow> at_value m"
  by (auto simp: in_elements_def at_value_def)

lemma json_value_ne: "json_value v \<Longrightarrow> v \<noteq> []"
  by (erule json_value.cases) auto

lemma json_grammar_valid:
  "json_value v \<Longrightarrow> CJ_TOKEN_INVALID \<notin> set v"
  "json_members ms \<Longrightarrow> CJ_TOKEN_INVALID \<notin> set ms"
  "json_elements es \<Longrightarrow> CJ_TOKEN_INVALID \<notin> set es"
  by (induction rule: json_value_json_members_json_elements.inducts) auto

lemmas json_value_valid = json_grammar_valid(1)

lemma pm_steps_inv: "pm_steps tys m = Inr m' \<Longrightarrow> pm_inv m \<Longrightarrow> CJ_TOKEN_INVALID \<notin> set tys \<Longrightarrow> pm_inv m'"
  by (induction tys arbitrary: m) (auto split: sum.splits dest: pm_step_inv)

text \<open>An open structure that is closed again.\<close>

lemma bracketed:
  assumes m: "at_value m" and ty: "is_open ty" "closes ty ty'"
    and body: "\<And>m1. pm_stack m1 = ty # pm_stack m \<Longrightarrow> pm_prev m1 = Some ty \<Longrightarrow> 0 \<le> pm_obj m1 \<Longrightarrow> 0 \<le> pm_arr m1 \<Longrightarrow>
      \<exists>m2. pm_steps b m1 = Inr m2 \<and> pm_types m2 = pm_types m1 @ b \<and> pm_stack m2 = pm_stack m1 \<and> pm_obj m2 = pm_obj m1 \<and>
        pm_arr m2 = pm_arr m1 \<and> pm_commas m1 \<le> pm_commas m2 \<and> pm_colons m1 \<le> pm_colons m2 \<and>
        pm_prev m2 \<notin> {Some CJ_TOKEN_NAME_SEP, Some CJ_TOKEN_ITEM_SEP} \<and> commas_ok m1 m2"
  shows "\<exists>m'. pm_steps (ty # b @ [ty']) m = Inr m' \<and> after_value m m' (ty # b @ [ty']) \<and> commas_ok m m'"
proof -
  let ?m1 = "(pm_depths ty m)\<lparr>pm_types := pm_types m @ [ty], pm_stack := ty # pm_stack m, pm_structs := pm_structs m + 1\<rparr>"
  have nonneg: "0 \<le> pm_obj m" "0 \<le> pm_arr m" using m by (auto simp: at_value_def)
  have d: "0 \<le> pm_obj (pm_depths ty m)" "0 \<le> pm_arr (pm_depths ty m)" "pm_commas (pm_depths ty m) = pm_commas m"
    "pm_colons (pm_depths ty m) = pm_colons m"
    using nonneg ty(1) by (auto simp: pm_depths_def is_open_def)
  obtain m2 where m2: "pm_steps b ?m1 = Inr m2" "pm_types m2 = pm_types m @ ty # b" "pm_stack m2 = ty # pm_stack m"
    "pm_obj m2 = pm_obj (pm_depths ty m)" "pm_arr m2 = pm_arr (pm_depths ty m)" "pm_commas m \<le> pm_commas m2" "pm_colons m \<le> pm_colons m2"
    "pm_prev m2 \<notin> {Some CJ_TOKEN_NAME_SEP, Some CJ_TOKEN_ITEM_SEP}" "commas_ok ?m1 m2"
    using body [of ?m1] d by (auto simp: pm_prev_def)
  have inv: "pm_obj (pm_depths ty' m2) = pm_obj m" "pm_arr (pm_depths ty' m2) = pm_arr m"
    "pm_commas (pm_depths ty' m2) = pm_commas m2" "pm_colons (pm_depths ty' m2) = pm_colons m2"
    using ty(2) m2(4,5) by (auto simp: closes_def pm_depths_def)
  have close: "pm_step ty' m2 = Inr ((pm_depths ty' m2)\<lparr>pm_types := pm_types m2 @ [ty'], pm_stack := tl (pm_stack m2)\<rparr>)"
    by (rule step_close [OF _ m2(8) ty(2)]) (use inv nonneg m2(2) in simp_all)
  let ?m' = "(pm_depths ty' m2)\<lparr>pm_types := pm_types m2 @ [ty'], pm_stack := tl (pm_stack m2)\<rparr>"
  have "pm_steps (ty # b @ [ty']) m = Inr ?m'"
    using step_open [OF m ty(1)] m2(1) close by (simp add: pm_steps_append)
  moreover have "after_value m ?m' (ty # b @ [ty'])"
    using m2 inv ty(2) by (auto simp: after_value_def closes_def pm_prev_def)
  moreover have "commas_ok m ?m'"
    using m2(9) inv d by (auto simp: commas_ok_def fewer_commas_def)
  ultimately show ?thesis by blast
qed

lemma grammar_runs:
  "json_value v \<Longrightarrow> \<forall>m. at_value m \<longrightarrow> (\<exists>m'. pm_steps v m = Inr m' \<and> after_value m m' v \<and> commas_ok m m')"
  "json_members ms \<Longrightarrow> \<forall>m. in_members m \<longrightarrow> (\<exists>m'. pm_steps ms m = Inr m' \<and> after_value m m' ms \<and> fewer_commas m m')"
  "json_elements es \<Longrightarrow> \<forall>m. in_elements m \<longrightarrow> (\<exists>m'. pm_steps es m = Inr m' \<and> after_value m m' es \<and> commas_ok m m')"
proof (induction rule: json_value_json_members_json_elements.inducts)
  case value_string
  show ?case by (auto simp: step_scalar after_value_def commas_ok_def pm_prev_def)
next
  case value_primitive
  show ?case by (auto simp: step_scalar after_value_def commas_ok_def pm_prev_def)
next
  case value_object0
  show ?case using bracketed [of _ CJ_TOKEN_OBJECT_BEG CJ_TOKEN_OBJECT_END "[]"]
    by (auto simp: closes_def commas_ok_def)
next
  case (value_object ms)
  show ?case
  proof (intro allI impI)
    fix m assume "at_value m"
    then show "\<exists>m'. pm_steps (CJ_TOKEN_OBJECT_BEG # ms @ [CJ_TOKEN_OBJECT_END]) m = Inr m' \<and>
        after_value m m' (CJ_TOKEN_OBJECT_BEG # ms @ [CJ_TOKEN_OBJECT_END]) \<and> commas_ok m m'"
    proof (rule bracketed)
      fix m1 assume "pm_stack m1 = CJ_TOKEN_OBJECT_BEG # pm_stack m" "pm_prev m1 = Some CJ_TOKEN_OBJECT_BEG" "0 \<le> pm_obj m1" "0 \<le> pm_arr m1"
      then have "in_members m1" by (simp add: in_members_def)
      with value_object.IH obtain m2 where "pm_steps ms m1 = Inr m2" "after_value m1 m2 ms" "fewer_commas m1 m2" by blast
      then show "\<exists>m2. pm_steps ms m1 = Inr m2 \<and> pm_types m2 = pm_types m1 @ ms \<and> pm_stack m2 = pm_stack m1 \<and> pm_obj m2 = pm_obj m1 \<and>
        pm_arr m2 = pm_arr m1 \<and> pm_commas m1 \<le> pm_commas m2 \<and> pm_colons m1 \<le> pm_colons m2 \<and>
        pm_prev m2 \<notin> {Some CJ_TOKEN_NAME_SEP, Some CJ_TOKEN_ITEM_SEP} \<and> commas_ok m1 m2"
        by (auto simp: after_value_def commas_ok_def)
    qed (simp_all add: closes_def)
  qed
next
  case value_array0
  show ?case using bracketed [of _ CJ_TOKEN_ARRAY_BEG CJ_TOKEN_ARRAY_END "[]"]
    by (auto simp: closes_def commas_ok_def)
next
  case (value_array es)
  show ?case
  proof (intro allI impI)
    fix m assume "at_value m"
    then show "\<exists>m'. pm_steps (CJ_TOKEN_ARRAY_BEG # es @ [CJ_TOKEN_ARRAY_END]) m = Inr m' \<and>
        after_value m m' (CJ_TOKEN_ARRAY_BEG # es @ [CJ_TOKEN_ARRAY_END]) \<and> commas_ok m m'"
    proof (rule bracketed)
      fix m1 assume "pm_stack m1 = CJ_TOKEN_ARRAY_BEG # pm_stack m" "pm_prev m1 = Some CJ_TOKEN_ARRAY_BEG" "0 \<le> pm_obj m1" "0 \<le> pm_arr m1"
      then have "in_elements m1" by (simp add: in_elements_def)
      with value_array.IH obtain m2 where "pm_steps es m1 = Inr m2" "after_value m1 m2 es" "commas_ok m1 m2" by blast
      then show "\<exists>m2. pm_steps es m1 = Inr m2 \<and> pm_types m2 = pm_types m1 @ es \<and> pm_stack m2 = pm_stack m1 \<and> pm_obj m2 = pm_obj m1 \<and>
        pm_arr m2 = pm_arr m1 \<and> pm_commas m1 \<le> pm_commas m2 \<and> pm_colons m1 \<le> pm_colons m2 \<and>
        pm_prev m2 \<notin> {Some CJ_TOKEN_NAME_SEP, Some CJ_TOKEN_ITEM_SEP} \<and> commas_ok m1 m2"
        by (auto simp: after_value_def)
    qed (simp_all add: closes_def)
  qed
next
  case (members_one v)
  show ?case
  proof (intro allI impI)
    fix m assume m: "in_members m"
    let ?m1 = "m\<lparr>pm_types := pm_types m @ [CJ_TOKEN_STRING, CJ_TOKEN_NAME_SEP], pm_colons := pm_colons m + 1\<rparr>"
    have "at_value ?m1" using m by (auto simp: in_members_def at_value_def pm_prev_def)
    with members_one.IH obtain m' where m': "pm_steps v ?m1 = Inr m'" "after_value ?m1 m' v" "commas_ok ?m1 m'" by blast
    have "pm_steps (CJ_TOKEN_STRING # CJ_TOKEN_NAME_SEP # v) m = Inr m'"
      using m m'(1) step_member by (auto simp: in_members_def)
    moreover have "after_value m m' (CJ_TOKEN_STRING # CJ_TOKEN_NAME_SEP # v)" "fewer_commas m m'"
      using m'(2,3) by (auto simp: after_value_def fewer_commas_def commas_ok_def)
    ultimately show "\<exists>m'. pm_steps (CJ_TOKEN_STRING # CJ_TOKEN_NAME_SEP # v) m = Inr m' \<and>
        after_value m m' (CJ_TOKEN_STRING # CJ_TOKEN_NAME_SEP # v) \<and> fewer_commas m m'" by blast
  qed
next
  case (members_more v ms)
  show ?case
  proof (intro allI impI)
    fix m assume m: "in_members m"
    let ?m1 = "m\<lparr>pm_types := pm_types m @ [CJ_TOKEN_STRING, CJ_TOKEN_NAME_SEP], pm_colons := pm_colons m + 1\<rparr>"
    have "at_value ?m1" using m by (auto simp: in_members_def at_value_def pm_prev_def)
    with members_more.IH obtain m2 where m2: "pm_steps v ?m1 = Inr m2" "after_value ?m1 m2 v" "commas_ok ?m1 m2" by blast
    let ?m3 = "m2\<lparr>pm_types := pm_types m2 @ [CJ_TOKEN_ITEM_SEP], pm_commas := pm_commas m2 + 1\<rparr>"
    obtain st where st: "pm_stack m = CJ_TOKEN_OBJECT_BEG # st" using m by (auto simp: in_members_def)
    have comma: "pm_step CJ_TOKEN_ITEM_SEP m2 = Inr ?m3"
      using step_comma [of m2 CJ_TOKEN_OBJECT_BEG st] m2(2) st by (simp add: after_value_def)
    have "in_members ?m3" using m m2(2) by (auto simp: in_members_def after_value_def pm_prev_def)
    with members_more.IH obtain m' where m': "pm_steps ms ?m3 = Inr m'" "after_value ?m3 m' ms" "fewer_commas ?m3 m'" by blast
    have "pm_steps (CJ_TOKEN_STRING # CJ_TOKEN_NAME_SEP # v @ CJ_TOKEN_ITEM_SEP # ms) m = Inr m'"
      using m m2(1) m'(1) comma step_member by (auto simp: in_members_def pm_steps_append)
    moreover have "after_value m m' (CJ_TOKEN_STRING # CJ_TOKEN_NAME_SEP # v @ CJ_TOKEN_ITEM_SEP # ms)" "fewer_commas m m'"
      using m2(2,3) m'(2,3) by (auto simp: after_value_def fewer_commas_def commas_ok_def)
    ultimately show "\<exists>m'. pm_steps (CJ_TOKEN_STRING # CJ_TOKEN_NAME_SEP # v @ CJ_TOKEN_ITEM_SEP # ms) m = Inr m' \<and>
        after_value m m' (CJ_TOKEN_STRING # CJ_TOKEN_NAME_SEP # v @ CJ_TOKEN_ITEM_SEP # ms) \<and> fewer_commas m m'" by blast
  qed
next
  case (elements_one v)
  then show ?case using in_elements_at_value by blast
next
  case (elements_more v es)
  show ?case
  proof (intro allI impI)
    fix m assume m: "in_elements m"
    with elements_more.IH in_elements_at_value obtain m2 where
      m2: "pm_steps v m = Inr m2" "after_value m m2 v" "commas_ok m m2" by blast
    let ?m3 = "m2\<lparr>pm_types := pm_types m2 @ [CJ_TOKEN_ITEM_SEP]\<rparr>"
    obtain st where st: "pm_stack m = CJ_TOKEN_ARRAY_BEG # st" using m by (auto simp: in_elements_def)
    have "pm_types m \<noteq> []" "v \<noteq> []"
      using m elements_more.hyps(1) json_value_ne by (auto simp: in_elements_def pm_prev_def)
    then have "2 \<le> length (pm_types m2)"
      using m2(2) by (cases "pm_types m"; cases v) (auto simp: after_value_def)
    then have comma: "pm_step CJ_TOKEN_ITEM_SEP m2 = Inr ?m3"
      using step_comma [of m2 CJ_TOKEN_ARRAY_BEG st] m2(2) st by (simp add: after_value_def)
    have "in_elements ?m3" using m m2(2) by (auto simp: in_elements_def after_value_def pm_prev_def)
    with elements_more.IH obtain m' where m': "pm_steps es ?m3 = Inr m'" "after_value ?m3 m' es" "commas_ok ?m3 m'" by blast
    have "pm_steps (v @ CJ_TOKEN_ITEM_SEP # es) m = Inr m'"
      using m2(1) m'(1) comma by (simp add: pm_steps_append)
    moreover have "after_value m m' (v @ CJ_TOKEN_ITEM_SEP # es)" "commas_ok m m'"
      using m2(2,3) m'(2,3) by (auto simp: after_value_def fewer_commas_def commas_ok_def)
    ultimately show "\<exists>m'. pm_steps (v @ CJ_TOKEN_ITEM_SEP # es) m = Inr m' \<and>
        after_value m m' (v @ CJ_TOKEN_ITEM_SEP # es) \<and> commas_ok m m'" by blast
  qed
qed

text \<open>A JSON value takes the machine from its start to a state that passes the final checks.\<close>

lemma json_value_finish:
  assumes "json_value tys"
  shows "\<exists>m. pm_steps tys pm_init = Inr m \<and> pm_finish m = CJ_OK"
proof -
  have "at_value pm_init" by (simp add: at_value_def pm_init_def pm_prev_def)
  then obtain m where m: "pm_steps tys pm_init = Inr m" "after_value pm_init m tys" "commas_ok pm_init m"
    using grammar_runs(1) [OF assms] by blast
  have "pm_inv m" using pm_steps_inv [OF m(1) pm_inv_init] json_value_valid [OF assms] by blast
  then have structs: "pm_structs m = length (filter is_open tys)"
    using m(2) by (simp add: pm_inv_def after_value_def pm_init_def)
  have "0 < pm_structs m \<Longrightarrow> is_close (last tys)"
    unfolding structs using assms by (cases rule: json_value.cases) auto
  then have "pm_finish m = CJ_OK"
    using m(2,3) by (auto simp: pm_finish_def after_value_def pm_init_def commas_ok_def fewer_commas_def)
  with m(1) show ?thesis by blast
qed

section \<open>Which texts are accepted\<close>

text \<open>The tokens of a text, read from the front.\<close>

inductive lexes :: "u8 list \<Rightarrow> nat \<Rightarrow> nat \<Rightarrow> cj_token list \<Rightarrow> nat \<Rightarrow> bool" for bs len where
  lexes_Nil: "lexes bs len p [] p"
| lexes_Cons: "token_start bs len p s \<Longrightarrow> token_ok bs len s t e \<Longrightarrow> lexes bs len e ts e' \<Longrightarrow>
    lexes bs len p (t # ts) e'"

inductive_simps lexes_simps: "lexes bs len p [] e" "lexes bs len p (t # ts) e"

lemma lexes_le: "lexes bs len p ts e \<Longrightarrow> len \<le> length bs \<Longrightarrow> p \<le> e \<and> (ts \<noteq> [] \<longrightarrow> p < e)"
  by (induction rule: lexes.induct) (auto dest!: token_ok_bounds simp: token_start_def)

lemma lexes_lexed:
  "lexes bs len p ts e \<Longrightarrow> len \<le> length bs \<Longrightarrow> lexed bs len us p \<Longrightarrow> lexed bs len (us @ ts) e"
proof (induction arbitrary: us rule: lexes.induct)
  case (lexes_Cons p s t e ts e')
  then have "lexed bs len (us @ [t]) e" using lexed_snoc by blast
  then show ?case using lexes_Cons.IH [of "us @ [t]"] lexes_Cons.prems by simp
qed simp

definition erase :: "cj_token \<Rightarrow> cj_token_type \<times> cj_size \<times> cj_size" where
  "erase t = (tok_type t, tok_pos t, tok_len t)"

lemma lexed_unique:
  assumes "lexed bs len ts e" "lexed bs len us e'" "length us = length ts" "len < 2 ^ 32" "len \<le> length bs"
  shows "e' = e \<and> map erase us = map erase ts"
  using assms(1,2,3)
proof (induction arbitrary: us e' rule: lexed.induct)
  case lexed_Nil
  then show ?case by (auto elim: lexed.cases)
next
  case (lexed_snoc ts e s t f)
  obtain us0 u where us: "us = us0 @ [u]" using lexed_snoc.prems(2) by (cases us rule: rev_cases) auto
  then obtain e0 s0 where u: "lexed bs len us0 e0" "token_start bs len e0 s0" "token_ok bs len s0 u e'"
    using lexed_snoc.prems(1) by (auto simp: lexed_snoc_iff)
  have ih: "e0 = e" "map erase us0 = map erase ts"
    using lexed_snoc.IH [OF u(1)] lexed_snoc.prems(2) us by auto
  have "s0 = s" using u(2) lexed_snoc.hyps(2) ih(1) token_start_unique by blast
  then have "e' = f" "erase u = erase t"
    using token_ok_unique [OF assms(4,5) lexed_snoc.hyps(2,3)] u(3) by (auto simp: erase_def)
  then show ?case using ih us by simp
qed

lemma lexes_runs:
  assumes "lexes bs n p toks n" "toks \<noteq> []" "parse_rel bs s m" "unat (ps_pos s) = p" "unat (ctx_size (ps_ctx s)) = n"
    "pm_steps (map tok_type toks) m = Inr m'" "length (pm_types m) + length toks \<le> unat (ctx_tokens_size (ps_ctx s))"
  shows "\<exists>s'. cj_parse_loop s = Some s' \<and> parse_rel bs s' m' \<and> ctx_size (ps_ctx s') = ctx_size (ps_ctx s) \<and>
    unat (ps_pos s') = n"
  using assms
proof (induction toks arbitrary: p s m)
  case (Cons t toks)
  obtain s0 e where t: "token_start bs n p s0" "token_ok bs n s0 t e" "lexes bs n e toks n"
    using Cons.prems(1) by (auto simp: lexes_simps)
  obtain m1 where m1: "pm_step (tok_type t) m = Inr m1" "pm_steps (map tok_type toks) m1 = Inr m'"
    using Cons.prems(6) by (auto split: sum.splits)
  have bs: "n \<le> length bs" using Cons.prems(3,5) by (auto simp: parse_rel_def ctx_rel_def)
  have e: "s0 < e" "e \<le> n" using token_ok_bounds [OF t(2)] by auto
  have ue: "unat (of_nat e :: cj_size) = e"
    using e(2) Cons.prems(5) unat_u32_less [of "ctx_size (ps_ctx s)"] by (simp add: unat_of_nat)
  have on: "scan_on bs s"
    unfolding scan_on_def Cons.prems(4,5) using t(1) e by (auto simp: token_start_def)
  have run: "cj_next_token (Some bs) (ctx_size (ps_ctx s)) (ps_pos s) (fresh_token s) =
      Some (of_nat e, t\<lparr>tok_parent := tok_parent (fresh_token s)\<rparr>)"
    by (rule cj_next_token_of_token_ok [of _ _ bs s0]) (use Cons.prems(4,5) t bs e in \<open>auto simp: token_start_def\<close>)
  have valid: "tok_type t \<noteq> CJ_TOKEN_INVALID"
    using token_ok_bounds [OF t(2)] by simp
  obtain s1 where s1: "parse_body s = Some (Inr s1)" "parse_rel bs s1 m1" "ps_pos s1 = of_nat e"
    "ctx_size (ps_ctx s1) = ctx_size (ps_ctx s)" "ctx_tokens_size (ps_ctx s1) = ctx_tokens_size (ps_ctx s)"
    using parse_body_rel [OF Cons.prems(3) on] Cons.prems(7) run m1(1) valid by auto
  have tys: "length (pm_types m1) = Suc (length (pm_types m))" using pm_step_types [OF m1(1)] by simp
  show ?case
  proof (cases "toks = []")
    case True
    then have "e = n" "m' = m1" using t(3) m1(2) by (auto simp: lexes_simps)
    then have "\<not> ps_pos s1 < ctx_size (ps_ctx s1)"
      using s1(3,4) Cons.prems(5) ue by (simp add: word_less_nat_alt)
    then show ?thesis
      using s1 \<open>e = n\<close> \<open>m' = m1\<close> ue by (subst cj_parse_loop.simps) simp
  next
    case False
    then have "e < n" using lexes_le [OF t(3) bs] by simp
    then have "ps_pos s1 < ctx_size (ps_ctx s1)"
      using s1(3,4) Cons.prems(5) ue by (simp add: word_less_nat_alt)
    moreover have "\<exists>s'. cj_parse_loop s1 = Some s' \<and> parse_rel bs s' m' \<and> ctx_size (ps_ctx s') = ctx_size (ps_ctx s1) \<and>
        unat (ps_pos s') = n"
      by (rule Cons.IH [OF t(3) False s1(2)]) (use s1 ue m1(2) tys Cons.prems in auto)
    ultimately show ?thesis
      using s1(1,4) by (subst cj_parse_loop.simps) auto
  qed
qed simp

lemma pm_steps_types: "pm_steps tys m = Inr m' \<Longrightarrow> pm_types m' = pm_types m @ tys"
  by (induction tys arbitrary: m) (auto split: sum.splits dest!: pm_step_types)

lemma lexes_trimmed:
  "lexes bs len p ts e \<Longrightarrow> len \<le> length bs \<Longrightarrow> ts \<noteq> [] \<Longrightarrow> \<not> is_white_space (bs ! (e - 1))"
proof (induction rule: lexes.induct)
  case (lexes_Cons p s t e ts e')
  then show ?case
    using token_ok_last [OF lexes_Cons.hyps(2)] by (cases "ts = []") (auto simp: lexes_simps)
qed simp


text \<open>
  A text is accepted if its tokens fit into the array and take the machine from its start to a state
  that passes the final checks.
\<close>

lemma cj_parse_accepts:
  assumes ready: "parse_ready bs ctx" and utf8: "valid_utf8 (take (unat (ctx_size ctx)) bs)"
    and lex: "lexes bs n 0 toks n" and m: "pm_steps (map tok_type toks) pm_init = Inr m" "pm_finish m = CJ_OK" and toks: "toks \<noteq> []"
    and n: "n \<le> unat (ctx_size ctx)" "\<forall>i. n \<le> i \<and> i < unat (ctx_size ctx) \<longrightarrow> is_white_space (bs ! i)"
    and room: "length toks \<le> unat (ctx_tokens_size ctx)"
  shows "\<exists>ctx'. cj_parse ctx = Some ctx' \<and> ctx_status ctx' = CJ_OK \<and> unat (ctx_size ctx') = n \<and>
    map erase (ctx_toks ctx') = map erase toks"
  using ready
proof (cases rule: cj_parse_cases)
  case invalid_utf8
  with utf8 show ?thesis by simp
next
  case (parsed k s' ctx')
  let ?s = "parse_state_init (ctx\<lparr>ctx_size := k\<rparr>)"
  have bs: "n \<le> length bs" and n32: "n < 2 ^ 32"
    using ready n(1) unat_u32_less [of "ctx_size ctx"] by (auto simp: parse_ready_def)
  have "\<not> is_white_space (bs ! (n - 1))" "0 < n"
    using lexes_trimmed [OF lex bs toks] lexes_le [OF lex bs] toks by auto
  have kn: "unat k = n"
  proof (rule antisym; rule ccontr)
    assume "\<not> unat k \<le> n"
    moreover from this have "n \<le> unat k - 1" "unat k - 1 < unat (ctx_size ctx)" "0 < unat k"
      using parsed(2) unfolding word_le_nat_alt by linarith+
    ultimately show False using parsed(3) n(2) by (simp add: trimmed_def)
  next
    assume "\<not> n \<le> unat k"
    then have "unat k \<le> n - 1" "n - 1 < unat (ctx_size ctx)" using n(1) by linarith+
    then show False using parsed(4) \<open>\<not> is_white_space _\<close> by simp
  qed
  have "\<exists>s'. cj_parse_loop ?s = Some s' \<and> parse_rel bs s' m \<and> ctx_size (ps_ctx s') = ctx_size (ps_ctx ?s) \<and> unat (ps_pos s') = n"
    by (rule lexes_runs [OF lex toks parse_rel_init [OF ready parsed(2)]])
      (use kn m room in \<open>auto simp: parse_state_init_def pm_init_def\<close>)
  then have s': "parse_rel bs s' m" "ctx_size (ps_ctx s') = k" "unat (ps_pos s') = n"
    using parsed(5) by (auto simp: parse_state_init_def)
  have tys: "pm_types m = map tok_type toks"
    using pm_steps_types [OF m(1)] by (simp add: pm_init_def)
  then have fin: "ctx' = (ps_ctx s')\<lparr>ctx_pos := ps_pos s', ctx_status := CJ_OK\<rparr>"
    using parse_finish_rel [OF s'(1)] m(2) toks parsed(8) by simp
  then have ok: "ctx_status ctx' = CJ_OK" by simp
  obtain ts where ts: "ctx_rel bs (ps_ctx s') ts (length toks)" "lexed bs n (take (length toks) ts) n"
    using s' kn tys by (auto simp: parse_rel_def)
  have "lexed bs n toks n" using lexes_lexed [OF lex bs lexed_Nil] by simp
  moreover have "ctx_toks ctx' = take (length toks) ts" "length toks \<le> length ts"
    using ts(1) by (auto simp: fin ctx_toks_def ctx_rel_def)
  ultimately have "map erase (ctx_toks ctx') = map erase toks"
    using lexed_unique [OF _ ts(2) _ n32 bs, of toks n] by simp
  then show ?thesis using parsed(7) ok kn s'(2) fin by auto
qed


text \<open>The tokens of a JSON text.\<close>

inductive json_lexes :: "u8 list \<Rightarrow> nat \<Rightarrow> nat \<Rightarrow> cj_token list \<Rightarrow> nat \<Rightarrow> bool" for bs len where
  json_lexes_Nil: "json_lexes bs len p [] p"
| json_lexes_Cons: "token_start bs len p s \<Longrightarrow> json_token bs len s t e \<Longrightarrow> json_lexes bs len e ts e' \<Longrightarrow>
    json_lexes bs len p (t # ts) e'"

lemma json_lexes_lexes: "json_lexes bs len p ts e \<Longrightarrow> len \<le> length bs \<Longrightarrow> lexes bs len p ts e"
  by (induction rule: json_lexes.induct) (auto intro: lexes.intros json_token_ok)

definition json_text :: "u8 list \<Rightarrow> cj_token list \<Rightarrow> bool" where
  "json_text bs toks \<longleftrightarrow> valid_utf8 bs \<and> json_value (map tok_type toks) \<and>
     (\<exists>n \<le> length bs. json_lexes bs n 0 toks n \<and> list_all is_white_space (drop n bs))"

section \<open>A document\<close>

definition json_doc :: "u8 list" where
  "json_doc = [C_LBRACE, C_QUOTE, C_a, C_QUOTE, C_COLON, C_SPACE, C_LBRACK, C_MINUS, C_1, C_COMMA, C_t, C_r, C_u, C_e, C_RBRACK, C_RBRACE, C_LF]"

definition blank_token :: cj_token where
  "blank_token = \<lparr>tok_type = CJ_TOKEN_INVALID, tok_pos = 0, tok_len = 0, tok_parent = 0\<rparr>"

definition blank_ctx :: cj_ctx where
  "blank_ctx = \<lparr>ctx_buf = None, ctx_pos = 0, ctx_size = 0, ctx_tokens = None, ctx_tokens_pos = 0, ctx_tokens_size = 0,
     ctx_status = CJ_ERROR\<rparr>"

definition init_ctx :: "u8 list \<Rightarrow> cj_ctx" where
  "init_ctx bs = cj_parse_init blank_ctx (Some bs) (of_nat (length bs)) (Some (replicate 16 blank_token)) 16"

definition tk :: "cj_token_type \<Rightarrow> nat \<Rightarrow> nat \<Rightarrow> cj_token" where
  "tk ty p l = \<lparr>tok_type = ty, tok_pos = of_nat p, tok_len = of_nat l, tok_parent = 0\<rparr>"

definition doc_tokens :: "cj_token list" where
  "doc_tokens = [tk CJ_TOKEN_OBJECT_BEG 0 1, tk CJ_TOKEN_STRING 2 1, tk CJ_TOKEN_NAME_SEP 4 1, tk CJ_TOKEN_ARRAY_BEG 6 1,
     tk CJ_TOKEN_PRIMITIVE 7 2, tk CJ_TOKEN_ITEM_SEP 9 1, tk CJ_TOKEN_PRIMITIVE 10 4, tk CJ_TOKEN_ARRAY_END 14 1,
     tk CJ_TOKEN_OBJECT_END 15 1]"

lemma init_ctx_ready: "bs \<noteq> [] \<Longrightarrow> length bs < 2 ^ 32 \<Longrightarrow> parse_ready bs (init_ctx bs)"
  unfolding init_ctx_def by (rule cj_parse_init_ready) (auto simp: word_less_nat_alt unat_of_nat)

lemma ascii_valid: "list_all (\<lambda>b. unat b < 128) bs \<Longrightarrow> valid_utf8 bs"
  unfolding valid_utf8_def
  by (rule exI [of _ "map unat bs"]) (induction bs, auto simp: is_scalar_def utf8_enc_def)

text \<open>A token and its start, checked by computation.\<close>

definition token_start_exec :: "u8 list \<Rightarrow> nat \<Rightarrow> nat \<Rightarrow> nat \<Rightarrow> bool" where
  "token_start_exec bs len p s \<longleftrightarrow> p \<le> s \<and> s \<le> len \<and> (\<forall>i \<in> set [p..<s]. is_white_space (bs ! i)) \<and>
     (s < len \<longrightarrow> \<not> is_white_space (bs ! s))"

lemma token_start_code: "token_start bs len p s = token_start_exec bs len p s"
  by (auto simp: token_start_def token_start_exec_def)

lemma doc_grammar: "json_value (map tok_type doc_tokens)"
proof -
  have "json_elements ([CJ_TOKEN_PRIMITIVE] @ CJ_TOKEN_ITEM_SEP # [CJ_TOKEN_PRIMITIVE])"
    by (intro elements_more elements_one value_primitive)
  from value_array [OF this] have "json_members (CJ_TOKEN_STRING # CJ_TOKEN_NAME_SEP # CJ_TOKEN_ARRAY_BEG #
      ([CJ_TOKEN_PRIMITIVE] @ CJ_TOKEN_ITEM_SEP # [CJ_TOKEN_PRIMITIVE]) @ [CJ_TOKEN_ARRAY_END])"
    by (rule members_one)
  from value_object [OF this] show ?thesis by (simp add: doc_tokens_def tk_def)
qed

definition json_token_check :: "u8 list \<Rightarrow> nat \<Rightarrow> nat \<Rightarrow> cj_token \<Rightarrow> nat \<Rightarrow> bool" where
  "json_token_check bs len s t e \<longleftrightarrow>
     (let p = unat (tok_pos t); l = unat (tok_len t) in
      case tok_type t of
        CJ_TOKEN_INVALID \<Rightarrow> False
      | CJ_TOKEN_STRING \<Rightarrow> p = s + 1 \<and> e = p + l + 1 \<and> e \<le> len \<and> bs ! s = C_QUOTE \<and> bs ! (p + l) = C_QUOTE \<and>
          string_run 0 (seg p l bs) = Some 0
      | CJ_TOKEN_PRIMITIVE \<Rightarrow> p = s \<and> e = p + l \<and> e \<le> len \<and> prim_accepts CJ_PRIM_STATE_INIT (seg p l bs) \<and>
          (e < len \<longrightarrow> delimiter (bs ! e))
      | ty \<Rightarrow> p = s \<and> l = 1 \<and> e = s + 1 \<and> e \<le> len \<and> structural_token (bs ! s) = Some ty)"

lemma json_token_code: "json_token bs len s t e = json_token_check bs len s t e"
  by (simp only: json_token_def json_token_check_def string_run_body prim_accepts_iff)

definition token_check :: "u8 list \<Rightarrow> nat \<Rightarrow> nat \<Rightarrow> cj_token \<Rightarrow> nat \<Rightarrow> bool" where
  "token_check bs len s t e \<longleftrightarrow>
     (if tok_type t = CJ_TOKEN_PRIMITIVE
      then unat (tok_pos t) = s \<and> e = s + unat (tok_len t) \<and> e \<le> len \<and> 0 < unat (tok_len t) \<and>
        scan_prim CJ_PRIM_STATE_INIT (seg s (len - s) bs) = Some (unat (tok_len t))
      else json_token_check bs len s t e)"

lemma token_check_ok:
  assumes "token_check bs len s t e" "len \<le> length bs"
  shows "token_ok bs len s t e"
proof (cases "tok_type t = CJ_TOKEN_PRIMITIVE")
  case False
  then show ?thesis using assms json_token_ok by (simp add: token_check_def json_token_code)
next
  case True
  define l where "l = unat (tok_len t)"
  have l: "unat (tok_pos t) = s" "e = s + l" "e \<le> len" "0 < l" "scan_prim CJ_PRIM_STATE_INIT (seg s (len - s) bs) = Some l"
    using True assms(1) by (auto simp: token_check_def l_def)
  then have "json_primitive_prefix (seg s l bs)" "e < len \<longrightarrow> json_primitive (seg s l bs)"
    using scan_prim_json [OF l(5)] assms(2) by (auto simp: seg_def min_def split: if_splits)
  then show ?thesis using l True by (simp add: token_ok_def l_def)
qed

fun lex_check :: "(u8 list \<Rightarrow> nat \<Rightarrow> nat \<Rightarrow> cj_token \<Rightarrow> nat \<Rightarrow> bool) \<Rightarrow> u8 list \<Rightarrow> nat \<Rightarrow> nat \<Rightarrow> (nat \<times> cj_token \<times> nat) list \<Rightarrow> nat \<Rightarrow> bool" where
  "lex_check P bs len p [] q \<longleftrightarrow> p = q"
| "lex_check P bs len p ((s, t, e) # ts) q \<longleftrightarrow> token_start_exec bs len p s \<and> P bs len s t e \<and> lex_check P bs len e ts q"

lemma lex_check_lexes: "lex_check token_check bs len p ts e \<Longrightarrow> len \<le> length bs \<Longrightarrow> lexes bs len p (map (fst \<circ> snd) ts) e"
  by (induction token_check bs len p ts e rule: lex_check.induct)
    (auto simp: token_start_code intro: lexes.intros token_check_ok)

lemma lex_check_json_lexes: "lex_check json_token_check bs len p ts e \<Longrightarrow> json_lexes bs len p (map (fst \<circ> snd) ts) e"
  by (induction json_token_check bs len p ts e rule: lex_check.induct)
    (auto simp: token_start_code json_token_code intro: json_lexes.intros)

lemmas lex_simps = token_start_exec_def json_token_check_def token_check_def tk_def structural_token_def seg_def
  is_white_space_def delimiter_def string_esc_next_def prim_end_state_def

lemma doc_lexes: "json_lexes json_doc 16 0 doc_tokens 16"
proof -
  have "lex_check json_token_check json_doc 16 0
      (zip [0, 1, 4, 6, 7, 9, 10, 14, 15] (zip doc_tokens [1, 4, 5, 7, 9, 10, 14, 15, 16])) 16"
    by (simp add: doc_tokens_def json_doc_def lex_simps)
  from lex_check_json_lexes [OF this] show ?thesis by (simp add: doc_tokens_def)
qed

section \<open>Properties of the parser\<close>

definition parse_statuses :: "cj_status set" where
  "parse_statuses = {CJ_OK, CJ_INVALID_UTF8, CJ_PARSE_TOKENS_EXHAUSTED, CJ_PARSE_PARENT_CLOSING, CJ_PARSE_INVALID_TOKEN,
     CJ_PARSE_INVALID_OBJECT, CJ_PARSE_MULTI_TOP_THINGS}"

lemma parse_finish_eq: "parse_finish s = Some ctx \<Longrightarrow>
    \<exists>st. ctx = (ps_ctx s)\<lparr>ctx_pos := ps_pos s, ctx_status := st\<rparr> \<and>
      (if ctx_status (ps_ctx s) = CJ_OK then st \<in> {CJ_OK, CJ_PARSE_PARENT_CLOSING, CJ_PARSE_INVALID_TOKEN, CJ_PARSE_INVALID_OBJECT}
       else st = ctx_status (ps_ctx s))"
  unfolding parse_finish_def Let_def
  by (auto simp: bind_eq_Some_conv split: if_split_asm intro!: exI [of _ "ctx_status ctx"])

lemma loop_end_frame:
  assumes "loop_end bs s s'"
  shows "\<exists>ts n. ctx_rel bs (ps_ctx s') ts n" "unat (ps_pos s') \<le> unat (ctx_size (ps_ctx s'))"
    "ctx_status (ps_ctx s') \<in> parse_statuses - {CJ_INVALID_UTF8, CJ_PARSE_INVALID_OBJECT}"
  using assms pm_step_status unfolding loop_end_def parse_rel_def broke_def parse_statuses_def
  by (auto split: if_split_asm) blast+

text \<open>C1: Parsing is memory safe and total. Started on any bytes, with or without a terminating NUL,
  \<open>cj_parse\<close> returns: it reads the input and the token array only inside of their objects, no
  assertion fails, and it sets one of the parser's statuses, uses at most the given tokens and stops
  inside the input.\<close>

theorem cj_parse_safe:
  assumes "parse_ready bs ctx"
  shows "\<exists>ctx'. cj_parse ctx = Some ctx' \<and> ctx_status ctx' \<in> parse_statuses \<and>
    ctx_buf ctx' = Some bs \<and> ctx_size ctx' \<le> ctx_size ctx \<and> ctx_pos ctx' \<le> ctx_size ctx \<and>
    ctx_tokens_size ctx' = ctx_tokens_size ctx \<and> ctx_tokens_pos ctx' \<le> ctx_tokens_size ctx \<and>
    (ctx_status ctx' = CJ_INVALID_UTF8 \<longleftrightarrow> \<not> valid_utf8 (take (unat (ctx_size ctx)) bs))"
  using assms
proof (cases rule: cj_parse_cases)
  case invalid_utf8
  with assms show ?thesis by (auto simp: parse_ready_def parse_statuses_def)
next
  case (parsed n s' ctx')
  note frame = loop_end_frame [OF parsed(6)]
  obtain ts k where ctx: "ctx_rel bs (ps_ctx s') ts k" using frame(1) by blast
  have size: "ctx_size (ps_ctx s') = n" "ctx_tokens_size (ps_ctx s') = ctx_tokens_size ctx"
    using parsed(6) by (auto simp: loop_end_def parse_state_init_def)
  obtain st where st: "ctx' = (ps_ctx s')\<lparr>ctx_pos := ps_pos s', ctx_status := st\<rparr>"
    "st \<in> parse_statuses - {CJ_INVALID_UTF8}"
    using parse_finish_eq [OF parsed(8)] frame(3) by (auto simp: parse_statuses_def split: if_split_asm)
  have "ps_pos s' \<le> ctx_size ctx"
    using frame(2) size(1) parsed(2) by (simp add: word_le_nat_alt)
  moreover have "ctx_tokens_pos ctx' \<le> ctx_tokens_size ctx"
    using ctx size(2) by (simp add: st(1) ctx_rel_def word_le_nat_alt)
  ultimately show ?thesis
    using parsed(1,2,7) st size ctx by (auto simp: ctx_rel_def)
qed

theorem cj_parse_safe_witness:
  "\<exists>ctx'. cj_parse (init_ctx json_doc) = Some ctx' \<and> ctx_status ctx' \<in> parse_statuses"
  using cj_parse_safe [OF init_ctx_ready [of json_doc]] by (auto simp: json_doc_def)

lemma seg_take: "p + l \<le> n \<Longrightarrow> seg p l (take n bs) = seg p l bs"
  by (simp add: seg_def drop_take min_def)

lemma token_start_take: "len \<le> n \<Longrightarrow> token_start (take n bs) len p s = token_start bs len p s"
  by (auto simp: token_start_def)

lemma json_token_take: "len \<le> n \<Longrightarrow> json_token (take n bs) len s t e = json_token bs len s t e"
  by (cases "tok_type t") (auto simp: json_token_def Let_def seg_take)

lemma json_lexes_take: "json_lexes (take n bs) len p ts e \<Longrightarrow> len \<le> n \<Longrightarrow> json_lexes bs len p ts e"
  by (induction rule: json_lexes.induct) (auto simp: token_start_take json_token_take intro: json_lexes.intros)

lemma cj_parse_json:
  assumes ready: "parse_ready bs ctx" and doc: "json_text (take (unat (ctx_size ctx)) bs) toks"
    and room: "length toks \<le> unat (ctx_tokens_size ctx)"
  shows "\<exists>ctx'. cj_parse ctx = Some ctx' \<and> ctx_status ctx' = CJ_OK \<and> map erase (ctx_toks ctx') = map erase toks"
proof -
  let ?k = "unat (ctx_size ctx)"
  obtain n where n: "n \<le> length (take ?k bs)" "json_lexes (take ?k bs) n 0 toks n" "list_all is_white_space (drop n (take ?k bs))"
    and utf8: "valid_utf8 (take ?k bs)" and json: "json_value (map tok_type toks)"
    using doc unfolding json_text_def by blast
  have k: "?k \<le> length bs" using ready by (simp add: parse_ready_def)
  have lex: "lexes bs n 0 toks n"
    using json_lexes_lexes [OF json_lexes_take [OF n(2)]] n(1) k by simp
  have "is_white_space (bs ! i)" if "n \<le> i \<and> i < ?k" for i
    using n(3) that k by (auto simp: list_all_length dest: spec [of _ "i - n"])
  moreover obtain m where "pm_steps (map tok_type toks) pm_init = Inr m" "pm_finish m = CJ_OK"
    using json_value_finish [OF json] by blast
  moreover have "toks \<noteq> []" using json json_value_ne by auto
  ultimately show ?thesis
    using cj_parse_accepts [OF ready utf8 lex _ _ _ _ _ room, of m] n(1) k by auto
qed

lemma json_doc_text: "json_text (take (unat (ctx_size (init_ctx json_doc))) json_doc) doc_tokens"
proof -
  have "take (unat (ctx_size (init_ctx json_doc))) json_doc = json_doc"
    by (simp add: init_ctx_def cj_parse_init_def json_doc_def)
  moreover have "valid_utf8 json_doc" by (rule ascii_valid) (simp add: json_doc_def)
  moreover have "16 \<le> length json_doc \<and> list_all is_white_space (drop 16 json_doc)"
    by (simp add: json_doc_def is_white_space_def)
  ultimately show ?thesis
    using doc_grammar doc_lexes unfolding json_text_def by metis
qed

lemma doc_accepted:
  "\<exists>ctx'. cj_parse (init_ctx json_doc) = Some ctx' \<and> ctx_status ctx' = CJ_OK \<and> map erase (ctx_toks ctx') = map erase doc_tokens"
  by (rule cj_parse_json [OF init_ctx_ready json_doc_text])
    (simp_all add: json_doc_def doc_tokens_def init_ctx_def cj_parse_init_def)

text \<open>C2: Every JSON text is accepted. If the input is valid UTF-8 and its tokens, with white space
  between and after them, form a JSON value by the grammar, and the token array has room for them,
  then \<open>cj_parse\<close> ends with \<open>CJ_OK\<close> and the array holds exactly these tokens.\<close>

theorem cj_parse_json_text:
  assumes "parse_ready bs ctx" "json_text (take (unat (ctx_size ctx)) bs) toks" "length toks \<le> unat (ctx_tokens_size ctx)"
  shows "\<exists>ctx'. cj_parse ctx = Some ctx' \<and> ctx_status ctx' = CJ_OK \<and> map erase (ctx_toks ctx') = map erase toks"
  using cj_parse_json [OF assms] .

theorem cj_parse_json_text_witness:
  "\<exists>ctx'. cj_parse (init_ctx json_doc) = Some ctx' \<and> ctx_status ctx' = CJ_OK \<and> map erase (ctx_toks ctx') = map erase doc_tokens"
  by (rule cj_parse_json_text [OF init_ctx_ready json_doc_text])
    (simp_all add: json_doc_def doc_tokens_def init_ctx_def cj_parse_init_def)

text \<open>C3: What a successful parse says about the input. The tokens cover it from its first byte to
  its last that is not trailing white space, one after the other with only white space between them;
  each is a structural character, a string with a body of the grammar or a literal or number (only the
  beginning of one when it ends the input); and every parent reference leads through earlier open
  brackets to the top.\<close>

theorem cj_parse_ok_tokens:
  assumes "parse_ready bs ctx" "cj_parse ctx = Some ctx'" "ctx_status ctx' = CJ_OK"
  shows "parsed_tokens bs ctx' \<and> ctx_toks ctx' \<noteq> [] \<and> ctx_size ctx' \<le> ctx_size ctx \<and>
    (\<forall>i. unat (ctx_size ctx') \<le> i \<and> i < unat (ctx_size ctx) \<longrightarrow> is_white_space (bs ! i))"
  by (rule cj_parse_ok_cases [OF assms]) (auto simp: ctx_types_def)

theorem cj_parse_ok_tokens_witness:
  "\<exists>ctx'. cj_parse (init_ctx json_doc) = Some ctx' \<and> parsed_tokens json_doc ctx'"
  using doc_accepted cj_parse_ok_tokens [OF init_ctx_ready [of json_doc]] by (fastforce simp: json_doc_def)

lemma pm_steps_snoc: "pm_steps (xs @ [ty]) m = Inr m' \<longleftrightarrow> (\<exists>m1. pm_steps xs m = Inr m1 \<and> pm_step ty m1 = Inr m')"
  by (auto simp: pm_steps_append split: sum.splits)

lemma open_not_close: "is_open ty \<Longrightarrow> \<not> is_close ty"
  by (auto simp: is_open_def)

lemma pm_step_stack: "pm_step ty m = Inr m' \<Longrightarrow>
    (is_open ty \<longrightarrow> pm_types m = [] \<or> pm_stack m \<noteq> []) \<and> (is_close ty \<longrightarrow> pm_types m \<noteq> []) \<and>
    (pm_stack m = [] \<and> \<not> is_open ty \<longrightarrow> pm_stack m' = [])"
  unfolding pm_step_eq_Inr using open_not_close [of ty]
  by (auto simp: pm_structure_def Let_def split: if_split_asm)

lemma first_open:
  "pm_steps tys pm_init = Inr m \<Longrightarrow> tys \<noteq> [] \<Longrightarrow> \<not> is_open (hd tys) \<Longrightarrow>
    pm_stack m = [] \<and> (\<forall>ty \<in> set tys. \<not> is_open ty)"
proof (induction tys arbitrary: m rule: rev_induct)
  case (snoc ty xs)
  then obtain m1 where m1: "pm_steps xs pm_init = Inr m1" "pm_step ty m1 = Inr m"
    by (auto simp: pm_steps_snoc)
  have tys: "pm_types m1 = xs" using pm_steps_types [OF m1(1)] by (simp add: pm_init_def)
  show ?case
  proof (cases "xs = []")
    case True
    then show ?thesis using m1 snoc.prems(3) pm_step_stack [OF m1(2)] by (auto simp: pm_init_def)
  next
    case False
    then show ?thesis using snoc.IH [OF m1(1)] snoc.prems(3) pm_step_stack [OF m1(2)] tys by (auto simp: hd_append)
  qed
qed simp

lemma machine_balanced:
  assumes "pm_steps tys pm_init = Inr m" "pm_finish m = CJ_OK" "CJ_TOKEN_INVALID \<notin> set tys"
  shows "count_list tys CJ_TOKEN_OBJECT_BEG = count_list tys CJ_TOKEN_OBJECT_END"
    "count_list tys CJ_TOKEN_ARRAY_BEG = count_list tys CJ_TOKEN_ARRAY_END"
    "count_list (take n tys) CJ_TOKEN_OBJECT_END \<le> count_list (take n tys) CJ_TOKEN_OBJECT_BEG"
    "count_list (take n tys) CJ_TOKEN_ARRAY_END \<le> count_list (take n tys) CJ_TOKEN_ARRAY_BEG"
    "\<exists>ty \<in> set tys. is_open ty \<Longrightarrow> is_open (hd tys) \<and> is_close (last tys)"
proof -
  have tys: "pm_types m = tys" using pm_steps_types [OF assms(1)] by (simp add: pm_init_def)
  have inv: "pm_inv m" using pm_steps_inv [OF assms(1) pm_inv_init assms(3)] .
  show "count_list tys CJ_TOKEN_OBJECT_BEG = count_list tys CJ_TOKEN_OBJECT_END"
    "count_list tys CJ_TOKEN_ARRAY_BEG = count_list tys CJ_TOKEN_ARRAY_END"
    using inv assms(2) by (auto simp: pm_inv_def tys pm_finish_def split: if_split_asm)
  obtain m1 where m1: "pm_steps (take n tys) pm_init = Inr m1"
    using assms(1) pm_steps_append [of "take n tys" "drop n tys" pm_init] by (cases "pm_steps (take n tys) pm_init") auto
  have "pm_inv m1"
    using pm_steps_inv [OF m1 pm_inv_init] assms(3) by (meson in_set_takeD)
  moreover have "pm_types m1 = take n tys" using pm_steps_types [OF m1] by (simp add: pm_init_def)
  ultimately show "count_list (take n tys) CJ_TOKEN_OBJECT_END \<le> count_list (take n tys) CJ_TOKEN_OBJECT_BEG"
    "count_list (take n tys) CJ_TOKEN_ARRAY_END \<le> count_list (take n tys) CJ_TOKEN_ARRAY_BEG"
    by (auto simp: pm_inv_def)
  assume op: "\<exists>ty \<in> set tys. is_open ty"
  then have "is_open (hd tys)" using first_open [OF assms(1)] by force
  moreover have "0 < pm_structs m"
    using op inv by (auto simp: pm_inv_def tys length_greater_0_conv filter_empty_conv)
  ultimately show "is_open (hd tys) \<and> is_close (last tys)"
    using assms(2) by (auto simp: pm_finish_def tys split: if_split_asm)
qed



section \<open>What the parser does not reject\<close>

text \<open>The machine, evaluated.\<close>

lemma accepts_by_check:
  assumes "bs \<noteq> []" "length bs < 2 ^ 32" "list_all (\<lambda>b. unat b < 128) bs" "toks \<noteq> []" "length toks \<le> 16"
    and "lex_check token_check bs (length bs) 0 toks (length bs)"
    and "(case pm_steps (map (tok_type \<circ> (fst \<circ> snd)) toks) pm_init of Inl _ \<Rightarrow> False | Inr m \<Rightarrow> pm_finish m = CJ_OK)"
  shows "\<exists>ctx'. cj_parse (init_ctx bs) = Some ctx' \<and> ctx_status ctx' = CJ_OK"
proof -
  have size: "unat (ctx_size (init_ctx bs)) = length bs" "unat (ctx_tokens_size (init_ctx bs)) = 16"
    using assms(2) by (simp_all add: init_ctx_def cj_parse_init_def unat_of_nat)
  obtain m where m: "pm_steps (map tok_type (map (fst \<circ> snd) toks)) pm_init = Inr m" "pm_finish m = CJ_OK"
    using assms(7) by (auto split: sum.splits)
  have "valid_utf8 (take (unat (ctx_size (init_ctx bs))) bs)" using ascii_valid [OF assms(3)] by (simp add: size)
  then have "\<exists>ctx'. cj_parse (init_ctx bs) = Some ctx' \<and> ctx_status ctx' = CJ_OK \<and> unat (ctx_size ctx') = length bs \<and>
      map erase (ctx_toks ctx') = map erase (map (fst \<circ> snd) toks)"
    by (rule cj_parse_accepts [OF init_ctx_ready [OF assms(1,2)] _ lex_check_lexes [OF assms(6)] m])
      (use assms(4,5) in \<open>auto simp: size\<close>)
  then show ?thesis by blast
qed

text \<open>Kinds of brackets are counted, not matched, and a primitive at the end of the input is not
  checked for being complete: the texts \<^verbatim>\<open>[{]}\<close> and \<^verbatim>\<open>tru\<close> are parsed with \<open>CJ_OK\<close>.\<close>

theorem cj_parse_accepts_non_json:
  "(\<exists>ctx'. cj_parse (init_ctx [C_LBRACK, C_LBRACE, C_RBRACK, C_RBRACE]) = Some ctx' \<and> ctx_status ctx' = CJ_OK) \<and>
   (\<exists>ctx'. cj_parse (init_ctx [C_t, C_r, C_u]) = Some ctx' \<and> ctx_status ctx' = CJ_OK)"
proof
  show "\<exists>ctx'. cj_parse (init_ctx [C_LBRACK, C_LBRACE, C_RBRACK, C_RBRACE]) = Some ctx' \<and> ctx_status ctx' = CJ_OK"
    by (rule accepts_by_check [where toks = "[(0, tk CJ_TOKEN_ARRAY_BEG 0 1, 1), (1, tk CJ_TOKEN_OBJECT_BEG 1 1, 2),
          (2, tk CJ_TOKEN_ARRAY_END 2 1, 3), (3, tk CJ_TOKEN_OBJECT_END 3 1, 4)]"])
      (simp_all add: lex_simps pm_init_def pm_step_def pm_structure_def pm_depths_def pm_prev_def follow_ok_def
        value_start_def value_follow_def pm_finish_def)
  show "\<exists>ctx'. cj_parse (init_ctx [C_t, C_r, C_u]) = Some ctx' \<and> ctx_status ctx' = CJ_OK"
    by (rule accepts_by_check [where toks = "[(0, tk CJ_TOKEN_PRIMITIVE 0 3, 3)]"])
      (simp_all add: lex_simps pm_init_def pm_step_def pm_structure_def pm_depths_def pm_prev_def follow_ok_def
        value_start_def value_follow_def pm_finish_def)
qed

end
