(* ===== verification/CJ_Value.thy ===== *)
theory CJ_Value
  imports CJ_Json
begin

text \<open>
  Looking up a member of an object and copying a token out of a parsed context: \<open>cj_value_ref\<close>,
  \<open>cj_copy_value\<close> and \<open>cj_copy_ref\<close> of \<^verbatim>\<open>cj/cj.c\<close>. A destination buffer is a list of bytes, absent
  for the null pointer; a write behind its end is \<open>None\<close>.
\<close>

section \<open>Looking up a member\<close>

text \<open>The length of a NUL terminated string.\<close>

fun strlen_loop :: "u8 list \<Rightarrow> u32 \<Rightarrow> u32 option" where
  "strlen_loop [] len = None"
| "strlen_loop (c # cs) len = (if c = 0 then Some len else strlen_loop cs (len + 1))"

text \<open>The comparison of a token with the key.\<close>

function key_loop :: "cmem \<Rightarrow> cj_size \<Rightarrow> u8 list \<Rightarrow> u32 \<Rightarrow> u32 \<Rightarrow> u32 option" where
  "key_loop buf pos key len k =
     (if k < len then do {
        b \<leftarrow> rd buf (unat (pos + k));
        c \<leftarrow> rd (Some key) (unat k);
        if b \<noteq> c then Some k else key_loop buf pos key len (k + 1) }
      else Some k)"
  by pat_completeness auto

termination key_loop
  by (relation "measure (\<lambda>(buf, pos, key, len, k). unat len - unat k)") (auto simp: unat_inc word_less_nat_alt)

declare key_loop.simps [simp del]

function value_ref_loop :: "cj_ctx \<Rightarrow> cj_token_ref \<Rightarrow> u8 list \<Rightarrow> u32 \<Rightarrow> cj_token_ref \<Rightarrow> cj_token_ref option" where
  "value_ref_loop ctx obj key len i =
     (if i < ctx_tokens_pos ctx then do {
        tok \<leftarrow> tok_at ctx i;
        if tok_type tok \<noteq> CJ_TOKEN_NAME_SEP then value_ref_loop ctx obj key len (i + 1)
        else do {
          tok \<leftarrow> tok_at ctx (i - 1);
          if tok_parent tok \<noteq> obj then value_ref_loop ctx obj key len (i + 1)
          else if tok_len tok \<noteq> len then value_ref_loop ctx obj key len (i + 1)
          else do {
            k \<leftarrow> key_loop (ctx_buf ctx) (tok_pos tok) key len 0;
            if k = len then Some (i + 1) else value_ref_loop ctx obj key len (i + 1) } } }
      else Some CJ_INVALID_TOKEN_INDEX)"
  by pat_completeness auto

termination value_ref_loop
  by (relation "measure (\<lambda>(ctx, obj, key, len, i). unat (ctx_tokens_pos ctx) - unat i)")
    (auto simp: unat_inc word_less_nat_alt)

declare value_ref_loop.simps [simp del]

definition cj_value_ref :: "cj_ctx \<Rightarrow> cj_token_ref \<Rightarrow> cmem \<Rightarrow> cj_token_ref option" where
  "cj_value_ref ctx obj key =
     (case key of
        None \<Rightarrow> Some CJ_INVALID_TOKEN_INDEX
      | Some ks \<Rightarrow>
          if ctx_status ctx \<noteq> CJ_OK then Some CJ_INVALID_TOKEN_INDEX
          else if obj \<ge> ctx_tokens_pos ctx then Some CJ_INVALID_TOKEN_INDEX
          else do {
            len \<leftarrow> strlen_loop ks 0;
            value_ref_loop ctx obj ks len (obj + 1) })"

section \<open>Copying a token\<close>

function copy_loop :: "cmem \<Rightarrow> cj_size \<Rightarrow> cj_size \<Rightarrow> u8 list \<Rightarrow> cj_size \<Rightarrow> u8 list option" where
  "copy_loop buf pos len out i =
     (if i < len then do {
        b \<leftarrow> rd buf (unat (pos + i));
        out \<leftarrow> wr out (unat i) b;
        copy_loop buf pos len out (i + 1) }
      else Some out)"
  by pat_completeness auto

termination copy_loop
  by (relation "measure (\<lambda>(buf, pos, len, out, i). unat len - unat i)") (auto simp: unat_inc word_less_nat_alt)

declare copy_loop.simps [simp del]

text \<open>The part both functions end with: the token \<open>ref\<close>, if it fits, with a NUL behind it.\<close>

definition copy_token :: "cj_ctx \<Rightarrow> u8 list \<Rightarrow> cj_size \<Rightarrow> cj_token_ref \<Rightarrow> (bool \<times> u8 list) option" where
  "copy_token ctx out sz ref =
     (if ref < ctx_tokens_pos ctx then do {
        tok \<leftarrow> tok_at ctx ref;
        if tok_len tok < sz then
          (if ctx_size ctx < tok_len tok then Some (False, out)
           else if ctx_size ctx - tok_len tok < tok_pos tok then Some (False, out)
           else do {
             out \<leftarrow> copy_loop (ctx_buf ctx) (tok_pos tok) (tok_len tok) out 0;
             out \<leftarrow> wr out (unat (tok_len tok)) 0;
             Some (True, out) })
        else Some (False, out) }
      else Some (False, out))"

definition cj_copy_ref :: "cj_ctx \<Rightarrow> cmem \<Rightarrow> cj_size \<Rightarrow> cj_token_ref \<Rightarrow> (bool \<times> cmem) option" where
  "cj_copy_ref ctx buf sz ref =
     (case buf of
        None \<Rightarrow> Some (False, buf)
      | Some out \<Rightarrow>
          if sz = 0 then Some (False, buf)
          else do {
            out \<leftarrow> wr out 0 0;
            (ok, out) \<leftarrow> copy_token ctx out sz ref;
            Some (ok, Some out) })"

definition cj_copy_value :: "cj_ctx \<Rightarrow> cmem \<Rightarrow> cj_size \<Rightarrow> cj_token_ref \<Rightarrow> cmem \<Rightarrow> (bool \<times> cmem) option" where
  "cj_copy_value ctx buf sz obj key =
     (case buf of
        None \<Rightarrow> Some (False, buf)
      | Some out \<Rightarrow>
          if sz = 0 then Some (False, buf)
          else do {
            out \<leftarrow> wr out 0 0;
            ref \<leftarrow> cj_value_ref ctx obj key;
            (ok, out) \<leftarrow> copy_token ctx out sz ref;
            Some (ok, Some out) })"

section \<open>Members in a parsed context\<close>

definition cj_parsed :: "u8 list \<Rightarrow> cj_ctx \<Rightarrow> bool" where
  "cj_parsed bs ctx \<longleftrightarrow> parsed_tokens bs ctx \<and> ctx_status ctx = CJ_OK \<and>
     (\<exists>m. pm_steps (ctx_types ctx) pm_init = Inr m \<and> pm_inv m \<and> pm_finish m = CJ_OK)"

lemma cj_parse_parsed:
  assumes "parse_ready bs ctx" "cj_parse ctx = Some ctx'" "ctx_status ctx' = CJ_OK"
  shows "cj_parsed bs ctx'"
  by (rule cj_parse_ok_cases [OF assms]) (use assms in \<open>auto simp: cj_parsed_def\<close>)

lemma machine_follow:
  assumes "pm_steps tys pm_init = Inr m" "Suc i < length tys"
  shows "follow_ok (Some (tys ! i)) (tys ! Suc i)"
proof -
  have "tys = take (Suc i) tys @ (tys ! Suc i) # drop (Suc (Suc i)) tys"
    using assms(2) by (simp add: id_take_nth_drop)
  then obtain m1 m2 where m1: "pm_steps (take (Suc i) tys) pm_init = Inr m1" "pm_step (tys ! Suc i) m1 = Inr m2"
    using assms(1) pm_steps_append [of "take (Suc i) tys" "(tys ! Suc i) # drop (Suc (Suc i)) tys" pm_init]
    by (auto split: sum.splits)
  have "pm_types m1 = take (Suc i) tys" using pm_steps_types [OF m1(1)] by (simp add: pm_init_def)
  then have "pm_prev m1 = Some (tys ! i)"
    using assms(2) by (auto simp: pm_prev_def take_Suc_conv_app_nth)
  then show ?thesis using m1(2) by (auto simp: pm_step_eq_Inr)
qed

lemma machine_name_sep:
  assumes "pm_steps tys pm_init = Inr m" "i < length tys" "tys ! i = CJ_TOKEN_NAME_SEP"
  shows "2 \<le> i \<and> tys ! (i - 1) = CJ_TOKEN_STRING \<and> (\<exists>ty \<in> set tys. is_open ty)"
proof -
  have "tys = take i tys @ (tys ! i) # drop (Suc i) tys"
    using assms(2) by (simp add: id_take_nth_drop)
  then obtain m1 m2 where m1: "pm_steps (take i tys) pm_init = Inr m1" "pm_step (tys ! i) m1 = Inr m2"
    using assms(1) pm_steps_append [of "take i tys" "(tys ! i) # drop (Suc i) tys" pm_init]
    by (auto split: sum.splits)
  have tys: "pm_types m1 = take i tys" using pm_steps_types [OF m1(1)] by (simp add: pm_init_def)
  have ok: "name_sep_ok m1" using m1(2) assms(3) by (auto simp: pm_step_eq_Inr)
  then have "2 \<le> i" "last (take i tys) = CJ_TOKEN_STRING"
    using assms(2) by (auto simp: name_sep_ok_def tys pm_prev_def split: if_splits)
  moreover have "pm_stack m1 \<noteq> []" using ok by (auto simp: name_sep_ok_def)
  then have "\<exists>ty \<in> set (take i tys). is_open ty"
    using first_open [OF m1(1)] \<open>2 \<le> i\<close> assms(2) by (cases tys) (auto simp: take_Cons')
  moreover have "tys \<noteq> []" using assms(2) by auto
  then have "tys ! (i - 1) = CJ_TOKEN_STRING"
    using \<open>2 \<le> i\<close> \<open>last _ = _\<close> last_conv_nth [of "take i tys"] assms(2) by auto
  ultimately show ?thesis by (auto dest: in_set_takeD)
qed

lemma machine_last:
  assumes "pm_steps tys pm_init = Inr m" "pm_finish m = CJ_OK" "CJ_TOKEN_INVALID \<notin> set tys" "i < length tys" "tys ! i = CJ_TOKEN_NAME_SEP"
  shows "Suc i < length tys"
proof (rule ccontr)
  assume "\<not> Suc i < length tys"
  then have "i = length tys - 1" "tys \<noteq> []" using assms(4) by auto
  then have "last tys = CJ_TOKEN_NAME_SEP" using assms(5) by (simp add: last_conv_nth)
  moreover have "is_close (last tys)"
    using machine_balanced(5) [OF assms(1-3)] machine_name_sep [OF assms(1,4,5)] by blast
  ultimately show False by simp
qed

text \<open>A member: the name at \<open>j\<close>, the colon behind it, and the value behind that.\<close>

definition token_text :: "u8 list \<Rightarrow> cj_token \<Rightarrow> u8 list" where
  "token_text bs t = seg (unat (tok_pos t)) (unat (tok_len t)) bs"

definition member_at :: "u8 list \<Rightarrow> cj_ctx \<Rightarrow> cj_token_ref \<Rightarrow> u8 list \<Rightarrow> nat \<Rightarrow> bool" where
  "member_at bs ctx obj key j \<longleftrightarrow> Suc (Suc j) < length (ctx_toks ctx) \<and>
     tok_type (ctx_toks ctx ! j) = CJ_TOKEN_STRING \<and> tok_parent (ctx_toks ctx ! j) = obj \<and>
     tok_type (ctx_toks ctx ! Suc j) = CJ_TOKEN_NAME_SEP \<and> value_start (tok_type (ctx_toks ctx ! Suc (Suc j))) \<and>
     token_text bs (ctx_toks ctx ! j) = key"

lemma lexed_spans:
  "lexed bs len ts e \<Longrightarrow> j < length ts \<Longrightarrow> unat (tok_pos (ts ! j)) + unat (tok_len (ts ! j)) \<le> e"
proof (induction rule: lexed.induct)
  case (lexed_snoc ts e s t e')
  have "e \<le> s" "s < e'" "unat (tok_pos t) + unat (tok_len t) \<le> e'"
    using lexed_snoc.hyps(2) token_ok_bounds [OF lexed_snoc.hyps(3)] by (auto simp: token_start_def)
  then show ?case
    using lexed_snoc.IH lexed_snoc.prems by (cases "j < length ts") (auto simp: nth_append less_Suc_eq)
qed simp

lemma parsed_toks:
  assumes "cj_parsed bs ctx"
  shows "ctx_buf ctx = Some bs" "ctx_status ctx = CJ_OK" "length (ctx_toks ctx) = unat (ctx_tokens_pos ctx)"
    "\<And>i. unat i < unat (ctx_tokens_pos ctx) \<Longrightarrow> tok_at ctx i = Some (ctx_toks ctx ! unat i)"
    "\<And>j. j < length (ctx_toks ctx) \<Longrightarrow> unat (tok_pos (ctx_toks ctx ! j)) + unat (tok_len (ctx_toks ctx ! j)) \<le> unat (ctx_size ctx)"
    "unat (ctx_size ctx) \<le> length bs" "CJ_TOKEN_INVALID \<notin> set (ctx_types ctx)"
proof -
  obtain ts where ts: "ctx_tokens ctx = Some ts" "unat (ctx_tokens_pos ctx) \<le> length ts"
    using assms by (auto simp: cj_parsed_def parsed_tokens_def)
  show "ctx_buf ctx = Some bs" "ctx_status ctx = CJ_OK" "unat (ctx_size ctx) \<le> length bs"
    using assms by (auto simp: cj_parsed_def parsed_tokens_def)
  show "length (ctx_toks ctx) = unat (ctx_tokens_pos ctx)" using ts by (simp add: ctx_toks_def)
  show "\<And>i. unat i < unat (ctx_tokens_pos ctx) \<Longrightarrow> tok_at ctx i = Some (ctx_toks ctx ! unat i)"
    using ts by (simp add: ctx_toks_def tok_at_def)
  have lex: "lexed bs (unat (ctx_size ctx)) (ctx_toks ctx) (unat (ctx_size ctx))"
    using assms by (auto simp: cj_parsed_def parsed_tokens_def)
  then show "\<And>j. j < length (ctx_toks ctx) \<Longrightarrow> unat (tok_pos (ctx_toks ctx ! j)) + unat (tok_len (ctx_toks ctx ! j)) \<le> unat (ctx_size ctx)"
    using lexed_spans by blast
  obtain m where "pm_steps (ctx_types ctx) pm_init = Inr m" "pm_inv m"
    using assms by (auto simp: cj_parsed_def)
  then show "CJ_TOKEN_INVALID \<notin> set (ctx_types ctx)"
    using pm_steps_types [of "ctx_types ctx" pm_init m] by (auto simp: pm_inv_def pm_init_def)
qed

lemma name_sep_member:
  assumes "cj_parsed bs ctx" "i < length (ctx_toks ctx)" "tok_type (ctx_toks ctx ! i) = CJ_TOKEN_NAME_SEP"
    "tok_parent (ctx_toks ctx ! (i - 1)) = obj" "token_text bs (ctx_toks ctx ! (i - 1)) = key"
  shows "2 \<le> i \<and> member_at bs ctx obj key (i - 1)"
proof -
  obtain m where m: "pm_steps (ctx_types ctx) pm_init = Inr m" "pm_inv m" "pm_finish m = CJ_OK"
    using assms by (auto simp: cj_parsed_def)
  have ty: "j < length (ctx_toks ctx) \<Longrightarrow> ctx_types ctx ! j = tok_type (ctx_toks ctx ! j)" for j by (simp add: ctx_types_def)
  have len: "length (ctx_types ctx) = length (ctx_toks ctx)" by (simp add: ctx_types_def)
  have i: "i < length (ctx_types ctx)" "ctx_types ctx ! i = CJ_TOKEN_NAME_SEP" using assms(2,3) ty len by auto
  note last = machine_last [OF m(1,3) parsed_toks(7) [OF assms(1)] i]
  have follow: "value_start (ctx_types ctx ! Suc i)"
    using machine_follow [OF m(1) last] i(2) by (simp add: follow_ok_def)
  have "2 \<le> i" "ctx_types ctx ! (i - 1) = CJ_TOKEN_STRING" using machine_name_sep [OF m(1) i] by auto
  then show ?thesis
    unfolding member_at_def using follow last assms(2-5) ty len by (auto simp: Suc_diff_Suc numeral_2_eq_2)
qed


text \<open>The length of a key, and the comparison with it.\<close>

definition c_string :: "u8 list \<Rightarrow> u8 list \<Rightarrow> bool" where
  "c_string mem key \<longleftrightarrow> 0 \<notin> set key \<and> length key < 2 ^ 32 \<and> (\<exists>rest. mem = key @ 0 # rest)"

lemma strlen_loop_spec: "0 \<notin> set key \<Longrightarrow> strlen_loop (key @ 0 # rest) n = Some (n + of_nat (length key))"
  by (induction key arbitrary: n) (auto simp: algebra_simps)

lemma key_loop_spec:
  assumes "unat pos + unat len \<le> length bs" "unat pos + unat len < 2 ^ 32" "unat len \<le> length key" "unat k \<le> unat len"
  shows "\<exists>k'. key_loop (Some bs) pos key len k = Some k' \<and>
    (k' = len \<longleftrightarrow> (\<forall>i. unat k \<le> i \<and> i < unat len \<longrightarrow> bs ! (unat pos + i) = key ! i))"
  using assms(4)
proof (induction "unat len - unat k" arbitrary: k rule: less_induct)
  case less
  show ?case
  proof (cases "k < len")
    case False
    then have "k = len" using less.prems by (simp add: word_less_nat_alt word_unat_eq_iff)
    then show ?thesis by (subst key_loop.simps) auto
  next
    case True
    then have k: "unat k < unat len" "unat (k + 1) = Suc (unat k)" by (simp_all add: word_less_nat_alt unat_inc)
    have pk: "unat (pos + k) = unat pos + unat k"
      using k(1) assms(2) by (simp add: unat_word_ariths)
    show ?thesis
    proof (cases "bs ! (unat pos + unat k) = key ! unat k")
      case False
      then have "key_loop (Some bs) pos key len k = Some k"
        using True k pk assms(1,3) by (subst key_loop.simps) simp
      then show ?thesis using True False k by auto
    next
      case same: True
      have "key_loop (Some bs) pos key len k = key_loop (Some bs) pos key len (k + 1)"
        using True k pk assms(1,3) same by (subst key_loop.simps) simp
      moreover have "(\<forall>i. unat k \<le> i \<and> i < unat len \<longrightarrow> bs ! (unat pos + i) = key ! i) \<longleftrightarrow>
          (\<forall>i. unat (k + 1) \<le> i \<and> i < unat len \<longrightarrow> bs ! (unat pos + i) = key ! i)"
        unfolding k(2) using same by (metis Suc_leI le_neq_implies_less less_imp_le Suc_le_lessD)
      ultimately show ?thesis
        using less.hyps [of "k + 1"] k by simp
    qed
  qed
qed

lemma seg_eq_iff:
  assumes "p + n \<le> length xs"
  shows "seg p n xs = ys \<longleftrightarrow> length ys = n \<and> (\<forall>i < n. xs ! (p + i) = ys ! i)"
proof -
  have "length (seg p n xs) = n" using assms by simp
  then show ?thesis
    unfolding list_eq_iff_nth_eq [of "seg p n xs" ys] using nth_seg [OF assms] by auto
qed

text \<open>The search behind an index.\<close>

definition is_member :: "u8 list \<Rightarrow> cj_ctx \<Rightarrow> cj_token_ref \<Rightarrow> u8 list \<Rightarrow> nat \<Rightarrow> bool" where
  "is_member bs ctx obj key i \<longleftrightarrow> i < length (ctx_toks ctx) \<and> 2 \<le> i \<and> member_at bs ctx obj key (i - 1)"

lemma is_member_iff:
  assumes "cj_parsed bs ctx" "i < length (ctx_toks ctx)"
  shows "is_member bs ctx obj key i \<longleftrightarrow> tok_type (ctx_toks ctx ! i) = CJ_TOKEN_NAME_SEP \<and>
    tok_parent (ctx_toks ctx ! (i - 1)) = obj \<and> token_text bs (ctx_toks ctx ! (i - 1)) = key"
  using name_sep_member [OF assms] assms(2) unfolding is_member_def by (auto simp: member_at_def)

lemma value_ref_loop_spec:
  assumes parsed: "cj_parsed bs ctx" and key: "c_string mem key"
    and i: "0 < unat i" "unat i \<le> unat (ctx_tokens_pos ctx)"
  shows "\<exists>r. value_ref_loop ctx obj mem (of_nat (length key)) i = Some r \<and>
    (if r = CJ_INVALID_TOKEN_INDEX then \<forall>j \<ge> unat i. \<not> is_member bs ctx obj key j
     else unat i < unat r \<and> is_member bs ctx obj key (unat r - 1) \<and>
       (\<forall>j. unat i \<le> j \<and> j < unat r - 1 \<longrightarrow> \<not> is_member bs ctx obj key j))"
  using i
proof (induction "unat (ctx_tokens_pos ctx) - unat i" arbitrary: i rule: less_induct)
  case less
  note p = parsed_toks [OF parsed]
  show ?case
  proof (cases "i < ctx_tokens_pos ctx")
    case False
    then have "unat i = unat (ctx_tokens_pos ctx)" using less.prems(2) by (simp add: word_less_nat_alt)
    then have "\<forall>j \<ge> unat i. \<not> is_member bs ctx obj key j" using p(3) by (auto simp: is_member_def)
    then show ?thesis using False by (subst value_ref_loop.simps) simp
  next
    case True
    then have il: "unat i < length (ctx_toks ctx)" and inc: "unat (i + 1) = Suc (unat i)"
      using p(3) by (simp_all add: word_less_nat_alt unat_inc)
    have dec: "unat (i - 1) = unat i - 1" using less.prems(1) by (simp add: unat_dec word_less_nat_alt)
    let ?t = "ctx_toks ctx ! unat i" and ?n = "ctx_toks ctx ! (unat i - 1)"
    have at: "tok_at ctx i = Some ?t" "tok_at ctx (i - 1) = Some ?n"
      using p(3) p(4) [of i] p(4) [of "i - 1"] il dec by auto
    have span: "unat (tok_pos ?n) + unat (tok_len ?n) \<le> unat (ctx_size ctx)" using p(5) il by simp
    obtain rest where len: "unat (of_nat (length key) :: u32) = length key" and mem: "mem = key @ rest"
      using key by (auto simp: c_string_def unat_of_nat)
    have cmp: "\<exists>k. key_loop (Some bs) (tok_pos ?n) mem (of_nat (length key)) 0 = Some k \<and>
        (k = of_nat (length key) \<longleftrightarrow> token_text bs ?n = key)" if same: "tok_len ?n = of_nat (length key)"
    proof -
      have True: "unat (tok_len ?n) = length key" using same len by simp
      have "\<exists>k'. key_loop (Some bs) (tok_pos ?n) mem (tok_len ?n) 0 = Some k' \<and>
          (k' = tok_len ?n \<longleftrightarrow> (\<forall>i. unat (0 :: u32) \<le> i \<and> i < unat (tok_len ?n) \<longrightarrow> bs ! (unat (tok_pos ?n) + i) = mem ! i))"
        by (rule key_loop_spec) (use span p(6) unat_u32_less [of "ctx_size ctx"] True mem in auto)
      moreover have "token_text bs ?n = key \<longleftrightarrow> (\<forall>i < length key. bs ! (unat (tok_pos ?n) + i) = key ! i)"
        unfolding token_text_def using span p(6) True by (subst seg_eq_iff) auto
      ultimately show ?thesis unfolding same [symmetric] using True mem by (auto simp: nth_append)
    qed
    have text_len: "token_text bs ?n = key \<Longrightarrow> tok_len ?n = of_nat (length key)"
      using span p(6) len by (auto simp: token_text_def word_unat_eq_iff)
    have eval: "value_ref_loop ctx obj mem (of_nat (length key)) i =
      (if is_member bs ctx obj key (unat i) then Some (i + 1) else value_ref_loop ctx obj mem (of_nat (length key)) (i + 1))"
    proof (cases "tok_type ?t = CJ_TOKEN_NAME_SEP \<and> tok_parent ?n = obj \<and> tok_len ?n = of_nat (length key)")
      case False
      then have "\<not> is_member bs ctx obj key (unat i)" using text_len by (auto simp: is_member_iff [OF parsed il])
      then show ?thesis using True at False by (subst value_ref_loop.simps) auto
    next
      case scan: True
      then obtain k where k: "key_loop (Some bs) (tok_pos ?n) mem (of_nat (length key)) 0 = Some k"
        "k = of_nat (length key) \<longleftrightarrow> token_text bs ?n = key" using cmp by blast
      then have "is_member bs ctx obj key (unat i) \<longleftrightarrow> k = of_nat (length key)"
        using scan by (simp add: is_member_iff [OF parsed il])
      then show ?thesis using True at scan k(1) p(1) by (subst value_ref_loop.simps) simp
    qed
    show ?thesis
    proof (cases "is_member bs ctx obj key (unat i)")
      case member: True
      then have "unat (i + 1) < unat (ctx_tokens_pos ctx)"
        using p(3) inc by (auto simp: is_member_def member_at_def)
      with member eval inc show ?thesis
        using below_size_valid [of "i + 1" "ctx_tokens_pos ctx"] by auto
    next
      case False
      have "\<exists>r. value_ref_loop ctx obj mem (of_nat (length key)) (i + 1) = Some r \<and>
        (if r = CJ_INVALID_TOKEN_INDEX then \<forall>j \<ge> unat (i + 1). \<not> is_member bs ctx obj key j
         else unat (i + 1) < unat r \<and> is_member bs ctx obj key (unat r - 1) \<and>
           (\<forall>j. unat (i + 1) \<le> j \<and> j < unat r - 1 \<longrightarrow> \<not> is_member bs ctx obj key j))"
        by (rule less.hyps) (use True inc in \<open>auto simp: word_less_nat_alt\<close>)
      then obtain r where r: "value_ref_loop ctx obj mem (of_nat (length key)) (i + 1) = Some r"
        "if r = CJ_INVALID_TOKEN_INDEX then \<forall>j \<ge> Suc (unat i). \<not> is_member bs ctx obj key j
         else Suc (unat i) < unat r \<and> is_member bs ctx obj key (unat r - 1) \<and>
           (\<forall>j. Suc (unat i) \<le> j \<and> j < unat r - 1 \<longrightarrow> \<not> is_member bs ctx obj key j)"
        unfolding inc by blast
      have "\<forall>j. unat i \<le> j \<longrightarrow> j = unat i \<or> Suc (unat i) \<le> j" by auto
      with r False eval show ?thesis by (auto split: if_split_asm)
    qed
  qed
qed

section \<open>Contracts\<close>

lemma member_after_object:
  assumes "cj_parsed bs ctx" "obj < ctx_tokens_pos ctx" "member_at bs ctx obj key j"
  shows "unat obj < j"
proof -
  have j: "j < length (ctx_toks ctx)" "tok_parent (ctx_toks ctx ! j) = obj"
    using assms(3) by (auto simp: member_at_def)
  then obtain st where "chain (ctx_toks ctx) j obj st"
    using assms(1) by (auto simp: cj_parsed_def parsed_tokens_def)
  moreover have "obj \<noteq> CJ_INVALID_TOKEN_INDEX"
    using assms(2) below_size_valid by (simp add: word_less_nat_alt)
  ultimately show ?thesis by (cases st) auto
qed

lemma cj_value_ref_first:
  assumes parsed: "cj_parsed bs ctx" and key: "c_string mem key" and obj: "obj < ctx_tokens_pos ctx"
  shows "\<exists>r. cj_value_ref ctx obj (Some mem) = Some r \<and>
    (if r = CJ_INVALID_TOKEN_INDEX then \<forall>j. \<not> member_at bs ctx obj key j
     else \<exists>j. unat r = Suc (Suc j) \<and> member_at bs ctx obj key j \<and> (\<forall>j' < j. \<not> member_at bs ctx obj key j'))"
proof -
  note p = parsed_toks [OF parsed]
  have inc: "unat (obj + 1) = Suc (unat obj)" using obj by (rule unat_inc)
  obtain rest where mem: "mem = key @ 0 # rest" "0 \<notin> set key" using key by (auto simp: c_string_def)
  obtain r where r: "value_ref_loop ctx obj mem (of_nat (length key)) (obj + 1) = Some r"
    "if r = CJ_INVALID_TOKEN_INDEX then \<forall>j \<ge> Suc (unat obj). \<not> is_member bs ctx obj key j
     else Suc (unat obj) < unat r \<and> is_member bs ctx obj key (unat r - 1) \<and>
       (\<forall>j. Suc (unat obj) \<le> j \<and> j < unat r - 1 \<longrightarrow> \<not> is_member bs ctx obj key j)"
    using value_ref_loop_spec [OF parsed key, of "obj + 1" obj] obj unfolding inc by (auto simp: word_less_nat_alt)
  have run: "cj_value_ref ctx obj (Some mem) = Some r"
    using r(1) strlen_loop_spec [OF mem(2), of rest 0] obj p(2) by (auto simp: cj_value_ref_def mem(1))
  have member: "is_member bs ctx obj key (Suc j) \<and> Suc (unat obj) \<le> Suc j" if "member_at bs ctx obj key j" for j
    using that member_after_object [OF parsed obj that] by (auto simp: is_member_def member_at_def)
  show ?thesis
  proof (cases "r = CJ_INVALID_TOKEN_INDEX")
    case True
    with r(2) member run show ?thesis by auto
  next
    case False
    define j where "j = unat r - 2"
    have "is_member bs ctx obj key (unat r - 1)" using r(2) False by simp
    then have j: "unat r = Suc (Suc j)" "member_at bs ctx obj key j"
      by (auto simp: is_member_def j_def numeral_2_eq_2)
    have "\<not> member_at bs ctx obj key j'" if "j' < j" for j'
      using r(2) False member [of j'] that j(1) by auto
    with run False j show ?thesis by auto
  qed
qed

lemma copy_loop_spec:
  assumes "unat pos + unat len \<le> length bs" "unat pos + unat len < 2 ^ 32" "unat len \<le> length out" "unat i \<le> unat len"
  shows "copy_loop (Some bs) pos len out i =
    Some (take (unat i) out @ seg (unat pos + unat i) (unat len - unat i) bs @ drop (unat len) out)"
  using assms(3,4)
proof (induction "unat len - unat i" arbitrary: i out rule: less_induct)
  case less
  show ?case
  proof (cases "i < len")
    case False
    then have "i = len" using less.prems by (simp add: word_less_nat_alt word_unat_eq_iff)
    then show ?thesis by (subst copy_loop.simps) simp
  next
    case True
    then have i: "unat i < unat len" "unat (i + 1) = Suc (unat i)" by (simp_all add: word_less_nat_alt unat_inc)
    have pi: "unat (pos + i) = unat pos + unat i"
      using i(1) assms(2) by (simp add: unat_word_ariths)
    let ?out = "out[unat i := bs ! (unat pos + unat i)]"
    have "copy_loop (Some bs) pos len out i = copy_loop (Some bs) pos len ?out (i + 1)"
      using True i pi assms(1) less.prems by (subst copy_loop.simps) (simp add: wr_def)
    also have "\<dots> = Some (take (Suc (unat i)) ?out @ seg (unat pos + Suc (unat i)) (unat len - Suc (unat i)) bs @ drop (unat len) ?out)"
      using less.hyps [of "i + 1" ?out] i less.prems by simp
    also have "take (Suc (unat i)) ?out = take (unat i) out @ [bs ! (unat pos + unat i)]"
      using i less.prems by (simp add: take_Suc_conv_app_nth)
    also have "drop (unat len) ?out = drop (unat len) out"
      using i by simp
    also have "(take (unat i) out @ [bs ! (unat pos + unat i)]) @ seg (unat pos + Suc (unat i)) (unat len - Suc (unat i)) bs @ drop (unat len) out =
        take (unat i) out @ seg (unat pos + unat i) (unat len - unat i) bs @ drop (unat len) out"
      using seg_step [of "unat pos + unat i" "unat pos + unat len" bs] i assms(1) by simp
    finally show ?thesis .
  qed
qed

definition readable_ctx :: "u8 list \<Rightarrow> cj_token list \<Rightarrow> cj_ctx \<Rightarrow> bool" where
  "readable_ctx bs ts ctx \<longleftrightarrow> ctx_buf ctx = Some bs \<and> unat (ctx_size ctx) \<le> length bs \<and>
     ctx_tokens ctx = Some ts \<and> unat (ctx_tokens_pos ctx) \<le> length ts"

definition token_fits :: "cj_ctx \<Rightarrow> cj_token list \<Rightarrow> cj_size \<Rightarrow> cj_token_ref \<Rightarrow> bool" where
  "token_fits ctx ts sz ref \<longleftrightarrow> ref < ctx_tokens_pos ctx \<and> tok_len (ts ! unat ref) < sz \<and>
     unat (tok_pos (ts ! unat ref)) + unat (tok_len (ts ! unat ref)) \<le> unat (ctx_size ctx)"

lemma wr_end: "length xs = l \<Longrightarrow> l < length out \<Longrightarrow> wr (xs @ drop l out) l b = Some (xs @ b # drop (Suc l) out)"
  by (auto simp: wr_def list_update_append Cons_nth_drop_Suc [symmetric])

lemma copy_token_spec:
  assumes ctx: "readable_ctx bs ts ctx" and out: "unat sz \<le> length out"
  shows "copy_token ctx out sz ref =
    Some (if token_fits ctx ts sz ref
          then (True, token_text bs (ts ! unat ref) @ 0 # drop (Suc (unat (tok_len (ts ! unat ref)))) out)
          else (False, out))"
proof (cases "ref < ctx_tokens_pos ctx \<and> tok_len (ts ! unat ref) < sz")
  case False
  then show ?thesis using ctx
    by (auto simp: copy_token_def token_fits_def readable_ctx_def tok_at_def word_less_nat_alt)
next
  case True
  let ?t = "ts ! unat ref"
  let ?l = "unat (tok_len ?t)" and ?p = "unat (tok_pos ?t)"
  have at: "tok_at ctx ref = Some ?t" using True ctx by (simp add: tok_at_def readable_ctx_def word_less_nat_alt)
  have l: "?l < unat sz" using True by (simp add: word_less_nat_alt)
  have guard: "ctx_size ctx < tok_len ?t \<or> ctx_size ctx - tok_len ?t < tok_pos ?t \<longleftrightarrow> \<not> ?p + ?l \<le> unat (ctx_size ctx)"
  proof (cases "ctx_size ctx < tok_len ?t")
    case False
    then have "unat (ctx_size ctx - tok_len ?t) = unat (ctx_size ctx) - ?l" by (simp add: unat_sub)
    then show ?thesis using False by (auto simp: word_less_nat_alt)
  qed (auto simp: word_less_nat_alt)
  show ?thesis
  proof (cases "?p + ?l \<le> unat (ctx_size ctx)")
    case False
    then show ?thesis using True at guard by (auto simp: copy_token_def token_fits_def)
  next
    case fits: True
    have "copy_loop (Some bs) (tok_pos ?t) (tok_len ?t) out 0 = Some (seg ?p ?l bs @ drop ?l out)"
      using copy_loop_spec [of "tok_pos ?t" "tok_len ?t" bs out 0] fits ctx l out unat_u32_less [of "ctx_size ctx"]
      by (simp add: readable_ctx_def)
    moreover have "wr (seg ?p ?l bs @ drop ?l out) ?l 0 = Some (seg ?p ?l bs @ 0 # drop (Suc ?l) out)"
      by (rule wr_end) (use l out fits ctx in \<open>auto simp: readable_ctx_def\<close>)
    ultimately show ?thesis
      using True at guard fits ctx by (simp add: copy_token_def token_fits_def readable_ctx_def token_text_def)
  qed
qed


text \<open>C5: Looking up a key. In a context that \<open>cj_parse\<close> has filled with \<open>CJ_OK\<close>, \<open>cj_value_ref\<close>
  always returns, without reading outside of the input, the token array or the key; the result is the
  value behind the first name of the object \<open>obj\<close> that is equal to the key, and
  \<open>CJ_INVALID_TOKEN_INDEX\<close> only if the object has no such name.\<close>

theorem cj_value_ref_correct:
  assumes "cj_parsed bs ctx" "c_string mem key" "obj < ctx_tokens_pos ctx"
  shows "\<exists>r. cj_value_ref ctx obj (Some mem) = Some r \<and>
    (if r = CJ_INVALID_TOKEN_INDEX then \<forall>j. \<not> member_at bs ctx obj key j
     else \<exists>j. unat r = Suc (Suc j) \<and> member_at bs ctx obj key j \<and> (\<forall>j' < j. \<not> member_at bs ctx obj key j'))"
  using cj_value_ref_first [OF assms] .

lemma doc_parsed: "\<exists>ctx. cj_parse (init_ctx json_doc) = Some ctx \<and> cj_parsed json_doc ctx \<and>
    map erase (ctx_toks ctx) = map erase doc_tokens"
  using doc_accepted cj_parse_parsed [OF init_ctx_ready [of json_doc]] by (fastforce simp: json_doc_def)

lemma doc_tokens_pos:
  assumes "map erase (ctx_toks ctx) = map erase doc_tokens" "cj_parsed bs ctx"
  shows "0 < ctx_tokens_pos ctx"
proof -
  have "length (ctx_toks ctx) = 9" using map_eq_imp_length_eq [OF assms(1)] by (simp add: doc_tokens_def)
  then show ?thesis using parsed_toks(3) [OF assms(2)] by (simp add: word_less_nat_alt)
qed

theorem cj_value_ref_correct_witness:
  "\<exists>ctx r. cj_parsed json_doc ctx \<and> cj_value_ref ctx 0 (Some [C_a, 0]) = Some r"
proof -
  obtain ctx where ctx: "cj_parsed json_doc ctx" "map erase (ctx_toks ctx) = map erase doc_tokens"
    using doc_parsed by blast
  have "c_string [C_a, 0] [C_a]" by (simp add: c_string_def)
  with cj_value_ref_correct [OF ctx(1) this doc_tokens_pos [OF ctx(2,1)]] ctx(1) show ?thesis by blast
qed

text \<open>C6: Copying a token is memory safe for any token array, parsed or not: nothing is read or written
  out of bounds, and the buffer ends up NUL terminated, with the bytes of the token if it fits into
  the buffer and lies in the input, and empty with result 0 otherwise.\<close>

theorem cj_copy_ref_correct:
  assumes "readable_ctx bs ts ctx" "0 < sz" "unat sz \<le> length out"
  shows "cj_copy_ref ctx (Some out) sz ref =
    Some (if token_fits ctx ts sz ref
          then (True, Some (token_text bs (ts ! unat ref) @ 0 # drop (Suc (unat (tok_len (ts ! unat ref)))) out))
          else (False, Some (0 # tl out)))"
proof -
  obtain c cs where out: "out = c # cs" using assms(2,3) by (cases out) (auto simp: word_less_nat_alt)
  have "copy_token ctx (0 # cs) sz ref =
    Some (if token_fits ctx ts sz ref
          then (True, token_text bs (ts ! unat ref) @ 0 # drop (Suc (unat (tok_len (ts ! unat ref)))) (0 # cs))
          else (False, 0 # cs))"
    by (rule copy_token_spec [OF assms(1)]) (use assms(3) out in simp)
  then show ?thesis using assms(2) by (auto simp: cj_copy_ref_def out wr_def)
qed

theorem cj_copy_ref_correct_witness:
  "cj_copy_ref (blank_ctx\<lparr>ctx_buf := Some [C_t, C_r, C_u, C_e], ctx_size := 4, ctx_tokens := Some [tk CJ_TOKEN_PRIMITIVE 0 4],
      ctx_tokens_pos := 1\<rparr>) (Some [C_a, C_a, C_a, C_a, C_a, C_a]) 6 0 = Some (True, Some [C_t, C_r, C_u, C_e, 0, C_a])"
  by (subst cj_copy_ref_correct [where bs = "[C_t, C_r, C_u, C_e]" and ts = "[tk CJ_TOKEN_PRIMITIVE 0 4]"])
    (simp_all add: readable_ctx_def token_fits_def token_text_def tk_def seg_def)

text \<open>\<open>cj_copy_value\<close> is the lookup followed by the copy: it succeeds exactly if the object has a
  member with the key whose value fits, and then the buffer holds that value's bytes and a NUL.\<close>

theorem cj_copy_value_correct:
  assumes parsed: "cj_parsed bs ctx" and key: "c_string mem key" and obj: "obj < ctx_tokens_pos ctx"
    and out: "0 < sz" "unat sz \<le> length out"
  shows "\<exists>ok out'. cj_copy_value ctx (Some out) sz obj (Some mem) = Some (ok, Some out') \<and> length out' = length out \<and>
    (if ok then \<exists>j rest. member_at bs ctx obj key j \<and> (\<forall>j' < j. \<not> member_at bs ctx obj key j') \<and>
       unat (tok_len (ctx_toks ctx ! (j + 2))) < unat sz \<and> out' = token_text bs (ctx_toks ctx ! (j + 2)) @ 0 # rest
     else out' = 0 # tl out \<and> (\<forall>j. member_at bs ctx obj key j \<and> (\<forall>j' < j. \<not> member_at bs ctx obj key j') \<longrightarrow>
       unat sz \<le> unat (tok_len (ctx_toks ctx ! (j + 2)))))"
proof -
  note p = parsed_toks [OF parsed]
  obtain ts where ts: "ctx_tokens ctx = Some ts" "unat (ctx_tokens_pos ctx) \<le> length ts"
    using parsed by (auto simp: cj_parsed_def parsed_tokens_def)
  have ctx: "readable_ctx bs ts ctx" using p(1,6) ts by (simp add: readable_ctx_def)
  have nth: "ctx_toks ctx ! j = ts ! j" if "j < unat (ctx_tokens_pos ctx)" for j
    using that ts by (simp add: ctx_toks_def)
  obtain r where run: "cj_value_ref ctx obj (Some mem) = Some r" and r: "if r = CJ_INVALID_TOKEN_INDEX then \<forall>j. \<not> member_at bs ctx obj key j
     else \<exists>j. unat r = Suc (Suc j) \<and> member_at bs ctx obj key j \<and> (\<forall>j' < j. \<not> member_at bs ctx obj key j')"
    using cj_value_ref_first [OF parsed key obj] by blast
  obtain c cs where cs: "out = c # cs" using out by (cases out) (auto simp: word_less_nat_alt)
  have sz: "unat sz \<le> length (0 # cs)" using out(2) cs by simp
  note copy = copy_token_spec [OF ctx sz, of r]
  have eq: "cj_copy_value ctx (Some out) sz obj (Some mem) =
      (case copy_token ctx (0 # cs) sz r of None \<Rightarrow> None | Some (ok, out) \<Rightarrow> Some (ok, Some out))"
    using run out(1) by (auto simp: cj_copy_value_def cs wr_def split: option.splits)
  show ?thesis
  proof (cases "token_fits ctx ts sz r")
    case True
    then have "r \<noteq> CJ_INVALID_TOKEN_INDEX" using below_size_valid by (auto simp: token_fits_def word_less_nat_alt)
    with r obtain j where j: "unat r = Suc (Suc j)" "member_at bs ctx obj key j" "\<forall>j' < j. \<not> member_at bs ctx obj key j'"
      by auto
    let ?t = "ts ! unat r"
    have t: "ctx_toks ctx ! (j + 2) = ?t" using nth [of "unat r"] True j(1) by (simp add: token_fits_def word_less_nat_alt)
    have len: "unat (tok_len ?t) < unat sz" using True by (simp add: token_fits_def word_less_nat_alt)
    have "unat (tok_pos ?t) + unat (tok_len ?t) \<le> length bs" using True p(6) by (simp add: token_fits_def)
    then have "length (token_text bs ?t) = unat (tok_len ?t)" by (simp add: token_text_def)
    moreover define rest where "rest = drop (Suc (unat (tok_len ?t))) (0 # cs)"
    moreover have "cj_copy_value ctx (Some out) sz obj (Some mem) = Some (True, Some (token_text bs ?t @ 0 # rest))"
      using True eq copy by (simp add: rest_def)
    ultimately show ?thesis
      using j(2,3) t len sz cs
      by (intro exI [of _ True] exI [of _ "token_text bs ?t @ 0 # rest"]) auto
  next
    case False
    have "unat sz \<le> unat (tok_len (ctx_toks ctx ! (j + 2)))"
      if j: "member_at bs ctx obj key j" "\<forall>j' < j. \<not> member_at bs ctx obj key j'" for j
    proof -
      have "r \<noteq> CJ_INVALID_TOKEN_INDEX" using r j(1) by auto
      with r obtain i where i: "unat r = Suc (Suc i)" "member_at bs ctx obj key i" "\<forall>j' < i. \<not> member_at bs ctx obj key j'"
        by auto
      with j have "i = j" by (metis nat_neq_iff)
      then have "unat r < unat (ctx_tokens_pos ctx)" using i(1,2) p(3) by (simp add: member_at_def)
      then show ?thesis
        using False nth p(5) [of "unat r"] p(3) i(1) \<open>i = j\<close> by (auto simp: token_fits_def word_less_nat_alt)
    qed
    then show ?thesis using False eq copy cs by auto
  qed
qed

theorem cj_copy_value_correct_witness:
  "\<exists>ctx ok out'. cj_parsed json_doc ctx \<and> cj_copy_value ctx (Some [1, 1, 1, 1]) 4 0 (Some [C_a, 0]) = Some (ok, Some out') \<and>
     length out' = 4"
proof -
  obtain ctx where ctx: "cj_parsed json_doc ctx" "map erase (ctx_toks ctx) = map erase doc_tokens"
    using doc_parsed by blast
  have "c_string [C_a, 0] [C_a]" by (simp add: c_string_def)
  from cj_copy_value_correct [OF ctx(1) this doc_tokens_pos [OF ctx(2,1)], of 4 "[1, 1, 1, 1]"] ctx(1)
  show ?thesis by auto
qed

end
