(* ===== verification/CJ_Copy_Utf8.thy ===== *)
theory CJ_Copy_Utf8
  imports CJ_Value
begin

text \<open>
  \<open>cj_copy_ref_utf8\<close> of \<^verbatim>\<open>cj/extra/cj_copy_ref_utf8.c\<close>: copying a string token into a buffer with its
  escapes resolved. The scan over the bytes of the token is a state machine; its variables are the
  record below, \<open>uc_wr\<close> is the offset of the write pointer into the buffer.
\<close>

section \<open>The state machine\<close>

datatype cj_unicode_state =
    CJ_UC_STATE_NONE
  | CJ_UC_STATE_ESC
  | CJ_UC_STATE_NUM0
  | CJ_UC_STATE_NUM1
  | CJ_UC_STATE_NUM2
  | CJ_UC_STATE_NUM3
  | CJ_UC_STATE_CHK_NUM

record uc_vars =
  uc_out :: "u8 list"
  uc_wr :: nat
  uc_state :: cj_unicode_state
  uc_num0 :: u64
  uc_need :: bool
  uc_high :: u64

text \<open>\<^verbatim>\<open>*wr++ = c\<close>\<close>

definition uc_put :: "u8 \<Rightarrow> uc_vars \<Rightarrow> uc_vars option" where
  "uc_put c u = do {
     out \<leftarrow> wr (uc_out u) (uc_wr u) c;
     Some (u\<lparr>uc_out := out, uc_wr := uc_wr u + 1\<rparr>) }"

definition uc_escape :: "u8 \<Rightarrow> u8 option" where
  "uc_escape c =
     (if c = C_n then Some C_LF
      else if c = C_QUOTE then Some C_QUOTE
      else if c = C_BACKSLASH then Some C_BACKSLASH
      else if c = C_t then Some C_TAB
      else if c = C_SLASH then Some C_SLASH
      else if c = C_r then Some C_r
      else if c = C_b then Some C_b
      else if c = C_f then Some C_f
      else None)"

definition uc_hex_digit :: "u8 \<Rightarrow> u64 option" where
  "uc_hex_digit c =
     (if C_a \<le> c \<and> c \<le> C_f then Some (u64_of c - 0x61 + 10)
      else if C_A \<le> c \<and> c \<le> C_F then Some (u64_of c - 0x41 + 10)
      else if C_0 \<le> c \<and> c \<le> C_9 then Some (u64_of c - 0x30)
      else None)"

fun uc_next :: "cj_unicode_state \<Rightarrow> cj_unicode_state" where
  "uc_next CJ_UC_STATE_NUM0 = CJ_UC_STATE_NUM1"
| "uc_next CJ_UC_STATE_NUM1 = CJ_UC_STATE_NUM2"
| "uc_next CJ_UC_STATE_NUM2 = CJ_UC_STATE_NUM3"
| "uc_next _ = CJ_UC_STATE_CHK_NUM"

text \<open>
  The four digits are complete: surrogates, and the encoder. \<open>peek k\<close> is the byte \<open>k\<close> behind the
  read pointer, \<open>left\<close> is \<^verbatim>\<open>tok->len - i\<close>. The left result is the buffer on the way to \<^verbatim>\<open>err\<close>.
\<close>

definition uc_surrogate :: "(nat \<Rightarrow> u8 option) \<Rightarrow> u32 \<Rightarrow> uc_vars \<Rightarrow> (u8 list + uc_vars) option" where
  "uc_surrogate peek left u =
     (if \<not> uc_need u then
        (if 0xDC00 \<le> uc_num0 u \<and> uc_num0 u \<le> 0xDFFF then Some (Inl (uc_out u))
         else if 0xD800 \<le> uc_num0 u \<and> uc_num0 u \<le> 0xDBFF then
           (let u = u\<lparr>uc_need := True, uc_high := (uc_num0 u - 0xD800) * 0x400\<rparr> in
            if left < 6 then Some (Inl (uc_out u))
            else do {
              c1 \<leftarrow> peek 1;
              if c1 \<noteq> C_BACKSLASH then Some (Inl (uc_out u))
              else do {
                c2 \<leftarrow> peek 2;
                if c2 \<noteq> C_u then Some (Inl (uc_out u)) else Some (Inr u) } })
         else Some (Inr u))
      else if uc_num0 u < 0xDC00 \<or> uc_num0 u > 0xDFFF then Some (Inl (uc_out u))
      else Some (Inr (u\<lparr>uc_num0 := uc_high u + (uc_num0 u - 0xDC00) + 0x10000, uc_need := False\<rparr>)))"

definition uc_encode :: "u32 \<Rightarrow> uc_vars \<Rightarrow> (u8 list + uc_vars) option" where
  "uc_encode sz u =
     (if \<not> uc_need u then do {
        (n, bytes) \<leftarrow> cj_unicode_to_utf8 (uc_num0 u) (drop (uc_wr u) (uc_out u)) (of_nat (unat sz - uc_wr u));
        let u = u\<lparr>uc_out := take (uc_wr u) (uc_out u) @ bytes\<rparr>;
        if n = 0 then Some (Inl (uc_out u)) else Some (Inr (u\<lparr>uc_wr := uc_wr u + n\<rparr>)) }
      else Some (Inr u))"

definition uc_check :: "(nat \<Rightarrow> u8 option) \<Rightarrow> u32 \<Rightarrow> u32 \<Rightarrow> uc_vars \<Rightarrow> (u8 list + uc_vars) option" where
  "uc_check peek left sz u =
     stage (uc_surrogate peek left u)
       (\<lambda>u. stage (uc_encode sz u)
          (\<lambda>u. Some (Inr (u\<lparr>uc_num0 := 0, uc_state := CJ_UC_STATE_NONE\<rparr>))))"

text \<open>One iteration of the for loop.\<close>

definition uc_step :: "(nat \<Rightarrow> u8 option) \<Rightarrow> u32 \<Rightarrow> u32 \<Rightarrow> uc_vars \<Rightarrow> (u8 list + uc_vars) option" where
  "uc_step peek left sz u =
     (if uc_wr u + 1 = unat sz then Some (Inl (uc_out u))
      else do {
        c \<leftarrow> peek 0;
        case uc_state u of
          CJ_UC_STATE_NONE \<Rightarrow>
            if c = C_BACKSLASH then Some (Inr (u\<lparr>uc_state := CJ_UC_STATE_ESC\<rparr>))
            else map_option Inr (uc_put c u)
        | CJ_UC_STATE_ESC \<Rightarrow>
            if c = C_u then
              (if left < 5 then Some (Inl (uc_out u)) else Some (Inr (u\<lparr>uc_state := CJ_UC_STATE_NUM0\<rparr>)))
            else
              (case uc_escape c of
                 None \<Rightarrow> Some (Inl (uc_out u))
               | Some e \<Rightarrow> do {
                   u \<leftarrow> uc_put e u;
                   Some (Inr (u\<lparr>uc_state := CJ_UC_STATE_NONE\<rparr>)) })
        | CJ_UC_STATE_CHK_NUM \<Rightarrow> uc_check peek left sz u
        | _ \<Rightarrow>
            (case uc_hex_digit c of
               None \<Rightarrow> Some (Inl (uc_out u))
             | Some d \<Rightarrow>
                 let u = u\<lparr>uc_num0 := push_bit 4 (uc_num0 u) OR d, uc_state := uc_next (uc_state u)\<rparr> in
                 if uc_state u \<noteq> CJ_UC_STATE_CHK_NUM then Some (Inr u) else uc_check peek left sz u) })"

function uc_loop :: "cmem \<Rightarrow> nat \<Rightarrow> u32 \<Rightarrow> u32 \<Rightarrow> u32 \<Rightarrow> uc_vars \<Rightarrow> (u8 list + uc_vars) option" where
  "uc_loop buf pos len sz i u =
     (if i < len then
        (case uc_step (\<lambda>k. rd buf (pos + unat i + k)) (len - i) sz u of
           None \<Rightarrow> None
         | Some (Inl out) \<Rightarrow> Some (Inl out)
         | Some (Inr u) \<Rightarrow> uc_loop buf pos len sz (i + 1) u)
      else Some (Inr u))"
  by pat_completeness auto

termination uc_loop
  by (relation "measure (\<lambda>(buf, pos, len, sz, i, u). unat len - unat i)") (auto simp: unat_inc word_less_nat_alt)

declare uc_loop.simps [simp del]

definition uc_init :: "u8 list \<Rightarrow> uc_vars" where
  "uc_init out = \<lparr>uc_out = out, uc_wr = 0, uc_state = CJ_UC_STATE_NONE, uc_num0 = 0, uc_need = False, uc_high = 0\<rparr>"

definition cj_copy_ref_utf8 :: "cj_ctx \<Rightarrow> cmem \<Rightarrow> cj_size \<Rightarrow> cj_token_ref \<Rightarrow> (bool \<times> cmem) option" where
  "cj_copy_ref_utf8 ctx buf sz ref =
     (case buf of
        None \<Rightarrow> Some (False, buf)
      | Some out \<Rightarrow>
          if sz = 0 then Some (False, buf)
          else do {
            out \<leftarrow> wr out 0 0;
            if ref < ctx_tokens_pos ctx then do {
              tok \<leftarrow> tok_at ctx ref;
              if tok_type tok \<noteq> CJ_TOKEN_STRING then cj_copy_ref ctx (Some out) sz ref
              else if ctx_size ctx < tok_len tok then Some (False, Some out)
              else if ctx_size ctx - tok_len tok < tok_pos tok then Some (False, Some out)
              else do {
                r \<leftarrow> uc_loop (ctx_buf ctx) (unat (tok_pos tok)) (tok_len tok) sz 0 (uc_init out);
                (case r of
                   Inl out \<Rightarrow> do { out \<leftarrow> wr out 0 0; Some (False, Some out) }
                 | Inr u \<Rightarrow> do {
                     out \<leftarrow> (if uc_wr u < unat sz then wr (uc_out u) (uc_wr u) 0 else Some (uc_out u));
                     if uc_state u \<noteq> CJ_UC_STATE_NONE then do { out \<leftarrow> wr out 0 0; Some (False, Some out) }
                     else Some (True, Some out) }) } }
            else do { out \<leftarrow> wr out 0 0; Some (False, Some out) } })"

section \<open>What the copy should be\<close>

definition hex_val :: "u8 \<Rightarrow> nat" where
  "hex_val c = (if C_a \<le> c \<and> c \<le> C_f then unat c - 87 else if C_A \<le> c \<and> c \<le> C_F then unat c - 55 else unat c - 48)"

definition hex4 :: "u8 list \<Rightarrow> nat option" where
  "hex4 cs = (if 4 \<le> length cs \<and> list_all is_hex_digit (take 4 cs)
     then Some (((hex_val (cs ! 0) * 16 + hex_val (cs ! 1)) * 16 + hex_val (cs ! 2)) * 16 + hex_val (cs ! 3)) else None)"

abbreviation is_high_surrogate :: "nat \<Rightarrow> bool" where
  "is_high_surrogate n \<equiv> 0xD800 \<le> n \<and> n \<le> 0xDBFF"

abbreviation is_low_surrogate :: "nat \<Rightarrow> bool" where
  "is_low_surrogate n \<equiv> 0xDC00 \<le> n \<and> n \<le> 0xDFFF"

text \<open>One escape sequence (without its backslash): the bytes it stands for and what follows it.\<close>

definition unescape_one :: "u8 list \<Rightarrow> (u8 list \<times> u8 list) option" where
  "unescape_one cs =
     (case cs of
        [] \<Rightarrow> None
      | e # ds \<Rightarrow>
          if e \<noteq> C_u then map_option (\<lambda>b. ([b], ds)) (uc_escape e)
          else (case hex4 ds of
             None \<Rightarrow> None
           | Some n \<Rightarrow>
               if is_low_surrogate n then None
               else if is_high_surrogate n then
                 (case drop 4 ds of
                    b # u # es \<Rightarrow>
                      if b = C_BACKSLASH \<and> u = C_u then
                        (case hex4 es of
                           None \<Rightarrow> None
                         | Some l \<Rightarrow>
                             if is_low_surrogate l then Some (utf8_enc ((n - 0xD800) * 0x400 + (l - 0xDC00) + 0x10000), drop 4 es)
                             else None)
                      else None
                  | _ \<Rightarrow> None)
               else Some (utf8_enc n, drop 4 ds)))"

lemma unescape_one_shorter: "unescape_one cs = Some (s, rest) \<Longrightarrow> length rest < length cs"
  by (auto simp: unescape_one_def split: list.splits if_split_asm option.splits dest!: arg_cong [of "drop 4 _" _ length])

function json_unescape :: "u8 list \<Rightarrow> u8 list option" where
  "json_unescape [] = Some []"
| "json_unescape (c # cs) =
     (if c \<noteq> C_BACKSLASH then map_option (Cons c) (json_unescape cs)
      else (case unescape_one cs of
         None \<Rightarrow> None
       | Some (s, rest) \<Rightarrow> map_option ((@) s) (json_unescape rest)))"
  by pat_completeness auto

termination json_unescape
  by (relation "measure length") (auto dest: unescape_one_shorter)

section \<open>The scan over a list of bytes\<close>

definition nth_opt :: "'a list \<Rightarrow> nat \<Rightarrow> 'a option" where
  "nth_opt xs k = (if k < length xs then Some (xs ! k) else None)"

lemma nth_opt_simps [simp]: "nth_opt (c # cs) 0 = Some c" "nth_opt (c # cs) (Suc k) = nth_opt cs k" "nth_opt [] k = None"
  by (auto simp: nth_opt_def)

fun uc_run :: "u32 \<Rightarrow> u8 list \<Rightarrow> uc_vars \<Rightarrow> (u8 list + uc_vars) option" where
  "uc_run sz [] u = Some (Inr u)"
| "uc_run sz (c # cs) u =
     (case uc_step (nth_opt (c # cs)) (of_nat (length (c # cs))) sz u of
        None \<Rightarrow> None
      | Some (Inl out) \<Rightarrow> Some (Inl out)
      | Some (Inr u) \<Rightarrow> uc_run sz cs u)"

lemma uc_step_cong:
  assumes "peek 0 = peek' 0" "6 \<le> left \<Longrightarrow> peek 1 = peek' 1 \<and> peek 2 = peek' 2"
  shows "uc_step peek left sz u = uc_step peek' left sz u"
proof -
  have "uc_surrogate peek left u = uc_surrogate peek' left u" for u
  proof (cases "left < 6")
    case True
    then show ?thesis by (simp add: uc_surrogate_def)
  next
    case False
    then have eqs: "peek 1 = peek' 1" "peek 2 = peek' 2" using assms(2) by auto
    show ?thesis unfolding uc_surrogate_def eqs ..
  qed
  then have "uc_check peek left sz u = uc_check peek' left sz u" for u by (simp add: uc_check_def)
  then have eqs: "uc_check peek left sz = uc_check peek' left sz" by (simp add: fun_eq_iff)
  show ?thesis unfolding uc_step_def eqs assms(1) ..
qed

lemma uc_run_Cons:
  "cs = c # ds \<Longrightarrow> uc_run sz cs u =
     (case uc_step (nth_opt cs) (of_nat (length cs)) sz u of
        None \<Rightarrow> None
      | Some (Inl out) \<Rightarrow> Some (Inl out)
      | Some (Inr u) \<Rightarrow> uc_run sz ds u)"
  by (simp only: uc_run.simps)

lemma uc_loop_run:
  assumes "pos + unat len \<le> length bs" "unat i \<le> unat len"
  shows "uc_loop (Some bs) pos len sz i u = uc_run sz (seg (pos + unat i) (unat len - unat i) bs) u"
  using assms(2)
proof (induction "unat len - unat i" arbitrary: i u rule: less_induct)
  case less
  show ?case
  proof (cases "i < len")
    case False
    then have "unat i = unat len" using less.prems by (simp add: word_less_nat_alt)
    then show ?thesis using False by (subst uc_loop.simps) simp
  next
    case True
    then have i: "unat i < unat len" "unat (i + 1) = Suc (unat i)" by (simp_all add: word_less_nat_alt unat_inc)
    let ?cs = "seg (pos + unat i) (unat len - unat i) bs"
    have cs: "?cs = bs ! (pos + unat i) # seg (pos + unat (i + 1)) (unat len - unat (i + 1)) bs"
      using seg_step [of "pos + unat i" "pos + unat len" bs] i assms(1) by simp
    have ulen: "unat (len - i) = unat len - unat i" using True by (simp add: unat_sub order_less_imp_le)
    have "length ?cs = unat (len - i)" using i assms(1) by (simp add: ulen)
    then have left: "of_nat (length ?cs) = len - i" by (simp only: of_nat_unat ucast_id)
    have peek: "rd (Some bs) (pos + unat i + k) = nth_opt ?cs k" if "k < unat len - unat i" for k
      using that assms(1) by (simp add: nth_opt_def nth_seg)
    have step: "uc_step (\<lambda>k. rd (Some bs) (pos + unat i + k)) (len - i) sz u = uc_step (nth_opt ?cs) (len - i) sz u"
    proof (rule uc_step_cong)
      show "rd (Some bs) (pos + unat i + 0) = nth_opt ?cs 0" using peek [of 0] i by simp
      assume "6 \<le> len - i"
      then have "6 \<le> unat len - unat i" by (simp add: word_le_nat_alt ulen)
      then show "rd (Some bs) (pos + unat i + 1) = nth_opt ?cs 1 \<and> rd (Some bs) (pos + unat i + 2) = nth_opt ?cs 2"
        using peek [of 1] peek [of 2] by (simp add: add.assoc)
    qed
    have IH: "uc_loop (Some bs) pos len sz (i + 1) v = uc_run sz (seg (pos + unat (i + 1)) (unat len - unat (i + 1)) bs) v" for v
      using less.hyps [of "i + 1"] i by simp
    have "uc_loop (Some bs) pos len sz i u =
      (case uc_step (nth_opt ?cs) (of_nat (length ?cs)) sz u of None \<Rightarrow> None | Some (Inl out) \<Rightarrow> Some (Inl out)
        | Some (Inr v) \<Rightarrow> uc_run sz (seg (pos + unat (i + 1)) (unat len - unat (i + 1)) bs) v)"
      using True step IH left by (subst uc_loop.simps) (simp split: option.split sum.split)
    then show ?thesis by (simp only: uc_run_Cons [OF cs])
  qed
qed


section \<open>What the scan computes\<close>

lemma uc_hex_digit_val: "uc_hex_digit c = (if is_hex_digit c then Some (of_nat (hex_val c)) else None)"
proof -
  have u: "u64_of c = of_nat (unat c)" by simp
  have "87 \<le> unat c \<Longrightarrow> (of_nat (unat c - 87) :: u64) = of_nat (unat c) - 97 + 10" by (simp add: of_nat_diff)
  moreover have "55 \<le> unat c \<Longrightarrow> (of_nat (unat c - 55) :: u64) = of_nat (unat c) - 65 + 10" by (simp add: of_nat_diff)
  moreover have "48 \<le> unat c \<Longrightarrow> (of_nat (unat c - 48) :: u64) = of_nat (unat c) - 48" by (simp add: of_nat_diff)
  ultimately show ?thesis
    unfolding uc_hex_digit_def hex_val_def is_hex_digit_def is_digit_def u
    by (auto simp: word_le_nat_alt simp del: of_nat_unat)
qed

lemma hex_val_less: "hex_val c < 16" if "is_hex_digit c"
  using that by (auto simp: hex_val_def is_hex_digit_def is_digit_def word_le_nat_alt)

lemma shift_or: "push_bit 4 (of_nat x) OR of_nat d = (of_nat (x * 16 + d) :: u64)" if "d < 16"
proof -
  have "push_bit 4 (of_nat x) AND of_nat d = (0 :: u64)"
  proof (rule bit_word_eqI)
    fix n
    have "\<not> bit d n" if "4 \<le> n"
    proof -
      have "(2::nat) ^ 4 \<le> 2 ^ n" using that by (intro power_increasing) auto
      then have "d < 2 ^ n" using \<open>d < 16\<close> by simp
      then show ?thesis by (simp add: bit_iff_odd)
    qed
    then show "bit (push_bit 4 (of_nat x) AND of_nat d :: u64) n = bit (0 :: u64) n"
      by (auto simp: bit_simps)
  qed
  then have "push_bit 4 (of_nat x) OR of_nat d = (push_bit 4 (of_nat x) + of_nat d :: u64)"
    by (simp only: disjunctive_add_eq_or)
  then show ?thesis by (simp add: push_bit_eq_mult)
qed

lemma uc_step_hex:
  assumes "uc_state u \<in> {CJ_UC_STATE_NUM0, CJ_UC_STATE_NUM1, CJ_UC_STATE_NUM2, CJ_UC_STATE_NUM3}" "uc_num0 u = of_nat x"
    and "uc_wr u + 1 \<noteq> unat sz"
  shows "uc_step (nth_opt (c # cs)) left sz u =
    (if is_hex_digit c then
       (let u = u\<lparr>uc_num0 := of_nat (x * 16 + hex_val c), uc_state := uc_next (uc_state u)\<rparr> in
        if uc_state u \<noteq> CJ_UC_STATE_CHK_NUM then Some (Inr u) else uc_check (nth_opt (c # cs)) left sz u)
     else Some (Inl (uc_out u)))"
  using assms shift_or [OF hex_val_less, of c x] by (auto simp: uc_step_def uc_hex_digit_val Let_def)

text \<open>Four digits of an escape are read at once.\<close>

lemma uc_run_hex4:
  assumes "uc_state u = CJ_UC_STATE_NUM0" "uc_num0 u = 0" "uc_wr u + 1 \<noteq> unat sz"
  shows "uc_run sz (a # b # c # d # cs) u =
    (case hex4 (a # b # c # d # cs) of
       None \<Rightarrow> Some (Inl (uc_out u))
     | Some n \<Rightarrow>
         (case uc_check (nth_opt (d # cs)) (of_nat (length (d # cs))) sz (u\<lparr>uc_num0 := of_nat n, uc_state := CJ_UC_STATE_CHK_NUM\<rparr>) of
            None \<Rightarrow> None | Some (Inl out) \<Rightarrow> Some (Inl out) | Some (Inr u) \<Rightarrow> uc_run sz cs u))"
proof -
  have [simp]: "uc_num0 u = of_nat 0" "of_nat 0 = (0::u64)" using assms by simp_all
  show ?thesis
    using assms
    by (simp add: uc_step_hex [where x = 0] uc_step_hex [where x = "hex_val a"]
      uc_step_hex [where x = "hex_val a * 16 + hex_val b"]
      uc_step_hex [where x = "(hex_val a * 16 + hex_val b) * 16 + hex_val c"] hex4_def Let_def del: of_nat_add of_nat_mult of_nat_0 uc_run.simps(1))
qed


text \<open>The scan is between two characters, with \<open>w\<close> bytes written.\<close>

definition uc_idle :: "u32 \<Rightarrow> u8 list \<Rightarrow> uc_vars \<Rightarrow> bool" where
  "uc_idle sz s u \<longleftrightarrow> uc_state u = CJ_UC_STATE_NONE \<and> \<not> uc_need u \<and> uc_num0 u = 0 \<and>
     take (uc_wr u) (uc_out u) = s \<and> length s = uc_wr u \<and> uc_wr u < unat sz \<and> unat sz \<le> length (uc_out u)"

definition uc_outcome :: "u32 \<Rightarrow> nat \<Rightarrow> u8 list option \<Rightarrow> (u8 list + uc_vars) option \<Rightarrow> bool" where
  "uc_outcome sz N res r \<longleftrightarrow>
     (\<exists>v. r = Some v \<and>
       (case v of
          Inl out \<Rightarrow> length out = N \<and> (\<forall>s. res = Some s \<longrightarrow> unat sz \<le> length s)
        | Inr u \<Rightarrow> length (uc_out u) = N \<and> uc_wr u < unat sz \<and>
            (if uc_state u = CJ_UC_STATE_NONE then res = Some (take (uc_wr u) (uc_out u)) else res = None)))"

lemma uc_outcome_Inl [simp]: "uc_outcome sz N res (Some (Inl out)) \<longleftrightarrow> length out = N \<and> (\<forall>s. res = Some s \<longrightarrow> unat sz \<le> length s)"
  by (simp add: uc_outcome_def)

lemma wr_Some: "i < length xs \<Longrightarrow> wr xs i c = Some (xs[i := c])"
  by (simp add: wr_def)

lemma uc_idle_put:
  assumes "uc_idle sz s u" "uc_wr u + 1 \<noteq> unat sz"
  shows "\<exists>v. uc_put c u = Some v \<and> uc_idle sz (s @ [c]) v \<and> length (uc_out v) = length (uc_out u)"
  using assms by (auto simp: uc_put_def uc_idle_def wr_Some take_Suc_conv_app_nth)

lemma unescape_one_ne: "unescape_one cs = Some (t, rest) \<Longrightarrow> t \<noteq> []"
  by (auto simp: unescape_one_def split: list.splits if_split_asm option.splits)

lemma json_unescape_ne: "json_unescape (c # cs) = Some t \<Longrightarrow> t \<noteq> []"
  by (auto split: if_split_asm option.splits prod.splits dest: unescape_one_ne)

lemma uc_esc_u:
  assumes "uc_state u = CJ_UC_STATE_ESC" "uc_num0 u = 0" "uc_wr u + 1 \<noteq> unat sz" "length ds < 2 ^ 32 - 1"
  shows "uc_run sz (C_u # ds) u =
    (case hex4 ds of
       None \<Rightarrow> Some (Inl (uc_out u))
     | Some n \<Rightarrow>
         (case uc_check (nth_opt (drop 3 ds)) (of_nat (length (drop 3 ds))) sz (u\<lparr>uc_num0 := of_nat n, uc_state := CJ_UC_STATE_CHK_NUM\<rparr>) of
            None \<Rightarrow> None | Some (Inl out) \<Rightarrow> Some (Inl out) | Some (Inr u) \<Rightarrow> uc_run sz (drop 4 ds) u))"
proof -
  have left: "(of_nat (length (C_u # ds)) :: u32) < 5 \<longleftrightarrow> length ds < 4"
    using assms(4) by (simp add: word_less_nat_alt unat_of_nat del: of_nat_Suc)
  have step: "uc_step (nth_opt (C_u # ds)) (of_nat (length (C_u # ds))) sz u =
      (if length ds < 4 then Some (Inl (uc_out u)) else Some (Inr (u\<lparr>uc_state := CJ_UC_STATE_NUM0\<rparr>)))"
    using assms(1,3) by (simp add: uc_step_def left [simplified])
  show ?thesis
  proof (cases "length ds < 4")
    case True
    then show ?thesis using step by (simp add: hex4_def)
  next
    case False
    then obtain a b c d es where ds: "ds = a # b # c # d # es"
      by (metis Suc_le_length_iff not_less numeral_nat(2) numeral_2_eq_2 numeral_3_eq_3 eval_nat_numeral(2) le_numeral_extra(3) Suc_numeral semiring_norm(2) semiring_norm(8))
    have "uc_run sz (C_u # ds) u = uc_run sz ds (u\<lparr>uc_state := CJ_UC_STATE_NUM0\<rparr>)"
      using step False by simp
    moreover have "drop 3 ds = d # es" "drop 4 ds = es" by (simp_all add: ds)
    ultimately show ?thesis using assms
      by (simp only:) (simp add: ds uc_run_hex4 del: uc_run.simps cong: option.case_cong)
  qed
qed

declare uc_run.simps(2) [simp del]

text \<open>The encoder at the end of an escape.\<close>

lemma uc_encode_spec:
  assumes "take (uc_wr u) (uc_out u) = s" "length s = uc_wr u" "uc_wr u < unat sz" "unat sz \<le> length (uc_out u)" "\<not> uc_need u"
    and "uc_num0 u = of_nat n" "n \<le> 0x10FFFF"
  shows "\<exists>r. uc_encode sz u = Some r \<and>
     (case r of Inl out \<Rightarrow> length out = length (uc_out u) \<and> unat sz \<le> length (s @ utf8_enc n)
       | Inr v \<Rightarrow> length (uc_out v) = length (uc_out u) \<and>
           take (uc_wr v) (uc_out v) = s @ utf8_enc n \<and> length (s @ utf8_enc n) = uc_wr v \<and> uc_wr v < unat sz \<and> \<not> uc_need v)"
proof -
  have c: "(if of_nat n > (0x10FFFF :: u64) then 0xFFFD else unat (of_nat n :: u64)) = n"
    using assms(7) by (simp add: word_less_nat_alt unat_of_nat)
  have sz: "unat (of_nat (unat sz - uc_wr u) :: u32) = unat sz - uc_wr u"
    using unat_u32_less [of sz] by (simp add: unat_of_nat)
  have enc: "cj_unicode_to_utf8 (of_nat n) (drop (uc_wr u) (uc_out u)) (of_nat (unat sz - uc_wr u)) =
     Some (if length (utf8_enc n) < unat sz - uc_wr u
        then (length (utf8_enc n), utf8_enc n @ 0 # drop (Suc (length (utf8_enc n))) (drop (uc_wr u) (uc_out u)))
        else (0, drop (uc_wr u) (uc_out u)))"
    using cj_unicode_to_utf8_spec [of "of_nat (unat sz - uc_wr u)" "drop (uc_wr u) (uc_out u)" "of_nat n"]
    using assms(3,4) unfolding c sz by simp
  show ?thesis
  proof (cases "length (utf8_enc n) < unat sz - uc_wr u")
    case True
    then show ?thesis using assms unfolding uc_encode_def assms(6) enc by (auto simp: Let_def)
  next
    case False
    then show ?thesis using assms unfolding uc_encode_def assms(6) enc by (auto simp: Let_def)
  qed
qed

lemma uc_check_enc:
  assumes "uc_surrogate peek left u = Some (Inr v)"
    and "take (uc_wr v) (uc_out v) = s" "length s = uc_wr v" "uc_wr v < unat sz" "unat sz \<le> length (uc_out v)" "\<not> uc_need v"
    and "uc_num0 v = of_nat n" "n \<le> 0x10FFFF"
  shows "\<exists>r. uc_check peek left sz u = Some r \<and>
     (case r of Inl out \<Rightarrow> length out = length (uc_out v) \<and> unat sz \<le> length (s @ utf8_enc n)
       | Inr u \<Rightarrow> uc_idle sz (s @ utf8_enc n) u \<and> length (uc_out u) = length (uc_out v))"
proof -
  obtain r where r: "uc_encode sz v = Some r"
    "case r of Inl out \<Rightarrow> length out = length (uc_out v) \<and> unat sz \<le> length (s @ utf8_enc n)
       | Inr x \<Rightarrow> length (uc_out x) = length (uc_out v) \<and>
           take (uc_wr x) (uc_out x) = s @ utf8_enc n \<and> length (s @ utf8_enc n) = uc_wr x \<and> uc_wr x < unat sz \<and> \<not> uc_need x"
    using uc_encode_spec [OF assms(2-)] by blast
  show ?thesis
    using r assms(1,5) by (cases r) (auto simp: uc_check_def uc_idle_def)
qed


text \<open>An escape, from the byte behind the backslash.\<close>

definition uc_esc_ok :: "u32 \<Rightarrow> u8 list \<Rightarrow> nat \<Rightarrow> (u8 list \<times> u8 list) option \<Rightarrow> (u8 list + uc_vars) option \<Rightarrow> bool" where
  "uc_esc_ok sz s N res r \<longleftrightarrow>
     (case res of
        None \<Rightarrow> (\<exists>out. r = Some (Inl out) \<and> length out = N)
      | Some (t, rest) \<Rightarrow>
          (\<exists>out. r = Some (Inl out) \<and> length out = N \<and> unat sz \<le> length (s @ t)) \<or>
          (\<exists>v. r = uc_run sz rest v \<and> uc_idle sz (s @ t) v \<and> length (uc_out v) = N))"

lemma uc_check_run:
  assumes "uc_surrogate peek left u = Some (Inr v)"
    and "take (uc_wr v) (uc_out v) = s" "length s = uc_wr v" "uc_wr v < unat sz" "unat sz \<le> length (uc_out v)" "\<not> uc_need v"
    and "uc_num0 v = of_nat n" "n \<le> 0x10FFFF" "length (uc_out v) = N"
  shows "uc_esc_ok sz s N (Some (utf8_enc n, rest))
     (case uc_check peek left sz u of None \<Rightarrow> None | Some (Inl out) \<Rightarrow> Some (Inl out) | Some (Inr u) \<Rightarrow> uc_run sz rest u)"
proof -
  obtain r where r: "uc_check peek left sz u = Some r"
    "case r of Inl out \<Rightarrow> length out = length (uc_out v) \<and> unat sz \<le> length (s @ utf8_enc n)
       | Inr u \<Rightarrow> uc_idle sz (s @ utf8_enc n) u \<and> length (uc_out u) = length (uc_out v)"
    using uc_check_enc [OF assms(1-8)] by blast
  show ?thesis using r assms(9) by (cases r) (auto simp: uc_esc_ok_def)
qed

lemma hex4_less: "hex4 ds = Some n \<Longrightarrow> n < 0x10000"
proof -
  assume h: "hex4 ds = Some n"
  then obtain a b c d es where ds: "ds = a # b # c # d # es"
    by (auto simp: hex4_def numeral_eq_Suc Suc_le_length_iff split: if_split_asm)
  show ?thesis using h hex_val_less [of a] hex_val_less [of b] hex_val_less [of c] hex_val_less [of d]
    by (auto simp: ds hex4_def split: if_split_asm)
qed

lemma uc_run_low:
  assumes "uc_state u = CJ_UC_STATE_ESC" "uc_num0 u = 0" "uc_need u" "uc_high u = of_nat ((h - 0xD800) * 0x400)"
    and "is_high_surrogate h"
    and "take (uc_wr u) (uc_out u) = s" "length s = uc_wr u" "uc_wr u + 1 < unat sz" "unat sz \<le> length (uc_out u)"
    and "length es < 2 ^ 32 - 1"
  shows "uc_esc_ok sz s (length (uc_out u))
     (case hex4 es of
        None \<Rightarrow> None
      | Some l \<Rightarrow>
          if is_low_surrogate l then Some (utf8_enc ((h - 0xD800) * 0x400 + (l - 0xDC00) + 0x10000), drop 4 es)
          else None)
     (uc_run sz (C_u # es) u)"
proof (cases "hex4 es")
  case None
  then show ?thesis using assms uc_esc_u [of u sz es] by (simp add: uc_esc_ok_def)
next
  case (Some l)
  let ?u = "u\<lparr>uc_num0 := of_nat l, uc_state := CJ_UC_STATE_CHK_NUM\<rparr>"
  have l: "l < 0x10000" by (rule hex4_less [OF Some])
  have run: "uc_run sz (C_u # es) u =
    (case uc_check (nth_opt (drop 3 es)) (of_nat (length (drop 3 es))) sz ?u of
       None \<Rightarrow> None | Some (Inl out) \<Rightarrow> Some (Inl out) | Some (Inr u) \<Rightarrow> uc_run sz (drop 4 es) u)"
    using uc_esc_u [of u sz es] assms Some by simp
  show ?thesis
  proof (cases "is_low_surrogate l")
    case False
    then have "uc_surrogate (nth_opt (drop 3 es)) (of_nat (length (drop 3 es))) ?u = Some (Inl (uc_out u))"
      using assms l by (auto simp: uc_surrogate_def word_less_nat_alt unat_of_nat)
    moreover have "(if is_low_surrogate l then x else None) = None" for x :: "(u8 list \<times> u8 list) option"
      using False by (simp only: if_False)
    ultimately show ?thesis using Some by (simp only: run) (simp add: uc_check_def uc_esc_ok_def)
  next
    case True
    let ?n = "(h - 0xD800) * 0x400 + (l - 0xDC00) + 0x10000"
    let ?v = "?u\<lparr>uc_num0 := of_nat ?n, uc_need := False\<rparr>"
    have "uc_surrogate (nth_opt (drop 3 es)) (of_nat (length (drop 3 es))) ?u = Some (Inr ?v)"
      using assms True l by (auto simp: uc_surrogate_def word_less_nat_alt unat_of_nat of_nat_diff)
    moreover have "?n \<le> 0x10FFFF" using assms(5) True by linarith
    ultimately show ?thesis using uc_check_run [of _ _ ?u ?v s sz ?n "length (uc_out u)"]
      using assms(5-) True Some by (simp add: run)
  qed
qed


lemma uc_run_esc:
  assumes "uc_state u = CJ_UC_STATE_ESC" "uc_num0 u = 0" "\<not> uc_need u"
    and "take (uc_wr u) (uc_out u) = s" "length s = uc_wr u" "uc_wr u + 1 < unat sz" "unat sz \<le> length (uc_out u)"
    and "cs \<noteq> []" "length cs < 2 ^ 32"
  shows "uc_esc_ok sz s (length (uc_out u)) (unescape_one cs) (uc_run sz cs u)"
proof -
  obtain e ds where cs: "cs = e # ds" using assms(8) by (cases cs) auto
  show ?thesis
  proof (cases "e = C_u")
    case False
    show ?thesis
    proof (cases "uc_escape e")
      case None
      then show ?thesis using assms False by (simp add: cs unescape_one_def uc_esc_ok_def uc_run.simps uc_step_def)
    next
      case (Some b)
      let ?v = "u\<lparr>uc_out := (uc_out u)[uc_wr u := b], uc_wr := uc_wr u + 1, uc_state := CJ_UC_STATE_NONE\<rparr>"
      have "uc_run sz cs u = uc_run sz ds ?v"
        using assms False Some by (simp add: cs uc_run.simps uc_step_def uc_put_def wr_Some)
      moreover have "uc_idle sz (s @ [b]) ?v" using assms by (auto simp: uc_idle_def take_Suc_conv_app_nth)
      ultimately show ?thesis using False Some by (auto simp: cs unescape_one_def uc_esc_ok_def)
    qed
  next
    case u: True
    show ?thesis
    proof (cases "hex4 ds")
      case None
      then show ?thesis using assms uc_esc_u [of u sz ds] u by (simp add: uc_esc_ok_def cs unescape_one_def)
    next
      case (Some n)
      let ?u = "u\<lparr>uc_num0 := of_nat n, uc_state := CJ_UC_STATE_CHK_NUM\<rparr>"
      have n: "n < 0x10000" by (rule hex4_less [OF Some])
      have run: "uc_run sz cs u =
        (case uc_check (nth_opt (drop 3 ds)) (of_nat (length (drop 3 ds))) sz ?u of
           None \<Rightarrow> None | Some (Inl out) \<Rightarrow> Some (Inl out) | Some (Inr u) \<Rightarrow> uc_run sz (drop 4 ds) u)"
        using uc_esc_u [of u sz ds] assms Some u by (simp add: cs)
      let ?s = "uc_surrogate (nth_opt (drop 3 ds)) (of_nat (length (drop 3 ds))) ?u"
      consider "is_low_surrogate n" | "is_high_surrogate n" | "\<not> (0xD800 \<le> n \<and> n \<le> 0xDFFF)" by linarith
      then show ?thesis
      proof cases
        case 1
        then have "?s = Some (Inl (uc_out u))"
          using assms n by (auto simp: uc_surrogate_def word_le_nat_alt unat_of_nat)
        then show ?thesis using 1 Some u by (simp only: run) (simp add: uc_check_def uc_esc_ok_def cs unescape_one_def)
      next
        case 3
        have "?s = Some (Inr ?u)"
          using assms n 3 by (auto simp: uc_surrogate_def word_le_nat_alt unat_of_nat)
        from uc_check_run [OF this, of s sz n "length (uc_out u)" "drop 4 ds"]
        have "uc_esc_ok sz s (length (uc_out u)) (Some (utf8_enc n, drop 4 ds)) (uc_run sz cs u)"
          using assms n by (simp add: run)
        moreover have "unescape_one cs = Some (utf8_enc n, drop 4 ds)"
          using 3 Some u by (auto simp: cs unescape_one_def)
        ultimately show ?thesis by simp
      next
        case 2
        have len: "length ds < 2 ^ 32 - 1" using assms by (simp add: cs)
        obtain d es where ds: "drop 3 ds = d # es" "drop 4 ds = es"
          using Some by (auto simp: hex4_def numeral_eq_Suc Suc_le_length_iff split: if_split_asm)
        have les: "length es = length ds - 4" using ds by auto
        let ?v = "?u\<lparr>uc_need := True, uc_high := (of_nat n - 0xD800) * 0x400\<rparr>"
        have high: "?s = (if length es < 5 then Some (Inl (uc_out u))
            else if es ! 0 \<noteq> C_BACKSLASH then Some (Inl (uc_out u))
            else if es ! 1 \<noteq> C_u then Some (Inl (uc_out u)) else Some (Inr ?v))"
        proof -
          have "(of_nat (length (d # es)) :: u32) < 6 \<longleftrightarrow> length es < 5"
            using len les by (simp add: word_less_nat_alt unat_of_nat del: of_nat_Suc)
          then show ?thesis
            using assms n 2 by (auto simp: uc_surrogate_def word_le_nat_alt unat_of_nat ds nth_opt_def)
        qed
        show ?thesis
        proof (cases "5 \<le> length es \<and> es ! 0 = C_BACKSLASH \<and> es ! 1 = C_u")
          case False
          then have "?s = Some (Inl (uc_out u))" unfolding high by auto
          moreover have "unescape_one cs = None"
            using False 2 Some u by (auto simp: cs unescape_one_def ds hex4_def split: list.split)
          ultimately show ?thesis by (simp only: run) (simp add: uc_check_def uc_esc_ok_def)
        next
          case True
          then obtain fs where es: "es = C_BACKSLASH # C_u # fs"
            by (auto simp: numeral_eq_Suc Suc_le_length_iff)
          let ?w = "?v\<lparr>uc_num0 := 0, uc_state := CJ_UC_STATE_NONE\<rparr>"
          have "uc_check (nth_opt (drop 3 ds)) (of_nat (length (drop 3 ds))) sz ?u = Some (Inr ?w)"
            using True high by (simp add: uc_check_def uc_encode_def)
          then have r: "uc_run sz cs u = uc_run sz (C_BACKSLASH # C_u # fs) ?w"
            by (simp only: run) (simp add: ds es)
          let ?x = "?w\<lparr>uc_state := CJ_UC_STATE_ESC\<rparr>"
          have "\<dots> = uc_run sz (C_u # fs) ?x"
            using assms by (simp add: uc_run.simps(2) [of sz C_BACKSLASH] uc_step_def)
          moreover have "uc_esc_ok sz s (length (uc_out ?x)) (unescape_one cs) (uc_run sz (C_u # fs) ?x)"
            using uc_run_low [of ?x n s sz fs] assms 2 Some u len les es
            by (simp add: cs unescape_one_def ds of_nat_diff)
          ultimately show ?thesis using r by simp
        qed
      qed
    qed
  qed
qed

lemma append_Nil_id: "(@) [] = (\<lambda>xs. xs)"
  by (simp add: fun_eq_iff)

lemma uc_run_outcome:
  assumes "uc_idle sz s u" "length cs < 2 ^ 32"
  shows "uc_outcome sz (length (uc_out u)) (map_option ((@) s) (json_unescape cs)) (uc_run sz cs u)"
  using assms
proof (induction cs arbitrary: s u rule: json_unescape.induct)
  case 1
  then show ?case by (simp add: uc_outcome_def uc_idle_def)
next
  case (2 c cs)
  show ?case
  proof (cases "uc_wr u + 1 = unat sz")
    case True
    have "unat sz \<le> length s + length t" if "json_unescape (c # cs) = Some t" for t
      using json_unescape_ne [OF that] True "2.prems" by (cases t) (auto simp: uc_idle_def)
    then show ?thesis using "2.prems" True
      by (auto simp: uc_run.simps uc_step_def simp del: json_unescape.simps)
  next
    case room: False
    show ?thesis
    proof (cases "c = C_BACKSLASH")
      case False
      obtain v where v: "uc_put c u = Some v" "uc_idle sz (s @ [c]) v" "length (uc_out v) = length (uc_out u)"
        using uc_idle_put [OF "2.prems"(1) room] by blast
      have "uc_run sz (c # cs) u = uc_run sz cs v"
        using v(1) room False "2.prems"(1) by (simp add: uc_run.simps uc_step_def uc_idle_def)
      moreover have "map_option ((@) (s @ [c])) (json_unescape cs) = map_option ((@) s) (json_unescape (c # cs))"
        using False by (cases "json_unescape cs") auto
      moreover have "uc_outcome sz (length (uc_out v)) (map_option ((@) (s @ [c])) (json_unescape cs)) (uc_run sz cs v)"
        by (rule "2.IH"(1) [OF False v(2)]) (use "2.prems"(2) in simp)
      ultimately show ?thesis by (simp only: v(3))
    next
      case True
      let ?v = "u\<lparr>uc_state := CJ_UC_STATE_ESC\<rparr>"
      have r: "uc_run sz (c # cs) u = uc_run sz cs ?v"
        using room True "2.prems"(1) by (simp add: uc_run.simps(2) uc_step_def uc_idle_def)
      show ?thesis
      proof (cases "cs = []")
        case True
        then show ?thesis using \<open>c = _\<close> r "2.prems"(1) by (simp add: uc_outcome_def uc_idle_def unescape_one_def)
      next
        case False
        have esc: "uc_esc_ok sz s (length (uc_out ?v)) (unescape_one cs) (uc_run sz cs ?v)"
          by (rule uc_run_esc) (use "2.prems" room False in \<open>auto simp: uc_idle_def\<close>)
        show ?thesis
        proof (cases "unescape_one cs")
          case None
          then show ?thesis using esc r True by (auto simp: uc_esc_ok_def)
        next
          case (Some p)
          obtain t rest where p: "p = (t, rest)" by (cases p)
          have len: "length rest < 2 ^ 32" using unescape_one_shorter [of cs t rest] Some p "2.prems"(2) by simp
          have res: "map_option ((@) s) (json_unescape (c # cs)) = map_option ((@) (s @ t)) (json_unescape rest)"
            using True Some p by (cases "json_unescape rest") auto
          from esc consider out where "uc_run sz cs ?v = Some (Inl out)" "length out = length (uc_out u)" "unat sz \<le> length (s @ t)"
            | v where "uc_run sz cs ?v = uc_run sz rest v" "uc_idle sz (s @ t) v" "length (uc_out v) = length (uc_out u)"
            by (auto simp: uc_esc_ok_def Some p)
          then show ?thesis
          proof cases
            case 1
            then show ?thesis unfolding res r by auto
          next
            case 2
            have "\<not> c \<noteq> C_BACKSLASH" using True by simp
            from "2.IH"(2) [OF this Some p [symmetric] 2(2) len] 2(1,3) show ?thesis unfolding res r by (simp only:) 
          qed
        qed
      qed
    qed
  qed
qed


text \<open>The whole copy of a string token that lies inside the text.\<close>

lemma copy_string_utf8:
  assumes ctx: "readable_ctx bs ts ctx" and sz: "0 < sz" "unat sz \<le> length out"
    and ref: "ref < ctx_tokens_pos ctx" "tok_type (ts ! unat ref) = CJ_TOKEN_STRING"
    and inside: "unat (tok_pos (ts ! unat ref)) + unat (tok_len (ts ! unat ref)) \<le> unat (ctx_size ctx)"
  shows "\<exists>ok out'. cj_copy_ref_utf8 ctx (Some out) sz ref = Some (ok, Some out') \<and> length out' = length out \<and>
    (case json_unescape (token_text bs (ts ! unat ref)) of
       Some s \<Rightarrow> ok = (length s < unat sz) \<and> (ok \<longrightarrow> take (Suc (length s)) out' = s @ [0])
     | None \<Rightarrow> \<not> ok) \<and> (\<not> ok \<longrightarrow> out' ! 0 = 0)"
proof -
  let ?t = "ts ! unat ref"
  let ?cs = "token_text bs ?t"
  have at: "tok_at ctx ref = Some ?t" using ref ctx by (simp add: tok_at_def readable_ctx_def word_less_nat_alt)
  have len: "unat (tok_pos ?t) + unat (tok_len ?t) \<le> length bs" "ctx_buf ctx = Some bs"
    using ctx inside by (simp_all add: readable_ctx_def)
  have guards: "\<not> ctx_size ctx < tok_len ?t" "\<not> ctx_size ctx - tok_len ?t < tok_pos ?t"
    using inside by (auto simp: word_less_nat_alt unat_sub word_le_nat_alt)
  obtain c cs where out: "out = c # cs" using sz by (cases out) (auto simp: word_less_nat_alt)
  have sz': "0 < unat sz" using sz(1) by (simp add: word_less_nat_alt)
  have idle: "uc_idle sz [] (uc_init (0 # cs))" using sz(2) sz' out by (simp add: uc_idle_def uc_init_def)
  have lencs: "length ?cs < 2 ^ 32" using len unat_u32_less [of "tok_len ?t"] by (simp add: token_text_def)
  have loop: "uc_loop (ctx_buf ctx) (unat (tok_pos ?t)) (tok_len ?t) sz 0 (uc_init (0 # cs)) = uc_run sz ?cs (uc_init (0 # cs))"
    using uc_loop_run [OF len(1), of 0] len(2) by (simp add: token_text_def)
  obtain v where v: "uc_run sz ?cs (uc_init (0 # cs)) = Some v"
    "case v of
       Inl out' \<Rightarrow> length out' = length out \<and> (\<forall>s. json_unescape ?cs = Some s \<longrightarrow> unat sz \<le> length s)
     | Inr u \<Rightarrow> length (uc_out u) = length out \<and> uc_wr u < unat sz \<and>
         (if uc_state u = CJ_UC_STATE_NONE then json_unescape ?cs = Some (take (uc_wr u) (uc_out u)) else json_unescape ?cs = None)"
  proof -
    have "length (uc_out (uc_init (0 # cs))) = length out" by (simp add: uc_init_def out)
    from uc_run_outcome [OF idle lencs, unfolded append_Nil_id option.map_ident this] show ?thesis
      unfolding uc_outcome_def by (elim exE conjE) (rule that)
  qed
  have head: "cj_copy_ref_utf8 ctx (Some out) sz ref =
    (case v of
       Inl out \<Rightarrow> do { out \<leftarrow> wr out 0 0; Some (False, Some out) }
     | Inr u \<Rightarrow> do {
         out \<leftarrow> (if uc_wr u < unat sz then wr (uc_out u) (uc_wr u) 0 else Some (uc_out u));
         if uc_state u \<noteq> CJ_UC_STATE_NONE then do { out \<leftarrow> wr out 0 0; Some (False, Some out) }
         else Some (True, Some out) })"
  proof -
    have "sz \<noteq> 0" "wr (c # cs) 0 0 = Some (0 # cs)" using sz(1) by (auto simp: wr_def)
    then show ?thesis
      by (simp only: cj_copy_ref_utf8_def out at loop v(1) ref guards option.case if_True if_False simp_thms Option.bind.simps Let_def)
  qed
  show ?thesis
  proof (cases v)
    case (Inl o')
    have o': "length o' = length out" "\<forall>s. json_unescape ?cs = Some s \<longrightarrow> unat sz \<le> length s"
      using v(2) Inl by simp_all
    then have "0 < length o'" by (simp add: out)
    then have "cj_copy_ref_utf8 ctx (Some out) sz ref = Some (False, Some (o'[0 := 0]))" "o'[0 := 0] ! 0 = 0"
      using head Inl by (simp_all add: wr_def)
    then show ?thesis
      using o' by (intro exI [of _ False] exI [of _ "o'[0 := 0]"]) (auto split: option.split simp: not_less)
  next
    case (Inr u)
    have u: "length (uc_out u) = length out" "uc_wr u < unat sz" using v(2) Inr by simp_all
    show ?thesis
    proof (cases "uc_state u = CJ_UC_STATE_NONE")
      case True
      then show ?thesis
        using v(2) head u sz(2) Inr
        by (intro exI [of _ True] exI [of _ "(uc_out u)[uc_wr u := 0]"]) (simp add: wr_def take_Suc_conv_app_nth)
    next
      case False
      then have "json_unescape ?cs = None" using v(2) Inr by simp
      moreover have "uc_out u \<noteq> []" using u sz(2) by auto
      ultimately have "json_unescape ?cs = None"
        "cj_copy_ref_utf8 ctx (Some out) sz ref = Some (False, Some ((uc_out u)[uc_wr u := 0, 0 := 0]))"
        "((uc_out u)[uc_wr u := 0])[0 := 0] ! 0 = 0"
        using head u sz(2) Inr False by (simp_all add: wr_def) (metis length_greater_0_conv length_list_update nth_list_update_eq)
      then show ?thesis using u by (intro exI [of _ False]) simp
    qed
  qed
qed



definition utf8_example :: "u8 list" where
  "utf8_example = [C_a, C_BACKSLASH, C_u, 0x44, 0x38, 0x33, 0x44, C_BACKSLASH, C_u, 0x44, 0x45, 0x30, 0x30]"

lemma utf8_example_unescape: "json_unescape utf8_example = Some [C_a, 0xF0, 0x9F, 0x98, 0x80]"
  by (simp add: utf8_example_def json_unescape.simps unescape_one_def hex4_def is_hex_digit_def hex_val_def utf8_enc_def byte_def is_digit_def)


text \<open>the escapes \<^verbatim>\<open>\r\<close>, \<^verbatim>\<open>\b\<close> and \<^verbatim>\<open>\f\<close> are copied as the letters, not as the control characters they stand for.\<close>

theorem cj_copy_ref_utf8_control_escapes:
  "cj_copy_ref_utf8 (blank_ctx\<lparr>ctx_buf := Some [C_BACKSLASH, C_r, C_BACKSLASH, C_b, C_BACKSLASH, C_f], ctx_size := 6,
     ctx_tokens := Some [tk CJ_TOKEN_STRING 0 6], ctx_tokens_pos := 1\<rparr>) (Some [1, 1, 1, 1]) 4 0 = Some (True, Some [C_r, C_b, C_f, 0])"
proof -
  let ?bs = "[C_BACKSLASH, C_r, C_BACKSLASH, C_b, C_BACKSLASH, C_f]"
  have t: "token_text ?bs (tk CJ_TOKEN_STRING 0 6) = ?bs"
    by (simp add: token_text_def tk_def seg_def)
  have u: "json_unescape ?bs = Some [C_r, C_b, C_f]"
    by (simp add: unescape_one_def uc_escape_def)
  show ?thesis
    using copy_string_utf8 [of ?bs "[tk CJ_TOKEN_STRING 0 6]" "blank_ctx\<lparr>ctx_buf := Some ?bs, ctx_size := 6,
      ctx_tokens := Some [tk CJ_TOKEN_STRING 0 6], ctx_tokens_pos := 1\<rparr>" 4 "[1, 1, 1, 1]" 0] t u
    by (auto simp: readable_ctx_def tk_def)
qed

end
