(* ===== verification/Res_Suffix.thy ===== *)
theory Res_Suffix
  imports Deconz_Prelude
begin

text \<open>
  The names of resources, events and resource items (\<^verbatim>\<open>resource.cpp\<close>). The code compares these
  \<^verbatim>\<open>const char *\<close> constants by address; here they are the texts themselves, and that no two of them are
  equal makes the two comparisons agree.
\<close>

named_theorems suffixes \<open>the texts of the constants\<close>

definition RAlarmSystems :: string where [suffixes]: "RAlarmSystems = ''/alarmsystems''"
definition RConfig :: string where [suffixes]: "RConfig = ''/config''"
definition RDevices :: string where [suffixes]: "RDevices = ''/devices''"
definition RGroups :: string where [suffixes]: "RGroups = ''/groups''"
definition RLights :: string where [suffixes]: "RLights = ''/lights''"
definition RSensors :: string where [suffixes]: "RSensors = ''/sensors''"
definition REventActiveEndpoints :: string where [suffixes]: "REventActiveEndpoints = ''event/active.endpoints''"
definition REventAdded :: string where [suffixes]: "REventAdded = ''event/added''"
definition REventApsConfirm :: string where [suffixes]: "REventApsConfirm = ''event/aps.confirm''"
definition REventAwake :: string where [suffixes]: "REventAwake = ''event/awake''"
definition REventBindingTable :: string where [suffixes]: "REventBindingTable = ''event/binding.table''"
definition REventBindingTick :: string where [suffixes]: "REventBindingTick = ''event/binding.tick''"
definition REventCheckGroupAnyOn :: string where [suffixes]: "REventCheckGroupAnyOn = ''event/checkgroupanyon''"
definition REventDDFInitRequest :: string where [suffixes]: "REventDDFInitRequest = ''event/ddf.init.req''"
definition REventDDFInitResponse :: string where [suffixes]: "REventDDFInitResponse = ''event/ddf.init.rsp''"
definition REventDDFReload :: string where [suffixes]: "REventDDFReload = ''event/ddf.reload''"
definition REventDeleted :: string where [suffixes]: "REventDeleted = ''event/deleted''"
definition REventDeviceAlarm :: string where [suffixes]: "REventDeviceAlarm = ''event/devicealarm''"
definition REventDeviceAnnounce :: string where [suffixes]: "REventDeviceAnnounce = ''event/device.anounce''"
definition REventNodeDescriptor :: string where [suffixes]: "REventNodeDescriptor = ''event/node.descriptor''"
definition REventPermitjoinDisabled :: string where [suffixes]: "REventPermitjoinDisabled = ''event/permit.join.disabled''"
definition REventPermitjoinEnabled :: string where [suffixes]: "REventPermitjoinEnabled = ''event/permit.join.enabled''"
definition REventPermitjoinRunning :: string where [suffixes]: "REventPermitjoinRunning = ''event/permit.join.running''"
definition REventPoll :: string where [suffixes]: "REventPoll = ''event/poll''"
definition REventPollDone :: string where [suffixes]: "REventPollDone = ''event/poll.done''"
definition REventSimpleDescriptor :: string where [suffixes]: "REventSimpleDescriptor = ''event/simple.descriptor''"
definition REventStartTimer :: string where [suffixes]: "REventStartTimer = ''event/start.timer''"
definition REventStateEnter :: string where [suffixes]: "REventStateEnter = ''event/state.enter''"
definition REventStateLeave :: string where [suffixes]: "REventStateLeave = ''event/state.leave''"
definition REventStateTimeout :: string where [suffixes]: "REventStateTimeout = ''event/state.timeout''"
definition REventStopTimer :: string where [suffixes]: "REventStopTimer = ''event/stop.timer''"
definition REventTick :: string where [suffixes]: "REventTick = ''event/tick''"
definition REventTimerFired :: string where [suffixes]: "REventTimerFired = ''event/timerfired''"
definition REventValidGroup :: string where [suffixes]: "REventValidGroup = ''event/validgroup''"
definition REventZclReadReportConfigResponse :: string where [suffixes]: "REventZclReadReportConfigResponse = ''event/zcl.read.report.config.response''"
definition REventZclResponse :: string where [suffixes]: "REventZclResponse = ''event/zcl.response''"
definition REventZdpReload :: string where [suffixes]: "REventZdpReload = ''event/zdp.reload''"
definition REventZdpMgmtBindResponse :: string where [suffixes]: "REventZdpMgmtBindResponse = ''event/zdp.mgmt.bind.response''"
definition REventZdpResponse :: string where [suffixes]: "REventZdpResponse = ''event/zdp.response''"
definition RInvalidSuffix :: string where [suffixes]: "RInvalidSuffix = ''invalid/suffix''"
definition RAttrAppVersion :: string where [suffixes]: "RAttrAppVersion = ''attr/appversion''"
definition RAttrClass :: string where [suffixes]: "RAttrClass = ''attr/class''"
definition RAttrConfigId :: string where [suffixes]: "RAttrConfigId = ''attr/configid''"
definition RAttrDdfHash :: string where [suffixes]: "RAttrDdfHash = ''attr/ddf_hash''"
definition RAttrDdfPolicy :: string where [suffixes]: "RAttrDdfPolicy = ''attr/ddf_policy''"
definition RAttrExtAddress :: string where [suffixes]: "RAttrExtAddress = ''attr/extaddress''"
definition RAttrGroupAddress :: string where [suffixes]: "RAttrGroupAddress = ''attr/groupaddress''"
definition RAttrId :: string where [suffixes]: "RAttrId = ''attr/id''"
definition RAttrLastAnnounced :: string where [suffixes]: "RAttrLastAnnounced = ''attr/lastannounced''"
definition RAttrLastSeen :: string where [suffixes]: "RAttrLastSeen = ''attr/lastseen''"
definition RAttrLevelMin :: string where [suffixes]: "RAttrLevelMin = ''attr/levelmin''"
definition RAttrManufacturerName :: string where [suffixes]: "RAttrManufacturerName = ''attr/manufacturername''"
definition RAttrMode :: string where [suffixes]: "RAttrMode = ''attr/mode''"
definition RAttrModelId :: string where [suffixes]: "RAttrModelId = ''attr/modelid''"
definition RAttrName :: string where [suffixes]: "RAttrName = ''attr/name''"
definition RAttrNwkAddress :: string where [suffixes]: "RAttrNwkAddress = ''attr/nwkaddress''"
definition RCapOtauFileVersion :: string where [suffixes]: "RCapOtauFileVersion = ''cap/otau/file_version''"
definition RCapOtauImageType :: string where [suffixes]: "RCapOtauImageType = ''cap/otau/image_type''"
definition RCapOtauManufacturerCode :: string where [suffixes]: "RCapOtauManufacturerCode = ''cap/otau/manufacturer_code''"
definition RAttrOtaVersion :: string where [suffixes]: "RAttrOtaVersion = ''attr/otaversion''"
definition RAttrPowerOnCt :: string where [suffixes]: "RAttrPowerOnCt = ''attr/poweronct''"
definition RAttrPowerOnLevel :: string where [suffixes]: "RAttrPowerOnLevel = ''attr/poweronlevel''"
definition RAttrPowerup :: string where [suffixes]: "RAttrPowerup = ''attr/powerup''"
definition RAttrProductId :: string where [suffixes]: "RAttrProductId = ''attr/productid''"
definition RAttrProductName :: string where [suffixes]: "RAttrProductName = ''attr/productname''"
definition RAttrSwconfigid :: string where [suffixes]: "RAttrSwconfigid = ''attr/swconfigid''"
definition RAttrSwVersion :: string where [suffixes]: "RAttrSwVersion = ''attr/swversion''"
definition RAttrSwVersionBis :: string where [suffixes]: "RAttrSwVersionBis = ''attr/swversion_bis''"
definition RAttrType :: string where [suffixes]: "RAttrType = ''attr/type''"
definition RAttrUniqueId :: string where [suffixes]: "RAttrUniqueId = ''attr/uniqueid''"
definition RAttrZoneType :: string where [suffixes]: "RAttrZoneType = ''attr/zonetype''"
definition RActionScene :: string where [suffixes]: "RActionScene = ''action/scene''"
definition RStateAction :: string where [suffixes]: "RStateAction = ''state/action''"
definition RStateAirQuality :: string where [suffixes]: "RStateAirQuality = ''state/airquality''"
definition RStateAirQualityBis :: string where [suffixes]: "RStateAirQualityBis = ''state/airquality_bis''"
definition RStateAirQualityPpb :: string where [suffixes]: "RStateAirQualityPpb = ''state/airqualityppb''"
definition RStateAirQualityPpbBis :: string where [suffixes]: "RStateAirQualityPpbBis = ''state/airqualityppb_bis''"
definition RStateAlarm :: string where [suffixes]: "RStateAlarm = ''state/alarm''"
definition RStateAlert :: string where [suffixes]: "RStateAlert = ''state/alert''"
definition RStateAllOn :: string where [suffixes]: "RStateAllOn = ''state/all_on''"
definition RStateAngle :: string where [suffixes]: "RStateAngle = ''state/angle''"
definition RStateAnyOn :: string where [suffixes]: "RStateAnyOn = ''state/any_on''"
definition RStateArmState :: string where [suffixes]: "RStateArmState = ''state/armstate''"
definition RStateBattery :: string where [suffixes]: "RStateBattery = ''state/battery''"
definition RStateBri :: string where [suffixes]: "RStateBri = ''state/bri''"
definition RStateButtonEvent :: string where [suffixes]: "RStateButtonEvent = ''state/buttonevent''"
definition RStateCarbonMonoxide :: string where [suffixes]: "RStateCarbonMonoxide = ''state/carbonmonoxide''"
definition RStateCharging :: string where [suffixes]: "RStateCharging = ''state/charging''"
definition RStateColorMode :: string where [suffixes]: "RStateColorMode = ''state/colormode''"
definition RStateConsumption :: string where [suffixes]: "RStateConsumption = ''state/consumption''"
definition RStateConsumption_2 :: string where [suffixes]: "RStateConsumption_2 = ''state/consumption_2''"
definition RStateCt :: string where [suffixes]: "RStateCt = ''state/ct''"
definition RStateCurrent :: string where [suffixes]: "RStateCurrent = ''state/current''"
definition RStateCurrent_P1 :: string where [suffixes]: "RStateCurrent_P1 = ''state/current_P1''"
definition RStateCurrent_P2 :: string where [suffixes]: "RStateCurrent_P2 = ''state/current_P2''"
definition RStateCurrent_P3 :: string where [suffixes]: "RStateCurrent_P3 = ''state/current_P3''"
definition RStateDark :: string where [suffixes]: "RStateDark = ''state/dark''"
definition RStateDaylight :: string where [suffixes]: "RStateDaylight = ''state/daylight''"
definition RStateDeviceRunTime :: string where [suffixes]: "RStateDeviceRunTime = ''state/deviceruntime''"
definition RStateEffect :: string where [suffixes]: "RStateEffect = ''state/effect''"
definition RStateErrorCode :: string where [suffixes]: "RStateErrorCode = ''state/errorcode''"
definition RStateEventDuration :: string where [suffixes]: "RStateEventDuration = ''state/eventduration''"
definition RStateExpectedEventDuration :: string where [suffixes]: "RStateExpectedEventDuration = ''state/expectedeventduration''"
definition RStateExpectedRotation :: string where [suffixes]: "RStateExpectedRotation = ''state/expectedrotation''"
definition RStateFilterRunTime :: string where [suffixes]: "RStateFilterRunTime = ''state/filterruntime''"
definition RStateFire :: string where [suffixes]: "RStateFire = ''state/fire''"
definition RStateFlag :: string where [suffixes]: "RStateFlag = ''state/flag''"
definition RStateFloorTemperature :: string where [suffixes]: "RStateFloorTemperature = ''state/floortemperature''"
definition RStateGPDFrameCounter :: string where [suffixes]: "RStateGPDFrameCounter = ''state/gpd_frame_counter''"
definition RStateGPDLastPair :: string where [suffixes]: "RStateGPDLastPair = ''state/gpd_last_pair''"
definition RStateGesture :: string where [suffixes]: "RStateGesture = ''state/gesture''"
definition RStateGradient :: string where [suffixes]: "RStateGradient = ''state/gradient''"
definition RStateHeating :: string where [suffixes]: "RStateHeating = ''state/heating''"
definition RStateHue :: string where [suffixes]: "RStateHue = ''state/hue''"
definition RStateHumidity :: string where [suffixes]: "RStateHumidity = ''state/humidity''"
definition RStateHumidityBis :: string where [suffixes]: "RStateHumidityBis = ''state/humidity_bis''"
definition RStateLastCheckin :: string where [suffixes]: "RStateLastCheckin = ''state/lastcheckin''"
definition RStateLastSet :: string where [suffixes]: "RStateLastSet = ''state/lastset''"
definition RStateLastUpdated :: string where [suffixes]: "RStateLastUpdated = ''state/lastupdated''"
definition RStateLift :: string where [suffixes]: "RStateLift = ''state/lift''"
definition RStateLightLevel :: string where [suffixes]: "RStateLightLevel = ''state/lightlevel''"
definition RStateLocaltime :: string where [suffixes]: "RStateLocaltime = ''state/localtime''"
definition RStateLockState :: string where [suffixes]: "RStateLockState = ''state/lockstate''"
definition RStateLowBattery :: string where [suffixes]: "RStateLowBattery = ''state/lowbattery''"
definition RStateLux :: string where [suffixes]: "RStateLux = ''state/lux''"
definition RStateMeasuredValue :: string where [suffixes]: "RStateMeasuredValue = ''state/measured_value''"
definition RStateMoisture :: string where [suffixes]: "RStateMoisture = ''state/moisture''"
definition RStateMountingModeActive :: string where [suffixes]: "RStateMountingModeActive = ''state/mountingmodeactive''"
definition RStateMusicSync :: string where [suffixes]: "RStateMusicSync = ''state/music_sync''"
definition RStateOn :: string where [suffixes]: "RStateOn = ''state/on''"
definition RStateOpen :: string where [suffixes]: "RStateOpen = ''state/open''"
definition RStateOpenBis :: string where [suffixes]: "RStateOpenBis = ''state/open_bis''"
definition RStateOrientationX :: string where [suffixes]: "RStateOrientationX = ''state/orientation_x''"
definition RStateOrientationY :: string where [suffixes]: "RStateOrientationY = ''state/orientation_y''"
definition RStateOrientationZ :: string where [suffixes]: "RStateOrientationZ = ''state/orientation_z''"
definition RStatePM2_5 :: string where [suffixes]: "RStatePM2_5 = ''state/pm2_5''"
definition RStatePanel :: string where [suffixes]: "RStatePanel = ''state/panel''"
definition RStatePower :: string where [suffixes]: "RStatePower = ''state/power''"
definition RStatePowerDivisor :: string where [suffixes]: "RStatePowerDivisor = ''state/power_divisor''"
definition RStatePresence :: string where [suffixes]: "RStatePresence = ''state/presence''"
definition RStatePresenceEvent :: string where [suffixes]: "RStatePresenceEvent = ''state/presenceevent''"
definition RStatePressure :: string where [suffixes]: "RStatePressure = ''state/pressure''"
definition RStatePressureBis :: string where [suffixes]: "RStatePressureBis = ''state/pressure_bis''"
definition RStateProduction :: string where [suffixes]: "RStateProduction = ''state/production''"
definition RStateReachable :: string where [suffixes]: "RStateReachable = ''state/reachable''"
definition RStateReplaceFilter :: string where [suffixes]: "RStateReplaceFilter = ''state/replacefilter''"
definition RStateRotaryEvent :: string where [suffixes]: "RStateRotaryEvent = ''state/rotaryevent''"
definition RStateSat :: string where [suffixes]: "RStateSat = ''state/sat''"
definition RStateSecondsRemaining :: string where [suffixes]: "RStateSecondsRemaining = ''state/seconds_remaining''"
definition RStateSpectralX :: string where [suffixes]: "RStateSpectralX = ''state/spectral_x''"
definition RStateSpectralY :: string where [suffixes]: "RStateSpectralY = ''state/spectral_y''"
definition RStateSpectralZ :: string where [suffixes]: "RStateSpectralZ = ''state/spectral_z''"
definition RStateSpeed :: string where [suffixes]: "RStateSpeed = ''state/speed''"
definition RStateStatus :: string where [suffixes]: "RStateStatus = ''state/status''"
definition RStateSunrise :: string where [suffixes]: "RStateSunrise = ''state/sunrise''"
definition RStateSunset :: string where [suffixes]: "RStateSunset = ''state/sunset''"
definition RStateTampered :: string where [suffixes]: "RStateTampered = ''state/tampered''"
definition RStateTemperature :: string where [suffixes]: "RStateTemperature = ''state/temperature''"
definition RStateTemperatureBis :: string where [suffixes]: "RStateTemperatureBis = ''state/temperature_bis''"
definition RStateTest :: string where [suffixes]: "RStateTest = ''state/test''"
definition RStateTilt :: string where [suffixes]: "RStateTilt = ''state/tilt''"
definition RStateTiltAngle :: string where [suffixes]: "RStateTiltAngle = ''state/tiltangle''"
definition RStateUtc :: string where [suffixes]: "RStateUtc = ''state/utc''"
definition RStateValve :: string where [suffixes]: "RStateValve = ''state/valve''"
definition RStateVibration :: string where [suffixes]: "RStateVibration = ''state/vibration''"
definition RStateVibrationStrength :: string where [suffixes]: "RStateVibrationStrength = ''state/vibrationstrength''"
definition RStateVoltage :: string where [suffixes]: "RStateVoltage = ''state/voltage''"
definition RStateWater :: string where [suffixes]: "RStateWater = ''state/water''"
definition RStateWaterBis :: string where [suffixes]: "RStateWaterBis = ''state/water_bis''"
definition RStateWindowOpen :: string where [suffixes]: "RStateWindowOpen = ''state/windowopen''"
definition RStateX :: string where [suffixes]: "RStateX = ''state/x''"
definition RStateY :: string where [suffixes]: "RStateY = ''state/y''"
definition RCapAlertTriggerEffect :: string where [suffixes]: "RCapAlertTriggerEffect = ''cap/alert/trigger_effect''"
definition RCapBriMinDimLevel :: string where [suffixes]: "RCapBriMinDimLevel = ''cap/bri/min_dim_level''"
definition RCapBriMoveWithOnOff :: string where [suffixes]: "RCapBriMoveWithOnOff = ''cap/bri/move_with_onoff''"
definition RCapColorCapabilities :: string where [suffixes]: "RCapColorCapabilities = ''cap/color/capabilities''"
definition RCapColorCtComputesXy :: string where [suffixes]: "RCapColorCtComputesXy = ''cap/color/ct/computes_xy''"
definition RCapColorCtMax :: string where [suffixes]: "RCapColorCtMax = ''cap/color/ct/max''"
definition RCapColorCtMin :: string where [suffixes]: "RCapColorCtMin = ''cap/color/ct/min''"
definition RCapColorEffects :: string where [suffixes]: "RCapColorEffects = ''cap/color/effects''"
definition RCapColorGamutType :: string where [suffixes]: "RCapColorGamutType = ''cap/color/gamut_type''"
definition RCapColorGradientMaxSegments :: string where [suffixes]: "RCapColorGradientMaxSegments = ''cap/color/gradient/max_segments''"
definition RCapColorGradientPixelCount :: string where [suffixes]: "RCapColorGradientPixelCount = ''cap/color/gradient/pixel_count''"
definition RCapColorGradientPixelLength :: string where [suffixes]: "RCapColorGradientPixelLength = ''cap/color/gradient/pixel_length''"
definition RCapColorGradientStyles :: string where [suffixes]: "RCapColorGradientStyles = ''cap/color/gradient/styles''"
definition RCapColorXyBlueX :: string where [suffixes]: "RCapColorXyBlueX = ''cap/color/xy/blue_x''"
definition RCapColorXyBlueY :: string where [suffixes]: "RCapColorXyBlueY = ''cap/color/xy/blue_y''"
definition RCapColorXyGreenX :: string where [suffixes]: "RCapColorXyGreenX = ''cap/color/xy/green_x''"
definition RCapColorXyGreenY :: string where [suffixes]: "RCapColorXyGreenY = ''cap/color/xy/green_y''"
definition RCapColorXyRedX :: string where [suffixes]: "RCapColorXyRedX = ''cap/color/xy/red_x''"
definition RCapColorXyRedY :: string where [suffixes]: "RCapColorXyRedY = ''cap/color/xy/red_y''"
definition RCapGroup :: string where [suffixes]: "RCapGroup = ''cap/group''"
definition RCapGroupsNotSupported :: string where [suffixes]: "RCapGroupsNotSupported = ''cap/groups/not_supported''"
definition RCapMeasuredValueMax :: string where [suffixes]: "RCapMeasuredValueMax = ''cap/measured_value/max''"
definition RCapMeasuredValueMin :: string where [suffixes]: "RCapMeasuredValueMin = ''cap/measured_value/min''"
definition RCapMeasuredValueQuantity :: string where [suffixes]: "RCapMeasuredValueQuantity = ''cap/measured_value/quantity''"
definition RCapMeasuredValueSubstance :: string where [suffixes]: "RCapMeasuredValueSubstance = ''cap/measured_value/substance''"
definition RCapMeasuredValueUnit :: string where [suffixes]: "RCapMeasuredValueUnit = ''cap/measured_value/unit''"
definition RCapOnOffWithEffect :: string where [suffixes]: "RCapOnOffWithEffect = ''cap/on/off_with_effect''"
definition RCapSleeper :: string where [suffixes]: "RCapSleeper = ''cap/sleeper''"
definition RCapTransitionBlock :: string where [suffixes]: "RCapTransitionBlock = ''cap/transition_block''"
definition RConfigAlarmSystemId :: string where [suffixes]: "RConfigAlarmSystemId = ''config/alarmsystemid''"
definition RConfigAlert :: string where [suffixes]: "RConfigAlert = ''config/alert''"
definition RConfigAllowTouchlink :: string where [suffixes]: "RConfigAllowTouchlink = ''config/allowtouchlink''"
definition RConfigArmMode :: string where [suffixes]: "RConfigArmMode = ''config/armmode''"
definition RConfigArmedAwayEntryDelay :: string where [suffixes]: "RConfigArmedAwayEntryDelay = ''config/armed_away_entry_delay''"
definition RConfigArmedAwayExitDelay :: string where [suffixes]: "RConfigArmedAwayExitDelay = ''config/armed_away_exit_delay''"
definition RConfigArmedAwayTriggerDuration :: string where [suffixes]: "RConfigArmedAwayTriggerDuration = ''config/armed_away_trigger_duration''"
definition RConfigArmedNightEntryDelay :: string where [suffixes]: "RConfigArmedNightEntryDelay = ''config/armed_night_entry_delay''"
definition RConfigArmedNightExitDelay :: string where [suffixes]: "RConfigArmedNightExitDelay = ''config/armed_night_exit_delay''"
definition RConfigArmedNightTriggerDuration :: string where [suffixes]: "RConfigArmedNightTriggerDuration = ''config/armed_night_trigger_duration''"
definition RConfigArmedStayEntryDelay :: string where [suffixes]: "RConfigArmedStayEntryDelay = ''config/armed_stay_entry_delay''"
definition RConfigArmedStayExitDelay :: string where [suffixes]: "RConfigArmedStayExitDelay = ''config/armed_stay_exit_delay''"
definition RConfigArmedStayTriggerDuration :: string where [suffixes]: "RConfigArmedStayTriggerDuration = ''config/armed_stay_trigger_duration''"
definition RConfigBattery :: string where [suffixes]: "RConfigBattery = ''config/battery''"
definition RConfigBatteryBis :: string where [suffixes]: "RConfigBatteryBis = ''config/battery_bis''"
definition RConfigBriCoupleCt :: string where [suffixes]: "RConfigBriCoupleCt = ''config/bri/couple_ct''"
definition RConfigBriExecuteIfOff :: string where [suffixes]: "RConfigBriExecuteIfOff = ''config/bri/execute_if_off''"
definition RConfigBriMax :: string where [suffixes]: "RConfigBriMax = ''config/bri/max''"
definition RConfigBriMin :: string where [suffixes]: "RConfigBriMin = ''config/bri/min''"
definition RConfigBriOnLevel :: string where [suffixes]: "RConfigBriOnLevel = ''config/bri/on_level''"
definition RConfigBriOnOffTransitiontime :: string where [suffixes]: "RConfigBriOnOffTransitiontime = ''config/bri/onoff_transitiontime''"
definition RConfigBriOptions :: string where [suffixes]: "RConfigBriOptions = ''config/bri/options''"
definition RConfigBriStartup :: string where [suffixes]: "RConfigBriStartup = ''config/bri/startup''"
definition RConfigCheckin :: string where [suffixes]: "RConfigCheckin = ''config/checkin''"
definition RConfigClickMode :: string where [suffixes]: "RConfigClickMode = ''config/clickmode''"
definition RConfigColorCapabilities :: string where [suffixes]: "RConfigColorCapabilities = ''config/colorcapabilities''"
definition RConfigColorCtStartup :: string where [suffixes]: "RConfigColorCtStartup = ''config/color/ct/startup''"
definition RConfigColorExecuteIfOff :: string where [suffixes]: "RConfigColorExecuteIfOff = ''config/color/execute_if_off''"
definition RConfigColorGradientPixelCount :: string where [suffixes]: "RConfigColorGradientPixelCount = ''config/color/gradient/pixel_count''"
definition RConfigColorGradientReversed :: string where [suffixes]: "RConfigColorGradientReversed = ''config/color/gradient/reversed''"
definition RConfigColorXyStartupX :: string where [suffixes]: "RConfigColorXyStartupX = ''config/color/xy/startup_x''"
definition RConfigColorXyStartupY :: string where [suffixes]: "RConfigColorXyStartupY = ''config/color/xy/startup_y''"
definition RConfigConfigured :: string where [suffixes]: "RConfigConfigured = ''config/configured''"
definition RConfigTuyaUnlock :: string where [suffixes]: "RConfigTuyaUnlock = ''config/tuya_unlock''"
definition RConfigControlSequence :: string where [suffixes]: "RConfigControlSequence = ''config/controlsequence''"
definition RConfigCoolSetpoint :: string where [suffixes]: "RConfigCoolSetpoint = ''config/coolsetpoint''"
definition RConfigCtMax :: string where [suffixes]: "RConfigCtMax = ''config/ctmax''"
definition RConfigCtMin :: string where [suffixes]: "RConfigCtMin = ''config/ctmin''"
definition RConfigDelay :: string where [suffixes]: "RConfigDelay = ''config/delay''"
definition RConfigDetectionRange :: string where [suffixes]: "RConfigDetectionRange = ''config/detectionrange''"
definition RConfigDeviceMode :: string where [suffixes]: "RConfigDeviceMode = ''config/devicemode''"
definition RConfigDeviceModeBis :: string where [suffixes]: "RConfigDeviceModeBis = ''config/devicemode_bis''"
definition RConfigDisarmedEntryDelay :: string where [suffixes]: "RConfigDisarmedEntryDelay = ''config/disarmed_entry_delay''"
definition RConfigDisarmedExitDelay :: string where [suffixes]: "RConfigDisarmedExitDelay = ''config/disarmed_exit_delay''"
definition RConfigDisplayFlipped :: string where [suffixes]: "RConfigDisplayFlipped = ''config/displayflipped''"
definition RConfigDuration :: string where [suffixes]: "RConfigDuration = ''config/duration''"
definition RConfigEnrolled :: string where [suffixes]: "RConfigEnrolled = ''config/enrolled''"
definition RConfigExternalTemperatureSensor :: string where [suffixes]: "RConfigExternalTemperatureSensor = ''config/externalsensortemp''"
definition RConfigExternalWindowOpen :: string where [suffixes]: "RConfigExternalWindowOpen = ''config/externalwindowopen''"
definition RConfigFanMode :: string where [suffixes]: "RConfigFanMode = ''config/fanmode''"
definition RConfigFilterLifeTime :: string where [suffixes]: "RConfigFilterLifeTime = ''config/filterlifetime''"
definition RConfigGPDDeviceId :: string where [suffixes]: "RConfigGPDDeviceId = ''config/gpd_device_id''"
definition RConfigGPDKey :: string where [suffixes]: "RConfigGPDKey = ''config/gpd_key''"
definition RConfigGroup :: string where [suffixes]: "RConfigGroup = ''config/group''"
definition RConfigHeatSetpoint :: string where [suffixes]: "RConfigHeatSetpoint = ''config/heatsetpoint''"
definition RConfigHostFlags :: string where [suffixes]: "RConfigHostFlags = ''config/hostflags''"
definition RConfigHumiMaxThreshold :: string where [suffixes]: "RConfigHumiMaxThreshold = ''config/humiditymaxthreshold''"
definition RConfigHumiMinThreshold :: string where [suffixes]: "RConfigHumiMinThreshold = ''config/humidityminthreshold''"
definition RConfigInterfaceMode :: string where [suffixes]: "RConfigInterfaceMode = ''config/interfacemode''"
definition RConfigLastChangeAmount :: string where [suffixes]: "RConfigLastChangeAmount = ''config/lastchange/amount''"
definition RConfigLastChangeSource :: string where [suffixes]: "RConfigLastChangeSource = ''config/lastchange/source''"
definition RConfigLastChangeTime :: string where [suffixes]: "RConfigLastChangeTime = ''config/lastchange/time''"
definition RConfigLat :: string where [suffixes]: "RConfigLat = ''config/lat''"
definition RConfigLedIndication :: string where [suffixes]: "RConfigLedIndication = ''config/ledindication''"
definition RConfigLoadBalancing :: string where [suffixes]: "RConfigLoadBalancing = ''config/loadbalancing''"
definition RConfigLocalTime :: string where [suffixes]: "RConfigLocalTime = ''config/localtime''"
definition RConfigLock :: string where [suffixes]: "RConfigLock = ''config/lock''"
definition RConfigLocked :: string where [suffixes]: "RConfigLocked = ''config/locked''"
definition RConfigLong :: string where [suffixes]: "RConfigLong = ''config/long''"
definition RConfigMelody :: string where [suffixes]: "RConfigMelody = ''config/melody''"
definition RConfigMode :: string where [suffixes]: "RConfigMode = ''config/mode''"
definition RConfigMountingMode :: string where [suffixes]: "RConfigMountingMode = ''config/mountingmode''"
definition RConfigOffset :: string where [suffixes]: "RConfigOffset = ''config/offset''"
definition RConfigOn :: string where [suffixes]: "RConfigOn = ''config/on''"
definition RConfigOnStartup :: string where [suffixes]: "RConfigOnStartup = ''config/on/startup''"
definition RConfigPending :: string where [suffixes]: "RConfigPending = ''config/pending''"
definition RConfigPreset :: string where [suffixes]: "RConfigPreset = ''config/preset''"
definition RConfigPulseConfiguration :: string where [suffixes]: "RConfigPulseConfiguration = ''config/pulseconfiguration''"
definition RConfigRadiatorCovered :: string where [suffixes]: "RConfigRadiatorCovered = ''config/radiatorcovered''"
definition RConfigReachable :: string where [suffixes]: "RConfigReachable = ''config/reachable''"
definition RConfigReportGrid :: string where [suffixes]: "RConfigReportGrid = ''config/reportgrid''"
definition RConfigResetPresence :: string where [suffixes]: "RConfigResetPresence = ''config/resetpresence''"
definition RConfigRestartDevice :: string where [suffixes]: "RConfigRestartDevice = ''config/restart_device''"
definition RConfigReversed :: string where [suffixes]: "RConfigReversed = ''config/reversed''"
definition RConfigSchedule :: string where [suffixes]: "RConfigSchedule = ''config/schedule''"
definition RConfigScheduleOn :: string where [suffixes]: "RConfigScheduleOn = ''config/schedule_on''"
definition RConfigSelfTest :: string where [suffixes]: "RConfigSelfTest = ''config/selftest''"
definition RConfigSensitivity :: string where [suffixes]: "RConfigSensitivity = ''config/sensitivity''"
definition RConfigSensitivityBis :: string where [suffixes]: "RConfigSensitivityBis = ''config/sensitivity_bis''"
definition RConfigSensitivityMax :: string where [suffixes]: "RConfigSensitivityMax = ''config/sensitivitymax''"
definition RConfigSetValve :: string where [suffixes]: "RConfigSetValve = ''config/setvalve''"
definition RConfigSpatialLearning :: string where [suffixes]: "RConfigSpatialLearning = ''config/spatial_learning''"
definition RConfigSpeed :: string where [suffixes]: "RConfigSpeed = ''config/speed''"
definition RConfigSunriseOffset :: string where [suffixes]: "RConfigSunriseOffset = ''config/sunriseoffset''"
definition RConfigSunsetOffset :: string where [suffixes]: "RConfigSunsetOffset = ''config/sunsetoffset''"
definition RConfigSwingMode :: string where [suffixes]: "RConfigSwingMode = ''config/swingmode''"
definition RConfigTempMaxThreshold :: string where [suffixes]: "RConfigTempMaxThreshold = ''config/temperaturemaxthreshold''"
definition RConfigTempMinThreshold :: string where [suffixes]: "RConfigTempMinThreshold = ''config/temperatureminthreshold''"
definition RConfigTemperature :: string where [suffixes]: "RConfigTemperature = ''config/temperature''"
definition RConfigTemperatureMeasurement :: string where [suffixes]: "RConfigTemperatureMeasurement = ''config/temperaturemeasurement''"
definition RConfigTholdDark :: string where [suffixes]: "RConfigTholdDark = ''config/tholddark''"
definition RConfigTholdOffset :: string where [suffixes]: "RConfigTholdOffset = ''config/tholdoffset''"
definition RConfigUnoccupiedHeatSetpoint :: string where [suffixes]: "RConfigUnoccupiedHeatSetpoint = ''config/unoccupiedheatsetpoint''"
definition RConfigTriggerDistance :: string where [suffixes]: "RConfigTriggerDistance = ''config/triggerdistance''"
definition RConfigTriggerDistanceBis :: string where [suffixes]: "RConfigTriggerDistanceBis = ''config/triggerdistance_bis''"
definition RConfigUbisysJ1AdditionalSteps :: string where [suffixes]: "RConfigUbisysJ1AdditionalSteps = ''config/ubisys_j1_additionalsteps''"
definition RConfigUbisysJ1ConfigurationAndStatus :: string where [suffixes]: "RConfigUbisysJ1ConfigurationAndStatus = ''config/ubisys_j1_configurationandstatus''"
definition RConfigUbisysJ1InactivePowerThreshold :: string where [suffixes]: "RConfigUbisysJ1InactivePowerThreshold = ''config/ubisys_j1_inactivepowerthreshold''"
definition RConfigUbisysJ1InstalledClosedLimitLift :: string where [suffixes]: "RConfigUbisysJ1InstalledClosedLimitLift = ''config/ubisys_j1_installedclosedlimitlift''"
definition RConfigUbisysJ1InstalledClosedLimitTilt :: string where [suffixes]: "RConfigUbisysJ1InstalledClosedLimitTilt = ''config/ubisys_j1_installedclosedlimittilt''"
definition RConfigUbisysJ1InstalledOpenLimitLift :: string where [suffixes]: "RConfigUbisysJ1InstalledOpenLimitLift = ''config/ubisys_j1_installedopenlimitlift''"
definition RConfigUbisysJ1InstalledOpenLimitTilt :: string where [suffixes]: "RConfigUbisysJ1InstalledOpenLimitTilt = ''config/ubisys_j1_installedopenlimittilt''"
definition RConfigUbisysJ1LiftToTiltTransitionSteps :: string where [suffixes]: "RConfigUbisysJ1LiftToTiltTransitionSteps = ''config/ubisys_j1_lifttotilttransitionsteps''"
definition RConfigUbisysJ1LiftToTiltTransitionSteps2 :: string where [suffixes]: "RConfigUbisysJ1LiftToTiltTransitionSteps2 = ''config/ubisys_j1_lifttotilttransitionsteps2''"
definition RConfigUbisysJ1Mode :: string where [suffixes]: "RConfigUbisysJ1Mode = ''config/ubisys_j1_mode''"
definition RConfigUbisysJ1StartupSteps :: string where [suffixes]: "RConfigUbisysJ1StartupSteps = ''config/ubisys_j1_startupsteps''"
definition RConfigUbisysJ1TotalSteps :: string where [suffixes]: "RConfigUbisysJ1TotalSteps = ''config/ubisys_j1_totalsteps''"
definition RConfigUbisysJ1TotalSteps2 :: string where [suffixes]: "RConfigUbisysJ1TotalSteps2 = ''config/ubisys_j1_totalsteps2''"
definition RConfigUbisysJ1TurnaroundGuardTime :: string where [suffixes]: "RConfigUbisysJ1TurnaroundGuardTime = ''config/ubisys_j1_turnaroundguardtime''"
definition RConfigUbisysJ1WindowCoveringType :: string where [suffixes]: "RConfigUbisysJ1WindowCoveringType = ''config/ubisys_j1_windowcoveringtype''"
definition RConfigUrl :: string where [suffixes]: "RConfigUrl = ''config/url''"
definition RConfigUsertest :: string where [suffixes]: "RConfigUsertest = ''config/usertest''"
definition RConfigVolume :: string where [suffixes]: "RConfigVolume = ''config/volume''"
definition RConfigWindowCoveringType :: string where [suffixes]: "RConfigWindowCoveringType = ''config/windowcoveringtype''"
definition RConfigWindowOpen :: string where [suffixes]: "RConfigWindowOpen = ''config/windowopen_set''"
definition RConfigWindowOpenDetectionEnabled :: string where [suffixes]: "RConfigWindowOpenDetectionEnabled = ''config/windowopendetectionenabled''"

end
