(* ===== verification/Res_Descriptor.thy ===== *)
theory Res_Descriptor
  imports Res_Suffix "HOL-Library.Char_ord" "HOL-Library.List_Lexorder"
begin

text \<open>
  The descriptors of resource items (\<^verbatim>\<open>resource.h\<close>, \<^verbatim>\<open>resource.cpp\<close>): data types, the table that
  \<^verbatim>\<open>initResourceDescriptors\<close> builds, and the two operations on it. The table is the argument \<open>ds\<close> of
  every operation that reads it.
\<close>

section \<open>Types\<close>

datatype ApiDataType =
    DataTypeUnknown
  | DataTypeBool
  | DataTypeUInt8
  | DataTypeUInt16
  | DataTypeUInt32
  | DataTypeUInt64
  | DataTypeInt8
  | DataTypeInt16
  | DataTypeInt32
  | DataTypeInt64
  | DataTypeReal
  | DataTypeString
  | DataTypeTime
  | DataTypeTimePattern

text \<open>The types of \<^verbatim>\<open>QVariant\<close> that descriptors name.\<close>

datatype qvariant_type = QVInvalid | QVBool | QVDouble | QVString

definition FlagNeedPushSet :: u16 where "FlagNeedPushSet = 0x01"
definition FlagNeedPushChange :: u16 where "FlagNeedPushChange = 0x02"
definition FlagPushOnSet :: u16 where "FlagPushOnSet = 0x04"
definition FlagPushOnChange :: u16 where "FlagPushOnChange = 0x08"
definition FlagAwakeOnSet :: u16 where "FlagAwakeOnSet = 0x10"
definition FlagImplicit :: u16 where "FlagImplicit = 0x20"
definition FlagNeedStore :: u16 where "FlagNeedStore = 0x80"
definition FlagZclUnsupportedAttr :: u16 where "FlagZclUnsupportedAttr = 0x100"

text \<open>The range is kept as integers: the code converts it to \<^verbatim>\<open>double\<close>, which is exact for every bound of the table.\<close>

record descriptor =
  rd_type :: ApiDataType
  rd_qvariant_type :: qvariant_type
  rd_suffix :: string
  rd_min :: int
  rd_max :: int
  rd_flags :: u16

definition rid_range :: "ApiDataType \<Rightarrow> qvariant_type \<Rightarrow> string \<Rightarrow> int \<Rightarrow> int \<Rightarrow> descriptor" where
  "rid_range t v s lo hi = \<lparr>rd_type = t, rd_qvariant_type = v, rd_suffix = s, rd_min = lo, rd_max = hi, rd_flags = 0\<rparr>"

definition rid :: "ApiDataType \<Rightarrow> qvariant_type \<Rightarrow> string \<Rightarrow> descriptor" where
  "rid t v s = rid_range t v s 0 0"

text \<open>\<^verbatim>\<open>rItemDescriptors.back().flags |= ResourceItem::FlagPushOnSet\<close>\<close>

definition rid_push_on_set :: "ApiDataType \<Rightarrow> qvariant_type \<Rightarrow> string \<Rightarrow> descriptor" where
  "rid_push_on_set t v s = (rid t v s)\<lparr>rd_flags := 0 OR FlagPushOnSet\<rparr>"

definition rid_isValid :: "descriptor \<Rightarrow> bool" where
  "rid_isValid r \<longleftrightarrow> rd_type r \<noteq> DataTypeUnknown"

section \<open>The table\<close>

definition descriptors_attr :: "descriptor list" where
  "descriptors_attr =
    [rid DataTypeUnknown QVInvalid RInvalidSuffix,
     rid DataTypeUInt32 QVDouble RAttrAppVersion,
     rid DataTypeString QVString RAttrClass,
     rid DataTypeUInt32 QVDouble RAttrConfigId,
     rid DataTypeString QVString RAttrDdfHash,
     rid DataTypeString QVString RAttrDdfPolicy,
     rid DataTypeUInt64 QVDouble RAttrExtAddress,
     rid DataTypeUInt16 QVDouble RAttrGroupAddress,
     rid DataTypeString QVString RAttrId,
     rid DataTypeTime QVString RAttrLastAnnounced,
     rid DataTypeTime QVString RAttrLastSeen,
     rid DataTypeUInt8 QVDouble RAttrLevelMin,
     rid DataTypeString QVString RAttrManufacturerName,
     rid DataTypeUInt32 QVDouble RAttrMode,
     rid DataTypeString QVString RAttrModelId,
     rid DataTypeString QVString RAttrName,
     rid DataTypeUInt16 QVDouble RAttrNwkAddress,
     rid DataTypeUInt32 QVDouble RCapOtauFileVersion,
     rid DataTypeUInt16 QVDouble RCapOtauImageType,
     rid DataTypeUInt16 QVDouble RCapOtauManufacturerCode,
     rid DataTypeUInt32 QVDouble RAttrOtaVersion,
     rid DataTypeUInt16 QVDouble RAttrPowerOnCt,
     rid DataTypeUInt8 QVDouble RAttrPowerOnLevel,
     rid DataTypeUInt32 QVDouble RAttrPowerup,
     rid DataTypeString QVString RAttrProductId,
     rid DataTypeString QVString RAttrProductName,
     rid DataTypeString QVString RAttrSwconfigid,
     rid DataTypeString QVString RAttrSwVersion,
     rid DataTypeString QVString RAttrSwVersionBis,
     rid DataTypeString QVString RAttrType,
     rid DataTypeString QVString RAttrUniqueId,
     rid DataTypeUInt16 QVDouble RAttrZoneType,
     rid DataTypeString QVString RActionScene]"

definition descriptors_state :: "descriptor list" where
  "descriptors_state =
    [rid DataTypeString QVString RStateAction,
     rid DataTypeString QVString RStateAirQuality,
     rid DataTypeString QVString RStateAirQualityBis,
     rid DataTypeUInt16 QVDouble RStateAirQualityPpb,
     rid DataTypeUInt16 QVDouble RStateAirQualityPpbBis,
     rid DataTypeBool QVBool RStateAlarm,
     rid DataTypeString QVString RStateAlert,
     rid DataTypeBool QVBool RStateAllOn,
     rid DataTypeInt16 QVDouble RStateAngle,
     rid DataTypeBool QVBool RStateAnyOn,
     rid DataTypeUInt32 QVString RStateArmState,
     rid_range DataTypeUInt8 QVDouble RStateBattery (0) 100,
     rid DataTypeUInt8 QVDouble RStateBri,
     rid_push_on_set DataTypeInt32 QVDouble RStateButtonEvent,
     rid DataTypeBool QVBool RStateCarbonMonoxide,
     rid DataTypeBool QVBool RStateCharging,
     rid DataTypeString QVString RStateColorMode,
     rid DataTypeUInt64 QVDouble RStateConsumption,
     rid DataTypeUInt64 QVDouble RStateConsumption_2,
     rid DataTypeUInt16 QVDouble RStateCt,
     rid DataTypeUInt16 QVDouble RStateCurrent,
     rid DataTypeUInt16 QVDouble RStateCurrent_P1,
     rid DataTypeUInt16 QVDouble RStateCurrent_P2,
     rid DataTypeUInt16 QVDouble RStateCurrent_P3,
     rid DataTypeBool QVBool RStateDark,
     rid DataTypeBool QVBool RStateDaylight,
     rid DataTypeUInt32 QVDouble RStateDeviceRunTime,
     rid DataTypeString QVString RStateEffect,
     rid DataTypeString QVString RStateErrorCode,
     rid DataTypeUInt32 QVDouble RStateEventDuration,
     rid DataTypeUInt16 QVDouble RStateExpectedEventDuration,
     rid DataTypeInt16 QVDouble RStateExpectedRotation,
     rid DataTypeUInt32 QVDouble RStateFilterRunTime,
     rid DataTypeBool QVBool RStateFire,
     rid DataTypeBool QVBool RStateFlag,
     rid_range DataTypeInt16 QVDouble RStateFloorTemperature (-27315) 32767,
     rid DataTypeUInt32 QVDouble RStateGPDFrameCounter,
     rid DataTypeUInt64 QVDouble RStateGPDLastPair,
     rid DataTypeInt32 QVDouble RStateGesture,
     rid DataTypeString QVString RStateGradient,
     rid DataTypeBool QVBool RStateHeating,
     rid DataTypeUInt16 QVDouble RStateHue,
     rid_range DataTypeUInt16 QVDouble RStateHumidity (0) 10000,
     rid_range DataTypeUInt16 QVDouble RStateHumidityBis (0) 10000,
     rid DataTypeTime QVString RStateLastCheckin,
     rid DataTypeTime QVString RStateLastSet,
     rid DataTypeTime QVString RStateLastUpdated,
     rid DataTypeUInt8 QVDouble RStateLift,
     rid_range DataTypeUInt16 QVDouble RStateLightLevel (0) 0xfffe,
     rid DataTypeTime QVString RStateLocaltime,
     rid DataTypeString QVString RStateLockState,
     rid DataTypeBool QVBool RStateLowBattery,
     rid DataTypeUInt32 QVDouble RStateLux,
     rid DataTypeReal QVDouble RStateMeasuredValue,
     rid DataTypeInt16 QVDouble RStateMoisture,
     rid DataTypeBool QVBool RStateMountingModeActive,
     rid DataTypeBool QVBool RStateMusicSync,
     rid DataTypeBool QVBool RStateOn,
     rid DataTypeBool QVBool RStateOpen,
     rid DataTypeBool QVBool RStateOpenBis,
     rid DataTypeInt16 QVDouble RStateOrientationX,
     rid DataTypeInt16 QVDouble RStateOrientationY,
     rid DataTypeInt16 QVDouble RStateOrientationZ,
     rid DataTypeUInt16 QVDouble RStatePM2_5,
     rid DataTypeString QVString RStatePanel,
     rid DataTypeInt16 QVDouble RStatePower,
     rid DataTypeUInt16 QVDouble RStatePowerDivisor,
     rid DataTypeBool QVBool RStatePresence,
     rid DataTypeString QVString RStatePresenceEvent,
     rid_range DataTypeInt16 QVDouble RStatePressure (0) 32767,
     rid_range DataTypeInt16 QVDouble RStatePressureBis (0) 32767,
     rid DataTypeUInt64 QVDouble RStateProduction,
     rid DataTypeBool QVBool RStateReachable,
     rid DataTypeBool QVBool RStateReplaceFilter,
     rid_push_on_set DataTypeUInt8 QVDouble RStateRotaryEvent,
     rid DataTypeUInt8 QVDouble RStateSat,
     rid DataTypeUInt32 QVDouble RStateSecondsRemaining,
     rid DataTypeUInt16 QVDouble RStateSpectralX,
     rid DataTypeUInt16 QVDouble RStateSpectralY,
     rid DataTypeUInt16 QVDouble RStateSpectralZ,
     rid_range DataTypeUInt8 QVDouble RStateSpeed (0) 255,
     rid DataTypeInt32 QVDouble RStateStatus,
     rid DataTypeTime QVString RStateSunrise,
     rid DataTypeTime QVString RStateSunset,
     rid DataTypeBool QVBool RStateTampered,
     rid_range DataTypeInt16 QVDouble RStateTemperature (-27315) 32767,
     rid_range DataTypeInt16 QVDouble RStateTemperatureBis (-27315) 32767,
     rid DataTypeBool QVBool RStateTest,
     rid DataTypeUInt8 QVDouble RStateTilt,
     rid DataTypeUInt16 QVDouble RStateTiltAngle,
     rid DataTypeTime QVString RStateUtc,
     rid DataTypeUInt8 QVDouble RStateValve,
     rid DataTypeBool QVBool RStateVibration,
     rid DataTypeUInt16 QVDouble RStateVibrationStrength,
     rid DataTypeUInt16 QVDouble RStateVoltage,
     rid DataTypeBool QVBool RStateWater,
     rid DataTypeBool QVBool RStateWaterBis,
     rid DataTypeString QVString RStateWindowOpen,
     rid DataTypeUInt16 QVDouble RStateX,
     rid DataTypeUInt16 QVDouble RStateY]"

definition descriptors_cap :: "descriptor list" where
  "descriptors_cap =
    [rid DataTypeBool QVBool RCapAlertTriggerEffect,
     rid DataTypeUInt16 QVDouble RCapBriMinDimLevel,
     rid DataTypeBool QVBool RCapBriMoveWithOnOff,
     rid DataTypeUInt16 QVDouble RCapColorCapabilities,
     rid DataTypeBool QVBool RCapColorCtComputesXy,
     rid DataTypeUInt16 QVDouble RCapColorCtMax,
     rid DataTypeUInt16 QVDouble RCapColorCtMin,
     rid DataTypeUInt64 QVDouble RCapColorEffects,
     rid DataTypeString QVString RCapColorGamutType,
     rid DataTypeUInt8 QVDouble RCapColorGradientMaxSegments,
     rid DataTypeUInt8 QVDouble RCapColorGradientPixelCount,
     rid DataTypeUInt16 QVDouble RCapColorGradientPixelLength,
     rid DataTypeUInt16 QVDouble RCapColorGradientStyles,
     rid DataTypeUInt16 QVDouble RCapColorXyBlueX,
     rid DataTypeUInt16 QVDouble RCapColorXyBlueY,
     rid DataTypeUInt16 QVDouble RCapColorXyGreenX,
     rid DataTypeUInt16 QVDouble RCapColorXyGreenY,
     rid DataTypeUInt16 QVDouble RCapColorXyRedX,
     rid DataTypeUInt16 QVDouble RCapColorXyRedY,
     rid DataTypeString QVString RCapGroup,
     rid DataTypeBool QVBool RCapGroupsNotSupported,
     rid DataTypeReal QVDouble RCapMeasuredValueMax,
     rid DataTypeReal QVDouble RCapMeasuredValueMin,
     rid DataTypeString QVString RCapMeasuredValueQuantity,
     rid DataTypeString QVString RCapMeasuredValueSubstance,
     rid DataTypeString QVString RCapMeasuredValueUnit,
     rid DataTypeBool QVBool RCapOnOffWithEffect,
     rid DataTypeBool QVBool RCapSleeper,
     rid DataTypeBool QVBool RCapTransitionBlock]"

definition descriptors_config :: "descriptor list" where
  "descriptors_config =
    [rid DataTypeUInt8 QVDouble RConfigAlarmSystemId,
     rid DataTypeString QVString RConfigAlert,
     rid DataTypeBool QVBool RConfigAllowTouchlink,
     rid DataTypeString QVString RConfigArmMode,
     rid_range DataTypeUInt8 QVDouble RConfigArmedAwayEntryDelay (0) 255,
     rid_range DataTypeUInt8 QVDouble RConfigArmedAwayExitDelay (0) 255,
     rid_range DataTypeUInt8 QVDouble RConfigArmedAwayTriggerDuration (0) 255,
     rid_range DataTypeUInt8 QVDouble RConfigArmedNightEntryDelay (0) 255,
     rid_range DataTypeUInt8 QVDouble RConfigArmedNightExitDelay (0) 255,
     rid_range DataTypeUInt8 QVDouble RConfigArmedNightTriggerDuration (0) 255,
     rid_range DataTypeUInt8 QVDouble RConfigArmedStayEntryDelay (0) 255,
     rid_range DataTypeUInt8 QVDouble RConfigArmedStayExitDelay (0) 255,
     rid_range DataTypeUInt8 QVDouble RConfigArmedStayTriggerDuration (0) 255,
     rid_range DataTypeUInt8 QVDouble RConfigBattery (0) 100,
     rid_range DataTypeUInt8 QVDouble RConfigBatteryBis (0) 100,
     rid DataTypeBool QVBool RConfigBriCoupleCt,
     rid DataTypeBool QVBool RConfigBriExecuteIfOff,
     rid DataTypeUInt8 QVDouble RConfigBriMax,
     rid DataTypeUInt8 QVDouble RConfigBriMin,
     rid DataTypeUInt8 QVDouble RConfigBriOnLevel,
     rid DataTypeUInt16 QVDouble RConfigBriOnOffTransitiontime,
     rid DataTypeUInt8 QVDouble RConfigBriOptions,
     rid DataTypeUInt8 QVDouble RConfigBriStartup,
     rid DataTypeUInt32 QVDouble RConfigCheckin,
     rid DataTypeString QVString RConfigClickMode,
     rid DataTypeUInt16 QVDouble RConfigColorCapabilities,
     rid DataTypeUInt16 QVDouble RConfigColorCtStartup,
     rid DataTypeBool QVBool RConfigColorExecuteIfOff,
     rid_range DataTypeUInt8 QVDouble RConfigColorGradientPixelCount (5) 50,
     rid DataTypeBool QVBool RConfigColorGradientReversed,
     rid DataTypeUInt16 QVDouble RConfigColorXyStartupX,
     rid DataTypeUInt16 QVDouble RConfigColorXyStartupY,
     rid DataTypeBool QVBool RConfigConfigured,
     rid DataTypeBool QVBool RConfigTuyaUnlock,
     rid DataTypeUInt8 QVDouble RConfigControlSequence,
     rid_range DataTypeInt16 QVDouble RConfigCoolSetpoint (700) 3500,
     rid DataTypeUInt16 QVDouble RConfigCtMax,
     rid DataTypeUInt16 QVDouble RConfigCtMin,
     rid DataTypeUInt16 QVDouble RConfigDelay,
     rid DataTypeUInt32 QVDouble RConfigDetectionRange,
     rid DataTypeString QVString RConfigDeviceMode,
     rid DataTypeString QVString RConfigDeviceModeBis,
     rid_range DataTypeUInt8 QVDouble RConfigDisarmedEntryDelay (0) 255,
     rid_range DataTypeUInt8 QVDouble RConfigDisarmedExitDelay (0) 255,
     rid DataTypeBool QVBool RConfigDisplayFlipped,
     rid DataTypeUInt16 QVDouble RConfigDuration,
     rid DataTypeUInt32 QVDouble RConfigEnrolled,
     rid DataTypeInt16 QVDouble RConfigExternalTemperatureSensor,
     rid DataTypeBool QVBool RConfigExternalWindowOpen,
     rid DataTypeString QVString RConfigFanMode,
     rid DataTypeUInt32 QVDouble RConfigFilterLifeTime,
     rid DataTypeUInt16 QVDouble RConfigGPDDeviceId,
     rid DataTypeString QVString RConfigGPDKey,
     rid DataTypeString QVString RConfigGroup,
     rid_range DataTypeInt16 QVDouble RConfigHeatSetpoint (500) 3200,
     rid_range DataTypeInt16 QVDouble RConfigUnoccupiedHeatSetpoint (500) 3200,
     rid DataTypeUInt32 QVDouble RConfigHostFlags,
     rid DataTypeInt8 QVDouble RConfigHumiMaxThreshold,
     rid DataTypeInt8 QVDouble RConfigHumiMinThreshold,
     rid DataTypeUInt8 QVDouble RConfigInterfaceMode,
     rid DataTypeInt16 QVDouble RConfigLastChangeAmount,
     rid DataTypeUInt8 QVDouble RConfigLastChangeSource,
     rid DataTypeTime QVString RConfigLastChangeTime,
     rid DataTypeString QVString RConfigLat,
     rid DataTypeBool QVBool RConfigLedIndication,
     rid DataTypeBool QVBool RConfigLoadBalancing,
     rid DataTypeTime QVString RConfigLocalTime,
     rid DataTypeBool QVBool RConfigLock,
     rid DataTypeBool QVBool RConfigLocked,
     rid DataTypeString QVString RConfigLong,
     rid DataTypeUInt8 QVDouble RConfigMelody,
     rid DataTypeString QVString RConfigMode,
     rid DataTypeBool QVBool RConfigMountingMode,
     rid_range DataTypeInt16 QVDouble RConfigOffset (-32768) 32767,
     rid DataTypeBool QVBool RConfigOn,
     rid DataTypeUInt8 QVDouble RConfigOnStartup,
     rid DataTypeUInt16 QVDouble RConfigPending,
     rid DataTypeString QVString RConfigPreset,
     rid DataTypeUInt16 QVDouble RConfigPulseConfiguration,
     rid DataTypeBool QVBool RConfigRadiatorCovered,
     rid DataTypeBool QVBool RConfigReachable,
     rid DataTypeBool QVBool RConfigReportGrid,
     rid DataTypeBool QVBool RConfigResetPresence,
     rid DataTypeBool QVBool RConfigRestartDevice,
     rid DataTypeBool QVBool RConfigReversed,
     rid DataTypeString QVString RConfigSchedule,
     rid DataTypeBool QVBool RConfigScheduleOn,
     rid DataTypeBool QVBool RConfigSelfTest,
     rid DataTypeUInt8 QVDouble RConfigSensitivity,
     rid DataTypeUInt8 QVDouble RConfigSensitivityBis,
     rid DataTypeUInt8 QVDouble RConfigSensitivityMax,
     rid DataTypeBool QVBool RConfigSpatialLearning,
     rid DataTypeInt8 QVDouble RConfigSpeed,
     rid DataTypeBool QVBool RConfigSetValve,
     rid_range DataTypeInt8 QVDouble RConfigSunriseOffset (-120) 120,
     rid_range DataTypeInt8 QVDouble RConfigSunsetOffset (-120) 120,
     rid DataTypeString QVString RConfigSwingMode,
     rid DataTypeInt8 QVDouble RConfigTempMaxThreshold,
     rid DataTypeInt8 QVDouble RConfigTempMinThreshold,
     rid_range DataTypeInt16 QVDouble RConfigTemperature (-27315) 32767,
     rid DataTypeString QVString RConfigTemperatureMeasurement,
     rid_range DataTypeUInt16 QVDouble RConfigTholdDark (0) 0xfffe,
     rid_range DataTypeUInt16 QVDouble RConfigTholdOffset (1) 0xfffe,
     rid DataTypeString QVString RConfigTriggerDistance,
     rid DataTypeString QVString RConfigTriggerDistanceBis,
     rid DataTypeUInt8 QVDouble RConfigUbisysJ1AdditionalSteps,
     rid DataTypeUInt8 QVDouble RConfigUbisysJ1ConfigurationAndStatus,
     rid DataTypeUInt16 QVDouble RConfigUbisysJ1InactivePowerThreshold,
     rid DataTypeUInt16 QVDouble RConfigUbisysJ1InstalledClosedLimitLift,
     rid DataTypeUInt16 QVDouble RConfigUbisysJ1InstalledClosedLimitTilt,
     rid DataTypeUInt16 QVDouble RConfigUbisysJ1InstalledOpenLimitLift,
     rid DataTypeUInt16 QVDouble RConfigUbisysJ1InstalledOpenLimitTilt,
     rid DataTypeUInt16 QVDouble RConfigUbisysJ1LiftToTiltTransitionSteps,
     rid DataTypeUInt16 QVDouble RConfigUbisysJ1LiftToTiltTransitionSteps2,
     rid DataTypeUInt8 QVDouble RConfigUbisysJ1Mode,
     rid DataTypeUInt16 QVDouble RConfigUbisysJ1StartupSteps,
     rid DataTypeUInt16 QVDouble RConfigUbisysJ1TotalSteps,
     rid DataTypeUInt16 QVDouble RConfigUbisysJ1TotalSteps2,
     rid DataTypeUInt8 QVDouble RConfigUbisysJ1TurnaroundGuardTime,
     rid DataTypeUInt8 QVDouble RConfigUbisysJ1WindowCoveringType,
     rid DataTypeString QVString RConfigUrl,
     rid DataTypeBool QVBool RConfigUsertest,
     rid DataTypeUInt8 QVDouble RConfigVolume,
     rid DataTypeUInt8 QVDouble RConfigWindowCoveringType,
     rid DataTypeBool QVBool RConfigWindowOpen,
     rid DataTypeBool QVBool RConfigWindowOpenDetectionEnabled]"

definition initResourceDescriptors :: "descriptor list" where
  "initResourceDescriptors = descriptors_attr @ descriptors_state @ descriptors_cap @ descriptors_config"

section \<open>Operations\<close>

text \<open>\<^verbatim>\<open>QString::endsWith\<close>\<close>

definition ends_with :: "string \<Rightarrow> string \<Rightarrow> bool" where
  "ends_with str t \<longleftrightarrow> length t \<le> length str \<and> drop (length str - length t) str = t"

definition getResourceItemDescriptor :: "descriptor list \<Rightarrow> string \<Rightarrow> descriptor option" where
  "getResourceItemDescriptor ds str = List.find (\<lambda>i. ends_with str (rd_suffix i)) ds"

definition R_AddResourceItemDescriptor :: "descriptor list \<Rightarrow> descriptor \<Rightarrow> bool \<times> descriptor list" where
  "R_AddResourceItemDescriptor ds r =
     (if rid_isValid r then
        (if List.find (\<lambda>i. rd_suffix r = rd_suffix i) ds \<noteq> None then (False, ds) else (True, ds @ [r]))
      else (False, ds))"

fun R_DataTypeToString :: "ApiDataType \<Rightarrow> string" where
  "R_DataTypeToString DataTypeUnknown = ''unknown''"
| "R_DataTypeToString DataTypeBool = ''bool''"
| "R_DataTypeToString DataTypeUInt8 = ''uint8''"
| "R_DataTypeToString DataTypeUInt16 = ''uint16''"
| "R_DataTypeToString DataTypeUInt32 = ''uint32''"
| "R_DataTypeToString DataTypeUInt64 = ''uint64''"
| "R_DataTypeToString DataTypeInt8 = ''int8''"
| "R_DataTypeToString DataTypeInt16 = ''int16''"
| "R_DataTypeToString DataTypeInt32 = ''int32''"
| "R_DataTypeToString DataTypeInt64 = ''int64''"
| "R_DataTypeToString DataTypeReal = ''double''"
| "R_DataTypeToString DataTypeString = ''string''"
| "R_DataTypeToString DataTypeTime = ''ISO 8601 timestamp''"
| "R_DataTypeToString DataTypeTimePattern = ''time pattern''"

section \<open>The table has no two descriptors for one name\<close>

text \<open>
  The table is sorted but for a few entries, so that comparing neighbours and comparing the few
  exceptions with each other suffices.
\<close>

lemma distinct_partition: "distinct xs \<longleftrightarrow> distinct (filter P xs) \<and> distinct (filter (\<lambda>x. \<not> P x) xs)"
proof (induction xs)
  case (Cons x xs)
  then show ?case by (cases "P x") (auto simp del: distinct_filter)
qed simp

fun ascending :: "'a::linorder \<Rightarrow> 'a list \<Rightarrow> bool" where
  "ascending a [] \<longleftrightarrow> True"
| "ascending a (x # xs) \<longleftrightarrow> a < x \<and> ascending x xs"

lemma ascending_lower: "ascending a xs \<Longrightarrow> \<forall>x \<in> set xs. a < x"
proof (induction xs arbitrary: a)
  case (Cons x xs)
  then have "a < x" "\<forall>y \<in> set xs. x < y" by auto
  then show ?case by auto
qed simp

lemma ascending_distinct: "ascending a xs \<Longrightarrow> distinct xs"
proof (induction xs arbitrary: a)
  case (Cons x xs)
  then show ?case using ascending_lower [of x xs] by auto
qed simp

lemma sorted_but_distinct:
  "ascending a (filter (\<lambda>x. x \<notin> set es) xs) \<Longrightarrow> distinct (filter (\<lambda>x. x \<in> set es) xs) \<Longrightarrow> distinct xs"
  by (subst distinct_partition [where P = "\<lambda>x. x \<notin> set es"]) (auto dest: ascending_distinct)

fun starts_with :: "string \<Rightarrow> string \<Rightarrow> bool" where
  "starts_with [] s \<longleftrightarrow> True"
| "starts_with (c # cs) [] \<longleftrightarrow> False"
| "starts_with (c # cs) (d # ds) \<longleftrightarrow> c = d \<and> starts_with cs ds"

text \<open>The name begins with one of the kinds \<^verbatim>\<open>attr\<close>, \<^verbatim>\<open>action\<close>, \<^verbatim>\<open>state\<close>, \<^verbatim>\<open>config\<close>, \<^verbatim>\<open>cap\<close>, \<^verbatim>\<open>invalid\<close> and a slash.\<close>

fun kind_start :: "string \<Rightarrow> bool" where
  "kind_start [] \<longleftrightarrow> False"
| "kind_start (c # s) \<longleftrightarrow>
     (if c = CHR ''a'' then starts_with ''ttr/'' s \<or> starts_with ''ction/'' s
      else if c = CHR ''s'' then starts_with ''tate/'' s
      else if c = CHR ''c'' then starts_with ''onfig/'' s \<or> starts_with ''ap/'' s
      else c = CHR ''i'' \<and> starts_with ''nvalid/'' s)"

fun kind_inside :: "string \<Rightarrow> bool" where
  "kind_inside [] \<longleftrightarrow> False"
| "kind_inside (c # s) \<longleftrightarrow> kind_start s \<or> kind_inside s"

lemmas table_defs = rid_def rid_range_def rid_push_on_set_def suffixes

text \<open>What a lookup relies on: the names of a part of the table, their kind and their order.\<close>

definition part_ok :: "string \<Rightarrow> descriptor list \<Rightarrow> bool" where
  "part_ok k ds \<longleftrightarrow> list_all (\<lambda>s. starts_with k s \<and> kind_start s \<and> \<not> kind_inside s) (map rd_suffix ds)"

lemma part_state: "part_ok ''state/'' descriptors_state"
  by (simp add: part_ok_def descriptors_state_def table_defs)

lemma part_config: "part_ok ''config/'' descriptors_config"
  by (simp add: part_ok_def descriptors_config_def table_defs)

lemma part_attr: "part_ok [] descriptors_attr"
  by (simp add: part_ok_def descriptors_attr_def table_defs)

lemma part_cap: "part_ok ''cap/'' descriptors_cap"
  by (simp add: part_ok_def descriptors_cap_def table_defs)

lemma attr_not_other:
  "list_all (\<lambda>s. \<not> starts_with ''state/'' s \<and> \<not> starts_with ''config/'' s) (map rd_suffix descriptors_attr)"
  by (simp add: descriptors_attr_def table_defs)

lemma state_distinct: "distinct (map rd_suffix descriptors_state)"
  by (rule sorted_but_distinct [of "[]" "[''state/gesture'', ''state/panel'']"]) (simp_all add: descriptors_state_def table_defs)

lemma config_distinct: "distinct (map rd_suffix descriptors_config)"
  by (rule sorted_but_distinct [of "[]" "[''config/armmode'', ''config/colorcapabilities'', ''config/tuya_unlock'',
     ''config/unoccupiedheatsetpoint'', ''config/setvalve'', ''config/temperature'', ''config/temperaturemeasurement'']"])
    (simp_all add: descriptors_config_def table_defs)

lemma attr_cap_distinct: "distinct (map rd_suffix (descriptors_attr @ descriptors_cap))"
  by (rule sorted_but_distinct [of "[]" "[''invalid/suffix'', ''cap/otau/file_version'', ''cap/otau/image_type'',
     ''cap/otau/manufacturer_code'', ''action/scene'']"])
    (simp_all add: descriptors_attr_def descriptors_cap_def table_defs)

lemma disjoint_by: "list_all P xs \<Longrightarrow> list_all (\<lambda>s. \<not> P s) ys \<Longrightarrow> set xs \<inter> set ys = {}"
  by (auto simp: list_all_iff)

lemma starts_with_hd: "starts_with (c # cs) s \<Longrightarrow> starts_with cs (tl s) \<and> (\<exists>ds. s = c # ds)"
  by (cases s) auto

lemma kinds_differ:
  "starts_with ''config/'' s \<Longrightarrow> \<not> starts_with ''state/'' s"
  "starts_with ''cap/'' s \<Longrightarrow> \<not> starts_with ''state/'' s"
  "starts_with ''cap/'' s \<Longrightarrow> \<not> starts_with ''config/'' s"
  by (auto dest!: starts_with_hd)

lemma list_all_mono: "list_all P xs \<Longrightarrow> (\<And>x. P x \<Longrightarrow> Q x) \<Longrightarrow> list_all Q xs"
  by (simp add: list_all_iff)

lemma names_distinct: "distinct (map rd_suffix initResourceDescriptors)"
proof -
  let ?n = "map rd_suffix"
  have st: "list_all (starts_with ''state/'') (?n descriptors_state)"
    and co: "list_all (starts_with ''config/'') (?n descriptors_config)"
    and ca: "list_all (starts_with ''cap/'') (?n descriptors_cap)"
    using part_state part_config part_cap unfolding part_ok_def by (auto elim: list_all_mono)
  have at: "list_all (\<lambda>s. \<not> starts_with ''state/'' s) (?n descriptors_attr)" "list_all (\<lambda>s. \<not> starts_with ''config/'' s) (?n descriptors_attr)"
    using attr_not_other by (auto elim: list_all_mono)
  have "set (?n descriptors_state) \<inter> set (?n descriptors_attr) = {}" "set (?n descriptors_state) \<inter> set (?n descriptors_cap) = {}"
    "set (?n descriptors_state) \<inter> set (?n descriptors_config) = {}"
    by (rule disjoint_by [OF st]; rule at(1) list_all_mono [OF ca] list_all_mono [OF co], (rule kinds_differ, assumption)?)+
  moreover have "set (?n descriptors_config) \<inter> set (?n descriptors_attr) = {}" "set (?n descriptors_config) \<inter> set (?n descriptors_cap) = {}"
    by (rule disjoint_by [OF co]; rule at(2) list_all_mono [OF ca], (rule kinds_differ, assumption)?)+
  ultimately show ?thesis
    using state_distinct config_distinct attr_cap_distinct
    unfolding initResourceDescriptors_def map_append distinct_append set_append
    by (simp add: Int_Un_distrib Int_Un_distrib2 Int_commute)
qed

lemma names_kind:
  assumes "r \<in> set initResourceDescriptors"
  shows "kind_start (rd_suffix r)" "\<not> kind_inside (rd_suffix r)"
  using assms part_state part_config part_attr part_cap by (auto simp: initResourceDescriptors_def part_ok_def list_all_iff)

lemma kind_inside_drop: "kind_start (drop (Suc n) s) \<Longrightarrow> kind_inside s"
proof (induction s arbitrary: n)
  case (Cons c s)
  then show ?case by (cases n) (simp_all del: kind_start.simps)
qed simp

text \<open>No name of the table is the end of another.\<close>

lemma names_suffix_free:
  assumes "r \<in> set initResourceDescriptors" "t \<in> set initResourceDescriptors" "ends_with (rd_suffix r) (rd_suffix t)"
  shows "rd_suffix r = rd_suffix t"
proof (rule ccontr)
  assume ne: "rd_suffix r \<noteq> rd_suffix t"
  let ?n = "length (rd_suffix r) - length (rd_suffix t)"
  have d: "drop ?n (rd_suffix r) = rd_suffix t" "length (rd_suffix t) \<le> length (rd_suffix r)"
    using assms(3) by (auto simp: ends_with_def)
  with ne obtain n where n: "?n = Suc n" by (cases ?n) auto
  have "kind_start (drop (Suc n) (rd_suffix r))"
    using names_kind(1) [OF assms(2)] d(1) n by simp
  then show False using kind_inside_drop names_kind(2) [OF assms(1)] by blast
qed


lemma find_unique:
  assumes "r \<in> set xs" "P r" "\<And>x. x \<in> set xs \<Longrightarrow> P x \<Longrightarrow> x = r"
  shows "List.find P xs = Some r"
proof (cases "List.find P xs")
  case None
  then show ?thesis using assms(1,2) by (auto simp: find_None_iff)
next
  case (Some x)
  then have "x \<in> set xs" "P x" by (auto simp: find_Some_iff)
  then show ?thesis using assms(3) Some by simp
qed

lemma ends_with_iff: "ends_with s t \<longleftrightarrow> (\<exists>u. s = u @ t)"
proof
  assume "ends_with s t"
  then show "\<exists>u. s = u @ t"
    by (intro exI [of _ "take (length s - length t) s"]) (metis append_take_drop_id ends_with_def)
qed (auto simp: ends_with_def)

lemma ends_with_append: "ends_with (p @ s) t \<Longrightarrow> length t \<le> length s \<Longrightarrow> ends_with s t"
  by (auto simp: ends_with_iff append_eq_append_conv2)

lemma ends_with_longer: "ends_with (p @ s) t \<Longrightarrow> length s \<le> length t \<Longrightarrow> ends_with t s"
  by (auto simp: ends_with_iff append_eq_append_conv2)

lemma lookup_name:
  assumes r: "r \<in> set initResourceDescriptors"
  shows "getResourceItemDescriptor initResourceDescriptors (p @ rd_suffix r) = Some r"
  unfolding getResourceItemDescriptor_def
proof (rule find_unique [OF r])
  show "ends_with (p @ rd_suffix r) (rd_suffix r)" by (simp add: ends_with_def)
  fix x assume x: "x \<in> set initResourceDescriptors" "ends_with (p @ rd_suffix r) (rd_suffix x)"
  have "rd_suffix x = rd_suffix r"
  proof (cases "length (rd_suffix x) \<le> length (rd_suffix r)")
    case True
    then show ?thesis using names_suffix_free [OF r x(1)] ends_with_append [OF x(2)] by simp
  next
    case False
    then show ?thesis using names_suffix_free [OF x(1) r] ends_with_longer [OF x(2)] by simp
  qed
  then show "x = r" using names_distinct r x(1) by (auto simp: distinct_map inj_on_def)
qed


section \<open>Growing the table\<close>

definition table_ok :: "descriptor list \<Rightarrow> bool" where
  "table_ok ds \<longleftrightarrow> distinct (map rd_suffix ds) \<and> (\<exists>r rs. ds = r # rs \<and> \<not> rid_isValid r \<and> (\<forall>r \<in> set rs. rid_isValid r))"

lemma add_descriptor_cases:
  assumes "table_ok ds"
  obtains "R_AddResourceItemDescriptor ds r = (False, ds)" "\<not> rid_isValid r \<or> rd_suffix r \<in> set (map rd_suffix ds)"
    | "R_AddResourceItemDescriptor ds r = (True, ds @ [r])" "rid_isValid r" "rd_suffix r \<notin> set (map rd_suffix ds)" "table_ok (ds @ [r])"
proof (cases "rid_isValid r \<and> rd_suffix r \<notin> set (map rd_suffix ds)")
  case True
  then have "List.find (\<lambda>i. rd_suffix r = rd_suffix i) ds = None" by (force simp: find_None_iff)
  moreover have "table_ok (ds @ [r])" using True assms by (auto simp: table_ok_def)
  ultimately show ?thesis using True that(2) by (simp add: R_AddResourceItemDescriptor_def)
next
  case False
  then have "R_AddResourceItemDescriptor ds r = (False, ds)"
    by (auto simp: R_AddResourceItemDescriptor_def find_None_iff)
  then show ?thesis using False that(1) by blast
qed

lemma valid_types: "list_all rid_isValid (tl initResourceDescriptors)"
  by (simp add: initResourceDescriptors_def descriptors_attr_def descriptors_state_def descriptors_cap_def descriptors_config_def
    rid_def rid_range_def rid_push_on_set_def rid_isValid_def)

lemma table_ok_init: "table_ok initResourceDescriptors"
proof -
  have "initResourceDescriptors = rid DataTypeUnknown QVInvalid RInvalidSuffix # tl initResourceDescriptors"
    by (simp add: initResourceDescriptors_def descriptors_attr_def)
  then show ?thesis
    using names_distinct valid_types unfolding table_ok_def by (metis list_all_iff rid_isValid_def rid_def rid_range_def descriptor.select_convs(1))
qed

section \<open>Ranges\<close>

fun type_range :: "ApiDataType \<Rightarrow> (int \<times> int) option" where
  "type_range DataTypeUInt8 = Some (0, 255)"
| "type_range DataTypeUInt16 = Some (0, 65535)"
| "type_range DataTypeUInt32 = Some (0, 4294967295)"
| "type_range DataTypeInt8 = Some (-128, 127)"
| "type_range DataTypeInt16 = Some (-32768, 32767)"
| "type_range DataTypeInt32 = Some (-2147483648, 2147483647)"
| "type_range _ = None"

definition range_ok :: "descriptor \<Rightarrow> bool" where
  "range_ok r \<longleftrightarrow> (rd_min r = 0 \<and> rd_max r = 0) \<or>
     (case type_range (rd_type r) of None \<Rightarrow> False | Some (lo, hi) \<Rightarrow> lo \<le> rd_min r \<and> rd_min r \<le> rd_max r \<and> rd_max r \<le> hi)"

lemma ranges_ok: "list_all range_ok initResourceDescriptors"
  by (simp add: initResourceDescriptors_def descriptors_attr_def descriptors_state_def descriptors_cap_def descriptors_config_def
    rid_def rid_range_def rid_push_on_set_def range_ok_def)

section \<open>Properties\<close>

text \<open>the path of a resource item ends with the name of one descriptor only: whatever is in front of the name of a
  descriptor of the table, \<open>getResourceItemDescriptor\<close> finds that descriptor and no other.\<close>

theorem getResourceItemDescriptor_path:
  "r \<in> set initResourceDescriptors \<Longrightarrow> getResourceItemDescriptor initResourceDescriptors (path @ rd_suffix r) = Some r"
  by (rule lookup_name)

theorem getResourceItemDescriptor_path_witness:
  "getResourceItemDescriptor initResourceDescriptors ''/sensors/5/config/armmode'' = Some (rid DataTypeString QVString RConfigArmMode)"
proof -
  have "rid DataTypeString QVString RConfigArmMode \<in> set initResourceDescriptors"
    by (simp add: initResourceDescriptors_def descriptors_config_def)
  from getResourceItemDescriptor_path [OF this, of "''/sensors/5/''"] show ?thesis
    by (simp add: rid_def rid_range_def RConfigArmMode_def)
qed

text \<open>the table starts well formed (an invalid entry at index 0, valid ones with distinct names behind it, every range inside
  its data type) and \<open>R_AddResourceItemDescriptor\<close> keeps it so: a valid descriptor with a new name is appended, every other is refused.\<close>

theorem resource_descriptors_invariant:
  "table_ok initResourceDescriptors \<and> list_all range_ok initResourceDescriptors \<and>
   (\<forall>ds. table_ok ds \<longrightarrow> table_ok (snd (R_AddResourceItemDescriptor ds r)) \<and>
      R_AddResourceItemDescriptor ds r =
        (if rid_isValid r \<and> rd_suffix r \<notin> set (map rd_suffix ds) then (True, ds @ [r]) else (False, ds)))"
proof (intro conjI allI impI table_ok_init ranges_ok)
  fix ds assume ds: "table_ok ds"
  show "table_ok (snd (R_AddResourceItemDescriptor ds r))"
    by (rule add_descriptor_cases [OF ds, of r]) (simp_all add: ds)
  show "R_AddResourceItemDescriptor ds r =
      (if rid_isValid r \<and> rd_suffix r \<notin> set (map rd_suffix ds) then (True, ds @ [r]) else (False, ds))"
    by (rule add_descriptor_cases [OF ds, of r]) auto
qed

theorem resource_descriptors_invariant_witness:
  "fst (R_AddResourceItemDescriptor initResourceDescriptors (rid DataTypeBool QVBool RStateOn)) = False"
  using resource_descriptors_invariant [of "rid DataTypeBool QVBool RStateOn"]
  by (simp add: initResourceDescriptors_def descriptors_state_def)

end
