(* ===== verification/Res_Item.thy ===== *)
theory Res_Item
  imports Res_Descriptor
begin

text \<open>
  \<open>ResourceItem\<close> (\<^verbatim>\<open>resource.h\<close>, \<^verbatim>\<open>resource.cpp\<close>) and the string cache it stores its atoms in
  (\<^verbatim>\<open>utils/stringcache.cpp\<close>). The atom table, the conversions of \<^verbatim>\<open>QVariant\<close> and the clock are not part of
  the repository; they are arguments.
\<close>

section \<open>String cache\<close>

text \<open>The two operations of the atom table: adding a string (an index, or no room), and the string of an index.\<close>

record 'at atom_ops =
  AT_AddAtom :: "'at \<Rightarrow> string \<Rightarrow> u32 option \<times> 'at"
  AT_GetAtomByIndex :: "'at \<Rightarrow> u32 \<Rightarrow> string option"

datatype StringCacheMode = StringCacheMutable | StringCacheImmutable

definition STRING_CACHE_INVALID_HANDLE :: u32 where
  [simp]: "STRING_CACHE_INVALID_HANDLE = 0"

definition StringCacheAdd :: "'at atom_ops \<Rightarrow> 'at \<Rightarrow> string \<Rightarrow> StringCacheMode \<Rightarrow> u32 \<times> 'at" where
  "StringCacheAdd ops at str mode =
     (if str = [] then (STRING_CACHE_INVALID_HANDLE, at)
      else case mode of
          StringCacheImmutable \<Rightarrow>
            (case AT_AddAtom ops at str of
               (Some i, at) \<Rightarrow> (i, at)
             | (None, at) \<Rightarrow> (STRING_CACHE_INVALID_HANDLE, at))
        | StringCacheMutable \<Rightarrow> (STRING_CACHE_INVALID_HANDLE, at))"

definition StringCacheGet :: "'at atom_ops \<Rightarrow> 'at \<Rightarrow> u32 \<Rightarrow> string option" where
  "StringCacheGet ops at handle =
     (if handle = STRING_CACHE_INVALID_HANDLE then None
      else case AT_GetAtomByIndex ops at handle of
          None \<Rightarrow> None
        | Some s \<Rightarrow> if s \<noteq> [] then Some s else None)"

section \<open>The item\<close>

type_synonym s64 = "64 word"

datatype ValueSource = SourceUnknown | SourceDevice | SourceApi

text \<open>
  \<open>ri_num\<close> is the 64 bit word of the union, read as \<^verbatim>\<open>qint64\<close> or as \<^verbatim>\<open>double\<close>; an invalid
  \<^verbatim>\<open>QDateTime\<close> is \<open>None\<close>, a valid one its milliseconds. The fields that only device description
  code reads (parse function, ZCL parameters, refresh interval, last report) are left out.
\<close>

record resource_item =
  ri_valueSource :: ValueSource
  ri_isPublic :: bool
  ri_flags :: u16
  ri_ridIndex :: nat
  ri_num :: s64
  ri_numPrev :: s64
  ri_strHandle :: u32
  ri_istr :: string
  ri_str :: "string option"
  ri_lastSet :: "int option"
  ri_lastChanged :: "int option"
  ri_rulesInvolved :: "int list"

definition ri_descriptor :: "descriptor list \<Rightarrow> resource_item \<Rightarrow> descriptor" where
  "ri_descriptor ds i = (if length ds \<le> ri_ridIndex i then ds ! 0 else ds ! ri_ridIndex i)"

text \<open>\<^verbatim>\<open>ResourceItem(const ResourceItemDescriptor &)\<close>: the first descriptor with the name; the index is stored in 16 bits.\<close>

fun rid_index :: "descriptor list \<Rightarrow> string \<Rightarrow> nat \<Rightarrow> nat" where
  "rid_index [] s k = 0"
| "rid_index (d # ds) s k = (if rd_suffix d = s then k mod 65536 else rid_index ds s (k + 1))"

definition has_text :: "ApiDataType \<Rightarrow> bool" where
  "has_text t \<longleftrightarrow> t = DataTypeString \<or> t = DataTypeTime \<or> t = DataTypeTimePattern"

definition ri_new :: "descriptor list \<Rightarrow> descriptor \<Rightarrow> resource_item" where
  "ri_new ds r =
     \<lparr>ri_valueSource = SourceUnknown, ri_isPublic = True, ri_flags = rd_flags r OR FlagPushOnChange,
      ri_ridIndex = rid_index ds (rd_suffix r) 0, ri_num = 0, ri_numPrev = 0, ri_strHandle = 0, ri_istr = [],
      ri_str = (if has_text (rd_type r) then Some [] else None), ri_lastSet = None, ri_lastChanged = None, ri_rulesInvolved = []\<rparr>"

section \<open>Flags\<close>

definition ri_needPushSet :: "resource_item \<Rightarrow> bool" where
  "ri_needPushSet i \<longleftrightarrow> 0 < ri_flags i AND FlagNeedPushSet"

definition ri_needPushChange :: "resource_item \<Rightarrow> bool" where
  "ri_needPushChange i \<longleftrightarrow> 0 < ri_flags i AND FlagNeedPushChange"

definition ri_clearNeedPush :: "resource_item \<Rightarrow> resource_item" where
  "ri_clearNeedPush i = i\<lparr>ri_flags := ri_flags i AND NOT (FlagNeedPushSet OR FlagNeedPushChange)\<rparr>"

definition ri_needStore :: "resource_item \<Rightarrow> bool" where
  "ri_needStore i \<longleftrightarrow> 0 < ri_flags i AND FlagNeedStore"

definition ri_setNeedStore :: "resource_item \<Rightarrow> resource_item" where
  "ri_setNeedStore i = i\<lparr>ri_flags := ri_flags i OR FlagNeedStore\<rparr>"

definition ri_clearNeedStore :: "resource_item \<Rightarrow> resource_item" where
  "ri_clearNeedStore i = i\<lparr>ri_flags := ri_flags i AND NOT FlagNeedStore\<rparr>"

definition ri_pushOnSet :: "resource_item \<Rightarrow> bool" where
  "ri_pushOnSet i \<longleftrightarrow> 0 < ri_flags i AND FlagPushOnSet"

definition ri_setPushOnSet :: "bool \<Rightarrow> resource_item \<Rightarrow> resource_item" where
  "ri_setPushOnSet enable i =
     (if enable then i\<lparr>ri_flags := ri_flags i OR FlagPushOnSet\<rparr> else i\<lparr>ri_flags := ri_flags i AND NOT FlagPushOnSet\<rparr>)"

definition ri_pushOnChange :: "resource_item \<Rightarrow> bool" where
  "ri_pushOnChange i \<longleftrightarrow> 0 < ri_flags i AND FlagPushOnChange"

definition ri_setPushOnChange :: "bool \<Rightarrow> resource_item \<Rightarrow> resource_item" where
  "ri_setPushOnChange enable i =
     (if enable then i\<lparr>ri_flags := ri_flags i OR FlagPushOnChange\<rparr> else i\<lparr>ri_flags := ri_flags i AND NOT FlagPushOnChange\<rparr>)"

definition ri_awake :: "resource_item \<Rightarrow> bool" where
  "ri_awake i \<longleftrightarrow> 0 < ri_flags i AND FlagAwakeOnSet"

definition ri_setAwake :: "bool \<Rightarrow> resource_item \<Rightarrow> resource_item" where
  "ri_setAwake awake i =
     (if awake then i\<lparr>ri_flags := ri_flags i OR FlagAwakeOnSet\<rparr> else i\<lparr>ri_flags := ri_flags i AND NOT FlagAwakeOnSet\<rparr>)"

definition ri_implicit :: "resource_item \<Rightarrow> bool" where
  "ri_implicit i \<longleftrightarrow> 0 < ri_flags i AND FlagImplicit"

definition ri_setImplicit :: "bool \<Rightarrow> resource_item \<Rightarrow> resource_item" where
  "ri_setImplicit implicit i =
     (if implicit then i\<lparr>ri_flags := ri_flags i OR FlagImplicit\<rparr> else i\<lparr>ri_flags := ri_flags i AND NOT FlagImplicit\<rparr>)"

definition ri_setZclUnsupportedAttribute :: "resource_item \<Rightarrow> resource_item" where
  "ri_setZclUnsupportedAttribute i = i\<lparr>ri_flags := ri_flags i OR FlagZclUnsupportedAttr\<rparr>"

definition ri_zclUnsupportedAttribute :: "resource_item \<Rightarrow> bool" where
  "ri_zclUnsupportedAttribute i \<longleftrightarrow> 0 < ri_flags i AND FlagZclUnsupportedAttr"

section \<open>Setting values\<close>

text \<open>The values the code passes as \<^verbatim>\<open>QVariant\<close>, and the library functions it applies to them.\<close>

datatype qvariant = QInvalid | QBool bool | QNumber s64 | QReal u64 | QString string | QDateTime int

record qt_ops =
  qv_toString :: "qvariant \<Rightarrow> string"
  qv_toBool :: "qvariant \<Rightarrow> bool"
  qv_toInt :: "qvariant \<Rightarrow> int option"
  qv_toDouble :: "qvariant \<Rightarrow> u64 option"
  qs_trimmed :: "string \<Rightarrow> string"
  U_TimeFromISO8601 :: "string \<Rightarrow> int"
  double_eq :: "u64 \<Rightarrow> u64 \<Rightarrow> bool"

definition no_range :: "descriptor \<Rightarrow> bool" where
  "no_range r \<longleftrightarrow> rd_min r = 0 \<and> rd_max r = 0"

definition in_range :: "descriptor \<Rightarrow> int \<Rightarrow> bool" where
  "in_range r n \<longleftrightarrow> rd_min r \<le> n \<and> n \<le> rd_max r"

text \<open>\<^verbatim>\<open>setValue(qint64, ValueSource)\<close>\<close>

definition ri_setNumber :: "descriptor list \<Rightarrow> int \<Rightarrow> s64 \<Rightarrow> ValueSource \<Rightarrow> resource_item \<Rightarrow> bool \<times> resource_item" where
  "ri_setNumber ds now val src i =
     (let r = ri_descriptor ds i in
      if \<not> no_range r \<and> \<not> in_range r (sint val) then (False, i)
      else
        (let i = i\<lparr>ri_lastSet := Some now, ri_numPrev := ri_num i, ri_valueSource := src,
                   ri_flags := (ri_flags i OR FlagNeedPushSet) OR FlagNeedStore\<rparr> in
         (True, if ri_num i \<noteq> val then i\<lparr>ri_num := val, ri_lastChanged := ri_lastSet i, ri_flags := ri_flags i OR FlagNeedPushChange\<rparr>
                else i)))"

definition maxSize16 :: nat where
  "maxSize16 = 16 - 2"

definition ri_setItemString :: "'at atom_ops \<Rightarrow> descriptor list \<Rightarrow> 'at \<Rightarrow> string \<Rightarrow> resource_item \<Rightarrow> bool \<times> 'at \<times> resource_item" where
  "ri_setItemString ops ds at str i =
     (let r = ri_descriptor ds i in
      if \<not> (rd_type r = DataTypeString \<or> rd_type r = DataTypeTimePattern) then (False, at, i)
      else if length str \<le> maxSize16 \<and> rd_suffix r ! 0 \<noteq> CHR ''a'' \<and> rd_suffix r ! 1 \<noteq> CHR ''t''
      then (True, at, i\<lparr>ri_istr := str, ri_strHandle := STRING_CACHE_INVALID_HANDLE\<rparr>)
      else (let (h, at) = StringCacheAdd ops at str StringCacheImmutable in
            (h \<noteq> STRING_CACHE_INVALID_HANDLE, at, i\<lparr>ri_strHandle := h\<rparr>)))"

definition ri_or_flag :: "u16 \<Rightarrow> resource_item \<Rightarrow> resource_item" where
  "ri_or_flag f i = i\<lparr>ri_flags := ri_flags i OR f\<rparr>"

text \<open>The common part of the numeric branches: note the value, and what changes only with it.\<close>

definition ri_store :: "int \<Rightarrow> bool \<Rightarrow> s64 \<Rightarrow> bool \<Rightarrow> resource_item \<Rightarrow> resource_item" where
  "ri_store now always val same i =
     (let i = i\<lparr>ri_lastSet := Some now, ri_numPrev := ri_num i, ri_flags := ri_flags i OR FlagNeedPushSet\<rparr>;
          i = (if always then ri_or_flag FlagNeedStore i else i) in
      if \<not> same then
        (let i = i\<lparr>ri_num := val, ri_lastChanged := ri_lastSet i, ri_flags := ri_flags i OR FlagNeedPushChange\<rparr> in
         if always then i else ri_or_flag FlagNeedStore i)
      else i)"

definition time_text :: "descriptor \<Rightarrow> string \<Rightarrow> string" where
  "time_text r str =
     (if \<not> ends_with str ''Z'' \<and>
         (rd_suffix r = RStateLastUpdated \<or> rd_suffix r = RStateLastCheckin \<or> rd_suffix r = RStateSunrise \<or> rd_suffix r = RStateSunset)
      then str @ ''Z'' else str)"

text \<open>
  \<^verbatim>\<open>setValue(const QVariant &, ValueSource)\<close>, branch by branch; the value source is already noted when a
  branch is entered, and \<open>ri_refused\<close> is the fall through to the end of the function.
\<close>

definition ri_refused :: "'at \<Rightarrow> resource_item \<Rightarrow> bool \<times> 'at \<times> resource_item" where
  "ri_refused at i = (False, at, i\<lparr>ri_valueSource := SourceUnknown\<rparr>)"

definition ri_setText ::
  "'at atom_ops \<Rightarrow> qt_ops \<Rightarrow> descriptor list \<Rightarrow> int \<Rightarrow> qvariant \<Rightarrow> 'at \<Rightarrow> resource_item \<Rightarrow> bool \<times> 'at \<times> resource_item" where
  "ri_setText ops qt ds now val at i =
     (case ri_str i of
        None \<Rightarrow> ri_refused at i
      | Some old \<Rightarrow>
          (let str = qs_trimmed qt (qv_toString qt val);
               i = i\<lparr>ri_lastSet := Some now, ri_flags := ri_flags i OR FlagNeedPushSet\<rparr>;
               (_, at, i) = ri_setItemString ops ds at str i in
           (True, at,
            if old \<noteq> str then
              i\<lparr>ri_str := Some str, ri_lastChanged := ri_lastSet i,
                ri_flags := (ri_flags i OR FlagNeedPushChange) OR FlagNeedStore\<rparr>
            else i)))"

definition ri_setBool :: "qt_ops \<Rightarrow> int \<Rightarrow> qvariant \<Rightarrow> 'at \<Rightarrow> resource_item \<Rightarrow> bool \<times> 'at \<times> resource_item" where
  "ri_setBool qt now val at i =
     (let n = (if qv_toBool qt val then 1 else 0) in (True, at, ri_store now True n (ri_num i = n) i))"

definition ri_setTime ::
  "qt_ops \<Rightarrow> descriptor list \<Rightarrow> int \<Rightarrow> qvariant \<Rightarrow> 'at \<Rightarrow> resource_item \<Rightarrow> bool \<times> 'at \<times> resource_item" where
  "ri_setTime qt ds now val at i =
     (case val of
        QString str \<Rightarrow>
          if str = [] then ri_refused at i
          else
            (let ms = U_TimeFromISO8601 qt (time_text (ri_descriptor ds i) str) in
             if 0 < ms then (True, at, ri_store now False (word_of_int ms) (ri_num i = word_of_int ms) i) else ri_refused at i)
      | QDateTime ms \<Rightarrow> (True, at, ri_store now False (word_of_int ms) (ri_num i = word_of_int ms) i)
      | _ \<Rightarrow> ri_refused at i)"

definition ri_setReal :: "qt_ops \<Rightarrow> int \<Rightarrow> qvariant \<Rightarrow> 'at \<Rightarrow> resource_item \<Rightarrow> bool \<times> 'at \<times> resource_item" where
  "ri_setReal qt now val at i =
     (case qv_toDouble qt val of
        None \<Rightarrow> ri_refused at i
      | Some d \<Rightarrow> (True, at, ri_store now False d (double_eq qt (ri_num i) d) i))"

definition ri_setInt ::
  "qt_ops \<Rightarrow> descriptor list \<Rightarrow> int \<Rightarrow> qvariant \<Rightarrow> 'at \<Rightarrow> resource_item \<Rightarrow> bool \<times> 'at \<times> resource_item" where
  "ri_setInt qt ds now val at i =
     (case qv_toInt qt val of
        None \<Rightarrow> ri_refused at i
      | Some n \<Rightarrow>
          if no_range (ri_descriptor ds i) \<or> in_range (ri_descriptor ds i) n
          then (True, at, ri_store now True (word_of_int n) (ri_num i = word_of_int n) i)
          else ri_refused at i)"

definition ri_setVariant ::
  "'at atom_ops \<Rightarrow> qt_ops \<Rightarrow> descriptor list \<Rightarrow> int \<Rightarrow> qvariant \<Rightarrow> ValueSource \<Rightarrow> 'at \<Rightarrow> resource_item \<Rightarrow> bool \<times> 'at \<times> resource_item" where
  "ri_setVariant ops qt ds now val src at i =
     (if val = QInvalid then (True, at, i\<lparr>ri_lastSet := None, ri_lastChanged := None, ri_valueSource := SourceUnknown\<rparr>)
      else
        (let i = i\<lparr>ri_valueSource := src\<rparr>; t = rd_type (ri_descriptor ds i) in
         if t = DataTypeString \<or> t = DataTypeTimePattern then ri_setText ops qt ds now val at i
         else if t = DataTypeBool then ri_setBool qt now val at i
         else if t = DataTypeTime then ri_setTime qt ds now val at i
         else if t = DataTypeReal then ri_setReal qt now val at i
         else ri_setInt qt ds now val at i))"

text \<open>\<^verbatim>\<open>setValue(const QString &, ValueSource)\<close>\<close>

definition ri_setString ::
  "'at atom_ops \<Rightarrow> qt_ops \<Rightarrow> descriptor list \<Rightarrow> int \<Rightarrow> string \<Rightarrow> ValueSource \<Rightarrow> 'at \<Rightarrow> resource_item \<Rightarrow> bool \<times> 'at \<times> resource_item" where
  "ri_setString ops qt ds now val src at i = ri_setVariant ops qt ds now (QString val) src at i"

section \<open>Reading values\<close>

definition ri_toNumber :: "resource_item \<Rightarrow> s64" where
  "ri_toNumber i = ri_num i"

definition ri_toBool :: "resource_item \<Rightarrow> bool" where
  "ri_toBool i \<longleftrightarrow> ri_num i \<noteq> 0"

definition ri_toLatin1String :: "'at atom_ops \<Rightarrow> 'at \<Rightarrow> resource_item \<Rightarrow> string" where
  "ri_toLatin1String ops at i =
     (if ri_strHandle i = STRING_CACHE_INVALID_HANDLE then ri_istr i
      else case StringCacheGet ops at (ri_strHandle i) of Some s \<Rightarrow> s | None \<Rightarrow> [])"

definition ri_toCString :: "'at atom_ops \<Rightarrow> 'at \<Rightarrow> resource_item \<Rightarrow> string" where
  "ri_toCString ops at i =
     (if ri_strHandle i \<noteq> STRING_CACHE_INVALID_HANDLE
      then (case StringCacheGet ops at (ri_strHandle i) of Some s \<Rightarrow> s | None \<Rightarrow> ri_istr i)
      else ri_istr i)"

definition ri_equalsString :: "'at atom_ops \<Rightarrow> 'at \<Rightarrow> string \<Rightarrow> resource_item \<Rightarrow> bool" where
  "ri_equalsString ops at str i =
     (if ri_strHandle i \<noteq> STRING_CACHE_INVALID_HANDLE \<and> 0 < length str
      then (case StringCacheGet ops at (ri_strHandle i) of
              Some s \<Rightarrow> length s = length str \<and> list_all2 (=) str s
            | None \<Rightarrow> False)
      else if length (ri_istr i) = length str then ri_istr i = str else False)"

text \<open>The time format \<^verbatim>\<open>toString\<close> chooses; \<open>fmt\<close> is \<^verbatim>\<open>QDateTime::toString\<close> with the offset set as in the code.\<close>

datatype time_format = LocalSec | UtcMsec | UtcSecZ | UtcMinZ | UtcSec

definition ri_timeFormat :: "string \<Rightarrow> time_format" where
  "ri_timeFormat s =
     (if s = RStateLastUpdated \<or> s = RStateLastCheckin then UtcMsec
      else if s = RAttrLastAnnounced \<or> s = RStateLastSet \<or> s = RStateUtc \<or> s = RConfigLastChangeTime then UtcSecZ
      else if s = RAttrLastSeen then UtcMinZ
      else if s = RStateSunrise \<or> s = RStateSunset then UtcSec
      else LocalSec)"

definition ri_toString :: "(time_format \<Rightarrow> int \<Rightarrow> string) \<Rightarrow> descriptor list \<Rightarrow> resource_item \<Rightarrow> string" where
  "ri_toString fmt ds i =
     (let r = ri_descriptor ds i in
      if rd_type r = DataTypeString \<or> rd_type r = DataTypeTimePattern then (case ri_str i of Some s \<Rightarrow> s | None \<Rightarrow> [])
      else if rd_type r = DataTypeTime \<and> 0 < sint (ri_num i) \<and> ri_str i \<noteq> None then fmt (ri_timeFormat (rd_suffix r)) (sint (ri_num i))
      else [])"

definition ri_toVariant :: "(time_format \<Rightarrow> int \<Rightarrow> string) \<Rightarrow> descriptor list \<Rightarrow> resource_item \<Rightarrow> qvariant" where
  "ri_toVariant fmt ds i =
     (let rid = ri_descriptor ds i; is_text = (rd_type rid = DataTypeString \<or> rd_type rid = DataTypeTimePattern) in
      if ri_lastSet i = None then (if is_text then QString [] else QInvalid)
      else if is_text then (case ri_str i of Some s \<Rightarrow> QString s | None \<Rightarrow> QString [])
      else if rd_type rid = DataTypeBool then QBool (ri_num i \<noteq> 0)
      else if rd_type rid = DataTypeTime then QString (ri_toString fmt ds i)
      else if rd_type rid = DataTypeReal then QReal (ri_num i)
      else QNumber (ri_num i))"

definition ri_setTimeStamps :: "int option \<Rightarrow> resource_item \<Rightarrow> resource_item" where
  "ri_setTimeStamps t i = i\<lparr>ri_lastSet := t, ri_lastChanged := t\<rparr>"

definition ri_inRule :: "int \<Rightarrow> resource_item \<Rightarrow> resource_item" where
  "ri_inRule h i = (if List.member (ri_rulesInvolved i) h then i else i\<lparr>ri_rulesInvolved := ri_rulesInvolved i @ [h]\<rparr>)"

definition ri_setIsPublic :: "bool \<Rightarrow> resource_item \<Rightarrow> resource_item" where
  "ri_setIsPublic b i = i\<lparr>ri_isPublic := b\<rparr>"

section \<open>Flags in numeric items\<close>

definition R_ClearFlags1 :: "descriptor list \<Rightarrow> int \<Rightarrow> s64 \<Rightarrow> resource_item \<Rightarrow> bool \<times> resource_item" where
  "R_ClearFlags1 ds now flags i =
     (if ri_toNumber i AND flags \<noteq> 0 then (True, snd (ri_setNumber ds now (ri_toNumber i AND NOT flags) SourceUnknown i))
      else (False, i))"

definition R_SetFlags1 :: "descriptor list \<Rightarrow> int \<Rightarrow> s64 \<Rightarrow> resource_item \<Rightarrow> bool \<times> resource_item" where
  "R_SetFlags1 ds now flags i =
     (if ri_toNumber i AND flags \<noteq> flags then (True, snd (ri_setNumber ds now (ri_toNumber i OR flags) SourceUnknown i))
      else (False, i))"

definition R_HasFlags :: "s64 \<Rightarrow> resource_item \<Rightarrow> bool" where
  "R_HasFlags flags i \<longleftrightarrow> ri_toNumber i AND flags = flags"

section \<open>Flags are independent bits\<close>

definition flag_bit :: "nat \<Rightarrow> u16" where
  "flag_bit n = push_bit n 1"

lemma bit_flag_bit: "bit (flag_bit n) k \<longleftrightarrow> k = n \<and> n < 16"
  by (auto simp: flag_bit_def bit_simps)

lemma flag_read: "0 < (x AND flag_bit n) \<longleftrightarrow> bit x n"
proof -
  have "bit (x AND flag_bit n) n \<longleftrightarrow> bit x n"
    by (auto simp: bit_and_iff bit_flag_bit dest: bit_imp_le_length)
  moreover have "x AND flag_bit n = 0" if "\<not> bit x n"
    by (rule bit_word_eqI) (use that in \<open>auto simp: bit_and_iff bit_flag_bit\<close>)
  ultimately show ?thesis by (auto simp: word_gt_0)
qed

lemma flag_consts:
  "FlagNeedPushSet = flag_bit 0" "FlagNeedPushChange = flag_bit 1" "FlagPushOnSet = flag_bit 2" "FlagPushOnChange = flag_bit 3"
  "FlagAwakeOnSet = flag_bit 4" "FlagImplicit = flag_bit 5" "FlagNeedStore = flag_bit 7" "FlagZclUnsupportedAttr = flag_bit 8"
  by (simp_all add: flag_bit_def push_bit_eq_mult FlagNeedPushSet_def FlagNeedPushChange_def FlagPushOnSet_def FlagPushOnChange_def
    FlagAwakeOnSet_def FlagImplicit_def FlagNeedStore_def FlagZclUnsupportedAttr_def)

lemmas flag_readers =
  ri_needPushSet_def ri_needPushChange_def ri_needStore_def ri_pushOnSet_def ri_pushOnChange_def ri_awake_def ri_implicit_def
  ri_zclUnsupportedAttribute_def

lemma flag_write [simp]:
  "bit (x OR flag_bit n) k \<longleftrightarrow> bit x k \<or> (k = n \<and> n < 16)"
  "bit (x AND NOT (flag_bit n)) k \<longleftrightarrow> bit x k \<and> k \<noteq> n"
  "bit (x AND NOT (flag_bit m) AND NOT (flag_bit n)) k \<longleftrightarrow> bit x k \<and> k \<noteq> m \<and> k \<noteq> n"
  by (auto simp: bit_or_iff bit_and_iff bit_not_iff bit_flag_bit dest: bit_imp_le_length)

lemma reader_bits:
  "ri_needPushSet i \<longleftrightarrow> bit (ri_flags i) 0" "ri_needPushChange i \<longleftrightarrow> bit (ri_flags i) 1"
  "ri_pushOnSet i \<longleftrightarrow> bit (ri_flags i) 2" "ri_pushOnChange i \<longleftrightarrow> bit (ri_flags i) 3"
  "ri_awake i \<longleftrightarrow> bit (ri_flags i) 4" "ri_implicit i \<longleftrightarrow> bit (ri_flags i) 5"
  "ri_needStore i \<longleftrightarrow> bit (ri_flags i) 7" "ri_zclUnsupportedAttribute i \<longleftrightarrow> bit (ri_flags i) 8"
  unfolding flag_readers flag_consts flag_read by simp_all

lemma writer_bits:
  "bit (ri_flags (ri_setNeedStore i)) k \<longleftrightarrow> bit (ri_flags i) k \<or> k = 7"
  "bit (ri_flags (ri_clearNeedStore i)) k \<longleftrightarrow> bit (ri_flags i) k \<and> k \<noteq> 7"
  "bit (ri_flags (ri_clearNeedPush i)) k \<longleftrightarrow> bit (ri_flags i) k \<and> k \<noteq> 0 \<and> k \<noteq> 1"
  "bit (ri_flags (ri_setPushOnSet b i)) k \<longleftrightarrow> (if k = 2 then b else bit (ri_flags i) k)"
  "bit (ri_flags (ri_setPushOnChange b i)) k \<longleftrightarrow> (if k = 3 then b else bit (ri_flags i) k)"
  "bit (ri_flags (ri_setAwake b i)) k \<longleftrightarrow> (if k = 4 then b else bit (ri_flags i) k)"
  "bit (ri_flags (ri_setImplicit b i)) k \<longleftrightarrow> (if k = 5 then b else bit (ri_flags i) k)"
  "bit (ri_flags (ri_setZclUnsupportedAttribute i)) k \<longleftrightarrow> bit (ri_flags i) k \<or> k = 8"
  unfolding ri_setNeedStore_def ri_clearNeedStore_def ri_clearNeedPush_def ri_setPushOnSet_def ri_setPushOnChange_def
    ri_setAwake_def ri_setImplicit_def ri_setZclUnsupportedAttribute_def flag_consts
  by auto

section \<open>Numbers\<close>

text \<open>A number is refused exactly if it is outside the range of the descriptor.\<close>

lemma setNumber_cases:
  assumes "ri_setNumber ds now val src i = (ok, i')"
  obtains "\<not> ok" "i' = i" "\<not> no_range (ri_descriptor ds i)" "\<not> in_range (ri_descriptor ds i) (sint val)"
    | "ok" "no_range (ri_descriptor ds i) \<or> in_range (ri_descriptor ds i) (sint val)"
      "ri_num i' = val" "ri_numPrev i' = ri_num i" "ri_lastSet i' = Some now" "ri_valueSource i' = src"
      "ri_lastChanged i' = (if ri_num i = val then ri_lastChanged i else Some now)"
      "ri_needPushSet i'" "ri_needStore i'" "ri_needPushChange i' \<longleftrightarrow> ri_needPushChange i \<or> ri_num i \<noteq> val"
      "\<And>k. k \<notin> {0, 1, 7} \<Longrightarrow> bit (ri_flags i') k = bit (ri_flags i) k"
      "ri_ridIndex i' = ri_ridIndex i" "ri_str i' = ri_str i" "ri_istr i' = ri_istr i" "ri_strHandle i' = ri_strHandle i"
      "ri_isPublic i' = ri_isPublic i" "ri_rulesInvolved i' = ri_rulesInvolved i"
proof (cases "\<not> no_range (ri_descriptor ds i) \<and> \<not> in_range (ri_descriptor ds i) (sint val)")
  case True
  then show ?thesis using assms that(1) by (simp add: ri_setNumber_def)
next
  case False
  show ?thesis
    by (rule that(2)) (use assms False in \<open>auto simp: ri_setNumber_def Let_def reader_bits flag_consts split: if_split_asm\<close>)
qed


section \<open>Values stay in their range\<close>

definition int_type :: "ApiDataType \<Rightarrow> bool" where
  "int_type t \<longleftrightarrow> t \<notin> {DataTypeBool, DataTypeReal, DataTypeString, DataTypeTime, DataTypeTimePattern}"

definition value_ok :: "descriptor list \<Rightarrow> resource_item \<Rightarrow> bool" where
  "value_ok ds i \<longleftrightarrow> (let r = ri_descriptor ds i in
     int_type (rd_type r) \<longrightarrow> no_range r \<or> ri_num i = 0 \<or> in_range r (sint (ri_num i)))"

text \<open>What is used of the library: \<^verbatim>\<open>toInt\<close> returns a 32 bit number, and a text converts to itself.\<close>

definition qt_laws :: "qt_ops \<Rightarrow> bool" where
  "qt_laws qt \<longleftrightarrow> (\<forall>v n. qv_toInt qt v = Some n \<longrightarrow> - (2 ^ 31) \<le> n \<and> n < 2 ^ 31) \<and> (\<forall>s. qv_toString qt (QString s) = s)"

lemma descriptor_cong: "ri_ridIndex i' = ri_ridIndex i \<Longrightarrow> ri_descriptor ds i' = ri_descriptor ds i"
  by (simp add: ri_descriptor_def)

lemma value_ok_cong: "ri_num i' = ri_num i \<and> ri_ridIndex i' = ri_ridIndex i \<Longrightarrow> value_ok ds i' = value_ok ds i"
  by (simp add: value_ok_def Let_def ri_descriptor_def)

lemma setNumber_value_ok: "value_ok ds i \<Longrightarrow> value_ok ds (snd (ri_setNumber ds now val src i))"
proof -
  assume ok: "value_ok ds i"
  obtain b i' where r: "ri_setNumber ds now val src i = (b, i')" by (cases "ri_setNumber ds now val src i")
  then show ?thesis
    by (rule setNumber_cases) (use ok r in \<open>auto simp: value_ok_def Let_def descriptor_cong [of i' i]\<close>)
qed

lemma sint_of_int32: "- (2 ^ 31) \<le> n \<Longrightarrow> n < 2 ^ 31 \<Longrightarrow> sint (word_of_int n :: s64) = n"
  unfolding sint_sbintrunc' by (rule signed_take_bit_int_eq_self) simp_all

lemma ri_store_fields [simp]:
  "ri_ridIndex (ri_store now a val same i) = ri_ridIndex i"
  "ri_str (ri_store now a val same i) = ri_str i" "ri_istr (ri_store now a val same i) = ri_istr i"
  "ri_strHandle (ri_store now a val same i) = ri_strHandle i"
  by (simp_all add: ri_store_def ri_or_flag_def Let_def)

lemma ri_store_num: "(same \<Longrightarrow> ri_num i = val) \<Longrightarrow> ri_num (ri_store now a val same i) = val"
  by (simp add: ri_store_def ri_or_flag_def Let_def)

lemma descriptor_fields [simp]:
  "ri_descriptor ds (i\<lparr>ri_valueSource := a\<rparr>) = ri_descriptor ds i"
  "ri_descriptor ds (i\<lparr>ri_lastSet := b, ri_flags := c\<rparr>) = ri_descriptor ds i"
  by (simp_all add: ri_descriptor_def)

lemma setItemString_fields:
  assumes "ri_setItemString ops ds at str i = (ok, at', i')"
  shows "ri_ridIndex i' = ri_ridIndex i \<and> ri_num i' = ri_num i \<and> ri_str i' = ri_str i \<and> ri_lastSet i' = ri_lastSet i"
  using assms by (auto simp: ri_setItemString_def Let_def split: if_split_asm prod.splits)

lemma setText_fields:
  assumes "ri_setText ops qt ds now val at i = (ok, at', i')"
  shows "ri_ridIndex i' = ri_ridIndex i" "ri_num i' = ri_num i"
  using assms
  by (auto simp: ri_setText_def ri_refused_def Let_def dest!: setItemString_fields split: option.split_asm prod.split_asm if_split_asm)

lemma branch_index:
  "ri_setBool qt now val at i = (ok, at', i') \<Longrightarrow> ri_ridIndex i' = ri_ridIndex i"
  "ri_setTime qt ds now val at i = (ok, at', i') \<Longrightarrow> ri_ridIndex i' = ri_ridIndex i"
  "ri_setReal qt now val at i = (ok, at', i') \<Longrightarrow> ri_ridIndex i' = ri_ridIndex i"
  "ri_setInt qt ds now val at i = (ok, at', i') \<Longrightarrow> ri_ridIndex i' = ri_ridIndex i"
     apply (auto simp: ri_setBool_def Let_def)
    apply (auto simp: ri_setTime_def ri_refused_def Let_def split: qvariant.split_asm if_split_asm)
   apply (auto simp: ri_setReal_def ri_refused_def split: option.split_asm)
  apply (auto simp: ri_setInt_def ri_refused_def split: option.split_asm if_split_asm)
  done

lemma setVariant_index:
  assumes "ri_setVariant ops qt ds now val src at i = (ok, at', i')"
  shows "ri_ridIndex i' = ri_ridIndex i"
  using assms
  by (auto simp: ri_setVariant_def Let_def dest!: setText_fields(1) branch_index split: if_split_asm)

lemma setVariant_value_ok:
  assumes "value_ok ds i" "qt_laws qt" "ri_setVariant ops qt ds now val src at i = (ok, at', i')"
  shows "value_ok ds i'"
proof (cases "val \<noteq> QInvalid \<and> int_type (rd_type (ri_descriptor ds i))")
  case True
  have d: "ri_descriptor ds i' = ri_descriptor ds i" by (rule descriptor_cong [OF setVariant_index [OF assms(3)]])
  have "ri_setInt qt ds now val at (i\<lparr>ri_valueSource := src\<rparr>) = (ok, at', i')"
    using assms(3) True by (auto simp: ri_setVariant_def int_type_def Let_def)
  then consider n where "qv_toInt qt val = Some n" "no_range (ri_descriptor ds i) \<or> in_range (ri_descriptor ds i) n" "ri_num i' = word_of_int n"
    | "ri_num i' = ri_num i"
    by (auto simp: ri_setInt_def ri_refused_def ri_store_num split: option.split_asm if_split_asm)
  then show ?thesis
  proof cases
    case 1
    then show ?thesis using assms(2) by (auto simp: value_ok_def d Let_def qt_laws_def sint_of_int32)
  next
    case 2
    then show ?thesis using assms(1) by (simp add: value_ok_def d)
  qed
next
  case False
  have d: "ri_descriptor ds i' = ri_descriptor ds i" by (rule descriptor_cong [OF setVariant_index [OF assms(3)]])
  show ?thesis
  proof (cases "val = QInvalid")
    case True
    then show ?thesis using assms(1,3) by (auto simp: ri_setVariant_def value_ok_def Let_def ri_descriptor_def)
  next
    case False
    then show ?thesis using \<open>\<not> (_ \<and> _)\<close> d by (simp add: value_ok_def Let_def)
  qed
qed

section \<open>The two copies of a text agree\<close>

definition atom_laws :: "'at atom_ops \<Rightarrow> bool" where
  "atom_laws ops \<longleftrightarrow> (\<forall>at s i at'. AT_AddAtom ops at s = (Some i, at') \<and> s \<noteq> [] \<longrightarrow>
     i \<noteq> 0 \<and> AT_GetAtomByIndex ops at' i = Some s \<and> (\<forall>j t. AT_GetAtomByIndex ops at j = Some t \<longrightarrow> AT_GetAtomByIndex ops at' j = Some t))"

definition text_type :: "descriptor \<Rightarrow> bool" where
  "text_type r \<longleftrightarrow> rd_type r = DataTypeString \<or> rd_type r = DataTypeTimePattern"

definition kept_as_atom :: "descriptor \<Rightarrow> bool" where
  "kept_as_atom r \<longleftrightarrow> rd_suffix r ! 0 = CHR ''a'' \<or> rd_suffix r ! 1 = CHR ''t''"

definition text_ok :: "'at atom_ops \<Rightarrow> descriptor list \<Rightarrow> 'at \<Rightarrow> resource_item \<Rightarrow> bool" where
  "text_ok ops ds at i \<longleftrightarrow> (let r = ri_descriptor ds i in text_type r \<longrightarrow>
     ri_str i = Some (ri_toLatin1String ops at i) \<and> (kept_as_atom r \<longrightarrow> ri_istr i = []))"

lemma text_ok_new:
  assumes "ri_descriptor ds (ri_new ds r) = r"
  shows "text_ok ops ds at (ri_new ds r)"
  using assms by (auto simp: text_ok_def Let_def text_type_def ri_toLatin1String_def ri_new_def has_text_def)


lemma setText_text_ok:
  assumes laws: "atom_laws ops" and room: "fst (AT_AddAtom ops at s) \<noteq> None"
    and ok: "text_ok ops ds at i" and t: "text_type (ri_descriptor ds i)"
    and s_def: "s = qs_trimmed qt (qv_toString qt val)"
  obtains at' i' where "ri_setText ops qt ds now val at i = (True, at', i')" "text_ok ops ds at' i'"
    "ri_str i' = Some s" "ri_toLatin1String ops at' i' = s" "ri_lastSet i' = Some now"
    "ri_lastChanged i' = (if ri_str i = Some s then ri_lastChanged i else Some now)"
    "\<And>j t. AT_GetAtomByIndex ops at j = Some t \<Longrightarrow> AT_GetAtomByIndex ops at' j = Some t"
proof -
  let ?i = "i\<lparr>ri_lastSet := Some now, ri_flags := ri_flags i OR FlagNeedPushSet\<rparr>"
  obtain old where old: "ri_str i = Some old" using ok t by (auto simp: text_ok_def Let_def)
  obtain b at' i' where set: "ri_setItemString ops ds at s ?i = (b, at', i')" by (cases "ri_setItemString ops ds at s ?i") auto
  note f = setItemString_fields [OF set]
  have read: "ri_toLatin1String ops at' i' = s" and kept: "kept_as_atom (ri_descriptor ds i) \<longrightarrow> ri_istr i' = []"
    and grow: "\<And>j t. AT_GetAtomByIndex ops at j = Some t \<Longrightarrow> AT_GetAtomByIndex ops at' j = Some t"
    and lc: "ri_lastChanged i' = ri_lastChanged i"
  proof -
    let ?d = "ri_descriptor ds i"
    have ty: "rd_type ?d = DataTypeString \<or> rd_type ?d = DataTypeTimePattern" using t by (simp add: text_type_def)
    obtain n at2 where add: "AT_AddAtom ops at s = (Some n, at2)" using room by (cases "AT_AddAtom ops at s") auto
    have atom: "s \<noteq> [] \<Longrightarrow> n \<noteq> 0 \<and> AT_GetAtomByIndex ops at2 n = Some s \<and>
        (\<forall>j t. AT_GetAtomByIndex ops at j = Some t \<longrightarrow> AT_GetAtomByIndex ops at2 j = Some t)"
      using laws add unfolding atom_laws_def by blast
    have istr: "kept_as_atom ?d \<longrightarrow> ri_istr i = []" using ok t by (simp add: text_ok_def Let_def)
    consider "length s \<le> maxSize16" "\<not> kept_as_atom ?d" | "kept_as_atom ?d \<or> maxSize16 < length s" "s = []"
      | "kept_as_atom ?d \<or> maxSize16 < length s" "s \<noteq> []" by force
    then show "ri_toLatin1String ops at' i' = s" "kept_as_atom ?d \<longrightarrow> ri_istr i' = []"
      "\<And>j t. AT_GetAtomByIndex ops at j = Some t \<Longrightarrow> AT_GetAtomByIndex ops at' j = Some t" "ri_lastChanged i' = ri_lastChanged i"
      using set ty istr atom add
      by (cases; auto simp: ri_setItemString_def kept_as_atom_def ri_toLatin1String_def StringCacheAdd_def StringCacheGet_def Let_def
        maxSize16_def split: if_split_asm)+
  qed
  let ?r = "if old \<noteq> s then i'\<lparr>ri_str := Some s, ri_lastChanged := ri_lastSet i',
                ri_flags := (ri_flags i' OR FlagNeedPushChange) OR FlagNeedStore\<rparr> else i'"
  have "ri_setText ops qt ds now val at i = (True, at', ?r)"
    using set old by (simp add: ri_setText_def Let_def s_def)
  moreover have "ri_str ?r = Some s" using f old by auto
  moreover have "ri_toLatin1String ops at' ?r = s"
    using read by (cases "ri_strHandle i' = 0") (simp_all add: ri_toLatin1String_def)
  moreover have "ri_descriptor ds ?r = ri_descriptor ds i" using f by (simp add: ri_descriptor_def)
  moreover have "ri_istr ?r = ri_istr i'" "ri_lastSet ?r = Some now" using f by simp_all
  moreover have "ri_lastChanged ?r = (if ri_str i = Some s then ri_lastChanged i else Some now)" using lc old f by auto
  moreover have "text_ok ops ds at' ?r" using calculation kept by (simp add: text_ok_def Let_def)
  ultimately show ?thesis using that grow by blast
qed


lemma equalsString_text:
  assumes "text_ok ops ds at i" "text_type (ri_descriptor ds i)" "str \<noteq> []"
  shows "ri_equalsString ops at str i \<longleftrightarrow> ri_str i = Some str"
  using assms
  by (auto simp: text_ok_def Let_def ri_equalsString_def ri_toLatin1String_def list_all2_eq [symmetric] split: option.split)


section \<open>Properties\<close>

text \<open>C13: \<open>setValue(qint64)\<close> refuses exactly the values outside the descriptor's range, and then changes nothing; otherwise the
  item holds the value and its predecessor, needs a push and a store, is marked changed exactly if the value differs, and
  no other flag changes.\<close>

theorem ri_setNumber_correct:
  "case ri_setNumber ds now val src i of (ok, i') \<Rightarrow>
     ok = (no_range (ri_descriptor ds i) \<or> in_range (ri_descriptor ds i) (sint val)) \<and>
     (if ok then ri_num i' = val \<and> ri_numPrev i' = ri_num i \<and> ri_lastSet i' = Some now \<and>
        ri_lastChanged i' = (if ri_num i = val then ri_lastChanged i else Some now) \<and>
        ri_needPushSet i' \<and> ri_needStore i' \<and> ri_needPushChange i' = (ri_needPushChange i \<or> ri_num i \<noteq> val) \<and>
        (\<forall>k. k \<noteq> 0 \<and> k \<noteq> 1 \<and> k \<noteq> 7 \<longrightarrow> bit (ri_flags i') k = bit (ri_flags i) k)
      else i' = i)"
proof -
  obtain ok i' where r: "ri_setNumber ds now val src i = (ok, i')" by (cases "ri_setNumber ds now val src i")
  then show ?thesis by (rule setNumber_cases) (auto simp: r)
qed

definition two_rids :: "descriptor list" where
  "two_rids = [rid DataTypeUnknown QVInvalid RInvalidSuffix, rid_range DataTypeUInt8 QVDouble RStateBattery 0 100]"

theorem ri_setNumber_correct_witness:
  "ri_setNumber two_rids 5 200 SourceApi (ri_new two_rids (two_rids ! 1)) = (False, ri_new two_rids (two_rids ! 1))"
  using ri_setNumber_correct [where ds = two_rids and now = 5 and val = 200 and src = SourceApi and i = "ri_new two_rids (two_rids ! 1)"]
  by (auto simp: two_rids_def rid_def rid_range_def ri_new_def ri_descriptor_def no_range_def in_range_def suffixes split: prod.split_asm)

text \<open>The items a program can come to hold: a new one, changed by any sequence of operations.\<close>

inductive item_reach :: "'at atom_ops \<Rightarrow> qt_ops \<Rightarrow> descriptor list \<Rightarrow> resource_item \<Rightarrow> bool"
  for ops qt ds where
  reach_new: "item_reach ops qt ds (ri_new ds r)"
| reach_number: "item_reach ops qt ds i \<Longrightarrow> ri_setNumber ds now val src i = (ok, i') \<Longrightarrow> item_reach ops qt ds i'"
| reach_variant: "item_reach ops qt ds i \<Longrightarrow> ri_setVariant ops qt ds now v src at i = (ok, at', i') \<Longrightarrow> item_reach ops qt ds i'"
| reach_set_flags: "item_reach ops qt ds i \<Longrightarrow> R_SetFlags1 ds now flags i = (ok, i') \<Longrightarrow> item_reach ops qt ds i'"
| reach_clear_flags: "item_reach ops qt ds i \<Longrightarrow> R_ClearFlags1 ds now flags i = (ok, i') \<Longrightarrow> item_reach ops qt ds i'"
| reach_housekeeping: "item_reach ops qt ds i \<Longrightarrow>
    i' \<in> {ri_clearNeedPush i, ri_setNeedStore i, ri_clearNeedStore i, ri_setPushOnSet b i, ri_setPushOnChange b i, ri_setAwake b i,
      ri_setImplicit b i, ri_setZclUnsupportedAttribute i, ri_setTimeStamps t i, ri_inRule h i, ri_setIsPublic b i} \<Longrightarrow>
    item_reach ops qt ds i'"

lemma housekeeping_num:
  "i' \<in> {ri_clearNeedPush i, ri_setNeedStore i, ri_clearNeedStore i, ri_setPushOnSet b i, ri_setPushOnChange b i, ri_setAwake b i,
      ri_setImplicit b i, ri_setZclUnsupportedAttribute i, ri_setTimeStamps t i, ri_inRule h i, ri_setIsPublic b i} \<Longrightarrow>
   ri_num i' = ri_num i \<and> ri_ridIndex i' = ri_ridIndex i"
  by (auto simp: ri_clearNeedPush_def ri_setNeedStore_def ri_clearNeedStore_def ri_setPushOnSet_def ri_setPushOnChange_def
    ri_setAwake_def ri_setImplicit_def ri_setZclUnsupportedAttribute_def ri_setTimeStamps_def ri_inRule_def ri_setIsPublic_def)

text \<open>C14: an integer item never holds a value outside its range (but for the 0 it starts with), whatever sequence of
  operations it goes through.\<close>

theorem item_range_invariant:
  assumes "qt_laws qt" "item_reach ops qt ds i"
  shows "value_ok ds i"
  using assms(2)
proof induction
  case (reach_new r)
  show ?case by (simp add: value_ok_def ri_new_def Let_def)
next
  case (reach_number i now val src ok i')
  then show ?case using setNumber_value_ok [of ds i now val src] by simp
next
  case (reach_variant i now v src at ok at' i')
  show ?case by (rule setVariant_value_ok [OF reach_variant.IH assms(1) reach_variant.hyps(2)])
next
  case (reach_set_flags i now flags ok i')
  then show ?case using setNumber_value_ok [of ds i] by (auto simp: R_SetFlags1_def split: if_split_asm)
next
  case (reach_clear_flags i now flags ok i')
  then show ?case using setNumber_value_ok [of ds i] by (auto simp: R_ClearFlags1_def split: if_split_asm)
next
  case (reach_housekeeping i i' b t h)
  show ?case
    by (rule iffD2 [OF value_ok_cong [OF housekeeping_num [OF reach_housekeeping.hyps(2)]] reach_housekeeping.IH])
qed

definition atoms0 :: "string list atom_ops" where
  "atoms0 = \<lparr>AT_AddAtom = \<lambda>at s. if length at < 4294967295 then (Some (of_nat (length at + 1)), at @ [s]) else (None, at),
     AT_GetAtomByIndex = \<lambda>at i. if i \<noteq> 0 \<and> unat i \<le> length at then Some (at ! (unat i - 1)) else None\<rparr>"

definition qt0 :: qt_ops where
  "qt0 = \<lparr>qv_toString = \<lambda>v. case v of QString s \<Rightarrow> s | _ \<Rightarrow> [], qv_toBool = \<lambda>v. v = QBool True,
     qv_toInt = \<lambda>v. case v of QNumber n \<Rightarrow> if - (2 ^ 31) \<le> sint n \<and> sint n < 2 ^ 31 then Some (sint n) else None | _ \<Rightarrow> None,
     qv_toDouble = \<lambda>v. case v of QReal d \<Rightarrow> Some d | _ \<Rightarrow> None, qs_trimmed = \<lambda>s. s, U_TimeFromISO8601 = \<lambda>s. 0, double_eq = (=)\<rparr>"

lemma qt0_laws: "qt_laws qt0"
  by (auto simp: qt_laws_def qt0_def split: qvariant.split_asm if_split_asm)

lemma atoms0_laws: "atom_laws atoms0"
proof -
  have "of_nat (Suc n) \<noteq> (0 :: u32) \<and> unat (of_nat (Suc n) :: u32) = Suc n" if "n < 4294967295" for n
  proof -
    have "unat (of_nat (Suc n) :: u32) = Suc n" using that by (simp add: unat_of_nat del: of_nat_Suc)
    then show ?thesis by (metis Zero_not_Suc unat_0)
  qed
  moreover have "unat j - Suc 0 < n" if "j \<noteq> 0" "unat j \<le> n" for j :: u32 and n
    using that unat_gt_0 [of j] by linarith
  ultimately show ?thesis
    by (auto simp: atom_laws_def atoms0_def nth_append split: if_split_asm)
qed

theorem item_range_invariant_witness:
  "value_ok initResourceDescriptors (snd (ri_setNumber initResourceDescriptors 1 120 SourceApi
     (ri_new initResourceDescriptors (rid_range DataTypeInt8 QVDouble RConfigSunriseOffset (-120) 120))))"
  by (rule item_range_invariant [OF qt0_laws reach_number [OF reach_new [where ops = atoms0] prod.collapse [symmetric]]])


text \<open>a text item keeps its text twice, as \<^verbatim>\<open>QString\<close> and as an embedded string or an atom. With an atom table that keeps what
  it is given, setting a text keeps the two equal, and \<open>equalsString\<close> with a text that is not empty then tells exactly whether
  it is the item's text.\<close>

theorem item_text_coherent:
  assumes "atom_laws ops" "fst (AT_AddAtom ops at (qs_trimmed qt str)) \<noteq> None" "qt_laws qt"
    and "text_ok ops ds at i" "text_type (ri_descriptor ds i)"
  shows "\<exists>at' i'. ri_setString ops qt ds now str src at i = (True, at', i') \<and> text_ok ops ds at' i' \<and>
     ri_str i' = Some (qs_trimmed qt str) \<and> ri_toLatin1String ops at' i' = qs_trimmed qt str \<and>
     (\<forall>t. t \<noteq> [] \<longrightarrow> ri_equalsString ops at' t i' = (t = qs_trimmed qt str))"
proof -
  let ?i = "i\<lparr>ri_valueSource := src\<rparr>"
  have ok: "text_ok ops ds at ?i" "text_type (ri_descriptor ds ?i)"
    using assms(4,5) by (simp_all add: text_ok_def Let_def ri_toLatin1String_def)
  have s: "qs_trimmed qt str = qs_trimmed qt (qv_toString qt (QString str))" using assms(3) by (simp add: qt_laws_def)
  obtain at' i' where set: "ri_setText ops qt ds now (QString str) at ?i = (True, at', i')" and i': "text_ok ops ds at' i'"
    "ri_str i' = Some (qs_trimmed qt str)" "ri_toLatin1String ops at' i' = qs_trimmed qt str"
    by (rule setText_text_ok [OF assms(1,2) ok s])
  have "ri_setString ops qt ds now str src at i = (True, at', i')"
    using set assms(5) by (simp add: ri_setString_def ri_setVariant_def text_type_def)
  moreover have "text_type (ri_descriptor ds i')"
    using assms(5) ok(2) descriptor_cong [OF setText_fields(1) [OF set], of ds] by simp
  ultimately show ?thesis using i' equalsString_text [OF i'(1)] by auto
qed

definition name_rids :: "descriptor list" where
  "name_rids = [rid DataTypeUnknown QVInvalid RInvalidSuffix, rid DataTypeString QVString RAttrName]"

lemma name_rid: "ri_descriptor name_rids (ri_new name_rids (name_rids ! 1)) = name_rids ! 1" "text_type (name_rids ! 1)"
  "kept_as_atom (name_rids ! 1)"
  by (simp_all add: name_rids_def ri_new_def ri_descriptor_def rid_def rid_range_def suffixes text_type_def kept_as_atom_def)

lemma set_hall:
  "\<exists>at' i'. ri_setString atoms0 qt0 name_rids 1 ''Hall'' SourceApi [] (ri_new name_rids (name_rids ! 1)) = (True, at', i') \<and>
     ri_toLatin1String atoms0 at' i' = ''Hall'' \<and> ri_istr i' = [] \<and> ri_strHandle i' = 1"
  by (simp add: ri_setString_def ri_setVariant_def ri_setText_def ri_setItemString_def name_rids_def ri_new_def ri_descriptor_def rid_def
    rid_range_def suffixes has_text_def qt0_def atoms0_def StringCacheAdd_def ri_toLatin1String_def StringCacheGet_def Let_def)

theorem item_text_coherent_witness:
  "\<exists>at' i'. ri_setString atoms0 qt0 name_rids 1 ''Hall'' SourceApi [] (ri_new name_rids (name_rids ! 1)) = (True, at', i') \<and>
     ri_equalsString atoms0 at' ''Hall'' i' \<and> \<not> ri_equalsString atoms0 at' ''Hal'' i'"
proof -
  have "fst (AT_AddAtom atoms0 [] (qs_trimmed qt0 ''Hall'')) \<noteq> None" by (simp add: atoms0_def)
  moreover have "text_type (ri_descriptor name_rids (ri_new name_rids (name_rids ! 1)))" by (simp only: name_rid)
  moreover have "qs_trimmed qt0 s = s" for s by (simp add: qt0_def)
  ultimately show ?thesis
    using item_text_coherent [OF atoms0_laws _ qt0_laws text_ok_new [OF name_rid(1)], of "[]" "''Hall''" 1 SourceApi] by auto
qed

text \<open>compared with the empty text the answer is wrong: an item whose text is kept as an atom and whose embedded string
  was never used equals the empty text.\<close>

theorem equalsString_empty_wrong:
  "\<exists>at' i'. ri_setString atoms0 qt0 name_rids 1 ''Hall'' SourceApi [] (ri_new name_rids (name_rids ! 1)) = (True, at', i') \<and>
     ri_toLatin1String atoms0 at' i' = ''Hall'' \<and> ri_equalsString atoms0 at' [] i'"
  using set_hall by (auto simp: ri_equalsString_def)

text \<open>every flag operation changes its own bit of the flags and no other, so that each of the eight readers sees exactly
  the operations on its flag.\<close>

theorem item_flags_independent:
  "ri_pushOnSet (ri_setPushOnSet b i) = b \<and> ri_pushOnChange (ri_setPushOnChange b i) = b \<and> ri_awake (ri_setAwake b i) = b \<and>
   ri_implicit (ri_setImplicit b i) = b \<and> ri_needStore (ri_setNeedStore i) \<and> \<not> ri_needStore (ri_clearNeedStore i) \<and>
   \<not> ri_needPushSet (ri_clearNeedPush i) \<and> \<not> ri_needPushChange (ri_clearNeedPush i) \<and>
   ri_zclUnsupportedAttribute (ri_setZclUnsupportedAttribute i) \<and>
   (\<forall>f \<in> {ri_setPushOnSet b, ri_setPushOnChange b, ri_setAwake b, ri_setImplicit b, ri_setZclUnsupportedAttribute, ri_clearNeedPush}.
      ri_needStore (f i) = ri_needStore i) \<and>
   (\<forall>f \<in> {ri_setPushOnSet b, ri_setPushOnChange b, ri_setAwake b, ri_setImplicit b, ri_setZclUnsupportedAttribute, ri_setNeedStore, ri_clearNeedStore}.
      ri_needPushSet (f i) = ri_needPushSet i \<and> ri_needPushChange (f i) = ri_needPushChange i) \<and>
   (\<forall>f \<in> {ri_clearNeedPush, ri_setNeedStore, ri_clearNeedStore}.
      ri_pushOnSet (f i) = ri_pushOnSet i \<and> ri_pushOnChange (f i) = ri_pushOnChange i \<and> ri_awake (f i) = ri_awake i \<and>
      ri_implicit (f i) = ri_implicit i \<and> ri_zclUnsupportedAttribute (f i) = ri_zclUnsupportedAttribute i)"
  by (auto simp: reader_bits writer_bits)

theorem item_flags_independent_witness:
  "ri_needStore (ri_clearNeedPush (ri_setNeedStore (ri_new name_rids (name_rids ! 1))))"
  using item_flags_independent [of True "ri_setNeedStore (ri_new name_rids (name_rids ! 1))"] by (simp add: reader_bits writer_bits)

end
