(* ===== verification/Event_Data.thy ===== *)
theory Event_Data
  imports Res_Item
begin

text \<open>
  Events (\<^verbatim>\<open>event.h\<close>, \<^verbatim>\<open>event.cpp\<close>): the value that is queued, the numbers packed into it, and the ring of
  buffers that holds the bytes of events with data.
\<close>

section \<open>The event\<close>

type_synonym s32 = "32 word"
type_synonym device_key = u64

text \<open>
  \<open>ev_num\<close> and \<open>ev_numPrev\<close> are the two \<^verbatim>\<open>int\<close> of the union; the 16 bit fields of its other member lie on
  them (little endian). A null \<^verbatim>\<open>const char *\<close> is the empty text.
\<close>

record event =
  ev_resource :: string
  ev_what :: string
  ev_id :: string
  ev_num :: s32
  ev_numPrev :: s32
  ev_deviceKey :: device_key
  ev_hasDataBit :: bool
  ev_urgent :: bool

definition ev_dataIndex :: "event \<Rightarrow> u16" where
  "ev_dataIndex e = ucast (ev_num e)"

definition ev_dataId :: "event \<Rightarrow> u16" where
  "ev_dataId e = ucast (drop_bit 16 (ev_num e))"

definition ev_dataSize :: "event \<Rightarrow> u16" where
  "ev_dataSize e = ucast (ev_numPrev e)"

text \<open>Writing the 16 bit fields.\<close>

definition ev_set_data :: "u16 \<Rightarrow> u16 \<Rightarrow> u16 \<Rightarrow> event \<Rightarrow> event" where
  "ev_set_data index i sz e =
     e\<lparr>ev_num := push_bit 16 (ucast i) OR ucast index,
       ev_numPrev := (ev_numPrev e AND NOT 0xFFFF) OR ucast sz\<rparr>"

definition Event0 :: event where
  "Event0 = \<lparr>ev_resource = [], ev_what = [], ev_id = [], ev_num = 0, ev_numPrev = 0, ev_deviceKey = 0,
     ev_hasDataBit = False, ev_urgent = False\<rparr>"

definition EventItem :: "string \<Rightarrow> string \<Rightarrow> string \<Rightarrow> resource_item \<Rightarrow> device_key \<Rightarrow> event" where
  "EventItem resource what i item key =
     Event0\<lparr>ev_resource := resource, ev_what := what, ev_id := i, ev_num := ucast (ri_num item), ev_numPrev := ucast (ri_numPrev item),
       ev_deviceKey := key\<rparr>"

definition EventKey :: "string \<Rightarrow> string \<Rightarrow> string \<Rightarrow> device_key \<Rightarrow> event" where
  "EventKey resource what i key = Event0\<lparr>ev_resource := resource, ev_what := what, ev_id := i, ev_deviceKey := key\<rparr>"

definition EventId :: "string \<Rightarrow> string \<Rightarrow> string \<Rightarrow> s32 \<Rightarrow> device_key \<Rightarrow> event" where
  "EventId resource what i num key =
     Event0\<lparr>ev_resource := resource, ev_what := what, ev_id := i, ev_num := num, ev_deviceKey := key\<rparr>"

text \<open>\<^verbatim>\<open>QString::number\<close>\<close>

fun digits :: "nat \<Rightarrow> string" where
  "digits n = (if n < 10 then [char_of (n + 48)] else digits (n div 10) @ [char_of (n mod 10 + 48)])"

declare digits.simps [simp del]

definition number_text :: "int \<Rightarrow> string" where
  "number_text n = (if n < 0 then ''-'' @ digits (nat (- n)) else digits (nat n))"

definition EventNum :: "string \<Rightarrow> string \<Rightarrow> s32 \<Rightarrow> device_key \<Rightarrow> event" where
  "EventNum resource what num key =
     Event0\<lparr>ev_resource := resource, ev_what := what, ev_id := (if resource = RGroups then number_text (sint num) else []),
       ev_num := num, ev_deviceKey := key\<rparr>"

section \<open>The data buffers\<close>

definition MaxEventDataBuffers :: nat where "MaxEventDataBuffers = 64"
definition MaxEventDataSize :: nat where "MaxEventDataSize = 256"

record event_buffer =
  eb_id :: u16
  eb_data :: "u8 list"

record event_buffers =
  ebs_iter :: nat
  ebs_data :: "event_buffer list"

definition ebs_init :: event_buffers where
  "ebs_init = \<lparr>ebs_iter = 0, ebs_data = replicate MaxEventDataBuffers \<lparr>eb_id = 0, eb_data = replicate MaxEventDataSize 0\<rparr>\<rparr>"

definition allocDataBuffer :: "event_buffers \<Rightarrow> u16 \<times> event_buffers" where
  "allocDataBuffer b =
     (let k = (ebs_iter b + 1) mod MaxEventDataBuffers;
          d = ebs_data b ! k in
      (of_nat k, b\<lparr>ebs_iter := k, ebs_data := (ebs_data b)[k := d\<lparr>eb_id := eb_id d + 1\<rparr>]\<rparr>))"

text \<open>\<^verbatim>\<open>memcpy\<close> into a buffer\<close>

definition put_bytes :: "u8 list \<Rightarrow> u8 list \<Rightarrow> u8 list" where
  "put_bytes bytes buf = bytes @ drop (length bytes) buf"

definition EventBytes :: "string \<Rightarrow> string \<Rightarrow> u8 list \<Rightarrow> device_key \<Rightarrow> event_buffers \<Rightarrow> (event \<times> event_buffers) option" where
  "EventBytes resource what bytes key b = do {
     c_assert (0 < length bytes \<and> length bytes \<le> MaxEventDataSize);
     let (index, b) = allocDataBuffer b;
     let d = ebs_data b ! unat index;
     let e = ev_set_data index (eb_id d) (of_nat (length bytes))
               (Event0\<lparr>ev_resource := resource, ev_what := what, ev_deviceKey := key, ev_hasDataBit := True\<rparr>);
     Some (e, b\<lparr>ebs_data := (ebs_data b)[unat index := d\<lparr>eb_data := put_bytes bytes (eb_data d)\<rparr>]\<rparr>) }"

text \<open>The comparison of the index is with \<^verbatim>\<open>MaxEventDataSize\<close>, as in the code; behind the last buffer there is nothing to read.\<close>

definition ev_hasData :: "event_buffers \<Rightarrow> event \<Rightarrow> bool option" where
  "ev_hasData b e =
     (if \<not> ev_hasDataBit e then Some False
      else if MaxEventDataSize \<le> unat (ev_dataIndex e) then Some False
      else if length (ebs_data b) \<le> unat (ev_dataIndex e) then None
      else Some (ev_dataId e = eb_id (ebs_data b ! unat (ev_dataIndex e))))"

definition ev_getData :: "event_buffers \<Rightarrow> event \<Rightarrow> nat \<Rightarrow> u8 list option option" where
  "ev_getData b e sz =
     (if sz = unat (ev_dataSize e) then do {
        ok \<leftarrow> ev_hasData b e;
        if ok then Some (Some (take sz (eb_data (ebs_data b ! unat (ev_dataIndex e))))) else Some None }
      else Some None)"

section \<open>Packed numbers\<close>

definition byte_at :: "nat \<Rightarrow> s32 \<Rightarrow> u8" where
  "byte_at n num = ucast (signed_drop_bit n num AND 0xFF)"

definition EventApsConfirmId :: "event \<Rightarrow> u8" where
  "EventApsConfirmId e = byte_at 8 (ev_num e)"

definition EventApsConfirmStatus :: "event \<Rightarrow> u8" where
  "EventApsConfirmStatus e = byte_at 0 (ev_num e)"

definition EventApsConfirmPack :: "u8 \<Rightarrow> u8 \<Rightarrow> s32" where
  "EventApsConfirmPack i status = push_bit 8 (ucast i) OR ucast status"

definition EventZdpResponseSequenceNumber :: "event \<Rightarrow> u8" where
  "EventZdpResponseSequenceNumber e = byte_at 8 (ev_num e)"

definition EventZdpResponseStatus :: "event \<Rightarrow> u8" where
  "EventZdpResponseStatus e = byte_at 0 (ev_num e)"

definition EventZdpResponsePack :: "u8 \<Rightarrow> u8 \<Rightarrow> s32" where
  "EventZdpResponsePack sq status = push_bit 8 (ucast sq) OR ucast status"

definition EventZclClusterId :: "event \<Rightarrow> u32" where
  "EventZclClusterId e = drop_bit 16 (ev_num e) AND 0xFFFF"

definition EventZclSequenceNumber :: "event \<Rightarrow> u8" where
  "EventZclSequenceNumber e = byte_at 8 (ev_num e)"

definition EventZclStatus :: "event \<Rightarrow> u8" where
  "EventZclStatus e = byte_at 0 (ev_num e)"

definition EventZclResponsePack :: "u16 \<Rightarrow> u8 \<Rightarrow> u8 \<Rightarrow> s32" where
  "EventZclResponsePack clusterId sq status = push_bit 8 (push_bit 8 (ucast clusterId) OR ucast sq) OR ucast status"

definition EventTimerPack :: "s32 \<Rightarrow> s32 \<Rightarrow> s32 option" where
  "EventTimerPack timerId timeoutMs = do {
     c_assert (sint timerId \<le> 0xFF);
     c_assert (sint timeoutMs \<le> 0xFFFFFF);
     Some (push_bit 24 timerId OR timeoutMs) }"

definition EventTimerId :: "event \<Rightarrow> s32" where
  "EventTimerId e = signed_drop_bit 24 (ev_num e) AND 0xFF"

definition EventTimerTimout :: "event \<Rightarrow> s32" where
  "EventTimerTimout e = ev_num e AND 0xFFFFFF"

section \<open>Packing and unpacking\<close>

lemma masks: "(0xFF :: 'a::len word) = mask 8" "(0xFFFF :: 'a::len word) = mask 16" "(0xFFFFFF :: 'a::len word) = mask 24"
  by (simp_all add: mask_eq_exp_minus_1)

lemma bit_u8_less: "bit (b :: u8) n \<Longrightarrow> n < 8"
  by (auto dest: bit_imp_le_length)

lemma bit_u16_less: "bit (b :: u16) n \<Longrightarrow> n < 16"
  by (auto dest: bit_imp_le_length)

lemma bit_byte_at: "bit (byte_at n w) k \<longleftrightarrow> k < 8 \<and> bit w (min (n + k) 31)"
  unfolding byte_at_def masks by (auto simp: bit_simps min_def)

lemma byte_at_pack2:
  "byte_at 0 (push_bit 8 (ucast (a :: u8)) OR ucast (b :: u8)) = b"
  "byte_at 8 (push_bit 8 (ucast (a :: u8)) OR ucast (b :: u8)) = a"
  by (rule bit_word_eqI, auto simp: bit_byte_at bit_simps dest: bit_u8_less)+

lemma zcl_pack:
  fixes c :: u16 and s t :: u8
  defines "p \<equiv> EventZclResponsePack c s t"
  shows "byte_at 0 p = t" "byte_at 8 p = s" "drop_bit 16 p AND 0xFFFF = (ucast c :: u32)"
proof -
  show "byte_at 0 p = t"
    unfolding p_def EventZclResponsePack_def by (rule bit_word_eqI) (auto simp: bit_byte_at bit_simps dest: bit_u8_less)
  show "byte_at 8 p = s"
    unfolding p_def EventZclResponsePack_def by (rule bit_word_eqI) (auto simp: bit_byte_at bit_simps dest: bit_u8_less)
  show "drop_bit 16 p AND 0xFFFF = (ucast c :: u32)"
    unfolding p_def EventZclResponsePack_def masks
    by (rule bit_word_eqI) (auto simp: bit_simps dest: bit_u8_less bit_u16_less)
qed

lemma sint_small: "unat w < 2 ^ 24 \<Longrightarrow> sint w = int (unat w)" for w :: s32
proof -
  assume "unat w < 2 ^ 24"
  then have "uint w < 2 ^ 24" using of_nat_less_iff [of "unat w" "2 ^ 24", where 'a = int] by simp
  then have "signed_take_bit 31 (uint w) = uint w"
    by (intro signed_take_bit_int_eq_self order_trans [OF _ uint_ge_0]) auto
  then show ?thesis by (simp add: sint_uint)
qed

lemma timer_pack:
  fixes i t :: s32
  assumes "unat i < 256" "unat t < 2 ^ 24"
  shows "EventTimerPack i t = Some (push_bit 24 i OR t)"
    and "signed_drop_bit 24 (push_bit 24 i OR t) AND 0xFF = i" "(push_bit 24 i OR t) AND 0xFFFFFF = t"
proof -
  have "take_bit 8 i = i" "take_bit 24 t = t"
    using assms by (simp_all add: word_unat_eq_iff unsigned_take_bit_eq take_bit_nat_eq_self)
  note tb = this
  have i: "\<not> bit i n" if "8 \<le> n" for n using that tb(1) by (metis bit_take_bit_iff not_le)
  have t: "\<not> bit t n" if "24 \<le> n" for n using that tb(2) by (metis bit_take_bit_iff not_le)
  have "sint i \<le> 255" "sint t \<le> 0xFFFFFF"
    using assms sint_small [of i] sint_small [of t] by (simp_all add: uint_nat del: of_nat_unat)
  then show "EventTimerPack i t = Some (push_bit 24 i OR t)"
    by (simp add: EventTimerPack_def)
  show "signed_drop_bit 24 (push_bit 24 i OR t) AND 0xFF = i"
    unfolding masks by (rule bit_word_eqI) (use i t in \<open>auto simp: bit_simps min_def\<close>)
  show "(push_bit 24 i OR t) AND 0xFFFFFF = t"
    unfolding masks by (rule bit_word_eqI) (use i t in \<open>auto simp: bit_simps not_le [symmetric]\<close>)
qed


section \<open>Events with data\<close>

text \<open>The buffers after further events with data.\<close>

fun more_events :: "(string \<times> string \<times> u8 list \<times> device_key) list \<Rightarrow> event_buffers \<Rightarrow> event_buffers option" where
  "more_events [] b = Some b"
| "more_events ((r, w, d, key) # ds) b = do { (e, b) \<leftarrow> EventBytes r w d key b; more_events ds b }"

definition ebs_ok :: "event_buffers \<Rightarrow> bool" where
  "ebs_ok b \<longleftrightarrow> length (ebs_data b) = MaxEventDataBuffers \<and> ebs_iter b < MaxEventDataBuffers \<and>
     (\<forall>d \<in> set (ebs_data b). length (eb_data d) = MaxEventDataSize)"

lemma data_fields:
  "ev_dataIndex (ev_set_data k i n e) = k" "ev_dataId (ev_set_data k i n e) = i" "ev_dataSize (ev_set_data k i n e) = n"
  unfolding ev_dataIndex_def ev_dataId_def ev_dataSize_def ev_set_data_def masks
  by (simp_all, (rule bit_word_eqI, auto simp: bit_simps dest: bit_u16_less)+)

text \<open>What one more event does to the buffers: the next one in the ring gets a new id and the bytes.\<close>

lemma EventBytes_Some:
  assumes "ebs_ok b" "0 < length d" "length d \<le> MaxEventDataSize"
  defines "k \<equiv> (ebs_iter b + 1) mod MaxEventDataBuffers"
  defines "s \<equiv> ebs_data b ! k"
  shows "\<exists>e. EventBytes r w d key b =
      Some (e, b\<lparr>ebs_iter := k, ebs_data := (ebs_data b)[k := s\<lparr>eb_id := eb_id s + 1, eb_data := put_bytes d (eb_data s)\<rparr>]\<rparr>) \<and>
    ev_hasDataBit e \<and> unat (ev_dataIndex e) = k \<and> ev_dataId e = eb_id s + 1 \<and> unat (ev_dataSize e) = length d"
proof -
  have k: "k < 64" "unat (of_nat k :: u16) = k" "k < length (ebs_data b)"
    using assms(1) by (simp_all add: k_def MaxEventDataBuffers_def unat_of_nat ebs_ok_def)
  have d: "unat (of_nat (length d) :: u16) = length d" using assms(3) by (simp add: MaxEventDataSize_def unat_of_nat)
  have k0: "Suc (ebs_iter b) mod MaxEventDataBuffers = k" by (simp add: k_def)
  show ?thesis
    using assms(2,3) k d
    by (simp add: k0 EventBytes_def allocDataBuffer_def k_def [symmetric] s_def Let_def data_fields)
      (simp add: ev_set_data_def)
qed


lemma put_bytes_length: "length d \<le> length buf \<Longrightarrow> length (put_bytes d buf) = length buf"
  by (simp add: put_bytes_def)

lemma EventBytes_ok:
  assumes "ebs_ok b" "EventBytes r w d key b = Some (e, b')"
  shows "ebs_ok b'" "ebs_iter b' = (ebs_iter b + 1) mod 64"
    "\<And>j. j < 64 \<Longrightarrow> j \<noteq> ebs_iter b' \<Longrightarrow> ebs_data b' ! j = ebs_data b ! j"
    "eb_id (ebs_data b' ! ebs_iter b') = eb_id (ebs_data b ! ebs_iter b') + 1"
proof -
  have d: "0 < length d" "length d \<le> MaxEventDataSize"
    using assms(2) by (auto simp: EventBytes_def c_assert_def split: if_split_asm)
  let ?k = "(ebs_iter b + 1) mod MaxEventDataBuffers"
  have k: "?k < length (ebs_data b)" using assms(1) by (simp add: ebs_ok_def MaxEventDataBuffers_def)
  have b': "b' = b\<lparr>ebs_iter := ?k, ebs_data := (ebs_data b)[?k := (ebs_data b ! ?k)\<lparr>eb_id := eb_id (ebs_data b ! ?k) + 1, eb_data := put_bytes d (eb_data (ebs_data b ! ?k))\<rparr>]\<rparr>"
    using EventBytes_Some [OF assms(1) d, of r w key] assms(2) by auto
  have "length (eb_data (ebs_data b ! ?k)) = MaxEventDataSize" using assms(1) k by (simp add: ebs_ok_def)
  then have "length (put_bytes d (eb_data (ebs_data b ! ?k))) = MaxEventDataSize" using d by (simp add: put_bytes_length)
  then show "ebs_ok b'" using assms(1) by (auto simp: b' ebs_ok_def MaxEventDataBuffers_def dest!: set_update_subset_insert [THEN subsetD])
  show "ebs_iter b' = (ebs_iter b + 1) mod 64" by (simp add: b' MaxEventDataBuffers_def)
  show "j < 64 \<Longrightarrow> j \<noteq> ebs_iter b' \<Longrightarrow> ebs_data b' ! j = ebs_data b ! j" for j by (simp add: b')
  show "eb_id (ebs_data b' ! ebs_iter b') = eb_id (ebs_data b ! ebs_iter b') + 1" using k by (simp add: b')
qed

lemma more_events_ok: "ebs_ok b \<Longrightarrow> more_events ds b = Some b' \<Longrightarrow> ebs_ok b'"
  by (induction ds b rule: more_events.induct) (auto split: Option.bind_splits dest: EventBytes_ok(1))

lemma ring_step: "1 < \<delta> \<Longrightarrow> \<delta> \<le> 64 \<Longrightarrow> (i + \<delta>) mod 64 \<noteq> (i + 1) mod 64" for i \<delta> :: nat
  using mod_eq_dvd_iff_nat [of "i + 1" "i + \<delta>" 64] by (auto dest: dvd_imp_le)

lemma ring_shift: "0 < \<delta> \<Longrightarrow> ((i + 1) mod 64 + (\<delta> - 1)) mod 64 = (i + \<delta>) mod 64" for i \<delta> :: nat
proof -
  assume "0 < \<delta>"
  then have "i + 1 + (\<delta> - 1) = i + \<delta>" by simp
  then show ?thesis by (metis mod_add_left_eq)
qed

lemma more_events_slot:
  assumes "ebs_ok b" "more_events ds b = Some b'" "0 < \<delta>" "\<delta> \<le> 64" "j = (ebs_iter b + \<delta>) mod 64"
  shows "eb_id (ebs_data b' ! j) = eb_id (ebs_data b ! j) + of_nat ((length ds + (64 - \<delta>)) div 64)"
    and "length ds < \<delta> \<Longrightarrow> ebs_data b' ! j = ebs_data b ! j"
  using assms
proof (induction ds arbitrary: b \<delta>)
  case Nil
  {
    case 1
    then show ?case by simp
  next
    case 2
    then show ?case by simp
  }
next
  case (Cons d ds)
  {
    case 1
    then obtain r w x key e c where c: "EventBytes r w x key b = Some (e, c)" "more_events ds c = Some b'"
      by (cases d) (auto split: Option.bind_splits)
    note o = EventBytes_ok [OF "1"(1) c(1)]
    show ?case
    proof (cases "\<delta> = 1")
      case True
      then have j: "j = ebs_iter c" "j = (ebs_iter c + 64) mod 64" using "1"(5) o(2) by simp_all
      have "eb_id (ebs_data b' ! j) = eb_id (ebs_data c ! j) + of_nat ((length ds + (64 - 64)) div 64)"
        by (rule Cons.IH(1) [OF o(1) c(2) _ _ j(2)]) simp_all
      moreover have "(length ds + 64) div 64 = Suc (length ds div 64)" by simp
      ultimately show ?thesis using o(4) True j(1) by (simp add: algebra_simps)
    next
      case False
      have "j \<noteq> ebs_iter c" using "1"(1,4,5) o(2) False ring_step [of \<delta> "ebs_iter b"] "1"(3) by (simp add: ebs_ok_def)
      have "eb_id (ebs_data b' ! j) = eb_id (ebs_data c ! j) + of_nat ((length ds + (64 - (\<delta> - 1))) div 64)"
        by (rule Cons.IH(1) [OF o(1) c(2)]) (use "1"(3,4,5) False o(2) ring_shift [of \<delta> "ebs_iter b"] in simp_all)
      moreover have "ebs_data c ! j = ebs_data b ! j" by (rule o(3)) (use "1"(5) \<open>j \<noteq> ebs_iter c\<close> in simp_all)
      moreover have "length ds + (64 - (\<delta> - 1)) = length (d # ds) + (64 - \<delta>)" using "1"(3,4) by simp
      ultimately show ?thesis by (simp only:)
    qed
  next
    case 2
    then obtain r w x key e c where c: "EventBytes r w x key b = Some (e, c)" "more_events ds c = Some b'"
      by (cases d) (auto split: Option.bind_splits)
    note o = EventBytes_ok [OF "2"(2) c(1)]
    have "j \<noteq> ebs_iter c" using "2" o(2) ring_step [of \<delta> "ebs_iter b"] by (simp add: ebs_ok_def)
    have "ebs_data b' ! j = ebs_data c ! j"
      by (rule Cons.IH(2) [OF _ o(1) c(2), of "\<delta> - 1"]) (use "2"(1,4,5,6) o(2) ring_shift [of \<delta> "ebs_iter b"] in simp_all)
    also have "\<dots> = ebs_data b ! j" by (rule o(3)) (use "2"(6) \<open>j \<noteq> ebs_iter c\<close> in simp_all)
    finally show ?case .
  }
qed


section \<open>Properties\<close>

text \<open>C8: what is packed into the number of an event is what is read from it: identifier, status, sequence number and cluster for all
  values, timer and timeout for all that pass the assertions and are not negative.\<close>

theorem event_packing_roundtrip:
  "EventApsConfirmId (e\<lparr>ev_num := EventApsConfirmPack i st\<rparr>) = i \<and> EventApsConfirmStatus (e\<lparr>ev_num := EventApsConfirmPack i st\<rparr>) = st \<and>
   EventZdpResponseSequenceNumber (e\<lparr>ev_num := EventZdpResponsePack i st\<rparr>) = i \<and>
   EventZdpResponseStatus (e\<lparr>ev_num := EventZdpResponsePack i st\<rparr>) = st \<and>
   EventZclClusterId (e\<lparr>ev_num := EventZclResponsePack c i st\<rparr>) = ucast c \<and>
   EventZclSequenceNumber (e\<lparr>ev_num := EventZclResponsePack c i st\<rparr>) = i \<and>
   EventZclStatus (e\<lparr>ev_num := EventZclResponsePack c i st\<rparr>) = st \<and>
   (unat tid < 256 \<and> unat t < 2 ^ 24 \<longrightarrow> (\<exists>n. EventTimerPack tid t = Some n \<and>
      EventTimerId (e\<lparr>ev_num := n\<rparr>) = tid \<and> EventTimerTimout (e\<lparr>ev_num := n\<rparr>) = t))"
  by (auto simp: EventApsConfirmId_def EventApsConfirmStatus_def EventApsConfirmPack_def EventZdpResponseSequenceNumber_def
    EventZdpResponseStatus_def EventZdpResponsePack_def EventZclClusterId_def EventZclSequenceNumber_def EventZclStatus_def
    EventTimerId_def EventTimerTimout_def byte_at_pack2 zcl_pack timer_pack)

theorem event_packing_roundtrip_witness:
  "\<exists>n. EventTimerPack 200 3000 = Some n \<and> EventTimerId (Event0\<lparr>ev_num := n\<rparr>) = 200 \<and> EventTimerTimout (Event0\<lparr>ev_num := n\<rparr>) = 3000"
  using event_packing_roundtrip [where e = Event0 and tid = 200 and t = 3000] by simp



lemma ebs_ok_init: "ebs_ok ebs_init"
  by (auto simp: ebs_ok_def ebs_init_def MaxEventDataBuffers_def)


end
