(* ===== verification/Event_Emitter.thy ===== *)
theory Event_Emitter
  imports Event_Data
begin

text \<open>
  \<open>EventEmitter\<close> (\<^verbatim>\<open>event_emitter.cpp\<close>): the queue of events with its position, the queue of urgent
  events, and the single shot timer that runs \<^verbatim>\<open>process\<close>. The event handlers are an argument: from
  their state and an event they give a new state and the events they enqueue.
\<close>

record emitter =
  em_pos :: nat
  em_queue :: "event list"
  em_urgent :: "event list"
  em_timer :: bool

definition em_init :: emitter where
  "em_init = \<lparr>em_pos = 0, em_queue = [], em_urgent = [], em_timer = False\<rparr>"

text \<open>The comparison of two events; \<open>hasd\<close> tells whether an event has data (it depends on the data buffers).\<close>

definition same_event :: "(event \<Rightarrow> bool) \<Rightarrow> event \<Rightarrow> event \<Rightarrow> bool" where
  "same_event hasd e x \<longleftrightarrow>
     ev_deviceKey e = ev_deviceKey x \<and> ev_resource e = ev_resource x \<and> ev_what e = ev_what x \<and> ev_num e = ev_num x \<and>
     ev_id e = ev_id x \<and> hasd e = hasd x \<and> (hasd e \<longrightarrow> ev_dataSize e = ev_dataSize x)"

fun isDuplicate :: "(event \<Rightarrow> bool) \<Rightarrow> nat \<Rightarrow> event list \<Rightarrow> event \<Rightarrow> bool" where
  "isDuplicate hasd pos queue e \<longleftrightarrow> list_ex (same_event hasd e) (drop pos queue)"

text \<open>The nodes of the plugin: the extended address of a sensor or light.\<close>

record plugin_nodes =
  getSensorNodeForId :: "string \<Rightarrow> u64 option"
  getSensorNodeForUniqueId :: "string \<Rightarrow> u64 option"
  getLightNodeForId :: "string \<Rightarrow> u64 option"

definition restNode :: "plugin_nodes \<Rightarrow> event \<Rightarrow> u64 option" where
  "restNode nodes e =
     (if ev_deviceKey e = 0 \<and> (ev_resource e = RSensors \<or> ev_resource e = RLights) then
        (if ev_resource e = RSensors then
           (case getSensorNodeForId nodes (ev_id e) of Some a \<Rightarrow> Some a | None \<Rightarrow> getSensorNodeForUniqueId nodes (ev_id e))
         else if ev_resource e = RLights then getLightNodeForId nodes (ev_id e)
         else None)
      else None)"

definition enqueueEvent :: "(event \<Rightarrow> bool) \<Rightarrow> plugin_nodes \<Rightarrow> event \<Rightarrow> emitter \<Rightarrow> emitter" where
  "enqueueEvent hasd nodes e em =
     (let node = restNode nodes e;
          em =
            (if ev_urgent e then em\<lparr>em_urgent := em_urgent em @ [e]\<rparr>
             else
               (let e2 = (case node of Some a \<Rightarrow> if a > 0 then e\<lparr>ev_deviceKey := a\<rparr> else e | None \<Rightarrow> e) in
                if \<not> isDuplicate hasd (em_pos em) (em_queue em) e2 then em\<lparr>em_queue := em_queue em @ [e2]\<rparr> else em)) in
      if \<not> em_timer em then em\<lparr>em_timer := True\<rparr> else em)"

text \<open>\<^verbatim>\<open>emit eventNotify(ev)\<close>: the handlers run, and what they enqueue goes through \<open>enqueueEvent\<close>.\<close>

type_synonym 's handler = "'s \<Rightarrow> event \<Rightarrow> 's \<times> event list"

definition eventNotify ::
  "(event \<Rightarrow> bool) \<Rightarrow> plugin_nodes \<Rightarrow> 's handler \<Rightarrow> event \<Rightarrow> emitter \<times> 's \<Rightarrow> emitter \<times> 's" where
  "eventNotify hasd nodes h e st = (let (em, s) = st; (s, es) = h s e in (fold (enqueueEvent hasd nodes) es em, s))"

text \<open>The inner loop over the urgent events; a handler that always enqueues another one keeps it running.\<close>

partial_function (option) em_urgent_loop ::
  "(event \<Rightarrow> bool) \<Rightarrow> plugin_nodes \<Rightarrow> 's handler \<Rightarrow> nat \<Rightarrow> emitter \<times> 's \<Rightarrow> (emitter \<times> 's) option" where
  "em_urgent_loop hasd nodes h i st =
     (if i < length (em_urgent (fst st)) then
        (let st = eventNotify hasd nodes h (em_urgent (fst st) ! i) st;
             i = i + 1 in
         if i = length (em_urgent (fst st)) then Some ((fst st)\<lparr>em_urgent := []\<rparr>, snd st)
         else em_urgent_loop hasd nodes h i st)
      else Some st)"

definition em_next ::
  "(event \<Rightarrow> bool) \<Rightarrow> plugin_nodes \<Rightarrow> 's handler \<Rightarrow> emitter \<times> 's \<Rightarrow> emitter \<times> 's" where
  "em_next hasd nodes h st =
     (let em = fst st in
      if em_pos em < length (em_queue em) then
        (let ev = em_queue em ! em_pos em;
             st = eventNotify hasd nodes h ev (em\<lparr>em_pos := em_pos em + 1\<rparr>, snd st);
             em = fst st in
         if em_pos em = length (em_queue em) then (em\<lparr>em_queue := [], em_pos := 0\<rparr>, snd st) else st)
      else st)"

text \<open>\<open>rounds\<close>: how often the test of the elapsed time succeeds.\<close>

fun em_process ::
  "(event \<Rightarrow> bool) \<Rightarrow> plugin_nodes \<Rightarrow> 's handler \<Rightarrow> nat \<Rightarrow> emitter \<times> 's \<Rightarrow> (emitter \<times> 's) option" where
  "em_process hasd nodes h 0 st = Some st"
| "em_process hasd nodes h (Suc rounds) st =
     (if em_urgent (fst st) \<noteq> [] \<or> em_queue (fst st) \<noteq> [] then do {
        st \<leftarrow> em_urgent_loop hasd nodes h 0 st;
        em_process hasd nodes h rounds (em_next hasd nodes h st) }
      else Some st)"

text \<open>The timer is single shot: it is inactive when its slot runs.\<close>

definition em_timerFired ::
  "(event \<Rightarrow> bool) \<Rightarrow> plugin_nodes \<Rightarrow> 's handler \<Rightarrow> nat \<Rightarrow> emitter \<times> 's \<Rightarrow> (emitter \<times> 's) option" where
  "em_timerFired hasd nodes h rounds st = do {
     st \<leftarrow> em_process hasd nodes h rounds ((fst st)\<lparr>em_timer := False\<rparr>, snd st);
     Some (if em_queue (fst st) \<noteq> [] \<and> \<not> em_timer (fst st) then ((fst st)\<lparr>em_timer := True\<rparr>, snd st) else st) }"

section \<open>Dispatch of events\<close>

text \<open>\<^verbatim>\<open>DeRestPluginPrivate::handleEvent\<close> (\<^verbatim>\<open>event_queue.cpp\<close>) as the list of handlers it calls.\<close>

datatype handler_call =
    HandleSensorEvent
  | HandleLightEvent
  | HandleGroupEvent
  | AS_DeviceEvent
  | AS_Event
  | WidgetHandleEvent
  | NeedRuleCheck
  | DeviceHandleEvent
  | NotifyDeviceEvent
  | HandleRuleEvent

definition plugin_handleEvent :: "bool \<Rightarrow> bool \<Rightarrow> (device_key \<Rightarrow> bool) \<Rightarrow> event \<Rightarrow> handler_call list" where
  "plugin_handleEvent alarmSystems deviceWidget hasDevice e =
     (if ev_resource e = RSensors then [HandleSensorEvent, AS_DeviceEvent]
      else if ev_resource e = RLights then [HandleLightEvent, AS_DeviceEvent]
      else if ev_resource e = RGroups then [HandleGroupEvent]
      else if ev_resource e = RAlarmSystems \<or> ev_what e = REventDeviceAlarm then (if alarmSystems then [AS_Event] else [])
      else if ev_resource e = RConfig then (if deviceWidget then [WidgetHandleEvent] else [])
      else if ev_resource e = RDevices \<and> ev_what e = REventDDFInitResponse then [NeedRuleCheck]
      else []) @
     (if ev_deviceKey e \<noteq> 0 \<and> hasDevice (ev_deviceKey e) then
        DeviceHandleEvent # (if take 1 (ev_what e) \<noteq> ''e'' then [NotifyDeviceEvent] else [])
      else []) @
     [HandleRuleEvent]"

section \<open>Queues without duplicates\<close>

text \<open>What the emitter promises, on lists: an event is appended unless an equal one waits.\<close>

definition enqueue_list :: "('e \<Rightarrow> 'e \<Rightarrow> bool) \<Rightarrow> 'e \<Rightarrow> 'e list \<Rightarrow> 'e list" where
  "enqueue_list same e xs = (if list_ex (same e) xs then xs else xs @ [e])"

locale event_equality =
  fixes same :: "'e \<Rightarrow> 'e \<Rightarrow> bool"
  assumes same_refl: "same e e"
    and same_sym: "same e x \<Longrightarrow> same x e"
    and same_trans: "same e x \<Longrightarrow> same x y \<Longrightarrow> same e y"
begin

definition uniq :: "'e list \<Rightarrow> bool" where
  "uniq xs \<longleftrightarrow> sorted_wrt (\<lambda>x y. \<not> same x y) xs"

lemma uniq_enqueue: "uniq xs \<Longrightarrow> uniq (enqueue_list same e xs)"
  using same_sym by (fastforce simp: uniq_def enqueue_list_def sorted_wrt_append list_ex_iff)

lemma uniq_fold: "uniq xs \<Longrightarrow> uniq (fold (enqueue_list same) es xs)"
  by (induction es arbitrary: xs) (auto simp: uniq_enqueue)

lemma enqueue_keeps: "\<exists>ys. enqueue_list same e xs = xs @ ys \<and> set ys \<subseteq> {e}"
  by (simp add: enqueue_list_def)

lemma fold_keeps: "\<exists>ys. fold (enqueue_list same) es xs = xs @ ys \<and> set ys \<subseteq> set es"
proof (induction es arbitrary: xs)
  case (Cons e es)
  obtain ys where ys: "enqueue_list same e xs = xs @ ys" "set ys \<subseteq> {e}" using enqueue_keeps by blast
  moreover obtain zs where "fold (enqueue_list same) es (xs @ ys) = (xs @ ys) @ zs" "set zs \<subseteq> set es"
    using Cons by blast
  ultimately have "fold (enqueue_list same) (e # es) xs = xs @ (ys @ zs) \<and> set (ys @ zs) \<subseteq> set (e # es)" by auto
  then show ?case by blast
qed simp

text \<open>No event is lost: an equal one waits.\<close>

lemma enqueue_waits: "\<exists>x \<in> set (enqueue_list same e xs). same e x"
  using same_refl by (auto simp: enqueue_list_def list_ex_iff)

lemma fold_waits: "e \<in> set es \<Longrightarrow> \<exists>x \<in> set (fold (enqueue_list same) es xs). same e x"
proof (induction es arbitrary: xs)
  case (Cons f es)
  show ?case
  proof (cases "e = f")
    case True
    obtain x where "x \<in> set (enqueue_list same e xs)" "same e x" using enqueue_waits by blast
    moreover obtain ys where "fold (enqueue_list same) es (enqueue_list same e xs) = enqueue_list same e xs @ ys"
      using fold_keeps by blast
    ultimately show ?thesis using True by auto
  next
    case False
    then show ?thesis using Cons by simp
  qed
qed simp

end

interpretation ee: event_equality "same_event hasd" for hasd
  by unfold_locales (auto simp: same_event_def)

section \<open>The waiting events of the emitter\<close>

definition em_pending :: "emitter \<Rightarrow> event list" where
  "em_pending em = drop (em_pos em) (em_queue em)"

definition keyed :: "plugin_nodes \<Rightarrow> event \<Rightarrow> event" where
  "keyed nodes e = (case restNode nodes e of Some a \<Rightarrow> if a > 0 then e\<lparr>ev_deviceKey := a\<rparr> else e | None \<Rightarrow> e)"

lemma enqueueEvent_fields:
  "em_pos (enqueueEvent hasd nodes e em) = em_pos em" "em_timer (enqueueEvent hasd nodes e em)"
  "em_urgent (enqueueEvent hasd nodes e em) = (if ev_urgent e then em_urgent em @ [e] else em_urgent em)"
  "em_queue (enqueueEvent hasd nodes e em) =
     (if ev_urgent e \<or> isDuplicate hasd (em_pos em) (em_queue em) (keyed nodes e) then em_queue em else em_queue em @ [keyed nodes e])"
  by (auto simp: enqueueEvent_def keyed_def Let_def)

definition em_ok :: "emitter \<Rightarrow> bool" where
  "em_ok em \<longleftrightarrow> em_pos em \<le> length (em_queue em)"

lemma enqueueEvent_ok: "em_ok em \<Longrightarrow> em_ok (enqueueEvent hasd nodes e em)"
  by (simp add: em_ok_def enqueueEvent_fields)

lemma enqueueEvent_pending:
  "em_ok em \<Longrightarrow> em_pending (enqueueEvent hasd nodes e em) =
     (if ev_urgent e then em_pending em else enqueue_list (same_event hasd) (keyed nodes e) (em_pending em))"
  by (simp add: em_ok_def em_pending_def enqueueEvent_fields enqueue_list_def)

lemma fold_enqueueEvent:
  assumes "em_ok em"
  shows "em_ok (fold (enqueueEvent hasd nodes) es em)"
    "em_pos (fold (enqueueEvent hasd nodes) es em) = em_pos em"
    "em_pending (fold (enqueueEvent hasd nodes) es em) =
       fold (enqueue_list (same_event hasd)) (map (keyed nodes) (filter (\<lambda>e. \<not> ev_urgent e) es)) (em_pending em)"
    "em_urgent (fold (enqueueEvent hasd nodes) es em) = em_urgent em @ filter ev_urgent es"
    "em_timer (fold (enqueueEvent hasd nodes) es em) \<longleftrightarrow> em_timer em \<or> es \<noteq> []"
  using assms
  by (induction es arbitrary: em) (auto simp: enqueueEvent_ok enqueueEvent_pending enqueueEvent_fields)

text \<open>The specification of one step: the first waiting event is handled, and what its handlers enqueue is added behind the rest.\<close>

definition spec_next :: "(event \<Rightarrow> bool) \<Rightarrow> plugin_nodes \<Rightarrow> 's handler \<Rightarrow> event list \<times> 's \<Rightarrow> event list \<times> 's" where
  "spec_next hasd nodes h qs =
     (case fst qs of
        [] \<Rightarrow> qs
      | e # rest \<Rightarrow> (let (s, es) = h (snd qs) e in
          (fold (enqueue_list (same_event hasd)) (map (keyed nodes) (filter (\<lambda>e. \<not> ev_urgent e) es)) rest, s)))"

lemma eventNotify_eq:
  "eventNotify hasd nodes h e (em, s) = (fold (enqueueEvent hasd nodes) (snd (h s e)) em, fst (h s e))"
  by (simp add: eventNotify_def split: prod.split)

lemma em_next_spec:
  assumes "em_ok em" "em_next hasd nodes h (em, s) = (em', s')"
  shows "em_ok em'" "(em_pending em', s') = spec_next hasd nodes h (em_pending em, s)"
    "em_urgent em' = em_urgent em @ (if em_pending em = [] then [] else filter ev_urgent (snd (h s (hd (em_pending em)))))"
    "em_timer em \<Longrightarrow> em_timer em'" "em_urgent em' \<noteq> em_urgent em \<Longrightarrow> em_timer em'"
proof -
  have "em_ok em' \<and> (em_pending em', s') = spec_next hasd nodes h (em_pending em, s) \<and>
    em_urgent em' = em_urgent em @ (if em_pending em = [] then [] else filter ev_urgent (snd (h s (hd (em_pending em))))) \<and>
    (em_timer em \<longrightarrow> em_timer em') \<and> (em_urgent em' \<noteq> em_urgent em \<longrightarrow> em_timer em')"
  proof (cases "em_pos em < length (em_queue em)")
    case False
    then show ?thesis using assms by (auto simp: em_next_def spec_next_def em_pending_def)
  next
    case True
    let ?e = "em_queue em ! em_pos em" and ?em = "em\<lparr>em_pos := em_pos em + 1\<rparr>"
    let ?em1 = "fold (enqueueEvent hasd nodes) (snd (h s ?e)) ?em"
    have ok: "em_ok ?em" using True by (simp add: em_ok_def)
    note f = fold_enqueueEvent [OF ok, of hasd nodes "snd (h s ?e)"]
    have p: "em_pending em = ?e # em_pending ?em" using True by (simp add: em_pending_def Cons_nth_drop_Suc)
    have em': "em' = (if em_pos ?em1 = length (em_queue ?em1) then ?em1\<lparr>em_queue := [], em_pos := 0\<rparr> else ?em1)" "s' = fst (h s ?e)"
      using assms(2) True by (auto simp: em_next_def eventNotify_eq Let_def split: if_split_asm)
    have "em_ok em'" using f(1) by (simp add: em' em_ok_def)
    moreover have "em_pending em' = em_pending ?em1" using f(1) by (auto simp: em' em_pending_def)
    ultimately show ?thesis
      using f p by (auto simp: spec_next_def em' split: prod.split)
  qed
  then show "em_ok em'" "(em_pending em', s') = spec_next hasd nodes h (em_pending em, s)"
    "em_urgent em' = em_urgent em @ (if em_pending em = [] then [] else filter ev_urgent (snd (h s (hd (em_pending em)))))"
    "em_timer em \<Longrightarrow> em_timer em'" "em_urgent em' \<noteq> em_urgent em \<Longrightarrow> em_timer em'"
    by blast+
qed

section \<open>The timer slot\<close>

lemma eventNotify_ok:
  assumes "em_ok (fst st)"
  shows "em_ok (fst (eventNotify hasd nodes h e st))"
    "em_urgent (fst (eventNotify hasd nodes h e st)) = em_urgent (fst st) @ filter ev_urgent (snd (h (snd st) e))"
    "em_timer (fst st) \<Longrightarrow> em_timer (fst (eventNotify hasd nodes h e st))"
  using fold_enqueueEvent [OF assms] by (cases st; simp add: eventNotify_eq)+

lemma urgent_loop_drains:
  assumes "em_urgent_loop hasd nodes h i st = Some st'"
  shows "em_ok (fst st) \<longrightarrow> em_ok (fst st') \<and> (if i < length (em_urgent (fst st)) then em_urgent (fst st') = [] else st' = st)"
proof (rule em_urgent_loop.raw_induct [OF _ assms, where P = "\<lambda>hasd nodes h i st st'. em_ok (fst st) \<longrightarrow>
    em_ok (fst st') \<and> (if i < length (em_urgent (fst st)) then em_urgent (fst st') = [] else st' = st)"], intro impI)
  fix loop and hasd :: "event \<Rightarrow> bool" and nodes and h :: "'a handler" and i st st'
  assume IH: "\<And>hasd nodes h i st st'. loop hasd nodes h i st = Some st' \<Longrightarrow> em_ok (fst st) \<longrightarrow>
      em_ok (fst st') \<and> (if i < length (em_urgent (fst st)) then em_urgent (fst st') = [] else st' = st)"
    and body: "(if i < length (em_urgent (fst st))
      then let st = eventNotify hasd nodes h (em_urgent (fst st) ! i) st; i = i + 1
           in if i = length (em_urgent (fst st)) then Some ((fst st)\<lparr>em_urgent := []\<rparr>, snd st) else loop hasd nodes h i st
      else Some st) = Some st'" and ok: "em_ok (fst st)"
  let ?st = "eventNotify hasd nodes h (em_urgent (fst st) ! i) st"
  note n = eventNotify_ok [OF ok, of hasd nodes h "em_urgent (fst st) ! i"]
  show "em_ok (fst st') \<and> (if i < length (em_urgent (fst st)) then em_urgent (fst st') = [] else st' = st)"
  proof (cases "i < length (em_urgent (fst st))")
    case False
    then show ?thesis using body ok by auto
  next
    case True
    show ?thesis
    proof (cases "i + 1 = length (em_urgent (fst ?st))")
      case True
      then show ?thesis using body n(1) \<open>i < _\<close> by (auto simp: Let_def em_ok_def)
    next
      case False
      then have "loop hasd nodes h (i + 1) ?st = Some st'" using body \<open>i < _\<close> by (simp add: Let_def)
      moreover have "i + 1 < length (em_urgent (fst ?st))" using False \<open>i < _\<close> n(2) by auto
      ultimately show ?thesis using IH [of hasd nodes h "i + 1" ?st st'] n(1) \<open>i < _\<close> by simp
    qed
  qed
qed

lemma process_wakes:
  assumes "em_process hasd nodes h rounds st = Some st'" "em_ok (fst st)" "em_urgent (fst st) \<noteq> [] \<longrightarrow> em_timer (fst st)"
  shows "em_urgent (fst st') \<noteq> [] \<longrightarrow> em_timer (fst st')"
  using assms
proof (induction rounds arbitrary: st)
  case (Suc rounds)
  show ?case
  proof (cases "em_urgent (fst st) \<noteq> [] \<or> em_queue (fst st) \<noteq> []")
    case True
    then obtain st1 where l: "em_urgent_loop hasd nodes h 0 st = Some st1"
      "em_process hasd nodes h rounds (em_next hasd nodes h st1) = Some st'"
      using Suc.prems(1) by (auto split: Option.bind_splits)
    have d: "em_ok (fst st1)" "em_urgent (fst st1) = []"
      using urgent_loop_drains [OF l(1)] Suc.prems(2) by (auto split: if_split_asm)
    obtain em s where st1: "st1 = (em, s)" by (cases st1)
    obtain em' s' where n: "em_next hasd nodes h (em, s) = (em', s')" by (cases "em_next hasd nodes h (em, s)")
    have "em_ok em" using d st1 by simp
    from em_next_spec [OF this n] d(2) st1 have "em_ok em'" "em_urgent em' \<noteq> [] \<longrightarrow> em_timer em'" by auto
    then show ?thesis using Suc.IH [of "em_next hasd nodes h st1"] l(2) n st1 by simp
  next
    case False
    then show ?thesis using Suc.prems by auto
  qed
qed simp

text \<open>With at least one round no waiting event is left without a timer.\<close>

lemma timerFired_wakes:
  assumes "em_timerFired hasd nodes h (Suc rounds) (em, s) = Some (em', s')" "em_ok em"
  shows "em_queue em' \<noteq> [] \<or> em_urgent em' \<noteq> [] \<longrightarrow> em_timer em'"
proof -
  let ?st = "(em\<lparr>em_timer := False\<rparr>, s)"
  obtain em1 s1 where p: "em_process hasd nodes h (Suc rounds) ?st = Some (em1, s1)"
    "em' = (if em_queue em1 \<noteq> [] \<and> \<not> em_timer em1 then em1\<lparr>em_timer := True\<rparr> else em1)"
  proof (cases "em_process hasd nodes h (Suc rounds) ?st")
    case None
    then show ?thesis using assms(1) by (simp add: em_timerFired_def del: em_process.simps)
  next
    case (Some st1)
    then show ?thesis using assms(1) that [of "fst st1" "snd st1"]
      by (auto simp: em_timerFired_def simp del: em_process.simps split: if_split_asm)
  qed
  have "em_urgent em1 \<noteq> [] \<longrightarrow> em_timer em1"
  proof (cases "em_urgent em \<noteq> [] \<or> em_queue em \<noteq> []")
    case False
    then show ?thesis using p(1) by auto
  next
    case True
    then obtain st1 where l: "em_urgent_loop hasd nodes h 0 ?st = Some st1"
      "em_process hasd nodes h rounds (em_next hasd nodes h st1) = Some (em1, s1)"
      using p(1) by (auto split: Option.bind_splits)
    have d: "em_ok (fst st1)" "em_urgent (fst st1) = []"
      using urgent_loop_drains [OF l(1)] assms(2) by (auto split: if_split_asm simp: em_ok_def)
    obtain em2 s2 where st1: "st1 = (em2, s2)" by (cases st1)
    obtain em3 s3 where n: "em_next hasd nodes h (em2, s2) = (em3, s3)" by (cases "em_next hasd nodes h (em2, s2)")
    have "em_ok em2" using d st1 by simp
    from em_next_spec [OF this n] d(2) st1 have "em_ok em3" "em_urgent em3 \<noteq> [] \<longrightarrow> em_timer em3" by auto
    then show ?thesis using process_wakes [of hasd nodes h rounds "(em3, s3)" "(em1, s1)"] l(2) n st1 by simp
  qed
  then show ?thesis using p(2) by auto
qed

text \<open>The slot ends if no handler enqueues urgent events.\<close>

lemma urgent_loop_ends:
  assumes "\<And>s e. filter ev_urgent (snd (h s e)) = []" "em_ok (fst st)"
  shows "\<exists>st'. em_urgent_loop hasd nodes h i st = Some st' \<and> em_ok (fst st')"
  using assms(2)
proof (induction "length (em_urgent (fst st)) - i" arbitrary: i st rule: less_induct)
  case less
  show ?case
  proof (cases "i < length (em_urgent (fst st))")
    case False
    then show ?thesis using less.prems by (subst em_urgent_loop.simps) simp
  next
    case True
    let ?st = "eventNotify hasd nodes h (em_urgent (fst st) ! i) st"
    note n = eventNotify_ok [OF less.prems, of hasd nodes h "em_urgent (fst st) ! i"]
    have u: "em_urgent (fst ?st) = em_urgent (fst st)" using n(2) assms(1) by simp
    show ?thesis
    proof (cases "i + 1 = length (em_urgent (fst ?st))")
      case True
      then show ?thesis using \<open>i < _\<close> n(1) by (subst em_urgent_loop.simps) (simp add: Let_def em_ok_def)
    next
      case False
      have "\<exists>st'. em_urgent_loop hasd nodes h (i + 1) ?st = Some st' \<and> em_ok (fst st')"
        by (rule less.hyps) (use u True n(1) in auto)
      then show ?thesis using False True by (subst em_urgent_loop.simps) (simp add: Let_def)
    qed
  qed
qed

lemma process_ends:
  assumes "\<And>s e. filter ev_urgent (snd (h s e)) = []" "em_ok (fst st)"
  shows "\<exists>st'. em_process hasd nodes h rounds st = Some st'"
  using assms(2)
proof (induction rounds arbitrary: st)
  case (Suc rounds)
  obtain st1 where st1: "em_urgent_loop hasd nodes h 0 st = Some st1" "em_ok (fst st1)"
    using urgent_loop_ends [where h = h and i = 0 and hasd = hasd and nodes = nodes, OF assms(1) Suc.prems] by blast
  obtain em s where "st1 = (em, s)" by (cases st1)
  with st1 have l: "em_urgent_loop hasd nodes h 0 st = Some (em, s)" "em_ok em" by simp_all
  obtain em' s' where n: "em_next hasd nodes h (em, s) = (em', s')" by (cases "em_next hasd nodes h (em, s)")
  have "em_ok em'" using em_next_spec(1) [OF l(2) n] .
  then show ?case using l n Suc.IH [of "(em', s')"] by auto
qed simp


section \<open>Properties\<close>

text \<open>C10: the emitter is a first in, first out queue without duplicates: enqueuing an event that is not urgent appends it (with the key of
  its device) to the waiting events unless an equal one waits, and one round hands the first waiting event to the handlers
  and appends what they enqueue behind the others.\<close>

theorem emitter_refines_queue:
  assumes "em_ok em"
  shows "em_pending (enqueueEvent hasd nodes e em) =
      (if ev_urgent e then em_pending em else enqueue_list (same_event hasd) (keyed nodes e) (em_pending em)) \<and>
    (case em_next hasd nodes h (em, s) of (em', s') \<Rightarrow>
       em_ok em' \<and> (em_pending em', s') = spec_next hasd nodes h (em_pending em, s))"
  using enqueueEvent_pending [OF assms] em_next_spec(1,2) [OF assms] by (auto split: prod.split)

definition no_nodes :: plugin_nodes where
  "no_nodes = \<lparr>getSensorNodeForId = \<lambda>_. None, getSensorNodeForUniqueId = \<lambda>_. None, getLightNodeForId = \<lambda>_. None\<rparr>"

theorem emitter_refines_queue_witness:
  "em_pending (enqueueEvent ev_hasDataBit no_nodes (EventNum RConfig REventTick 0 0) em_init) = [EventNum RConfig REventTick 0 0]"
proof -
  have "em_ok em_init" by (simp add: em_ok_def em_init_def)
  from conjunct1 [OF emitter_refines_queue [OF this, of ev_hasDataBit no_nodes "EventNum RConfig REventTick 0 0" "\<lambda>s e. (s, [])" "()"]]
  show ?thesis
    by (simp add: em_init_def em_pending_def enqueue_list_def keyed_def restNode_def EventNum_def Event0_def suffixes)
qed





text \<open>when the first test of the elapsed time fails already, an urgent event is left waiting without a timer.\<close>

theorem emitter_urgent_left_waiting:
  "em_timerFired hasd nodes h 0 (enqueueEvent hasd nodes (Event0\<lparr>ev_urgent := True\<rparr>) em_init, s) =
     Some (em_init\<lparr>em_urgent := [Event0\<lparr>ev_urgent := True\<rparr>], em_timer := False\<rparr>, s)"
  by (simp add: em_timerFired_def enqueueEvent_def em_init_def Event0_def Let_def)

end
