(* ===== verification/State_Change.thy ===== *)
theory State_Change
  imports Res_Item
begin

text \<open>
  \<open>StateChange\<close> (\<^verbatim>\<open>state_change.h\<close>, \<^verbatim>\<open>state_change.cpp\<close>): a target state of a device, the command
  that sets it, and the small state machine that sends, verifies and retries it. Sending is up to
  the APS controller, which is not part of the repository: the environment of a tick says what it
  answers.
\<close>

section \<open>Data\<close>

datatype sc_state = StateCallFunction | StateWaitSync | StateRead | StateFinished | StateFailed

datatype sync_result = VerifyUnknown | VerifySynced | VerifyNotSynced

datatype change_function = SC_SetOnOff | SC_WriteZclAttribute

record sc_item =
  sci_suffix :: string
  sci_targetValue :: qvariant
  sci_verified :: sync_result

record sc_param =
  scp_name :: string
  scp_value :: qvariant

text \<open>A running \<^verbatim>\<open>QElapsedTimer\<close> is the time it was started at.\<close>

record state_change =
  sc_state :: sc_state
  sc_changeFunction :: change_function
  sc_dstEndpoint :: u8
  sc_stateTimeoutMs :: int
  sc_changeTimeoutMs :: int
  sc_stateTimer :: int
  sc_changeTimer :: int
  sc_items :: "sc_item list"
  sc_parameters :: "sc_param list"

definition sc_new :: "int \<Rightarrow> sc_state \<Rightarrow> change_function \<Rightarrow> u8 \<Rightarrow> state_change option" where
  "sc_new now initialState fn dstEndpoint = do {
     c_assert (initialState = StateCallFunction \<or> initialState = StateWaitSync);
     Some \<lparr>sc_state = initialState, sc_changeFunction = fn, sc_dstEndpoint = dstEndpoint, sc_stateTimeoutMs = 1000 * 5,
       sc_changeTimeoutMs = 1000 * 180, sc_stateTimer = now, sc_changeTimer = now, sc_items = [], sc_parameters = []\<rparr> }"

definition sc_setChangeTimeoutMs :: "int \<Rightarrow> state_change \<Rightarrow> state_change" where
  "sc_setChangeTimeoutMs t sc = sc\<lparr>sc_changeTimeoutMs := t\<rparr>"

definition sc_setStateTimeoutMs :: "int \<Rightarrow> state_change \<Rightarrow> state_change" where
  "sc_setStateTimeoutMs t sc = sc\<lparr>sc_stateTimeoutMs := t\<rparr>"

definition sc_addTargetValue :: "string \<Rightarrow> qvariant \<Rightarrow> state_change \<Rightarrow> state_change" where
  "sc_addTargetValue suffix v sc =
     (if v \<noteq> QInvalid
      then sc\<lparr>sc_items := sc_items sc @ [\<lparr>sci_suffix = suffix, sci_targetValue = v, sci_verified = VerifyUnknown\<rparr>]\<rparr>
      else sc)"

fun set_param :: "string \<Rightarrow> qvariant \<Rightarrow> sc_param list \<Rightarrow> sc_param list" where
  "set_param name v [] = [\<lparr>scp_name = name, scp_value = v\<rparr>]"
| "set_param name v (p # ps) = (if scp_name p = name then p\<lparr>scp_value := v\<rparr> # ps else p # set_param name v ps)"

definition sc_addParameter :: "string \<Rightarrow> qvariant \<Rightarrow> state_change \<Rightarrow> state_change" where
  "sc_addParameter name v sc = sc\<lparr>sc_parameters := set_param name v (sc_parameters sc)\<rparr>"

definition sc_equal :: "state_change \<Rightarrow> state_change \<Rightarrow> bool" where
  "sc_equal a b \<longleftrightarrow> sc_changeFunction a = sc_changeFunction b \<and> length (sc_items a) = length (sc_items b) \<and>
     list_all2 (\<lambda>x y. sci_suffix x = sci_suffix y) (sc_items a) (sc_items b)"

section \<open>Verification\<close>

text \<open>\<open>same\<close> compares the target value with the item's value as variants.\<close>

definition verify_one :: "(qvariant \<Rightarrow> resource_item \<Rightarrow> bool) \<Rightarrow> string \<Rightarrow> resource_item \<Rightarrow> sc_item \<Rightarrow> sc_item" where
  "verify_one same suffix item i =
     (if sci_suffix i = suffix
      then i\<lparr>sci_verified := (if same (sci_targetValue i) item then VerifySynced else VerifyNotSynced)\<rparr>
      else i)"

definition sc_verifyItemChange ::
  "(qvariant \<Rightarrow> resource_item \<Rightarrow> bool) \<Rightarrow> descriptor list \<Rightarrow> resource_item \<Rightarrow> state_change \<Rightarrow> state_change" where
  "sc_verifyItemChange same ds item sc =
     (if ri_valueSource item \<noteq> SourceDevice then sc
      else
        (let items = map (verify_one same (rd_suffix (ri_descriptor ds item)) item) (sc_items sc);
             synced = length (filter (\<lambda>i. sci_verified i = VerifySynced) items);
             sc = sc\<lparr>sc_items := items\<rparr> in
         if synced = length items \<and> sc_state sc \<noteq> StateFinished then sc\<lparr>sc_state := StateFinished\<rparr> else sc))"

section \<open>The tick\<close>

text \<open>
  What the tick asks of its surroundings: the time, the number of unconfirmed APS requests (in all and
  for the device), the result of the change function, which items the resource has, whether the
  description of an item has a read function, and whether that enqueued a request.
\<close>

record sc_env =
  env_now :: int
  DA_ApsUnconfirmedRequests :: nat
  DA_ApsUnconfirmedRequestsForExtAddress :: nat
  env_change :: "state_change \<Rightarrow> int"
  env_hasItem :: "string \<Rightarrow> bool"
  env_readable :: "string \<Rightarrow> bool"
  env_readEnqueued :: "string \<Rightarrow> bool"

definition unknown_item :: "state_change \<Rightarrow> sc_item option" where
  "unknown_item sc = List.find (\<lambda>i. sci_verified i = VerifyUnknown) (sc_items sc)"

definition sc_waitSync :: "sc_env \<Rightarrow> state_change \<Rightarrow> state_change" where
  "sc_waitSync env sc =
     (if sc_state sc = StateWaitSync \<and> env_now env - sc_stateTimer sc > sc_stateTimeoutMs sc
      then sc\<lparr>sc_state := (if unknown_item sc \<noteq> None then StateRead else StateCallFunction)\<rparr>
      else sc)"

definition sc_callFunction :: "sc_env \<Rightarrow> state_change \<Rightarrow> nat \<times> state_change" where
  "sc_callFunction env sc =
     (if env_change env sc = 0 then
        (1, sc\<lparr>sc_items := map (\<lambda>i. if sci_verified i = VerifyNotSynced then i\<lparr>sci_verified := VerifyUnknown\<rparr> else i) (sc_items sc),
              sc_stateTimer := env_now env, sc_state := StateWaitSync\<rparr>)
      else (0, sc))"

definition sc_read :: "sc_env \<Rightarrow> state_change \<Rightarrow> nat \<times> state_change" where
  "sc_read env sc =
     (let item = (case unknown_item sc of None \<Rightarrow> None | Some i \<Rightarrow> if env_hasItem env (sci_suffix i) then Some (sci_suffix i) else None);
          sc = sc\<lparr>sc_state := StateFailed\<rparr> in
      case item of
        None \<Rightarrow> (0, sc)
      | Some suffix \<Rightarrow>
          if env_readable env suffix then
            ((if env_readEnqueued env suffix then 1 else 0), sc\<lparr>sc_stateTimer := env_now env, sc_state := StateWaitSync\<rparr>)
          else (0, sc))"

definition sc_tick :: "sc_env \<Rightarrow> state_change \<Rightarrow> nat \<times> state_change" where
  "sc_tick env sc =
     (if sc_state sc = StateFinished \<or> sc_state sc = StateFailed then (0, sc)
      else
        (let sc = sc_waitSync env sc in
         if sc_changeTimeoutMs sc > 0 \<and> env_now env - sc_changeTimer sc > sc_changeTimeoutMs sc then (0, sc\<lparr>sc_state := StateFailed\<rparr>)
         else if DA_ApsUnconfirmedRequests env > 5 then (0, sc)
         else if sc_state sc = StateCallFunction then sc_callFunction env sc
         else if sc_state sc = StateRead \<and> DA_ApsUnconfirmedRequestsForExtAddress env = 0 then sc_read env sc
         else (0, sc)))"

section \<open>Change functions\<close>

definition ONOFF_COMMAND_OFF :: nat where "ONOFF_COMMAND_OFF = 0x00"
definition ONOFF_COMMAND_ON :: nat where "ONOFF_COMMAND_ON = 0x01"
definition ONOFF_COMMAND_OFF_WITH_EFFECT :: nat where "ONOFF_COMMAND_OFF_WITH_EFFECT = 0x40"

text \<open>The command \<open>SC_SetOnOff\<close> sends: its byte and its payload. \<open>toUInt\<close> is the conversion of the parameter.\<close>

definition sc_onoff_cmd :: "(qvariant \<Rightarrow> nat option) \<Rightarrow> state_change \<Rightarrow> u8" where
  "sc_onoff_cmd toUInt sc =
     (case List.find (\<lambda>p. scp_name p = ''cmd'') (sc_parameters sc) of
        None \<Rightarrow> 0xff
      | Some p \<Rightarrow>
          (case toUInt (scp_value p) of
             Some v \<Rightarrow> if v = ONOFF_COMMAND_ON \<or> v = ONOFF_COMMAND_OFF \<or> v = ONOFF_COMMAND_OFF_WITH_EFFECT then of_nat v else 0xff
           | None \<Rightarrow> 0xff))"

definition sc_setOnOff :: "(qvariant \<Rightarrow> nat option) \<Rightarrow> (u8 \<Rightarrow> u8 list \<Rightarrow> u8 \<Rightarrow> bool) \<Rightarrow> state_change \<Rightarrow> int" where
  "sc_setOnOff toUInt apsdeDataRequest sc =
     (let cmd = sc_onoff_cmd toUInt sc in
      if cmd = 0xff then -1
      else (let payload = (if cmd = of_nat ONOFF_COMMAND_OFF_WITH_EFFECT then [0, 0] else []) in
            if apsdeDataRequest cmd payload (sc_dstEndpoint sc) then 0 else -2))"

text \<open>\<open>SC_WriteZclAttribute\<close>: for each item of the change, in order, the write function of its description.\<close>

record write_env =
  we_hasItem :: "string \<Rightarrow> bool"
  we_hasParameters :: "string \<Rightarrow> bool"
  we_hasFunction :: "string \<Rightarrow> bool"
  we_write :: "string \<Rightarrow> qvariant \<Rightarrow> bool"

fun write_items :: "write_env \<Rightarrow> sc_item list \<Rightarrow> int \<Rightarrow> int" where
  "write_items env [] written = (if written > 0 then 0 else -5)"
| "write_items env (i # is) written =
     (if \<not> we_hasItem env (sci_suffix i) then -1
      else if \<not> we_hasParameters env (sci_suffix i) then -2
      else if \<not> we_hasFunction env (sci_suffix i) then -3
      else if \<not> we_write env (sci_suffix i) (sci_targetValue i) then -4
      else write_items env is (written + 1))"

definition sc_writeZclAttribute :: "write_env \<Rightarrow> state_change \<Rightarrow> int" where
  "sc_writeZclAttribute env sc = write_items env (sc_items sc) 0"

section \<open>The changes of a resource\<close>

text \<open>\<open>addStateChange\<close>, \<open>cleanupStateChanges\<close> and \<open>removeStateChangesForItem\<close> of \<open>Resource\<close>.\<close>

fun rs_addStateChange :: "state_change \<Rightarrow> state_change list \<Rightarrow> state_change list" where
  "rs_addStateChange c [] = [c]"
| "rs_addStateChange c (x # xs) = (if sc_equal x c then c # xs else x # rs_addStateChange c xs)"

definition sc_done :: "state_change \<Rightarrow> bool" where
  "sc_done x \<longleftrightarrow> sc_state x = StateFailed \<or> sc_state x = StateFinished"

fun erase_first :: "('a \<Rightarrow> bool) \<Rightarrow> 'a list \<Rightarrow> 'a list" where
  "erase_first P [] = []"
| "erase_first P (x # xs) = (if P x then xs else x # erase_first P xs)"

lemma erase_first_shorter: "list_ex P xs \<Longrightarrow> length (erase_first P xs) < length xs"
  by (induction xs) auto

function rs_cleanupStateChanges :: "state_change list \<Rightarrow> state_change list" where
  "rs_cleanupStateChanges cs = (if list_ex sc_done cs then rs_cleanupStateChanges (erase_first sc_done cs) else cs)"
  by pat_completeness auto

termination rs_cleanupStateChanges
  by (relation "measure length") (auto simp: erase_first_shorter)

declare rs_cleanupStateChanges.simps [simp del]

text \<open>
  The iterators of the inner loop are not renewed when an element is erased: the loop goes on to the
  old end, one element further than the vector then reaches for each erased one. Reading there has
  no value.
\<close>

definition sc_involves :: "string \<Rightarrow> state_change \<Rightarrow> bool" where
  "sc_involves suffix c \<longleftrightarrow> list_ex (\<lambda>i. sci_suffix i = suffix) (sc_items c)"

function remove_pass :: "string \<Rightarrow> nat \<Rightarrow> nat \<Rightarrow> state_change list \<Rightarrow> bool \<Rightarrow> (bool \<times> state_change list) option" where
  "remove_pass suffix i end cs again =
     (if i \<ge> end then Some (again, cs)
      else if i \<ge> length cs then None
      else if sc_involves suffix (cs ! i) then remove_pass suffix (i + 1) end (take i cs @ drop (i + 1) cs) True
      else remove_pass suffix (i + 1) end cs again)"
  by pat_completeness auto

termination remove_pass
  by (relation "measure (\<lambda>(suffix, i, e, cs, again). e - i)") auto

declare remove_pass.simps [simp del]

partial_function (option) rs_removeStateChangesForItem :: "string \<Rightarrow> state_change list \<Rightarrow> state_change list option" where
  "rs_removeStateChangesForItem suffix cs =
     (case remove_pass suffix 0 (length cs) cs False of
        None \<Rightarrow> None
      | Some (again, cs) \<Rightarrow> if again then rs_removeStateChangesForItem suffix cs else Some cs)"

section \<open>Steps\<close>

text \<open>A change is ticked, or told that an item was set.\<close>

inductive sc_step :: "(qvariant \<Rightarrow> resource_item \<Rightarrow> bool) \<Rightarrow> descriptor list \<Rightarrow> state_change \<Rightarrow> state_change \<Rightarrow> bool"
  for same ds where
  step_tick: "sc_tick env sc = (n, sc') \<Longrightarrow> sc_step same ds sc sc'"
| step_verify: "sc_verifyItemChange same ds item sc = sc' \<Longrightarrow> sc_step same ds sc sc'"

inductive_cases sc_stepE: "sc_step same ds sc sc'"

definition all_synced :: "state_change \<Rightarrow> bool" where
  "all_synced sc \<longleftrightarrow> list_all (\<lambda>i. sci_verified i = VerifySynced) (sc_items sc)"

lemma filter_all: "length (filter P xs) = length xs \<longleftrightarrow> list_all P xs"
  by (metis filter_id_conv length_filter_less list_all_iff nat_neq_iff)

lemma verify_state:
  "sc_state (sc_verifyItemChange same ds item sc) =
     (if ri_valueSource item = SourceDevice \<and> all_synced (sc_verifyItemChange same ds item sc) then StateFinished else sc_state sc)"
  by (auto simp: sc_verifyItemChange_def Let_def all_synced_def filter_all)

lemma verify_frame:
  "sc_stateTimer (sc_verifyItemChange same ds item sc) = sc_stateTimer sc"
  "sc_changeTimer (sc_verifyItemChange same ds item sc) = sc_changeTimer sc"
  "map sci_suffix (sc_items (sc_verifyItemChange same ds item sc)) = map sci_suffix (sc_items sc)"
  "map sci_targetValue (sc_items (sc_verifyItemChange same ds item sc)) = map sci_targetValue (sc_items sc)"
  by (auto simp: sc_verifyItemChange_def Let_def verify_one_def comp_def)

lemma tick_cases:
  obtains (ended) "sc_state sc \<in> {StateFinished, StateFailed}" "sc_tick env sc = (0, sc)"
  | (timeout) "sc_state sc \<notin> {StateFinished, StateFailed}" "0 < sc_changeTimeoutMs sc" "sc_changeTimeoutMs sc < env_now env - sc_changeTimer sc"
      "sc_tick env sc = (0, (sc_waitSync env sc)\<lparr>sc_state := StateFailed\<rparr>)"
  | (go) "sc_state sc \<notin> {StateFinished, StateFailed}" "\<not> (0 < sc_changeTimeoutMs sc \<and> sc_changeTimeoutMs sc < env_now env - sc_changeTimer sc)"
      "sc_tick env sc = (let sc = sc_waitSync env sc in
         if DA_ApsUnconfirmedRequests env > 5 then (0, sc)
         else if sc_state sc = StateCallFunction then sc_callFunction env sc
         else if sc_state sc = StateRead \<and> DA_ApsUnconfirmedRequestsForExtAddress env = 0 then sc_read env sc
         else (0, sc))"
proof -
  have "sc_changeTimeoutMs (sc_waitSync env sc) = sc_changeTimeoutMs sc" "sc_changeTimer (sc_waitSync env sc) = sc_changeTimer sc"
    by (simp_all add: sc_waitSync_def)
  then show ?thesis
    using that
    by (cases "sc_state sc \<in> {StateFinished, StateFailed}";
      cases "0 < sc_changeTimeoutMs sc \<and> sc_changeTimeoutMs sc < env_now env - sc_changeTimer sc")
      (auto simp: sc_tick_def Let_def)
qed

lemma waitSync_state: "sc_state (sc_waitSync env sc) = StateFinished \<longleftrightarrow> sc_state sc = StateFinished"
  by (auto simp: sc_waitSync_def)

lemma tick_not_finished: "sc_state sc \<noteq> StateFinished \<Longrightarrow> sc_state (snd (sc_tick env sc)) \<noteq> StateFinished"
  by (cases rule: tick_cases [of sc env])
    (auto simp: Let_def sc_callFunction_def sc_read_def waitSync_state split: option.split)

lemma tick_sends: "fst (sc_tick env sc) \<le> 1 \<and> (fst (sc_tick env sc) = 1 \<longrightarrow> sc_state (snd (sc_tick env sc)) = StateWaitSync \<and>
    sc_stateTimer (snd (sc_tick env sc)) = env_now env \<and> DA_ApsUnconfirmedRequests env \<le> 5)"
  by (cases rule: tick_cases [of sc env]) (auto simp: Let_def sc_callFunction_def sc_read_def split: option.split)

lemma tick_frame:
  "map sci_suffix (sc_items (snd (sc_tick env sc))) = map sci_suffix (sc_items sc) \<and>
   map sci_targetValue (sc_items (snd (sc_tick env sc))) = map sci_targetValue (sc_items sc) \<and>
   sc_changeTimer (snd (sc_tick env sc)) = sc_changeTimer sc \<and> sc_changeTimeoutMs (snd (sc_tick env sc)) = sc_changeTimeoutMs sc"
proof -
  have w: "sc_items (sc_waitSync env sc) = sc_items sc" "sc_changeTimer (sc_waitSync env sc) = sc_changeTimer sc"
    "sc_changeTimeoutMs (sc_waitSync env sc) = sc_changeTimeoutMs sc"
    by (simp_all add: sc_waitSync_def)
  show ?thesis
    by (cases rule: tick_cases [of sc env]) (auto simp: Let_def sc_callFunction_def sc_read_def w comp_def split: option.split)
qed

section \<open>The vector of changes\<close>

lemma filter_erase_first: "filter (\<lambda>x. \<not> P x) (erase_first P xs) = filter (\<lambda>x. \<not> P x) xs"
  by (induction xs) auto

lemma cleanup_filter: "rs_cleanupStateChanges cs = filter (\<lambda>c. \<not> sc_done c) cs"
proof (induction cs rule: rs_cleanupStateChanges.induct)
  case (1 cs)
  show ?case
  proof (cases "list_ex sc_done cs")
    case True
    then show ?thesis using 1 by (subst rs_cleanupStateChanges.simps) (simp add: filter_erase_first)
  next
    case False
    then show ?thesis by (subst rs_cleanupStateChanges.simps) (auto simp: list_ex_iff filter_id_conv)
  qed
qed

lemma pass_skip:
  assumes "j \<le> e" "e = length cs" "\<forall>k < j. i \<le> k \<longrightarrow> \<not> sc_involves s (cs ! k)" "i \<le> j"
  shows "remove_pass s i e cs again = remove_pass s j e cs again"
  using assms
proof (induction "j - i" arbitrary: i)
  case (Suc n)
  then have "i < j" "\<not> sc_involves s (cs ! i)" by auto
  then have "remove_pass s i e cs again = remove_pass s (Suc i) e cs again"
    using Suc.prems by (subst remove_pass.simps) simp
  also have "\<dots> = remove_pass s j e cs again" by (rule Suc.hyps) (use Suc in auto)
  finally show ?case .
qed simp

text \<open>Once an element is gone, the pass runs off the end.\<close>

lemma pass_off_end:
  assumes "length cs < e" "i < e"
  shows "remove_pass s i e cs again = None"
  using assms
proof (induction s i e cs again rule: remove_pass.induct)
  case (1 s i e cs again)
  show ?case
  proof (cases "length cs \<le> i")
    case True
    then show ?thesis using "1.prems" by (subst remove_pass.simps) simp
  next
    case False
    then have "i + 1 < e" using "1.prems" by simp
    then show ?thesis using 1 False
      by (subst remove_pass.simps) simp
  qed
qed

lemma pass_none: "\<forall>k < length cs. \<not> sc_involves s (cs ! k) \<Longrightarrow> remove_pass s 0 (length cs) cs again = Some (again, cs)"
  using pass_skip [of "length cs" "length cs" cs 0 s again] by (simp add: remove_pass.simps [of s "length cs"])

lemma pass_first:
  assumes "j < length cs" "sc_involves s (cs ! j)" "\<forall>k < j. \<not> sc_involves s (cs ! k)"
  shows "remove_pass s 0 (length cs) cs again = (if j + 1 < length cs then None else Some (True, butlast cs))"
proof -
  let ?cs = "take j cs @ drop (j + 1) cs"
  have "remove_pass s 0 (length cs) cs again = remove_pass s j (length cs) cs again"
    by (rule pass_skip) (use assms in auto)
  also have "\<dots> = remove_pass s (j + 1) (length cs) ?cs True"
    using assms by (subst remove_pass.simps) simp
  finally have r: "remove_pass s 0 (length cs) cs again = remove_pass s (j + 1) (length cs) ?cs True" .
  show ?thesis
  proof (cases "j + 1 < length cs")
    case True
    then show ?thesis using r pass_off_end [of ?cs "length cs" "j + 1"] by simp
  next
    case False
    then have j: "j + 1 = length cs" using assms(1) by simp
    then have "length cs - Suc 0 = j" by simp
    with j have "?cs = butlast cs" by (simp add: butlast_conv_take)
    moreover note j
    ultimately show ?thesis using r by (simp add: remove_pass.simps [of s "length cs"])
  qed
qed

lemma remove_changes:
  "rs_removeStateChangesForItem s cs =
    (if list_ex (sc_involves s) (butlast cs) then None
     else if cs \<noteq> [] \<and> sc_involves s (last cs) then Some (butlast cs) else Some cs)"
proof (cases "list_ex (sc_involves s) cs")
  case False
  then show ?thesis
    by (subst rs_removeStateChangesForItem.simps, subst pass_none)
      (auto simp: list_ex_iff dest: in_set_butlastD)
next
  case True
  then obtain k where k: "k < length cs" "sc_involves s (cs ! k)" by (auto simp: list_ex_iff in_set_conv_nth)
  then obtain j where jl: "j < length cs \<and> sc_involves s (cs ! j)" "\<forall>k < j. \<not> (k < length cs \<and> sc_involves s (cs ! k))"
    using exists_least_iff [of "\<lambda>j. j < length cs \<and> sc_involves s (cs ! j)"] by blast
  then have j: "j < length cs" "sc_involves s (cs ! j)" and first: "\<forall>k < j. \<not> sc_involves s (cs ! k)" by auto
  note p = pass_first [OF j first, of False]
  show ?thesis
  proof (cases "j + 1 < length cs")
    case True
    then have "cs ! j \<in> set (butlast cs)" by (metis length_butlast less_diff_conv nth_butlast nth_mem)
    then have "list_ex (sc_involves s) (butlast cs)" using j(2) by (auto simp: list_ex_iff)
    then show ?thesis using p True by (subst rs_removeStateChangesForItem.simps) simp
  next
    case False
    then have "j = length cs - 1" using j(1) by simp
    have last: "cs \<noteq> []" using j by auto
    then have "last cs = cs ! j" using \<open>j = _\<close> by (simp add: last_conv_nth)
    note last = last this [symmetric]
    have none: "\<forall>k < length (butlast cs). \<not> sc_involves s (butlast cs ! k)"
      using first \<open>j = _\<close> by (auto simp: nth_butlast)
    then have "\<not> list_ex (sc_involves s) (butlast cs)" by (auto simp: list_ex_iff in_set_conv_nth)
    moreover have "rs_removeStateChangesForItem s (butlast cs) = Some (butlast cs)"
      using pass_none [OF none, of False] by (subst rs_removeStateChangesForItem.simps) simp
    ultimately show ?thesis using p False last j(2) by (subst rs_removeStateChangesForItem.simps) simp
  qed
qed

section \<open>Properties\<close>



definition idle_env :: "int \<Rightarrow> sc_env" where
  "idle_env now = \<lparr>env_now = now, DA_ApsUnconfirmedRequests = 0, DA_ApsUnconfirmedRequestsForExtAddress = 0, env_change = \<lambda>_. 0,
     env_hasItem = \<lambda>_. True, env_readable = \<lambda>_. True, env_readEnqueued = \<lambda>_. True\<rparr>"

definition on_change :: "sc_state \<Rightarrow> sync_result \<Rightarrow> state_change" where
  "on_change st v = \<lparr>sc_state = st, sc_changeFunction = SC_SetOnOff, sc_dstEndpoint = 1, sc_stateTimeoutMs = 5000, sc_changeTimeoutMs = 180000,
     sc_stateTimer = 0, sc_changeTimer = 0, sc_items = [\<lparr>sci_suffix = RStateOn, sci_targetValue = QBool True, sci_verified = v\<rparr>],
     sc_parameters = []\<rparr>"

definition on_rids :: "descriptor list" where
  "on_rids = [rid DataTypeUnknown QVInvalid RInvalidSuffix, rid DataTypeBool QVBool RStateOn]"

definition on_item :: "bool \<Rightarrow> resource_item" where
  "on_item b = (ri_new on_rids (on_rids ! 1))\<lparr>ri_num := (if b then 1 else 0), ri_valueSource := SourceDevice\<rparr>"

definition same_bool :: "qvariant \<Rightarrow> resource_item \<Rightarrow> bool" where
  "same_bool v i \<longleftrightarrow> v = QBool (ri_toBool i)"

lemmas on_defs = on_change_def on_rids_def on_item_def same_bool_def idle_env_def ri_new_def ri_descriptor_def rid_def rid_range_def
  suffixes ri_toBool_def

lemma on_synced: "sc_verifyItemChange same_bool on_rids (on_item True) (on_change StateWaitSync VerifyUnknown) = on_change StateFinished VerifySynced"
  by (simp add: sc_verifyItemChange_def verify_one_def on_defs)




text \<open>a device that answers late is not asked again: when its report with another value arrives while the change waits to read, the next
  tick finds nothing to read and fails the change, long before its timeout and without calling the change function.\<close>

theorem late_report_fails_change:
  "let waiting = snd (sc_tick ((idle_env 5001)\<lparr>DA_ApsUnconfirmedRequestsForExtAddress := 1\<rparr>) (on_change StateWaitSync VerifyUnknown));
       told = sc_verifyItemChange same_bool on_rids (on_item False) waiting in
   sc_state waiting = StateRead \<and> sc_state told = StateRead \<and>
   sc_tick (idle_env 5100) told = (0, on_change StateFailed VerifyNotSynced)"
  by (simp add: sc_tick_def sc_waitSync_def unknown_item_def sc_verifyItemChange_def verify_one_def sc_read_def on_defs Let_def)

text \<open>\<open>cleanupStateChanges\<close> ends and removes exactly the ended changes; \<open>removeStateChangesForItem\<close> is only defined when no
  change but the last involves the item: otherwise it goes on with iterators into a vector that has become shorter and reads
  behind its end.\<close>

theorem resource_changes_removed:
  "rs_cleanupStateChanges cs = filter (\<lambda>c. \<not> sc_done c) cs \<and>
   rs_removeStateChangesForItem suffix cs =
     (if list_ex (sc_involves suffix) (butlast cs) then None
      else if cs \<noteq> [] \<and> sc_involves suffix (last cs) then Some (butlast cs) else Some cs)"
  using cleanup_filter remove_changes by blast

end
