(* ===== verification/Res_Resource.thy ===== *)
theory Res_Resource
  imports State_Change
begin

text \<open>
  \<open>Resource\<close> (\<^verbatim>\<open>resource.h\<close>, \<^verbatim>\<open>resource.cpp\<close>): a list of items with at most one item for a name, and its
  state changes. A \<^verbatim>\<open>ResourceItem *\<close> into a resource is the name of the item.
\<close>

record resource =
  rs_prefix :: string
  rs_items :: "resource_item list"
  rs_stateChanges :: "state_change list"

definition rs_new :: "string \<Rightarrow> resource option" where
  "rs_new prefix = do {
     c_assert (prefix = RSensors \<or> prefix = RLights \<or> prefix = RDevices \<or> prefix = RGroups \<or> prefix = RConfig \<or> prefix = RAlarmSystems);
     Some \<lparr>rs_prefix = prefix, rs_items = [], rs_stateChanges = []\<rparr> }"

abbreviation ri_suffix :: "descriptor list \<Rightarrow> resource_item \<Rightarrow> string" where
  "ri_suffix ds i \<equiv> rd_suffix (ri_descriptor ds i)"

definition rs_item :: "descriptor list \<Rightarrow> string \<Rightarrow> resource \<Rightarrow> resource_item option" where
  "rs_item ds suffix r = List.find (\<lambda>i. ri_suffix ds i = suffix) (rs_items r)"

text \<open>Writing through the pointer \<open>rs_item\<close> gives.\<close>

fun update_first :: "('a \<Rightarrow> bool) \<Rightarrow> ('a \<Rightarrow> 'a) \<Rightarrow> 'a list \<Rightarrow> 'a list" where
  "update_first P f [] = []"
| "update_first P f (x # xs) = (if P x then f x # xs else x # update_first P f xs)"

definition rs_update :: "descriptor list \<Rightarrow> string \<Rightarrow> (resource_item \<Rightarrow> resource_item) \<Rightarrow> resource \<Rightarrow> resource" where
  "rs_update ds suffix f r = r\<lparr>rs_items := update_first (\<lambda>i. ri_suffix ds i = suffix) f (rs_items r)\<rparr>"

text \<open>\<open>addItem\<close>; no item of the name and type in the table is the null pointer (left component false).\<close>

definition rs_addItem :: "descriptor list \<Rightarrow> ApiDataType \<Rightarrow> string \<Rightarrow> resource \<Rightarrow> bool \<times> resource" where
  "rs_addItem ds type suffix r =
     (case rs_item ds suffix r of
        Some _ \<Rightarrow> (True, r)
      | None \<Rightarrow>
          (case List.find (\<lambda>d. rd_suffix d = suffix \<and> rd_type d = type) ds of
             Some d \<Rightarrow> (True, r\<lparr>rs_items := rs_items r @ [ri_new ds d]\<rparr>)
           | None \<Rightarrow> (False, r)))"

text \<open>\<open>removeItem\<close>: the last item takes the place of the removed one.\<close>

fun swap_remove :: "('a \<Rightarrow> bool) \<Rightarrow> 'a list \<Rightarrow> 'a list" where
  "swap_remove P [] = []"
| "swap_remove P (x # xs) = (if P x then (if xs = [] then [] else last xs # butlast xs) else x # swap_remove P xs)"

definition rs_removeItem :: "descriptor list \<Rightarrow> string \<Rightarrow> resource \<Rightarrow> resource" where
  "rs_removeItem ds suffix r = r\<lparr>rs_items := swap_remove (\<lambda>i. ri_suffix ds i = suffix) (rs_items r)\<rparr>"

definition rs_toBool :: "descriptor list \<Rightarrow> string \<Rightarrow> resource \<Rightarrow> bool" where
  "rs_toBool ds suffix r = (case rs_item ds suffix r of Some i \<Rightarrow> ri_toBool i | None \<Rightarrow> False)"

definition rs_toNumber :: "descriptor list \<Rightarrow> string \<Rightarrow> resource \<Rightarrow> s64" where
  "rs_toNumber ds suffix r = (case rs_item ds suffix r of Some i \<Rightarrow> ri_toNumber i | None \<Rightarrow> 0)"

definition rs_toString :: "(time_format \<Rightarrow> int \<Rightarrow> string) \<Rightarrow> descriptor list \<Rightarrow> string \<Rightarrow> resource \<Rightarrow> string" where
  "rs_toString fmt ds suffix r = (case rs_item ds suffix r of Some i \<Rightarrow> ri_toString fmt ds i | None \<Rightarrow> [])"

text \<open>
  \<open>setValue\<close> for numbers and texts: the result, the resource, and whether the virtual \<open>didSetValue\<close>
  is called (it is, exactly when the result is true).
\<close>

definition rs_setNumber :: "descriptor list \<Rightarrow> int \<Rightarrow> string \<Rightarrow> s64 \<Rightarrow> bool \<Rightarrow> resource \<Rightarrow> bool \<times> resource" where
  "rs_setNumber ds now suffix val forceUpdate r =
     (case rs_item ds suffix r of
        None \<Rightarrow> (False, r)
      | Some i \<Rightarrow>
          if forceUpdate \<or> ri_toNumber i \<noteq> val then
            (case ri_setNumber ds now val SourceUnknown i of
               (ok, i') \<Rightarrow> (ok, rs_update ds suffix (\<lambda>_. i') r))
          else (False, r))"

definition rs_setString ::
  "'at atom_ops \<Rightarrow> qt_ops \<Rightarrow> (time_format \<Rightarrow> int \<Rightarrow> string) \<Rightarrow> descriptor list \<Rightarrow> int \<Rightarrow> string \<Rightarrow> string \<Rightarrow> bool \<Rightarrow> 'at \<Rightarrow> resource \<Rightarrow>
     bool \<times> 'at \<times> resource" where
  "rs_setString ops qt fmt ds now suffix val forceUpdate at r =
     (case rs_item ds suffix r of
        None \<Rightarrow> (False, at, r)
      | Some i \<Rightarrow>
          if forceUpdate \<or> ri_toString fmt ds i \<noteq> val then
            (case ri_setString ops qt ds now val SourceUnknown at i of
               (ok, at, i') \<Rightarrow> (ok, at, rs_update ds suffix (\<lambda>_. i') r))
          else (False, at, r))"

text \<open>The libraries the code of resources uses: the atom table, conversions, the time format and the table of descriptors.\<close>

record 'at res_lib =
  al_atoms :: "'at atom_ops"
  al_qt :: qt_ops
  al_fmt :: "time_format \<Rightarrow> int \<Rightarrow> string"
  al_rids :: "descriptor list"

definition rs_itemCount :: "resource \<Rightarrow> nat" where
  "rs_itemCount r = length (rs_items r)"

definition rs_itemForIndex :: "nat \<Rightarrow> resource \<Rightarrow> resource_item option" where
  "rs_itemForIndex idx r = (if idx < length (rs_items r) then Some (rs_items r ! idx) else None)"

section \<open>A resource is a map from names to items\<close>

definition names_of :: "descriptor list \<Rightarrow> resource \<Rightarrow> string list" where
  "names_of ds r = map (ri_suffix ds) (rs_items r)"

definition rs_ok :: "descriptor list \<Rightarrow> resource \<Rightarrow> bool" where
  "rs_ok ds r \<longleftrightarrow> distinct (names_of ds r)"

lemma item_suffix: "rs_item ds s r = Some i \<Longrightarrow> ri_suffix ds i = s \<and> i \<in> set (rs_items r)"
  by (auto simp: rs_item_def find_Some_iff)

lemma item_None: "rs_item ds s r = None \<longleftrightarrow> s \<notin> set (names_of ds r)"
  by (auto simp: rs_item_def find_None_iff names_of_def)

lemma find_update:
  assumes "\<And>x. k x = s \<Longrightarrow> k (f x) = s"
  shows "List.find (\<lambda>x. k x = t) (update_first (\<lambda>x. k x = s) f xs) =
     (if t = s then map_option f (List.find (\<lambda>x. k x = s) xs) else List.find (\<lambda>x. k x = t) xs)"
  using assms by (induction xs) auto

text \<open>Writing one item leaves the others alone.\<close>

lemma rs_item_update:
  assumes "\<And>i. ri_suffix ds i = s \<Longrightarrow> ri_suffix ds (f i) = s"
  shows "rs_item ds t (rs_update ds s f r) = (if t = s then map_option f (rs_item ds s r) else rs_item ds t r)"
  by (simp add: rs_item_def rs_update_def find_update [where k = "ri_suffix ds", OF assms])

lemma rs_item_update_const:
  assumes "ri_suffix ds i' = s"
  shows "rs_item ds t (rs_update ds s (\<lambda>_. i') r) =
     (if t = s then map_option (\<lambda>_. i') (rs_item ds s r) else rs_item ds t r)"
  by (rule rs_item_update) (rule assms)

lemma names_update:
  assumes "\<And>i. ri_suffix ds i = s \<Longrightarrow> ri_suffix ds (f i) = s"
  shows "names_of ds (rs_update ds s f r) = names_of ds r"
proof -
  have "map (ri_suffix ds) (update_first (\<lambda>i. ri_suffix ds i = s) f xs) = map (ri_suffix ds) xs" for xs
    using assms by (induction xs) auto
  then show ?thesis by (simp add: names_of_def rs_update_def)
qed

lemma set_swap_remove: "distinct (map k xs) \<Longrightarrow> set (swap_remove (\<lambda>x. k x = s) xs) = {x \<in> set xs. k x \<noteq> s} \<and> distinct (map k (swap_remove (\<lambda>x. k x = s) xs))"
proof (induction xs)
  case (Cons x xs)
  have rot: "xs \<noteq> [] \<Longrightarrow> set (last xs # butlast xs) = set xs \<and> (distinct (map k (last xs # butlast xs)) \<longleftrightarrow> distinct (map k xs))"
  proof -
    assume "xs \<noteq> []"
    then have "xs = butlast xs @ [last xs]" by simp
    moreover have "distinct (map k (b @ [a])) \<longleftrightarrow> distinct (map k (a # b))" for a b by auto
    ultimately show ?thesis
      by (metis append_Cons append_Nil list.simps(15) rotate1.simps(2) set_rotate1)
  qed
  show ?case
  proof (cases "k x = s")
    case True
    have s: "{y \<in> set (x # xs). k y \<noteq> s} = set xs" using Cons.prems True by (auto simp: image_iff)
    show ?thesis
    proof (cases "xs = []")
      case False
      then have "swap_remove (\<lambda>x. k x = s) (x # xs) = last xs # butlast xs" using True by simp
      then show ?thesis using s rot [OF False] Cons.prems by simp
    qed (use True in simp)
  next
    case False
    then show ?thesis using Cons by auto
  qed
qed simp

lemma find_set_cong:
  assumes "distinct (map k xs)" "distinct (map k ys)" "\<forall>x. k x = t \<longrightarrow> (x \<in> set xs \<longleftrightarrow> x \<in> set ys)"
  shows "List.find (\<lambda>x. k x = t) xs = List.find (\<lambda>x. k x = t) ys"
proof (cases "\<exists>x \<in> set xs. k x = t")
  case False
  then have "List.find (\<lambda>x. k x = t) xs = None" by (auto simp: find_None_iff)
  moreover have "List.find (\<lambda>x. k x = t) ys = None" using False assms(3) by (auto simp: find_None_iff)
  ultimately show ?thesis by simp
next
  case True
  then obtain x where x: "x \<in> set xs" "k x = t" by auto
  have one: "List.find (\<lambda>x. k x = t) zs = Some x" if z: "x \<in> set zs" and d: "distinct (map k zs)" for zs
    using z d x(2) by (induction zs) (auto simp: image_iff)
  have "x \<in> set ys" using x assms(3) by simp
  then show ?thesis using one [OF x(1) assms(1)] one [OF _ assms(2)] by simp
qed

lemma item_remove:
  assumes "rs_ok ds r"
  shows "rs_ok ds (rs_removeItem ds s r)"
    "rs_item ds t (rs_removeItem ds s r) = (if t = s then None else rs_item ds t r)"
proof -
  have d: "distinct (map (ri_suffix ds) (rs_items r))" using assms by (simp add: rs_ok_def names_of_def)
  note r = set_swap_remove [OF d, of s]
  show "rs_ok ds (rs_removeItem ds s r)" using r by (simp add: rs_ok_def names_of_def rs_removeItem_def)
  show "rs_item ds t (rs_removeItem ds s r) = (if t = s then None else rs_item ds t r)"
  proof (cases "t = s")
    case True
    then show ?thesis using r by (auto simp: rs_item_def rs_removeItem_def find_None_iff)
  next
    case False
    then show ?thesis using r d by (simp add: rs_item_def rs_removeItem_def) (rule find_set_cong, auto)
  qed
qed

text \<open>A descriptor of a table with distinct names is found by a new item.\<close>

lemma rid_index_nth:
  assumes "distinct (map rd_suffix ds)" "j < length ds" "k + length ds \<le> 65536"
  shows "rid_index ds (rd_suffix (ds ! j)) k = k + j"
  using assms
proof (induction ds arbitrary: j k)
  case (Cons d ds)
  then show ?case by (cases j) (auto simp: distinct_map)
qed simp

lemma descriptor_new:
  assumes "distinct (map rd_suffix ds)" "length ds \<le> 65536" "d \<in> set ds"
  shows "ri_descriptor ds (ri_new ds d) = d"
proof -
  obtain j where j: "j < length ds" "d = ds ! j" using assms(3) by (metis in_set_conv_nth)
  then have "rid_index ds (rd_suffix d) 0 = j" using rid_index_nth [OF assms(1) j(1), of 0] assms(2) by simp
  then show ?thesis using j by (simp add: ri_descriptor_def ri_new_def)
qed

lemma add_cases:
  assumes "distinct (map rd_suffix ds)" "length ds \<le> 65536" "rs_ok ds r"
  obtains (present) "rs_item ds s r \<noteq> None" "rs_addItem ds t s r = (True, r)"
    | (added) d where "rs_item ds s r = None" "d \<in> set ds" "rd_suffix d = s" "rd_type d = t"
        "rs_addItem ds t s r = (True, r\<lparr>rs_items := rs_items r @ [ri_new ds d]\<rparr>)"
        "rs_ok ds (r\<lparr>rs_items := rs_items r @ [ri_new ds d]\<rparr>)"
        "\<And>u. rs_item ds u (r\<lparr>rs_items := rs_items r @ [ri_new ds d]\<rparr>) = (if u = s then Some (ri_new ds d) else rs_item ds u r)"
    | (unknown) "rs_item ds s r = None" "\<forall>d \<in> set ds. \<not> (rd_suffix d = s \<and> rd_type d = t)" "rs_addItem ds t s r = (False, r)"
proof (cases "rs_item ds s r")
  case (Some i)
  then show ?thesis using that(1) by (simp add: rs_addItem_def)
next
  case None
  show ?thesis
  proof (cases "List.find (\<lambda>d. rd_suffix d = s \<and> rd_type d = t) ds")
    case no: None
    have "rs_addItem ds t s r = (False, r)" using None by (simp add: rs_addItem_def no)
    moreover have "\<forall>d \<in> set ds. \<not> (rd_suffix d = s \<and> rd_type d = t)" using no by (simp only: find_None_iff) blast
    ultimately show ?thesis using that(3) None by blast
  next
    case (Some d)
    then have d: "d \<in> set ds" "rd_suffix d = s" "rd_type d = t" by (auto simp: find_Some_iff)
    have s: "ri_suffix ds (ri_new ds d) = s" using descriptor_new [OF assms(1,2) d(1)] d(2) by simp
    have "s \<notin> set (names_of ds r)" using None by (simp add: item_None)
    then have ok: "rs_ok ds (r\<lparr>rs_items := rs_items r @ [ri_new ds d]\<rparr>)" using assms(3) s by (simp add: rs_ok_def names_of_def)
    have find: "List.find P (xs @ [x]) = (case List.find P xs of None \<Rightarrow> if P x then Some x else None | Some y \<Rightarrow> Some y)" for P and xs :: "resource_item list" and x
      by (induction xs) auto
    have "rs_item ds u (r\<lparr>rs_items := rs_items r @ [ri_new ds d]\<rparr>) = (if u = s then Some (ri_new ds d) else rs_item ds u r)" for u
      using None s by (auto simp: rs_item_def find split: option.split)
    then show ?thesis using that(2) None Some d ok by (simp add: rs_addItem_def)
  qed
qed

lemma setNumber_suffix: "ri_setNumber ds now val src i = (ok, i') \<Longrightarrow> ri_descriptor ds i' = ri_descriptor ds i"
  by (rule descriptor_cong) (auto simp: ri_setNumber_def Let_def split: if_split_asm)

section \<open>Properties\<close>

text \<open>C17: with the table of the program a resource is a map from names to items: adding, removing and setting one name changes that name only,
  an item is added at most once and only with a descriptor of its name and type, and there are never two items of a name.\<close>

theorem resource_is_map:
  assumes "table_ok ds" "length ds \<le> 65536" "rs_ok ds r"
  shows "rs_ok ds (snd (rs_addItem ds type s r)) \<and> rs_ok ds (rs_removeItem ds s r) \<and> rs_ok ds (snd (rs_setNumber ds now s val force r)) \<and>
    (\<forall>t. rs_item ds t (rs_removeItem ds s r) = (if t = s then None else rs_item ds t r)) \<and>
    (\<forall>t. t \<noteq> s \<longrightarrow> rs_item ds t (snd (rs_addItem ds type s r)) = rs_item ds t r \<and>
                 rs_item ds t (snd (rs_setNumber ds now s val force r)) = rs_item ds t r) \<and>
    (fst (rs_addItem ds type s r) \<longleftrightarrow> rs_item ds s (snd (rs_addItem ds type s r)) \<noteq> None)"
proof -
  have ds: "distinct (map rd_suffix ds)" using assms(1) by (simp add: table_ok_def)
  note rem = item_remove [OF assms(3), where s = s]
  have add: "rs_ok ds (snd (rs_addItem ds type s r)) \<and>
      (\<forall>t. t \<noteq> s \<longrightarrow> rs_item ds t (snd (rs_addItem ds type s r)) = rs_item ds t r) \<and>
      (fst (rs_addItem ds type s r) \<longleftrightarrow> rs_item ds s (snd (rs_addItem ds type s r)) \<noteq> None)"
    by (rule add_cases [OF ds assms(2,3), of s type]) (use assms(3) in simp_all)
  have num: "rs_ok ds (snd (rs_setNumber ds now s val force r)) \<and>
      (\<forall>t. t \<noteq> s \<longrightarrow> rs_item ds t (snd (rs_setNumber ds now s val force r)) = rs_item ds t r)"
  proof (cases "rs_setNumber ds now s val force r = (False, r)")
    case True
    then show ?thesis using assms(3) by simp
  next
    case False
    then obtain i where it: "rs_item ds s r = Some i" "force \<or> ri_toNumber i \<noteq> val"
      by (cases "rs_item ds s r") (auto simp: rs_setNumber_def split: if_split_asm)
    obtain ok i' where i: "ri_setNumber ds now val SourceUnknown i = (ok, i')" by fastforce
    have eq: "rs_setNumber ds now s val force r = (ok, rs_update ds s (\<lambda>_. i') r)"
      unfolding rs_setNumber_def it(1) option.case if_P [OF it(2)] i prod.case ..
    have n: "ri_suffix ds i' = s" using setNumber_suffix [OF i] item_suffix [OF it(1)] by simp
    have "rs_ok ds (rs_update ds s (\<lambda>_. i') r)" using assms(3) unfolding rs_ok_def by (subst names_update) (rule n)
    moreover have "rs_item ds t (rs_update ds s (\<lambda>_. i') r) = rs_item ds t r" if "t \<noteq> s" for t
      using that by (simp only: rs_item_update_const [OF n] if_False)
    ultimately show ?thesis unfolding eq snd_conv by blast
  qed
  have add': "rs_ok ds (snd (rs_addItem ds type s r))"
    "\<And>t. t \<noteq> s \<Longrightarrow> rs_item ds t (snd (rs_addItem ds type s r)) = rs_item ds t r"
    "fst (rs_addItem ds type s r) \<longleftrightarrow> rs_item ds s (snd (rs_addItem ds type s r)) \<noteq> None"
    using add by blast+
  have num': "rs_ok ds (snd (rs_setNumber ds now s val force r))"
    "\<And>t. t \<noteq> s \<Longrightarrow> rs_item ds t (snd (rs_setNumber ds now s val force r)) = rs_item ds t r"
    using num by blast+
  show ?thesis by (rule conjI allI impI rem(1) rem(2) add'(1) num'(1) add'(3) | erule add'(2) num'(2))+
qed

text \<open>The table of two names, an empty resource.\<close>

theorem resource_is_map_witness:
  "rs_item two_rids RStateBattery (snd (rs_addItem two_rids DataTypeUInt8 RStateBattery \<lparr>rs_prefix = RSensors, rs_items = [], rs_stateChanges = []\<rparr>)) \<noteq> None"
proof -
  have t: "table_ok two_rids" "length two_rids \<le> 65536"
    by (simp_all add: table_ok_def two_rids_def rid_def rid_range_def rid_isValid_def suffixes)
  have "rs_ok two_rids \<lparr>rs_prefix = RSensors, rs_items = [], rs_stateChanges = []\<rparr>" by (simp add: rs_ok_def names_of_def)
  note w = resource_is_map [OF t this, of DataTypeUInt8 RStateBattery]
  have "fst (rs_addItem two_rids DataTypeUInt8 RStateBattery \<lparr>rs_prefix = RSensors, rs_items = [], rs_stateChanges = []\<rparr>)"
    by (simp add: rs_addItem_def rs_item_def two_rids_def rid_def rid_range_def suffixes)
  then show ?thesis using w by simp
qed

end
