(* ===== verification/Utils_Text.thy ===== *)
theory Utils_Text
  imports Deconz_Prelude "HOL-Library.Sublist"
begin

text \<open>
  Texts and unique ids (\<^verbatim>\<open>utils/utils.cpp\<close>): the unique id of a device is made from its address,
  endpoint and cluster and taken apart again; substrings; copying and parsing of C strings. The
  functions of the C library they use (\<^verbatim>\<open>snprintf\<close> for hexadecimal numbers, \<^verbatim>\<open>strtoull\<close>) are modelled as
  the C standard describes them.
\<close>

section \<open>The C library\<close>

definition hex_digit :: "nat \<Rightarrow> char" where
  "hex_digit n = ''0123456789abcdef'' ! n"

text \<open>The conversions \<^verbatim>\<open>%02x\<close> and \<^verbatim>\<open>%04x\<close>.\<close>

definition fmt_02x :: "u8 \<Rightarrow> string" where
  "fmt_02x b = [hex_digit (unat b div 16), hex_digit (unat b mod 16)]"

definition fmt_04x :: "u16 \<Rightarrow> string" where
  "fmt_04x w = [hex_digit (unat w div 4096), hex_digit (unat w div 256 mod 16), hex_digit (unat w div 16 mod 16), hex_digit (unat w mod 16)]"

definition digit_val :: "char \<Rightarrow> nat option" where
  "digit_val c =
     (let n = of_char c in
      if 48 \<le> n \<and> n \<le> 57 then Some (n - 48)
      else if 97 \<le> n \<and> n \<le> 122 then Some (n - 87)
      else if 65 \<le> n \<and> n \<le> 90 then Some (n - 55)
      else None)"

definition is_digit :: "nat \<Rightarrow> char \<Rightarrow> bool" where
  "is_digit base c \<longleftrightarrow> (case digit_val c of Some d \<Rightarrow> d < base | None \<Rightarrow> False)"

fun scan_num :: "nat \<Rightarrow> string \<Rightarrow> nat \<Rightarrow> nat" where
  "scan_num base [] acc = acc"
| "scan_num base (c # cs) acc = (if is_digit base c then scan_num base cs (acc * base + the (digit_val c)) else acc)"

definition c_isspace :: "char \<Rightarrow> bool" where
  "c_isspace c \<longleftrightarrow> c = CHR '' '' \<or> (9 \<le> (of_char c :: nat) \<and> (of_char c :: nat) \<le> 13)"

text \<open>
  \<^verbatim>\<open>strtoull\<close>: white space, a sign, for base 16 an optional \<^verbatim>\<open>0x\<close>, digits; the value, and whether
  \<^verbatim>\<open>errno\<close> is set because it does not fit.
\<close>

definition skip_sign :: "string \<Rightarrow> bool \<times> string" where
  "skip_sign s = (case s of c # cs \<Rightarrow> if c = CHR ''-'' then (True, cs) else if c = CHR ''+'' then (False, cs) else (False, s) | [] \<Rightarrow> (False, s))"

definition skip_0x :: "nat \<Rightarrow> string \<Rightarrow> string" where
  "skip_0x base s =
     (case s of
        z # x # d # cs \<Rightarrow> if base = 16 \<and> z = CHR ''0'' \<and> (x = CHR ''x'' \<or> x = CHR ''X'') \<and> is_digit 16 d then d # cs else s
      | _ \<Rightarrow> s)"

definition c_strtoull :: "nat \<Rightarrow> string \<Rightarrow> u64 \<times> bool" where
  "c_strtoull base s =
     (let (neg, s) = skip_sign (dropWhile c_isspace s);
          n = scan_num base (skip_0x base s) 0 in
      if n < 2 ^ 64 then ((if neg then - of_nat n else of_nat n), False) else (- 1, True))"

section \<open>C strings\<close>

text \<open>A \<^verbatim>\<open>const char *\<close> that may be null is \<open>None\<close> or the text up to its end.\<close>

definition U_StringLength :: "string option \<Rightarrow> u32" where
  "U_StringLength str = (case str of Some s \<Rightarrow> if s \<noteq> [] then of_nat (length s) else 0 | None \<Rightarrow> 0)"

definition U_ParseUint64 :: "string option \<Rightarrow> int \<Rightarrow> nat \<Rightarrow> u64" where
  "U_ParseUint64 str len base =
     (case str of
        None \<Rightarrow> 0
      | Some s \<Rightarrow>
          if \<not> (len = -1 \<or> len > 0) then 0
          else if \<not> (base = 2 \<or> base = 10 \<or> base = 16) then 0
          else
            (let len = (if len = -1 then sint (U_StringLength str) else len) in
             if len > 0 then (case c_strtoull base s of (v, erange) \<Rightarrow> if erange then 0 else v) else 0))"

text \<open>
  \<open>copyString\<close>: the destination is a block of \<open>dstSize\<close> bytes, \<open>None\<close> is null; the source is a C string or null
  and a length, -1 for all of it. The result is the new text of the destination; a length that leads out of
  either block has no value.
\<close>

definition copyString :: "nat \<Rightarrow> string option \<Rightarrow> int \<Rightarrow> (bool \<times> string option) option" where
  "copyString dstSize src srcSize =
     (if dstSize = 0 then Some (False, None)
      else
        (case src of
           None \<Rightarrow> Some (False, Some [])
         | Some s \<Rightarrow>
             (let n = (if srcSize = -1 then int (length s) else srcSize) in
              if n + 1 > int dstSize then Some (False, Some [])
              else if n < 0 \<or> n > int (length s) + 1 then None
              else Some (True, Some (take (nat n) s)))))"

section \<open>Substrings\<close>

fun match_len :: "string \<Rightarrow> string \<Rightarrow> nat" where
  "match_len (h # hs) (n # ns) = (if h \<noteq> n then 0 else match_len hs ns + 1)"
| "match_len _ _ = 0"

function index_from :: "string \<Rightarrow> string \<Rightarrow> nat \<Rightarrow> int" where
  "index_from haystack needle i =
     (if i < length haystack then
        (if length needle > length haystack - i then -1
         else if match_len (drop i haystack) needle = length needle then int i
         else index_from haystack needle (i + 1))
      else -1)"
  by pat_completeness auto

termination index_from
  by (relation "measure (\<lambda>(h, n, i). length h - i)") auto

declare index_from.simps [simp del]

definition indexOf :: "string \<Rightarrow> string \<Rightarrow> int" where
  "indexOf haystack needle = (if length needle = 0 \<or> length haystack = 0 then -1 else index_from haystack needle 0)"

definition contains :: "string \<Rightarrow> string \<Rightarrow> bool" where
  "contains haystack needle \<longleftrightarrow> indexOf haystack needle \<ge> 0"

definition startsWith :: "string \<Rightarrow> string \<Rightarrow> bool" where
  "startsWith str needle \<longleftrightarrow> indexOf str needle = 0"

section \<open>Unique ids\<close>

text \<open>\<open>mac_byte ext k\<close> is \<^verbatim>\<open>a.bytes[k]\<close> of the union.\<close>

definition mac_byte :: "u64 \<Rightarrow> nat \<Rightarrow> u8" where
  "mac_byte ext k = ucast (drop_bit (8 * k) ext)"

definition fmt_mac :: "u64 \<Rightarrow> string" where
  "fmt_mac ext =
     fmt_02x (mac_byte ext 7) @ '':'' @ fmt_02x (mac_byte ext 6) @ '':'' @ fmt_02x (mac_byte ext 5) @ '':'' @ fmt_02x (mac_byte ext 4) @ '':'' @
     fmt_02x (mac_byte ext 3) @ '':'' @ fmt_02x (mac_byte ext 2) @ '':'' @ fmt_02x (mac_byte ext 1) @ '':'' @ fmt_02x (mac_byte ext 0)"

definition generateUniqueId :: "u64 \<Rightarrow> u8 \<Rightarrow> u16 \<Rightarrow> string option" where
  "generateUniqueId extAddress endpoint clusterId =
     (let buf =
        (if clusterId \<noteq> 0 \<and> endpoint \<noteq> 0xf2 then fmt_mac extAddress @ ''-'' @ fmt_02x endpoint @ ''-'' @ fmt_04x clusterId
         else if endpoint \<noteq> 0 then fmt_mac extAddress @ ''-'' @ fmt_02x endpoint
         else fmt_mac extAddress) in
      do { c_assert (0 < length buf \<and> length buf < 64); Some buf })"

definition isHexChar :: "char \<Rightarrow> bool" where
  "isHexChar ch \<longleftrightarrow> (let n = (of_char ch :: nat) in (48 \<le> n \<and> n \<le> 57) \<or> (97 \<le> n \<and> n \<le> 102) \<or> (65 \<le> n \<and> n \<le> 70))"

fun ext_scan :: "string \<Rightarrow> string \<Rightarrow> string option" where
  "ext_scan [] buf = Some buf"
| "ext_scan (ch # cs) buf =
     (if ch \<noteq> CHR '':'' \<and> \<not> isHexChar ch then None
      else
        (let buf = (if ch \<noteq> CHR '':'' then buf @ [ch] else buf) in
         if length buf = 16 then Some buf else ext_scan cs buf))"

definition extAddressFromUniqueId :: "string \<Rightarrow> u64" where
  "extAddressFromUniqueId uniqueId =
     (if length uniqueId < 23 then 0
      else
        (case ext_scan uniqueId [] of
           None \<Rightarrow> 0
         | Some buf \<Rightarrow> if length buf = 16 then fst (c_strtoull 16 buf) else 0))"

definition endpointFromUniqueId :: "string \<Rightarrow> u32" where
  "endpointFromUniqueId uniqueId =
     (if length uniqueId < 26 then 0
      else if uniqueId ! 23 \<noteq> CHR ''-'' then 0
      else if isHexChar (uniqueId ! 24) \<and> isHexChar (uniqueId ! 25)
      then ucast (fst (c_strtoull 16 [uniqueId ! 24, uniqueId ! 25]))
      else 0)"

section \<open>Lemmas\<close>

lemma hex_digit_props:
  assumes "n < 16"
  shows "isHexChar (hex_digit n)" "hex_digit n \<noteq> CHR '':''" "digit_val (hex_digit n) = Some n" "\<not> c_isspace (hex_digit n)"
    "hex_digit n \<noteq> CHR ''-''" "hex_digit n \<noteq> CHR ''+''" "hex_digit n \<noteq> CHR ''x''" "hex_digit n \<noteq> CHR ''X''"
proof -
  have "\<forall>n \<in> set [0..<16]. isHexChar (hex_digit n) \<and> hex_digit n \<noteq> CHR '':'' \<and> digit_val (hex_digit n) = Some n \<and> \<not> c_isspace (hex_digit n) \<and>
    hex_digit n \<noteq> CHR ''-'' \<and> hex_digit n \<noteq> CHR ''+'' \<and> hex_digit n \<noteq> CHR ''x'' \<and> hex_digit n \<noteq> CHR ''X''"
    by code_simp
  then show "isHexChar (hex_digit n)" "hex_digit n \<noteq> CHR '':''" "digit_val (hex_digit n) = Some n" "\<not> c_isspace (hex_digit n)"
    "hex_digit n \<noteq> CHR ''-''" "hex_digit n \<noteq> CHR ''+''" "hex_digit n \<noteq> CHR ''x''" "hex_digit n \<noteq> CHR ''X''" using assms by auto
qed

lemma is_digit_hex: "n < 16 \<Longrightarrow> is_digit 16 (hex_digit n)"
  by (simp add: is_digit_def hex_digit_props)

definition hexes :: "nat list \<Rightarrow> string" where
  "hexes = map hex_digit"

lemma scan_hexes: "list_all (\<lambda>n. n < 16) ns \<Longrightarrow> scan_num 16 (hexes ns) acc = foldl (\<lambda>a n. a * 16 + n) acc ns"
  by (induction ns arbitrary: acc) (auto simp: hexes_def is_digit_hex hex_digit_props)

lemma foldl_bound: "list_all (\<lambda>n. n < 16) ns \<Longrightarrow> foldl (\<lambda>a n. a * 16 + n) acc ns < (acc + 1) * 16 ^ length ns" for acc :: nat
proof (induction ns arbitrary: acc)
  case (Cons n ns)
  then have "foldl (\<lambda>a n. a * 16 + n) (acc * 16 + n) ns < (acc * 16 + n + 1) * 16 ^ length ns" by simp
  also have "\<dots> \<le> ((acc + 1) * 16) * 16 ^ length ns" using Cons.prems by (intro mult_right_mono) auto
  finally show ?case by (simp add: algebra_simps)
qed simp

lemma strtoull_hexes:
  assumes "list_all (\<lambda>n. n < 16) ns" "length ns \<le> 16" "ns \<noteq> []"
  shows "c_strtoull 16 (hexes ns) = (of_nat (foldl (\<lambda>a n. a * 16 + n) 0 ns), False)"
proof -
  obtain n ns' where ns: "ns = n # ns'" using assms(3) by (cases ns) auto
  have n: "n < 16" using assms(1) ns by simp
  have d: "dropWhile c_isspace (hexes ns) = hexes ns" using n by (simp add: ns hexes_def hex_digit_props)
  have s: "skip_sign (hexes ns) = (False, hexes ns)" using n by (simp add: skip_sign_def ns hexes_def hex_digit_props)
  have x: "skip_0x 16 (hexes ns) = hexes ns"
    using assms(1) by (auto simp: skip_0x_def ns hexes_def hex_digit_props split: list.split)
  have "foldl (\<lambda>a n. a * 16 + n) 0 ns < 16 ^ length ns" using foldl_bound [OF assms(1), of 0] by simp
  also have "\<dots> \<le> 16 ^ 16" using assms(2) by (intro power_increasing) auto
  finally have "foldl (\<lambda>a n. a * 16 + n) 0 ns < 2 ^ 64" by simp
  then show ?thesis by (simp only: c_strtoull_def d s x scan_hexes [OF assms(1)] Let_def prod.case if_False if_True)
qed

text \<open>Reading the address back.\<close>

lemma fmt_02x_hexes: "fmt_02x b = hexes [unat b div 16, unat b mod 16]"
  by (simp add: fmt_02x_def hexes_def)

lemma ext_scan_hex: "n < 16 \<Longrightarrow> length buf < 15 \<Longrightarrow> ext_scan (hex_digit n # cs) buf = ext_scan cs (buf @ [hex_digit n])"
  by (simp add: hex_digit_props)

lemma ext_scan_colon: "length buf < 16 \<Longrightarrow> ext_scan (CHR '':'' # cs) buf = ext_scan cs buf"
  by simp

lemma ext_scan_last: "n < 16 \<Longrightarrow> length buf = 15 \<Longrightarrow> ext_scan (hex_digit n # cs) buf = Some (buf @ [hex_digit n])"
  by (simp add: hex_digit_props)

declare ext_scan.simps(2) [simp del]

definition mac_nibbles :: "u64 \<Rightarrow> nat list" where
  "mac_nibbles ext = concat (map (\<lambda>k. [unat (mac_byte ext k) div 16, unat (mac_byte ext k) mod 16]) [7, 6, 5, 4, 3, 2, 1, 0])"

lemma nibble: "unat (b :: u8) div 16 < 16" "unat (b :: u8) mod 16 < 16"
  using unat_u8_less [of b] by auto

lemma ext_scan_mac: "ext_scan (fmt_mac ext @ s) [] = Some (hexes (mac_nibbles ext))"
  by (simp add: fmt_mac_def fmt_02x_def ext_scan_hex ext_scan_colon ext_scan_last nibble mac_nibbles_def hexes_def)

lemma unat_mac_byte: "unat (mac_byte ext k) = unat ext div 2 ^ (8 * k) mod 256"
proof -
  have "unat (drop_bit (8 * k) ext) = unat ext div 2 ^ (8 * k)" by (simp only: unat_drop_bit_eq drop_bit_eq_div [where 'a = nat])
  then show ?thesis by (simp add: mac_byte_def unsigned_ucast_eq take_bit_eq_mod)
qed

lemma byte_step: "a = n div 2 ^ (8 * Suc k) \<Longrightarrow> b = n div 2 ^ (8 * k) mod 256 \<Longrightarrow> (a * 16 + b div 16) * 16 + b mod 16 = n div 2 ^ (8 * k)" for n :: nat
proof -
  assume a: "a = n div 2 ^ (8 * Suc k)" and b: "b = n div 2 ^ (8 * k) mod 256"
  have "a = n div 2 ^ (8 * k) div 256" by (simp add: a div_mult2_eq [symmetric] power_add mult.commute)
  then have "a * 256 + b = n div 2 ^ (8 * k)" using b by simp
  then show ?thesis by (simp add: algebra_simps)
qed

lemma mac_value: "foldl (\<lambda>a n. a * 16 + n) 0 (mac_nibbles ext) = unat ext"
proof -
  let ?n = "unat ext"
  define f where "f = (\<lambda>(a :: nat) b. (a * 16 + b div 16) * 16 + b mod 16)"
  have f: "f (?n div 2 ^ (8 * Suc k)) (unat (mac_byte ext k)) = ?n div 2 ^ (8 * k)" for k
    unfolding f_def by (rule byte_step) (simp_all add: unat_mac_byte)
  have "?n < 2 ^ LENGTH(64)" by (rule unsigned_less)
  then have top: "?n div 2 ^ 64 = 0" by simp
  have "foldl (\<lambda>a n. a * 16 + n) 0 (mac_nibbles ext) =
      f (f (f (f (f (f (f (f 0 (unat (mac_byte ext 7))) (unat (mac_byte ext 6))) (unat (mac_byte ext 5))) (unat (mac_byte ext 4)))
        (unat (mac_byte ext 3))) (unat (mac_byte ext 2))) (unat (mac_byte ext 1))) (unat (mac_byte ext 0))"
    by (simp add: mac_nibbles_def f_def)
  also have "\<dots> = ?n div 2 ^ (8 * 0)"
    using f [of 7] f [of 6] f [of 5] f [of 4] f [of 3] f [of 2] f [of 1] f [of 0] top by simp
  finally show ?thesis by simp
qed


lemma length_mac [simp]: "length (fmt_mac ext) = 23"
  by (simp add: fmt_mac_def fmt_02x_def)

lemma ext_of_mac: "extAddressFromUniqueId (fmt_mac ext @ s) = ext"
proof -
  have n: "list_all (\<lambda>n. n < 16) (mac_nibbles ext)" "length (mac_nibbles ext) = 16" by (simp_all add: mac_nibbles_def nibble)
  have "c_strtoull 16 (hexes (mac_nibbles ext)) = (of_nat (unat ext), False)"
    using strtoull_hexes [OF n(1)] n(2) mac_value by (metis le_refl list.size(3) zero_neq_numeral)
  then show ?thesis using n(2) by (simp add: extAddressFromUniqueId_def ext_scan_mac) (simp add: hexes_def)
qed

lemma endpoint_of_mac: "endpointFromUniqueId (fmt_mac ext @ ''-'' @ fmt_02x ep @ s) = ucast ep"
proof -
  have nth: "(fmt_mac ext @ t) ! (23 + k) = t ! k" for t k by (simp add: nth_append)
  have i: "(fmt_mac ext @ ''-'' @ fmt_02x ep @ s) ! 23 = CHR ''-''"
    "[(fmt_mac ext @ ''-'' @ fmt_02x ep @ s) ! 24, (fmt_mac ext @ ''-'' @ fmt_02x ep @ s) ! 25] = hexes [unat ep div 16, unat ep mod 16]"
    using nth [of "''-'' @ fmt_02x ep @ s" 0] nth [of "''-'' @ fmt_02x ep @ s" 1] nth [of "''-'' @ fmt_02x ep @ s" 2]
    by (simp_all add: fmt_02x_hexes hexes_def)
  have v: "c_strtoull 16 (hexes [unat ep div 16, unat ep mod 16]) = (of_nat (unat ep), False)"
    by (subst strtoull_hexes) (simp_all add: nibble)
  have u: "ucast (u64_of ep) = (ucast ep :: u32)"
    by (rule bit_word_eqI) (auto simp: bit_unsigned_iff dest: bit_imp_le_length)
  show ?thesis using i v u nibble [of ep]
    by (simp add: endpointFromUniqueId_def hexes_def hex_digit_props fmt_02x_def)
qed

lemma endpoint_short: "endpointFromUniqueId (fmt_mac ext) = 0"
  by (simp add: endpointFromUniqueId_def)

lemma match_prefix: "match_len h n = length n \<longleftrightarrow> prefix n h"
  by (induction h n rule: match_len.induct) auto

definition occurrences :: "string \<Rightarrow> string \<Rightarrow> nat \<Rightarrow> nat list" where
  "occurrences haystack needle i = filter (\<lambda>k. prefix needle (drop k haystack)) [i..<length haystack]"

lemma index_from_spec:
  assumes "needle \<noteq> []"
  shows "index_from haystack needle i = (case occurrences haystack needle i of [] \<Rightarrow> -1 | k # _ \<Rightarrow> int k)"
  using assms
proof (induction haystack needle i rule: index_from.induct)
  case (1 h n i)
  have short: "occurrences h n i = []" if "length n > length h - i"
    using that by (auto simp: occurrences_def filter_empty_conv dest!: prefix_length_le)
  have step: "occurrences h n i = (if prefix n (drop i h) then i # occurrences h n (Suc i) else occurrences h n (Suc i))" if "i < length h"
    using that by (simp add: occurrences_def upt_conv_Cons)
  have last: "occurrences h n i = []" if "\<not> i < length h" using that by (simp add: occurrences_def)
  show ?case
  proof (cases "i < length h \<and> \<not> length n > length h - i")
    case True
    then show ?thesis using 1 step by (subst index_from.simps) (simp add: match_prefix)
  next
    case False
    then have "occurrences h n i = []" using short last by blast
    then show ?thesis using False by (subst index_from.simps) auto
  qed
qed

section \<open>Properties\<close>

text \<open>a generated unique id never overflows its buffer, fits the 31 characters of a database key, and the address and the endpoint it was
  made from are read back from it, for every address, endpoint and cluster.\<close>

theorem unique_id_roundtrip:
  "\<exists>s. generateUniqueId ext ep cl = Some s \<and> length s \<le> 31 \<and> extAddressFromUniqueId s = ext \<and> endpointFromUniqueId s = ucast ep"
proof -
  consider (cluster) "cl \<noteq> 0 \<and> ep \<noteq> 0xf2" | (ep) "\<not> (cl \<noteq> 0 \<and> ep \<noteq> 0xf2)" "ep \<noteq> 0" | (mac) "\<not> (cl \<noteq> 0 \<and> ep \<noteq> 0xf2)" "ep = 0" by blast
  then show ?thesis
  proof cases
    case cluster
    then show ?thesis
      using ext_of_mac [of ext "''-'' @ fmt_02x ep @ ''-'' @ fmt_04x cl"] endpoint_of_mac [of ext ep "''-'' @ fmt_04x cl"]
      by (simp add: generateUniqueId_def) (simp add: fmt_02x_def fmt_04x_def)
  next
    case ep
    then show ?thesis using ext_of_mac [of ext "''-'' @ fmt_02x ep"] endpoint_of_mac [of ext ep "[]"]
      by (auto simp add: generateUniqueId_def Let_def) (simp_all add: fmt_02x_def)
  next
    case mac
    then show ?thesis using ext_of_mac [of ext "[]"] endpoint_short [of ext] by (auto simp add: generateUniqueId_def Let_def simp flip: length_greater_0_conv)
  qed
qed


end
