(* ===== verification/Alarm_Devices.thy ===== *)
theory Alarm_Devices
  imports Res_Resource Event_Emitter Utils_Text
begin

text \<open>
  The devices of the alarm systems: the rows of the database tables (\<^verbatim>\<open>database.cpp\<close>, alarm system part)
  and the table in memory (\<^verbatim>\<open>alarm_system_device_table.h\<close>, \<^verbatim>\<open>alarm_system_device_table.cpp\<close>). SQLite is not
  part of the repository: executing a statement is an argument, the text of the statement is the code's.
\<close>

section \<open>Numbers as text\<close>

text \<open>\<^verbatim>\<open>%d\<close> and \<^verbatim>\<open>PRIu64\<close>, and \<^verbatim>\<open>strtoul\<close> with base 10 (\<^verbatim>\<open>unsigned long\<close> has 64 bits).\<close>

definition fmt_d :: "u32 \<Rightarrow> string" where
  "fmt_d w = number_text (sint w)"

definition fmt_u64 :: "u64 \<Rightarrow> string" where
  "fmt_u64 w = digits (unat w)"

definition strtoul10 :: "string \<Rightarrow> u64" where
  "strtoul10 s = fst (c_strtoull 10 s)"

section \<open>The database\<close>

text \<open>
  The connection: whether it is open, \<^verbatim>\<open>sqlite3_exec\<close> of a statement (success and new state), and the rows of
  a query as texts.
\<close>

record 'db sqlite =
  db_open :: bool
  sql_exec :: "string \<Rightarrow> 'db \<Rightarrow> bool \<times> 'db"
  sql_rows :: "string \<Rightarrow> 'db \<Rightarrow> string list list"

text \<open>\<^verbatim>\<open>snprintf\<close> into a buffer of the given size, and execution when the text fits.\<close>

definition sql_run :: "'db sqlite \<Rightarrow> nat \<Rightarrow> string \<Rightarrow> 'db \<Rightarrow> bool \<times> 'db" where
  "sql_run q sz sql db = (if length sql \<ge> sz then (False, db) else sql_exec q sql db)"

record db_device =
  dd_uniqueid :: string
  dd_timestamp :: u64
  dd_flags :: u32
  dd_alarmSystemId :: u32

definition sql_store_device :: "db_device \<Rightarrow> string" where
  "sql_store_device d =
     ''REPLACE INTO alarm_systems_devices (uniqueid,as_id,flags,timestamp) VALUES ('' @ [CHR 0x27] @ dd_uniqueid d @ [CHR 0x27] @ '','' @ [CHR 0x27] @
     fmt_d (dd_alarmSystemId d) @ [CHR 0x27] @ '','' @ [CHR 0x27] @ fmt_d (dd_flags d) @ [CHR 0x27] @ '','' @ fmt_u64 (dd_timestamp d) @ '')''"

definition DB_StoreAlarmSystemDevice :: "'db sqlite \<Rightarrow> db_device \<Rightarrow> 'db \<Rightarrow> bool \<times> 'db" where
  "DB_StoreAlarmSystemDevice q d db =
     (if \<not> db_open q \<or> dd_uniqueid d = [] then (False, db) else sql_run q 200 (sql_store_device d) db)"

definition sql_delete_device :: "string \<Rightarrow> string" where
  "sql_delete_device uid = ''DELETE FROM alarm_systems_devices WHERE uniqueid = '' @ [CHR 0x27] @ uid @ [CHR 0x27]"

definition DB_DeleteAlarmSystemDevice :: "'db sqlite \<Rightarrow> string \<Rightarrow> 'db \<Rightarrow> bool \<times> 'db" where
  "DB_DeleteAlarmSystemDevice q uid db =
     (if \<not> db_open q \<or> uid = [] then (False, db) else sql_run q 160 (sql_delete_device uid) db)"

text \<open>
  The callback for a row: it returns false (the query is given up) for a row that has not three columns. The uniqueid is
  copied into 32 bytes.
\<close>

definition loadDeviceCallback :: "string list \<Rightarrow> db_device list \<Rightarrow> bool \<times> db_device list" where
  "loadDeviceCallback cols result =
     (case cols of
        [c0, c1, c2] \<Rightarrow>
          (let uid = (case copyString 32 (Some c0) (-1) of Some (_, Some s) \<Rightarrow> s | _ \<Rightarrow> []);
               item = \<lparr>dd_uniqueid = uid, dd_timestamp = 0, dd_flags = ucast (strtoul10 c2), dd_alarmSystemId = ucast (strtoul10 c1)\<rparr> in
           (True, if dd_uniqueid item \<noteq> [] \<and> dd_alarmSystemId item \<noteq> 0 then result @ [item] else result))
      | _ \<Rightarrow> (False, result))"

fun load_rows :: "string list list \<Rightarrow> db_device list \<Rightarrow> db_device list" where
  "load_rows [] result = result"
| "load_rows (r # rs) result =
     (case loadDeviceCallback r result of (ok, result) \<Rightarrow> if ok then load_rows rs result else result)"

definition DB_LoadAlarmSystemDeviceRows :: "'db sqlite \<Rightarrow> 'db \<Rightarrow> db_device list" where
  "DB_LoadAlarmSystemDeviceRows q db =
     (if \<not> db_open q then [] else load_rows (sql_rows q ''SELECT uniqueid,as_id,flags FROM alarm_systems_devices'' db) [])"

section \<open>The table\<close>

definition AS_MAX_UNIQUEID_LENGTH :: nat where "AS_MAX_UNIQUEID_LENGTH = 31"

definition AS_ENTRY_FLAG_ARMED_AWAY :: u32 where "AS_ENTRY_FLAG_ARMED_AWAY = 0x100"
definition AS_ENTRY_FLAG_ARMED_STAY :: u32 where "AS_ENTRY_FLAG_ARMED_STAY = 0x200"
definition AS_ENTRY_FLAG_ARMED_NIGHT :: u32 where "AS_ENTRY_FLAG_ARMED_NIGHT = 0x400"
definition AS_ENTRY_FLAG_IAS_ACE :: u32 where "AS_ENTRY_FLAG_IAS_ACE = 0x8"

text \<open>The texts are the arrays up to their end.\<close>

record as_entry =
  ae_uniqueId :: string
  ae_extAddress :: u64
  ae_flags :: u32
  ae_uniqueIdSize :: u8
  ae_alarmSystemId :: u8
  ae_armMask :: string

definition invalid_entry :: as_entry where
  "invalid_entry = \<lparr>ae_uniqueId = [], ae_extAddress = 0, ae_flags = 0, ae_uniqueIdSize = 0, ae_alarmSystemId = 0, ae_armMask = []\<rparr>"

definition ae_isValid :: "as_entry \<Rightarrow> bool" where
  "ae_isValid e \<longleftrightarrow> ae_uniqueId e \<noteq> [] \<and> ae_uniqueIdSize e > 0 \<and> ae_alarmSystemId e > 0 \<and> ae_extAddress e \<noteq> 0"

definition getIterator :: "as_entry list \<Rightarrow> u64 \<Rightarrow> as_entry option" where
  "getIterator table extAddress = List.find (\<lambda>e. ae_extAddress e = extAddress) table"

definition as_get :: "u64 \<Rightarrow> as_entry list \<Rightarrow> as_entry" where
  "as_get extAddress table = (case getIterator table extAddress of Some e \<Rightarrow> e | None \<Rightarrow> invalid_entry)"

definition as_getUid :: "string \<Rightarrow> as_entry list \<Rightarrow> as_entry" where
  "as_getUid uniqueId table =
     (case getIterator table (extAddressFromUniqueId uniqueId) of Some e \<Rightarrow> e | None \<Rightarrow> invalid_entry)"

definition as_at :: "nat \<Rightarrow> as_entry list \<Rightarrow> as_entry" where
  "as_at index table = (if index < length table then table ! index else invalid_entry)"

definition entryInitArmMask :: "as_entry \<Rightarrow> as_entry" where
  "entryInitArmMask e =
     e\<lparr>ae_armMask :=
        (if ae_flags e AND AS_ENTRY_FLAG_ARMED_AWAY \<noteq> 0 then ''A'' else []) @
        (if ae_flags e AND AS_ENTRY_FLAG_ARMED_STAY \<noteq> 0 then ''S'' else []) @
        (if ae_flags e AND AS_ENTRY_FLAG_ARMED_NIGHT \<noteq> 0 then ''N'' else [])\<rparr>"

definition storeDeviceEntry :: "'db sqlite \<Rightarrow> u64 \<Rightarrow> as_entry \<Rightarrow> 'db \<Rightarrow> bool \<times> 'db" where
  "storeDeviceEntry q now e db =
     (let uid = (case copyString 32 (Some (ae_uniqueId e)) (-1) of Some (_, Some s) \<Rightarrow> s | _ \<Rightarrow> []) in
      if uid = [] then (False, db)
      else DB_StoreAlarmSystemDevice q
             \<lparr>dd_uniqueid = uid, dd_timestamp = now, dd_flags = ae_flags e, dd_alarmSystemId = ucast (ae_alarmSystemId e)\<rparr> db)"

text \<open>\<open>put\<close>: whether a failed store of the row is noticed is the code's choice: it is not.\<close>

definition as_put :: "'db sqlite \<Rightarrow> u64 \<Rightarrow> string \<Rightarrow> u32 \<Rightarrow> u8 \<Rightarrow> as_entry list \<times> 'db \<Rightarrow> bool \<times> as_entry list \<times> 'db" where
  "as_put q now uniqueId flags alarmSystemId st =
     (let (table, db) = st; extAddress = extAddressFromUniqueId uniqueId in
      if extAddress = 0 then (False, table, db)
      else
        (case getIterator table extAddress of
           Some i \<Rightarrow>
             (if ae_flags i \<noteq> flags \<or> ae_alarmSystemId i \<noteq> alarmSystemId then
                (let i = entryInitArmMask (i\<lparr>ae_flags := flags, ae_alarmSystemId := alarmSystemId\<rparr>) in
                 (True, update_first (\<lambda>e. ae_extAddress e = extAddress) (\<lambda>_. i) table, snd (storeDeviceEntry q now i db)))
              else (True, table, db))
         | None \<Rightarrow>
             (if length uniqueId \<ge> 32 then (False, table, db)
              else
                (let e = entryInitArmMask
                       (invalid_entry\<lparr>ae_uniqueIdSize := of_nat (length uniqueId), ae_uniqueId := uniqueId, ae_extAddress := extAddress,
                          ae_alarmSystemId := alarmSystemId, ae_flags := flags\<rparr>) in
                 (True, table @ [e], snd (storeDeviceEntry q now e db))))))"

text \<open>\<open>erase\<close>: the last entry takes the place of the erased one; nothing changes when the row cannot be deleted.\<close>

definition as_erase :: "'db sqlite \<Rightarrow> string \<Rightarrow> as_entry list \<times> 'db \<Rightarrow> bool \<times> as_entry list \<times> 'db" where
  "as_erase q uniqueId st =
     (let (table, db) = st; extAddress = extAddressFromUniqueId uniqueId in
      case getIterator table extAddress of
        None \<Rightarrow> (False, table, db)
      | Some i \<Rightarrow>
          (case DB_DeleteAlarmSystemDevice q (ae_uniqueId i) db of
             (ok, db) \<Rightarrow> if ok then (True, swap_remove (\<lambda>e. ae_extAddress e = extAddress) table, db) else (False, table, db)))"

text \<open>\<open>reset\<close> and \<open>DB_LoadAlarmSystemDevices\<close>.\<close>

definition as_reset :: "as_entry list \<Rightarrow> as_entry list \<Rightarrow> as_entry list" where
  "as_reset table old = table"

definition load_entry :: "db_device \<Rightarrow> as_entry" where
  "load_entry d =
     entryInitArmMask
       (invalid_entry\<lparr>ae_extAddress := extAddressFromUniqueId (dd_uniqueid d), ae_alarmSystemId := ucast (dd_alarmSystemId d),
          ae_uniqueIdSize := of_nat (length (dd_uniqueid d)), ae_uniqueId := dd_uniqueid d, ae_flags := dd_flags d\<rparr>)"

definition DB_LoadAlarmSystemDevices :: "'db sqlite \<Rightarrow> 'db \<Rightarrow> as_entry list \<Rightarrow> as_entry list" where
  "DB_LoadAlarmSystemDevices q db old =
     (let dbDevices = DB_LoadAlarmSystemDeviceRows q db in
      if dbDevices = [] then old
      else as_reset (map load_entry (filter (\<lambda>d. \<not> length (dd_uniqueid d) > AS_MAX_UNIQUEID_LENGTH) dbDevices)) old)"

section \<open>Tables with a key\<close>

text \<open>
  Calls to a table, the ones that succeeded and the table after them. What a provider promises is the locale: a successful
  put is found under its key, a successful delete leaves nothing there, other keys and failed calls change nothing.
\<close>

datatype ('u, 'v) table_op = TPut 'u 'v | TDel 'u

fun op_arg :: "('u, 'v) table_op \<Rightarrow> 'u" where
  "op_arg (TPut u v) = u"
| "op_arg (TDel u) = u"

fun run_op :: "('u \<Rightarrow> 'v \<Rightarrow> 't \<Rightarrow> bool \<times> 't) \<Rightarrow> ('u \<Rightarrow> 't \<Rightarrow> bool \<times> 't) \<Rightarrow> ('u, 'v) table_op \<Rightarrow> 't \<Rightarrow> bool \<times> 't" where
  "run_op put del (TPut u v) t = put u v t"
| "run_op put del (TDel u) t = del u t"

fun run_ops ::
  "('u \<Rightarrow> 'v \<Rightarrow> 't \<Rightarrow> bool \<times> 't) \<Rightarrow> ('u \<Rightarrow> 't \<Rightarrow> bool \<times> 't) \<Rightarrow> ('u, 'v) table_op list \<Rightarrow> 't \<Rightarrow> ('u, 'v) table_op list \<times> 't" where
  "run_ops put del [] t = ([], t)"
| "run_ops put del (op # ops) t =
     (case run_op put del op t of (ok, t1) \<Rightarrow>
        (case run_ops put del ops t1 of (log, t2) \<Rightarrow> ((if ok then op # log else log), t2)))"

definition last_op :: "('u \<Rightarrow> 'k) \<Rightarrow> 'k \<Rightarrow> ('u, 'v) table_op list \<Rightarrow> ('u, 'v) table_op option" where
  "last_op key k log = List.find (\<lambda>op. key (op_arg op) = k) (rev log)"

lemma find_append: "List.find P (xs @ ys) = (case List.find P xs of Some x \<Rightarrow> Some x | None \<Rightarrow> List.find P ys)"
  by (induction xs) auto

lemma last_op_Cons:
  "last_op key k (op # log) = (case last_op key k log of Some x \<Rightarrow> Some x | None \<Rightarrow> if key (op_arg op) = k then Some op else None)"
  by (simp add: last_op_def find_append split: option.split)

lemma last_op_Nil [simp]: "last_op key k [] = None"
  by (simp add: last_op_def)

locale keyed_table =
  fixes inv :: "'t \<Rightarrow> bool"
    and get :: "'k \<Rightarrow> 't \<Rightarrow> 'e option"
    and put :: "'u \<Rightarrow> 'v \<Rightarrow> 't \<Rightarrow> bool \<times> 't"
    and del :: "'u \<Rightarrow> 't \<Rightarrow> bool \<times> 't"
    and key :: "'u \<Rightarrow> 'k"
    and holds :: "'k \<Rightarrow> 'v \<Rightarrow> 'e \<Rightarrow> bool"
  assumes put_inv: "inv t \<Longrightarrow> inv (snd (put u v t))"
    and del_inv: "inv t \<Longrightarrow> inv (snd (del u t))"
    and put_get: "inv t \<Longrightarrow> fst (put u v t) \<Longrightarrow> \<exists>e. get (key u) (snd (put u v t)) = Some e \<and> holds (key u) v e"
    and put_other: "inv t \<Longrightarrow> k \<noteq> key u \<or> \<not> fst (put u v t) \<Longrightarrow> get k (snd (put u v t)) = get k t"
    and del_get: "inv t \<Longrightarrow> fst (del u t) \<Longrightarrow> get (key u) (snd (del u t)) = None"
    and del_other: "inv t \<Longrightarrow> k \<noteq> key u \<or> \<not> fst (del u t) \<Longrightarrow> get k (snd (del u t)) = get k t"
begin

definition found :: "'k \<Rightarrow> 't \<Rightarrow> ('u, 'v) table_op option \<Rightarrow> 't \<Rightarrow> bool" where
  "found k t op t' \<longleftrightarrow>
     (case op of
        None \<Rightarrow> get k t' = get k t
      | Some (TPut u v) \<Rightarrow> \<exists>e. get k t' = Some e \<and> holds k v e
      | Some (TDel u) \<Rightarrow> get k t' = None)"

lemma run_op_inv: "inv t \<Longrightarrow> inv (snd (run_op put del op t))"
  by (cases op) (auto simp: put_inv del_inv)

lemma run_op_found:
  "inv t \<Longrightarrow> found k t (if fst (run_op put del op t) \<and> key (op_arg op) = k then Some op else None) (snd (run_op put del op t))"
  by (cases op) (auto simp: found_def put_get put_other del_get del_other)

lemma run_ops_found:
  "inv t \<Longrightarrow> run_ops put del ops t = (log, t') \<Longrightarrow> inv t' \<and> found k t (last_op key k log) t'"
proof (induction ops arbitrary: t log)
  case (Cons op ops)
  obtain ok t1 where op: "run_op put del op t = (ok, t1)" by fastforce
  obtain log1 where ops: "run_ops put del ops t1 = (log1, t')" "log = (if ok then op # log1 else log1)"
    using Cons.prems(2) op by (auto split: prod.split_asm)
  have t1: "inv t1" using run_op_inv [OF Cons.prems(1), of op] op by simp
  have ih: "inv t'" "found k t1 (last_op key k log1) t'" using Cons.IH [OF t1 ops(1)] by auto
  have one: "found k t (if ok \<and> key (op_arg op) = k then Some op else None) t1"
    using run_op_found [OF Cons.prems(1), of k op] op by simp
  have "found k t (last_op key k log) t'"
  proof (cases "last_op key k log1")
    case None
    then have "get k t' = get k t1" using ih(2) by (simp add: found_def)
    then show ?thesis using one None by (auto simp: found_def ops(2) last_op_Cons split: option.splits table_op.splits)
  next
    case (Some x)
    then have "found k t (Some x) t'" using ih(2) by (simp add: found_def split: table_op.splits)
    then show ?thesis using Some by (simp add: ops(2) last_op_Cons)
  qed
  then show ?case using ih(1) by simp
qed (simp add: found_def)

end

section \<open>The table of devices is such a table\<close>

definition entry_wf :: "as_entry \<Rightarrow> bool" where
  "entry_wf e \<longleftrightarrow> ae_extAddress e \<noteq> 0 \<and> extAddressFromUniqueId (ae_uniqueId e) = ae_extAddress e \<and> length (ae_uniqueId e) < 32 \<and>
     ae_uniqueIdSize e = of_nat (length (ae_uniqueId e)) \<and> entryInitArmMask e = e"

definition table_wf :: "as_entry list \<Rightarrow> bool" where
  "table_wf t \<longleftrightarrow> distinct (map ae_extAddress t) \<and> list_all entry_wf t"

lemma initArmMask_idem [simp]: "entryInitArmMask (entryInitArmMask e) = entryInitArmMask e"
  by (simp add: entryInitArmMask_def)

lemma initArmMask_fields [simp]:
  "ae_extAddress (entryInitArmMask e) = ae_extAddress e" "ae_uniqueId (entryInitArmMask e) = ae_uniqueId e"
  "ae_flags (entryInitArmMask e) = ae_flags e" "ae_alarmSystemId (entryInitArmMask e) = ae_alarmSystemId e"
  "ae_uniqueIdSize (entryInitArmMask e) = ae_uniqueIdSize e"
  by (simp_all add: entryInitArmMask_def)

lemma iterator_Some: "getIterator t x = Some e \<Longrightarrow> e \<in> set t \<and> ae_extAddress e = x"
  by (auto simp: getIterator_def find_Some_iff)

lemma iterator_None: "getIterator t x = None \<longleftrightarrow> x \<notin> ae_extAddress ` set t"
  by (auto simp: getIterator_def find_None_iff)

lemma iterator_append: "getIterator (t @ [e]) x = (case getIterator t x of Some i \<Rightarrow> Some i | None \<Rightarrow> if ae_extAddress e = x then Some e else None)"
  by (simp add: getIterator_def find_append split: option.split)

lemma iterator_update:
  assumes "ae_extAddress i = y"
  shows "getIterator (update_first (\<lambda>e. ae_extAddress e = y) (\<lambda>_. i) t) x = (if x = y then map_option (\<lambda>_. i) (getIterator t y) else getIterator t x)"
  unfolding getIterator_def by (rule find_update) (rule assms)

lemma update_keys:
  assumes "ae_extAddress i = y"
  shows "map ae_extAddress (update_first (\<lambda>e. ae_extAddress e = y) (\<lambda>_. i) t) = map ae_extAddress t"
  using assms by (induction t) auto

lemma update_all: "list_all P t \<Longrightarrow> P i \<Longrightarrow> list_all P (update_first Q (\<lambda>_. i) t)"
  by (induction t) auto

lemma put_cases:
  obtains (refused) "as_put q now u flags asid (t, db) = (False, t, db)"
    | (same) i where "getIterator t (extAddressFromUniqueId u) = Some i" "ae_flags i = flags" "ae_alarmSystemId i = asid"
        "as_put q now u flags asid (t, db) = (True, t, db)"
    | (update) i db' where "getIterator t (extAddressFromUniqueId u) = Some i"
        "as_put q now u flags asid (t, db) =
          (True, update_first (\<lambda>e. ae_extAddress e = extAddressFromUniqueId u)
            (\<lambda>_. entryInitArmMask (i\<lparr>ae_flags := flags, ae_alarmSystemId := asid\<rparr>)) t, db')"
    | (new) db' where "getIterator t (extAddressFromUniqueId u) = None" "extAddressFromUniqueId u \<noteq> 0" "length u < 32"
        "as_put q now u flags asid (t, db) =
          (True, t @ [entryInitArmMask (invalid_entry\<lparr>ae_uniqueIdSize := of_nat (length u), ae_uniqueId := u,
             ae_extAddress := extAddressFromUniqueId u, ae_alarmSystemId := asid, ae_flags := flags\<rparr>)], db')"
proof (cases "extAddressFromUniqueId u = 0")
  case True
  then show ?thesis using refused by (simp add: as_put_def)
next
  case ext: False
  show ?thesis
  proof (cases "getIterator t (extAddressFromUniqueId u)")
    case None
    show ?thesis
    proof (cases "length u < 32")
      case True
      then show ?thesis using new [OF None ext True] ext None by (simp add: as_put_def Let_def)
    next
      case False
      then show ?thesis using refused ext None by (simp add: as_put_def Let_def)
    qed
  next
    case (Some i)
    show ?thesis
    proof (cases "ae_flags i \<noteq> flags \<or> ae_alarmSystemId i \<noteq> asid")
      case True
      then show ?thesis using update [OF Some] ext Some by (simp add: as_put_def Let_def)
    next
      case False
      then show ?thesis using same [OF Some] ext Some by (simp add: as_put_def Let_def)
    qed
  qed
qed

lemma put_wf: "table_wf t \<Longrightarrow> table_wf (fst (snd (as_put q now u flags asid (t, db))))"
proof (cases rule: put_cases [of q now u flags asid t db])
  case (update i db')
  assume t: "table_wf t"
  then have i: "entry_wf i" "ae_extAddress i = extAddressFromUniqueId u" using update iterator_Some by (auto simp: table_wf_def list_all_iff)
  then have "entry_wf (entryInitArmMask (i\<lparr>ae_flags := flags, ae_alarmSystemId := asid\<rparr>))" by (simp add: entry_wf_def)
  then show ?thesis using t i by (simp add: update table_wf_def update_keys update_all)
next
  case (new db')
  assume t: "table_wf t"
  have n: "extAddressFromUniqueId u \<notin> ae_extAddress ` set t" using new(1) by (simp only: iterator_None not_False_eq_True)
  have "entry_wf (entryInitArmMask (invalid_entry\<lparr>ae_uniqueIdSize := of_nat (length u), ae_uniqueId := u,
             ae_extAddress := extAddressFromUniqueId u, ae_alarmSystemId := asid, ae_flags := flags\<rparr>))"
    using new(2,3) by (simp add: entry_wf_def)
  then show ?thesis using t n by (simp add: new(4) table_wf_def)
qed simp_all

lemma put_found:
  assumes "fst (as_put q now u flags asid (t, db))"
  shows "\<exists>e. getIterator (fst (snd (as_put q now u flags asid (t, db)))) (extAddressFromUniqueId u) = Some e \<and>
    ae_extAddress e = extAddressFromUniqueId u \<and> ae_flags e = flags \<and> ae_alarmSystemId e = asid"
proof (cases rule: put_cases [of q now u flags asid t db])
  case (update i db')
  then show ?thesis using iterator_Some [OF update(1)] by (simp add: update(2) iterator_update)
qed (use assms in \<open>auto simp: iterator_append dest: iterator_Some\<close>)

lemma put_others:
  assumes "k \<noteq> extAddressFromUniqueId u \<or> \<not> fst (as_put q now u flags asid (t, db))"
  shows "getIterator (fst (snd (as_put q now u flags asid (t, db)))) k = getIterator t k"
  by (cases rule: put_cases [of q now u flags asid t db])
    (use assms in \<open>auto simp: iterator_append iterator_update dest: iterator_Some split: option.split\<close>)

lemma erase_cases:
  assumes "as_erase q u (t, db) = (ok, t', db')"
  shows "t' = (if ok then swap_remove (\<lambda>e. ae_extAddress e = extAddressFromUniqueId u) t else t)"
  using assms by (auto simp: as_erase_def Let_def split: option.split_asm prod.split_asm if_split_asm)

lemma swap_removed:
  assumes "table_wf t"
  shows "table_wf (swap_remove (\<lambda>e. ae_extAddress e = x) t)"
    "getIterator (swap_remove (\<lambda>e. ae_extAddress e = x) t) k = (if k = x then None else getIterator t k)"
proof -
  have d: "distinct (map ae_extAddress t)" using assms by (simp add: table_wf_def)
  note r = set_swap_remove [OF d, of x]
  show "table_wf (swap_remove (\<lambda>e. ae_extAddress e = x) t)" using r assms by (auto simp: table_wf_def list_all_iff)
  show "getIterator (swap_remove (\<lambda>e. ae_extAddress e = x) t) k = (if k = x then None else getIterator t k)"
  proof (cases "k = x")
    case True
    then show ?thesis using r by (auto simp: iterator_None)
  next
    case False
    then show ?thesis using r d unfolding getIterator_def by (subst if_not_P) (auto intro!: find_set_cong)
  qed
qed

definition table_put :: "'db sqlite \<Rightarrow> string \<Rightarrow> u64 \<times> u32 \<times> u8 \<Rightarrow> as_entry list \<times> 'db \<Rightarrow> bool \<times> as_entry list \<times> 'db" where
  "table_put q u v st = (case v of (now, flags, asid) \<Rightarrow> as_put q now u flags asid st)"

definition entry_holds :: "u64 \<Rightarrow> u64 \<times> u32 \<times> u8 \<Rightarrow> as_entry \<Rightarrow> bool" where
  "entry_holds k v e \<longleftrightarrow> (case v of (now, flags, asid) \<Rightarrow> ae_extAddress e = k \<and> ae_flags e = flags \<and> ae_alarmSystemId e = asid)"

interpretation dt: keyed_table "\<lambda>st. table_wf (fst st)" "\<lambda>k st. getIterator (fst st) k" "table_put q" "as_erase q" extAddressFromUniqueId entry_holds for q
proof
  fix t :: "as_entry list \<times> 'a" and u :: string and v :: "u64 \<times> u32 \<times> u8"
  assume t: "table_wf (fst t)"
  obtain tab db where st: "t = (tab, db)" by fastforce
  obtain now flags asid where v: "v = (now, flags, asid)" by (cases v)
  show "table_wf (fst (snd (table_put q u v t)))" using put_wf t by (simp add: table_put_def st v)
  { assume "fst (table_put q u v t)"
    then show "\<exists>e. getIterator (fst (snd (table_put q u v t))) (extAddressFromUniqueId u) = Some e \<and> entry_holds (extAddressFromUniqueId u) v e"
      using put_found by (simp add: table_put_def st v entry_holds_def) }
  { fix k assume "k \<noteq> extAddressFromUniqueId u \<or> \<not> fst (table_put q u v t)"
    then show "getIterator (fst (snd (table_put q u v t))) k = getIterator (fst t) k"
      using put_others by (simp add: table_put_def st v) }
next
  fix t :: "as_entry list \<times> 'a" and u :: string
  assume t: "table_wf (fst t)"
  obtain tab db where st: "t = (tab, db)" by fastforce
  obtain ok tab' db' where e: "as_erase q u (tab, db) = (ok, tab', db')" by (metis prod_cases3)
  note c = erase_cases [OF e] and r = swap_removed [of tab]
  show "table_wf (fst (snd (as_erase q u t)))" using c r t by (simp add: st e)
  { assume "fst (as_erase q u t)"
    then show "getIterator (fst (snd (as_erase q u t))) (extAddressFromUniqueId u) = None" using c r t by (simp add: st e) }
  { fix k assume "k \<noteq> extAddressFromUniqueId u \<or> \<not> fst (as_erase q u t)"
    then show "getIterator (fst (snd (as_erase q u t))) k = getIterator (fst t) k" using c r t by (auto simp add: st e) }
qed


section \<open>Rows and entries\<close>

lemma length_digits: "n < 10 ^ k \<Longrightarrow> 0 < k \<Longrightarrow> length (digits n) \<le> k"
proof (induction n arbitrary: k rule: digits.induct)
  case (1 n)
  show ?case
  proof (cases "n < 10")
    case True
    then show ?thesis using 1 by (subst digits.simps) simp
  next
    case False
    obtain j where k: "k = Suc j" using 1(3) by (cases k) auto
    have j: "0 < j" using 1(2) False k by (cases j) auto
    then have "n div 10 < 10 ^ j" using 1(2) by (simp add: k less_mult_imp_div_less mult.commute)
    then show ?thesis using 1(1) [OF False, of j] k j False by (subst digits.simps) simp
  qed
qed

lemma digit_char: "n < 10 \<Longrightarrow> is_digit 10 (char_of (n + 48)) \<and> digit_val (char_of (n + 48)) = Some n"
  by (simp add: digit_val_def is_digit_def Let_def)

lemma scan_digits: "scan_num 10 (digits n @ s) acc = scan_num 10 s (acc * 10 ^ length (digits n) + n)"
proof (induction n arbitrary: s acc rule: digits.induct)
  case (1 n)
  show ?case
  proof (cases "n < 10")
    case True
    then show ?thesis by (subst (1 2) digits.simps) (simp add: digit_char)
  next
    case False
    have d: "digits n = digits (n div 10) @ [char_of (n mod 10 + 48)]" using False by (subst digits.simps) simp
    have e: "(acc * 10 ^ length (digits (n div 10)) + n div 10) * 10 + n mod 10 = acc * 10 ^ Suc (length (digits (n div 10))) + n"
      by (simp add: algebra_simps)
    have "scan_num 10 (digits n @ s) acc = scan_num 10 s ((acc * 10 ^ length (digits (n div 10)) + n div 10) * 10 + n mod 10)"
      using digit_char [of "n mod 10"] by (simp add: d 1 [OF False])
    then show ?thesis by (simp only: e) (simp add: d)
  qed
qed

lemma digits_first: "\<exists>d cs. digits n = d # cs \<and> \<not> c_isspace d \<and> d \<noteq> CHR ''-'' \<and> d \<noteq> CHR ''+''"
proof (induction n rule: digits.induct)
  case (1 n)
  show ?case
  proof (cases "n < 10")
    case True
    have "\<forall>n \<in> set [0..<10]. \<not> c_isspace (char_of (n + 48)) \<and> char_of (n + 48) \<noteq> CHR ''-'' \<and> char_of (n + 48) \<noteq> CHR ''+''" by code_simp
    then show ?thesis using True by (subst digits.simps) simp
  next
    case False
    then show ?thesis using 1 by (subst digits.simps) auto
  qed
qed

lemma strtoul_digits: "n < 2 ^ 64 \<Longrightarrow> strtoul10 (digits n) = of_nat n"
proof -
  assume n: "n < 2 ^ 64"
  obtain d cs where d: "digits n = d # cs" "\<not> c_isspace d" "d \<noteq> CHR ''-''" "d \<noteq> CHR ''+''" using digits_first by blast
  have s: "dropWhile c_isspace (digits n) = digits n" "skip_sign (digits n) = (False, digits n)" using d by (simp_all add: skip_sign_def)
  have x: "skip_0x 10 s = s" for s by (simp add: skip_0x_def split: list.split)
  have v: "scan_num 10 (digits n) 0 = n" using scan_digits [of n "[]" 0] by simp
  show ?thesis using n unfolding strtoul10_def c_strtoull_def s Let_def prod.case x v by simp
qed

lemma strtoul_minus: "n < 2 ^ 64 \<Longrightarrow> strtoul10 (CHR ''-'' # digits n) = - of_nat n"
proof -
  assume n: "n < 2 ^ 64"
  have s: "dropWhile c_isspace (CHR ''-'' # digits n) = CHR ''-'' # digits n" "skip_sign (CHR ''-'' # digits n) = (True, digits n)"
    by (simp_all add: skip_sign_def c_isspace_def)
  have x: "skip_0x 10 s = s" for s by (simp add: skip_0x_def split: list.split)
  have v: "scan_num 10 (digits n) 0 = n" using scan_digits [of n "[]" 0] by simp
  show ?thesis using n unfolding strtoul10_def c_strtoull_def s Let_def prod.case x v by simp
qed

lemma ucast_scast: "ucast (scast w :: u64) = w" for w :: u32
  by (rule bit_word_eqI) (auto simp: bit_unsigned_iff bit_signed_iff)

lemma strtoul_fmt_d: "ucast (strtoul10 (fmt_d w)) = w"
proof (cases "sint w < 0")
  case True
  have b: "- (2 ^ 31) \<le> sint w" using sint_greater_eq [of w] by simp
  then have n: "nat (- sint w) < 2 ^ 64" by simp
  have "strtoul10 (fmt_d w) = word_of_int (sint w)"
    using True strtoul_minus [OF n] by (simp add: fmt_d_def number_text_def of_nat_nat)
  then show ?thesis by (simp add: ucast_scast)
next
  case False
  have b: "sint w < 2 ^ 31" using sint_less [of w] by simp
  then have n: "nat (sint w) < 2 ^ 64" using False by simp
  have "strtoul10 (fmt_d w) = word_of_int (sint w)"
    using False strtoul_digits [OF n] by (simp add: fmt_d_def number_text_def of_nat_nat)
  then show ?thesis by (simp add: ucast_scast)
qed

lemma length_fmt_d: "length (fmt_d w) \<le> 11"
proof -
  have b: "- (2 ^ 31) \<le> sint w" "sint w < 2 ^ 31" using sint_greater_eq [of w] sint_less [of w] by simp_all
  have "length (digits (nat (- sint w))) \<le> 10" if "sint w < 0" using b that by (intro length_digits) auto
  moreover have "length (digits (nat (sint w))) \<le> 10" if "\<not> sint w < 0" using b that by (intro length_digits) auto
  ultimately show ?thesis by (auto simp: fmt_d_def number_text_def)
qed

lemma length_fmt_u64: "length (fmt_u64 w) \<le> 20"
proof -
  have "unat w < 2 ^ LENGTH(64)" by (rule unsigned_less)
  then show ?thesis unfolding fmt_u64_def by (intro length_digits) auto
qed

lemma copy_uid: "length s < 32 \<Longrightarrow> copyString 32 (Some s) (-1) = Some (True, Some s)"
  by (simp add: copyString_def)


section \<open>Properties\<close>

text \<open>C19: whatever sequence of \<open>put\<close> and \<open>erase\<close> calls runs on the table, an address is looked up as its last successful call left it, entries
  stay well formed and no address occurs twice, whatever the database answers.\<close>

theorem alarm_device_table_is_map:
  assumes "table_wf table" "run_ops (table_put q) (as_erase q) ops (table, db) = (log, table', db')"
  shows "table_wf table' \<and>
    (case last_op extAddressFromUniqueId ext log of
       None \<Rightarrow> as_get ext table' = as_get ext table
     | Some (TDel u) \<Rightarrow> as_get ext table' = invalid_entry
     | Some (TPut u v) \<Rightarrow> entry_holds ext v (as_get ext table'))"
proof -
  have f: "table_wf table'" "dt.found ext (table, db) (last_op extAddressFromUniqueId ext log) (table', db')"
    using dt.run_ops_found [where t = "(table, db)" and q = q and ops = ops] assms by auto
  show ?thesis
  proof (cases "last_op extAddressFromUniqueId ext log")
    case None
    then show ?thesis using f by (simp add: dt.found_def as_get_def)
  next
    case (Some op)
    then show ?thesis using f by (cases op) (auto simp: dt.found_def as_get_def entry_holds_def)
  qed
qed

text \<open>Two devices with their row each, the second is erased again.\<close>

definition mem_db :: "string list sqlite" where
  "mem_db = \<lparr>db_open = True, sql_exec = \<lambda>sql db. (True, db @ [sql]), sql_rows = \<lambda>_ _. []\<rparr>"

definition two_devices :: "(string, u64 \<times> u32 \<times> u8) table_op list" where
  "two_devices = [TPut ''00:00:00:00:00:00:00:01-01'' (0, 0x308, 1), TPut ''00:00:00:00:00:00:00:02-01'' (0, 0x100, 1),
     TDel ''00:00:00:00:00:00:00:01-01'']"

lemma macs: "fmt_mac 1 = ''00:00:00:00:00:00:00:01''" "fmt_mac 2 = ''00:00:00:00:00:00:00:02''"
  by (simp_all add: fmt_mac_def fmt_02x_def mac_byte_def hex_digit_def)

lemma exts: "extAddressFromUniqueId ''00:00:00:00:00:00:00:01-01'' = 1" "extAddressFromUniqueId ''00:00:00:00:00:00:00:02-01'' = 2"
  "extAddressFromUniqueId ''00:00:00:00:00:00:00:01'' = 1"
  using ext_of_mac [of 1 "''-01''"] ext_of_mac [of 2 "''-01''"] ext_of_mac [of 1 "[]"] by (simp_all add: macs)

theorem alarm_device_table_is_map_witness:
  "as_get 1 (fst (snd (run_ops (table_put mem_db) (as_erase mem_db) two_devices ([], [])))) = invalid_entry"
proof -
  obtain log t db where r: "run_ops (table_put mem_db) (as_erase mem_db) two_devices ([], []) = (log, t, db)" by (metis prod_cases3)
  have "last_op extAddressFromUniqueId 1 (fst (run_ops (table_put mem_db) (as_erase mem_db) two_devices ([], []))) =
      Some (TDel ''00:00:00:00:00:00:00:01-01'')"
    by (simp add: two_devices_def table_put_def as_put_def as_erase_def exts getIterator_def Let_def last_op_Cons mem_db_def
        DB_DeleteAlarmSystemDevice_def sql_run_def sql_delete_device_def invalid_entry_def)
  then show ?thesis
    using alarm_device_table_is_map [OF _ r, where ext = 1] r by (simp add: table_wf_def)
qed

text \<open>C20: the row of an entry always fits the statements' buffers, and when the database gives its columns back as they were stored, the
  entry is loaded unchanged: also flags above the range of \<^verbatim>\<open>int\<close>, which are stored as negative numbers.\<close>

theorem alarm_device_store_load:
  assumes "entry_wf e" "ae_alarmSystemId e \<noteq> 0"
  shows "let d = \<lparr>dd_uniqueid = ae_uniqueId e, dd_timestamp = now, dd_flags = ae_flags e, dd_alarmSystemId = ucast (ae_alarmSystemId e)\<rparr> in
    length (sql_store_device d) < 200 \<and> length (sql_delete_device (ae_uniqueId e)) < 160 \<and>
    (db_open q \<longrightarrow> storeDeviceEntry q now e db = sql_exec q (sql_store_device d) db) \<and>
    map load_entry (load_rows [[ae_uniqueId e, fmt_d (ucast (ae_alarmSystemId e)), fmt_d (ae_flags e)]] []) = [e]"
proof -
  have uid: "ae_uniqueId e \<noteq> []" "length (ae_uniqueId e) < 32"
    using assms(1) by (auto simp: entry_wf_def extAddressFromUniqueId_def)
  define d where "d = \<lparr>dd_uniqueid = ae_uniqueId e, dd_timestamp = now, dd_flags = ae_flags e, dd_alarmSystemId = ucast (ae_alarmSystemId e)\<rparr>"
  have fits: "length (sql_store_device d) < 200" "length (sql_delete_device (ae_uniqueId e)) < 160"
    using uid length_fmt_d [of "dd_flags d"] length_fmt_d [of "dd_alarmSystemId d"] length_fmt_u64 [of now]
    by (simp_all add: sql_store_device_def sql_delete_device_def d_def)
  have asid: "ucast (ucast (ae_alarmSystemId e) :: u32) = ae_alarmSystemId e" by (rule bit_word_eqI) (auto simp: bit_unsigned_iff)
  then have "(ucast (ae_alarmSystemId e) :: u32) \<noteq> 0" using assms(2) by (metis ucast_0)
  then have row: "load_rows [[ae_uniqueId e, fmt_d (ucast (ae_alarmSystemId e)), fmt_d (ae_flags e)]] [] = [d\<lparr>dd_timestamp := 0\<rparr>]"
    using uid by (simp add: loadDeviceCallback_def copy_uid strtoul_fmt_d d_def Let_def)
  have "load_entry (d\<lparr>dd_timestamp := 0\<rparr>) = e"
    using assms(1) asid by (cases e) (simp add: load_entry_def d_def entry_wf_def entryInitArmMask_def invalid_entry_def)
  moreover have "db_open q \<longrightarrow> storeDeviceEntry q now e db = sql_exec q (sql_store_device d) db"
    using uid fits by (simp add: storeDeviceEntry_def copy_uid DB_StoreAlarmSystemDevice_def sql_run_def d_def Let_def)
  ultimately show ?thesis using fits row unfolding Let_def d_def [symmetric] by simp
qed


theorem alarm_device_store_load_witness:
  "map load_entry (load_rows [[''00:00:00:00:00:00:00:01'', ''7'', ''-2147483648'']] []) =
     [\<lparr>ae_uniqueId = ''00:00:00:00:00:00:00:01'', ae_extAddress = 1, ae_flags = 0x80000000, ae_uniqueIdSize = 23, ae_alarmSystemId = 7, ae_armMask = []\<rparr>]"
proof -
  have w: "entry_wf \<lparr>ae_uniqueId = ''00:00:00:00:00:00:00:01'', ae_extAddress = 1, ae_flags = 0x80000000, ae_uniqueIdSize = 23, ae_alarmSystemId = 7, ae_armMask = []\<rparr>"
    by (simp add: entry_wf_def exts entryInitArmMask_def AS_ENTRY_FLAG_ARMED_AWAY_def AS_ENTRY_FLAG_ARMED_STAY_def AS_ENTRY_FLAG_ARMED_NIGHT_def)
  have t: "fmt_d 7 = ''7''" "fmt_d 0x80000000 = ''-2147483648''" by (simp_all add: fmt_d_def number_text_def digits.simps char_of_def bit_0)
  show ?thesis using alarm_device_store_load [OF w, where q = mem_db and db = "[]" and now = 0] t by (simp add: Let_def del: load_rows.simps)
qed

end
