(* ===== verification/Alarm_System.thy ===== *)
theory Alarm_System
  imports Alarm_Devices
begin

text \<open>
  \<open>AlarmSystem\<close> (\<^verbatim>\<open>alarm_system.h\<close>, \<^verbatim>\<open>alarm_system.cpp\<close>): a resource with the configuration and the state of the
  alarm system, and the state machine that is driven by events and a one second timer. Every function gives
  the new state and the events it emits; dereferencing an item that is not there has no value. The two
  clocks are arguments: \<open>now\<close> the date and time, \<open>t\<close> the steady clock, both in milliseconds.
\<close>

section \<open>Data\<close>

datatype AS_ArmMode = AS_ArmModeDisarmed | AS_ArmModeArmedStay | AS_ArmModeArmedNight | AS_ArmModeArmedAway | AS_ArmModeMax

datatype as_state = StateDisarmed | StateArmed | StateExitDelay | StateEntryDelay | StateInAlarm | StateArming

record alarm_system =
  as_res :: resource
  as_targetState :: AS_ArmMode
  as_exitDelay :: s32
  as_entryDelay :: s32
  as_triggerDuration :: s32
  as_armMask :: s32
  as_timer :: bool
  as_tState :: int
  as_curState :: as_state

definition AS_ID_MASK :: s32 where "AS_ID_MASK = 0xFF"

definition targetArmMask :: "AS_ArmMode \<Rightarrow> u16" where
  "targetArmMask m =
     (case m of AS_ArmModeArmedStay \<Rightarrow> 0x0200 | AS_ArmModeArmedNight \<Rightarrow> 0x0400 | AS_ArmModeArmedAway \<Rightarrow> 0x0100 | _ \<Rightarrow> 0)"

definition armModeStrings :: "(AS_ArmMode \<times> string) list" where
  "armModeStrings = [(AS_ArmModeDisarmed, ''disarmed''), (AS_ArmModeArmedStay, ''armed_stay''), (AS_ArmModeArmedNight, ''armed_night''),
     (AS_ArmModeArmedAway, ''armed_away'')]"

definition AS_ArmModeToString :: "AS_ArmMode \<Rightarrow> string option" where
  "AS_ArmModeToString m = map_of armModeStrings m"

definition AS_ArmModeFromString :: "string \<Rightarrow> AS_ArmMode" where
  "AS_ArmModeFromString s = (case List.find (\<lambda>p. snd p = s) armModeStrings of Some p \<Rightarrow> fst p | None \<Rightarrow> AS_ArmModeMax)"

definition IAS_ACE_PANEL_STATUS_NOT_READY_TO_ARM :: u8 where "IAS_ACE_PANEL_STATUS_NOT_READY_TO_ARM = 6"

definition IAS_PanelStates :: "string list" where
  "IAS_PanelStates = [''disarmed'', ''armed_stay'', ''armed_night'', ''armed_away'', ''exit_delay'', ''entry_delay'', ''not_ready'', ''in_alarm'',
     ''arming_stay'', ''arming_night'', ''arming_away'']"

definition IAS_PanelStatusToString :: "u8 \<Rightarrow> string" where
  "IAS_PanelStatusToString s = (if unat s < length IAS_PanelStates then IAS_PanelStates ! unat s else [])"

section \<open>Items of the system\<close>

definition as_item :: "'at res_lib \<Rightarrow> string \<Rightarrow> alarm_system \<Rightarrow> resource_item option" where
  "as_item L s a = rs_item (al_rids L) s (as_res a)"

definition as_number :: "'at res_lib \<Rightarrow> string \<Rightarrow> alarm_system \<Rightarrow> s64 option" where
  "as_number L s a = map_option ri_toNumber (as_item L s a)"

definition as_text :: "'at res_lib \<Rightarrow> string \<Rightarrow> alarm_system \<Rightarrow> string option" where
  "as_text L s a = map_option (ri_toString (al_fmt L) (al_rids L)) (as_item L s a)"

definition as_write :: "'at res_lib \<Rightarrow> string \<Rightarrow> resource_item \<Rightarrow> alarm_system \<Rightarrow> alarm_system" where
  "as_write L s i a = a\<lparr>as_res := rs_update (al_rids L) s (\<lambda>_. i) (as_res a)\<rparr>"

definition as_id :: "'at res_lib \<Rightarrow> alarm_system \<Rightarrow> u32 option" where
  "as_id L a = map_option ucast (as_number L RConfigAlarmSystemId a)"

definition as_idString :: "'at res_lib \<Rightarrow> alarm_system \<Rightarrow> string option" where
  "as_idString L a = as_text L RAttrId a"

definition as_event :: "'at res_lib \<Rightarrow> string \<Rightarrow> resource_item \<Rightarrow> alarm_system \<Rightarrow> event option" where
  "as_event L s i a = map_option (\<lambda>idString. EventItem (rs_prefix (as_res a)) s idString i 0) (as_idString L a)"

text \<open>\<open>item->setValue(number)\<close> on an item of the system, and the event about it.\<close>

definition as_setNumber :: "'at res_lib \<Rightarrow> int \<Rightarrow> string \<Rightarrow> s64 \<Rightarrow> resource_item \<Rightarrow> alarm_system \<Rightarrow> (alarm_system \<times> event list) option" where
  "as_setNumber L now s n i a = do {
     let i = snd (ri_setNumber (al_rids L) now n SourceUnknown i);
     let a = as_write L s i a;
     e \<leftarrow> as_event L s i a;
     Some (a, [e]) }"

section \<open>The state machine\<close>

definition panelStatus :: "as_state \<Rightarrow> AS_ArmMode \<Rightarrow> u8 \<Rightarrow> u8" where
  "panelStatus cur target old =
     (case cur of
        StateDisarmed \<Rightarrow> 0
      | StateArmed \<Rightarrow> (case target of AS_ArmModeArmedAway \<Rightarrow> 3 | AS_ArmModeArmedStay \<Rightarrow> 1 | AS_ArmModeArmedNight \<Rightarrow> 2 | _ \<Rightarrow> old)
      | StateArming \<Rightarrow> (case target of AS_ArmModeArmedAway \<Rightarrow> 0xa | AS_ArmModeArmedStay \<Rightarrow> 8 | AS_ArmModeArmedNight \<Rightarrow> 9 | _ \<Rightarrow> old)
      | StateInAlarm \<Rightarrow> 7
      | StateEntryDelay \<Rightarrow> 5
      | StateExitDelay \<Rightarrow> 4)"

definition updateArmStateAndPanelStatus :: "'at res_lib \<Rightarrow> int \<Rightarrow> alarm_system \<Rightarrow> (alarm_system \<times> event list) option" where
  "updateArmStateAndPanelStatus L now a =
     (case as_item L RStateArmState a of
        None \<Rightarrow> Some (a, [])
      | Some item \<Rightarrow>
          (let status = panelStatus (as_curState a) (as_targetState a) (ucast (ri_toNumber item)) in
           if ucast status \<noteq> ri_toNumber item then as_setNumber L now RStateArmState (ucast status) item a
           else Some (a, [])))"

definition as_setState :: "'at res_lib \<Rightarrow> int \<Rightarrow> as_state \<Rightarrow> alarm_system \<Rightarrow> (alarm_system \<times> event list) option" where
  "as_setState L now st a = updateArmStateAndPanelStatus L now (if st \<noteq> as_curState a then a\<lparr>as_curState := st\<rparr> else a)"

definition startStateTimer :: "int \<Rightarrow> alarm_system \<Rightarrow> alarm_system" where
  "startStateTimer t a = a\<lparr>as_tState := t, as_timer := True\<rparr>"

definition stopTimer :: "alarm_system \<Rightarrow> alarm_system" where
  "stopTimer a = a\<lparr>as_timer := False\<rparr>"

text \<open>The remaining time is shown when it fits 8 bits.\<close>

definition setSecondsRemaining :: "'at res_lib \<Rightarrow> int \<Rightarrow> u32 \<Rightarrow> alarm_system \<Rightarrow> (alarm_system \<times> event list) option" where
  "setSecondsRemaining L now secs a =
     (case as_item L RStateSecondsRemaining a of
        None \<Rightarrow> Some (a, [])
      | Some item \<Rightarrow>
          if ri_toNumber item \<noteq> ucast secs \<and> secs \<le> 255 then as_setNumber L now RStateSecondsRemaining (ucast secs) item a
          else Some (a, []))"

text \<open>The comparison of a delay in seconds with a time difference, and the seconds left of it.\<close>

definition delay_over :: "s32 \<Rightarrow> int \<Rightarrow> bool" where
  "delay_over d dt \<longleftrightarrow> sint d * 1000 < dt"

definition delay_left :: "s32 \<Rightarrow> int \<Rightarrow> u32" where
  "delay_left d dt = word_of_int ((sint d * 1000 - dt) div 1000)"

definition stateExitDelay :: "'at res_lib \<Rightarrow> int \<Rightarrow> int \<Rightarrow> event \<Rightarrow> alarm_system \<Rightarrow> (alarm_system \<times> event list) option" where
  "stateExitDelay L now t e a =
     (if ev_what e = REventTimerFired then
        (let dt = t - as_tState a in
         if delay_over (as_exitDelay a) dt then do {
           (a, e1) \<leftarrow> setSecondsRemaining L now 0 a;
           let a = stopTimer a;
           (a, e2) \<leftarrow> (if as_targetState a = AS_ArmModeDisarmed then as_setState L now StateDisarmed a
                      else as_setState L now StateArming (startStateTimer t a));
           Some (a, e1 @ e2) }
         else setSecondsRemaining L now (delay_left (as_exitDelay a) dt) a)
      else Some (a, []))"

definition stateEntryDelay :: "'at res_lib \<Rightarrow> int \<Rightarrow> int \<Rightarrow> event \<Rightarrow> alarm_system \<Rightarrow> (alarm_system \<times> event list) option" where
  "stateEntryDelay L now t e a =
     (if ev_what e = REventTimerFired then
        (let dt = t - as_tState a in
         if delay_over (as_entryDelay a) dt then do {
           (a, e1) \<leftarrow> setSecondsRemaining L now 0 a;
           (a, e2) \<leftarrow> as_setState L now StateInAlarm (startStateTimer t a);
           Some (a, e1 @ e2) }
         else setSecondsRemaining L now (delay_left (as_entryDelay a) dt) a)
      else Some (a, []))"

definition stateArmed :: "'at res_lib \<Rightarrow> int \<Rightarrow> int \<Rightarrow> event \<Rightarrow> alarm_system \<Rightarrow> (alarm_system \<times> event list) option" where
  "stateArmed L now t e a =
     (if ev_what e = REventDeviceAlarm then
        (if ev_num e AND as_armMask a = 0 then Some (a, [])
         else do {
           i \<leftarrow> as_id L a;
           (if ev_num e AND AS_ID_MASK = i then do {
              (a, e1) \<leftarrow> setSecondsRemaining L now (as_entryDelay a) a;
              (a, e2) \<leftarrow> as_setState L now StateEntryDelay a;
              Some (startStateTimer t a, e1 @ e2) }
            else Some (a, [])) })
      else Some (a, []))"

definition stateInAlarm :: "'at res_lib \<Rightarrow> int \<Rightarrow> int \<Rightarrow> event \<Rightarrow> alarm_system \<Rightarrow> (alarm_system \<times> event list) option" where
  "stateInAlarm L now t e a =
     (if ev_what e = REventTimerFired \<and> delay_over (as_triggerDuration a) (t - as_tState a)
      then as_setState L now StateArmed (stopTimer a)
      else Some (a, []))"

definition stateArming :: "'at res_lib \<Rightarrow> int \<Rightarrow> event \<Rightarrow> alarm_system \<Rightarrow> (alarm_system \<times> event list) option" where
  "stateArming L now e a =
     (if ev_what e = REventTimerFired then as_setState L now StateArmed (stopTimer a) else Some (a, []))"

definition stateDisarmed :: "event \<Rightarrow> alarm_system \<Rightarrow> (alarm_system \<times> event list) option" where
  "stateDisarmed e a = Some (a, [])"

text \<open>The items with the delays of a mode, as the tables of \<open>updateTargetStateValues\<close> have them.\<close>

definition exitSuffix :: "AS_ArmMode \<Rightarrow> string" where
  "exitSuffix m = (case m of AS_ArmModeDisarmed \<Rightarrow> RConfigDisarmedExitDelay | AS_ArmModeArmedStay \<Rightarrow> RConfigArmedStayExitDelay
     | AS_ArmModeArmedNight \<Rightarrow> RConfigArmedNightExitDelay | AS_ArmModeArmedAway \<Rightarrow> RConfigArmedAwayExitDelay | AS_ArmModeMax \<Rightarrow> [])"

definition entrySuffix :: "AS_ArmMode \<Rightarrow> string" where
  "entrySuffix m = (case m of AS_ArmModeDisarmed \<Rightarrow> RConfigDisarmedEntryDelay | AS_ArmModeArmedStay \<Rightarrow> RConfigArmedStayEntryDelay
     | AS_ArmModeArmedNight \<Rightarrow> RConfigArmedNightEntryDelay | AS_ArmModeArmedAway \<Rightarrow> RConfigArmedAwayEntryDelay | AS_ArmModeMax \<Rightarrow> [])"

definition triggerSuffix :: "AS_ArmMode \<Rightarrow> string" where
  "triggerSuffix m = (case m of AS_ArmModeArmedStay \<Rightarrow> RConfigArmedStayExitDelay
     | AS_ArmModeArmedNight \<Rightarrow> RConfigArmedNightExitDelay | AS_ArmModeArmedAway \<Rightarrow> RConfigArmedAwayTriggerDuration | _ \<Rightarrow> RInvalidSuffix)"

definition updateTargetStateValues :: "'at res_lib \<Rightarrow> alarm_system \<Rightarrow> alarm_system option" where
  "updateTargetStateValues L a =
     (if as_targetState a = AS_ArmModeMax then Some a
      else do {
        x \<leftarrow> as_number L (exitSuffix (as_targetState a)) a;
        n \<leftarrow> as_number L (entrySuffix (as_targetState a)) a;
        d \<leftarrow> (if as_targetState a \<noteq> AS_ArmModeDisarmed then as_number L (triggerSuffix (as_targetState a)) a else Some 0);
        Some (a\<lparr>as_exitDelay := ucast x, as_entryDelay := ucast n, as_triggerDuration := ucast d,
                as_armMask := ucast (targetArmMask (as_targetState a))\<rparr>) })"

definition as_curHandler :: "'at res_lib \<Rightarrow> int \<Rightarrow> int \<Rightarrow> event \<Rightarrow> alarm_system \<Rightarrow> (alarm_system \<times> event list) option" where
  "as_curHandler L now t e a =
     (case as_curState a of
        StateDisarmed \<Rightarrow> stateDisarmed e a
      | StateArmed \<Rightarrow> stateArmed L now t e a
      | StateExitDelay \<Rightarrow> stateExitDelay L now t e a
      | StateEntryDelay \<Rightarrow> stateEntryDelay L now t e a
      | StateInAlarm \<Rightarrow> stateInAlarm L now t e a
      | StateArming \<Rightarrow> stateArming L now e a)"

definition as_handleEvent :: "'at res_lib \<Rightarrow> int \<Rightarrow> int \<Rightarrow> event \<Rightarrow> alarm_system \<Rightarrow> (alarm_system \<times> event list) option" where
  "as_handleEvent L now t e a =
     (if ev_resource e = RAlarmSystems \<and> ev_what e = RConfigArmMode then do {
        armMode \<leftarrow> as_text L (ev_what e) a;
        let oldTargetState = as_targetState a;
        let mode = AS_ArmModeFromString armMode;
        (if mode = AS_ArmModeMax then Some (a, [])
         else do {
           a \<leftarrow> updateTargetStateValues L (a\<lparr>as_targetState := mode\<rparr>);
           (if oldTargetState = as_targetState a then Some (a, [])
            else do {
              (a, e1) \<leftarrow> setSecondsRemaining L now (as_exitDelay a) a;
              (a, e2) \<leftarrow> as_setState L now StateExitDelay a;
              Some (startStateTimer t a, e1 @ e2) }) }) }
      else as_curHandler L now t e a)"

definition as_timerFired :: "'at res_lib \<Rightarrow> int \<Rightarrow> int \<Rightarrow> alarm_system \<Rightarrow> (alarm_system \<times> event list) option" where
  "as_timerFired L now t a = as_handleEvent L now t (EventNum RAlarmSystems REventTimerFired 0 0) a"

section \<open>Small numbers\<close>

definition small :: "'a::len word \<Rightarrow> bool" where
  "small w \<longleftrightarrow> 0 \<le> sint w \<and> sint w \<le> 255"

lemma uint_nonneg: "0 \<le> sint w \<Longrightarrow> uint w = sint w" for w :: "'a::len word"
proof -
  assume "0 \<le> sint w"
  moreover have "sint w < 2 ^ (LENGTH('a) - 1)" using sint_lt [of w] by simp
  moreover have "(2 :: int) ^ (LENGTH('a) - 1) \<le> 2 ^ LENGTH('a)" by (rule power_increasing) auto
  ultimately have "0 \<le> sint w" "sint w < 2 ^ LENGTH('a)" by linarith+
  then have "take_bit LENGTH('a) (sint w) = sint w" by (rule take_bit_int_eq_self)
  then show ?thesis by (simp add: uint_sint)
qed

lemma sint_of_uint: "uint w < 2 ^ (LENGTH('a) - 1) \<Longrightarrow> sint w = uint w" for w :: "'a::len word"
proof -
  assume u: "uint w < 2 ^ (LENGTH('a) - 1)"
  have "- (2 ^ (LENGTH('a) - 1)) \<le> (0 :: int)" by simp
  then have "- (2 ^ (LENGTH('a) - 1)) \<le> uint w" using uint_ge_0 [of w] by linarith
  then show ?thesis using u unfolding sint_uint by (intro signed_take_bit_int_eq_self) simp_all
qed

lemma small_ucast:
  assumes "small n" "8 < LENGTH('b)"
  shows "sint (ucast n :: 'b::len word) = sint n"
proof -
  have n: "uint n = sint n" using assms(1) by (simp add: small_def uint_nonneg)
  have p: "(256 :: int) \<le> 2 ^ (LENGTH('b) - 1)"
  proof -
    have "(2 :: int) ^ 8 \<le> 2 ^ (LENGTH('b) - 1)" using assms(2) by (intro power_increasing) auto
    then show ?thesis by simp
  qed
  have q: "(2 :: int) ^ (LENGTH('b) - 1) \<le> 2 ^ LENGTH('b)" by (rule power_increasing) auto
  have "uint (ucast n :: 'b word) = take_bit LENGTH('b) (uint n)" by (simp add: unsigned_ucast_eq)
  also have "\<dots> = uint n"
  proof (rule take_bit_int_eq_self)
    show "0 \<le> uint n" by simp
    show "uint n < 2 ^ LENGTH('b)" using assms(1) n p q unfolding small_def by linarith
  qed
  also note n
  finally have u: "uint (ucast n :: 'b word) = sint n" .
  then have "sint (ucast n :: 'b word) = uint (ucast n :: 'b word)" using assms(1) p unfolding small_def by (intro sint_of_uint) linarith
  then show ?thesis using u by simp
qed

lemma small_ucast32: "small (n :: s64) \<Longrightarrow> small (ucast n :: s32)"
  by (simp add: small_def small_ucast [unfolded small_def])

lemma small_le: "small (n :: u32) \<Longrightarrow> n \<le> 255"
  by (simp add: small_def word_le_def uint_nonneg)

lemma small_of_int: "0 \<le> k \<Longrightarrow> k \<le> 255 \<Longrightarrow> small (word_of_int k :: u32) \<and> sint (word_of_int k :: u32) = k"
proof -
  assume k: "0 \<le> k" "k \<le> 255"
  then have "uint (word_of_int k :: u32) = k" by (simp add: unsigned_of_int take_bit_int_eq_self)
  then show ?thesis using k sint_of_uint [of "word_of_int k :: u32"] by (simp add: small_def)
qed

section \<open>Invariant\<close>

definition as_delays :: "string list" where
  "as_delays = [RConfigDisarmedEntryDelay, RConfigDisarmedExitDelay, RConfigArmedStayEntryDelay, RConfigArmedStayExitDelay,
     RConfigArmedNightEntryDelay, RConfigArmedNightExitDelay, RConfigArmedAwayEntryDelay, RConfigArmedAwayExitDelay,
     RConfigArmedAwayTriggerDuration]"

text \<open>The items the machine uses are there, the delays hold a byte, the two state items take every number.\<close>

definition byte_delay :: "descriptor list \<Rightarrow> resource_item \<Rightarrow> bool" where
  "byte_delay ds i \<longleftrightarrow> small (ri_num i) \<and> rd_min (ri_descriptor ds i) = 0 \<and> rd_max (ri_descriptor ds i) = 255"

definition text_item :: "descriptor list \<Rightarrow> resource_item \<Rightarrow> bool" where
  "text_item ds i \<longleftrightarrow> rd_type (ri_descriptor ds i) = DataTypeString \<and> ri_str i \<noteq> None"

definition as_items_ok :: "'at res_lib \<Rightarrow> resource \<Rightarrow> bool" where
  "as_items_ok L r \<longleftrightarrow> rs_ok (al_rids L) r \<and> rs_prefix r = RAlarmSystems \<and>
     (\<forall>s \<in> set as_delays. \<exists>i. rs_item (al_rids L) s r = Some i \<and> byte_delay (al_rids L) i) \<and>
     (\<forall>s \<in> {RStateArmState, RStateSecondsRemaining}. \<exists>i. rs_item (al_rids L) s r = Some i \<and> no_range (ri_descriptor (al_rids L) i)) \<and>
     (\<exists>i. rs_item (al_rids L) RConfigArmMode r = Some i \<and> text_item (al_rids L) i) \<and>
     (\<forall>s \<in> {RAttrId, RConfigAlarmSystemId, RConfigConfigured}. rs_item (al_rids L) s r \<noteq> None)"

definition timed :: "as_state \<Rightarrow> bool" where
  "timed s \<longleftrightarrow> s \<noteq> StateDisarmed \<and> s \<noteq> StateArmed"

definition mode_fits :: "as_state \<Rightarrow> AS_ArmMode \<Rightarrow> bool" where
  "mode_fits s m \<longleftrightarrow> m \<noteq> AS_ArmModeMax \<and> (s = StateDisarmed \<longrightarrow> m = AS_ArmModeDisarmed) \<and>
     (s = StateArmed \<or> s = StateArming \<or> s = StateEntryDelay \<or> s = StateInAlarm \<longrightarrow> m \<noteq> AS_ArmModeDisarmed)"

definition as_inv :: "'at res_lib \<Rightarrow> alarm_system \<Rightarrow> bool" where
  "as_inv L a \<longleftrightarrow> as_items_ok L (as_res a) \<and> mode_fits (as_curState a) (as_targetState a) \<and>
     as_armMask a = ucast (targetArmMask (as_targetState a)) \<and>
     small (as_exitDelay a) \<and> small (as_entryDelay a) \<and> small (as_triggerDuration a) \<and>
     (timed (as_curState a) \<longrightarrow> as_timer a) \<and>
     as_number L RStateArmState a = Some (ucast (panelStatus (as_curState a) (as_targetState a) 0))"

text \<open>\<open>a'\<close> differs from \<open>a\<close> in the item \<open>s\<close> only.\<close>

definition upd :: "'at res_lib \<Rightarrow> string \<Rightarrow> alarm_system \<Rightarrow> alarm_system \<Rightarrow> bool" where
  "upd L s a a' \<longleftrightarrow> as_items_ok L (as_res a') \<and> a' = a\<lparr>as_res := as_res a'\<rparr> \<and> (\<forall>u. u \<noteq> s \<longrightarrow> as_item L u a' = as_item L u a)"

lemma as_item_ctl [simp]:
  "as_item L s (a\<lparr>as_curState := c\<rparr>) = as_item L s a" "as_item L s (a\<lparr>as_targetState := m\<rparr>) = as_item L s a"
  "as_item L s (a\<lparr>as_timer := b\<rparr>) = as_item L s a" "as_item L s (a\<lparr>as_tState := t\<rparr>) = as_item L s a"
  "as_item L s (a\<lparr>as_exitDelay := x\<rparr>) = as_item L s a" "as_item L s (a\<lparr>as_entryDelay := x\<rparr>) = as_item L s a"
  "as_item L s (a\<lparr>as_triggerDuration := x\<rparr>) = as_item L s a" "as_item L s (a\<lparr>as_armMask := x\<rparr>) = as_item L s a"
  by (simp_all add: as_item_def)

lemma as_number_ctl [simp]:
  "as_number L s (a\<lparr>as_curState := c\<rparr>) = as_number L s a" "as_number L s (a\<lparr>as_targetState := m\<rparr>) = as_number L s a"
  "as_number L s (a\<lparr>as_timer := b\<rparr>) = as_number L s a" "as_number L s (a\<lparr>as_tState := t\<rparr>) = as_number L s a"
  "as_number L s (a\<lparr>as_exitDelay := x\<rparr>) = as_number L s a" "as_number L s (a\<lparr>as_entryDelay := x\<rparr>) = as_number L s a"
  "as_number L s (a\<lparr>as_triggerDuration := x\<rparr>) = as_number L s a" "as_number L s (a\<lparr>as_armMask := x\<rparr>) = as_number L s a"
  by (simp_all add: as_number_def)

lemma setNumber_no_range:
  assumes "no_range (ri_descriptor ds i)"
  shows "ri_num (snd (ri_setNumber ds now n src i)) = n" "ri_descriptor ds (snd (ri_setNumber ds now n src i)) = ri_descriptor ds i"
proof -
  show "ri_num (snd (ri_setNumber ds now n src i)) = n" using assms by (simp add: ri_setNumber_def Let_def)
  obtain ok i' where i: "ri_setNumber ds now n src i = (ok, i')" by fastforce
  show "ri_descriptor ds (snd (ri_setNumber ds now n src i)) = ri_descriptor ds i" using setNumber_suffix [OF i] by (simp add: i)
qed

text \<open>Setting one of the two state items.\<close>

lemma setNumber_upd:
  assumes ok: "as_items_ok L (as_res a)" and s: "s = RStateArmState \<or> s = RStateSecondsRemaining" and i: "as_item L s a = Some i"
  obtains a' e where "as_setNumber L now s n i a = Some (a', [e])" "upd L s a a'" "as_number L s a' = Some n"
    "ev_resource e = RAlarmSystems" "ev_what e = s"
proof -
  let ?ds = "al_rids L"
  let ?i = "snd (ri_setNumber ?ds now n SourceUnknown i)"
  let ?a = "as_write L s ?i a"
  have r: "no_range (ri_descriptor ?ds i)" using ok s i by (fastforce simp: as_items_ok_def as_item_def)
  have d: "ri_descriptor ?ds ?i = ri_descriptor ?ds i" and n: "ri_num ?i = n" by (rule setNumber_no_range [OF r])+
  have sfx: "ri_suffix ?ds ?i = s" using d i item_suffix [of ?ds s "as_res a" i] by (simp add: as_item_def)
  have item: "rs_item ?ds u (as_res ?a) = (if u = s then Some ?i else rs_item ?ds u (as_res a))" for u
    using rs_item_update_const [OF sfx] i by (simp add: as_write_def as_item_def)
  have names: "names_of ?ds (as_res ?a) = names_of ?ds (as_res a)"
    by (simp add: as_write_def) (rule names_update, rule sfx)
  have s': "s \<notin> set as_delays" "s \<noteq> RConfigArmMode" "s \<noteq> RAttrId" "s \<noteq> RConfigAlarmSystemId" "s \<noteq> RConfigConfigured"
    using s by (auto simp: as_delays_def suffixes)
  have ok': "as_items_ok L (as_res ?a)"
    using ok s' r d names unfolding as_items_ok_def rs_ok_def item by (auto simp: as_write_def rs_update_def)
  have u: "upd L s a ?a" using ok' item by (auto simp: upd_def as_item_def as_write_def)
  obtain x where "as_item L RAttrId ?a = Some x" using ok' by (auto simp: as_items_ok_def as_item_def)
  then obtain e where e: "as_event L s ?i ?a = Some e" by (simp add: as_event_def as_idString_def as_text_def)
  have pre: "rs_prefix (as_res ?a) = RAlarmSystems" using ok' by (simp add: as_items_ok_def)
  then have "ev_resource e = RAlarmSystems" "ev_what e = s"
    using e by (auto simp: as_event_def EventItem_def Event0_def)
  moreover have "as_number L s ?a = Some n" using item n by (simp add: as_number_def as_item_def ri_toNumber_def)
  moreover have "as_setNumber L now s n i a = Some (?a, [e])" using e by (simp add: as_setNumber_def Let_def)
  ultimately show ?thesis using that u by blast
qed

lemma upd_refl: "as_items_ok L (as_res a) \<Longrightarrow> upd L s a a"
  by (simp add: upd_def)

lemma item_there: "as_items_ok L (as_res a) \<Longrightarrow> s = RStateArmState \<or> s = RStateSecondsRemaining \<Longrightarrow> \<exists>i. as_item L s a = Some i"
  by (auto simp: as_items_ok_def as_item_def)

lemma seconds_upd:
  assumes "as_items_ok L (as_res a)"
  obtains a' es where "setSecondsRemaining L now n a = Some (a', es)" "upd L RStateSecondsRemaining a a'"
    "n \<le> 255 \<longrightarrow> as_number L RStateSecondsRemaining a' = Some (ucast n)"
    "\<forall>e \<in> set es. ev_resource e = RAlarmSystems \<and> ev_what e = RStateSecondsRemaining"
proof -
  obtain i where i: "as_item L RStateSecondsRemaining a = Some i" using item_there [OF assms] by blast
  show ?thesis
  proof (cases "ri_toNumber i \<noteq> ucast n \<and> n \<le> 255")
    case True
    obtain a' e where "as_setNumber L now RStateSecondsRemaining (ucast n) i a = Some (a', [e])" "upd L RStateSecondsRemaining a a'"
      "as_number L RStateSecondsRemaining a' = Some (ucast n)" "ev_resource e = RAlarmSystems" "ev_what e = RStateSecondsRemaining"
      using setNumber_upd [OF assms _ i] by blast
    then show ?thesis using that True i by (simp add: setSecondsRemaining_def)
  next
    case False
    have "setSecondsRemaining L now n a = Some (a, [])" unfolding setSecondsRemaining_def i option.case if_not_P [OF False] ..
    moreover have "n \<le> 255 \<longrightarrow> as_number L RStateSecondsRemaining a = Some (ucast n)" using False i by (auto simp: as_number_def)
    ultimately show ?thesis using that upd_refl [OF assms] by simp
  qed
qed

lemma panel_upd:
  assumes "as_items_ok L (as_res a)" "mode_fits (as_curState a) (as_targetState a)"
  obtains a' es where "updateArmStateAndPanelStatus L now a = Some (a', es)" "upd L RStateArmState a a'"
    "as_number L RStateArmState a' = Some (ucast (panelStatus (as_curState a) (as_targetState a) 0))"
    "\<forall>e \<in> set es. ev_resource e = RAlarmSystems \<and> ev_what e = RStateArmState"
proof -
  obtain i where i: "as_item L RStateArmState a = Some i" using item_there [OF assms(1)] by blast
  have p: "panelStatus (as_curState a) (as_targetState a) old = panelStatus (as_curState a) (as_targetState a) 0" for old
    using assms(2) by (cases "as_curState a"; cases "as_targetState a") (simp_all add: panelStatus_def mode_fits_def)
  let ?n = "ucast (panelStatus (as_curState a) (as_targetState a) 0) :: s64"
  have u: "updateArmStateAndPanelStatus L now a = (if ?n \<noteq> ri_toNumber i then as_setNumber L now RStateArmState ?n i a else Some (a, []))"
    by (simp add: updateArmStateAndPanelStatus_def i Let_def p [of "ucast (ri_toNumber i)"])
  show ?thesis
  proof (cases "?n \<noteq> ri_toNumber i")
    case True
    obtain a' e where "as_setNumber L now RStateArmState ?n i a = Some (a', [e])" "upd L RStateArmState a a'"
      "as_number L RStateArmState a' = Some ?n" "ev_resource e = RAlarmSystems" "ev_what e = RStateArmState"
      using setNumber_upd [OF assms(1) _ i] by blast
    then show ?thesis using that True u by simp
  next
    case False
    then show ?thesis using that [of a "[]"] u upd_refl [OF assms(1)] i by (simp add: as_number_def)
  qed
qed

lemma state_upd:
  assumes "as_items_ok L (as_res a)" "mode_fits st (as_targetState a)"
  obtains a' es where "as_setState L now st a = Some (a', es)" "upd L RStateArmState (a\<lparr>as_curState := st\<rparr>) a'"
    "as_number L RStateArmState a' = Some (ucast (panelStatus st (as_targetState a) 0))"
    "\<forall>e \<in> set es. ev_resource e = RAlarmSystems \<and> ev_what e = RStateArmState"
proof -
  have c: "(if st \<noteq> as_curState a then a\<lparr>as_curState := st\<rparr> else a) = a\<lparr>as_curState := st\<rparr>" by simp
  obtain a' es where u: "updateArmStateAndPanelStatus L now (a\<lparr>as_curState := st\<rparr>) = Some (a', es)"
    "upd L RStateArmState (a\<lparr>as_curState := st\<rparr>) a'" "as_number L RStateArmState a' = Some (ucast (panelStatus st (as_targetState a) 0))"
    "\<forall>e \<in> set es. ev_resource e = RAlarmSystems \<and> ev_what e = RStateArmState"
    using panel_upd [of L "a\<lparr>as_curState := st\<rparr>" now] assms by auto
  have "as_setState L now st a = Some (a', es)" unfolding as_setState_def c by (rule u)
  then show ?thesis using that u by blast
qed

end
