(* ===== verification/Alarm_Machine.thy ===== *)
theory Alarm_Machine
  imports Alarm_System
begin

text \<open>
  The contract of the alarm system's state machine: an abstract machine over the mode, the state, the delays in
  seconds and the time of the last change, and the proof that \<open>as_handleEvent\<close> (\<^verbatim>\<open>alarm_system.cpp\<close>) implements it.
\<close>

section \<open>The abstract machine\<close>

record alarm_ctl =
  ct_state :: as_state
  ct_mode :: AS_ArmMode
  ct_exit :: int
  ct_entry :: int
  ct_trigger :: int
  ct_since :: int
  ct_secs :: int

text \<open>What an event means: a new mode is asked for, the timer fires, a device of the system trips while its mode is armed.\<close>

datatype alarm_input = Arm AS_ArmMode | Tick | Trip | Ignore

definition spec_tick :: "int \<Rightarrow> alarm_ctl \<Rightarrow> alarm_ctl" where
  "spec_tick t c =
     (case ct_state c of
        StateExitDelay \<Rightarrow>
          if ct_exit c * 1000 < t - ct_since c then
            (if ct_mode c = AS_ArmModeDisarmed then c\<lparr>ct_state := StateDisarmed, ct_secs := 0\<rparr>
             else c\<lparr>ct_state := StateArming, ct_since := t, ct_secs := 0\<rparr>)
          else c\<lparr>ct_secs := (ct_exit c * 1000 - (t - ct_since c)) div 1000\<rparr>
      | StateArming \<Rightarrow> c\<lparr>ct_state := StateArmed\<rparr>
      | StateEntryDelay \<Rightarrow>
          if ct_entry c * 1000 < t - ct_since c then c\<lparr>ct_state := StateInAlarm, ct_since := t, ct_secs := 0\<rparr>
          else c\<lparr>ct_secs := (ct_entry c * 1000 - (t - ct_since c)) div 1000\<rparr>
      | StateInAlarm \<Rightarrow> if ct_trigger c * 1000 < t - ct_since c then c\<lparr>ct_state := StateArmed\<rparr> else c
      | _ \<Rightarrow> c)"

definition spec_step :: "(AS_ArmMode \<Rightarrow> int \<times> int \<times> int) \<Rightarrow> int \<Rightarrow> alarm_input \<Rightarrow> alarm_ctl \<Rightarrow> alarm_ctl" where
  "spec_step cfg t inp c =
     (case inp of
        Arm m \<Rightarrow>
          (case cfg m of (x, n, d) \<Rightarrow>
             (let c' = c\<lparr>ct_mode := m, ct_exit := x, ct_entry := n, ct_trigger := d\<rparr> in
              if m = ct_mode c then c' else c'\<lparr>ct_state := StateExitDelay, ct_since := t, ct_secs := x\<rparr>))
      | Tick \<Rightarrow> spec_tick t c
      | Trip \<Rightarrow> if ct_state c = StateArmed then c\<lparr>ct_state := StateEntryDelay, ct_since := t, ct_secs := ct_entry c\<rparr> else c
      | Ignore \<Rightarrow> c)"

section \<open>Abstraction\<close>

definition num_or_0 :: "s64 option \<Rightarrow> int" where
  "num_or_0 n = (case n of Some n \<Rightarrow> sint n | None \<Rightarrow> 0)"

definition as_abs :: "'at res_lib \<Rightarrow> alarm_system \<Rightarrow> alarm_ctl" where
  "as_abs L a = \<lparr>ct_state = as_curState a, ct_mode = as_targetState a, ct_exit = sint (as_exitDelay a), ct_entry = sint (as_entryDelay a),
     ct_trigger = sint (as_triggerDuration a), ct_since = as_tState a, ct_secs = num_or_0 (as_number L RStateSecondsRemaining a)\<rparr>"

definition as_cfg :: "'at res_lib \<Rightarrow> alarm_system \<Rightarrow> AS_ArmMode \<Rightarrow> int \<times> int \<times> int" where
  "as_cfg L a m = (num_or_0 (as_number L (exitSuffix m) a), num_or_0 (as_number L (entrySuffix m) a),
     if m = AS_ArmModeDisarmed then 0 else num_or_0 (as_number L (triggerSuffix m) a))"

definition as_input :: "'at res_lib \<Rightarrow> alarm_system \<Rightarrow> event \<Rightarrow> alarm_input" where
  "as_input L a e =
     (if ev_resource e = RAlarmSystems \<and> ev_what e = RConfigArmMode then
        (case as_text L RConfigArmMode a of
           Some txt \<Rightarrow> (case AS_ArmModeFromString txt of AS_ArmModeMax \<Rightarrow> Ignore | m \<Rightarrow> Arm m)
         | None \<Rightarrow> Ignore)
      else if ev_what e = REventTimerFired then Tick
      else if ev_what e = REventDeviceAlarm \<and> ev_num e AND ucast (targetArmMask (as_targetState a)) \<noteq> 0 \<and>
        as_id L a = Some (ev_num e AND AS_ID_MASK) then Trip
      else Ignore)"

definition as_keep :: "'at res_lib \<Rightarrow> alarm_system \<Rightarrow> alarm_system \<Rightarrow> bool" where
  "as_keep L a a' \<longleftrightarrow> (\<forall>u. u \<noteq> RStateArmState \<and> u \<noteq> RStateSecondsRemaining \<longrightarrow> as_item L u a' = as_item L u a)"

text \<open>The events of the system itself are about its two state items.\<close>

definition state_events :: "event list \<Rightarrow> bool" where
  "state_events es \<longleftrightarrow>
     (\<forall>e \<in> set es. ev_resource e = RAlarmSystems \<and> (ev_what e = RStateArmState \<or> ev_what e = RStateSecondsRemaining))"

definition refines :: "'at res_lib \<Rightarrow> alarm_system \<Rightarrow> alarm_ctl \<Rightarrow> (alarm_system \<times> event list) option \<Rightarrow> bool" where
  "refines L a c res \<longleftrightarrow> (\<exists>a' es. res = Some (a', es) \<and> as_inv L a' \<and> as_abs L a' = c \<and> as_keep L a a' \<and> state_events es)"

section \<open>Simulation\<close>

lemma upd_fields:
  assumes "upd L s b a"
  shows "as_curState a = as_curState b" "as_targetState a = as_targetState b" "as_exitDelay a = as_exitDelay b"
    "as_entryDelay a = as_entryDelay b" "as_triggerDuration a = as_triggerDuration b" "as_armMask a = as_armMask b"
    "as_timer a = as_timer b" "as_tState a = as_tState b" "as_items_ok L (as_res a)"
  using assms unfolding upd_def by (metis alarm_system.select_convs alarm_system.surjective alarm_system.update_convs(1))+

lemma upd_number: "upd L s b a \<Longrightarrow> u \<noteq> s \<Longrightarrow> as_number L u a = as_number L u b"
  by (simp add: upd_def as_number_def)

lemma upd_keep: "upd L s b a \<Longrightarrow> s = RStateArmState \<or> s = RStateSecondsRemaining \<Longrightarrow> as_keep L b a"
  by (auto simp: upd_def as_keep_def)

lemma keep_trans: "as_keep L a b \<Longrightarrow> as_keep L b c \<Longrightarrow> as_keep L a c"
  by (simp add: as_keep_def)

lemma names_ne [simp]: "RStateArmState \<noteq> RStateSecondsRemaining" "RStateSecondsRemaining \<noteq> RStateArmState"
  by (simp_all add: suffixes)

lemma small_secs: "small n \<Longrightarrow> num_or_0 (Some (ucast (n :: s32))) = sint n"
  by (simp add: num_or_0_def small_ucast)

lemma small_0: "small (0 :: s32)"
  by (simp add: small_def)

text \<open>The last part of every transition: the panel shows the new state.\<close>

lemma enter:
  assumes "as_items_ok L (as_res b)" "mode_fits st (as_targetState b)" "as_armMask b = ucast (targetArmMask (as_targetState b))"
    "small (as_exitDelay b)" "small (as_entryDelay b)" "small (as_triggerDuration b)"
  obtains a' es where "as_setState L now st b = Some (a', es)" "as_abs L a' = (as_abs L b)\<lparr>ct_state := st\<rparr>"
    "as_keep L b a'" "state_events es" "timed st \<longrightarrow> as_timer b \<Longrightarrow> as_inv L a'"
    "\<And>t. as_inv L (startStateTimer t a')" "\<And>t. as_abs L (startStateTimer t a') = (as_abs L b)\<lparr>ct_state := st, ct_since := t\<rparr>"
proof -
  obtain a' es where s: "as_setState L now st b = Some (a', es)" and u: "upd L RStateArmState (b\<lparr>as_curState := st\<rparr>) a'"
    and p: "as_number L RStateArmState a' = Some (ucast (panelStatus st (as_targetState b) 0))"
    and e: "\<forall>e \<in> set es. ev_resource e = RAlarmSystems \<and> ev_what e = RStateArmState"
    using state_upd [OF assms(1,2)] by blast
  have secs: "as_number L RStateSecondsRemaining a' = as_number L RStateSecondsRemaining b" using upd_number [OF u] by simp
  have abs: "as_abs L a' = (as_abs L b)\<lparr>ct_state := st\<rparr>" by (simp add: as_abs_def upd_fields [OF u] secs)
  have inv: "as_inv L a'" if "timed st \<longrightarrow> as_timer b" using that assms p by (simp add: as_inv_def upd_fields [OF u])
  have "as_inv L (startStateTimer t a')" for t using assms p by (simp add: as_inv_def upd_fields [OF u] startStateTimer_def)
  moreover have "as_abs L (startStateTimer t a') = (as_abs L b)\<lparr>ct_state := st, ct_since := t\<rparr>" for t
    by (simp add: as_abs_def upd_fields [OF u] secs startStateTimer_def)
  moreover have "as_keep L b a'" using upd_keep [OF u] by (simp add: as_keep_def)
  moreover have "state_events es" using e by (simp add: state_events_def)
  ultimately show ?thesis using that s abs inv by blast
qed

text \<open>The first part: the remaining seconds.\<close>

lemma show_secs:
  assumes "as_items_ok L (as_res a)" "small n"
  obtains a1 es where "setSecondsRemaining L now n a = Some (a1, es)" "upd L RStateSecondsRemaining a a1"
    "as_abs L a1 = (as_abs L a)\<lparr>ct_secs := sint n\<rparr>" "as_keep L a a1" "state_events es"
proof -
  obtain a1 es where s: "setSecondsRemaining L now n a = Some (a1, es)" and u: "upd L RStateSecondsRemaining a a1"
    and p: "n \<le> 255 \<longrightarrow> as_number L RStateSecondsRemaining a1 = Some (ucast n)"
    and e: "\<forall>e \<in> set es. ev_resource e = RAlarmSystems \<and> ev_what e = RStateSecondsRemaining"
    using seconds_upd [OF assms(1)] by blast
  have "as_abs L a1 = (as_abs L a)\<lparr>ct_secs := sint n\<rparr>"
    using p small_le [OF assms(2)] by (simp add: as_abs_def upd_fields [OF u] small_secs [OF assms(2)])
  then show ?thesis using that s u upd_keep [OF u] e by (simp add: state_events_def)
qed

lemma inv_secs: "as_inv L a \<Longrightarrow> upd L RStateSecondsRemaining a a1 \<Longrightarrow> as_inv L a1"
  using upd_number [of L RStateSecondsRemaining a a1 RStateArmState] by (simp add: as_inv_def upd_fields)

lemma events_append: "state_events xs \<Longrightarrow> state_events ys \<Longrightarrow> state_events (xs @ ys)"
  by (auto simp: state_events_def)

lemma left_small: "small d \<Longrightarrow> 0 \<le> dt \<Longrightarrow> \<not> delay_over d dt \<Longrightarrow> small (delay_left d dt) \<and> sint (delay_left d dt) = (sint d * 1000 - dt) div 1000"
  using small_of_int [of "(sint d * 1000 - dt) div 1000"] by (auto simp: delay_left_def delay_over_def small_def)

lemma as_res_timer [simp]: "as_res (startStateTimer t a) = as_res a" "as_res (stopTimer a) = as_res a"
  by (simp_all add: startStateTimer_def stopTimer_def)

lemma ctl_timer [simp]:
  "as_targetState (startStateTimer t a) = as_targetState a" "as_targetState (stopTimer a) = as_targetState a"
  "as_exitDelay (startStateTimer t a) = as_exitDelay a" "as_exitDelay (stopTimer a) = as_exitDelay a"
  "as_entryDelay (startStateTimer t a) = as_entryDelay a" "as_entryDelay (stopTimer a) = as_entryDelay a"
  "as_triggerDuration (startStateTimer t a) = as_triggerDuration a" "as_triggerDuration (stopTimer a) = as_triggerDuration a"
  "as_armMask (startStateTimer t a) = as_armMask a" "as_armMask (stopTimer a) = as_armMask a"
  "as_curState (startStateTimer t a) = as_curState a" "as_curState (stopTimer a) = as_curState a"
  "as_timer (startStateTimer t a)" "\<not> as_timer (stopTimer a)"
  by (simp_all add: startStateTimer_def stopTimer_def)

lemma abs_timer [simp]: "as_abs L (stopTimer a) = as_abs L a" "as_abs L (startStateTimer t a) = (as_abs L a)\<lparr>ct_since := t\<rparr>"
  by (simp_all add: as_abs_def startStateTimer_def stopTimer_def)

lemma keep_timer [simp]: "as_keep L a (stopTimer b) = as_keep L a b" "as_keep L a (startStateTimer t b) = as_keep L a b"
  "as_keep L (stopTimer a) b = as_keep L a b" "as_keep L (startStateTimer t a) b = as_keep L a b"
  by (simp_all add: as_keep_def startStateTimer_def stopTimer_def)

lemma keep_refl [simp]: "as_keep L a a"
  by (simp add: as_keep_def)

lemma no_events [simp]: "state_events []"
  by (simp add: state_events_def)

lemma enter_inv:
  assumes "as_inv L a" "upd L RStateSecondsRemaining a a1"
  shows "as_inv L a1" "as_targetState a1 = as_targetState a"
  using inv_secs [OF assms] upd_fields [OF assms(2)] by simp_all

definition can_enter :: "'at res_lib \<Rightarrow> as_state \<Rightarrow> alarm_system \<Rightarrow> bool" where
  "can_enter L st b \<longleftrightarrow> as_items_ok L (as_res b) \<and> mode_fits st (as_targetState b) \<and> as_armMask b = ucast (targetArmMask (as_targetState b)) \<and>
     small (as_exitDelay b) \<and> small (as_entryDelay b) \<and> small (as_triggerDuration b)"

lemma enter_now:
  assumes "can_enter L st b" "timed st \<longrightarrow> as_timer b"
  shows "\<exists>a' es. as_setState L now st b = Some (a', es) \<and> as_abs L a' = (as_abs L b)\<lparr>ct_state := st\<rparr> \<and> as_keep L b a' \<and> state_events es \<and> as_inv L a'"
proof -
  have c: "as_items_ok L (as_res b)" "mode_fits st (as_targetState b)" "as_armMask b = ucast (targetArmMask (as_targetState b))"
    "small (as_exitDelay b)" "small (as_entryDelay b)" "small (as_triggerDuration b)" using assms(1) by (simp_all add: can_enter_def)
  show ?thesis by (rule enter [OF c, of now]) (use assms(2) in blast)
qed

lemma enter_start:
  assumes "can_enter L st b"
  shows "\<exists>a' es. as_setState L now st b = Some (a', es) \<and> as_abs L (startStateTimer t a') = (as_abs L b)\<lparr>ct_state := st, ct_since := t\<rparr> \<and>
    as_keep L b a' \<and> state_events es \<and> as_inv L (startStateTimer t a')"
proof -
  have c: "as_items_ok L (as_res b)" "mode_fits st (as_targetState b)" "as_armMask b = ucast (targetArmMask (as_targetState b))"
    "small (as_exitDelay b)" "small (as_entryDelay b)" "small (as_triggerDuration b)" using assms by (simp_all add: can_enter_def)
  show ?thesis by (rule enter [OF c, of now]) blast
qed

lemma can_enter_timer [simp]: "can_enter L st (startStateTimer t a) = can_enter L st a" "can_enter L st (stopTimer a) = can_enter L st a"
  by (simp_all add: can_enter_def)

lemma can_enter_inv: "as_inv L a \<Longrightarrow> mode_fits st (as_targetState a) \<Longrightarrow> can_enter L st a"
  by (simp add: can_enter_def as_inv_def)

lemma tick_exit:
  assumes inv: "as_inv L a" and st: "as_curState a = StateExitDelay" and t: "as_tState a \<le> t" and w: "ev_what e = REventTimerFired"
  shows "refines L a (spec_tick t (as_abs L a)) (stateExitDelay L now t e a)"
proof -
  have items: "as_items_ok L (as_res a)" and sm: "small (as_exitDelay a)" using inv by (simp_all add: as_inv_def)
  have fit: "as_targetState a \<noteq> AS_ArmModeMax" using inv by (simp add: as_inv_def mode_fits_def)
  have c: "ct_state (as_abs L a) = StateExitDelay" "ct_exit (as_abs L a) = sint (as_exitDelay a)" "ct_since (as_abs L a) = as_tState a"
    "ct_mode (as_abs L a) = as_targetState a" by (simp_all add: as_abs_def st)
  show ?thesis
  proof (cases "delay_over (as_exitDelay a) (t - as_tState a)")
    case False
    let ?n = "delay_left (as_exitDelay a) (t - as_tState a)"
    have n: "small ?n" "sint ?n = (sint (as_exitDelay a) * 1000 - (t - as_tState a)) div 1000" using left_small [OF sm _ False] t by auto
    obtain a1 es where s: "setSecondsRemaining L now ?n a = Some (a1, es)" "upd L RStateSecondsRemaining a a1"
      "as_abs L a1 = (as_abs L a)\<lparr>ct_secs := sint ?n\<rparr>" "as_keep L a a1" "state_events es" using show_secs [OF items n(1)] by blast
    then show ?thesis using inv_secs [OF inv s(2)] False w n(2) c
      by (simp add: refines_def stateExitDelay_def Let_def spec_tick_def delay_over_def)
  next
    case over: True
    obtain a1 e1 where s: "setSecondsRemaining L now 0 a = Some (a1, e1)" "upd L RStateSecondsRemaining a a1"
      "as_abs L a1 = (as_abs L a)\<lparr>ct_secs := sint (0 :: u32)\<rparr>" "as_keep L a a1" "state_events e1"
      using show_secs [OF items small_0] by blast
    note i1 = enter_inv [OF inv s(2)]
    show ?thesis
    proof (cases "as_targetState a = AS_ArmModeDisarmed")
      case True
      obtain a2 e2 where r: "as_setState L now StateDisarmed (stopTimer a1) = Some (a2, e2)" "as_abs L a2 = (as_abs L a1)\<lparr>ct_state := StateDisarmed\<rparr>"
        "as_keep L a1 a2" "state_events e2" "as_inv L a2"
        using enter_now [of L StateDisarmed "stopTimer a1" now] can_enter_inv [OF i1(1), of StateDisarmed] i1(2) True
        by (auto simp: mode_fits_def timed_def)
      show ?thesis using w over s(1) i1(2) True r(1)
        by (auto simp: refines_def stateExitDelay_def Let_def spec_tick_def c delay_over_def r s events_append keep_trans [OF s(4) r(3)])
    next
      case False
      obtain a2 e2 where r: "as_setState L now StateArming (startStateTimer t (stopTimer a1)) = Some (a2, e2)"
        "as_abs L a2 = (as_abs L a1)\<lparr>ct_since := t, ct_state := StateArming\<rparr>" "as_keep L a1 a2" "state_events e2" "as_inv L a2"
        using enter_now [of L StateArming "startStateTimer t (stopTimer a1)" now] can_enter_inv [OF i1(1), of StateArming] i1(2) False fit
        by (auto simp: mode_fits_def)
      show ?thesis using w over s(1) i1(2) False r(1)
        by (auto simp: refines_def stateExitDelay_def Let_def spec_tick_def c delay_over_def r s events_append keep_trans [OF s(4) r(3)])
    qed
  qed
qed

lemma tick_entry:
  assumes inv: "as_inv L a" and st: "as_curState a = StateEntryDelay" and t: "as_tState a \<le> t" and w: "ev_what e = REventTimerFired"
  shows "refines L a (spec_tick t (as_abs L a)) (stateEntryDelay L now t e a)"
proof -
  have items: "as_items_ok L (as_res a)" and sm: "small (as_entryDelay a)" using inv by (simp_all add: as_inv_def)
  have fit: "mode_fits StateEntryDelay (as_targetState a)" using inv st by (simp add: as_inv_def)
  have c: "ct_state (as_abs L a) = StateEntryDelay" "ct_entry (as_abs L a) = sint (as_entryDelay a)" "ct_since (as_abs L a) = as_tState a"
    by (simp_all add: as_abs_def st)
  show ?thesis
  proof (cases "delay_over (as_entryDelay a) (t - as_tState a)")
    case False
    let ?n = "delay_left (as_entryDelay a) (t - as_tState a)"
    have n: "small ?n" "sint ?n = (sint (as_entryDelay a) * 1000 - (t - as_tState a)) div 1000" using left_small [OF sm _ False] t by auto
    obtain a1 es where s: "setSecondsRemaining L now ?n a = Some (a1, es)" "upd L RStateSecondsRemaining a a1"
      "as_abs L a1 = (as_abs L a)\<lparr>ct_secs := sint ?n\<rparr>" "as_keep L a a1" "state_events es" using show_secs [OF items n(1)] by blast
    then show ?thesis using inv_secs [OF inv s(2)] False w n(2) c
      by (simp add: refines_def stateEntryDelay_def Let_def spec_tick_def delay_over_def)
  next
    case over: True
    obtain a1 e1 where s: "setSecondsRemaining L now 0 a = Some (a1, e1)" "upd L RStateSecondsRemaining a a1"
      "as_abs L a1 = (as_abs L a)\<lparr>ct_secs := sint (0 :: u32)\<rparr>" "as_keep L a a1" "state_events e1"
      using show_secs [OF items small_0] by blast
    note i1 = enter_inv [OF inv s(2)]
    obtain a2 e2 where r: "as_setState L now StateInAlarm (startStateTimer t a1) = Some (a2, e2)"
      "as_abs L a2 = (as_abs L a1)\<lparr>ct_since := t, ct_state := StateInAlarm\<rparr>" "as_keep L a1 a2" "state_events e2" "as_inv L a2"
      using enter_now [of L StateInAlarm "startStateTimer t a1" now] can_enter_inv [OF i1(1), of StateInAlarm] i1(2) fit
      by (auto simp: mode_fits_def)
    show ?thesis using w over s(1) i1(2) r(1)
      by (auto simp: refines_def stateEntryDelay_def Let_def spec_tick_def c delay_over_def r s events_append keep_trans [OF s(4) r(3)])
  qed
qed

lemma enter_armed:
  assumes inv: "as_inv L a" and "mode_fits StateArmed (as_targetState a)"
  shows "refines L a ((as_abs L a)\<lparr>ct_state := StateArmed\<rparr>) (as_setState L now StateArmed (stopTimer a))"
proof -
  obtain a2 e2 where "as_setState L now StateArmed (stopTimer a) = Some (a2, e2)"
    "as_abs L a2 = (as_abs L a)\<lparr>ct_state := StateArmed\<rparr>" "as_keep L a a2" "state_events e2" "as_inv L a2"
    using enter_now [of L StateArmed "stopTimer a" now] can_enter_inv [OF inv assms(2)] by (auto simp: timed_def)
  then show ?thesis by (simp add: refines_def)
qed

lemma stay: "as_inv L a \<Longrightarrow> refines L a (as_abs L a) (Some (a, []))"
  by (simp add: refines_def)

lemma tick_refines:
  assumes inv: "as_inv L a" and t: "as_tState a \<le> t" and w: "ev_what e = REventTimerFired"
  shows "refines L a (spec_tick t (as_abs L a)) (as_curHandler L now t e a)"
proof -
  have f: "mode_fits (as_curState a) (as_targetState a)" using inv by (simp add: as_inv_def)
  have armed: "mode_fits StateArmed (as_targetState a)" if "as_curState a = StateInAlarm \<or> as_curState a = StateArming"
    using f that by (auto simp: mode_fits_def)
  have w2: "ev_what e \<noteq> REventDeviceAlarm" using w by (simp add: suffixes)
  show ?thesis
  proof (cases "as_curState a")
    case StateDisarmed
    then show ?thesis using stay [OF inv] by (simp add: as_curHandler_def stateDisarmed_def spec_tick_def as_abs_def)
  next
    case StateArmed
    then show ?thesis using stay [OF inv] w2 by (simp add: as_curHandler_def stateArmed_def spec_tick_def as_abs_def)
  next
    case StateExitDelay
    then show ?thesis using tick_exit [OF inv _ t w] by (simp add: as_curHandler_def)
  next
    case StateEntryDelay
    then show ?thesis using tick_entry [OF inv _ t w] by (simp add: as_curHandler_def)
  next
    case StateInAlarm
    then show ?thesis using stay [OF inv] enter_armed [OF inv armed] w
      by (simp add: as_curHandler_def stateInAlarm_def spec_tick_def as_abs_def delay_over_def)
  next
    case StateArming
    then show ?thesis using enter_armed [OF inv armed] w by (simp add: as_curHandler_def stateArming_def spec_tick_def as_abs_def)
  qed
qed

lemma trip_refines:
  assumes inv: "as_inv L a" and st: "as_curState a = StateArmed"
  shows "refines L a ((as_abs L a)\<lparr>ct_state := StateEntryDelay, ct_since := t, ct_secs := ct_entry (as_abs L a)\<rparr>)
    (do { (a, e1) \<leftarrow> setSecondsRemaining L now (as_entryDelay a) a; (a, e2) \<leftarrow> as_setState L now StateEntryDelay a;
          Some (startStateTimer t a, e1 @ e2) })"
proof -
  have items: "as_items_ok L (as_res a)" and sm: "small (as_entryDelay a)" using inv by (simp_all add: as_inv_def)
  have fit: "mode_fits StateEntryDelay (as_targetState a)" using inv st by (simp add: as_inv_def mode_fits_def)
  obtain a1 e1 where s: "setSecondsRemaining L now (as_entryDelay a) a = Some (a1, e1)" "upd L RStateSecondsRemaining a a1"
    "as_abs L a1 = (as_abs L a)\<lparr>ct_secs := sint (as_entryDelay a)\<rparr>" "as_keep L a a1" "state_events e1"
    using show_secs [OF items sm] by blast
  note i1 = enter_inv [OF inv s(2)]
  obtain a2 e2 where r: "as_setState L now StateEntryDelay a1 = Some (a2, e2)" "as_keep L a1 a2" "state_events e2"
      "as_inv L (startStateTimer t a2)" "as_abs L (startStateTimer t a2) = (as_abs L a1)\<lparr>ct_state := StateEntryDelay, ct_since := t\<rparr>"
    using enter_start [of L StateEntryDelay a1 now t] can_enter_inv [OF i1(1), of StateEntryDelay] i1(2) fit by auto
  have "as_abs L (startStateTimer t a2) = (as_abs L a)\<lparr>ct_state := StateEntryDelay, ct_since := t, ct_secs := ct_entry (as_abs L a)\<rparr>"
    using r(5) s(3) by (simp add: as_abs_def)
  then show ?thesis using s(1) r(1,4) keep_trans [OF s(4) r(2)] by (simp add: refines_def events_append s(5) r(3))
qed

text \<open>Taking over the parameters of a mode.\<close>

lemma delay_items:
  assumes "m \<noteq> AS_ArmModeMax"
  shows "exitSuffix m \<in> set as_delays" "entrySuffix m \<in> set as_delays" "m \<noteq> AS_ArmModeDisarmed \<Longrightarrow> triggerSuffix m \<in> set as_delays"
  using assms by (cases m; simp add: exitSuffix_def entrySuffix_def triggerSuffix_def as_delays_def)+

lemma delay_number:
  assumes "as_items_ok L (as_res a)" "s \<in> set as_delays"
  obtains n where "as_number L s a = Some n" "small n"
  using assms by (auto simp: as_items_ok_def as_number_def as_item_def ri_toNumber_def byte_delay_def)

lemma target_values:
  assumes "as_items_ok L (as_res a)" "m \<noteq> AS_ArmModeMax"
  obtains x n d where "updateTargetStateValues L (a\<lparr>as_targetState := m\<rparr>) =
      Some (a\<lparr>as_targetState := m, as_exitDelay := x, as_entryDelay := n, as_triggerDuration := d, as_armMask := ucast (targetArmMask m)\<rparr>)"
    "small x" "small n" "small d" "as_cfg L a m = (sint x, sint n, sint d)"
proof -
  obtain x where x: "as_number L (exitSuffix m) a = Some x" "small x" using delay_number [OF assms(1) delay_items(1) [OF assms(2)]] .
  obtain n where n: "as_number L (entrySuffix m) a = Some n" "small n" using delay_number [OF assms(1) delay_items(2) [OF assms(2)]] .
  obtain d where d: "(if m \<noteq> AS_ArmModeDisarmed then as_number L (triggerSuffix m) a else Some 0) = Some d" "small d"
  proof (cases "m = AS_ArmModeDisarmed")
    case True
    then show ?thesis using that [of 0] by (simp add: small_def)
  next
    case False
    then obtain d where "as_number L (triggerSuffix m) a = Some d" "small d"
      using delay_number [OF assms(1) delay_items(3) [OF assms(2) False]] by blast
    then show ?thesis using that False by simp
  qed
  have "updateTargetStateValues L (a\<lparr>as_targetState := m\<rparr>) =
      Some (a\<lparr>as_targetState := m, as_exitDelay := ucast x, as_entryDelay := ucast n, as_triggerDuration := ucast d, as_armMask := ucast (targetArmMask m)\<rparr>)"
    using x(1) n(1) d(1) assms(2) by (simp add: updateTargetStateValues_def split: if_split_asm)
  moreover have "as_cfg L a m = (sint (ucast x :: s32), sint (ucast n :: s32), sint (ucast d :: s32))"
    using x n d by (auto simp: as_cfg_def num_or_0_def small_ucast split: if_split_asm)
  ultimately show ?thesis using that x(2) n(2) d(2) small_ucast32 by blast
qed

lemma as_text_item: "as_text L s a = map_option (ri_toString (al_fmt L) (al_rids L)) (as_item L s a)"
  by (simp add: as_text_def)

lemma arm_refines:
  assumes inv: "as_inv L a" and m: "m \<noteq> AS_ArmModeMax" and tx: "as_text L RConfigArmMode a = Some tx" "AS_ArmModeFromString tx = m"
    and e: "ev_resource e = RAlarmSystems" "ev_what e = RConfigArmMode"
  shows "refines L a (spec_step (as_cfg L a) t (Arm m) (as_abs L a)) (as_handleEvent L now t e a)"
proof -
  have items: "as_items_ok L (as_res a)" using inv by (simp add: as_inv_def)
  obtain x n d where v: "updateTargetStateValues L (a\<lparr>as_targetState := m\<rparr>) =
      Some (a\<lparr>as_targetState := m, as_exitDelay := x, as_entryDelay := n, as_triggerDuration := d, as_armMask := ucast (targetArmMask m)\<rparr>)"
    and sm: "small x" "small n" "small d" and cfg: "as_cfg L a m = (sint x, sint n, sint d)"
    using target_values [OF items m] .
  let ?b = "a\<lparr>as_targetState := m, as_exitDelay := x, as_entryDelay := n, as_triggerDuration := d, as_armMask := ucast (targetArmMask m)\<rparr>"
  have b: "as_abs L ?b = (as_abs L a)\<lparr>ct_mode := m, ct_exit := sint x, ct_entry := sint n, ct_trigger := sint d\<rparr>" "as_keep L a ?b"
    by (simp_all add: as_abs_def as_keep_def)
  have h: "as_handleEvent L now t e a =
      (if as_targetState a = m then Some (?b, [])
       else do { (a, e1) \<leftarrow> setSecondsRemaining L now x ?b; (a, e2) \<leftarrow> as_setState L now StateExitDelay a; Some (startStateTimer t a, e1 @ e2) })"
    using e m by (simp add: as_handleEvent_def tx Let_def v)
  show ?thesis
  proof (cases "as_targetState a = m")
    case True
    then have "as_inv L ?b" using inv sm by (simp add: as_inv_def)
    then show ?thesis using True b by (simp add: h refines_def spec_step_def cfg Let_def as_abs_def)
  next
    case False
    have "as_items_ok L (as_res ?b)" using items by simp
    then obtain a1 e1 where s: "setSecondsRemaining L now x ?b = Some (a1, e1)" "upd L RStateSecondsRemaining ?b a1"
      "as_abs L a1 = (as_abs L ?b)\<lparr>ct_secs := sint x\<rparr>" "as_keep L ?b a1" "state_events e1"
      using show_secs [OF _ sm(1)] by blast
    have "can_enter L StateExitDelay a1" using m sm by (simp add: can_enter_def upd_fields [OF s(2)] mode_fits_def)
    then obtain a2 e2 where r: "as_setState L now StateExitDelay a1 = Some (a2, e2)" "as_keep L a1 a2" "state_events e2"
      "as_inv L (startStateTimer t a2)" "as_abs L (startStateTimer t a2) = (as_abs L a1)\<lparr>ct_state := StateExitDelay, ct_since := t\<rparr>"
      using enter_start by blast
    have ne: "m \<noteq> ct_mode (as_abs L a)" using False by (simp add: as_abs_def)
    have "as_abs L (startStateTimer t a2) = spec_step (as_cfg L a) t (Arm m) (as_abs L a)"
      using ne by (simp add: r(5) s(3) b(1) spec_step_def cfg Let_def del: abs_timer)
    then show ?thesis using False s(1) r(1,4) keep_trans [OF keep_trans [OF b(2) s(4)] r(2)]
      by (simp add: h refines_def events_append s(5) r(3))
  qed
qed

lemma cfg_keep: "as_keep L a a' \<Longrightarrow> as_cfg L a' = as_cfg L a"
proof -
  assume k: "as_keep L a a'"
  have "as_number L s a' = as_number L s a" if "s \<in> set as_delays \<or> s = [] \<or> s = RInvalidSuffix" for s
  proof -
    have "s \<noteq> RStateArmState \<and> s \<noteq> RStateSecondsRemaining" using that by (auto simp: as_delays_def suffixes)
    then show ?thesis using k by (simp add: as_keep_def as_number_def)
  qed
  moreover have "exitSuffix m \<in> set as_delays \<or> exitSuffix m = []" "entrySuffix m \<in> set as_delays \<or> entrySuffix m = []"
    "triggerSuffix m \<in> set as_delays \<or> triggerSuffix m = RInvalidSuffix" for m
    by (cases m; simp add: exitSuffix_def entrySuffix_def triggerSuffix_def as_delays_def)+
  ultimately have "as_number L (exitSuffix m) a' = as_number L (exitSuffix m) a" "as_number L (entrySuffix m) a' = as_number L (entrySuffix m) a"
    "as_number L (triggerSuffix m) a' = as_number L (triggerSuffix m) a" for m by blast+
  then show ?thesis by (simp add: as_cfg_def fun_eq_iff)
qed

lemma handle_refines:
  assumes inv: "as_inv L a" and t: "as_tState a \<le> t"
  shows "refines L a (spec_step (as_cfg L a) t (as_input L a e) (as_abs L a)) (as_handleEvent L now t e a)"
proof (cases "ev_resource e = RAlarmSystems \<and> ev_what e = RConfigArmMode")
  case True
  obtain i where i: "as_item L RConfigArmMode a = Some i" using inv by (auto simp: as_inv_def as_items_ok_def as_item_def)
  then obtain tx where tx: "as_text L RConfigArmMode a = Some tx" by (simp add: as_text_def)
  show ?thesis
  proof (cases "AS_ArmModeFromString tx = AS_ArmModeMax")
    case max: True
    have "as_handleEvent L now t e a = Some (a, [])" using True by (simp add: as_handleEvent_def tx max Let_def)
    moreover have "as_input L a e = Ignore" using True by (simp add: as_input_def tx max)
    ultimately show ?thesis using stay [OF inv] by (simp add: spec_step_def)
  next
    case False
    have "as_input L a e = Arm (AS_ArmModeFromString tx)" using True False by (cases "AS_ArmModeFromString tx") (simp_all add: as_input_def tx)
    then show ?thesis using arm_refines [OF inv False tx] True by simp
  qed
next
  case other: False
  have h: "as_handleEvent L now t e a = as_curHandler L now t e a" using other by (auto simp: as_handleEvent_def)
  show ?thesis
  proof (cases "ev_what e = REventTimerFired")
    case True
    then have "as_input L a e = Tick" using other by (auto simp: as_input_def)
    then show ?thesis using tick_refines [OF inv t True] by (simp add: h spec_step_def)
  next
    case no_tick: False
    show ?thesis
    proof (cases "as_curState a = StateArmed \<and> ev_what e = REventDeviceAlarm")
      case True
      obtain i where "as_number L RConfigAlarmSystemId a = Some i"
        using inv by (auto simp: as_inv_def as_items_ok_def as_item_def as_number_def)
      then obtain i where i: "as_id L a = Some i" by (simp add: as_id_def)
      have mask: "as_armMask a = ucast (targetArmMask (as_targetState a))" using inv by (simp add: as_inv_def)
      have inp: "as_input L a e = (if ev_num e AND as_armMask a \<noteq> 0 \<and> i = ev_num e AND AS_ID_MASK then Trip else Ignore)"
        using other no_tick True by (auto simp: as_input_def mask i)
      show ?thesis
      proof (cases "ev_num e AND as_armMask a \<noteq> 0 \<and> i = ev_num e AND AS_ID_MASK")
        case trip: True
        have c: "ct_state (as_abs L a) = StateArmed" using True by (simp add: as_abs_def)
        have "as_curHandler L now t e a =
            do { (a, e1) \<leftarrow> setSecondsRemaining L now (as_entryDelay a) a; (a, e2) \<leftarrow> as_setState L now StateEntryDelay a;
                 Some (startStateTimer t a, e1 @ e2) }"
          using True trip i by (simp add: as_curHandler_def stateArmed_def)
        then show ?thesis using trip_refines [OF inv conjunct1 [OF True], of t now] trip by (simp add: h inp spec_step_def c)
      next
        case False
        then have "as_curHandler L now t e a = Some (a, [])" using True i by (auto simp: as_curHandler_def stateArmed_def)
        moreover have "as_input L a e = Ignore" using inp by (simp only: False if_False)
        ultimately show ?thesis using stay [OF inv] by (simp add: h spec_step_def)
      qed
    next
      case False
      have "as_curHandler L now t e a = Some (a, [])" using False no_tick
        by (cases "as_curState a") (auto simp: as_curHandler_def stateDisarmed_def stateArmed_def stateExitDelay_def stateEntryDelay_def
            stateInAlarm_def stateArming_def)
      moreover have "spec_step (as_cfg L a) t (as_input L a e) (as_abs L a) = as_abs L a"
        using False no_tick other by (auto simp: as_input_def spec_step_def as_abs_def)
      ultimately show ?thesis using stay [OF inv] by (simp add: h)
    qed
  qed
qed


section \<open>Runs of the timer\<close>

fun as_ticks :: "'at res_lib \<Rightarrow> int \<Rightarrow> int list \<Rightarrow> alarm_system \<Rightarrow> alarm_system option" where
  "as_ticks L now [] a = Some a"
| "as_ticks L now (t # ts) a = do { (a, _) \<leftarrow> as_timerFired L now t a; as_ticks L now ts a }"

lemma timer_refines:
  "as_inv L a \<Longrightarrow> as_tState a \<le> t \<Longrightarrow> refines L a (spec_tick t (as_abs L a)) (as_timerFired L now t a)"
  using handle_refines [of L a t "EventNum RAlarmSystems REventTimerFired 0 0" now]
  by (simp add: as_timerFired_def as_input_def spec_step_def EventNum_def Event0_def suffixes)

lemma since_tick: "ct_since (spec_tick t c) = ct_since c \<or> ct_since (spec_tick t c) = t"
  by (simp add: spec_tick_def split: as_state.split)

lemma ticks_refine:
  assumes "as_inv L a" "sorted (as_tState a # ts)"
  shows "\<exists>a'. as_ticks L now ts a = Some a' \<and> as_inv L a' \<and> as_abs L a' = fold spec_tick ts (as_abs L a)"
  using assms
proof (induction ts arbitrary: a)
  case (Cons t ts)
  then have t: "as_tState a \<le> t" "sorted (t # ts)" by auto
  obtain a1 es where a1: "as_timerFired L now t a = Some (a1, es)" "as_inv L a1" "as_abs L a1 = spec_tick t (as_abs L a)"
    using timer_refines [OF Cons.prems(1) t(1), of now] by (auto simp: refines_def)
  have "as_tState a1 = ct_since (as_abs L a1)" "as_tState a = ct_since (as_abs L a)" by (simp_all add: as_abs_def)
  then have "as_tState a1 = as_tState a \<or> as_tState a1 = t" using since_tick [of t "as_abs L a"] a1(3) by simp
  then have "sorted (as_tState a1 # ts)" using Cons.prems(2) by auto
  then show ?case using Cons.IH [OF a1(2)] a1 by simp
qed auto

text \<open>The timer fires every second.\<close>

definition seconds_after :: "int \<Rightarrow> nat \<Rightarrow> int list" where
  "seconds_after t n = map (\<lambda>k. t + 1000 * (int k + 1)) [0..<n]"

lemma seconds_Suc: "seconds_after t (Suc n) = seconds_after t n @ [t + 1000 * (int n + 1)]"
  by (simp add: seconds_after_def)

lemma seconds_sorted: "s \<le> t \<Longrightarrow> sorted (s # seconds_after t n)"
  by (induction n) (auto simp: seconds_Suc sorted_append seconds_after_def)

lemma div1000: "(x * 1000 - (t + 1000 * (y + 1) - t)) div 1000 = x - (y + 1)" for x y t :: int
proof -
  have "x * 1000 - (t + 1000 * (y + 1) - t) = (x - (y + 1)) * 1000" by simp
  then show ?thesis by (simp only: nonzero_mult_div_cancel_right)
qed

lemma seconds_step: "fold spec_tick (seconds_after t (Suc n)) c = spec_tick (t + 1000 * (int n + 1)) (fold spec_tick (seconds_after t n) c)"
  by (simp add: seconds_Suc)

lemma spec_entry_time:
  assumes "ct_state c = StateEntryDelay" "ct_since c = t" "ct_secs c = ct_entry c" "0 \<le> ct_entry c" "0 \<le> ct_trigger c"
  shows "fold spec_tick (seconds_after t n) c =
    (if int n \<le> ct_entry c then c\<lparr>ct_secs := ct_entry c - int n\<rparr>
     else if int n \<le> ct_entry c + 1 + ct_trigger c then c\<lparr>ct_state := StateInAlarm, ct_since := t + 1000 * (ct_entry c + 1), ct_secs := 0\<rparr>
     else c\<lparr>ct_state := StateArmed, ct_since := t + 1000 * (ct_entry c + 1), ct_secs := 0\<rparr>)"
proof (induction n)
  case 0
  then show ?case using assms by (cases c) (simp add: seconds_after_def)
next
  case (Suc n)
  consider (a) "int n < ct_entry c" | (b) "int n = ct_entry c" | (c) "ct_entry c < int n" "int n < ct_entry c + 1 + ct_trigger c"
    | (d) "int n = ct_entry c + 1 + ct_trigger c" | (e) "ct_entry c + 1 + ct_trigger c < int n" by linarith
  then show ?case
    unfolding seconds_step Suc.IH by cases (use assms in \<open>simp_all add: spec_tick_def div1000\<close>)
qed

lemma spec_exit_time:
  assumes "ct_state c = StateExitDelay" "ct_since c = t" "ct_secs c = ct_exit c" "0 \<le> ct_exit c"
  shows "fold spec_tick (seconds_after t n) c =
    (if int n \<le> ct_exit c then c\<lparr>ct_secs := ct_exit c - int n\<rparr>
     else if ct_mode c = AS_ArmModeDisarmed then c\<lparr>ct_state := StateDisarmed, ct_secs := 0\<rparr>
     else if int n = ct_exit c + 1 then c\<lparr>ct_state := StateArming, ct_since := t + 1000 * (ct_exit c + 1), ct_secs := 0\<rparr>
     else c\<lparr>ct_state := StateArmed, ct_since := t + 1000 * (ct_exit c + 1), ct_secs := 0\<rparr>)"
proof (induction n)
  case 0
  then show ?case using assms by (cases c) (simp add: seconds_after_def)
next
  case (Suc n)
  consider (a) "int n < ct_exit c" | (b) "int n = ct_exit c" | (c) "int n = ct_exit c + 1" | (d) "ct_exit c + 1 < int n" by linarith
  then show ?case
    unfolding seconds_step Suc.IH by cases (use assms in \<open>simp_all add: spec_tick_def div1000\<close>)
qed

end
