(* ===== verification/Alarm_Setup.thy ===== *)
theory Alarm_Setup
  imports Alarm_Machine
begin

text \<open>
  Making, loading and controlling alarm systems (\<^verbatim>\<open>alarm_system.cpp\<close>): the constructor, the setters with
  \<^verbatim>\<open>didSetValue\<close> and the rows they store, the PIN code, \<open>start\<close>, and the list of all systems.
\<close>

section \<open>Setting up and controlling a system\<close>

text \<open>\<open>addItem(...)->setValue(number)\<close> of the constructor: the item a failed \<open>addItem\<close> would give is null.\<close>

definition rs_addNumber ::
  "'at res_lib \<Rightarrow> int \<Rightarrow> ApiDataType \<times> string \<times> s64 \<Rightarrow> resource \<Rightarrow> resource option" where
  "rs_addNumber L now p r =
     (case p of (type, s, n) \<Rightarrow>
        (case rs_addItem (al_rids L) type s r of (ok, r) \<Rightarrow>
           do { c_assert ok;
                Some (rs_update (al_rids L) s (\<lambda>i. snd (ri_setNumber (al_rids L) now n SourceUnknown i)) r) }))"

definition rs_addText ::
  "'at res_lib \<Rightarrow> int \<Rightarrow> string \<Rightarrow> string \<Rightarrow> 'at \<times> resource \<Rightarrow> ('at \<times> resource) option" where
  "rs_addText L now s txt st =
     (case st of (at, r) \<Rightarrow>
        (case rs_addItem (al_rids L) DataTypeString s r of (ok, r) \<Rightarrow> do {
           i \<leftarrow> (if ok then rs_item (al_rids L) s r else None);
           Some (case ri_setString (al_atoms L) (al_qt L) (al_rids L) now txt SourceUnknown at i of
                   (_, at, i) \<Rightarrow> (at, rs_update (al_rids L) s (\<lambda>_. i) r)) }))"

fun rs_addNumbers :: "'at res_lib \<Rightarrow> int \<Rightarrow> (ApiDataType \<times> string \<times> s64) list \<Rightarrow> resource \<Rightarrow> resource option" where
  "rs_addNumbers L now [] r = Some r"
| "rs_addNumbers L now (p # ps) r = do { r \<leftarrow> rs_addNumber L now p r; rs_addNumbers L now ps r }"

definition as_defaults :: "(ApiDataType \<times> string \<times> s64) list" where
  "as_defaults =
     [(DataTypeUInt32, RStateSecondsRemaining, 0), (DataTypeUInt8, RConfigDisarmedEntryDelay, 0), (DataTypeUInt8, RConfigDisarmedExitDelay, 0),
      (DataTypeUInt8, RConfigArmedStayEntryDelay, 120), (DataTypeUInt8, RConfigArmedStayExitDelay, 120),
      (DataTypeUInt8, RConfigArmedStayTriggerDuration, 120),
      (DataTypeUInt8, RConfigArmedNightEntryDelay, 120), (DataTypeUInt8, RConfigArmedNightExitDelay, 120),
      (DataTypeUInt8, RConfigArmedNightTriggerDuration, 120),
      (DataTypeUInt8, RConfigArmedAwayEntryDelay, 120), (DataTypeUInt8, RConfigArmedAwayExitDelay, 120),
      (DataTypeUInt8, RConfigArmedAwayTriggerDuration, 120)]"

definition as_newItems :: "'at res_lib \<Rightarrow> int \<Rightarrow> u32 \<Rightarrow> 'at \<Rightarrow> ('at \<times> resource) option" where
  "as_newItems L now asid at = do {
     r \<leftarrow> rs_new RAlarmSystems;
     r \<leftarrow> rs_addNumber L now (DataTypeUInt8, RConfigAlarmSystemId, ucast asid) r;
     let r = rs_update (al_rids L) RConfigAlarmSystemId (ri_setIsPublic False) r;
     r \<leftarrow> rs_addNumbers L now [(DataTypeUInt32, RStateArmState, ucast IAS_ACE_PANEL_STATUS_NOT_READY_TO_ARM), (DataTypeBool, RConfigConfigured, 0)] r;
     (at, r) \<leftarrow> rs_addText L now RConfigArmMode ''disarmed'' (at, r);
     (at, r) \<leftarrow> rs_addText L now RAttrId (digits (unat asid)) (at, r);
     let r = snd (rs_addItem (al_rids L) DataTypeString RAttrName r);
     r \<leftarrow> rs_addNumbers L now as_defaults r;
     Some (at, r) }"

definition as_new :: "'at res_lib \<Rightarrow> int \<Rightarrow> u32 \<Rightarrow> 'at \<Rightarrow> ('at \<times> alarm_system) option" where
  "as_new L now asid at = do {
     (at, r) \<leftarrow> as_newItems L now asid at;
     a \<leftarrow> updateTargetStateValues L
       \<lparr>as_res = r, as_targetState = AS_ArmModeDisarmed, as_exitDelay = 0, as_entryDelay = 0, as_triggerDuration = 0, as_armMask = 0,
        as_timer = False, as_tState = 0, as_curState = StateDisarmed\<rparr>;
     Some (at, a) }"

text \<open>\<open>didSetValue\<close>: the event about the item, and the row that is stored for the configuration.\<close>

record db_item =
  di_alarmSystemId :: u32
  di_suffix :: string
  di_value :: string
  di_timestamp :: u64

definition as_stored :: "string list" where
  "as_stored = [RAttrName, RConfigArmMode, RConfigDisarmedEntryDelay, RConfigDisarmedExitDelay,
     RConfigArmedAwayEntryDelay, RConfigArmedAwayExitDelay, RConfigArmedAwayTriggerDuration,
     RConfigArmedStayEntryDelay, RConfigArmedStayExitDelay, RConfigArmedStayTriggerDuration,
     RConfigArmedNightEntryDelay, RConfigArmedNightExitDelay, RConfigArmedNightTriggerDuration]"

definition sql_store_item :: "db_item \<Rightarrow> string" where
  "sql_store_item d =
     ''REPLACE INTO alarm_systems_ritems (suffix,as_id,value,timestamp) VALUES ('' @ [CHR 0x27] @ di_suffix d @ [CHR 0x27] @ '','' @ [CHR 0x27] @
     fmt_d (di_alarmSystemId d) @ [CHR 0x27] @ '','' @ [CHR 0x27] @ di_value d @ [CHR 0x27] @ '','' @ fmt_u64 (di_timestamp d) @ '')''"

definition DB_StoreAlarmSystemResourceItem :: "'db sqlite \<Rightarrow> db_item \<Rightarrow> 'db \<Rightarrow> bool \<times> 'db" where
  "DB_StoreAlarmSystemResourceItem q d db =
     (if \<not> db_open q \<or> di_value d = [] then (False, db) else sql_run q 200 (sql_store_item d) db)"

definition as_didSetValue :: "'at res_lib \<Rightarrow> 'db sqlite \<Rightarrow> u64 \<Rightarrow> string \<Rightarrow> alarm_system \<times> 'db \<Rightarrow> (event list \<times> 'db) option" where
  "as_didSetValue L q ts s st =
     (case st of (a, db) \<Rightarrow> do {
        i \<leftarrow> as_item L s a;
        e \<leftarrow> as_event L s i a;
        (if s ! 0 \<noteq> CHR ''c'' \<and> s ! 0 \<noteq> CHR ''a'' then Some ([e], db)
         else if s \<in> set as_stored then do {
           id \<leftarrow> as_id L a;
           let value = (if rd_type (ri_descriptor (al_rids L) i) = DataTypeString then ri_toString (al_fmt L) (al_rids L) i
                        else number_text (sint (ri_toNumber i)));
           Some ([e], snd (DB_StoreAlarmSystemResourceItem q
                             \<lparr>di_alarmSystemId = id, di_suffix = s, di_value = value, di_timestamp = ts\<rparr> db)) }
         else Some ([e], db)) })"

text \<open>\<open>setValue\<close> of the resource, for numbers and for texts, with its \<open>didSetValue\<close>.\<close>

definition as_setValueNumber ::
  "'at res_lib \<Rightarrow> 'db sqlite \<Rightarrow> int \<Rightarrow> u64 \<Rightarrow> string \<Rightarrow> s64 \<Rightarrow> alarm_system \<times> 'db \<Rightarrow> (bool \<times> alarm_system \<times> 'db \<times> event list) option" where
  "as_setValueNumber L q now ts s n st =
     (case st of (a, db) \<Rightarrow>
        (case rs_setNumber (al_rids L) now s n False (as_res a) of (ok, r) \<Rightarrow>
           (let a = a\<lparr>as_res := r\<rparr> in
            if ok then do { (es, db) \<leftarrow> as_didSetValue L q ts s (a, db); Some (True, a, db, es) } else Some (False, a, db, []))))"

definition as_setValueText ::
  "'at res_lib \<Rightarrow> 'db sqlite \<Rightarrow> int \<Rightarrow> u64 \<Rightarrow> string \<Rightarrow> string \<Rightarrow> 'at \<times> alarm_system \<times> 'db \<Rightarrow> (bool \<times> 'at \<times> alarm_system \<times> 'db \<times> event list) option" where
  "as_setValueText L q now ts s txt st =
     (case st of (at, a, db) \<Rightarrow>
        (case rs_setString (al_atoms L) (al_qt L) (al_fmt L) (al_rids L) now s txt False at (as_res a) of (ok, at, r) \<Rightarrow>
           (let a = a\<lparr>as_res := r\<rparr> in
            if ok then do { (es, db) \<leftarrow> as_didSetValue L q ts s (a, db); Some (True, at, a, db, es) } else Some (False, at, a, db, []))))"

definition as_setTargetArmMode ::
  "'at res_lib \<Rightarrow> 'db sqlite \<Rightarrow> int \<Rightarrow> u64 \<Rightarrow> AS_ArmMode \<Rightarrow> 'at \<times> alarm_system \<times> 'db \<Rightarrow> (bool \<times> 'at \<times> alarm_system \<times> 'db \<times> event list) option" where
  "as_setTargetArmMode L q now ts m st =
     (case st of (at, a, db) \<Rightarrow>
        if m = AS_ArmModeMax then Some (False, at, a, db, [])
        else if m = as_targetState a then Some (True, at, a, db, [])
        else do {
          txt \<leftarrow> AS_ArmModeToString m;
          (_, at, a, db, es) \<leftarrow> as_setValueText L q now ts RConfigArmMode txt (at, a, db);
          Some (True, at, a, db, es) })"

text \<open>The PIN code: loading a secret and checking a code against it are arguments (database and \<^verbatim>\<open>crypto/scrypt.cpp\<close>).\<close>

definition code0_key :: "u32 \<Rightarrow> string" where
  "code0_key asid = ''as_'' @ digits (unat asid) @ ''_code0''"

definition as_isValidCode ::
  "'at res_lib \<Rightarrow> as_entry list \<Rightarrow> (string \<Rightarrow> string option) \<Rightarrow> (string \<Rightarrow> string \<Rightarrow> bool) \<Rightarrow> string \<Rightarrow> u64 \<Rightarrow> alarm_system \<Rightarrow> bool option" where
  "as_isValidCode L devTable DB_LoadSecret CRYPTO_ScryptVerify code srcExtAddress a = do {
     id \<leftarrow> as_id L a;
     (let e = as_get srcExtAddress devTable in
      if srcExtAddress \<noteq> 0 \<and> (\<not> ae_isValid e \<or> (ucast (ae_alarmSystemId e) :: u32) \<noteq> id) then Some False
      else
        (case DB_LoadSecret (code0_key id) of
           Some secret \<Rightarrow> Some (CRYPTO_ScryptVerify secret code)
         | None \<Rightarrow> Some False)) }"

definition as_setCode ::
  "'at res_lib \<Rightarrow> 'db sqlite \<Rightarrow> (string \<Rightarrow> string) \<Rightarrow> (string \<Rightarrow> string \<Rightarrow> 'db \<Rightarrow> bool \<times> 'db) \<Rightarrow> int \<Rightarrow> u64 \<Rightarrow> int \<Rightarrow> string \<Rightarrow>
     alarm_system \<times> 'db \<Rightarrow> (bool \<times> alarm_system \<times> 'db \<times> event list) option" where
  "as_setCode L q scrypt DB_StoreSecret now ts index code st =
     (case st of (a, db) \<Rightarrow>
        if code = [] then Some (False, a, db, [])
        else do {
          id \<leftarrow> as_id L a;
          let uid = ''as_'' @ digits (unat id) @ ''_code'' @ number_text index;
          let secret = scrypt code;
          (if secret = [] then Some (False, a, db, [])
           else
             (case DB_StoreSecret uid secret db of (ok, db) \<Rightarrow>
                if ok then do { (_, a, db, es) \<leftarrow> as_setValueNumber L q now ts RConfigConfigured 1 (a, db); Some (True, a, db, es) }
                else Some (False, a, db, []))) })"

definition as_secondsRemaining :: "'at res_lib \<Rightarrow> alarm_system \<Rightarrow> u32 option" where
  "as_secondsRemaining L a =
     (if as_curState a = StateEntryDelay \<or> as_curState a = StateExitDelay
      then map_option ucast (as_number L RStateSecondsRemaining a) else Some 0)"

definition as_iasAcePanelStatus :: "'at res_lib \<Rightarrow> alarm_system \<Rightarrow> u8 option" where
  "as_iasAcePanelStatus L a = map_option (\<lambda>n. ucast (n AND 0xFF)) (as_number L RStateArmState a)"

definition as_armStateString :: "'at res_lib \<Rightarrow> alarm_system \<Rightarrow> string option" where
  "as_armStateString L a = map_option IAS_PanelStatusToString (as_iasAcePanelStatus L a)"

text \<open>\<open>start\<close>: the state of the machine follows the stored arm mode.\<close>

definition as_start :: "'at res_lib \<Rightarrow> (string \<Rightarrow> string option) \<Rightarrow> int \<Rightarrow> alarm_system \<Rightarrow> (alarm_system \<times> event list) option" where
  "as_start L DB_LoadSecret now a = do {
     armMode \<leftarrow> as_text L RConfigArmMode a;
     (a, e1) \<leftarrow>
       (if AS_ArmModeFromString armMode = AS_ArmModeMax then Some (a, [])
        else
          (let m = AS_ArmModeFromString armMode in
           as_setState L now (if m = AS_ArmModeDisarmed then StateDisarmed else StateArmed) (a\<lparr>as_targetState := m\<rparr>)));
     (a, e2) \<leftarrow> updateArmStateAndPanelStatus L now a;
     a \<leftarrow> updateTargetStateValues L a;
     id \<leftarrow> as_id L a;
     i \<leftarrow> as_item L RConfigConfigured a;
     let configured = (if DB_LoadSecret (code0_key id) \<noteq> None then 1 else 0);
     Some (as_write L RConfigConfigured (snd (ri_setNumber (al_rids L) now configured SourceUnknown i)) a, e1 @ e2) }"

section \<open>All systems\<close>

definition AS_GetAlarmSystem :: "'at res_lib \<Rightarrow> u32 \<Rightarrow> alarm_system list \<Rightarrow> alarm_system option" where
  "AS_GetAlarmSystem L asid systems = List.find (\<lambda>a. as_id L a = Some asid) systems"

definition AS_GetAlarmSystemForDevice :: "'at res_lib \<Rightarrow> as_entry list \<Rightarrow> u64 \<Rightarrow> alarm_system list \<Rightarrow> alarm_system option" where
  "AS_GetAlarmSystemForDevice L devTable extAddress systems =
     List.find (\<lambda>a. let e = as_get extAddress devTable in ae_isValid e \<and> as_id L a = Some (ucast (ae_alarmSystemId e))) systems"

text \<open>
  \<open>DB_LoadAlarmSystems\<close>: the rows of each system are set in order, numbers with \<^verbatim>\<open>strtol\<close>; items of other types
  are left alone. Events emitted while loading go to the emitter as usual.
\<close>

definition c_strtol10 :: "string \<Rightarrow> s64" where
  "c_strtol10 s =
     (let (neg, s) = skip_sign (dropWhile c_isspace s); n = int (scan_num 10 s 0) in
      word_of_int (if neg then max (- n) (- (2 ^ 63)) else min n (2 ^ 63 - 1)))"

definition as_loadItem :: "'at res_lib \<Rightarrow> int \<Rightarrow> string \<times> string \<Rightarrow> 'at \<times> alarm_system \<Rightarrow> 'at \<times> alarm_system" where
  "as_loadItem L now row st =
     (case row of (sfx, value) \<Rightarrow> (case st of (at, a) \<Rightarrow>
        if value = [] then (at, a)
        else
          (case as_item L sfx a of
             None \<Rightarrow> (at, a)
           | Some i \<Rightarrow>
               if rd_type (ri_descriptor (al_rids L) i) = DataTypeString then
                 (case ri_setString (al_atoms L) (al_qt L) (al_rids L) now value SourceUnknown at i of (_, at, i) \<Rightarrow> (at, as_write L sfx i a))
               else if rd_type (ri_descriptor (al_rids L) i) = DataTypeUInt8 then
                 (at, as_write L sfx (snd (ri_setNumber (al_rids L) now (c_strtol10 value) SourceUnknown i)) a)
               else (at, a))))"

fun as_loadSystems ::
  "'at res_lib \<Rightarrow> (string \<Rightarrow> string option) \<Rightarrow> (u32 \<Rightarrow> (string \<times> string) list) \<Rightarrow> int \<Rightarrow> u32 list \<Rightarrow>
     'at \<times> alarm_system list \<Rightarrow> ('at \<times> alarm_system list \<times> event list) option" where
  "as_loadSystems L DB_LoadSecret rows now [] st = Some (fst st, snd st, [])"
| "as_loadSystems L DB_LoadSecret rows now (i # ids) st =
     (if rows i = [] then as_loadSystems L DB_LoadSecret rows now ids st
      else do {
        (at, a) \<leftarrow> as_new L now i (fst st);
        let (at, a) = fold (as_loadItem L now) (rows i) (at, a);
        (a, e1) \<leftarrow> as_start L DB_LoadSecret now a;
        (at, systems, e2) \<leftarrow> as_loadSystems L DB_LoadSecret rows now ids (at, snd st @ [a]);
        Some (at, systems, e1 @ e2) })"

definition DB_LoadAlarmSystems ::
  "'at res_lib \<Rightarrow> (string \<Rightarrow> string option) \<Rightarrow> (u32 \<Rightarrow> (string \<times> string) list) \<Rightarrow> int \<Rightarrow>
     'at \<times> alarm_system list \<Rightarrow> ('at \<times> alarm_system list \<times> event list) option" where
  "DB_LoadAlarmSystems L DB_LoadSecret rows now st = as_loadSystems L DB_LoadSecret rows now [0, 1, 2, 3] st"

definition AS_InitDefaultAlarmSystem ::
  "'at res_lib \<Rightarrow> 'db sqlite \<Rightarrow> (u64 \<Rightarrow> 'db \<Rightarrow> 'db) \<Rightarrow> int \<Rightarrow> u64 \<Rightarrow> 'at \<times> alarm_system list \<times> 'db \<Rightarrow>
     ('at \<times> alarm_system list \<times> 'db \<times> event list) option" where
  "AS_InitDefaultAlarmSystem L q DB_StoreAlarmSystem now ts st =
     (case st of (at, systems, db) \<Rightarrow>
        if AS_GetAlarmSystem L 1 systems \<noteq> None then Some (at, systems, db, [])
        else do {
          (at, a) \<leftarrow> as_new L now 1 at;
          let db = DB_StoreAlarmSystem ts db;
          (_, at, a, db, es) \<leftarrow> as_setValueText L q now ts RAttrName ''default'' (at, a, db);
          Some (at, systems @ [a], db, es) })"

section \<open>Making a resource\<close>

text \<open>A library of the program: its table of descriptors, and what the code relies on in Qt's texts.\<close>

definition lib_ok :: "'at res_lib \<Rightarrow> bool" where
  "lib_ok L \<longleftrightarrow> al_rids L = initResourceDescriptors \<and> (\<forall>s. qv_toString (al_qt L) (QString s) = s)"

lemma rids_ok: "lib_ok L \<Longrightarrow> table_ok (al_rids L) \<and> length (al_rids L) \<le> 65536"
proof -
  have "length initResourceDescriptors \<le> 65536"
    by (simp add: initResourceDescriptors_def descriptors_attr_def descriptors_state_def descriptors_cap_def descriptors_config_def)
  then show "lib_ok L \<Longrightarrow> table_ok (al_rids L) \<and> length (al_rids L) \<le> 65536" using table_ok_init by (simp add: lib_ok_def)
qed

lemma added_item:
  assumes t: "table_ok ds" "length ds \<le> 65536" "rs_ok ds r" and d: "d \<in> set ds" and none: "rs_item ds (rd_suffix d) r = None"
  obtains r' where "rs_addItem ds (rd_type d) (rd_suffix d) r = (True, r')" "rs_ok ds r'" "rs_prefix r' = rs_prefix r"
    "\<And>u. rs_item ds u r' = (if u = rd_suffix d then Some (ri_new ds d) else rs_item ds u r)" "ri_descriptor ds (ri_new ds d) = d"
proof -
  have ds: "distinct (map rd_suffix ds)" using t(1) by (simp add: table_ok_def)
  have same: "d' = d" if "d' \<in> set ds" "rd_suffix d' = rd_suffix d" for d'
    using ds d that by (auto simp: distinct_map inj_on_def)
  have n: "ri_descriptor ds (ri_new ds d) = d" by (rule descriptor_new [OF ds t(2) d])
  show ?thesis
    by (cases rule: add_cases [OF ds t(2,3), of "rd_suffix d" "rd_type d"]) (use none d same that n in \<open>auto\<close>)
qed

lemma add_number:
  assumes t: "table_ok (al_rids L)" "length (al_rids L) \<le> 65536" "rs_ok (al_rids L) r" and d: "d \<in> set (al_rids L)"
    and none: "rs_item (al_rids L) (rd_suffix d) r = None"
  obtains r' i where "rs_addNumber L now (rd_type d, rd_suffix d, n) r = Some r'" "rs_ok (al_rids L) r'" "rs_prefix r' = rs_prefix r"
    "\<And>u. rs_item (al_rids L) u r' = (if u = rd_suffix d then Some i else rs_item (al_rids L) u r)"
    "ri_descriptor (al_rids L) i = d" "no_range d \<or> in_range d (sint n) \<Longrightarrow> ri_num i = n"
proof -
  let ?ds = "al_rids L"
  obtain r1 where r1: "rs_addItem ?ds (rd_type d) (rd_suffix d) r = (True, r1)" "rs_ok ?ds r1" "rs_prefix r1 = rs_prefix r"
    "\<And>u. rs_item ?ds u r1 = (if u = rd_suffix d then Some (ri_new ?ds d) else rs_item ?ds u r)" "ri_descriptor ?ds (ri_new ?ds d) = d"
    using added_item [OF t d none] by blast
  let ?f = "\<lambda>i. snd (ri_setNumber ?ds now n SourceUnknown i)"
  have f: "ri_descriptor ?ds (?f i) = ri_descriptor ?ds i" for i
    using setNumber_suffix [of ?ds now n SourceUnknown i "fst (ri_setNumber ?ds now n SourceUnknown i)" "?f i"] by simp
  let ?r = "rs_update ?ds (rd_suffix d) ?f r1"
  have ok: "rs_ok ?ds ?r" using r1(2) f unfolding rs_ok_def by (subst names_update) auto
  have item: "rs_item ?ds u ?r = (if u = rd_suffix d then Some (?f (ri_new ?ds d)) else rs_item ?ds u r)" for u
    using rs_item_update [of ?ds "rd_suffix d" ?f u r1] f r1(4) by auto
  have num: "ri_num (?f (ri_new ?ds d)) = n" if "no_range d \<or> in_range d (sint n)"
    using that r1(5) by (auto simp: ri_setNumber_def Let_def)
  have "rs_prefix ?r = rs_prefix r" using r1(3) by (simp add: rs_update_def)
  then show ?thesis using that [of ?r "?f (ri_new ?ds d)"] ok item num f r1(1,5) by (simp add: rs_addNumber_def)
qed

text \<open>Several numbers; \<open>dd\<close> gives the descriptor of a name.\<close>

lemma add_numbers:
  assumes t: "table_ok (al_rids L)" "length (al_rids L) \<le> 65536" "rs_ok (al_rids L) r"
    and d: "\<forall>(ty, s, n) \<in> set ps. \<exists>d \<in> set (al_rids L). rd_suffix d = s \<and> rd_type d = ty"
    and none: "\<forall>(ty, s, n) \<in> set ps. rs_item (al_rids L) s r = None" and dist: "distinct (map (\<lambda>(ty, s, n). s) ps)"
  shows "\<exists>r'. rs_addNumbers L now ps r = Some r' \<and> rs_ok (al_rids L) r' \<and> rs_prefix r' = rs_prefix r \<and>
    (\<forall>u. u \<notin> (\<lambda>(ty, s, n). s) ` set ps \<longrightarrow> rs_item (al_rids L) u r' = rs_item (al_rids L) u r) \<and>
    (\<forall>(ty, s, n) \<in> set ps. \<exists>i. rs_item (al_rids L) s r' = Some i \<and>
       (no_range (ri_descriptor (al_rids L) i) \<or> in_range (ri_descriptor (al_rids L) i) (sint n) \<longrightarrow> ri_num i = n) \<and>
       ri_descriptor (al_rids L) i \<in> set (al_rids L) \<and> rd_suffix (ri_descriptor (al_rids L) i) = s)"
  using t(3) d none dist
proof (induction ps arbitrary: r)
  case (Cons p ps)
  obtain ty s n where p: "p = (ty, s, n)" by (cases p)
  obtain d where d: "d \<in> set (al_rids L)" "rd_suffix d = s" "rd_type d = ty" using Cons.prems(2) p by auto
  have none: "rs_item (al_rids L) (rd_suffix d) r = None" using Cons.prems(3) p d by auto
  obtain r1 i where r1: "rs_addNumber L now (ty, s, n) r = Some r1" "rs_ok (al_rids L) r1" "rs_prefix r1 = rs_prefix r"
    "\<And>u. rs_item (al_rids L) u r1 = (if u = s then Some i else rs_item (al_rids L) u r)"
    "ri_descriptor (al_rids L) i = d" "no_range d \<or> in_range d (sint n) \<Longrightarrow> ri_num i = n"
    using add_number [OF t(1,2) Cons.prems(1) d(1) none, of now n] d by auto
  have s: "s \<notin> (\<lambda>(ty, s, n). s) ` set ps" using Cons.prems(4) p by auto
  have "\<forall>(ty, u, m) \<in> set ps. rs_item (al_rids L) u r1 = None" using Cons.prems(3) s p by (auto simp: r1(4) image_iff split_def)
  moreover have "\<forall>(ty, u, m) \<in> set ps. \<exists>d \<in> set (al_rids L). rd_suffix d = u \<and> rd_type d = ty" using Cons.prems(2) by auto
  ultimately obtain r2 where r2: "rs_addNumbers L now ps r1 = Some r2" "rs_ok (al_rids L) r2" "rs_prefix r2 = rs_prefix r1"
    "\<forall>u. u \<notin> (\<lambda>(ty, s, n). s) ` set ps \<longrightarrow> rs_item (al_rids L) u r2 = rs_item (al_rids L) u r1"
    "\<forall>(ty, s, n) \<in> set ps. \<exists>i. rs_item (al_rids L) s r2 = Some i \<and>
       (no_range (ri_descriptor (al_rids L) i) \<or> in_range (ri_descriptor (al_rids L) i) (sint n) \<longrightarrow> ri_num i = n) \<and>
       ri_descriptor (al_rids L) i \<in> set (al_rids L) \<and> rd_suffix (ri_descriptor (al_rids L) i) = s"
    using Cons.IH [OF r1(2)] Cons.prems(4) by auto
  have it: "rs_item (al_rids L) s r2 = Some i" using r2(4) s r1(4) by simp
  show ?case
  proof (intro exI [of _ r2] conjI)
    show "rs_addNumbers L now (p # ps) r = Some r2" using r1(1) r2(1) p by simp
    show "\<forall>u. u \<notin> (\<lambda>(ty, s, n). s) ` set (p # ps) \<longrightarrow> rs_item (al_rids L) u r2 = rs_item (al_rids L) u r"
      using r2(4) r1(4) p by auto
    show "\<forall>(ty, s, n) \<in> set (p # ps). \<exists>i. rs_item (al_rids L) s r2 = Some i \<and>
       (no_range (ri_descriptor (al_rids L) i) \<or> in_range (ri_descriptor (al_rids L) i) (sint n) \<longrightarrow> ri_num i = n) \<and>
       ri_descriptor (al_rids L) i \<in> set (al_rids L) \<and> rd_suffix (ri_descriptor (al_rids L) i) = s"
      using r2(5) it r1(5,6) d p by auto
  qed (use r1 r2 in simp_all)
qed simp

lemma setText_item:
  assumes "rd_type (ri_descriptor ds i) = DataTypeString" "ri_str i \<noteq> None"
    and i': "ri_setString ops qt ds now tx src at i = (ok, at', i')"
  shows "ri_str i' = Some (qs_trimmed qt (qv_toString qt (QString tx))) \<and> ri_descriptor ds i' = ri_descriptor ds i \<and> ok"
proof -
  have cong: "ri_descriptor ds j = ri_descriptor ds i" if "ri_ridIndex j = ri_ridIndex i" for j using that by (simp add: ri_descriptor_def)
  obtain old where "ri_str i = Some old" using assms(2) by auto
  then show ?thesis using assms(1) i'
    by (auto simp: ri_setString_def ri_setVariant_def ri_setText_def ri_setItemString_def Let_def ri_descriptor_def split: if_split_asm prod.split_asm)
qed

lemma add_text:
  assumes t: "table_ok (al_rids L)" "length (al_rids L) \<le> 65536" "rs_ok (al_rids L) r" and d: "d \<in> set (al_rids L)" "rd_type d = DataTypeString"
    and none: "rs_item (al_rids L) (rd_suffix d) r = None"
  obtains at' r' i where "rs_addText L now (rd_suffix d) tx (at, r) = Some (at', r')" "rs_ok (al_rids L) r'" "rs_prefix r' = rs_prefix r"
    "\<And>u. rs_item (al_rids L) u r' = (if u = rd_suffix d then Some i else rs_item (al_rids L) u r)"
    "ri_str i = Some (qs_trimmed (al_qt L) (qv_toString (al_qt L) (QString tx)))" "ri_descriptor (al_rids L) i = d"
proof -
  let ?ds = "al_rids L"
  obtain r1 where r1: "rs_addItem ?ds (rd_type d) (rd_suffix d) r = (True, r1)" "rs_ok ?ds r1" "rs_prefix r1 = rs_prefix r"
    "\<And>u. rs_item ?ds u r1 = (if u = rd_suffix d then Some (ri_new ?ds d) else rs_item ?ds u r)" "ri_descriptor ?ds (ri_new ?ds d) = d"
    using added_item [OF t d(1) none] by blast
  obtain ok at' i where s: "ri_setString (al_atoms L) (al_qt L) ?ds now tx SourceUnknown at (ri_new ?ds d) = (ok, at', i)" by (metis prod_cases3)
  have "ri_str (ri_new ?ds d) \<noteq> None" using d(2) by (simp add: ri_new_def has_text_def)
  then have i: "ri_str i = Some (qs_trimmed (al_qt L) (qv_toString (al_qt L) (QString tx)))" "ri_descriptor ?ds i = d"
    using setText_item [OF _ _ s] r1(5) d(2) by auto
  let ?r = "rs_update ?ds (rd_suffix d) (\<lambda>_. i) r1"
  have sfx: "ri_suffix ?ds i = rd_suffix d" using i by simp
  have "rs_ok ?ds ?r" using r1(2) unfolding rs_ok_def by (subst names_update) (rule sfx)
  moreover have "rs_item ?ds u ?r = (if u = rd_suffix d then Some i else rs_item ?ds u r)" for u
    using rs_item_update_const [OF sfx, of u r1] r1(4) by auto
  moreover have "rs_prefix ?r = rs_prefix r" using r1(3) by (simp add: rs_update_def)
  moreover have "rs_addText L now (rd_suffix d) tx (at, r) = Some (at', ?r)" using r1(1) r1(4) s d(2) by (simp add: rs_addText_def)
  ultimately show ?thesis using that i by blast
qed

section \<open>A new system\<close>

definition as_descriptors :: "descriptor list" where
  "as_descriptors =
     [rid DataTypeUInt8 QVDouble RConfigAlarmSystemId, rid DataTypeUInt32 QVString RStateArmState, rid DataTypeBool QVBool RConfigConfigured,
      rid DataTypeString QVString RConfigArmMode, rid DataTypeString QVString RAttrId, rid DataTypeString QVString RAttrName,
      rid DataTypeUInt32 QVDouble RStateSecondsRemaining,
      rid_range DataTypeUInt8 QVDouble RConfigDisarmedEntryDelay 0 255, rid_range DataTypeUInt8 QVDouble RConfigDisarmedExitDelay 0 255,
      rid_range DataTypeUInt8 QVDouble RConfigArmedStayEntryDelay 0 255, rid_range DataTypeUInt8 QVDouble RConfigArmedStayExitDelay 0 255,
      rid_range DataTypeUInt8 QVDouble RConfigArmedStayTriggerDuration 0 255,
      rid_range DataTypeUInt8 QVDouble RConfigArmedNightEntryDelay 0 255, rid_range DataTypeUInt8 QVDouble RConfigArmedNightExitDelay 0 255,
      rid_range DataTypeUInt8 QVDouble RConfigArmedNightTriggerDuration 0 255,
      rid_range DataTypeUInt8 QVDouble RConfigArmedAwayEntryDelay 0 255, rid_range DataTypeUInt8 QVDouble RConfigArmedAwayExitDelay 0 255,
      rid_range DataTypeUInt8 QVDouble RConfigArmedAwayTriggerDuration 0 255]"

lemma as_descriptors_in: "set as_descriptors \<subseteq> set initResourceDescriptors"
  by (simp add: as_descriptors_def initResourceDescriptors_def descriptors_attr_def descriptors_state_def descriptors_cap_def descriptors_config_def)

lemma desc_in: "lib_ok L \<Longrightarrow> d \<in> set as_descriptors \<Longrightarrow> d \<in> set (al_rids L)"
  using as_descriptors_in by (auto simp: lib_ok_def)

lemma desc_of: "lib_ok L \<Longrightarrow> d \<in> set (al_rids L) \<Longrightarrow> d' \<in> set as_descriptors \<Longrightarrow> rd_suffix d = rd_suffix d' \<Longrightarrow> d = d'"
  using rids_ok [of L] desc_in [of L d'] by (auto simp: table_ok_def distinct_map inj_on_def)

lemma in_descs: "(\<exists>d \<in> set (al_rids L). rd_suffix d = s \<and> rd_type d = ty)" if "lib_ok L" "\<exists>d \<in> set as_descriptors. rd_suffix d = s \<and> rd_type d = ty"
  using that desc_in by blast

abbreviation as_default_names :: "string set" where
  "as_default_names \<equiv> (\<lambda>(ty, s, n). s) ` set as_defaults"

lemma default_name_set:
  "as_default_names = insert RStateSecondsRemaining (set as_delays \<union> {RConfigArmedStayTriggerDuration, RConfigArmedNightTriggerDuration})"
  by (auto simp: as_defaults_def as_delays_def)

lemma delay_default: "s \<in> set as_delays \<Longrightarrow> \<exists>ty n. (ty, s, n) \<in> set as_defaults"
proof -
  assume "s \<in> set as_delays"
  then have "s \<in> as_default_names" by (simp add: default_name_set)
  then show ?thesis by auto
qed

lemma defaults_described: "\<forall>(ty, s, n) \<in> set as_defaults. \<exists>d \<in> set as_descriptors. rd_suffix d = s \<and> rd_type d = ty"
  by (simp add: as_defaults_def as_descriptors_def rid_def rid_range_def)

lemma defaults_ranges:
  "\<forall>(ty, s, n) \<in> set as_defaults. s \<noteq> RStateSecondsRemaining \<longrightarrow> (n = 0 \<or> n = 120) \<and> (\<exists>d \<in> set as_descriptors. rd_suffix d = s \<and> rd_min d = 0 \<and> rd_max d = 255)"
  by (simp add: as_defaults_def as_descriptors_def rid_def rid_range_def)

lemma defaults_distinct: "distinct (map (\<lambda>(ty, s, n). s) as_defaults)"
  by (simp add: as_defaults_def suffixes)

definition early_names :: "string set" where
  "early_names = {RStateArmState, RConfigArmMode, RAttrId, RAttrName, RConfigAlarmSystemId, RConfigConfigured}"

lemma defaults_late: "\<forall>(ty, s, n) \<in> set as_defaults. s \<notin> early_names"
  by (simp add: as_defaults_def early_names_def suffixes)

text \<open>The items after the constructor.\<close>

lemma add_number_ex:
  assumes "table_ok (al_rids L)" "length (al_rids L) \<le> 65536" "rs_ok (al_rids L) r" "d \<in> set (al_rids L)"
    "rs_item (al_rids L) s r = None" "rd_suffix d = s" "rd_type d = ty" "no_range d"
  shows "\<exists>r' i. rs_addNumber L now (ty, s, n) r = Some r' \<and> rs_ok (al_rids L) r' \<and> rs_prefix r' = rs_prefix r \<and>
    (\<forall>u. rs_item (al_rids L) u r' = (if u = s then Some i else rs_item (al_rids L) u r)) \<and> ri_num i = n"
proof -
  have "rs_item (al_rids L) (rd_suffix d) r = None" using assms by simp
  then show ?thesis
    using add_number [OF assms(1-4), of now n] assms(6-8) by metis
qed

lemma add_text_ex:
  assumes "table_ok (al_rids L)" "length (al_rids L) \<le> 65536" "rs_ok (al_rids L) r" "rid DataTypeString QVString s \<in> set (al_rids L)"
    "rs_item (al_rids L) s r = None"
  shows "\<exists>at' r' i. rs_addText L now s tx (at, r) = Some (at', r') \<and> rs_ok (al_rids L) r' \<and> rs_prefix r' = rs_prefix r \<and>
    (\<forall>u. rs_item (al_rids L) u r' = (if u = s then Some i else rs_item (al_rids L) u r)) \<and>
    ri_str i = Some (qs_trimmed (al_qt L) (qv_toString (al_qt L) (QString tx))) \<and> ri_descriptor (al_rids L) i = rid DataTypeString QVString s"
proof -
  have s: "rd_suffix (rid DataTypeString QVString s) = s" "rd_type (rid DataTypeString QVString s) = DataTypeString" by (simp_all add: rid_def rid_range_def)
  have "rs_item (al_rids L) (rd_suffix (rid DataTypeString QVString s)) r = None" using assms s by simp
  then show ?thesis using add_text [OF assms(1-4) s(2), of now tx at] s by metis
qed

lemma added_item_ex:
  assumes "table_ok ds" "length ds \<le> 65536" "rs_ok ds r" "rid DataTypeString QVString s \<in> set ds" "rs_item ds s r = None"
  shows "\<exists>r' i. rs_addItem ds DataTypeString s r = (True, r') \<and> rs_ok ds r' \<and> rs_prefix r' = rs_prefix r \<and>
    (\<forall>u. rs_item ds u r' = (if u = s then Some i else rs_item ds u r))"
proof -
  have s: "rd_suffix (rid DataTypeString QVString s) = s" "rd_type (rid DataTypeString QVString s) = DataTypeString" by (simp_all add: rid_def rid_range_def)
  have "rs_item ds (rd_suffix (rid DataTypeString QVString s)) r = None" using assms s by simp
  then show ?thesis using added_item [OF assms(1-4)] s by metis
qed

lemma new_resource:
  assumes L: "lib_ok L"
  obtains at' r where
    "as_newItems L now asid at = Some (at', r)"
    "as_items_ok L r"
    "\<exists>i. rs_item (al_rids L) RConfigArmMode r = Some i \<and> ri_str i = Some (qs_trimmed (al_qt L) ''disarmed'') \<and>
       rd_type (ri_descriptor (al_rids L) i) = DataTypeString"
    "\<exists>i. rs_item (al_rids L) RConfigAlarmSystemId r = Some i \<and> ri_num i = ucast asid"
    "\<exists>i. rs_item (al_rids L) RStateArmState r = Some i \<and> ri_num i = 6"
proof -
  let ?ds = "al_rids L"
  have t: "table_ok ?ds" "length ?ds \<le> 65536" using rids_ok [OF L] by auto
  have tr: "qv_toString (al_qt L) (QString s) = s" for s using L by (simp add: lib_ok_def)
  define r0 where "r0 = \<lparr>rs_prefix = RAlarmSystems, rs_items = [], rs_stateChanges = []\<rparr>"
  have new: "rs_new RAlarmSystems = Some r0" by (simp add: rs_new_def r0_def)
  have r0: "rs_ok ?ds r0" "rs_prefix r0 = RAlarmSystems" "\<And>u. rs_item ?ds u r0 = None"
    by (simp_all add: r0_def rs_ok_def names_of_def rs_item_def)
  have d1: "rid DataTypeUInt8 QVDouble RConfigAlarmSystemId \<in> set ?ds" by (rule desc_in [OF L]) (simp add: as_descriptors_def)
  obtain r1 i1 where r1: "rs_addNumber L now (DataTypeUInt8, RConfigAlarmSystemId, ucast asid) r0 = Some r1" "rs_ok ?ds r1" "rs_prefix r1 = RAlarmSystems"
    "\<forall>u. rs_item ?ds u r1 = (if u = RConfigAlarmSystemId then Some i1 else rs_item ?ds u r0)"
    "ri_num i1 = ucast asid"
    using add_number_ex [OF t r0(1) d1 r0(3), where ty = DataTypeUInt8 and now = now and n = "ucast asid"] r0 by (auto simp: rid_def rid_range_def no_range_def)
  define r2 where "r2 = rs_update ?ds RConfigAlarmSystemId (ri_setIsPublic False) r1"
  have pub: "ri_suffix ?ds (ri_setIsPublic False i) = ri_suffix ?ds i" for i by (simp add: ri_setIsPublic_def ri_descriptor_def)
  have r2: "rs_ok ?ds r2" "rs_prefix r2 = RAlarmSystems"
    "\<And>u. rs_item ?ds u r2 = (if u = RConfigAlarmSystemId then Some (ri_setIsPublic False i1) else None)"
  proof -
    show "rs_ok ?ds r2" using r1(2) unfolding rs_ok_def r2_def by (subst names_update) (simp_all add: pub)
    show "rs_prefix r2 = RAlarmSystems" using r1(3) by (simp add: r2_def rs_update_def)
    show "rs_item ?ds u r2 = (if u = RConfigAlarmSystemId then Some (ri_setIsPublic False i1) else None)" for u
      using rs_item_update [of ?ds RConfigAlarmSystemId "ri_setIsPublic False" u r1] r1(4) r0(3) by (simp add: pub r2_def)
  qed
  let ?two = "[(DataTypeUInt32, RStateArmState, ucast IAS_ACE_PANEL_STATUS_NOT_READY_TO_ARM :: s64), (DataTypeBool, RConfigConfigured, 0)]"
  have "\<forall>(ty, s, n) \<in> set ?two. \<exists>d \<in> set ?ds. rd_suffix d = s \<and> rd_type d = ty"
    using in_descs [OF L, of RStateArmState DataTypeUInt32] in_descs [OF L, of RConfigConfigured DataTypeBool]
    by (simp add: as_descriptors_def rid_def rid_range_def)
  moreover have "\<forall>(ty, s, n) \<in> set ?two. rs_item ?ds s r2 = None" using r2(3) by (simp add: suffixes)
  moreover have "distinct (map (\<lambda>(ty, s, n). s) ?two)" by (simp add: suffixes)
  ultimately obtain r3 where r3: "rs_addNumbers L now ?two r2 = Some r3" "rs_ok ?ds r3" "rs_prefix r3 = RAlarmSystems"
    "\<forall>u. u \<noteq> RStateArmState \<and> u \<noteq> RConfigConfigured \<longrightarrow> rs_item ?ds u r3 = rs_item ?ds u r2"
    and two: "\<exists>i. rs_item ?ds RStateArmState r3 = Some i \<and>
       (no_range (ri_descriptor ?ds i) \<or> in_range (ri_descriptor ?ds i) (sint (ucast IAS_ACE_PANEL_STATUS_NOT_READY_TO_ARM :: s64)) \<longrightarrow> ri_num i = ucast IAS_ACE_PANEL_STATUS_NOT_READY_TO_ARM) \<and>
       ri_descriptor ?ds i \<in> set ?ds \<and> rd_suffix (ri_descriptor ?ds i) = RStateArmState" "\<exists>i. rs_item ?ds RConfigConfigured r3 = Some i"
    using add_numbers [OF t r2(1), of ?two now] r2(2) by auto
  have "\<exists>i. rs_item ?ds RStateArmState r3 = Some i \<and> no_range (ri_descriptor ?ds i) \<and> ri_num i = 6"
  proof -
    obtain i where i: "rs_item ?ds RStateArmState r3 = Some i" "ri_descriptor ?ds i \<in> set ?ds" "rd_suffix (ri_descriptor ?ds i) = RStateArmState"
       "no_range (ri_descriptor ?ds i) \<longrightarrow> ri_num i = ucast IAS_ACE_PANEL_STATUS_NOT_READY_TO_ARM" using two(1) by auto
    have "ri_descriptor ?ds i = rid DataTypeUInt32 QVString RStateArmState"
      by (rule desc_of [OF L i(2)]) (simp_all add: as_descriptors_def i(3) rid_def rid_range_def)
    then have "no_range (ri_descriptor ?ds i)" by (simp add: no_range_def rid_def rid_range_def)
    then show ?thesis using i by (auto simp: IAS_ACE_PANEL_STATUS_NOT_READY_TO_ARM_def)
  qed
  then obtain ia where ia: "rs_item ?ds RStateArmState r3 = Some ia" "no_range (ri_descriptor ?ds ia)" "ri_num ia = 6" by blast
  have ds: "rid DataTypeString QVString s \<in> set ?ds" if "s \<in> {RConfigArmMode, RAttrId, RAttrName}" for s
    by (rule desc_in [OF L]) (use that in \<open>auto simp: as_descriptors_def\<close>)
  have n4: "rs_item ?ds RConfigArmMode r3 = None" using r3(4) r2(3) by (simp add: suffixes)
  obtain at4 r4 i4 where r4: "rs_addText L now RConfigArmMode ''disarmed'' (at, r3) = Some (at4, r4)" "rs_ok ?ds r4" "rs_prefix r4 = RAlarmSystems"
    "\<forall>u. rs_item ?ds u r4 = (if u = RConfigArmMode then Some i4 else rs_item ?ds u r3)"
    "ri_str i4 = Some (qs_trimmed (al_qt L) ''disarmed'')" "ri_descriptor ?ds i4 = rid DataTypeString QVString RConfigArmMode"
    using add_text_ex [OF t r3(2) ds n4, of now "''disarmed''" at] r3(3) by (auto simp: tr)
  have n5: "rs_item ?ds RAttrId r4 = None" using r4(4) r3(4) r2(3) by (simp add: suffixes)
  obtain at5 r5 i5 where r5: "rs_addText L now RAttrId (digits (unat asid)) (at4, r4) = Some (at5, r5)" "rs_ok ?ds r5" "rs_prefix r5 = RAlarmSystems"
    "\<forall>u. rs_item ?ds u r5 = (if u = RAttrId then Some i5 else rs_item ?ds u r4)"
    using add_text_ex [OF t r4(2) ds n5, of now "digits (unat asid)" at4] r4(3) by (auto simp: tr)
  have n6: "rs_item ?ds RAttrName r5 = None"
    using r5(4) r4(4) r3(4) r2(3) by (simp add: suffixes)
  obtain r6 i6 where r6: "rs_addItem ?ds DataTypeString RAttrName r5 = (True, r6)" "rs_ok ?ds r6" "rs_prefix r6 = RAlarmSystems"
    "\<forall>u. rs_item ?ds u r6 = (if u = RAttrName then Some i6 else rs_item ?ds u r5)"
    using added_item_ex [OF t r5(2) ds n6] r5(3) by auto
  have "\<forall>(ty, s, n) \<in> set as_defaults. \<exists>d \<in> set ?ds. rd_suffix d = s \<and> rd_type d = ty" using defaults_described in_descs [OF L] by fast
  moreover have none6: "rs_item ?ds s r6 = None" if "s \<notin> early_names" for s
    using that r6(4) r5(4) r4(4) r3(4) r2(3) by (simp add: early_names_def)
  then have "\<forall>(ty, s, n) \<in> set as_defaults. rs_item ?ds s r6 = None" using defaults_late by fast
  ultimately obtain r7 where r7: "rs_addNumbers L now as_defaults r6 = Some r7" "rs_ok ?ds r7" "rs_prefix r7 = RAlarmSystems"
    "\<forall>u. u \<notin> as_default_names \<longrightarrow> rs_item ?ds u r7 = rs_item ?ds u r6"
    and num: "\<forall>(ty, s, n) \<in> set as_defaults. \<exists>i. rs_item ?ds s r7 = Some i \<and>
       (no_range (ri_descriptor ?ds i) \<or> in_range (ri_descriptor ?ds i) (sint n) \<longrightarrow> ri_num i = n) \<and>
       ri_descriptor ?ds i \<in> set ?ds \<and> rd_suffix (ri_descriptor ?ds i) = s"
    using add_numbers [OF t r6(2) _ _ defaults_distinct, of now] r6(3) by auto
  have delays: "\<exists>i. rs_item ?ds s r7 = Some i \<and> byte_delay ?ds i" if s: "s \<in> set as_delays" for s
  proof -
    obtain ty n where p: "(ty, s, n) \<in> set as_defaults" using s delay_default by blast
    obtain i where i: "rs_item ?ds s r7 = Some i" "ri_descriptor ?ds i \<in> set ?ds" "rd_suffix (ri_descriptor ?ds i) = s"
      "in_range (ri_descriptor ?ds i) (sint n) \<longrightarrow> ri_num i = n" using num p by fast
    have "s \<noteq> RStateSecondsRemaining" using s by (auto simp: as_delays_def suffixes)
    then obtain d where d: "n = 0 \<or> n = 120" "d \<in> set as_descriptors" "rd_suffix d = s" "rd_min d = 0" "rd_max d = 255" using defaults_ranges p by fast
    have id: "ri_descriptor ?ds i = d" using desc_of [OF L i(2) d(2)] i(3) d(3) by simp
    then have "ri_num i = n" using i(4) d by (auto simp: in_range_def)
    then show ?thesis using i(1) d id by (auto simp: small_def byte_delay_def)
  qed
  have secs: "\<exists>i. rs_item ?ds RStateSecondsRemaining r7 = Some i \<and> no_range (ri_descriptor ?ds i)"
  proof -
    have "(DataTypeUInt32, RStateSecondsRemaining, 0) \<in> set as_defaults" by (simp add: as_defaults_def)
    then obtain i where i: "rs_item ?ds RStateSecondsRemaining r7 = Some i" "ri_descriptor ?ds i \<in> set ?ds"
      "rd_suffix (ri_descriptor ?ds i) = RStateSecondsRemaining" using num by fast
    have "ri_descriptor ?ds i = rid DataTypeUInt32 QVDouble RStateSecondsRemaining"
      by (rule desc_of [OF L i(2)]) (simp_all add: as_descriptors_def i(3) rid_def rid_range_def)
    then show ?thesis using i by (simp add: no_range_def rid_def rid_range_def)
  qed
  have old: "rs_item ?ds u r7 = rs_item ?ds u r6" if "u \<in> {RStateArmState, RConfigArmMode, RAttrId, RConfigAlarmSystemId, RConfigConfigured}" for u
  proof -
    have "u \<in> early_names" using that by (auto simp: early_names_def)
    then have "u \<notin> as_default_names" using defaults_late by fast
    then show ?thesis using r7(4) by blast
  qed
  have others: "rs_item ?ds RStateArmState r7 = Some ia" "rs_item ?ds RConfigArmMode r7 = Some i4" "rs_item ?ds RAttrId r7 = Some i5"
    "rs_item ?ds RConfigAlarmSystemId r7 = Some (ri_setIsPublic False i1)" "\<exists>i. rs_item ?ds RConfigConfigured r7 = Some i"
    using ia(1) two(2) by (simp_all add: old r6(4) r5(4) r4(4) r3(4) r2(3) suffixes)
  have ok: "as_items_ok L r7" using r7(2,3) delays secs others ia r4(5,6) by (auto simp: as_items_ok_def text_item_def rid_def rid_range_def)
  have "as_newItems L now asid at = Some (at5, r7)"
    using new r1(1) r3(1) r4(1) r5(1) r6(1) r7(1) by (simp add: as_newItems_def r2_def [symmetric] del: rs_addNumbers.simps)
  then show ?thesis
    by (rule that) (use ok others r1(5) r4(5,6) ia(3) in \<open>simp_all add: ri_setIsPublic_def rid_def rid_range_def\<close>)
qed

definition as_fresh :: "'at res_lib \<Rightarrow> alarm_system \<Rightarrow> bool" where
  "as_fresh L a \<longleftrightarrow> as_items_ok L (as_res a) \<and> as_curState a = StateDisarmed \<and> as_targetState a = AS_ArmModeDisarmed \<and> \<not> as_timer a \<and>
     as_tState a = 0 \<and> as_armMask a = 0 \<and> small (as_exitDelay a) \<and> small (as_entryDelay a) \<and> small (as_triggerDuration a)"

lemma new_system:
  assumes L: "lib_ok L"
  shows "\<exists>at' a. as_new L now asid at = Some (at', a) \<and> as_fresh L a \<and> as_text L RConfigArmMode a = Some (qs_trimmed (al_qt L) ''disarmed'') \<and>
    as_id L a = Some asid \<and> as_number L RStateArmState a = Some 6"
proof -
  obtain at' r where e: "as_newItems L now asid at = Some (at', r)" and ok: "as_items_ok L r"
    and mode: "\<exists>i. rs_item (al_rids L) RConfigArmMode r = Some i \<and> ri_str i = Some (qs_trimmed (al_qt L) ''disarmed'') \<and>
       rd_type (ri_descriptor (al_rids L) i) = DataTypeString"
    and ids: "\<exists>i. rs_item (al_rids L) RConfigAlarmSystemId r = Some i \<and> ri_num i = ucast asid"
    and arm: "\<exists>i. rs_item (al_rids L) RStateArmState r = Some i \<and> ri_num i = 6"
    using new_resource [OF L] by blast
  define a where "a = \<lparr>as_res = r, as_targetState = AS_ArmModeDisarmed, as_exitDelay = 0, as_entryDelay = 0, as_triggerDuration = 0, as_armMask = 0,
        as_timer = False, as_tState = 0, as_curState = StateDisarmed\<rparr>"
  have m: "a\<lparr>as_targetState := AS_ArmModeDisarmed\<rparr> = a" "as_items_ok L (as_res a)" using ok by (simp_all add: a_def)
  obtain x n d where u: "updateTargetStateValues L a =
      Some (a\<lparr>as_targetState := AS_ArmModeDisarmed, as_exitDelay := x, as_entryDelay := n, as_triggerDuration := d,
        as_armMask := ucast (targetArmMask AS_ArmModeDisarmed)\<rparr>)" "small x" "small n" "small d"
    using target_values [OF m(2), of AS_ArmModeDisarmed] m(1) by (metis AS_ArmMode.distinct(7))
  let ?a = "a\<lparr>as_targetState := AS_ArmModeDisarmed, as_exitDelay := x, as_entryDelay := n, as_triggerDuration := d,
        as_armMask := ucast (targetArmMask AS_ArmModeDisarmed)\<rparr>"
  have "as_new L now asid at = Some (at', ?a)" using e u(1) by (simp add: as_new_def a_def [symmetric])
  moreover have "as_fresh L ?a" using ok u(2-4) by (simp add: as_fresh_def a_def targetArmMask_def)
  moreover have "as_text L RConfigArmMode ?a = Some (qs_trimmed (al_qt L) ''disarmed'')"
    using mode by (auto simp: as_text_def as_item_def a_def ri_toString_def)
  moreover have "as_number L RStateArmState ?a = Some 6" using arm by (auto simp: as_number_def as_item_def a_def ri_toNumber_def)
  moreover have "as_id L ?a = Some asid"
  proof -
    have "ucast (ucast asid :: s64) = asid" by (rule bit_word_eqI) (auto simp: bit_unsigned_iff)
    then show ?thesis using ids by (auto simp: as_id_def as_number_def as_item_def a_def ri_toNumber_def)
  qed
  ultimately show ?thesis by blast
qed

text \<open>Writing an item that keeps its descriptor.\<close>

lemma byte_delay_cong: "ri_descriptor ds j = ri_descriptor ds i \<Longrightarrow> small (ri_num j) \<Longrightarrow> byte_delay ds i \<Longrightarrow> byte_delay ds j"
  by (simp only: byte_delay_def simp_thms)

lemma text_item_cong: "ri_descriptor ds j = ri_descriptor ds i \<Longrightarrow> ri_str j \<noteq> None \<Longrightarrow> text_item ds i \<Longrightarrow> text_item ds j"
  by (simp only: text_item_def simp_thms)

lemma write_ok:
  assumes ok: "as_items_ok L (as_res a)" and i: "as_item L s a = Some i" and d: "ri_descriptor (al_rids L) i' = ri_descriptor (al_rids L) i"
    and sm: "s \<in> set as_delays \<longrightarrow> small (ri_num i')" and tx: "s = RConfigArmMode \<longrightarrow> ri_str i' \<noteq> None"
  shows "as_items_ok L (as_res (as_write L s i' a))" "as_item L u (as_write L s i' a) = (if u = s then Some i' else as_item L u a)"
proof -
  let ?ds = "al_rids L" and ?r = "as_res (as_write L s i' a)"
  have i0: "rs_item ?ds s (as_res a) = Some i" using i by (simp only: as_item_def)
  have sfx: "ri_suffix ?ds i' = s" using d item_suffix [OF i0] by (simp only:)
  have item: "rs_item ?ds u ?r = (if u = s then Some i' else rs_item ?ds u (as_res a))" for u
    using rs_item_update_const [OF sfx] i0 by (simp add: as_write_def)
  have names: "names_of ?ds ?r = names_of ?ds (as_res a)"
    by (simp add: as_write_def) (rule names_update, rule sfx)
  have keep: "\<exists>j. rs_item ?ds s' ?r = Some j \<and> P j" if "\<exists>j. rs_item ?ds s' (as_res a) = Some j \<and> P j" "s' = s \<Longrightarrow> P i \<Longrightarrow> P i'" for s' P
    using that item [of s'] i0 by (cases "s' = s") auto
  show "as_item L u (as_write L s i' a) = (if u = s then Some i' else as_item L u a)" unfolding as_item_def by (rule item)
  have "\<exists>j. rs_item ?ds s' ?r = Some j \<and> byte_delay ?ds j" if "s' \<in> set as_delays" for s'
  proof (rule keep)
    show "\<exists>j. rs_item ?ds s' (as_res a) = Some j \<and> byte_delay ?ds j" using ok that unfolding as_items_ok_def by blast
    show "byte_delay ?ds i'" if "s' = s" "byte_delay ?ds i" by (rule byte_delay_cong [OF d]) (use sm that \<open>s' \<in> set as_delays\<close> in blast)+
  qed
  moreover have "\<exists>j. rs_item ?ds RConfigArmMode ?r = Some j \<and> text_item ?ds j"
  proof (rule keep)
    show "\<exists>j. rs_item ?ds RConfigArmMode (as_res a) = Some j \<and> text_item ?ds j" using ok unfolding as_items_ok_def by blast
    show "text_item ?ds i'" if "RConfigArmMode = s" "text_item ?ds i" by (rule text_item_cong [OF d]) (use tx that in blast)+
  qed
  moreover have "\<exists>j. rs_item ?ds s' ?r = Some j \<and> no_range (ri_descriptor ?ds j)"
    if "s' \<in> {RStateArmState, RStateSecondsRemaining}" for s'
  proof (rule keep)
    show "\<exists>j. rs_item ?ds s' (as_res a) = Some j \<and> no_range (ri_descriptor ?ds j)" using ok that unfolding as_items_ok_def by blast
    show "no_range (ri_descriptor ?ds i')" if "no_range (ri_descriptor ?ds i)" using that by (simp only: d)
  qed
  moreover have "rs_prefix ?r = RAlarmSystems" using ok by (simp add: as_items_ok_def as_write_def rs_update_def)
  moreover have "rs_ok ?ds ?r" using ok names by (simp only: as_items_ok_def rs_ok_def)
  moreover have "rs_item ?ds s' ?r \<noteq> None" if "s' \<in> {RAttrId, RConfigAlarmSystemId, RConfigConfigured}" for s'
  proof -
    have "rs_item ?ds s' (as_res a) \<noteq> None" using ok that unfolding as_items_ok_def by blast
    then show ?thesis by (simp only: item split: if_splits) simp
  qed
  ultimately show "as_items_ok L ?r" unfolding as_items_ok_def by blast
qed

end
