(* ===== verification/Alarm_Reach.thy ===== *)
theory Alarm_Reach
  imports Alarm_Setup
begin

text \<open>
  The alarm systems the program can reach: loaded and started, driven by events, armed through
  \<open>setTargetArmMode\<close>, and configured. They keep the invariant; the timing of the machine follows from its contract.
\<close>


section \<open>Starting a system\<close>

lemma fits_start: "m \<noteq> AS_ArmModeMax \<Longrightarrow> mode_fits (if m = AS_ArmModeDisarmed then StateDisarmed else StateArmed) m"
  by (simp add: mode_fits_def)

text \<open>\<open>start\<close> makes the state, the panel and the parameters consistent, whatever mode is stored.\<close>

lemma start_inv:
  assumes f: "as_fresh L a"
  shows "\<exists>a' es. as_start L DB_LoadSecret now a = Some (a', es) \<and> as_inv L a' \<and> state_events es \<and>
    (\<forall>u. u \<noteq> RStateArmState \<and> u \<noteq> RConfigConfigured \<longrightarrow> as_item L u a' = as_item L u a) \<and>
    (\<forall>tx. as_text L RConfigArmMode a = Some tx \<and> AS_ArmModeFromString tx \<noteq> AS_ArmModeMax \<longrightarrow>
       as_targetState a' = AS_ArmModeFromString tx \<and>
       as_curState a' = (if AS_ArmModeFromString tx = AS_ArmModeDisarmed then StateDisarmed else StateArmed)) \<and>
    as_tState a' = as_tState a"
proof -
  have ok: "as_items_ok L (as_res a)" using f by (simp add: as_fresh_def)
  obtain i where "as_item L RConfigArmMode a = Some i" using ok by (auto simp: as_items_ok_def as_item_def)
  then obtain tx where tx: "as_text L RConfigArmMode a = Some tx" by (simp add: as_text_def)
  let ?m = "AS_ArmModeFromString tx"
  obtain a1 e1 where one: "(if ?m = AS_ArmModeMax then Some (a, [])
        else as_setState L now (if ?m = AS_ArmModeDisarmed then StateDisarmed else StateArmed) (a\<lparr>as_targetState := ?m\<rparr>)) = Some (a1, e1)"
    and a1: "as_items_ok L (as_res a1)" "mode_fits (as_curState a1) (as_targetState a1)" "\<not> timed (as_curState a1)" "state_events e1"
      "\<forall>u. u \<noteq> RStateArmState \<longrightarrow> as_item L u a1 = as_item L u a"
      "?m \<noteq> AS_ArmModeMax \<longrightarrow> as_targetState a1 = ?m \<and> as_curState a1 = (if ?m = AS_ArmModeDisarmed then StateDisarmed else StateArmed)"
      "as_tState a1 = as_tState a"
  proof (cases "?m = AS_ArmModeMax")
    case True
    then show ?thesis using that [of a "[]"] f by (simp add: as_fresh_def mode_fits_def timed_def)
  next
    case False
    let ?st = "if ?m = AS_ArmModeDisarmed then StateDisarmed else StateArmed"
    have "as_items_ok L (as_res (a\<lparr>as_targetState := ?m\<rparr>))" "mode_fits ?st (as_targetState (a\<lparr>as_targetState := ?m\<rparr>))"
      using ok fits_start [OF False] by simp_all
    then obtain a' es where s: "as_setState L now ?st (a\<lparr>as_targetState := ?m\<rparr>) = Some (a', es)"
      "upd L RStateArmState ((a\<lparr>as_targetState := ?m\<rparr>)\<lparr>as_curState := ?st\<rparr>) a'"
      "\<forall>e \<in> set es. ev_resource e = RAlarmSystems \<and> ev_what e = RStateArmState"
      using state_upd by metis
    show ?thesis
      by (rule that [of a' es])
        (use s False fits_start [OF False] in \<open>auto simp: upd_fields [OF s(2)] timed_def state_events_def upd_def as_item_def\<close>)
  qed
  obtain a2 e2 where two: "updateArmStateAndPanelStatus L now a1 = Some (a2, e2)" "upd L RStateArmState a1 a2"
    "as_number L RStateArmState a2 = Some (ucast (panelStatus (as_curState a1) (as_targetState a1) 0))"
    "\<forall>e \<in> set e2. ev_resource e = RAlarmSystems \<and> ev_what e = RStateArmState"
    using panel_upd [OF a1(1,2)] by blast
  have ok2: "as_items_ok L (as_res a2)" using upd_fields [OF two(2)] by simp
  have m2: "as_targetState a2 \<noteq> AS_ArmModeMax" "a2\<lparr>as_targetState := as_targetState a2\<rparr> = a2"
    using a1(2) upd_fields [OF two(2)] by (simp_all add: mode_fits_def)
  obtain x n d where three: "updateTargetStateValues L a2 =
      Some (a2\<lparr>as_targetState := as_targetState a2, as_exitDelay := x, as_entryDelay := n, as_triggerDuration := d,
        as_armMask := ucast (targetArmMask (as_targetState a2))\<rparr>)" "small x" "small n" "small d"
    using target_values [OF ok2 m2(1)] m2(2) by metis
  define a3 where "a3 = a2\<lparr>as_targetState := as_targetState a2, as_exitDelay := x, as_entryDelay := n, as_triggerDuration := d,
        as_armMask := ucast (targetArmMask (as_targetState a2))\<rparr>"
  have ok3: "as_items_ok L (as_res a3)" using ok2 by (simp add: a3_def)
  obtain asid where asid: "as_id L a3 = Some asid" using ok3 by (auto simp: as_id_def as_number_def as_item_def as_items_ok_def)
  obtain i3 where i3: "as_item L RConfigConfigured a3 = Some i3" using ok3 by (auto simp: as_item_def as_items_ok_def)
  let ?c = "if DB_LoadSecret (code0_key asid) \<noteq> None then 1 else 0 :: s64"
  let ?i = "snd (ri_setNumber (al_rids L) now ?c SourceUnknown i3)"
  have d: "ri_descriptor (al_rids L) ?i = ri_descriptor (al_rids L) i3"
    using setNumber_suffix [of "al_rids L" now ?c SourceUnknown i3 "fst (ri_setNumber (al_rids L) now ?c SourceUnknown i3)" ?i] by simp
  have nd: "RConfigConfigured \<notin> set as_delays" "RConfigConfigured \<noteq> RStateArmState" "RConfigConfigured \<noteq> RConfigArmMode" by (simp_all add: as_delays_def suffixes)
  note w = write_ok [OF ok3 i3 d]
  let ?a = "as_write L RConfigConfigured ?i a3"
  have "as_inv L ?a"
    using w nd a1(2,3) two(3) three(2-4) upd_fields [OF two(2)]
    by (simp add: as_inv_def as_number_def) (simp add: a3_def as_write_def)
  moreover have "as_start L DB_LoadSecret now a = Some (?a, e1 @ e2)"
    using three(1) unfolding a3_def [symmetric] by (simp only: as_start_def tx Option.bind.simps Let_def one two(1) asid i3 prod.case)
  moreover have "state_events (e1 @ e2)" using a1(4) two(4) by (auto simp: state_events_def)
  moreover have "as_item L u ?a = as_item L u a" if "u \<noteq> RStateArmState" "u \<noteq> RConfigConfigured" for u
  proof -
    have "as_item L u ?a = as_item L u a3"
      using write_ok(2) [OF ok3 i3 d, of u] nd that by (simp del: as_item_ctl)
    also have "\<dots> = as_item L u a2" by (simp add: a3_def)
    also have "\<dots> = as_item L u a1" using two(2) that by (simp add: upd_def)
    finally show ?thesis using a1(5) that by simp
  qed
  moreover have "as_targetState ?a = as_targetState a1" "as_curState ?a = as_curState a1" "as_tState ?a = as_tState a"
    using upd_fields [OF two(2)] a1(7) by (simp_all add: a3_def as_write_def)
  ultimately show ?thesis using a1(6) tx by (intro exI [of _ ?a] exI [of _ "e1 @ e2"]) simp
qed

section \<open>Writing items keeps the items\<close>

text \<open>\<open>s\<close> is the item, \<open>i'\<close> what a setter made of it.\<close>

definition good_write :: "'at res_lib \<Rightarrow> string \<Rightarrow> resource_item \<Rightarrow> resource_item \<Rightarrow> bool" where
  "good_write L s i i' \<longleftrightarrow> ri_descriptor (al_rids L) i' = ri_descriptor (al_rids L) i \<and>
     (s \<in> set as_delays \<longrightarrow> small (ri_num i')) \<and> (s = RConfigArmMode \<longrightarrow> ri_str i' \<noteq> None)"

lemma good_write_items: "as_items_ok L (as_res a) \<Longrightarrow> as_item L s a = Some i \<Longrightarrow> good_write L s i i' \<Longrightarrow> as_items_ok L (as_res (as_write L s i' a))"
  unfolding good_write_def using write_ok(1) [of L a s i i'] by blast

lemma good_write_fresh: "as_fresh L a \<Longrightarrow> as_item L s a = Some i \<Longrightarrow> good_write L s i i' \<Longrightarrow> as_fresh L (as_write L s i' a)"
  using good_write_items [of L a s i i'] by (simp add: as_fresh_def as_write_def)

lemma good_write_inv:
  assumes inv: "as_inv L a" and i: "as_item L s a = Some i" and w: "good_write L s i i'" and s: "s \<noteq> RStateArmState"
  shows "as_inv L (as_write L s i' a)"
proof -
  have ok: "as_items_ok L (as_res a)" using inv by (simp add: as_inv_def)
  have w': "ri_descriptor (al_rids L) i' = ri_descriptor (al_rids L) i" "s \<in> set as_delays \<longrightarrow> small (ri_num i')"
    "s = RConfigArmMode \<longrightarrow> ri_str i' \<noteq> None" using w unfolding good_write_def by blast+
  have "as_item L RStateArmState (as_write L s i' a) = as_item L RStateArmState a"
    using write_ok(2) [OF ok i w', of RStateArmState] s by (simp only: split: if_splits) simp
  then have n: "as_number L RStateArmState (as_write L s i' a) = as_number L RStateArmState a" by (simp only: as_number_def)
  have f: "as_curState (as_write L s i' a) = as_curState a" "as_targetState (as_write L s i' a) = as_targetState a"
    "as_exitDelay (as_write L s i' a) = as_exitDelay a" "as_entryDelay (as_write L s i' a) = as_entryDelay a"
    "as_triggerDuration (as_write L s i' a) = as_triggerDuration a" "as_armMask (as_write L s i' a) = as_armMask a"
    "as_timer (as_write L s i' a) = as_timer a" by (simp_all add: as_write_def)
  show ?thesis using inv good_write_items [OF ok i w] unfolding as_inv_def n f by blast
qed

lemma delay_item: "as_items_ok L (as_res a) \<Longrightarrow> as_item L s a = Some i \<Longrightarrow> s \<in> set as_delays \<Longrightarrow> byte_delay (al_rids L) i"
  by (auto simp: as_items_ok_def as_item_def)

lemma mode_item: "as_items_ok L (as_res a) \<Longrightarrow> as_item L RConfigArmMode a = Some i \<Longrightarrow> text_item (al_rids L) i"
  by (auto simp: as_items_ok_def as_item_def)

lemma mode_no_delay: "RConfigArmMode \<notin> set as_delays" "RAttrName \<notin> set as_delays" "RAttrName \<noteq> RConfigArmMode"
  "RConfigArmMode \<noteq> RStateArmState" "RAttrName \<noteq> RStateArmState"
  by (simp_all add: as_delays_def suffixes)

lemma number_good:
  assumes ok: "as_items_ok L (as_res a)" and i: "as_item L s a = Some i"
  shows "good_write L s i (snd (ri_setNumber (al_rids L) now n src i))"
proof -
  obtain b i' where r: "ri_setNumber (al_rids L) now n src i = (b, i')" by (cases "ri_setNumber (al_rids L) now n src i")
  have d: "ri_descriptor (al_rids L) i' = ri_descriptor (al_rids L) i" by (rule setNumber_suffix [OF r])
  have "small (ri_num i')" if "s \<in> set as_delays"
  proof -
    have bd: "small (ri_num i)" "rd_min (ri_descriptor (al_rids L) i) = 0" "rd_max (ri_descriptor (al_rids L) i) = 255"
      using delay_item [OF ok i that] by (simp_all only: byte_delay_def)
    then have "\<not> no_range (ri_descriptor (al_rids L) i)" "in_range (ri_descriptor (al_rids L) i) (sint n) \<longrightarrow> small n"
      by (simp_all add: no_range_def in_range_def small_def)
    then show ?thesis using r bd(1) by (auto simp: ri_setNumber_def Let_def split: if_split_asm)
  qed
  moreover have "ri_str i' = ri_str i" using r by (auto simp: ri_setNumber_def Let_def split: if_split_asm)
  moreover have "ri_str i \<noteq> None" if "s = RConfigArmMode" using mode_item [OF ok] i that by (simp add: text_item_def)
  ultimately show ?thesis using d r by (simp add: good_write_def)
qed

lemma text_good:
  assumes ok: "as_items_ok L (as_res a)" and i: "as_item L s a = Some i" and r: "ri_setString ops qt (al_rids L) now v src at i = (b, at', i')"
    and t: "rd_type (ri_descriptor (al_rids L) i) = DataTypeString \<or> s = RConfigArmMode \<or> s = RAttrName"
  shows "good_write L s i i'"
proof -
  have d: "ri_descriptor (al_rids L) i' = ri_descriptor (al_rids L) i"
    by (rule descriptor_cong) (rule setVariant_index, rule r [unfolded ri_setString_def])
  have "small (ri_num i')" if s: "s \<in> set as_delays"
  proof -
    have t: "rd_type (ri_descriptor (al_rids L) i) = DataTypeString" using t s mode_no_delay by blast
    have "small (ri_num i)" using delay_item [OF ok i s] by (simp only: byte_delay_def)
    moreover have "ri_num i' = ri_num i"
      using r t by (auto simp: ri_setString_def ri_setVariant_def Let_def dest!: setText_fields(2) split: if_split_asm)
    ultimately show ?thesis by simp
  qed
  moreover have "ri_str i' \<noteq> None" if s: "s = RConfigArmMode"
  proof -
    have "rd_type (ri_descriptor (al_rids L) i) = DataTypeString" "ri_str i \<noteq> None" using mode_item [OF ok] i s by (simp_all add: text_item_def)
    then show ?thesis using setText_item [OF _ _ r] by simp
  qed
  ultimately show ?thesis using d by (simp add: good_write_def)
qed

lemma load_fresh:
  assumes "as_fresh L a"
  shows "as_fresh L (snd (as_loadItem L now row (at, a)))"
proof -
  have ok: "as_items_ok L (as_res a)" using assms by (simp add: as_fresh_def)
  obtain s v where row: "row = (s, v)" by (cases row)
  show ?thesis
  proof (cases "v = [] \<or> as_item L s a = None")
    case True
    then show ?thesis using assms by (auto simp: as_loadItem_def row)
  next
    case False
    then obtain i where i: "as_item L s a = Some i" "v \<noteq> []" by blast
    obtain b at' i' where r: "ri_setString (al_atoms L) (al_qt L) (al_rids L) now v SourceUnknown at i = (b, at', i')" by (metis prod_cases3)
    have "as_fresh L (as_write L s i' a)" if "rd_type (ri_descriptor (al_rids L) i) = DataTypeString"
      using good_write_fresh [OF assms i(1) text_good [OF ok i(1) r]] that by blast
    moreover have "as_fresh L (as_write L s (snd (ri_setNumber (al_rids L) now (c_strtol10 v) SourceUnknown i)) a)"
      by (rule good_write_fresh [OF assms i(1) number_good [OF ok i(1)]])
    ultimately show ?thesis using i r assms by (simp add: as_loadItem_def row)
  qed
qed

lemma loads_fresh: "as_fresh L a \<Longrightarrow> as_fresh L (snd (fold (as_loadItem L now) rows (at, a)))"
proof (induction rows arbitrary: at a)
  case (Cons row rows)
  show ?case using Cons.IH [of "snd (as_loadItem L now row (at, a))" "fst (as_loadItem L now row (at, a))"] load_fresh [OF Cons.prems] by simp
qed simp

lemma setValueNumber_inv:
  assumes inv: "as_inv L a" and s: "s \<noteq> RStateArmState" and r: "as_setValueNumber L q now ts s n (a, db) = Some (ok, a', db', es)"
  shows "as_inv L a'"
proof (cases "as_item L s a")
  case None
  then show ?thesis using r inv by (simp add: as_setValueNumber_def rs_setNumber_def as_item_def)
next
  case (Some i)
  have "as_inv L (as_write L s (snd (ri_setNumber (al_rids L) now n SourceUnknown i)) a)"
    using good_write_inv [OF inv Some number_good [OF _ Some] s] inv by (simp add: as_inv_def)
  then show ?thesis using r inv Some
    by (auto simp: as_setValueNumber_def rs_setNumber_def as_item_def as_write_def Let_def bind_eq_Some_conv split: if_split_asm prod.split_asm)
qed

lemma setValueText_inv:
  assumes inv: "as_inv L a" and s: "s = RAttrName \<or> s = RConfigArmMode" and r: "as_setValueText L q now ts s tx (at, a, db) = Some (ok, at', a', db', es)"
  shows "as_inv L a'"
proof (cases "as_item L s a")
  case None
  then show ?thesis using r inv by (simp add: as_setValueText_def rs_setString_def as_item_def)
next
  case (Some i)
  have items: "as_items_ok L (as_res a)" using inv by (simp add: as_inv_def)
  obtain b at1 i' where w: "ri_setString (al_atoms L) (al_qt L) (al_rids L) now tx SourceUnknown at i = (b, at1, i')" by (metis prod_cases3)
  have "s \<noteq> RStateArmState" using s mode_no_delay by auto
  then have "as_inv L (as_write L s i' a)"
    using good_write_inv [OF inv Some text_good [OF items Some w]] s by blast
  then show ?thesis using r inv Some w
    by (auto simp: as_setValueText_def rs_setString_def as_item_def as_write_def Let_def bind_eq_Some_conv split: if_split_asm prod.split_asm)
qed

lemma setTarget_inv:
  assumes "as_inv L a" "as_setTargetArmMode L q now ts m (at, a, db) = Some (ok, at', a', db', es)"
  shows "as_inv L a'"
proof (cases "m = AS_ArmModeMax \<or> m = as_targetState a")
  case True
  then have "a' = a" using assms(2) by (cases "m = AS_ArmModeMax") (simp_all add: as_setTargetArmMode_def)
  then show ?thesis using assms(1) by simp
next
  case False
  then have ne: "m \<noteq> AS_ArmModeMax" "m \<noteq> as_targetState a" by simp_all
  obtain tx b es' where w: "as_setValueText L q now ts RConfigArmMode tx (at, a, db) = Some (b, at', a', db', es')"
    using assms(2) unfolding as_setTargetArmMode_def prod.case if_not_P [OF ne(1)] if_not_P [OF ne(2)] by (auto simp: bind_eq_Some_conv)
  show ?thesis by (rule setValueText_inv [OF assms(1) _ w]) simp
qed

section \<open>Reachable systems\<close>

inductive alarm_reach :: "'at res_lib \<Rightarrow> 'db sqlite \<Rightarrow> alarm_system \<Rightarrow> bool" for L q where
  reach_start: "as_new L now asid at = Some (at', a) \<Longrightarrow> as_start L DB_LoadSecret now (snd (fold (as_loadItem L now) rows (at', a))) = Some (a', es) \<Longrightarrow>
    alarm_reach L q a'"
| reach_event: "alarm_reach L q a \<Longrightarrow> as_tState a \<le> t \<Longrightarrow> as_handleEvent L now t e a = Some (a', es) \<Longrightarrow> alarm_reach L q a'"
| reach_mode: "alarm_reach L q a \<Longrightarrow> as_setTargetArmMode L q now ts m (at, a, db) = Some (ok, at', a', db', es) \<Longrightarrow> alarm_reach L q a'"
| reach_config: "alarm_reach L q a \<Longrightarrow> s \<noteq> RStateArmState \<Longrightarrow> as_setValueNumber L q now ts s n (a, db) = Some (ok, a', db', es) \<Longrightarrow> alarm_reach L q a'"
| reach_name: "alarm_reach L q a \<Longrightarrow> as_setValueText L q now ts RAttrName tx (at, a, db) = Some (ok, at', a', db', es) \<Longrightarrow> alarm_reach L q a'"

lemma reach_inv:
  assumes L: "lib_ok L"
  shows "alarm_reach L q a \<Longrightarrow> as_inv L a"
proof (induction rule: alarm_reach.induct)
  case (reach_start now asid at at' a DB_LoadSecret rows a' es)
  have "as_fresh L a" using new_system [OF L, of now asid at] reach_start(1) by auto
  then show ?case using start_inv [OF loads_fresh, of L a DB_LoadSecret now now rows at'] reach_start(2) by (metis option.inject prod.inject)
next
  case (reach_event a t now e a' es)
  then show ?case using handle_refines [of L a t e now] by (auto simp: refines_def)
next
  case (reach_mode a now ts m at db ok at' a' db' es)
  show ?case by (rule setTarget_inv [OF reach_mode.IH reach_mode.hyps(2)])
next
  case (reach_config a s now ts n db ok a' db' es)
  show ?case by (rule setValueNumber_inv [OF reach_config.IH reach_config.hyps(2,3)])
next
  case (reach_name a now ts tx at db ok at' a' db' es)
  show ?case by (rule setValueText_inv [OF reach_name.IH _ reach_name.hyps(2)]) simp
qed

section \<open>A system for the examples\<close>

definition lib0 :: "string list res_lib" where
  "lib0 = \<lparr>al_atoms = atoms0, al_qt = qt0, al_fmt = \<lambda>_ _. [], al_rids = initResourceDescriptors\<rparr>"

lemma lib0_ok: "lib_ok lib0"
  by (simp add: lib_ok_def lib0_def qt0_def)

text \<open>System 1, loaded with the mode \<open>mode\<close>.\<close>

definition loaded_system :: "string \<Rightarrow> alarm_system" where
  "loaded_system mode =
     (case as_new lib0 0 1 [] of
        Some (at, a) \<Rightarrow>
          (case as_start lib0 (\<lambda>_. None) 0 (snd (fold (as_loadItem lib0 0) [(RConfigArmMode, mode)] (at, a))) of
             Some (a, _) \<Rightarrow> a))"

lemma loaded_system:
  assumes "AS_ArmModeFromString mode = m" "m \<noteq> AS_ArmModeMax" "mode \<noteq> []"
  shows "alarm_reach lib0 q (loaded_system mode)" "as_targetState (loaded_system mode) = m"
    "as_curState (loaded_system mode) = (if m = AS_ArmModeDisarmed then StateDisarmed else StateArmed)"
    "as_tState (loaded_system mode) = 0" "as_id lib0 (loaded_system mode) = Some 1"
    "as_text lib0 RConfigArmMode (loaded_system mode) = Some mode"
proof -
  obtain at' a where n: "as_new lib0 0 1 [] = Some (at', a)" "as_fresh lib0 a" "as_id lib0 a = Some 1"
    using new_system [OF lib0_ok, of 0 1 "[]"] by blast
  define b1 where "b1 = snd (fold (as_loadItem lib0 0) [(RConfigArmMode, mode)] (at', a))"
  have ok: "as_items_ok lib0 (as_res a)" using n(2) by (simp add: as_fresh_def)
  then obtain i where i: "as_item lib0 RConfigArmMode a = Some i" "text_item (al_rids lib0) i" by (auto simp: as_items_ok_def as_item_def)
  obtain b at2 i' where w: "ri_setString (al_atoms lib0) (al_qt lib0) (al_rids lib0) 0 mode SourceUnknown at' i = (b, at2, i')" by (metis prod_cases3)
  have t: "rd_type (ri_descriptor (al_rids lib0) i) = DataTypeString" "ri_str i \<noteq> None" using i(2) by (simp_all add: text_item_def)
  have b: "b1 = as_write lib0 RConfigArmMode i' a" using i(1) w t(1) assms(3) by (simp add: b1_def as_loadItem_def)
  have i': "ri_str i' = Some mode" "ri_descriptor (al_rids lib0) i' = ri_descriptor (al_rids lib0) i"
    using setText_item [OF t w] by (simp_all add: lib0_def qt0_def)
  have g: "good_write lib0 RConfigArmMode i i'" using text_good [OF ok i(1) w] by blast
  have item: "as_item lib0 u b1 = (if u = RConfigArmMode then Some i' else as_item lib0 u a)" for u
    unfolding b by (rule write_ok(2) [OF ok i(1)]) (use g in \<open>unfold good_write_def, blast+\<close>)
  have mode: "as_text lib0 RConfigArmMode b1 = Some mode" using i' t(1) by (simp add: as_text_def item ri_toString_def)
  have fresh: "as_fresh lib0 b1" unfolding b1_def by (rule loads_fresh [OF n(2)])
  obtain a' es where s: "as_start lib0 (\<lambda>_. None) 0 b1 = Some (a', es)"
    "\<forall>u. u \<noteq> RStateArmState \<and> u \<noteq> RConfigConfigured \<longrightarrow> as_item lib0 u a' = as_item lib0 u b1"
    "as_targetState a' = m" "as_curState a' = (if m = AS_ArmModeDisarmed then StateDisarmed else StateArmed)"
    "as_tState a' = as_tState b1"
    using start_inv [OF fresh, of "\<lambda>_. None" 0] mode assms(1,2) by blast
  have a': "loaded_system mode = a'" unfolding loaded_system_def using n(1) s(1) by (simp add: b1_def)
  show "alarm_reach lib0 q (loaded_system mode)" unfolding a' by (rule reach_start [OF n(1) s(1) [unfolded b1_def]])
  show "as_targetState (loaded_system mode) = m" "as_curState (loaded_system mode) = (if m = AS_ArmModeDisarmed then StateDisarmed else StateArmed)"
    using a' s(3,4) by simp_all
  show "as_tState (loaded_system mode) = 0" using a' s(5) fresh by (simp add: as_fresh_def)
  have "as_item lib0 RConfigAlarmSystemId a' = as_item lib0 RConfigAlarmSystemId a" using s(2) item by (simp add: suffixes)
  then show "as_id lib0 (loaded_system mode) = Some 1" using n(3) a' by (simp add: as_id_def as_number_def)
  have "as_item lib0 RConfigArmMode a' = as_item lib0 RConfigArmMode b1" using s(2) by (simp add: suffixes)
  then show "as_text lib0 RConfigArmMode (loaded_system mode) = Some mode" using mode a' by (simp add: as_text_def)
qed

section \<open>Properties\<close>



text \<open>C22: The code implements the abstract alarm machine: the abstraction of the state after an event is the machine's step for what the event means,
  only the two state items are written, and only events about them are emitted.\<close>

theorem alarm_machine_refines:
  assumes "lib_ok L" "alarm_reach L q a" "as_tState a \<le> t"
  shows "\<exists>a' es. as_handleEvent L now t e a = Some (a', es) \<and>
    as_abs L a' = spec_step (as_cfg L a) t (as_input L a e) (as_abs L a) \<and>
    (\<forall>u. u \<noteq> RStateArmState \<and> u \<noteq> RStateSecondsRemaining \<longrightarrow> as_item L u a' = as_item L u a) \<and>
    (\<forall>e \<in> set es. ev_resource e = RAlarmSystems \<and> (ev_what e = RStateArmState \<or> ev_what e = RStateSecondsRemaining))"
  using handle_refines [OF reach_inv [OF assms(1,2)] assms(3), of e now] by (simp only: refines_def as_keep_def state_events_def) blast

theorem alarm_machine_refines_witness:
  "\<exists>a' es. as_handleEvent lib0 5 5 (EventNum RAlarmSystems REventDeviceAlarm 0x101 0) (loaded_system ''armed_away'') = Some (a', es) \<and>
     ct_state (as_abs lib0 a') = StateEntryDelay \<and> ct_since (as_abs lib0 a') = 5"
proof -
  have m: "AS_ArmModeFromString ''armed_away'' = AS_ArmModeArmedAway" by (simp add: AS_ArmModeFromString_def armModeStrings_def)
  note s = loaded_system [OF m, simplified]
  let ?e = "EventNum RAlarmSystems REventDeviceAlarm 0x101 0"
  have i: "as_input lib0 (loaded_system ''armed_away'') ?e = Trip"
    using s(2,5) by (simp add: as_input_def EventNum_def Event0_def suffixes targetArmMask_def AS_ID_MASK_def)
  show ?thesis
    using alarm_machine_refines [OF lib0_ok s(1), where t = 5 and now = 5 and e = ?e] s(2-4) i
    by (auto simp: spec_step_def as_abs_def)
qed

section \<open>Time\<close>

lemma abs_secs:
  assumes "as_inv L a" "timed (as_curState a)" "as_curState a = StateEntryDelay \<or> as_curState a = StateExitDelay"
  shows "as_secondsRemaining L a = Some (word_of_int (ct_secs (as_abs L a)))"
proof -
  obtain n where n: "as_number L RStateSecondsRemaining a = Some n" using assms(1) by (auto simp: as_inv_def as_items_ok_def as_number_def as_item_def)
  have "ucast n = (scast n :: u32)" by (rule bit_word_eqI) (auto simp: bit_unsigned_iff bit_signed_iff min_def)
  then show ?thesis using assms(3) n by (auto simp: as_secondsRemaining_def as_abs_def num_or_0_def)
qed




section \<open>Commands\<close>

lemma mode_strings: "AS_ArmModeToString m = Some tx \<Longrightarrow> AS_ArmModeFromString tx = m \<and> m \<noteq> AS_ArmModeMax"
  by (cases m) (auto simp: AS_ArmModeToString_def AS_ArmModeFromString_def armModeStrings_def)

lemma mode_string_ex: "m \<noteq> AS_ArmModeMax \<Longrightarrow> \<exists>tx. AS_ArmModeToString m = Some tx"
  by (cases m) (auto simp: AS_ArmModeToString_def armModeStrings_def)

text \<open>A text is written to the arm mode: the item, the event and the row.\<close>

lemma mode_text:
  assumes inv: "as_inv L a" and L: "lib_ok L" and tx: "qs_trimmed (al_qt L) tx = tx" and ne: "as_text L RConfigArmMode a \<noteq> Some tx"
  shows "\<exists>at' a' id e. as_setValueText L q now ts RConfigArmMode tx (at, a, db) =
      Some (True, at', a', snd (DB_StoreAlarmSystemResourceItem q
        \<lparr>di_alarmSystemId = id, di_suffix = RConfigArmMode, di_value = tx, di_timestamp = ts\<rparr> db), [e]) \<and>
    as_id L a = Some id \<and> as_text L RConfigArmMode a' = Some tx \<and> ev_resource e = RAlarmSystems \<and> ev_what e = RConfigArmMode \<and>
    a' = a\<lparr>as_res := as_res a'\<rparr> \<and> (\<forall>u. u \<noteq> RConfigArmMode \<longrightarrow> as_item L u a' = as_item L u a)"
proof -
  have items: "as_items_ok L (as_res a)" using inv by (simp add: as_inv_def)
  obtain i where i: "as_item L RConfigArmMode a = Some i" "text_item (al_rids L) i" using items by (auto simp: as_items_ok_def as_item_def)
  have t: "rd_type (ri_descriptor (al_rids L) i) = DataTypeString" "ri_str i \<noteq> None" using i(2) by (simp_all add: text_item_def)
  have old: "ri_toString (al_fmt L) (al_rids L) i \<noteq> tx" using ne i(1) by (simp add: as_text_def)
  obtain b at' i' where w: "ri_setString (al_atoms L) (al_qt L) (al_rids L) now tx SourceUnknown at i = (b, at', i')" by (metis prod_cases3)
  have i': "ri_str i' = Some tx" "ri_descriptor (al_rids L) i' = ri_descriptor (al_rids L) i" "b"
    using setText_item [OF t w] tx L by (simp_all add: lib_ok_def)
  have g: "good_write L RConfigArmMode i i'" using text_good [OF items i(1) w] by blast
  define a' where "a' = as_write L RConfigArmMode i' a"
  have item: "as_item L u a' = (if u = RConfigArmMode then Some i' else as_item L u a)" for u
    unfolding a'_def by (rule write_ok(2) [OF items i(1)]) (use g in \<open>unfold good_write_def, blast+\<close>)
  have items': "as_items_ok L (as_res a')" unfolding a'_def by (rule good_write_items [OF items i(1) g])
  have set: "rs_setString (al_atoms L) (al_qt L) (al_fmt L) (al_rids L) now RConfigArmMode tx False at (as_res a) = (True, at', as_res a')"
    using i(1) old w i'(3) by (simp add: rs_setString_def as_item_def a'_def as_write_def)
  obtain ids where "as_idString L a' = Some ids" using items' by (auto simp: as_items_ok_def as_idString_def as_text_def as_item_def)
  then obtain e where e: "as_event L RConfigArmMode i' a' = Some e" "ev_resource e = RAlarmSystems" "ev_what e = RConfigArmMode"
    using items' by (auto simp: as_event_def as_items_ok_def EventItem_def Event0_def)
  obtain j where "as_item L RConfigAlarmSystemId a = Some j" using items by (auto simp: as_items_ok_def as_item_def)
  then obtain id where id: "as_id L a = Some id" "as_id L a' = Some id" using item [of RConfigAlarmSystemId]
    by (auto simp: as_id_def as_number_def suffixes)
  have stored: "RConfigArmMode \<in> set as_stored" "RConfigArmMode ! 0 = CHR ''c''" by (simp_all add: as_stored_def suffixes)
  have tex: "ri_toString (al_fmt L) (al_rids L) i' = tx" using i' t(1) by (simp add: ri_toString_def)
  have "as_didSetValue L q ts RConfigArmMode (a', db) =
    Some ([e], snd (DB_StoreAlarmSystemResourceItem q \<lparr>di_alarmSystemId = id, di_suffix = RConfigArmMode, di_value = tx, di_timestamp = ts\<rparr> db))"
    using item [of RConfigArmMode] e(1) id(2) stored tex i'(2) t(1) by (simp add: as_didSetValue_def Let_def)
  moreover have "a\<lparr>as_res := as_res a'\<rparr> = a'" by (simp add: a'_def as_write_def)
  moreover have "as_text L RConfigArmMode a' = Some tx" using item [of RConfigArmMode] tex by (simp add: as_text_def)
  moreover have "\<forall>u. u \<noteq> RConfigArmMode \<longrightarrow> as_item L u a' = as_item L u a" using item by simp
  ultimately show ?thesis using set id(1) e(2,3) by (intro exI [of _ at'] exI [of _ a'] exI [of _ id] exI [of _ e]) (simp add: as_setValueText_def Let_def)
qed

lemma target_mode:
  assumes "as_inv L a" "lib_ok L" "m \<noteq> as_targetState a" "AS_ArmModeToString m = Some tx" "qs_trimmed (al_qt L) tx = tx" "as_text L RConfigArmMode a \<noteq> Some tx"
  shows "\<exists>at' a' id e. as_setTargetArmMode L q now ts m (at, a, db) =
      Some (True, at', a', snd (DB_StoreAlarmSystemResourceItem q
        \<lparr>di_alarmSystemId = id, di_suffix = RConfigArmMode, di_value = tx, di_timestamp = ts\<rparr> db), [e]) \<and>
    as_id L a = Some id \<and> as_text L RConfigArmMode a' = Some tx \<and> ev_resource e = RAlarmSystems \<and> ev_what e = RConfigArmMode \<and>
    a' = a\<lparr>as_res := as_res a'\<rparr> \<and> (\<forall>u. u \<noteq> RConfigArmMode \<longrightarrow> as_item L u a' = as_item L u a)"
proof -
  have m: "m \<noteq> AS_ArmModeMax" using mode_strings [OF assms(4)] by simp
  obtain at' a' id e where w: "as_setValueText L q now ts RConfigArmMode tx (at, a, db) =
      Some (True, at', a', snd (DB_StoreAlarmSystemResourceItem q
        \<lparr>di_alarmSystemId = id, di_suffix = RConfigArmMode, di_value = tx, di_timestamp = ts\<rparr> db), [e])"
    "as_id L a = Some id" "as_text L RConfigArmMode a' = Some tx" "ev_resource e = RAlarmSystems" "ev_what e = RConfigArmMode"
    "a' = a\<lparr>as_res := as_res a'\<rparr>" "\<forall>u. u \<noteq> RConfigArmMode \<longrightarrow> as_item L u a' = as_item L u a"
    using mode_text [OF assms(1,2,5,6), of q now ts at db] by blast
  have "as_setTargetArmMode L q now ts m (at, a, db) =
      Some (True, at', a', snd (DB_StoreAlarmSystemResourceItem q
        \<lparr>di_alarmSystemId = id, di_suffix = RConfigArmMode, di_value = tx, di_timestamp = ts\<rparr> db), [e])"
    using w(1) m assms(3,4) by (simp add: as_setTargetArmMode_def)
  then show ?thesis using w by blast
qed

text \<open>C25: Between the command and its event, a second command that asks for the current mode is lost.\<close>

theorem alarm_lost_command:
  assumes "lib_ok L" "alarm_reach L q a" "as_tState a \<le> t" "m \<noteq> as_targetState a" "AS_ArmModeToString m = Some tx"
    "qs_trimmed (al_qt L) tx = tx" "as_text L RConfigArmMode a \<noteq> Some tx"
  shows "\<exists>at1 a1 db1 e a2 es. as_setTargetArmMode L q now ts m (at, a, db) = Some (True, at1, a1, db1, [e]) \<and>
    ev_resource e = RAlarmSystems \<and> ev_what e = RConfigArmMode \<and>
    as_setTargetArmMode L q now' ts' (as_targetState a) (at1, a1, db1) = Some (True, at1, a1, db1, []) \<and>
    as_handleEvent L now t e a1 = Some (a2, es) \<and> as_targetState a2 = m \<and> as_curState a2 = StateExitDelay"
proof -
  have inv: "as_inv L a" by (rule reach_inv [OF assms(1,2)])
  obtain at1 a1 id e where w: "as_setTargetArmMode L q now ts m (at, a, db) =
      Some (True, at1, a1, snd (DB_StoreAlarmSystemResourceItem q
        \<lparr>di_alarmSystemId = id, di_suffix = RConfigArmMode, di_value = tx, di_timestamp = ts\<rparr> db), [e])"
    "as_text L RConfigArmMode a1 = Some tx" "ev_resource e = RAlarmSystems" "ev_what e = RConfigArmMode" "a1 = a\<lparr>as_res := as_res a1\<rparr>"
    using target_mode [OF inv assms(1,4-7), of q now ts at db] by blast
  have same: "as_targetState a1 = as_targetState a" "as_tState a1 = as_tState a"
    by (subst w(5), simp)+
  have r1: "alarm_reach L q a1" by (rule reach_mode [OF assms(2) w(1)])
  have max: "as_targetState a \<noteq> AS_ArmModeMax" using inv by (simp add: as_inv_def mode_fits_def)
  have "AS_ArmModeFromString tx \<notin> {AS_ArmModeMax, as_targetState a1}" using mode_strings [OF assms(5)] assms(4) same by simp
  have inv1: "as_inv L a1" by (rule reach_inv [OF assms(1) r1])
  have "as_input L a1 e = Arm m" using mode_strings [OF assms(5)] w(2-4) by (cases m) (simp_all add: as_input_def)
  then obtain a2 es where h: "as_handleEvent L now t e a1 = Some (a2, es)" "as_abs L a2 = spec_step (as_cfg L a1) t (Arm m) (as_abs L a1)"
    using handle_refines [OF inv1, of t e now] assms(3) same by (auto simp: refines_def)
  have "ct_mode (as_abs L a1) \<noteq> m" using assms(4) same by (simp add: as_abs_def)
  then have "ct_state (as_abs L a2) = StateExitDelay" "ct_mode (as_abs L a2) = m" using h(2) by (simp_all add: spec_step_def Let_def split: prod.split)
  then have "as_curState a2 = StateExitDelay" "as_targetState a2 = m" by (simp_all add: as_abs_def)
  moreover have "as_setTargetArmMode L q now' ts' (as_targetState a) (at1, a1, d) = Some (True, at1, a1, d, [])" for d
    using max same by (simp add: as_setTargetArmMode_def)
  ultimately show ?thesis using w h(1) by blast
qed

lemma lib0_trim: "qs_trimmed (al_qt lib0) tx = tx"
  by (simp add: lib0_def qt0_def)

lemmas disarmed_system = loaded_system [where mode = "''disarmed''" and m = AS_ArmModeDisarmed,
  unfolded AS_ArmModeFromString_def armModeStrings_def, simplified]

theorem alarm_lost_command_witness:
  "\<exists>at1 a1 db1 e a2 es. as_setTargetArmMode lib0 mem_db 5 5 AS_ArmModeArmedAway ([], loaded_system ''disarmed'', []) = Some (True, at1, a1, db1, [e]) \<and>
    as_setTargetArmMode lib0 mem_db 6 6 AS_ArmModeDisarmed (at1, a1, db1) = Some (True, at1, a1, db1, []) \<and>
    as_handleEvent lib0 5 7 e a1 = Some (a2, es) \<and> as_targetState a2 = AS_ArmModeArmedAway \<and> as_curState a2 = StateExitDelay"
proof -
  have m: "AS_ArmModeToString AS_ArmModeArmedAway = Some ''armed_away''" by (simp add: AS_ArmModeToString_def armModeStrings_def)
  show ?thesis
    using alarm_lost_command [OF lib0_ok disarmed_system(1) _ _ m lib0_trim, where q = mem_db and t = 7 and now = 5 and ts = 5 and at = "[]" and db = "[]" and now' = 6 and ts' = 6]
      disarmed_system(2,4,6) by auto
qed


section \<open>Configuration that survives a restart\<close>

lemma strtol_digits: "n < 2 ^ 63 \<Longrightarrow> c_strtol10 (digits n) = word_of_int (int n)"
proof -
  assume n: "n < 2 ^ 63"
  obtain d cs where d: "digits n = d # cs" "\<not> c_isspace d" "d \<noteq> CHR ''-''" "d \<noteq> CHR ''+''" using digits_first by blast
  have s: "dropWhile c_isspace (digits n) = digits n" "skip_sign (digits n) = (False, digits n)" using d by (simp_all add: skip_sign_def)
  have v: "scan_num 10 (digits n) 0 = n" using scan_digits [of n "[]" 0] by simp
  have "min (int n) (2 ^ 63 - 1) = int n" using n by simp
  then show ?thesis unfolding c_strtol10_def s Let_def prod.case v by simp
qed

lemma delay_described:
  assumes L: "lib_ok L" and i: "as_item L s a = Some i" and s: "s \<in> set as_delays"
  shows "rd_type (ri_descriptor (al_rids L) i) = DataTypeUInt8"
proof -
  have sfx: "rd_suffix (ri_descriptor (al_rids L) i) = s" using item_suffix [of "al_rids L" s "as_res a" i] i by (simp add: as_item_def)
  have "al_rids L \<noteq> []" using L by (auto simp: lib_ok_def initResourceDescriptors_def descriptors_attr_def)
  then have d: "ri_descriptor (al_rids L) i \<in> set (al_rids L)" by (auto simp: ri_descriptor_def)
  have "\<exists>d \<in> set as_descriptors. rd_suffix d = s \<and> rd_type d = DataTypeUInt8"
    using s by (auto simp: as_delays_def as_descriptors_def rid_range_def)
  then show ?thesis using desc_of [OF L d] sfx by metis
qed

lemma update_same: "find P xs = Some i \<Longrightarrow> update_first P (\<lambda>_. i) xs = xs"
  by (induction xs) (auto split: if_split_asm)

lemma rs_update_same: "rs_item ds s r = Some i \<Longrightarrow> rs_update ds s (\<lambda>_. i) r = r"
  by (simp add: rs_item_def rs_update_def update_same)

lemma delay_names: "s \<in> set as_delays \<Longrightarrow> s \<in> set as_stored \<and> s ! 0 = CHR ''c'' \<and> length s \<le> 40 \<and> s \<noteq> RConfigAlarmSystemId \<and> s \<noteq> RAttrId"
  by (auto simp: as_delays_def as_stored_def suffixes)

text \<open>A delay: what \<open>setValue\<close> refuses, what it stores, and what a stored row gives back.\<close>

lemma delay_range:
  assumes "as_items_ok L (as_res a)" "as_item L s a = Some i" "s \<in> set as_delays"
  shows "\<not> no_range (ri_descriptor (al_rids L) i)" "in_range (ri_descriptor (al_rids L) i) k \<longleftrightarrow> 0 \<le> k \<and> k \<le> 255"
  using delay_item [OF assms] by (auto simp: byte_delay_def no_range_def in_range_def)

lemma delay_refused:
  assumes "as_items_ok L (as_res a)" "as_item L s a = Some i" "s \<in> set as_delays" "sint n < 0 \<or> 255 < sint n"
  shows "as_setValueNumber L q now ts s n (a, db) = Some (False, a, db, [])"
proof -
  have "ri_setNumber (al_rids L) now n SourceUnknown i = (False, i)" using delay_range [OF assms(1-3)] assms(4) by (auto simp: ri_setNumber_def Let_def)
  then have "rs_setNumber (al_rids L) now s n False (as_res a) = (False, as_res a)"
    using assms(2) rs_update_same [of "al_rids L" s "as_res a" i] by (simp add: rs_setNumber_def as_item_def)
  then show ?thesis by (simp add: as_setValueNumber_def)
qed

definition delay_row :: "u32 \<Rightarrow> string \<Rightarrow> s64 \<Rightarrow> u64 \<Rightarrow> db_item" where
  "delay_row asid s n ts = \<lparr>di_alarmSystemId = asid, di_suffix = s, di_value = digits (nat (sint n)), di_timestamp = ts\<rparr>"

lemma delay_row_runs:
  assumes "s \<in> set as_delays" "0 \<le> sint n" "sint n \<le> 255" "db_open q"
  shows "DB_StoreAlarmSystemResourceItem q (delay_row asid s n ts) db = sql_exec q (sql_store_item (delay_row asid s n ts)) db"
proof -
  have "length (digits (nat (sint n))) \<le> 3" using assms(2,3) by (intro length_digits) auto
  then have "length (sql_store_item (delay_row asid s n ts)) < 200"
    using delay_names [OF assms(1)] length_fmt_d [of asid] length_fmt_u64 [of ts] by (simp add: sql_store_item_def delay_row_def)
  moreover have "di_value (delay_row asid s n ts) \<noteq> []" using digits_first [of "nat (sint n)"] by (auto simp: delay_row_def)
  ultimately show ?thesis using assms(4) by (simp add: DB_StoreAlarmSystemResourceItem_def sql_run_def)
qed

lemma delay_written:
  assumes "as_items_ok L (as_res a)" "as_item L s a = Some i" "s \<in> set as_delays" "0 \<le> sint n" "sint n \<le> 255"
    and i': "i' = snd (ri_setNumber (al_rids L) now n SourceUnknown i)"
  shows "ri_setNumber (al_rids L) now n SourceUnknown i = (True, i')" "ri_num i' = n"
    "as_items_ok L (as_res (as_write L s i' a))" "as_item L u (as_write L s i' a) = (if u = s then Some i' else as_item L u a)"
proof -
  show "ri_setNumber (al_rids L) now n SourceUnknown i = (True, i')" "ri_num i' = n"
    using delay_range [OF assms(1-3)] assms(4-5) by (auto simp: i' ri_setNumber_def Let_def)
  have g: "good_write L s i i'" unfolding i' by (rule number_good [OF assms(1,2)])
  show "as_items_ok L (as_res (as_write L s i' a))" by (rule good_write_items [OF assms(1,2) g])
  show "as_item L u (as_write L s i' a) = (if u = s then Some i' else as_item L u a)"
    by (rule write_ok(2) [OF assms(1,2)]) (use g in \<open>unfold good_write_def, blast+\<close>)
qed

lemma delay_stored:
  assumes L: "lib_ok L" and items: "as_items_ok L (as_res a)" and i: "as_item L s a = Some i" and s: "s \<in> set as_delays"
    and n: "0 \<le> sint n" "sint n \<le> 255" and q: "db_open q" and ne: "ri_toNumber i \<noteq> n"
  shows "\<exists>a' id e. as_setValueNumber L q now ts s n (a, db) = Some (True, a', snd (sql_exec q (sql_store_item (delay_row id s n ts)) db), [e]) \<and>
    as_id L a = Some id \<and> as_number L s a' = Some n \<and> ev_resource e = RAlarmSystems \<and> ev_what e = s"
proof -
  define i' where "i' = snd (ri_setNumber (al_rids L) now n SourceUnknown i)"
  define a' where "a' = as_write L s i' a"
  note w = delay_written [OF items i s n i'_def, folded a'_def]
  have set: "rs_setNumber (al_rids L) now s n False (as_res a) = (True, as_res a')"
    using i ne w(1) by (simp add: rs_setNumber_def as_item_def a'_def as_write_def)
  obtain e where e: "as_event L s i' a' = Some e" "ev_resource e = RAlarmSystems" "ev_what e = s"
    using w(3) by (auto simp: as_event_def as_idString_def as_text_def as_item_def as_items_ok_def EventItem_def Event0_def)
  obtain id where id: "as_id L a = Some id" "as_id L a' = Some id"
    using items w(4) [of RConfigAlarmSystemId] delay_names [OF s] by (auto simp: as_id_def as_number_def as_items_ok_def as_item_def)
  have ty: "rd_type (ri_descriptor (al_rids L) i') = DataTypeUInt8" using delay_described [OF L _ s, of a' i'] w(4) [of s] by simp
  have "as_didSetValue L q ts s (a', db) = Some ([e], snd (sql_exec q (sql_store_item (delay_row id s n ts)) db))"
    using w(4) [of s] e(1) id(2) delay_names [OF s] ty w(2) n delay_row_runs [OF s n q, of id ts db]
    by (simp add: as_didSetValue_def Let_def ri_toNumber_def number_text_def delay_row_def)
  moreover have "a\<lparr>as_res := as_res a'\<rparr> = a'" by (simp add: a'_def as_write_def)
  ultimately have "as_setValueNumber L q now ts s n (a, db) = Some (True, a', snd (sql_exec q (sql_store_item (delay_row id s n ts)) db), [e])"
    using set by (simp add: as_setValueNumber_def Let_def)
  moreover have "as_number L s a' = Some n" using w(4) [of s] w(2) by (simp add: as_number_def ri_toNumber_def)
  ultimately show ?thesis using id(1) e(2,3) by blast
qed

lemma delay_loaded:
  assumes L: "lib_ok L" and b: "as_fresh L b" and s: "s \<in> set as_delays" and n: "0 \<le> sint n" "sint n \<le> 255"
  shows "as_number L s (snd (as_loadItem L now (s, di_value (delay_row asid s n ts)) (at, b))) = Some n"
proof -
  have items: "as_items_ok L (as_res b)" using b by (simp add: as_fresh_def)
  obtain j where j: "as_item L s b = Some j" using items s by (auto simp: as_items_ok_def as_item_def)
  have lt: "nat (sint n) < 2 ^ 63" using n by (simp add: nat_less_iff)
  have v: "c_strtol10 (digits (nat (sint n))) = n" using n strtol_digits [OF lt] by simp
  have d: "digits (nat (sint n)) \<noteq> []" using digits_first [of "nat (sint n)"] by auto
  note w = delay_written [OF items j s n refl, where now = now]
  show ?thesis using j d v w(2) w(4) [of s] delay_described [OF L j s] by (simp add: as_loadItem_def as_number_def ri_toNumber_def delay_row_def)
qed

text \<open>C26: A delay outside 0..255 is refused and nothing changes; one inside is set, its event emitted and its row given to SQLite whole; and a
  system that loads the row later has the delay again.\<close>

theorem alarm_config_roundtrip:
  assumes "lib_ok L" "alarm_reach L q a" "s \<in> set as_delays" "db_open q" "as_number L s a \<noteq> Some n"
  shows "(sint n < 0 \<or> 255 < sint n \<longrightarrow> as_setValueNumber L q now ts s n (a, db) = Some (False, a, db, [])) \<and>
    (0 \<le> sint n \<and> sint n \<le> 255 \<longrightarrow>
      (\<exists>a' id e. as_setValueNumber L q now ts s n (a, db) = Some (True, a', snd (sql_exec q (sql_store_item (delay_row id s n ts)) db), [e]) \<and>
         as_id L a = Some id \<and> as_number L s a' = Some n \<and> ev_resource e = RAlarmSystems \<and> ev_what e = s \<and>
         (\<forall>at b. as_fresh L b \<longrightarrow> as_number L s (snd (as_loadItem L now' (s, di_value (delay_row id s n ts)) (at, b))) = Some n)))"
proof -
  have items: "as_items_ok L (as_res a)" using reach_inv [OF assms(1,2)] by (simp add: as_inv_def)
  obtain i where i: "as_item L s a = Some i" using items assms(3) by (auto simp: as_items_ok_def as_item_def)
  then have "ri_toNumber i \<noteq> n" using assms(5) by (simp add: as_number_def)
  then show ?thesis
    using delay_refused [OF items i assms(3), of n q now ts db] delay_stored [OF assms(1) items i assms(3) _ _ assms(4), of n now ts db]
      delay_loaded [OF assms(1) _ assms(3)] by blast
qed

theorem alarm_config_roundtrip_witness:
  "\<exists>n \<in> {7, 8}. \<exists>a' id e. as_setValueNumber lib0 mem_db 5 5 RConfigArmedAwayEntryDelay n (loaded_system ''armed_away'', []) =
      Some (True, a', [sql_store_item (delay_row id RConfigArmedAwayEntryDelay n 5)], [e])"
proof -
  let ?a = "loaded_system ''armed_away''"
  have m: "AS_ArmModeFromString ''armed_away'' = AS_ArmModeArmedAway" by (simp add: AS_ArmModeFromString_def armModeStrings_def)
  have r: "alarm_reach lib0 mem_db ?a" using loaded_system(1) [OF m, simplified] .
  have s: "RConfigArmedAwayEntryDelay \<in> set as_delays" by (simp add: as_delays_def)
  define n :: s64 where "n = (if as_number lib0 RConfigArmedAwayEntryDelay ?a = Some 7 then 8 else 7)"
  have n: "as_number lib0 RConfigArmedAwayEntryDelay ?a \<noteq> Some n" "0 \<le> sint n" "sint n \<le> 255" "n \<in> {7, 8}" by (auto simp: n_def)
  have q: "db_open mem_db" "snd (sql_exec mem_db sql []) = [sql]" for sql by (simp_all add: mem_db_def)
  show ?thesis using alarm_config_roundtrip [OF lib0_ok r s q(1) n(1), where now = 5 and ts = 5 and db = "[]"] n(2-4) q(2) by auto
qed

end
