(* ===== verification/Alarm_Events.thy ===== *)
theory Alarm_Events
  imports Alarm_Reach
begin

text \<open>
  Alarm systems among the other parts of the plugin: the handlers of events (\<^verbatim>\<open>alarm_system_event_handler.cpp\<close>), the keypads
  (\<^verbatim>\<open>ias_ace.cpp\<close>) with the lookup of sensors and lights (\<^verbatim>\<open>de_web_plugin.cpp\<close>), and their composition with the event emitter.
\<close>


section \<open>The plugin's sensors and lights\<close>

record rest_node =
  rn_id :: string
  rn_uid :: string
  rn_normal :: bool
  rn_res :: resource

record ws_message =
  wm_id :: string
  wm_group :: string
  wm_values :: "string \<rightharpoonup> qvariant"

record 'at as_plugin =
  pl_atoms :: 'at
  pl_sensors :: "rest_node list"
  pl_nodes :: "rest_node list"
  pl_devTable :: "as_entry list"
  pl_systems :: "alarm_system list"
  pl_messages :: "ws_message list"

datatype res_ref = SensorRef nat | LightRef nat

definition MIN_UNIQUEID_LENGTH :: nat where "MIN_UNIQUEID_LENGTH = 26"

definition rn_idText :: "'at res_lib \<Rightarrow> rest_node \<Rightarrow> string" where
  "rn_idText L n = (case rs_item (al_rids L) RAttrId (rn_res n) of Some i \<Rightarrow> ri_toString (al_fmt L) (al_rids L) i | None \<Rightarrow> rn_id n)"

definition rn_uniqueId :: "'at res_lib \<Rightarrow> rest_node \<Rightarrow> string" where
  "rn_uniqueId L n = (case rs_item (al_rids L) RAttrUniqueId (rn_res n) of Some i \<Rightarrow> ri_toString (al_fmt L) (al_rids L) i | None \<Rightarrow> rn_uid n)"

text \<open>The first element with a property, by its index.\<close>

fun first_index :: "('a \<Rightarrow> bool) \<Rightarrow> 'a list \<Rightarrow> nat option" where
  "first_index P [] = None"
| "first_index P (x # xs) = (if P x then Some 0 else map_option Suc (first_index P xs))"

definition sensorForUniqueId :: "'at res_lib \<Rightarrow> string \<Rightarrow> rest_node list \<Rightarrow> nat option" where
  "sensorForUniqueId L uid sensors = (if uid = [] then None else first_index (\<lambda>s. rn_normal s \<and> rn_uniqueId L s = uid) sensors)"

definition sensorForId :: "'at res_lib \<Rightarrow> string \<Rightarrow> rest_node list \<Rightarrow> nat option" where
  "sensorForId L i sensors = first_index (\<lambda>s. rn_normal s \<and> rn_idText L s = i) sensors"

definition lightForId :: "'at res_lib \<Rightarrow> string \<Rightarrow> rest_node list \<Rightarrow> nat option" where
  "lightForId L i nodes =
     (if length i < MIN_UNIQUEID_LENGTH then first_index (\<lambda>n. rn_idText L n = i \<and> rn_normal n) nodes
      else first_index (\<lambda>n. rn_uniqueId L n = i \<and> rn_normal n) nodes)"

text \<open>\<^verbatim>\<open>getResource\<close> for sensors and lights.\<close>

definition pl_getResource :: "'at res_lib \<Rightarrow> string \<Rightarrow> string \<Rightarrow> 'at as_plugin \<Rightarrow> res_ref option" where
  "pl_getResource L resource i pl =
     (if resource = RSensors then
        map_option SensorRef (if length i < MIN_UNIQUEID_LENGTH then sensorForId L i (pl_sensors pl) else sensorForUniqueId L i (pl_sensors pl))
      else if resource = RLights then map_option LightRef (lightForId L i (pl_nodes pl))
      else None)"

definition pl_res :: "res_ref \<Rightarrow> 'at as_plugin \<Rightarrow> resource" where
  "pl_res ref pl = (case ref of SensorRef k \<Rightarrow> rn_res (pl_sensors pl ! k) | LightRef k \<Rightarrow> rn_res (pl_nodes pl ! k))"

definition pl_setRes :: "res_ref \<Rightarrow> resource \<Rightarrow> 'at as_plugin \<Rightarrow> 'at as_plugin" where
  "pl_setRes ref r pl =
     (case ref of
        SensorRef k \<Rightarrow> pl\<lparr>pl_sensors := (pl_sensors pl)[k := (pl_sensors pl ! k)\<lparr>rn_res := r\<rparr>]\<rparr>
      | LightRef k \<Rightarrow> pl\<lparr>pl_nodes := (pl_nodes pl)[k := (pl_nodes pl ! k)\<lparr>rn_res := r\<rparr>]\<rparr>)"

section \<open>Keypads\<close>

text \<open>One entry of the device table: a keypad shows the panel and the seconds of the given system.\<close>

definition mirrorKeypad ::
  "'at res_lib \<Rightarrow> int \<Rightarrow> alarm_system \<Rightarrow> as_entry \<Rightarrow> 'at as_plugin \<times> event list \<Rightarrow> ('at as_plugin \<times> event list) option" where
  "mirrorKeypad L now a entry st =
     (case st of (pl, es) \<Rightarrow>
        if ae_isValid entry \<and> ae_flags entry AND AS_ENTRY_FLAG_IAS_ACE \<noteq> 0 then
          (case pl_getResource L RSensors (take (unat (ae_uniqueIdSize entry)) (ae_uniqueId entry)) pl of
             None \<Rightarrow> Some (pl, es)
           | Some ref \<Rightarrow>
               (let r = pl_res ref pl in
                case (rs_item (al_rids L) RStatePanel r, rs_item (al_rids L) RStateSecondsRemaining r) of
                  (Some panel, Some secs) \<Rightarrow> do {
                    n \<leftarrow> as_secondsRemaining L a;
                    s \<leftarrow> as_armStateString L a;
                    let secs = snd (ri_setNumber (al_rids L) now (ucast n) SourceUnknown secs);
                    let (_, at, panel) = ri_setString (al_atoms L) (al_qt L) (al_rids L) now s SourceUnknown (pl_atoms pl) panel;
                    let r = rs_update (al_rids L) RStatePanel (\<lambda>_. panel) (rs_update (al_rids L) RStateSecondsRemaining (\<lambda>_. secs) r);
                    let pl = pl_setRes ref r (pl\<lparr>pl_atoms := at\<rparr>);
                    idItem \<leftarrow> (if ri_needPushChange panel \<or> ri_needPushChange secs then rs_item (al_rids L) RAttrId r else Some panel);
                    let idText = ri_toString (al_fmt L) (al_rids L) idItem;
                    Some (pl, es @
                      (if ri_needPushChange panel then [EventKey (rs_prefix r) RStatePanel idText 0] else []) @
                      (if ri_needPushChange secs then [EventKey (rs_prefix r) RStateSecondsRemaining idText 0] else [])) }
                | _ \<Rightarrow> Some (pl, es)))
        else Some (pl, es))"

fun mirrorKeypads ::
  "'at res_lib \<Rightarrow> int \<Rightarrow> alarm_system \<Rightarrow> as_entry list \<Rightarrow> 'at as_plugin \<times> event list \<Rightarrow> ('at as_plugin \<times> event list) option" where
  "mirrorKeypads L now a [] st = Some st"
| "mirrorKeypads L now a (e # es) st = do { st \<leftarrow> mirrorKeypad L now a e st; mirrorKeypads L now a es st }"

definition mirrorKeypadAlarmSystemState ::
  "'at res_lib \<Rightarrow> int \<Rightarrow> alarm_system \<Rightarrow> 'at as_plugin \<Rightarrow> ('at as_plugin \<times> event list) option" where
  "mirrorKeypadAlarmSystemState L now a pl = mirrorKeypads L now a (pl_devTable pl) (pl, [])"

section \<open>Messages to the websocket\<close>

definition first_char :: "string \<Rightarrow> char" where
  "first_char s = (case s of [] \<Rightarrow> CHR 0x00 | c # _ \<Rightarrow> c)"

text \<open>
  The items of the event's group that are public: the push flags are cleared, the values collected. The text of the panel
  is only used for the arm state item, so it is there when it is used.
\<close>

fun push_items ::
  "'at res_lib \<Rightarrow> string \<Rightarrow> nat \<Rightarrow> string \<Rightarrow> resource_item list \<Rightarrow> (string \<rightharpoonup> qvariant) \<Rightarrow> resource_item list \<times> (string \<rightharpoonup> qvariant)" where
  "push_items L what off panel [] m = ([], m)"
| "push_items L what off panel (i # is) m =
     (let suffix = ri_suffix (al_rids L) i in
      if first_char suffix = first_char what \<and> ri_isPublic i then
        (let i = ri_clearNeedPush i;
             m = m(drop off suffix \<mapsto> (if suffix = RStateArmState then QString panel else ri_toVariant (al_fmt L) (al_rids L) i));
             (is, m) = push_items L what off panel is m in
         (i # is, m))
      else (let (is, m) = push_items L what off panel is m in (i # is, m)))"

definition pushEventToWebsocket :: "'at res_lib \<Rightarrow> event \<Rightarrow> alarm_system \<Rightarrow> (alarm_system \<times> ws_message list) option" where
  "pushEventToWebsocket L e a =
     (let what = ev_what e in
      if first_char what \<noteq> CHR ''s'' \<and> first_char what \<noteq> CHR ''c'' \<and> first_char what \<noteq> CHR ''a'' then Some (a, [])
      else if CHR ''/'' \<notin> set what then Some (a, [])
      else
        (let suffixOffset = length (takeWhile (\<lambda>c. c \<noteq> CHR ''/'') what) + 1 in
         case as_item L what a of
           None \<Rightarrow> Some (a, [])
         | Some item \<Rightarrow>
             if \<not> (ri_needPushSet item \<or> ri_needPushChange item) then Some (a, [])
             else do {
               idString \<leftarrow> as_idString L a;
               let panel = (case as_armStateString L a of Some s \<Rightarrow> s | None \<Rightarrow> []);
               let (is, m) = push_items L what suffixOffset panel (rs_items (as_res a)) Map.empty;
               Some (a\<lparr>as_res := (as_res a)\<lparr>rs_items := is\<rparr>\<rparr>,
                 [\<lparr>wm_id = idString, wm_group = take (suffixOffset - 1) what, wm_values = m\<rparr>]) }))"

section \<open>Handlers of the alarm systems\<close>

definition AS_HandleOne ::
  "'at res_lib \<Rightarrow> int \<Rightarrow> int \<Rightarrow> event \<Rightarrow> nat \<Rightarrow> 'at as_plugin \<times> event list \<Rightarrow> ('at as_plugin \<times> event list) option" where
  "AS_HandleOne L now t e k st =
     (case st of (pl, es) \<Rightarrow> do {
        (a, es1) \<leftarrow> as_handleEvent L now t e (pl_systems pl ! k);
        let pl = pl\<lparr>pl_systems := (pl_systems pl)[k := a]\<rparr>;
        (pl, es2) \<leftarrow> (if ev_what e = RStateArmState \<or> ev_what e = RStateSecondsRemaining
                     then mirrorKeypadAlarmSystemState L now a pl else Some (pl, []));
        idString \<leftarrow> (if ev_resource e = RAlarmSystems then as_idString L a else Some []);
        (a, ms) \<leftarrow> (if ev_resource e = RAlarmSystems \<and> ev_id e = idString then pushEventToWebsocket L e a else Some (a, []));
        Some (pl\<lparr>pl_systems := (pl_systems pl)[k := a], pl_messages := pl_messages pl @ ms\<rparr>, es @ es1 @ es2) })"

fun AS_HandleAll ::
  "'at res_lib \<Rightarrow> int \<Rightarrow> int \<Rightarrow> event \<Rightarrow> nat list \<Rightarrow> 'at as_plugin \<times> event list \<Rightarrow> ('at as_plugin \<times> event list) option" where
  "AS_HandleAll L now t e [] st = Some st"
| "AS_HandleAll L now t e (k # ks) st = do { st \<leftarrow> AS_HandleOne L now t e k st; AS_HandleAll L now t e ks st }"

definition AS_HandleAlarmSystemEvent ::
  "'at res_lib \<Rightarrow> int \<Rightarrow> int \<Rightarrow> event \<Rightarrow> 'at as_plugin \<Rightarrow> ('at as_plugin \<times> event list) option" where
  "AS_HandleAlarmSystemEvent L now t e pl = AS_HandleAll L now t e [0..<length (pl_systems pl)] (pl, [])"

definition IAS_ACE_CMD_ARM :: u8 where "IAS_ACE_CMD_ARM = 0"
definition IAS_ACE_CMD_EMERGENCY :: u8 where "IAS_ACE_CMD_EMERGENCY = 2"
definition IAS_ACE_CMD_PANIC :: u8 where "IAS_ACE_CMD_PANIC = 4"
definition IAS_ACE_CMD_GET_PANEL_STATUS :: u8 where "IAS_ACE_CMD_GET_PANEL_STATUS = 7"

definition isAlarmSystemDeviceEvent :: "event \<Rightarrow> bool" where
  "isAlarmSystemDeviceEvent e =
     (if first_char (ev_what e) \<noteq> CHR ''s'' then False
      else if ev_resource e = RSensors then
        (if ev_what e = RStatePresence then 0 < sint (ev_num e)
         else if ev_what e = RStateOpen then 0 < sint (ev_num e)
         else if ev_what e = RStateVibration then 0 < sint (ev_num e)
         else if ev_what e = RStateButtonEvent then True
         else if ev_what e = RStateAction then
           sint (ev_num e) \<ge> uint IAS_ACE_CMD_EMERGENCY \<and> sint (ev_num e) \<le> uint IAS_ACE_CMD_PANIC
         else False)
      else if ev_resource e = RLights then (if ev_what e = RStateOn then 0 < sint (ev_num e) else False)
      else False)"

definition deviceAlarmData :: "as_entry \<Rightarrow> s32" where
  "deviceAlarmData entry =
     ucast (ae_alarmSystemId entry) OR
     (ae_flags entry AND (AS_ENTRY_FLAG_ARMED_AWAY OR AS_ENTRY_FLAG_ARMED_STAY OR AS_ENTRY_FLAG_ARMED_NIGHT))"

definition AS_HandleAlarmSystemDeviceEvent :: "'at res_lib \<Rightarrow> event \<Rightarrow> 'at as_plugin \<Rightarrow> event list" where
  "AS_HandleAlarmSystemDeviceEvent L e pl =
     (if \<not> isAlarmSystemDeviceEvent e then []
      else
        (case pl_getResource L (ev_resource e) (ev_id e) pl of
           None \<Rightarrow> []
         | Some ref \<Rightarrow>
             (let r = pl_res ref pl in
              case rs_item (al_rids L) RAttrUniqueId r of
                None \<Rightarrow> []
              | Some uniqueId \<Rightarrow>
                  (let entry = as_getUid (ri_toString (al_fmt L) (al_rids L) uniqueId) (pl_devTable pl) in
                   if \<not> ae_isValid entry then []
                   else if rs_item (al_rids L) (ev_what e) r = None then []
                   else [EventNum RAlarmSystems REventDeviceAlarm (deviceAlarmData entry) 0]))))"

section \<open>Commands of keypads\<close>

definition IAS_PanelStatusFromString :: "string \<Rightarrow> int" where
  "IAS_PanelStatusFromString s = (case first_index (\<lambda>p. p = s) IAS_PanelStates of Some k \<Rightarrow> int k | None \<Rightarrow> - 1)"

definition IAS_ArmResponse :: "string list" where
  "IAS_ArmResponse = [''disarmed'', ''armed_stay'', ''armed_night'', ''armed_away'', ''invalid_code'', ''not_ready'', ''already_disarmed'']"

definition arm_mode_of :: "u8 \<Rightarrow> AS_ArmMode" where
  "arm_mode_of n =
     (if n = 0 then AS_ArmModeDisarmed else if n = 1 then AS_ArmModeArmedStay else if n = 2 then AS_ArmModeArmedNight
      else if n = 3 then AS_ArmModeArmedAway else AS_ArmModeMax)"

text \<open>\<open>valid\<close> is \<open>as_isValidCode\<close> with the secrets of the database.\<close>

definition handleArmCommand ::
  "'at res_lib \<Rightarrow> 'db sqlite \<Rightarrow> int \<Rightarrow> u64 \<Rightarrow> (string \<Rightarrow> u64 \<Rightarrow> alarm_system \<Rightarrow> bool option) \<Rightarrow> u8 \<Rightarrow> string \<Rightarrow> u64 \<Rightarrow>
     'at \<times> alarm_system \<times> 'db \<Rightarrow> (u8 \<times> 'at \<times> alarm_system \<times> 'db \<times> event list) option" where
  "handleArmCommand L q now ts valid armMode pinCode srcAddress st =
     (case st of (at, a, db) \<Rightarrow>
        if armMode > 3 then Some (5, at, a, db, [])
        else do {
          ok \<leftarrow> valid pinCode srcAddress a;
          (if \<not> ok then Some (4, at, a, db, [])
           else if as_targetState a = AS_ArmModeDisarmed \<and> arm_mode_of armMode = AS_ArmModeDisarmed then Some (6, at, a, db, [])
           else if as_targetState a \<noteq> arm_mode_of armMode then do {
             (_, at, a, db, es) \<leftarrow> as_setTargetArmMode L q now ts (arm_mode_of armMode) (at, a, db);
             Some (armMode, at, a, db, es) }
           else Some (armMode, at, a, db, [])) })"

text \<open>
  A frame of the IAS ACE cluster, and what is sent back. Whether \<^verbatim>\<open>char\<close> is signed depends on the platform;
  \<^verbatim>\<open>QString::fromUtf8\<close> is an argument, a negative length means up to the terminating zero.
\<close>

record ace_frame =
  af_isDefaultResponse :: bool
  af_serverToClient :: bool
  af_commandId :: u8
  af_payload :: "u8 list"

datatype ace_response = ArmResponse u8 | PanelStatusResponse "u8 list"

definition ace_code :: "bool \<Rightarrow> (u8 list \<Rightarrow> string) \<Rightarrow> u8 list \<Rightarrow> string" where
  "ace_code char_signed fromUtf8 payload =
     (if length payload > 2 then
        (let len = (if char_signed then sint (payload ! 1) else uint (payload ! 1)) in
         if len \<le> int (length payload) - 2 then
           fromUtf8 (if len < 0 then takeWhile (\<lambda>b. b \<noteq> 0) (drop 2 payload) else take (nat len) (drop 2 payload))
         else ''invalid_code'')
      else [])"

definition ace_default_response :: "bool \<Rightarrow> u8 list \<Rightarrow> u8" where
  "ace_default_response char_signed payload =
     (if length payload > 2 \<and> (if char_signed then sint (payload ! 1) else uint (payload ! 1)) > int (length payload) - 2 then 4 else 5)"

definition panelStatusPayload :: "u8 \<Rightarrow> u8 \<Rightarrow> u8 list" where
  "panelStatusPayload status secs = [status, secs, 1, if status = 7 then 3 else 0]"

definition AS_IndexForDevice :: "'at res_lib \<Rightarrow> u64 \<Rightarrow> 'at as_plugin \<Rightarrow> nat option" where
  "AS_IndexForDevice L extAddress pl =
     first_index (\<lambda>a. let e = as_get extAddress (pl_devTable pl) in ae_isValid e \<and> as_id L a = Some (ucast (ae_alarmSystemId e))) (pl_systems pl)"

text \<open>The action item of the keypad is set, its event queued, then the time stamp.\<close>

definition ace_action :: "'at res_lib \<Rightarrow> int \<Rightarrow> nat \<Rightarrow> string \<Rightarrow> u8 \<Rightarrow> 'at as_plugin \<Rightarrow> 'at as_plugin \<times> event list \<times> bool" where
  "ace_action L now sensor action num pl =
     (let ref = SensorRef sensor; r = pl_res ref pl in
      case rs_item (al_rids L) RStateAction r of
        None \<Rightarrow> (pl, [], False)
      | Some item \<Rightarrow>
          (let (_, at, item) = ri_setString (al_atoms L) (al_qt L) (al_rids L) now action SourceUnknown (pl_atoms pl) item;
               r = rs_update (al_rids L) RStateAction (\<lambda>_. item) r;
               e1 = EventId (rs_prefix r) RStateAction (rn_idText L (pl_sensors pl ! sensor)) (ucast num) 0;
               (at, r) = (case rs_item (al_rids L) RStateLastUpdated r of
                   None \<Rightarrow> (at, r)
                 | Some i \<Rightarrow>
                     (let (_, at, i) = ri_setVariant (al_atoms L) (al_qt L) (al_rids L) now (QDateTime now) SourceUnknown at i in
                      (at, rs_update (al_rids L) RStateLastUpdated (\<lambda>_. i) r)));
               pl = pl_setRes ref r (pl\<lparr>pl_atoms := at\<rparr>) in
           (pl, [e1, EventKey RSensors RStateLastUpdated (rn_idText L (pl_sensors pl ! sensor)) 0], True)))"

text \<open>The branches of \<open>IAS_IasAceClusterIndication\<close>: the arm command, the query of the panel, and the whole.\<close>

definition ace_arm ::
  "'at res_lib \<Rightarrow> 'db sqlite \<Rightarrow> int \<Rightarrow> u64 \<Rightarrow> (as_entry list \<Rightarrow> string \<Rightarrow> u64 \<Rightarrow> alarm_system \<Rightarrow> bool option) \<Rightarrow> bool \<Rightarrow> (u8 list \<Rightarrow> string) \<Rightarrow>
     u64 \<Rightarrow> u8 list \<Rightarrow> 'at as_plugin \<times> 'db \<Rightarrow> (u8 \<times> 'at as_plugin \<times> 'db \<times> event list) option" where
  "ace_arm L q now ts valid char_signed fromUtf8 src payload st =
     (case st of (pl, db) \<Rightarrow>
        (case AS_IndexForDevice L src pl of
           None \<Rightarrow> Some (ace_default_response char_signed payload, pl, db, [])
         | Some j \<Rightarrow> do {
             (rsp, at, a, db, es) \<leftarrow>
               handleArmCommand L q now ts (valid (pl_devTable pl)) (payload ! 0) (ace_code char_signed fromUtf8 payload) src
                 (pl_atoms pl, pl_systems pl ! j, db);
             Some (rsp, pl\<lparr>pl_atoms := at, pl_systems := (pl_systems pl)[j := a]\<rparr>, db, es) }))"

definition ace_panelStatus :: "'at res_lib \<Rightarrow> u64 \<Rightarrow> 'at as_plugin \<Rightarrow> ace_response option" where
  "ace_panelStatus L src pl =
     (case AS_IndexForDevice L src pl of
        None \<Rightarrow> Some (PanelStatusResponse (panelStatusPayload IAS_ACE_PANEL_STATUS_NOT_READY_TO_ARM 0))
      | Some j \<Rightarrow> do {
          status \<leftarrow> as_iasAcePanelStatus L (pl_systems pl ! j);
          secs \<leftarrow> as_secondsRemaining L (pl_systems pl ! j);
          Some (PanelStatusResponse (panelStatusPayload status (if status = 5 \<or> status = 4 then ucast secs else 0))) })"

text \<open>
  \<open>sensor\<close> is the keypad found for the source; the last component tells whether the sensor is saved (its Etag and its row).
\<close>

definition IAS_IasAceClusterIndication ::
  "'at res_lib \<Rightarrow> 'db sqlite \<Rightarrow> int \<Rightarrow> u64 \<Rightarrow> (as_entry list \<Rightarrow> string \<Rightarrow> u64 \<Rightarrow> alarm_system \<Rightarrow> bool option) \<Rightarrow> bool \<Rightarrow> (u8 list \<Rightarrow> string) \<Rightarrow>
     u64 \<Rightarrow> nat option \<Rightarrow> ace_frame \<Rightarrow> 'at as_plugin \<times> 'db \<Rightarrow>
     ('at as_plugin \<times> 'db \<times> event list \<times> ace_response option \<times> bool) option" where
  "IAS_IasAceClusterIndication L q now ts valid char_signed fromUtf8 src sensor f st =
     (case st of (pl, db) \<Rightarrow>
        if af_isDefaultResponse f \<or> af_serverToClient f then Some (pl, db, [], None, False)
        else
          (case sensor of
             None \<Rightarrow> Some (pl, db, [], None, False)
           | Some k \<Rightarrow>
               if af_commandId f = IAS_ACE_CMD_ARM \<and> length (af_payload f) \<ge> 2 then
                 (if af_payload f ! 0 > 3 then Some (pl, db, [], None, False)
                  else do {
                    (armRsp, pl, db, es1) \<leftarrow> ace_arm L q now ts valid char_signed fromUtf8 src (af_payload f) (pl, db);
                    let (pl, es2, saved) = ace_action L now k (IAS_ArmResponse ! unat armRsp) (af_payload f ! 0) pl;
                    Some (pl, db, es1 @ es2, Some (ArmResponse armRsp), saved) })
               else if af_commandId f = IAS_ACE_CMD_GET_PANEL_STATUS then do {
                 rsp \<leftarrow> ace_panelStatus L src pl;
                 Some (pl, db, [], Some rsp, False) }
               else if af_commandId f \<ge> IAS_ACE_CMD_EMERGENCY \<and> af_commandId f \<le> IAS_ACE_CMD_PANIC then
                 (let (pl, es, saved) = ace_action L now k ([''emergency'', ''fire'', ''panic''] ! unat (af_commandId f - IAS_ACE_CMD_EMERGENCY)) (af_commandId f) pl in
                  Some (pl, db, es, None, saved))
               else Some (pl, db, [], None, False)))"

text \<open>\<open>addDevice\<close> and \<open>removeDevice\<close> of a system.\<close>

definition as_addDevice :: "'at res_lib \<Rightarrow> 'db sqlite \<Rightarrow> u64 \<Rightarrow> string \<Rightarrow> u32 \<Rightarrow> alarm_system \<Rightarrow> as_entry list \<times> 'db \<Rightarrow> (bool \<times> as_entry list \<times> 'db) option" where
  "as_addDevice L q ts uniqueId flags a st = do { i \<leftarrow> as_id L a; Some (as_put q ts uniqueId flags (ucast i) st) }"

definition as_removeDevice :: "'db sqlite \<Rightarrow> string \<Rightarrow> as_entry list \<times> 'db \<Rightarrow> bool \<times> as_entry list \<times> 'db" where
  "as_removeDevice q uniqueId st = as_erase q uniqueId st"

section \<open>The emitter and the handlers\<close>

text \<open>
  The handler of the emitter's events: the parts of \<open>plugin_handleEvent\<close> that concern the alarm systems, in the order of the
  dispatch; \<open>others\<close> are the events the other parts enqueue. \<open>clk k\<close> are the two clocks when the \<open>k\<close>-th event is handled.
  \<open>None\<close> is the plugin after a null pointer was dereferenced.
\<close>

fun as_calls ::
  "'at res_lib \<Rightarrow> (handler_call \<Rightarrow> event \<Rightarrow> event list) \<Rightarrow> int \<times> int \<Rightarrow> event \<Rightarrow> handler_call list \<Rightarrow> 'at as_plugin \<times> event list \<Rightarrow>
     ('at as_plugin \<times> event list) option" where
  "as_calls L others c e [] st = Some st"
| "as_calls L others c e (h # hs) st = do {
     (pl, es) \<leftarrow>
       (if h = AS_DeviceEvent then Some (fst st, AS_HandleAlarmSystemDeviceEvent L e (fst st))
        else if h = AS_Event then AS_HandleAlarmSystemEvent L (fst c) (snd c) e (fst st)
        else Some (fst st, others h e));
     as_calls L others c e hs (pl, snd st @ es) }"

definition as_handler ::
  "'at res_lib \<Rightarrow> (handler_call \<Rightarrow> event \<Rightarrow> event list) \<Rightarrow> (device_key \<Rightarrow> bool) \<Rightarrow> (nat \<Rightarrow> int \<times> int) \<Rightarrow> (nat \<times> 'at as_plugin) option handler" where
  "as_handler L others hasDevice clk s e =
     (case s of
        None \<Rightarrow> (None, [])
      | Some (k, pl) \<Rightarrow>
          (case as_calls L others (clk k) e (plugin_handleEvent True False hasDevice e) (pl, []) of
             None \<Rightarrow> (None, [])
           | Some (pl, es) \<Rightarrow> (Some (k + 1, pl), es)))"

section \<open>A device that trips a system\<close>

lemma mask_bits:
  "(0x100 :: s32) = push_bit 8 1" "(0x200 :: s32) = push_bit 9 1" "(0x400 :: s32) = push_bit 10 1"
  by (simp_all add: push_bit_eq_mult)

lemma arm_flag_bits: "bit AS_ENTRY_FLAG_ARMED_AWAY n \<longleftrightarrow> n = 8" "bit AS_ENTRY_FLAG_ARMED_STAY n \<longleftrightarrow> n = 9" "bit AS_ENTRY_FLAG_ARMED_NIGHT n \<longleftrightarrow> n = 10"
  unfolding AS_ENTRY_FLAG_ARMED_AWAY_def AS_ENTRY_FLAG_ARMED_STAY_def AS_ENTRY_FLAG_ARMED_NIGHT_def mask_bits
  by (simp_all only: bit_push_bit_iff bit_1_iff) auto

lemma alarm_data_id: "deviceAlarmData entry AND AS_ID_MASK = ucast (ae_alarmSystemId entry)"
proof -
  have m: "AS_ID_MASK = mask 8" by (simp add: AS_ID_MASK_def mask_eq_exp_minus_1)
  show ?thesis unfolding m deviceAlarmData_def
    by (rule bit_word_eqI) (auto simp: bit_and_iff bit_or_iff bit_mask_iff bit_unsigned_iff arm_flag_bits dest: bit_imp_le_length)
qed

lemma alarm_data_mask:
  "deviceAlarmData entry AND ucast (targetArmMask m) = ae_flags entry AND ucast (targetArmMask m)"
proof -
  have id: "\<not> bit (ucast (ae_alarmSystemId entry) :: s32) n" if "8 \<le> n" for n
    using that by (auto simp: bit_unsigned_iff dest: bit_imp_le_length)
  have one: "(x OR (f AND g)) AND push_bit n 1 = f AND push_bit n 1" if "\<not> bit x n" "bit g n" for x f g :: s32 and n
    by (rule bit_word_eqI) (use that in \<open>auto simp: bit_and_iff bit_or_iff bit_exp_iff\<close>)
  have g: "bit (AS_ENTRY_FLAG_ARMED_AWAY OR AS_ENTRY_FLAG_ARMED_STAY OR AS_ENTRY_FLAG_ARMED_NIGHT) n" if "n = 8 \<or> n = 9 \<or> n = 10" for n
    using that by (simp only: bit_or_iff arm_flag_bits)
  have u: "ucast (targetArmMask m) = (if m = AS_ArmModeArmedStay then 0x200 else if m = AS_ArmModeArmedNight then 0x400
      else if m = AS_ArmModeArmedAway then 0x100 else (0 :: s32))" by (cases m) (simp_all add: targetArmMask_def)
  show ?thesis unfolding u mask_bits deviceAlarmData_def using one [OF id g, of 8] one [OF id g, of 9] one [OF id g, of 10] by auto
qed

text \<open>Every system handles a device alarm on its own.\<close>

lemma push_event_none: "ev_what e = REventDeviceAlarm \<Longrightarrow> pushEventToWebsocket L e a = Some (a, [])"
  by (simp add: pushEventToWebsocket_def first_char_def REventDeviceAlarm_def)

lemma handle_one:
  assumes w: "ev_what e = REventDeviceAlarm" and inv: "as_inv L (pl_systems pl ! k)" and t: "as_tState (pl_systems pl ! k) \<le> t"
  shows "\<exists>a es'. as_handleEvent L now t e (pl_systems pl ! k) = Some (a, es') \<and> as_inv L a \<and>
    AS_HandleOne L now t e k (pl, es) = Some (pl\<lparr>pl_systems := (pl_systems pl)[k := a]\<rparr>, es @ es')"
proof -
  obtain a es' where h: "as_handleEvent L now t e (pl_systems pl ! k) = Some (a, es')" "as_inv L a"
    using handle_refines [OF inv t, of e now] by (auto simp: refines_def)
  obtain i where "as_idString L a = Some i" using h(2) by (auto simp: as_inv_def as_items_ok_def as_idString_def as_text_def as_item_def)
  moreover have "ev_what e \<noteq> RStateArmState" "ev_what e \<noteq> RStateSecondsRemaining" using w by (simp_all add: suffixes)
  ultimately have "AS_HandleOne L now t e k (pl, es) = Some (pl\<lparr>pl_systems := (pl_systems pl)[k := a]\<rparr>, es @ es')"
    using h(1) by (auto simp: AS_HandleOne_def Let_def push_event_none [OF w])
  then show ?thesis using h by blast
qed

definition each_handled :: "'at res_lib \<Rightarrow> int \<Rightarrow> int \<Rightarrow> event \<Rightarrow> nat set \<Rightarrow> alarm_system list \<Rightarrow> alarm_system list \<Rightarrow> bool" where
  "each_handled L now t e K xs ys \<longleftrightarrow> length ys = length xs \<and>
     (\<forall>j < length xs. if j \<in> K then \<exists>es. as_handleEvent L now t e (xs ! j) = Some (ys ! j, es) else ys ! j = xs ! j)"

lemma handle_all:
  assumes w: "ev_what e = REventDeviceAlarm" and "distinct ks" "set ks \<subseteq> {..<length (pl_systems pl)}"
    "\<forall>k \<in> set ks. as_inv L (pl_systems pl ! k) \<and> as_tState (pl_systems pl ! k) \<le> t"
  shows "\<exists>ys es'. AS_HandleAll L now t e ks (pl, es) = Some (pl\<lparr>pl_systems := ys\<rparr>, es') \<and> each_handled L now t e (set ks) (pl_systems pl) ys"
  using assms(2-4)
proof (induction ks arbitrary: pl es)
  case Nil
  show ?case by (intro exI [of _ "pl_systems pl"] exI [of _ es]) (simp add: each_handled_def)
next
  case (Cons k ks)
  obtain a es1 where a: "as_handleEvent L now t e (pl_systems pl ! k) = Some (a, es1)" "as_inv L a"
    "AS_HandleOne L now t e k (pl, es) = Some (pl\<lparr>pl_systems := (pl_systems pl)[k := a]\<rparr>, es @ es1)"
    using handle_one [OF w, of L pl k t now es] Cons.prems(3) by auto
  let ?pl = "pl\<lparr>pl_systems := (pl_systems pl)[k := a]\<rparr>"
  have nth: "j \<noteq> k \<Longrightarrow> pl_systems ?pl ! j = pl_systems pl ! j" for j by simp
  have ne: "j \<noteq> k" if "j \<in> set ks" for j using that Cons.prems(1) by auto
  have "\<forall>j \<in> set ks. as_inv L (pl_systems ?pl ! j) \<and> as_tState (pl_systems ?pl ! j) \<le> t"
  proof
    fix j assume "j \<in> set ks"
    then show "as_inv L (pl_systems ?pl ! j) \<and> as_tState (pl_systems ?pl ! j) \<le> t" unfolding nth [OF ne [OF \<open>j \<in> set ks\<close>]] using Cons.prems(3) by simp
  qed
  then obtain ys es' where ys: "AS_HandleAll L now t e ks (?pl, es @ es1) = Some (?pl\<lparr>pl_systems := ys\<rparr>, es')"
    "each_handled L now t e (set ks) (pl_systems ?pl) ys"
    using Cons.IH [of ?pl "es @ es1"] Cons.prems by auto
  have "each_handled L now t e (set (k # ks)) (pl_systems pl) ys"
    using ys(2) Cons.prems(1,2) a(1) unfolding each_handled_def by (auto simp: nth_list_update split: if_split_asm)
  then show ?case using a(3) ys(1) by auto
qed

text \<open>The calls of the dispatcher that are not about alarm systems.\<close>

lemma calls_append: "as_calls L others c e (xs @ ys) st = do { st \<leftarrow> as_calls L others c e xs st; as_calls L others c e ys st }"
proof (induction xs arbitrary: st)
  case (Cons x xs)
  show ?case by (cases "if x = AS_DeviceEvent then Some (fst st, AS_HandleAlarmSystemDeviceEvent L e (fst st))
        else if x = AS_Event then AS_HandleAlarmSystemEvent L (fst c) (snd c) e (fst st)
        else Some (fst st, others x e)") (simp_all add: Cons split: prod.split)
qed simp

lemma calls_others:
  "(\<And>h x. others h x = []) \<Longrightarrow> AS_DeviceEvent \<notin> set hs \<Longrightarrow> AS_Event \<notin> set hs \<Longrightarrow> as_calls L others c e hs st = Some st"
  by (induction hs) auto

text \<open>Two rounds of the emitter over one ordinary event that makes the handler enqueue another.\<close>

lemma urgent_none: "em_urgent (fst st) = [] \<Longrightarrow> em_urgent_loop hasd nodes h 0 st = Some st"
  by (subst em_urgent_loop.simps) simp

lemma enqueue_first:
  "\<not> ev_urgent e \<Longrightarrow> \<exists>key. enqueueEvent hasd nodes e em_init = \<lparr>em_pos = 0, em_queue = [e\<lparr>ev_deviceKey := key\<rparr>], em_urgent = [], em_timer = True\<rparr>"
proof -
  assume u: "\<not> ev_urgent e"
  show ?thesis
    by (rule exI [of _ "case restNode nodes e of Some a \<Rightarrow> if a > 0 then a else ev_deviceKey e | None \<Rightarrow> ev_deviceKey e"])
      (simp add: u enqueueEvent_def em_init_def Let_def split: option.split)
qed

lemma two_rounds:
  assumes e: "\<not> ev_urgent e" and h1: "\<And>key. h s (e\<lparr>ev_deviceKey := key\<rparr>) = (s1, [e1])" and e1: "\<not> ev_urgent e1" "ev_resource e1 \<notin> {RSensors, RLights}"
    and h2: "h s1 e1 = (s2, es)"
  shows "\<exists>em. em_process hasd nodes h 2 (enqueueEvent hasd nodes e em_init, s) = Some (em, s2)"
proof -
  obtain key where k: "enqueueEvent hasd nodes e em_init = \<lparr>em_pos = 0, em_queue = [e\<lparr>ev_deviceKey := key\<rparr>], em_urgent = [], em_timer = True\<rparr>"
    using enqueue_first [OF e] by blast
  let ?q = "[e\<lparr>ev_deviceKey := key\<rparr>, e1]"
  have e1n: "restNode nodes e1 = None" using e1(2) by (simp add: restNode_def)
  have one: "em_next hasd nodes h (\<lparr>em_pos = 0, em_queue = [e\<lparr>ev_deviceKey := key\<rparr>], em_urgent = [], em_timer = True\<rparr>, s) =
      (\<lparr>em_pos = 1, em_queue = ?q, em_urgent = [], em_timer = True\<rparr>, s1)"
    using e1(1) by (simp add: em_next_def eventNotify_def h1 enqueueEvent_def e1n Let_def)
  have "eventNotify hasd nodes h e1 (em, s1) = (fold (enqueueEvent hasd nodes) es em, s2)" for em by (simp add: eventNotify_def h2)
  then have "snd (em_next hasd nodes h (\<lparr>em_pos = 1, em_queue = ?q, em_urgent = [], em_timer = True\<rparr>, s1)) = s2"
    by (simp add: em_next_def Let_def)
  then obtain em where two: "em_next hasd nodes h (\<lparr>em_pos = 1, em_queue = ?q, em_urgent = [], em_timer = True\<rparr>, s1) = (em, s2)" by (metis prod.collapse)
  show ?thesis unfolding k using one two urgent_none [where hasd = hasd and nodes = nodes and h = h]
    by (simp add: numeral_2_eq_2)
qed

lemma keyed_event [simp]:
  "isAlarmSystemDeviceEvent (e\<lparr>ev_deviceKey := key\<rparr>) = isAlarmSystemDeviceEvent e"
  "AS_HandleAlarmSystemDeviceEvent L (e\<lparr>ev_deviceKey := key\<rparr>) pl = AS_HandleAlarmSystemDeviceEvent L e pl"
  by (cases e; simp only: isAlarmSystemDeviceEvent_def AS_HandleAlarmSystemDeviceEvent_def event.select_convs event.update_convs)+

lemma dispatch_device:
  assumes "\<And>h x. others h x = []" "isAlarmSystemDeviceEvent e"
  shows "as_handler L others hasDevice clk (Some (k, pl)) e = (Some (k + 1, pl), AS_HandleAlarmSystemDeviceEvent L e pl)"
proof -
  have "ev_resource e = RSensors \<or> ev_resource e = RLights" using assms(2) by (auto simp: isAlarmSystemDeviceEvent_def split: if_split_asm)
  then obtain x where x: "x \<in> {HandleSensorEvent, HandleLightEvent}"
    "\<exists>ys. plugin_handleEvent True False hasDevice e = [x, AS_DeviceEvent] @ ys \<and> AS_DeviceEvent \<notin> set ys \<and> AS_Event \<notin> set ys"
    by (auto simp: plugin_handleEvent_def suffixes)
  then obtain ys where ys: "plugin_handleEvent True False hasDevice e = [x, AS_DeviceEvent] @ ys" "AS_DeviceEvent \<notin> set ys" "AS_Event \<notin> set ys" by blast
  have "as_calls L others c e (plugin_handleEvent True False hasDevice e) (pl, []) = Some (pl, AS_HandleAlarmSystemDeviceEvent L e pl)" for c
  proof -
    have "as_calls L others c e [x, AS_DeviceEvent] (pl, []) = Some (pl, AS_HandleAlarmSystemDeviceEvent L e pl)"
      using x(1) by (auto simp: assms(1))
    moreover have "as_calls L others c e ys (pl, AS_HandleAlarmSystemDeviceEvent L e pl) = Some (pl, AS_HandleAlarmSystemDeviceEvent L e pl)"
      by (rule calls_others [OF assms(1) ys(2,3)])
    ultimately show ?thesis unfolding ys(1) calls_append by (simp only: Option.bind.simps)
  qed
  then show ?thesis by (simp add: as_handler_def)
qed

lemma dispatch_alarm:
  assumes "\<And>h x. others h x = []" "ev_resource e = RAlarmSystems" "ev_deviceKey e = 0"
    "AS_HandleAlarmSystemEvent L (fst (clk k)) (snd (clk k)) e pl = Some (pl', es)"
  shows "as_handler L others hasDevice clk (Some (k, pl)) e = (Some (k + 1, pl'), es)"
proof -
  have "plugin_handleEvent True False hasDevice e = [AS_Event, HandleRuleEvent]" using assms(2,3) by (simp add: plugin_handleEvent_def suffixes)
  then show ?thesis using assms(1,4) by (simp add: as_handler_def)
qed


text \<open>A door sensor of system 1.\<close>

definition door_uid :: string where "door_uid = ''00:00:00:00:00:00:00:01-01''"

definition door_resource :: resource where
  "door_resource =
     \<lparr>rs_prefix = RSensors,
      rs_items = [(ri_new initResourceDescriptors (rid DataTypeString QVString RAttrUniqueId))\<lparr>ri_str := Some door_uid\<rparr>,
        ri_new initResourceDescriptors (rid DataTypeBool QVBool RStateOpen)],
      rs_stateChanges = []\<rparr>"

definition door_plugin :: "string list as_plugin" where
  "door_plugin =
     \<lparr>pl_atoms = [], pl_sensors = [\<lparr>rn_id = ''1'', rn_uid = [], rn_normal = True, rn_res = door_resource\<rparr>], pl_nodes = [],
      pl_devTable = [invalid_entry\<lparr>ae_uniqueId := door_uid, ae_uniqueIdSize := 26, ae_extAddress := 1, ae_alarmSystemId := 1,
        ae_flags := AS_ENTRY_FLAG_ARMED_AWAY\<rparr>],
      pl_systems = [loaded_system ''armed_away''], pl_messages = []\<rparr>"

definition door_event :: event where "door_event = EventId RSensors RStateOpen ''1'' 1 0"

definition no_nodes :: plugin_nodes where
  "no_nodes = \<lparr>getSensorNodeForId = \<lambda>_. None, getSensorNodeForUniqueId = \<lambda>_. None, getLightNodeForId = \<lambda>_. None\<rparr>"

lemma door_items:
  "ri_descriptor initResourceDescriptors (ri_new initResourceDescriptors (rid DataTypeString QVString RAttrUniqueId)) = rid DataTypeString QVString RAttrUniqueId"
  "ri_descriptor initResourceDescriptors (ri_new initResourceDescriptors (rid DataTypeBool QVBool RStateOpen)) = rid DataTypeBool QVBool RStateOpen"
proof -
  have t: "distinct (map rd_suffix initResourceDescriptors)" "length initResourceDescriptors \<le> 65536"
    using rids_ok [OF lib0_ok] by (simp_all add: lib0_def table_ok_def)
  have m: "rid DataTypeString QVString RAttrUniqueId \<in> set initResourceDescriptors" "rid DataTypeBool QVBool RStateOpen \<in> set initResourceDescriptors"
    by (simp_all add: initResourceDescriptors_def descriptors_attr_def descriptors_state_def)
  show "ri_descriptor initResourceDescriptors (ri_new initResourceDescriptors (rid DataTypeString QVString RAttrUniqueId)) = rid DataTypeString QVString RAttrUniqueId"
    "ri_descriptor initResourceDescriptors (ri_new initResourceDescriptors (rid DataTypeBool QVBool RStateOpen)) = rid DataTypeBool QVBool RStateOpen"
    by (rule descriptor_new [OF t m(1)], rule descriptor_new [OF t m(2)])
qed

lemma door_lookup:
  "rs_item (al_rids lib0) RAttrUniqueId door_resource = Some ((ri_new initResourceDescriptors (rid DataTypeString QVString RAttrUniqueId))\<lparr>ri_str := Some door_uid\<rparr>)"
  "rs_item (al_rids lib0) RStateOpen door_resource = Some (ri_new initResourceDescriptors (rid DataTypeBool QVBool RStateOpen))"
  "rs_item (al_rids lib0) RAttrId door_resource = None"
proof -
  have k: "ri_descriptor ds (i\<lparr>ri_str := x\<rparr>) = ri_descriptor ds i" for ds i x by (simp add: ri_descriptor_def)
  have n: "rd_suffix (rid DataTypeString QVString RAttrUniqueId) = RAttrUniqueId" "rd_suffix (rid DataTypeBool QVBool RStateOpen) = RStateOpen"
    by (simp_all add: rid_def rid_range_def)
  have ne: "RAttrUniqueId \<noteq> RStateOpen" "RAttrUniqueId \<noteq> RAttrId" "RStateOpen \<noteq> RAttrId" by (simp_all add: suffixes)
  show "rs_item (al_rids lib0) RAttrUniqueId door_resource = Some ((ri_new initResourceDescriptors (rid DataTypeString QVString RAttrUniqueId))\<lparr>ri_str := Some door_uid\<rparr>)"
    "rs_item (al_rids lib0) RStateOpen door_resource = Some (ri_new initResourceDescriptors (rid DataTypeBool QVBool RStateOpen))"
    "rs_item (al_rids lib0) RAttrId door_resource = None"
    using ne by (simp_all add: rs_item_def door_resource_def lib0_def k door_items n)
qed


section \<open>Keypads and codes\<close>

lemma first_index_Some: "first_index P xs = Some k \<Longrightarrow> k < length xs \<and> P (xs ! k)"
  by (induction xs arbitrary: k) (auto split: if_split_asm)

lemma first_index_find: "List.find P xs = map_option ((!) xs) (first_index P xs)"
  by (induction xs) (auto simp: option.map_comp comp_def)

lemma action_systems: "ace_action L now k s n pl = (pl', es, saved) \<Longrightarrow> pl_systems pl' = pl_systems pl \<and> pl_devTable pl' = pl_devTable pl"
  by (auto simp: ace_action_def pl_setRes_def Let_def split: option.split_asm prod.split_asm)

lemma arm_command:
  assumes "handleArmCommand L q now ts valid m code src (at, a, db) = Some (rsp, at', a', db', es)" "a' \<noteq> a"
  shows "valid code src a = Some True \<and> rsp = m \<and>
    as_setTargetArmMode L q now ts (arm_mode_of m) (at, a, db) = Some (True, at', a', db', es)"
proof (cases "m > 3")
  case True
  then show ?thesis using assms by (simp add: handleArmCommand_def)
next
  case False
  then obtain ok where ok: "valid code src a = Some ok" using assms(1) by (auto simp: handleArmCommand_def bind_eq_Some_conv)
  have ok': "ok" using assms False ok by (cases ok) (auto simp: handleArmCommand_def)
  have ne: "as_targetState a \<noteq> arm_mode_of m" using assms False ok ok' by (auto simp: handleArmCommand_def split: if_split_asm)
  have na: "\<not> (as_targetState a = AS_ArmModeDisarmed \<and> arm_mode_of m = AS_ArmModeDisarmed)" using ne by auto
  have "do { (_, at, a, db, es) \<leftarrow> as_setTargetArmMode L q now ts (arm_mode_of m) (at, a, db); Some (m, at, a, db, es) } = Some (rsp, at', a', db', es)"
    using assms(1) ok' by (simp only: handleArmCommand_def prod.case if_not_P [OF False] ok Option.bind.simps if_not_P [OF na] if_P [OF ne] simp_thms if_False)
  then obtain b where b: "as_setTargetArmMode L q now ts (arm_mode_of m) (at, a, db) = Some (b, at', a', db', es)" "rsp = m"
    by (cases "as_setTargetArmMode L q now ts (arm_mode_of m) (at, a, db)") auto
  have "b"
  proof (cases "arm_mode_of m = AS_ArmModeMax")
    case True
    then show ?thesis using b(1) assms(2) by (simp add: as_setTargetArmMode_def)
  next
    case False
    then show ?thesis using b(1) ne unfolding as_setTargetArmMode_def prod.case if_not_P [OF False] if_not_P [OF ne [symmetric]]
      by (auto simp: bind_eq_Some_conv)
  qed
  then show ?thesis using b ok ok' by simp
qed

text \<open>Only an arm command changes a system.\<close>

lemma ace_systems:
  assumes "IAS_IasAceClusterIndication L q now ts valid char_signed fromUtf8 src sensor f (pl, db) = Some (pl', db', es, rsp, saved)"
    "pl_systems pl' \<noteq> pl_systems pl"
  shows "af_commandId f = IAS_ACE_CMD_ARM \<and>
    (\<exists>r pl1 db1 es1. ace_arm L q now ts valid char_signed fromUtf8 src (af_payload f) (pl, db) = Some (r, pl1, db1, es1) \<and>
       pl_systems pl' = pl_systems pl1 \<and> rsp = Some (ArmResponse r))"
  using assms
  by (auto simp: IAS_IasAceClusterIndication_def bind_eq_Some_conv Let_def dest!: action_systems split: if_split_asm option.split_asm prod.split_asm)
    (metis action_systems prod_cases3)


definition disarm_frame :: ace_frame where
  "disarm_frame = \<lparr>af_isDefaultResponse = False, af_serverToClient = False, af_commandId = IAS_ACE_CMD_ARM, af_payload = [0, 0, 0]\<rparr>"


text \<open>The event about an arm command carries the arm mode, which the handler of device events reads as a command: modes 2 and 3 are fire and
  emergency. So a keypad whose code is refused trips the armed system it belongs to.\<close>

lemma arm_event_read_as_alarm: "isAlarmSystemDeviceEvent (EventId RSensors RStateAction i (ucast (m :: u8)) 0) \<longleftrightarrow> 2 \<le> m \<and> m \<le> 4"
proof -
  have "sint (ucast m :: s32) = uint m"
  proof -
    have "uint m < 2 ^ LENGTH(8)" by (rule unsigned_less)
    then have "uint m < 256" by simp
    then have "uint (ucast m :: s32) < 2 ^ 31" "uint (ucast m :: s32) = uint m" by (simp_all add: uint_up_ucast is_up)
    then show ?thesis using sint_of_uint [of "ucast m :: s32"] by simp
  qed
  then show ?thesis
    by (simp add: isAlarmSystemDeviceEvent_def EventId_def Event0_def first_char_def suffixes IAS_ACE_CMD_EMERGENCY_def IAS_ACE_CMD_PANIC_def word_le_def)
qed

end
