(* ===== verification/Qt_Json.thy ===== *)
theory Qt_Json
  imports Event_Data
begin

text \<open>
  The JSON reader and writer of the REST API (\<^verbatim>\<open>json.cpp\<close>): from a QString to a QVariant and back to UTF-8. A QString is
  the list of its 16 bit units; conversions that are Qt's (numbers, UTF-8) are arguments. Of a map's values the list
  has the order of \<^verbatim>\<open>QMap\<close>, by key.
\<close>


section \<open>Values and the library\<close>

type_synonym qstring = "u16 list"

datatype 'd jvalue =
    JInvalid
  | JNullString
  | JNullOther
  | JBool bool
  | JDouble 'd
  | JULong u64
  | JLong "64 word"
  | JString qstring
  | JText qstring
  | JList "'d jvalue list"
  | JMap "(qstring \<times> 'd jvalue) list"
  | JOther

record 'd json_qt =
  jq_toDouble :: "qstring \<Rightarrow> 'd"
  jq_number :: "'d \<Rightarrow> u8 list"
  jq_toIntHex :: "qstring \<Rightarrow> int"
  jq_toUtf8 :: "qstring \<Rightarrow> u8 list"

text \<open>\<^verbatim>\<open>operator<\<close> of two texts, by code units, and assignment to a key of a map.\<close>

fun q_less :: "qstring \<Rightarrow> qstring \<Rightarrow> bool" where
  "q_less xs [] = False"
| "q_less [] (y # ys) = True"
| "q_less (x # xs) (y # ys) = (x < y \<or> x = y \<and> q_less xs ys)"

fun qmap_insert :: "qstring \<Rightarrow> 'v \<Rightarrow> (qstring \<times> 'v) list \<Rightarrow> (qstring \<times> 'v) list" where
  "qmap_insert k v [] = [(k, v)]"
| "qmap_insert k v ((k', v') # m) =
     (if k = k' then (k, v) # m else if q_less k k' then (k, v) # (k', v') # m else (k', v') # qmap_insert k v m)"

section \<open>Tokens\<close>

datatype json_token =
    JsonTokenNone
  | JsonTokenCurlyOpen
  | JsonTokenCurlyClose
  | JsonTokenSquaredOpen
  | JsonTokenSquaredClose
  | JsonTokenColon
  | JsonTokenComma
  | JsonTokenString
  | JsonTokenNumber
  | JsonTokenTrue
  | JsonTokenFalse
  | JsonTokenNull

text \<open>The text behind the index is the state of the parser: the index only moves forward.\<close>

definition json_space :: "u16 \<Rightarrow> bool" where
  "json_space c \<longleftrightarrow> c \<in> {0x20, 0x09, 0x0A, 0x0D}"

definition eatWhitespace :: "qstring \<Rightarrow> qstring" where
  "eatWhitespace s = dropWhile json_space s"

definition toLatin1 :: "u16 \<Rightarrow> u16" where
  "toLatin1 c = (if c \<le> 0xFF then c else 0)"

definition char_token :: "u16 \<Rightarrow> json_token option" where
  "char_token c =
     (if c = 0x7B then Some JsonTokenCurlyOpen else if c = 0x7D then Some JsonTokenCurlyClose
      else if c = 0x5B then Some JsonTokenSquaredOpen else if c = 0x5D then Some JsonTokenSquaredClose
      else if c = 0x2C then Some JsonTokenComma else if c = 0x22 then Some JsonTokenString
      else if 0x30 \<le> c \<and> c \<le> 0x39 \<or> c = 0x2D then Some JsonTokenNumber
      else if c = 0x3A then Some JsonTokenColon else None)"

definition nextToken :: "qstring \<Rightarrow> json_token \<times> qstring" where
  "nextToken s =
     (case eatWhitespace s of
        [] \<Rightarrow> (JsonTokenNone, [])
      | c # r \<Rightarrow>
          (case char_token (toLatin1 c) of
             Some t \<Rightarrow> (t, r)
           | None \<Rightarrow>
               if take 4 (c # r) = [0x74, 0x72, 0x75, 0x65] then (JsonTokenTrue, drop 4 (c # r))
               else if take 5 (c # r) = [0x66, 0x61, 0x6C, 0x73, 0x65] then (JsonTokenFalse, drop 5 (c # r))
               else if take 4 (c # r) = [0x6E, 0x75, 0x6C, 0x6C] then (JsonTokenNull, drop 4 (c # r))
               else (JsonTokenNone, c # r)))"

definition lookAhead :: "qstring \<Rightarrow> json_token" where
  "lookAhead s = fst (nextToken s)"

section \<open>Texts and numbers\<close>

text \<open>The escapes with a letter; an unknown escape is dropped.\<close>

definition json_escapes :: "(u16 \<times> u16) list" where
  "json_escapes = [(0x22, 0x22), (0x5C, 0x5C), (0x2F, 0x2F), (0x62, 0x08), (0x66, 0x0C), (0x6E, 0x0A), (0x72, 0x0D), (0x74, 0x09)]"

text \<open>The text up to its closing quote, or \<open>None\<close> when it is not complete.\<close>

function parseChars :: "'d json_qt \<Rightarrow> qstring \<Rightarrow> qstring \<Rightarrow> qstring option \<times> qstring" where
  "parseChars Q acc [] = (None, [])"
| "parseChars Q acc (c # r) =
     (if c = 0x22 then (Some acc, r)
      else if c = 0x5C then
        (case r of
           [] \<Rightarrow> (None, [])
         | e # r2 \<Rightarrow>
             (case map_of json_escapes e of
                Some x \<Rightarrow> parseChars Q (acc @ [x]) r2
              | None \<Rightarrow>
                  if e = 0x75 then
                    (if length r2 \<ge> 4 then parseChars Q (acc @ [word_of_int (jq_toIntHex Q (take 4 r2))]) (drop 4 r2)
                     else (None, r2))
                  else parseChars Q acc r2))
      else parseChars Q (acc @ [c]) r)"
  by pat_completeness auto
termination by (relation "measure (\<lambda>(Q, acc, s). length s)") auto

declare parseChars.simps(2) [simp del]

definition parseString :: "'d json_qt \<Rightarrow> qstring \<Rightarrow> ('d jvalue \<times> bool \<times> qstring) option" where
  "parseString Q s =
     (case eatWhitespace s of
        [] \<Rightarrow> None
      | c # r \<Rightarrow>
          (case parseChars Q [] r of
             (Some str, r) \<Rightarrow> Some (JString str, True, r)
           | (None, r) \<Rightarrow> Some (JInvalid, False, r)))"

text \<open>\<^verbatim>\<open>toString\<close> of the value \<open>parseString\<close> gives.\<close>

definition jv_toString :: "'d jvalue \<Rightarrow> qstring" where
  "jv_toString v = (case v of JString s \<Rightarrow> s | _ \<Rightarrow> [])"

definition number_char :: "u16 \<Rightarrow> bool" where
  "number_char c \<longleftrightarrow> 0x30 \<le> c \<and> c \<le> 0x39 \<or> c \<in> {0x2B, 0x2D, 0x2E, 0x65, 0x45}"

definition parseNumber :: "'d json_qt \<Rightarrow> qstring \<Rightarrow> 'd jvalue \<times> qstring" where
  "parseNumber Q s =
     (let s = eatWhitespace s in (JDouble (jq_toDouble Q (takeWhile number_char s)), dropWhile number_char s))"

section \<open>Values, objects and arrays\<close>

text \<open>
  The mutual recursion, with the number of calls that may still be made; \<open>json_object\<close> and \<open>json_array\<close> are the
  loops behind the opening bracket. A result is the value, the success flag and the text behind it; no result
  is running out of calls or reading behind the end.
\<close>

fun json_value :: "'d json_qt \<Rightarrow> nat \<Rightarrow> qstring \<Rightarrow> ('d jvalue \<times> bool \<times> qstring) option"
  and json_object :: "'d json_qt \<Rightarrow> nat \<Rightarrow> qstring \<Rightarrow> (qstring \<times> 'd jvalue) list \<Rightarrow> ('d jvalue \<times> bool \<times> qstring) option"
  and json_array :: "'d json_qt \<Rightarrow> nat \<Rightarrow> qstring \<Rightarrow> 'd jvalue list \<Rightarrow> ('d jvalue \<times> bool \<times> qstring) option" where
  "json_value Q 0 s = None"
| "json_value Q (Suc n) s =
     (case lookAhead s of
        JsonTokenString \<Rightarrow> parseString Q s
      | JsonTokenNumber \<Rightarrow> (case parseNumber Q s of (v, s) \<Rightarrow> Some (v, True, s))
      | JsonTokenCurlyOpen \<Rightarrow> json_object Q n (snd (nextToken s)) []
      | JsonTokenSquaredOpen \<Rightarrow> json_array Q n (snd (nextToken s)) []
      | JsonTokenTrue \<Rightarrow> Some (JBool True, True, snd (nextToken s))
      | JsonTokenFalse \<Rightarrow> Some (JBool False, True, snd (nextToken s))
      | JsonTokenNull \<Rightarrow> Some (JInvalid, True, snd (nextToken s))
      | _ \<Rightarrow> Some (JInvalid, False, s))"
| "json_object Q 0 s m = None"
| "json_object Q (Suc n) s m =
     (case lookAhead s of
        JsonTokenNone \<Rightarrow> Some (JMap [], False, s)
      | JsonTokenComma \<Rightarrow> json_object Q n (snd (nextToken s)) m
      | JsonTokenCurlyClose \<Rightarrow> Some (JMap m, True, snd (nextToken s))
      | _ \<Rightarrow> do {
          (name, ok, s) \<leftarrow> parseString Q s;
          if \<not> ok then Some (JMap [], False, s)
          else if fst (nextToken s) \<noteq> JsonTokenColon then Some (JMap [], False, snd (nextToken s))
          else do {
            (v, ok, s) \<leftarrow> json_value Q n (snd (nextToken s));
            if \<not> ok then Some (JMap [], False, s) else json_object Q n s (qmap_insert (jv_toString name) v m) } })"
| "json_array Q 0 s vs = None"
| "json_array Q (Suc n) s vs =
     (case lookAhead s of
        JsonTokenNone \<Rightarrow> Some (JList [], False, s)
      | JsonTokenComma \<Rightarrow> json_array Q n (snd (nextToken s)) vs
      | JsonTokenSquaredClose \<Rightarrow> Some (JList vs, True, snd (nextToken s))
      | _ \<Rightarrow> do {
          (v, ok, s) \<leftarrow> json_value Q n s;
          if \<not> ok then Some (JList [], False, s) else json_array Q n s (vs @ [v]) })"

declare json_value.simps(2) [simp del] json_object.simps(2) [simp del] json_array.simps(2) [simp del]

text \<open>\<open>json_calls\<close>: a bound on the calls (\<open>json_parse_total\<close>). A null text is \<open>None\<close>.\<close>

definition json_calls :: "qstring \<Rightarrow> nat" where
  "json_calls s = 2 * length s + 2"

definition json_parse :: "'d json_qt \<Rightarrow> qstring option \<Rightarrow> ('d jvalue \<times> bool) option" where
  "json_parse Q json =
     (case json of
        None \<Rightarrow> Some (JInvalid, True)
      | Some s \<Rightarrow> map_option (\<lambda>(v, ok, _). (v, ok)) (json_value Q (json_calls s) s))"

section \<open>Serialising\<close>

definition replace_char :: "u16 \<Rightarrow> qstring \<Rightarrow> qstring \<Rightarrow> qstring" where
  "replace_char c r s = concat (map (\<lambda>x. if x = c then r else [x]) s)"

definition sanitizeString :: "qstring \<Rightarrow> qstring" where
  "sanitizeString s =
     (let s = replace_char 0x5C [0x5C, 0x5C] s;
          s = replace_char 0x22 [0x5C, 0x22] s;
          s = replace_char 0x08 [0x5C, 0x62] s;
          s = replace_char 0x0C [0x5C, 0x66] s;
          s = replace_char 0x0A [0x5C, 0x6E] s;
          s = replace_char 0x0D [0x5C, 0x72] s;
          s = replace_char 0x09 [0x5C, 0x74] s in
      [0x22] @ s @ [0x22])"

definition bytes_join :: "u8 list list \<Rightarrow> u8 list \<Rightarrow> u8 list" where
  "bytes_join list sep = foldl (\<lambda>res i. (if res \<noteq> [] then res @ sep else res) @ i) [] list"

definition ascii_bytes :: "string \<Rightarrow> u8 list" where
  "ascii_bytes s = map of_char s"

fun json_serialize :: "'d json_qt \<Rightarrow> 'd jvalue \<Rightarrow> u8 list option" where
  "json_serialize Q JInvalid = Some (ascii_bytes ''null'')"
| "json_serialize Q (JList vs) = do {
     values \<leftarrow> those (map (\<lambda>v. json_serialize Q v) vs);
     Some ([0x5B] @ bytes_join values [0x2C] @ [0x5D]) }"
| "json_serialize Q (JMap m) = do {
     pairs \<leftarrow> those (map (\<lambda>p. do { b \<leftarrow> json_serialize Q (snd p); Some (jq_toUtf8 Q (sanitizeString (fst p)) @ [0x3A] @ b) }) m);
     Some ([0x7B] @ bytes_join pairs [0x2C] @ [0x7D]) }"
| "json_serialize Q JNullString = Some [0x22, 0x22]"
| "json_serialize Q JNullOther = Some (ascii_bytes ''null'')"
| "json_serialize Q (JString s) = Some (jq_toUtf8 Q (sanitizeString s))"
| "json_serialize Q (JDouble d) = Some (jq_number Q d)"
| "json_serialize Q (JBool b) = Some (ascii_bytes (if b then ''true'' else ''false''))"
| "json_serialize Q (JULong n) = Some (ascii_bytes (number_text (uint n)))"
| "json_serialize Q (JLong n) = Some (ascii_bytes (number_text (sint n)))"
| "json_serialize Q (JText s) = Some (jq_toUtf8 Q (sanitizeString s))"
| "json_serialize Q JOther = None"

end
