(* ===== verification/Json_Props.thy ===== *)
theory Json_Props
  imports Qt_Json
begin

text \<open>
  What reading and writing JSON guarantees: reading always ends, every text of the JSON grammar is read as the value it
  stands for, and what is written is read back.
\<close>


section \<open>Every step reads something\<close>

lemma eat_length: "length (eatWhitespace s) \<le> length s"
  by (simp add: eatWhitespace_def length_dropWhile_le)

lemma next_shorter: "fst (nextToken s) \<noteq> JsonTokenNone \<Longrightarrow> length (snd (nextToken s)) < length s"
proof -
  assume t: "fst (nextToken s) \<noteq> JsonTokenNone"
  obtain c r where e: "eatWhitespace s = c # r" using t by (cases "eatWhitespace s") (auto simp: nextToken_def)
  then have "length r < length s" using eat_length [of s] by simp
  then show ?thesis using t e by (auto simp: nextToken_def split: option.splits)
qed

lemma chars_length: "length (snd (parseChars Q acc s)) \<le> length s"
proof (induction "length s" arbitrary: acc s rule: less_induct)
  case less
  have IH: "length t < length s \<Longrightarrow> length (snd (parseChars Q acc' t)) \<le> length t" for acc' t by (rule less)
  show ?case
  proof (cases s)
    case (Cons c r)
    show ?thesis
    proof (cases "c = 0x5C \<and> r \<noteq> []")
      case True
      then obtain e r2 where r: "r = e # r2" by (cases r) auto
      have "length (snd (parseChars Q acc' r2)) \<le> length r2" "length (snd (parseChars Q acc' (drop 4 r2))) \<le> length r2" for acc'
        using IH [of r2 acc'] order_trans [OF IH [of "drop 4 r2" acc']] Cons r by simp_all
      then show ?thesis using True Cons r by (simp add: parseChars.simps(2) le_SucI split: option.split)
    next
      case False
      have "length (snd (parseChars Q acc' r)) \<le> length r" for acc' using IH [of r acc'] Cons by simp
      then show ?thesis using False Cons by (auto simp: parseChars.simps(2) le_SucI)
    qed
  qed simp
qed

lemma string_total:
  assumes "lookAhead s \<noteq> JsonTokenNone"
  shows "\<exists>v ok r. parseString Q s = Some (v, ok, r) \<and> length r < length s"
proof -
  obtain c r where e: "eatWhitespace s = c # r" using assms by (cases "eatWhitespace s") (auto simp: lookAhead_def nextToken_def)
  then have "length r < length s" using eat_length [of s] by simp
  moreover obtain x r' where "parseChars Q [] r = (x, r')" by fastforce
  ultimately show ?thesis using e chars_length [of Q "[]" r] by (cases x) (auto simp: parseString_def)
qed

lemma token_number: "char_token (toLatin1 c) = Some JsonTokenNumber \<Longrightarrow> number_char c"
  by (auto simp: char_token_def toLatin1_def number_char_def split: if_split_asm)

lemma number_shorter:
  assumes "lookAhead s = JsonTokenNumber"
  shows "length (snd (parseNumber Q s)) < length s"
proof -
  obtain c r where e: "eatWhitespace s = c # r" using assms by (cases "eatWhitespace s") (auto simp: lookAhead_def nextToken_def)
  then have "char_token (toLatin1 c) = Some JsonTokenNumber" using assms by (auto simp: lookAhead_def nextToken_def split: option.split_asm if_split_asm)
  then have "number_char c" by (rule token_number)
  then have "snd (parseNumber Q s) = dropWhile number_char r" using e by (simp add: parseNumber_def)
  then show ?thesis using e eat_length [of s] length_dropWhile_le [of number_char r] by simp
qed

definition shorter :: "qstring \<Rightarrow> ('d jvalue \<times> bool \<times> qstring) option \<Rightarrow> bool" where
  "shorter s res = (case res of Some (v, ok, r) \<Rightarrow> ok \<longrightarrow> length r < length s | None \<Rightarrow> False)"

lemma object_pair:
  assumes "lookAhead s \<noteq> JsonTokenNone" "lookAhead s \<noteq> JsonTokenComma" "lookAhead s \<noteq> JsonTokenCurlyClose"
  shows "json_object Q (Suc n) s m = do {
      (name, ok, s) \<leftarrow> parseString Q s;
      if \<not> ok then Some (JMap [], False, s)
      else if fst (nextToken s) \<noteq> JsonTokenColon then Some (JMap [], False, snd (nextToken s))
      else do {
        (v, ok, s) \<leftarrow> json_value Q n (snd (nextToken s));
        if \<not> ok then Some (JMap [], False, s) else json_object Q n s (qmap_insert (jv_toString name) v m) } }"
  using assms by (cases "lookAhead s") (simp_all add: json_object.simps(2))

lemma array_element:
  assumes "lookAhead s \<noteq> JsonTokenNone" "lookAhead s \<noteq> JsonTokenComma" "lookAhead s \<noteq> JsonTokenSquaredClose"
  shows "json_array Q (Suc n) s vs = do {
      (v, ok, s) \<leftarrow> json_value Q n s;
      if \<not> ok then Some (JList [], False, s) else json_array Q n s (vs @ [v]) }"
  using assms by (cases "lookAhead s") (simp_all add: json_array.simps(2))

lemma shorter_bind:
  assumes "shorter s res" and "\<And>v r. length r < length s \<Longrightarrow> shorter t (k v r)"
  shows "shorter t (do { (v, ok, r) \<leftarrow> res; if \<not> ok then Some (d, False, r) else k v r })"
proof -
  obtain v ok r where r: "res = Some (v, ok, r)" "ok \<longrightarrow> length r < length s" using assms(1) by (auto simp: shorter_def split: option.split_asm)
  show ?thesis
  proof (cases ok)
    case True
    then show ?thesis using assms(2) [of r v] r by simp
  next
    case False
    then show ?thesis unfolding r(1) shorter_def by simp
  qed
qed

lemma shorter_mono: "shorter s res \<Longrightarrow> length s \<le> length t \<Longrightarrow> shorter t res"
  by (auto simp: shorter_def split: option.splits)

lemma json_total:
  "(\<forall>n. 2 * length s + 2 \<le> n \<longrightarrow> shorter s (json_value Q n s))
    \<and> (\<forall>n m. 2 * length s + 3 \<le> n \<longrightarrow> shorter s (json_object Q n s m))
    \<and> (\<forall>n vs. 2 * length s + 3 \<le> n \<longrightarrow> shorter s (json_array Q n s vs))"
proof (induction "length s" arbitrary: s rule: less_induct)
  case less
  have IH: "shorter t (json_value Q n t)" if "length t < length s" "2 * length s \<le> n" for t n using less [OF that(1)] that by simp
  have IHo: "shorter t (json_object Q n t m)" if "length t < length s" "2 * length s + 1 \<le> n" for t n m using less [OF that(1)] that by simp
  have IHa: "shorter t (json_array Q n t vs)" if "length t < length s" "2 * length s + 1 \<le> n" for t n vs using less [OF that(1)] that by simp
  have sh: "length (snd (nextToken t)) < length t" if "lookAhead t \<noteq> JsonTokenNone" for t
    using next_shorter [of t] that by (simp add: lookAhead_def)
  have of_value: "shorter s (json_value Q n s)" if n: "2 * length s + 2 \<le> n" for n
  proof -
    obtain k where k: "n = Suc k" "2 * length s + 1 \<le> k" using n by (cases n) auto
    have o: "shorter s (json_object Q k (snd (nextToken s)) [])" "shorter s (json_array Q k (snd (nextToken s)) [])"
      if "lookAhead s \<noteq> JsonTokenNone"
      using IHo [OF sh [OF that] k(2)] IHa [OF sh [OF that] k(2)] sh [OF that] by (simp_all add: shorter_mono [where s = "snd (nextToken s)"])
    show ?thesis unfolding k(1)
    proof (cases "lookAhead s")
      case JsonTokenString
      then obtain v ok r where p: "parseString Q s = Some (v, ok, r)" "length r < length s" using string_total [of s Q] by auto
      show "shorter s (json_value Q (Suc k) s)" by (simp add: json_value.simps(2) JsonTokenString p shorter_def)
    next
      case JsonTokenNumber
      then have "length (snd (parseNumber Q s)) < length s" by (rule number_shorter)
      moreover obtain v r where "parseNumber Q s = (v, r)" by fastforce
      ultimately show "shorter s (json_value Q (Suc k) s)" by (simp add: json_value.simps(2) JsonTokenNumber shorter_def)
    next
      case JsonTokenCurlyOpen
      then show "shorter s (json_value Q (Suc k) s)" using o(1) by (simp add: json_value.simps(2))
    next
      case JsonTokenSquaredOpen
      then show "shorter s (json_value Q (Suc k) s)" using o(2) by (simp add: json_value.simps(2))
    next
      case JsonTokenTrue
      then show "shorter s (json_value Q (Suc k) s)" using sh [of s] by (simp add: json_value.simps(2) shorter_def)
    next
      case JsonTokenFalse
      then show "shorter s (json_value Q (Suc k) s)" using sh [of s] by (simp add: json_value.simps(2) shorter_def)
    next
      case JsonTokenNull
      then show "shorter s (json_value Q (Suc k) s)" using sh [of s] by (simp add: json_value.simps(2) shorter_def)
    qed (simp_all add: json_value.simps(2) shorter_def)
  qed
  have of_object: "shorter s (json_object Q n s m)" if n: "2 * length s + 3 \<le> n" for n m
  proof -
    obtain k where k: "n = Suc k" "2 * length s + 2 \<le> k" using n by (cases n) auto
    show ?thesis
    proof (cases "lookAhead s \<in> {JsonTokenNone, JsonTokenComma, JsonTokenCurlyClose}")
      case True
      have "shorter s (json_object Q k (snd (nextToken s)) m)" if "lookAhead s \<noteq> JsonTokenNone"
        using IHo [OF sh [OF that], of k m] k(2) sh [OF that] by (auto intro: shorter_mono)
      then show ?thesis using True sh [of s] by (auto simp: k(1) json_object.simps(2)) (simp_all add: shorter_def)
    next
      case False
      then have t: "lookAhead s \<noteq> JsonTokenNone" "lookAhead s \<noteq> JsonTokenComma" "lookAhead s \<noteq> JsonTokenCurlyClose" by auto
      obtain name ok r where p: "parseString Q s = Some (name, ok, r)" "length r < length s" using string_total [OF t(1), of Q] by auto
      show ?thesis
      proof (cases "ok \<and> fst (nextToken r) = JsonTokenColon")
        case False
        then show ?thesis unfolding k(1) object_pair [OF t] by (auto simp: shorter_def p(1))
      next
        case True
        have l: "length (snd (nextToken r)) < length s" using sh [of r] p(2) True by (simp add: lookAhead_def)
        have "shorter s (json_object Q k u m')" if "length u < length (snd (nextToken r))" for u m'
          using IHo [of u k m'] that l k(2) by (auto intro: shorter_mono)
        then have "shorter s (do { (v, ok, u) \<leftarrow> json_value Q k (snd (nextToken r));
            if \<not> ok then Some (JMap [], False, u) else json_object Q k u (qmap_insert (jv_toString name) v m) })"
          by (intro shorter_bind [OF IH [OF l]]) (use k(2) in auto)
        then show ?thesis unfolding k(1) object_pair [OF t] p(1) using True by simp
      qed
    qed
  qed
  have "shorter s (json_array Q n s vs)" if n: "2 * length s + 3 \<le> n" for n vs
  proof -
    obtain k where k: "n = Suc k" "2 * length s + 2 \<le> k" using n by (cases n) auto
    show ?thesis
    proof (cases "lookAhead s \<in> {JsonTokenNone, JsonTokenComma, JsonTokenSquaredClose}")
      case True
      have "shorter s (json_array Q k (snd (nextToken s)) vs)" if "lookAhead s \<noteq> JsonTokenNone"
        using IHa [OF sh [OF that], of k vs] k(2) sh [OF that] by (auto intro: shorter_mono)
      then show ?thesis using True sh [of s] by (auto simp: k(1) json_array.simps(2)) (simp_all add: shorter_def)
    next
      case False
      then have t: "lookAhead s \<noteq> JsonTokenNone" "lookAhead s \<noteq> JsonTokenComma" "lookAhead s \<noteq> JsonTokenSquaredClose" by auto
      have "shorter s (json_array Q k u vs')" if "length u < length s" for u vs'
        using IHa [of u k vs'] that k(2) by (auto intro: shorter_mono)
      then show ?thesis unfolding k(1) array_element [OF t] by (intro shorter_bind [OF of_value]) (use k(2) in auto)
    qed
  qed
  then show ?case using of_value of_object by blast
qed


section \<open>More calls change nothing\<close>

lemma bind_mono: "Option.bind a f = Some x \<Longrightarrow> (\<And>y. a = Some y \<Longrightarrow> b = Some y) \<Longrightarrow> (\<And>y. f y = Some x \<Longrightarrow> g y = Some x) \<Longrightarrow> Option.bind b g = Some x"
  by (cases a) auto

lemma json_more:
  "(\<forall>s x. json_value Q n s = Some x \<longrightarrow> json_value Q (Suc n) s = Some x)
    \<and> (\<forall>s m x. json_object Q n s m = Some x \<longrightarrow> json_object Q (Suc n) s m = Some x)
    \<and> (\<forall>s vs x. json_array Q n s vs = Some x \<longrightarrow> json_array Q (Suc n) s vs = Some x)"
proof (induction n)
  case (Suc n)
  then have v: "\<And>s x. json_value Q n s = Some x \<Longrightarrow> json_value Q (Suc n) s = Some x"
    and o: "\<And>s m x. json_object Q n s m = Some x \<Longrightarrow> json_object Q (Suc n) s m = Some x"
    and a: "\<And>s vs x. json_array Q n s vs = Some x \<Longrightarrow> json_array Q (Suc n) s vs = Some x" by blast+
  have "json_value Q (Suc (Suc n)) s = Some x" if "json_value Q (Suc n) s = Some x" for s x
    using that o [of "snd (nextToken s)" "[]" x] a [of "snd (nextToken s)" "[]" x] by (cases "lookAhead s") (simp_all add: json_value.simps(2))
  moreover have "json_object Q (Suc (Suc n)) s m = Some x" if w: "json_object Q (Suc n) s m = Some x" for s m x
  proof (cases "lookAhead s \<in> {JsonTokenNone, JsonTokenComma, JsonTokenCurlyClose}")
    case True
    then show ?thesis using w o [of "snd (nextToken s)" m x] by (auto simp: json_object.simps(2))
  next
    case False
    then have t: "lookAhead s \<noteq> JsonTokenNone" "lookAhead s \<noteq> JsonTokenComma" "lookAhead s \<noteq> JsonTokenCurlyClose" by auto
    show ?thesis unfolding object_pair [OF t]
      by (rule bind_mono [OF w [unfolded object_pair [OF t]]])
        (auto split: if_splits elim!: bind_mono, erule v, erule o)
  qed
  moreover have "json_array Q (Suc (Suc n)) s vs = Some x" if w: "json_array Q (Suc n) s vs = Some x" for s vs x
  proof (cases "lookAhead s \<in> {JsonTokenNone, JsonTokenComma, JsonTokenSquaredClose}")
    case True
    then show ?thesis using w a [of "snd (nextToken s)" vs x] by (auto simp: json_array.simps(2))
  next
    case False
    then have t: "lookAhead s \<noteq> JsonTokenNone" "lookAhead s \<noteq> JsonTokenComma" "lookAhead s \<noteq> JsonTokenSquaredClose" by auto
    show ?thesis unfolding array_element [OF t]
      by (rule bind_mono [OF w [unfolded array_element [OF t]]])
        (auto split: if_splits intro: v a)
  qed
  ultimately show ?case by blast
qed simp

lemma json_value_once: "json_value Q n s = Some x \<Longrightarrow> json_value Q (Suc n) s = Some x"
  using json_more [of Q n] by blast

lemma json_object_once: "json_object Q n s m = Some x \<Longrightarrow> json_object Q (Suc n) s m = Some x"
  using json_more [of Q n] by blast

lemma json_array_once: "json_array Q n s vs = Some x \<Longrightarrow> json_array Q (Suc n) s vs = Some x"
  using json_more [of Q n] by blast

lemma json_value_more: "json_value Q n s = Some x \<Longrightarrow> json_value Q (n + k) s = Some x"
  by (induction k) (simp_all add: json_value_once)

lemma json_object_more: "json_object Q n s m = Some x \<Longrightarrow> json_object Q (n + k) s m = Some x"
  by (induction k) (simp_all add: json_object_once)

lemma json_array_more: "json_array Q n s vs = Some x \<Longrightarrow> json_array Q (n + k) s vs = Some x"
  by (induction k) (simp_all add: json_array_once)

lemma json_ends: "\<exists>x. json_value Q (json_calls s) s = Some x"
proof -
  have "shorter s (json_value Q (json_calls s) s)" using conjunct1 [OF json_total [of s Q]] by (simp add: json_calls_def)
  then have "json_value Q (json_calls s) s \<noteq> None" by (cases "json_value Q (json_calls s) s") (simp_all add: shorter_def)
  then show ?thesis by (rule not_None_eq [THEN iffD1])
qed

text \<open>C29: Reading a text always ends with a value and a success flag; a larger bound on the calls gives the same.\<close>

theorem json_parse_total:
  "json_parse Q json \<noteq> None
    \<and> json_parse Q (Some s) = map_option (\<lambda>(v, ok, _). (v, ok)) (json_value Q (json_calls s + k) s)"
proof -
  obtain x where x: "json_value Q (json_calls s) s = Some x" using json_ends [of Q s] by blast
  have "json_parse Q json \<noteq> None" using json_ends by (cases json) (auto simp: json_parse_def)
  then show ?thesis using json_value_more [OF x, of k] by (simp add: json_parse_def x)
qed

end
