(* ===== verification/Json_Grammar.thy ===== *)
theory Json_Grammar
  imports Json_Props
begin

text \<open>
  JSON texts as syntax trees, the reader's correctness on them, and the round trip of a value through writing and reading.
\<close>


section \<open>The grammar\<close>

text \<open>
  A syntax tree of the grammar of RFC 8259 with the whitespace of the text; the pieces of a text are characters, escapes
  with a letter and escapes with four hexadecimal digits.
\<close>

datatype str_piece = Plain u16 | Letter u16 | Hex u16 u16 u16 u16

datatype jsyn =
    SNull
  | STrue
  | SFalse
  | SNum qstring
  | SStr "str_piece list"
  | SArr "(qstring \<times> jsyn \<times> qstring) list" qstring
  | SObj "((qstring \<times> str_piece list \<times> qstring) \<times> (qstring \<times> jsyn \<times> qstring)) list" qstring

fun piece_ok :: "str_piece \<Rightarrow> bool" where
  "piece_ok (Plain c) = (c \<noteq> 0x22 \<and> c \<noteq> 0x5C)"
| "piece_ok (Letter e) = (map_of json_escapes e \<noteq> None)"
| "piece_ok (Hex a b c d) = True"

fun piece_text :: "str_piece \<Rightarrow> qstring" where
  "piece_text (Plain c) = [c]"
| "piece_text (Letter e) = [0x5C, e]"
| "piece_text (Hex a b c d) = [0x5C, 0x75, a, b, c, d]"

fun piece_value :: "'d json_qt \<Rightarrow> str_piece \<Rightarrow> u16" where
  "piece_value Q (Plain c) = c"
| "piece_value Q (Letter e) = the (map_of json_escapes e)"
| "piece_value Q (Hex a b c d) = word_of_int (jq_toIntHex Q [a, b, c, d])"

definition str_text :: "str_piece list \<Rightarrow> qstring" where
  "str_text ps = [0x22] @ concat (map piece_text ps) @ [0x22]"

definition str_value :: "'d json_qt \<Rightarrow> str_piece list \<Rightarrow> qstring" where
  "str_value Q ps = map (piece_value Q) ps"

definition json_number :: "qstring \<Rightarrow> bool" where
  "json_number w \<longleftrightarrow> w \<noteq> [] \<and> (0x30 \<le> hd w \<and> hd w \<le> 0x39 \<or> hd w = 0x2D) \<and> list_all number_char w"

definition comma_list :: "qstring list \<Rightarrow> qstring" where
  "comma_list ws = (case ws of [] \<Rightarrow> [] | w # us \<Rightarrow> w @ concat (map (\<lambda>u. 0x2C # u) us))"

fun syn_ok :: "jsyn \<Rightarrow> bool" where
  "syn_ok (SNum w) = json_number w"
| "syn_ok (SStr ps) = list_all piece_ok ps"
| "syn_ok (SArr es w) = (list_all json_space w \<and> list_all (\<lambda>e. list_all json_space (fst e) \<and> syn_ok (fst (snd e)) \<and> list_all json_space (snd (snd e))) es)"
| "syn_ok (SObj ms w) = (list_all json_space w \<and> list_all (\<lambda>(k, e). list_all json_space (fst k) \<and> list_all piece_ok (fst (snd k)) \<and> list_all json_space (snd (snd k))
      \<and> list_all json_space (fst e) \<and> syn_ok (fst (snd e)) \<and> list_all json_space (snd (snd e))) ms)"
| "syn_ok _ = True"

fun syn_text :: "jsyn \<Rightarrow> qstring" where
  "syn_text SNull = [0x6E, 0x75, 0x6C, 0x6C]"
| "syn_text STrue = [0x74, 0x72, 0x75, 0x65]"
| "syn_text SFalse = [0x66, 0x61, 0x6C, 0x73, 0x65]"
| "syn_text (SNum w) = w"
| "syn_text (SStr ps) = str_text ps"
| "syn_text (SArr es w) = [0x5B] @ comma_list (map (\<lambda>e. fst e @ syn_text (fst (snd e)) @ snd (snd e)) es) @ w @ [0x5D]"
| "syn_text (SObj ms w) = [0x7B] @ comma_list (map (\<lambda>(k, e). fst k @ str_text (fst (snd k)) @ snd (snd k) @ [0x3A] @ fst e @ syn_text (fst (snd e)) @ snd (snd e)) ms) @ w @ [0x7D]"

fun syn_value :: "'d json_qt \<Rightarrow> jsyn \<Rightarrow> 'd jvalue" where
  "syn_value Q SNull = JInvalid"
| "syn_value Q STrue = JBool True"
| "syn_value Q SFalse = JBool False"
| "syn_value Q (SNum w) = JDouble (jq_toDouble Q w)"
| "syn_value Q (SStr ps) = JString (str_value Q ps)"
| "syn_value Q (SArr es w) = JList (map (\<lambda>e. syn_value Q (fst (snd e))) es)"
| "syn_value Q (SObj ms w) = JMap (fold (\<lambda>(k, v). qmap_insert k v) (map (\<lambda>(k, e). (str_value Q (fst (snd k)), syn_value Q (fst (snd e)))) ms) [])"

section \<open>Tokens of a text\<close>

lemma eat_spaces: "list_all json_space w \<Longrightarrow> eatWhitespace (w @ s) = eatWhitespace s"
  by (induction w) (auto simp: eatWhitespace_def)

lemma eat_none: "\<not> json_space c \<Longrightarrow> eatWhitespace (c # s) = c # s"
  by (simp add: eatWhitespace_def)

lemma next_spaces: "list_all json_space w \<Longrightarrow> nextToken (w @ s) = nextToken s"
  by (simp add: nextToken_def eat_spaces)

lemma look_spaces: "list_all json_space w \<Longrightarrow> lookAhead (w @ s) = lookAhead s"
  by (simp add: lookAhead_def next_spaces)

lemma next_char: "char_token c = Some t \<Longrightarrow> \<not> json_space c \<Longrightarrow> c \<le> 0xFF \<Longrightarrow> nextToken (c # s) = (t, s)"
  by (simp add: nextToken_def eat_none toLatin1_def)

lemma next_fixed:
  "nextToken (0x7B # s) = (JsonTokenCurlyOpen, s)" "nextToken (0x7D # s) = (JsonTokenCurlyClose, s)"
  "nextToken (0x5B # s) = (JsonTokenSquaredOpen, s)" "nextToken (0x5D # s) = (JsonTokenSquaredClose, s)"
  "nextToken (0x2C # s) = (JsonTokenComma, s)" "nextToken (0x22 # s) = (JsonTokenString, s)" "nextToken (0x3A # s) = (JsonTokenColon, s)"
  "nextToken (0x74 # 0x72 # 0x75 # 0x65 # s) = (JsonTokenTrue, s)" "nextToken (0x66 # 0x61 # 0x6C # 0x73 # 0x65 # s) = (JsonTokenFalse, s)"
  "nextToken (0x6E # 0x75 # 0x6C # 0x6C # s) = (JsonTokenNull, s)"
  by (simp_all add: nextToken_def eat_none toLatin1_def char_token_def json_space_def)

lemma chars_piece:
  assumes "piece_ok p"
  shows "parseChars Q acc (piece_text p @ s) = parseChars Q (acc @ [piece_value Q p]) s"
proof (cases p)
  case (Hex a b c d)
  then show ?thesis by (simp add: parseChars.simps(2) json_escapes_def)
qed (use assms in \<open>auto simp: parseChars.simps(2)\<close>)

lemma chars_pieces: "list_all piece_ok ps \<Longrightarrow> parseChars Q acc (concat (map piece_text ps) @ 0x22 # s) = (Some (acc @ str_value Q ps), s)"
  by (induction ps arbitrary: acc) (simp_all add: chars_piece str_value_def parseChars.simps(2))

lemma parse_str:
  assumes "list_all json_space w" "list_all piece_ok ps"
  shows "parseString Q (w @ str_text ps @ s) = Some (JString (str_value Q ps), True, s)"
  by (simp add: parseString_def eat_spaces assms str_text_def eat_none json_space_def chars_pieces)

lemma span_number:
  assumes "list_all number_char w" "s = [] \<or> \<not> number_char (hd s)"
  shows "takeWhile number_char (w @ s) = w \<and> dropWhile number_char (w @ s) = s"
  using assms by (induction w) (cases s; auto)+

lemma number_head:
  assumes "json_number w"
  shows "nextToken (w @ s) = (JsonTokenNumber, tl w @ s)" "eatWhitespace (w @ s) = w @ s"
proof -
  obtain c r where w: "w = c # r" using assms by (cases w) (auto simp: json_number_def)
  have c: "0x30 \<le> c \<and> c \<le> 0x39 \<or> c = 0x2D" using assms w by (simp add: json_number_def)
  have "\<not> json_space c" using c by (auto simp: json_space_def)
  moreover have "char_token c = Some JsonTokenNumber" using c by (auto simp: char_token_def)
  moreover have "c \<le> 0xFF" using c by (auto intro: order_trans)
  ultimately show "nextToken (w @ s) = (JsonTokenNumber, tl w @ s)" "eatWhitespace (w @ s) = w @ s" using next_char [of c JsonTokenNumber] by (simp_all add: w eat_none)
qed


section \<open>Every text of the grammar is read as its value\<close>

definition value_tokens :: "json_token set" where
  "value_tokens = {JsonTokenCurlyOpen, JsonTokenSquaredOpen, JsonTokenString, JsonTokenNumber, JsonTokenTrue, JsonTokenFalse, JsonTokenNull}"

lemma first_token: "syn_ok t \<Longrightarrow> list_all json_space w \<Longrightarrow> lookAhead (w @ syn_text t @ s) \<in> value_tokens"
  by (cases t) (simp_all add: lookAhead_def next_spaces next_fixed str_text_def number_head value_tokens_def)

definition reads :: "'d json_qt \<Rightarrow> qstring \<Rightarrow> 'd jvalue \<Rightarrow> qstring \<Rightarrow> bool" where
  "reads Q x v r \<longleftrightarrow> (\<exists>N. json_value Q N x = Some (v, True, r))"

definition reads_array :: "'d json_qt \<Rightarrow> qstring \<Rightarrow> 'd jvalue list \<Rightarrow> 'd jvalue \<Rightarrow> qstring \<Rightarrow> bool" where
  "reads_array Q x vs v r \<longleftrightarrow> (\<exists>N. json_array Q N x vs = Some (v, True, r))"

definition reads_object :: "'d json_qt \<Rightarrow> qstring \<Rightarrow> (qstring \<times> 'd jvalue) list \<Rightarrow> 'd jvalue \<Rightarrow> qstring \<Rightarrow> bool" where
  "reads_object Q x m v r \<longleftrightarrow> (\<exists>N. json_object Q N x m = Some (v, True, r))"

lemma reads_by: "json_value Q (Suc 0) x = Some (v, True, r) \<Longrightarrow> reads Q x v r"
  by (auto simp: reads_def)

lemma array_close: "list_all json_space b \<Longrightarrow> reads_array Q (b @ 0x5D # s) vs (JList vs) s"
  unfolding reads_array_def by (rule exI [of _ "Suc 0"]) (simp add: json_array.simps(2) look_spaces next_spaces next_fixed lookAhead_def)

lemma array_comma: "list_all json_space b \<Longrightarrow> reads_array Q x vs v r \<Longrightarrow> reads_array Q (b @ 0x2C # x) vs v r"
  unfolding reads_array_def by (erule exE, rule_tac x = "Suc N" in exI) (simp add: json_array.simps(2) look_spaces next_spaces next_fixed lookAhead_def)

lemma array_value:
  assumes "lookAhead x \<in> value_tokens" "reads Q x v y" "reads_array Q y (vs @ [v]) z r"
  shows "reads_array Q x vs z r"
proof -
  obtain N M where N: "json_value Q N x = Some (v, True, y)" "json_array Q M y (vs @ [v]) = Some (z, True, r)" using assms by (auto simp: reads_def reads_array_def)
  have t: "lookAhead x \<noteq> JsonTokenNone" "lookAhead x \<noteq> JsonTokenComma" "lookAhead x \<noteq> JsonTokenSquaredClose" using assms(1) by (auto simp: value_tokens_def)
  have "json_array Q (Suc (N + M)) x vs = Some (z, True, r)"
    unfolding array_element [OF t] using json_value_more [OF N(1), of M] json_array_more [OF N(2), of N] by (simp add: add.commute)
  then show ?thesis unfolding reads_array_def by blast
qed

lemma object_close: "list_all json_space b \<Longrightarrow> reads_object Q (b @ 0x7D # s) m (JMap m) s"
  unfolding reads_object_def by (rule exI [of _ "Suc 0"]) (simp add: json_object.simps(2) look_spaces next_spaces next_fixed lookAhead_def)

lemma object_comma: "list_all json_space b \<Longrightarrow> reads_object Q x m v r \<Longrightarrow> reads_object Q (b @ 0x2C # x) m v r"
  unfolding reads_object_def by (erule exE, rule_tac x = "Suc N" in exI) (simp add: json_object.simps(2) look_spaces next_spaces next_fixed lookAhead_def)

lemma object_value:
  assumes "list_all json_space a" "list_all piece_ok ps" "list_all json_space b" "reads Q x v y" "reads_object Q y (qmap_insert (str_value Q ps) v m) z r"
  shows "reads_object Q (a @ str_text ps @ b @ 0x3A # x) m z r"
proof -
  let ?s = "a @ str_text ps @ b @ 0x3A # x"
  obtain N M where N: "json_value Q N x = Some (v, True, y)" "json_object Q M y (qmap_insert (str_value Q ps) v m) = Some (z, True, r)"
    using assms by (auto simp: reads_def reads_object_def)
  have "lookAhead ?s = JsonTokenString" by (simp add: lookAhead_def next_spaces assms(1) str_text_def next_fixed)
  then have t: "lookAhead ?s \<noteq> JsonTokenNone" "lookAhead ?s \<noteq> JsonTokenComma" "lookAhead ?s \<noteq> JsonTokenCurlyClose" by simp_all
  have "json_object Q (Suc (N + M)) ?s m = Some (z, True, r)"
    unfolding object_pair [OF t] parse_str [OF assms(1,2)] using json_value_more [OF N(1), of M] json_object_more [OF N(2), of N]
    by (simp add: next_spaces assms(3) next_fixed jv_toString_def add.commute)
  then show ?thesis unfolding reads_object_def by blast
qed

definition no_number :: "qstring \<Rightarrow> bool" where
  "no_number s \<longleftrightarrow> s = [] \<or> \<not> number_char (hd s)"

lemma no_number_simps [simp]:
  "no_number []" "no_number (0x2C # s)" "no_number (0x5D # s)" "no_number (0x7D # s)"
  "list_all json_space w \<Longrightarrow> no_number (w @ s) = (w \<noteq> [] \<or> no_number s)"
  by (simp_all add: no_number_def number_char_def) (cases w; auto simp: number_char_def json_space_def)

definition reads_tree :: "'d json_qt \<Rightarrow> jsyn \<Rightarrow> bool" where
  "reads_tree Q t \<longleftrightarrow> (\<forall>a s. list_all json_space a \<longrightarrow> no_number s \<longrightarrow> reads Q (a @ syn_text t @ s) (syn_value Q t) s)"

lemma array_item:
  assumes "list_all json_space a" "syn_ok t" "list_all json_space b" "reads_tree Q t" "no_number x" "reads_array Q (b @ x) (vs @ [syn_value Q t]) z r"
  shows "reads_array Q ((a @ syn_text t @ b) @ x) vs z r"
  using array_value [OF first_token [OF assms(2,1), of "b @ x"], of Q "syn_value Q t" "b @ x" vs z r] assms
  by (simp add: reads_tree_def)

definition elems_ok :: "'d json_qt \<Rightarrow> (qstring \<times> jsyn \<times> qstring) list \<Rightarrow> bool" where
  "elems_ok Q = list_all (\<lambda>(a, t, b). list_all json_space a \<and> syn_ok t \<and> list_all json_space b \<and> reads_tree Q t)"

lemma array_rest:
  assumes "elems_ok Q es" "list_all json_space w" "list_all json_space b"
  shows "reads_array Q (b @ concat (map (\<lambda>u. 0x2C # u) (map (\<lambda>e. fst e @ syn_text (fst (snd e)) @ snd (snd e)) es)) @ w @ 0x5D # s) vs
    (JList (vs @ map (\<lambda>e. syn_value Q (fst (snd e))) es)) s"
  using assms(1,3)
proof (induction es arbitrary: b vs)
  case Nil
  then show ?case using array_close [of "b @ w" Q s vs] assms(2) by simp
next
  case (Cons e es)
  obtain a t c where e: "e = (a, t, c)" by (cases e)
  let ?x = "concat (map (\<lambda>u. 0x2C # u) (map (\<lambda>e. fst e @ syn_text (fst (snd e)) @ snd (snd e)) es)) @ w @ 0x5D # s"
  have h: "list_all json_space a" "syn_ok t" "list_all json_space c" "reads_tree Q t" "elems_ok Q es" using Cons.prems(1) by (auto simp: elems_ok_def e)
  have "no_number ?x" using assms(2) by (cases es) simp_all
  then have "reads_array Q ((a @ syn_text t @ c) @ ?x) vs (JList ((vs @ [syn_value Q t]) @ map (\<lambda>e. syn_value Q (fst (snd e))) es)) s"
    by (rule array_item [OF h(1-4)]) (rule Cons.IH [OF h(5,3)])
  then show ?case using array_comma [OF Cons.prems(2)] by (fastforce simp: e)
qed

lemma array_all:
  assumes "elems_ok Q es" "list_all json_space w"
  shows "reads_array Q (comma_list (map (\<lambda>e. fst e @ syn_text (fst (snd e)) @ snd (snd e)) es) @ w @ 0x5D # s) []
    (JList (map (\<lambda>e. syn_value Q (fst (snd e))) es)) s"
proof (cases es)
  case Nil
  then show ?thesis using array_close [OF assms(2)] by (simp add: comma_list_def)
next
  case (Cons e es')
  obtain a t c where e: "e = (a, t, c)" by (cases e)
  let ?x = "concat (map (\<lambda>u. 0x2C # u) (map (\<lambda>e. fst e @ syn_text (fst (snd e)) @ snd (snd e)) es')) @ w @ 0x5D # s"
  have h: "list_all json_space a" "syn_ok t" "list_all json_space c" "reads_tree Q t" "elems_ok Q es'" using assms(1) by (auto simp: elems_ok_def e Cons)
  have "no_number ?x" using assms(2) by (cases es') simp_all
  then have "reads_array Q ((a @ syn_text t @ c) @ ?x) [] (JList (([] @ [syn_value Q t]) @ map (\<lambda>e. syn_value Q (fst (snd e))) es')) s"
    by (rule array_item [OF h(1-4)]) (rule array_rest [OF h(5) assms(2) h(3)])
  then show ?thesis by (simp add: comma_list_def Cons e)
qed


definition member_text :: "(qstring \<times> str_piece list \<times> qstring) \<times> (qstring \<times> jsyn \<times> qstring) \<Rightarrow> qstring" where
  "member_text = (\<lambda>(k, e). fst k @ str_text (fst (snd k)) @ snd (snd k) @ [0x3A] @ fst e @ syn_text (fst (snd e)) @ snd (snd e))"

definition member_value :: "'d json_qt \<Rightarrow> (qstring \<times> str_piece list \<times> qstring) \<times> (qstring \<times> jsyn \<times> qstring) \<Rightarrow> qstring \<times> 'd jvalue" where
  "member_value Q = (\<lambda>(k, e). (str_value Q (fst (snd k)), syn_value Q (fst (snd e))))"

definition members_ok :: "'d json_qt \<Rightarrow> ((qstring \<times> str_piece list \<times> qstring) \<times> (qstring \<times> jsyn \<times> qstring)) list \<Rightarrow> bool" where
  "members_ok Q = list_all (\<lambda>((a, ps, b), (c, t, d)). list_all json_space a \<and> list_all piece_ok ps \<and> list_all json_space b
     \<and> list_all json_space c \<and> syn_ok t \<and> list_all json_space d \<and> reads_tree Q t)"

lemma object_item:
  assumes "members_ok Q [((a, ps, b), (c, t, d))]" "no_number x" "reads_object Q (d @ x) (qmap_insert (str_value Q ps) (syn_value Q t) m) z r"
  shows "reads_object Q (member_text ((a, ps, b), (c, t, d)) @ x) m z r"
  using object_value [of a ps b Q "c @ syn_text t @ d @ x" "syn_value Q t" "d @ x" m z r] assms
  by (simp add: members_ok_def reads_tree_def member_text_def)

lemma object_rest:
  assumes "members_ok Q ms" "list_all json_space w" "list_all json_space b"
  shows "reads_object Q (b @ concat (map (\<lambda>u. 0x2C # u) (map member_text ms)) @ w @ 0x7D # s) m
    (JMap (fold (\<lambda>(k, v). qmap_insert k v) (map (member_value Q) ms) m)) s"
  using assms(1,3)
proof (induction ms arbitrary: b m)
  case Nil
  then show ?case using object_close [of "b @ w" Q s m] assms(2) by simp
next
  case (Cons e ms)
  obtain a ps c d t k where e: "e = ((a, ps, c), (d, t, k))" by (metis prod_cases3 surj_pair)
  let ?x = "concat (map (\<lambda>u. 0x2C # u) (map member_text ms)) @ w @ 0x7D # s"
  have h: "members_ok Q [((a, ps, c), (d, t, k))]" "members_ok Q ms" "list_all json_space k" using Cons.prems(1) by (auto simp: members_ok_def e)
  have "no_number ?x" using assms(2) by (cases ms) simp_all
  then have "reads_object Q (member_text e @ ?x) m (JMap (fold (\<lambda>(k, v). qmap_insert k v) (map (member_value Q) (e # ms)) m)) s"
    unfolding e by (rule object_item [OF h(1)]) (use Cons.IH [OF h(2,3)] in \<open>simp add: member_value_def\<close>)
  then show ?case using object_comma [OF Cons.prems(2)] by fastforce
qed

lemma object_all:
  assumes "members_ok Q ms" "list_all json_space w"
  shows "reads_object Q (comma_list (map member_text ms) @ w @ 0x7D # s) []
    (JMap (fold (\<lambda>(k, v). qmap_insert k v) (map (member_value Q) ms) [])) s"
proof (cases ms)
  case Nil
  then show ?thesis using object_close [OF assms(2)] by (simp add: comma_list_def)
next
  case (Cons e ms')
  obtain a ps c d t k where e: "e = ((a, ps, c), (d, t, k))" by (metis prod_cases3 surj_pair)
  let ?x = "concat (map (\<lambda>u. 0x2C # u) (map member_text ms')) @ w @ 0x7D # s"
  have h: "members_ok Q [((a, ps, c), (d, t, k))]" "members_ok Q ms'" "list_all json_space k" using assms(1) by (auto simp: members_ok_def e Cons)
  have "no_number ?x" using assms(2) by (cases ms') simp_all
  then have "reads_object Q (member_text e @ ?x) [] (JMap (fold (\<lambda>(k, v). qmap_insert k v) (map (member_value Q) (e # ms')) [])) s"
    unfolding e by (rule object_item [OF h(1)]) (use object_rest [OF h(2) assms(2) h(3)] in \<open>simp add: member_value_def\<close>)
  then show ?thesis by (simp add: comma_list_def Cons)
qed

lemma reads_nested:
  assumes "reads_array Q x [] v r" "list_all json_space a"
  shows "reads Q (a @ 0x5B # x) v r"
  using assms unfolding reads_def reads_array_def
  by (elim exE, rule_tac x = "Suc N" in exI) (simp add: json_value.simps(2) look_spaces next_spaces next_fixed lookAhead_def)

lemma reads_nested_object:
  assumes "reads_object Q x [] v r" "list_all json_space a"
  shows "reads Q (a @ 0x7B # x) v r"
  using assms unfolding reads_def reads_object_def
  by (elim exE, rule_tac x = "Suc N" in exI) (simp add: json_value.simps(2) look_spaces next_spaces next_fixed lookAhead_def)

lemma number_read:
  assumes "json_number w" "list_all json_space a" "no_number s"
  shows "reads Q (a @ w @ s) (JDouble (jq_toDouble Q w)) s"
proof (rule reads_by)
  have "takeWhile number_char (w @ s) = w \<and> dropWhile number_char (w @ s) = s"
    using span_number [of w s] assms(1,3) by (simp add: json_number_def no_number_def)
  then show "json_value Q (Suc 0) (a @ w @ s) = Some (JDouble (jq_toDouble Q w), True, s)"
    by (simp add: json_value.simps(2) lookAhead_def next_spaces assms(2) number_head [OF assms(1)] parseNumber_def eat_spaces)
qed

lemma tree_read: "syn_ok t \<Longrightarrow> reads_tree Q t"
proof (induction t rule: syn_ok.induct)
  case (1 w)
  then show ?case by (simp add: reads_tree_def number_read)
next
  case (2 ps)
  then show ?case unfolding reads_tree_def
    by (auto intro!: reads_by simp: json_value.simps(2) lookAhead_def next_spaces str_text_def next_fixed parse_str [unfolded str_text_def, simplified])
next
  case (3 es w)
  then have "elems_ok Q es" by (auto simp: elems_ok_def list_all_iff)
  then show ?case using 3(2) array_all [of Q es w] reads_nested by (fastforce simp: reads_tree_def)
next
  case (4 ms w)
  then have "members_ok Q ms" by (fastforce simp: members_ok_def list_all_iff)
  then show ?case using 4(2) object_all [of Q ms w] reads_nested_object by (fastforce simp: reads_tree_def member_text_def member_value_def)
qed (auto simp: reads_tree_def json_value.simps(2) lookAhead_def next_spaces next_fixed intro!: reads_by)


lemma parse_read: "reads Q s v r \<Longrightarrow> json_parse Q (Some s) = Some (v, True)"
proof -
  assume "reads Q s v r"
  then obtain N where N: "json_value Q N s = Some (v, True, r)" by (auto simp: reads_def)
  obtain x where x: "json_value Q (json_calls s) s = Some x" using json_ends [of Q s] by blast
  have "x = (v, True, r)" using json_value_more [OF N, of "json_calls s"] json_value_more [OF x, of N] by (simp add: add.commute)
  then show ?thesis by (simp add: json_parse_def x)
qed

text \<open>C30: A text of the JSON grammar is read as the value its syntax tree stands for, with any whitespace around its tokens.\<close>

theorem json_parse_correct:
  assumes "syn_ok t" "list_all json_space a" "list_all json_space b"
  shows "json_parse Q (Some (a @ syn_text t @ b)) = Some (syn_value Q t, True)"
proof (rule parse_read)
  have "no_number b" using no_number_simps(5) [OF assms(3), of "[]"] by simp
  then show "reads Q (a @ syn_text t @ b) (syn_value Q t) b" using tree_read [OF assms(1), of Q] assms(2) by (simp add: reads_tree_def)
qed

section \<open>What is written is read back\<close>

definition piece_of :: "u16 \<Rightarrow> str_piece" where
  "piece_of c =
     (if c = 0x5C then Letter 0x5C else if c = 0x22 then Letter 0x22 else if c = 0x08 then Letter 0x62 else if c = 0x0C then Letter 0x66
      else if c = 0x0A then Letter 0x6E else if c = 0x0D then Letter 0x72 else if c = 0x09 then Letter 0x74 else Plain c)"

fun syn_of :: "'d json_qt \<Rightarrow> 'd jvalue \<Rightarrow> jsyn" where
  "syn_of Q (JBool b) = (if b then STrue else SFalse)"
| "syn_of Q (JDouble d) = SNum (map ucast (jq_number Q d))"
| "syn_of Q (JString s) = SStr (map piece_of s)"
| "syn_of Q (JList vs) = SArr (map (\<lambda>v. ([], syn_of Q v, [])) vs) []"
| "syn_of Q (JMap m) = SObj (map (\<lambda>p. (([], map piece_of (fst p), []), ([], syn_of Q (snd p), []))) m) []"
| "syn_of Q _ = SNull"

text \<open>
  The values a round trip is about: those that reading makes, with the keys of maps in order and every number printed as
  a number of the grammar that converts back to it.
\<close>

fun json_plain :: "'d json_qt \<Rightarrow> 'd jvalue \<Rightarrow> bool" where
  "json_plain Q JInvalid = True"
| "json_plain Q (JBool b) = True"
| "json_plain Q (JDouble d) = (json_number (map ucast (jq_number Q d)) \<and> jq_toDouble Q (map ucast (jq_number Q d)) = d)"
| "json_plain Q (JString s) = True"
| "json_plain Q (JList vs) = list_all (\<lambda>v. json_plain Q v) vs"
| "json_plain Q (JMap m) = (sorted_wrt q_less (map fst m) \<and> list_all (\<lambda>p. json_plain Q (snd p)) m)"
| "json_plain Q _ = False"

text \<open>UTF-8 of a text splits at every ASCII character, which is one byte of its own.\<close>

definition utf8_law :: "'d json_qt \<Rightarrow> bool" where
  "utf8_law Q \<longleftrightarrow> jq_toUtf8 Q [] = [] \<and> (\<forall>s c t. c < 0x80 \<longrightarrow> jq_toUtf8 Q (s @ c # t) = jq_toUtf8 Q s @ [ucast c] @ jq_toUtf8 Q t)"

lemma piece_of_ok: "piece_ok (piece_of c) \<and> piece_value Q (piece_of c) = c"
  by (simp add: piece_of_def json_escapes_def)

lemma str_of: "list_all piece_ok (map piece_of s)" "str_value Q (map piece_of s) = s"
  by (induction s) (simp_all add: piece_of_ok str_value_def)

lemma replace_append: "replace_char c r (s @ t) = replace_char c r s @ replace_char c r t"
  by (simp add: replace_char_def)

lemma replace_nil: "replace_char c r [] = []"
  by (simp add: replace_char_def)

lemma replace_cons: "replace_char c r (x # s) = (if x = c then r else [x]) @ replace_char c r s"
  by (simp add: replace_char_def)

lemma sanitize_pieces: "sanitizeString s = str_text (map piece_of s)"
proof -
  have "replace_char 0x09 [0x5C, 0x74] (replace_char 0x0D [0x5C, 0x72] (replace_char 0x0A [0x5C, 0x6E] (replace_char 0x0C [0x5C, 0x66]
    (replace_char 0x08 [0x5C, 0x62] (replace_char 0x22 [0x5C, 0x22] (replace_char 0x5C [0x5C, 0x5C] s))))))
    = concat (map piece_text (map piece_of s))"
  proof (induction s)
    case (Cons c s)
    then show ?case by (simp add: replace_cons replace_append replace_nil piece_of_def)
  qed (simp add: replace_char_def)
  then show ?thesis by (simp add: sanitizeString_def str_text_def)
qed

lemma q_less_irrefl: "\<not> q_less a a"
  by (induction a) simp_all

lemma q_less_asym: "q_less a b \<Longrightarrow> \<not> q_less b a \<and> a \<noteq> b"
  by (induction a b rule: q_less.induct) auto

lemma insert_last: "list_all (\<lambda>p. q_less (fst p) k) m \<Longrightarrow> qmap_insert k v m = m @ [(k, v)]"
  by (induction m) (use q_less_asym q_less_irrefl in \<open>auto\<close>)

lemma fold_insert:
  "sorted_wrt q_less (map fst (m @ xs)) \<Longrightarrow> fold (\<lambda>(k, v). qmap_insert k v) xs m = m @ xs"
proof (induction xs arbitrary: m)
  case (Cons p xs)
  have "qmap_insert (fst p) (snd p) m = m @ [p]" using Cons.prems by (intro insert_last [of "fst p" m "snd p", simplified]) (auto simp: sorted_wrt_append list_all_iff)
  then show ?case using Cons.IH [of "m @ [p]"] Cons.prems by (simp add: case_prod_beta)
qed simp

lemma syn_of_ok: "json_plain Q v \<Longrightarrow> syn_ok (syn_of Q v)"
  by (induction Q v rule: json_plain.induct) (auto simp: list_all_iff str_of [unfolded list_all_iff])

lemma syn_of_value: "json_plain Q v \<Longrightarrow> syn_value Q (syn_of Q v) = v"
proof (induction Q v rule: json_plain.induct)
  case (6 Q m)
  then have "map (\<lambda>x. (str_value Q (map piece_of (fst x)), syn_value Q (syn_of Q (snd x)))) m = m"
    by (intro map_idI) (auto simp: str_of list_all_iff)
  then show ?case using fold_insert [of "[]" m] 6(2) by (simp add: comp_def)
qed (auto simp: str_of list_all_iff intro!: map_idI)

lemma utf8_left: "utf8_law Q \<Longrightarrow> c < 0x80 \<Longrightarrow> jq_toUtf8 Q (c # t) = ucast c # jq_toUtf8 Q t"
  by (auto simp: utf8_law_def dest: spec [of _ "[]"])

lemma utf8_split: "utf8_law Q \<Longrightarrow> c < 0x80 \<Longrightarrow> jq_toUtf8 Q (s @ c # t) = jq_toUtf8 Q s @ ucast c # jq_toUtf8 Q t"
  by (simp add: utf8_law_def)


lemma utf8_number: "utf8_law Q \<Longrightarrow> list_all (\<lambda>c. c < 0x80) s \<Longrightarrow> jq_toUtf8 Q s = map ucast s"
  by (induction s) (simp_all add: utf8_left, simp add: utf8_law_def)

lemma number_ascii: "number_char c \<Longrightarrow> c < 0x80"
  by (auto simp: number_char_def intro: le_less_trans)

text \<open>The text of a value starts and ends with an ASCII character, or is all of them.\<close>

definition ascii_ends :: "qstring \<Rightarrow> bool" where
  "ascii_ends t \<longleftrightarrow> t \<noteq> [] \<and> hd t < 0x80 \<and> last t < 0x80"

lemma utf8_append: "utf8_law Q \<Longrightarrow> ascii_ends s \<Longrightarrow> jq_toUtf8 Q (s @ t) = jq_toUtf8 Q s @ jq_toUtf8 Q t"
proof -
  assume l: "utf8_law Q" and e: "ascii_ends s"
  obtain u c where s: "s = u @ [c]" "c < 0x80" using e by (cases s rule: rev_cases) (auto simp: ascii_ends_def)
  then show ?thesis using utf8_split [OF l s(2), of u t] utf8_split [OF l s(2), of u "[]"] l by (simp add: utf8_law_def)
qed

lemma number_ends: "json_number w \<Longrightarrow> ascii_ends w"
  using number_ascii [of "hd w"] number_ascii [of "last w"] by (auto simp: json_number_def ascii_ends_def list_all_iff)

lemma syn_of_ends: "json_plain Q v \<Longrightarrow> ascii_ends (syn_text (syn_of Q v))"
  by (cases v) (simp_all add: number_ends, simp_all add: ascii_ends_def str_text_def)

lemma str_ends: "ascii_ends (str_text ps)"
  by (simp add: ascii_ends_def str_text_def)

lemma join_from: "res \<noteq> [] \<Longrightarrow> foldl (\<lambda>res i. (if res \<noteq> [] then res @ sep else res) @ i) res ws = res @ concat (map (\<lambda>i. sep @ i) ws)"
  by (induction ws arbitrary: res) simp_all

lemma join_utf8:
  assumes "utf8_law Q" "list_all ascii_ends ws"
  shows "bytes_join (map (jq_toUtf8 Q) ws) [0x2C] = jq_toUtf8 Q (comma_list ws)"
proof (cases ws)
  case Nil
  then show ?thesis using assms(1) by (simp add: bytes_join_def comma_list_def utf8_law_def)
next
  case (Cons w us)
  then have w: "ascii_ends w" "list_all ascii_ends us" using assms(2) by simp_all
  have "jq_toUtf8 Q w \<noteq> []" using w(1) utf8_left [OF assms(1)] by (cases w) (auto simp: ascii_ends_def)
  moreover have "concat (map (\<lambda>i. [0x2C] @ i) (map (jq_toUtf8 Q) us)) = jq_toUtf8 Q (concat (map (\<lambda>u. 0x2C # u) us))"
    using w(2) assms(1) by (induction us) (simp_all add: utf8_left utf8_append, simp add: utf8_law_def)
  ultimately show ?thesis using Cons by (simp add: bytes_join_def join_from comma_list_def utf8_append [OF assms(1) w(1)])
qed

lemma those_some: "list_all (\<lambda>v. f v = Some (g v)) vs \<Longrightarrow> those (map f vs) = Some (map g vs)"
  by (induction vs) simp_all

lemma byte_unit: "ucast (ucast b :: u16) = (b :: u8)"
  by (rule bit_word_eqI) (simp add: bit_unsigned_iff)

lemma serialize_tree:
  assumes "utf8_law Q"
  shows "json_plain Q v \<Longrightarrow> json_serialize Q v = Some (jq_toUtf8 Q (syn_text (syn_of Q v)))"
  using assms
proof (induction Q v rule: json_plain.induct)
  case (1 Q)
  then show ?case by (simp add: utf8_number ascii_bytes_def)
next
  case (2 Q b)
  then show ?case by (simp add: utf8_number ascii_bytes_def)
next
  case (3 Q d)
  then have "list_all (\<lambda>c. c < 0x80) (map ucast (jq_number Q d) :: qstring)" by (auto simp: json_number_def list_all_iff intro: number_ascii)
  then show ?case using utf8_number [OF 3(2)] by (simp add: comp_def byte_unit)
next
  case (4 Q s)
  then show ?case by (simp add: sanitize_pieces)
next
  case (5 Q vs)
  let ?w = "\<lambda>v. syn_text (syn_of Q v)"
  have "those (map (\<lambda>v. json_serialize Q v) vs) = Some (map (\<lambda>v. jq_toUtf8 Q (?w v)) vs)"
    using 5 by (intro those_some) (simp add: list_all_iff)
  moreover have "bytes_join (map (jq_toUtf8 Q) (map ?w vs)) [0x2C] = jq_toUtf8 Q (comma_list (map ?w vs))"
    using 5(2) by (intro join_utf8 [OF 5(3)]) (simp add: list_all_iff syn_of_ends)
  ultimately show ?case using utf8_split [OF 5(3), of "0x5D" _ "[]"] 5(3) by (simp add: comp_def utf8_left [OF 5(3)]) (simp add: utf8_law_def)
next
  case (6 Q m)
  let ?w = "\<lambda>p. str_text (map piece_of (fst p)) @ 0x3A # syn_text (syn_of Q (snd p))"
  have "jq_toUtf8 Q (?w p) = jq_toUtf8 Q (sanitizeString (fst p)) @ [0x3A] @ jq_toUtf8 Q (syn_text (syn_of Q (snd p)))" for p
    by (simp add: utf8_split [OF 6(3)] sanitize_pieces)
  then have "those (map (\<lambda>p. do { b \<leftarrow> json_serialize Q (snd p); Some (jq_toUtf8 Q (sanitizeString (fst p)) @ [0x3A] @ b) }) m) = Some (map (\<lambda>p. jq_toUtf8 Q (?w p)) m)"
    using 6 by (intro those_some) (simp add: list_all_iff)
  moreover have "bytes_join (map (jq_toUtf8 Q) (map ?w m)) [0x2C] = jq_toUtf8 Q (comma_list (map ?w m))"
    using 6(2) syn_of_ends str_ends by (intro join_utf8 [OF 6(3)]) (auto simp: list_all_iff ascii_ends_def)
  ultimately show ?case using utf8_split [OF 6(3), of "0x7D" _ "[]"] 6(3) by (simp add: comp_def utf8_left [OF 6(3)]) (simp add: utf8_law_def)
qed simp_all

text \<open>C31: 
  A value the reader can make is written as the UTF-8 of a text of the grammar, and that text is read as the value again:
  whatever characters its texts hold, and with the keys of its maps in order.
\<close>

theorem json_roundtrip:
  assumes "utf8_law Q" "json_plain Q v"
  shows "\<exists>t. json_serialize Q v = Some (jq_toUtf8 Q t) \<and> json_parse Q (Some t) = Some (v, True)"
  using serialize_tree [OF assms(1,2)] json_parse_correct [OF syn_of_ok [OF assms(2)], of "[]" "[]" Q] syn_of_value [OF assms(2)] by auto

text \<open>A codec to evaluate with: numbers are 0 and 1, and every unit is coded on its own.\<close>

definition unit_utf8 :: "u16 \<Rightarrow> u8 list" where
  "unit_utf8 c =
     (if c < 0x80 then [ucast c]
      else if c < 0x800 then [0xC0 OR ucast (drop_bit 6 c), 0x80 OR (ucast c AND 0x3F)]
      else [0xE0 OR ucast (drop_bit 12 c), 0x80 OR (ucast (drop_bit 6 c) AND 0x3F), 0x80 OR (ucast c AND 0x3F)])"

definition unit_qt :: "bool json_qt" where
  "unit_qt = \<lparr>jq_toDouble = (\<lambda>s. s = [0x31]), jq_number = (\<lambda>d. if d then [0x31] else [0x30]), jq_toIntHex = (\<lambda>s. 0x41),
     jq_toUtf8 = (\<lambda>s. concat (map unit_utf8 s))\<rparr>"

lemma unit_law: "utf8_law unit_qt"
  by (simp add: utf8_law_def unit_qt_def unit_utf8_def)

theorem json_roundtrip_witness:
  "\<exists>t. json_serialize unit_qt (JMap [([0x61, 0x22], JList [JDouble True, JInvalid]), ([0x62], JString [0xE4])]) = Some (jq_toUtf8 unit_qt t)
    \<and> json_parse unit_qt (Some t) = Some (JMap [([0x61, 0x22], JList [JDouble True, JInvalid]), ([0x62], JString [0xE4])], True)"
  by (rule json_roundtrip [OF unit_law]) (simp add: unit_qt_def json_number_def number_char_def)

lemma json_parse_correct_witness:
  "json_parse unit_qt (Some ([0x20] @ syn_text (SObj [(([], [Plain 0x61, Letter 0x6E], []), ([0x0A], SArr [([], SNum [0x31], []), ([0x20], STrue, [])] [], []))] []) @ []))
    = Some (JMap [([0x61, 0x0A], JList [JDouble True, JBool True])], True)"
  by (subst json_parse_correct)
    (simp_all add: json_space_def json_number_def number_char_def json_escapes_def str_value_def unit_qt_def)

text \<open>
  The reader takes more than the grammar: commas may be missing or too many, text behind the value is not read, and any
  token is taken for the quote of a key (\<open>[1 1,]x\<close> and \<open>{:a":true}\<close>).
\<close>

lemma json_lenient:
  "json_parse unit_qt (Some [0x5B, 0x31, 0x20, 0x31, 0x2C, 0x5D, 0x78]) = Some (JList [JDouble True, JDouble True], True)"
  "json_parse unit_qt (Some [0x7B, 0x3A, 0x61, 0x22, 0x3A, 0x74, 0x72, 0x75, 0x65, 0x7D]) = Some (JMap [([0x61], JBool True)], True)"
  by code_simp+

text \<open>A control character other than the five with a letter is written as it is, which the grammar does not allow.\<close>

lemma control_char_raw: "json_serialize unit_qt (JString [0x01]) = Some [0x22, 0x01, 0x22]"
  by code_simp

end
