(* ===== verification/Aps_Queue.thy ===== *)
theory Aps_Queue
  imports Event_Data
begin

text \<open>
  The table of APS requests that wait for their confirm (end of \<^verbatim>\<open>device_access_fn.cpp\<close>). Polling and the
  maintenance of bindings pause while the count is high. Times are seconds of the steady clock.
\<close>

section \<open>The table\<close>

definition APS_BUSY_TABLE_SIZE :: nat where "APS_BUSY_TABLE_SIZE = 32"

record da_busy =
  db_dstExtAddr :: u64
  db_tref :: int
  db_clusterId :: u16
  db_dstEndpoint :: u8
  db_apsRequestId :: u8

record aps_queue =
  aq_count :: nat
  aq_table :: "da_busy list"

definition db_zero :: da_busy where
  "db_zero = \<lparr>db_dstExtAddr = 0, db_tref = 0, db_clusterId = 0, db_dstEndpoint = 0, db_apsRequestId = 0\<rparr>"

definition aq_init :: aps_queue where
  "aq_init = \<lparr>aq_count = 0, aq_table = replicate APS_BUSY_TABLE_SIZE db_zero\<rparr>"

text \<open>What the callbacks read of a request and of a confirm; no address is one without an extended address.\<close>

record aps_request =
  ar_ext :: "u64 option"
  ar_dstEndpoint :: u8
  ar_id :: u8
  ar_clusterId :: u16

definition aq_unconfirmed :: "aps_queue \<Rightarrow> nat" where
  "aq_unconfirmed q = aq_count q"

fun aq_count_ext :: "u64 \<Rightarrow> nat \<Rightarrow> nat \<Rightarrow> da_busy list \<Rightarrow> nat" where
  "aq_count_ext addr n result [] = result"
| "aq_count_ext addr n result (e # es) =
     (let result = (if db_tref e \<noteq> 0 \<and> db_dstExtAddr e = addr then result + 1 else result) in
      if result = n then result else aq_count_ext addr n result es)"

definition aq_unconfirmed_ext :: "u64 \<Rightarrow> aps_queue \<Rightarrow> nat" where
  "aq_unconfirmed_ext addr q = (if aq_count q \<noteq> 0 then aq_count_ext addr (aq_count q) 0 (aq_table q) else 0)"

text \<open>The loop of \<open>DA_ApsRequestEnqueued\<close>: slots that are more than a minute old are freed, the first free one is taken.\<close>

fun aq_put :: "int \<Rightarrow> u64 \<Rightarrow> aps_request \<Rightarrow> nat \<Rightarrow> da_busy list \<Rightarrow> nat \<times> da_busy list" where
  "aq_put now ext req count [] = (count, [])"
| "aq_put now ext req count (e # es) =
     (let late = db_tref e \<noteq> 0 \<and> 60 < now - db_tref e;
          count = (if late \<and> 0 < count then count - 1 else count);
          e = (if late then db_zero else e) in
      if db_tref e = 0 then
        (if count < APS_BUSY_TABLE_SIZE then count + 1 else count,
         \<lparr>db_dstExtAddr = ext, db_tref = now, db_clusterId = ar_clusterId req, db_dstEndpoint = ar_dstEndpoint req,
          db_apsRequestId = ar_id req\<rparr> # es)
      else (case aq_put now ext req count es of (count, es) \<Rightarrow> (count, e # es)))"

definition DA_ApsRequestEnqueued :: "int \<Rightarrow> aps_request \<Rightarrow> aps_queue \<Rightarrow> aps_queue" where
  "DA_ApsRequestEnqueued now req q =
     (case ar_ext req of
        None \<Rightarrow> q
      | Some ext \<Rightarrow> (case aq_put now ext req (aq_count q) (aq_table q) of (c, t) \<Rightarrow> \<lparr>aq_count = c, aq_table = t\<rparr>))"

fun aq_take :: "u64 \<Rightarrow> aps_request \<Rightarrow> da_busy list \<Rightarrow> da_busy list option" where
  "aq_take ext conf [] = None"
| "aq_take ext conf (e # es) =
     (if db_apsRequestId e = ar_id conf \<and> db_dstExtAddr e = ext \<and> db_dstEndpoint e = ar_dstEndpoint conf
      then Some (db_zero # es)
      else map_option (\<lambda>es. e # es) (aq_take ext conf es))"

definition DA_ApsRequestConfirmed :: "aps_request \<Rightarrow> aps_queue \<Rightarrow> aps_queue" where
  "DA_ApsRequestConfirmed conf q =
     (case ar_ext conf of
        None \<Rightarrow> q
      | Some ext \<Rightarrow>
          if aq_count q \<noteq> 0 then
            (case aq_take ext conf (aq_table q) of
               None \<Rightarrow> q
             | Some t \<Rightarrow> \<lparr>aq_count = aq_count q - 1, aq_table = t\<rparr>)
          else q)"

section \<open>The count is the number of busy slots\<close>

definition busy :: "da_busy \<Rightarrow> bool" where
  "busy e \<longleftrightarrow> db_tref e \<noteq> 0"

definition busy_count :: "da_busy list \<Rightarrow> nat" where
  "busy_count es = length (filter busy es)"

definition free_clean :: "da_busy list \<Rightarrow> bool" where
  "free_clean es \<longleftrightarrow> (\<forall>e \<in> set es. busy e \<or> e = db_zero)"

definition aq_ok :: "aps_queue \<Rightarrow> bool" where
  "aq_ok q \<longleftrightarrow> length (aq_table q) = APS_BUSY_TABLE_SIZE \<and> aq_count q = busy_count (aq_table q) \<and> free_clean (aq_table q)"

lemma busy_count_simps [simp]: "busy_count [] = 0" "busy_count (e # es) = (if busy e then 1 else 0) + busy_count es"
  by (simp_all add: busy_count_def)

lemma busy_count_le: "busy_count es \<le> length es"
  by (simp add: busy_count_def)

lemma free_clean_simps [simp]: "free_clean []" "free_clean (e # es) \<longleftrightarrow> (busy e \<or> e = db_zero) \<and> free_clean es"
  by (simp_all add: free_clean_def)

lemma zero_free [simp]: "\<not> busy db_zero"
  by (simp add: busy_def db_zero_def)

lemma put_ok:
  assumes "now \<noteq> 0"
  shows "free_clean es \<Longrightarrow> k + length es \<le> APS_BUSY_TABLE_SIZE \<Longrightarrow>
    (case aq_put now ext req (k + busy_count es) es of (c, t) \<Rightarrow> length t = length es \<and> free_clean t \<and> c = k + busy_count t)"
proof (induction es arbitrary: k)
  case (Cons e es)
  have le: "k + busy_count es < APS_BUSY_TABLE_SIZE" using Cons.prems(2) busy_count_le [of es] by simp
  show ?case
  proof (cases "busy e \<and> now - db_tref e \<le> 60")
    case True
    obtain c t where p: "aq_put now ext req (Suc k + busy_count es) es = (c, t)" by fastforce
    have "length t = length es \<and> free_clean t \<and> c = Suc k + busy_count t" using Cons.IH [of "Suc k"] Cons.prems p by simp
    then show ?thesis using True p by (simp add: busy_def Let_def)
  next
    case False
    then show ?thesis using Cons.prems le assms by (auto simp: busy_def db_zero_def Let_def)
  qed
qed simp

lemma take_ok:
  assumes "ext \<noteq> 0"
  shows "free_clean es \<Longrightarrow> aq_take ext conf es = Some t \<Longrightarrow>
    length t = length es \<and> free_clean t \<and> busy_count es = Suc (busy_count t)"
proof (induction es arbitrary: t)
  case (Cons e es)
  show ?case
  proof (cases "db_apsRequestId e = ar_id conf \<and> db_dstExtAddr e = ext \<and> db_dstEndpoint e = ar_dstEndpoint conf")
    case True
    then have "busy e" using Cons.prems(1) assms by (auto simp: db_zero_def)
    then show ?thesis using True Cons.prems by auto
  next
    case False
    then obtain u where "aq_take ext conf es = Some u" "t = e # u" using Cons.prems(2) by (auto split: if_split_asm)
    then show ?thesis using Cons.IH Cons.prems(1) by auto
  qed
qed simp

lemma count_ext:
  "result + busy_count es \<le> n \<Longrightarrow> result < n \<Longrightarrow>
   aq_count_ext addr n result es = result + length (filter (\<lambda>e. busy e \<and> db_dstExtAddr e = addr) es)"
proof (induction es arbitrary: result)
  case (Cons e es)
  show ?case
  proof (cases "busy e \<and> db_dstExtAddr e = addr")
    case True
    show ?thesis
    proof (cases "Suc result = n")
      case full: True
      then have "busy_count es = 0" using True Cons.prems by simp
      then have "filter busy es = []" by (simp add: busy_count_def)
      then have "filter (\<lambda>e. busy e \<and> db_dstExtAddr e = addr) es = []" by (auto simp: filter_empty_conv)
      then show ?thesis using full True by (simp add: busy_def)
    qed (use Cons True in \<open>simp add: busy_def\<close>)
  qed (use Cons in \<open>auto simp: busy_def Let_def split: if_splits\<close>)
qed simp

datatype aq_op = Enqueued int aps_request | Confirmed aps_request

fun aq_step :: "aq_op \<Rightarrow> aps_queue \<Rightarrow> aps_queue" where
  "aq_step (Enqueued now req) q = DA_ApsRequestEnqueued now req q"
| "aq_step (Confirmed conf) q = DA_ApsRequestConfirmed conf q"

text \<open>The clock has left its first second, and no device has the address 0.\<close>

fun aq_op_ok :: "aq_op \<Rightarrow> bool" where
  "aq_op_ok (Enqueued now req) = (now \<noteq> 0)"
| "aq_op_ok (Confirmed conf) = (ar_ext conf \<noteq> Some 0)"

lemma aq_step_ok:
  assumes "aq_ok q" "aq_op_ok op"
  shows "aq_ok (aq_step op q)"
proof (cases op)
  case (Enqueued now req)
  show ?thesis
  proof (cases "ar_ext req")
    case (Some ext)
    then show ?thesis using put_ok [of now "aq_table q" 0 ext req] assms Enqueued
      by (auto simp: aq_ok_def DA_ApsRequestEnqueued_def split: prod.splits)
  qed (use assms Enqueued in \<open>simp add: DA_ApsRequestEnqueued_def\<close>)
next
  case (Confirmed conf)
  show ?thesis
  proof (cases "ar_ext conf")
    case (Some ext)
    then show ?thesis using take_ok [of ext "aq_table q" conf] assms Confirmed
      by (auto simp: aq_ok_def DA_ApsRequestConfirmed_def split: option.split)
  qed (use assms Confirmed in \<open>simp add: DA_ApsRequestConfirmed_def\<close>)
qed

lemma aq_init_ok: "aq_ok aq_init"
  by (simp add: aq_ok_def aq_init_def busy_count_def free_clean_def APS_BUSY_TABLE_SIZE_def busy_def db_zero_def)


definition zdp_request :: "u8 \<Rightarrow> aps_request" where
  "zdp_request i = \<lparr>ar_ext = Some 0x00212EFFFF000001, ar_dstEndpoint = 0, ar_id = i, ar_clusterId = 0x0004\<rparr>"


text \<open>In the first second of the clock a slot that is taken looks free, and the count is never right again.\<close>

lemma aps_queue_first_second:
  "let q = fold aq_step [Enqueued 0 (zdp_request 1), Enqueued 0 (zdp_request 2), Confirmed (zdp_request 1), Confirmed (zdp_request 2)] aq_init
   in aq_unconfirmed q = 1 \<and> aq_table q = replicate APS_BUSY_TABLE_SIZE db_zero"
  by code_simp

end
