(* ===== verification/Device_Tick.thy ===== *)
theory Device_Tick
  imports Event_Data
begin

text \<open>
  Which device may be busy when: the permit join manager (\<^verbatim>\<open>permitJoin.cpp\<close>) announces when joining is open, and
  the device tick (\<^verbatim>\<open>device_tick.cpp\<close>) polls one device after the other, or only the joining ones. All times are
  milliseconds of one clock.
\<close>

section \<open>The tick\<close>

definition DEV_TICK_BOOT_TIME :: int where "DEV_TICK_BOOT_TIME = 8000"
definition TICK_INTERVAL_JOIN :: int where "TICK_INTERVAL_JOIN = 500"
definition TICK_INTERVAL_IDLE :: int where "TICK_INTERVAL_IDLE = 1000"
definition TICK_INTERVAL_IDLE_OTAU :: int where "TICK_INTERVAL_IDLE_OTAU = 6000"
definition TICK_INTERVAL_POLL_TIMOUT :: int where "TICK_INTERVAL_POLL_TIMOUT = 10000"

record join_device =
  jd_deviceKey :: device_key
  jd_macCapabilities :: u8

text \<open>The constructors are the handlers \<open>stateHandler\<close> may point to.\<close>

datatype dt_state = DT_StateInit | DT_StateJoin | DT_StateIdle | DT_StatePoll

text \<open>The timer is the interval it runs with. The two fields for logging are left out.\<close>

record device_tick =
  dt_stateHandler :: dt_state
  dt_joinDevices :: "join_device list"
  dt_joinDisabledTime :: "int option"
  dt_timer :: "int option"
  dt_devIter :: nat

text \<open>What the tick asks its surroundings: of a device its key and whether it is reachable.\<close>

record tick_env =
  te_now :: int
  te_otauBusy :: bool
  te_unconfirmed :: nat
  te_devices :: "(device_key \<times> bool) list"

definition RLocal :: string where "RLocal = []"

definition DeviceTick :: device_tick where
  "DeviceTick = \<lparr>dt_stateHandler = DT_StateInit, dt_joinDevices = [], dt_joinDisabledTime = None, dt_timer = Some DEV_TICK_BOOT_TIME,
     dt_devIter = 0\<rparr>"

definition DT_StartTimer :: "int \<Rightarrow> device_tick \<Rightarrow> device_tick" where
  "DT_StartTimer ms d = d\<lparr>dt_timer := Some ms\<rparr>"

definition DT_StopTimer :: "device_tick \<Rightarrow> device_tick" where
  "DT_StopTimer d = d\<lparr>dt_timer := None\<rparr>"

text \<open>The branches of the handlers for \<open>REventStateLeave\<close> and \<open>REventStateEnter\<close>, which \<open>DT_SetState\<close> runs.\<close>

definition dt_leave :: "dt_state \<Rightarrow> device_tick \<Rightarrow> device_tick" where
  "dt_leave st d =
     (case st of
        DT_StateInit \<Rightarrow> d
      | DT_StateIdle \<Rightarrow> DT_StopTimer d
      | DT_StatePoll \<Rightarrow> DT_StopTimer d
      | DT_StateJoin \<Rightarrow> (DT_StopTimer d)\<lparr>dt_joinDevices := []\<rparr>)"

definition dt_enter :: "dt_state \<Rightarrow> device_tick \<Rightarrow> device_tick" where
  "dt_enter st d =
     (case st of
        DT_StateInit \<Rightarrow> d
      | DT_StateIdle \<Rightarrow> DT_StartTimer TICK_INTERVAL_IDLE d
      | DT_StatePoll \<Rightarrow> DT_StartTimer TICK_INTERVAL_POLL_TIMOUT d
      | DT_StateJoin \<Rightarrow> DT_StartTimer TICK_INTERVAL_JOIN (d\<lparr>dt_joinDisabledTime := None\<rparr>))"

definition DT_SetState :: "dt_state \<Rightarrow> device_tick \<Rightarrow> device_tick" where
  "DT_SetState st d =
     (if dt_stateHandler d \<noteq> st then dt_enter st ((dt_leave (dt_stateHandler d) d)\<lparr>dt_stateHandler := st\<rparr>) else d)"

section \<open>The handlers\<close>

definition stateInit_tick :: "event \<Rightarrow> device_tick \<Rightarrow> device_tick" where
  "stateInit_tick e d = (if ev_resource e = RLocal \<and> ev_what e = REventStateTimeout then DT_SetState DT_StateIdle d else d)"

definition DT_PollNextIdleDevice :: "tick_env \<Rightarrow> device_tick \<Rightarrow> bool \<times> device_tick \<times> event list" where
  "DT_PollNextIdleDevice env d =
     (let devCount = length (te_devices env) in
      if devCount = 0 then (False, d, [])
      else
        (let i = dt_devIter d mod devCount;
             (key, reachable) = te_devices env ! i;
             d = d\<lparr>dt_devIter := i + 1\<rparr> in
         if reachable then (True, d, [EventNum RDevices REventPoll 0 key]) else (False, d, [])))"

definition stateIdle_tick :: "tick_env \<Rightarrow> event \<Rightarrow> device_tick \<Rightarrow> device_tick \<times> event list" where
  "stateIdle_tick env e d =
     (if ev_what e = REventPermitjoinEnabled then (DT_SetState DT_StateJoin d, [])
      else if ev_resource e = RLocal then
        (if ev_what e = REventStateTimeout then
           (let timeout = (if te_otauBusy env then TICK_INTERVAL_IDLE_OTAU else TICK_INTERVAL_IDLE);
                (polled, d, evs) = (if te_unconfirmed env < 4 then DT_PollNextIdleDevice env d else (False, d, [])) in
            if polled then (DT_SetState DT_StatePoll d, evs) else (DT_StartTimer timeout d, evs))
         else if ev_what e = REventStateEnter then (dt_enter DT_StateIdle d, [])
         else if ev_what e = REventStateLeave then (dt_leave DT_StateIdle d, [])
         else (d, []))
      else (d, []))"

definition statePoll_tick :: "event \<Rightarrow> device_tick \<Rightarrow> device_tick" where
  "statePoll_tick e d =
     (if ev_what e = REventPermitjoinEnabled then DT_SetState DT_StateJoin d
      else if ev_resource e = RLocal then
        (if ev_what e = REventStateTimeout then DT_SetState DT_StateIdle d
         else if ev_what e = REventStateEnter then dt_enter DT_StatePoll d
         else if ev_what e = REventStateLeave then dt_leave DT_StatePoll d
         else d)
      else if ev_resource e = RDevices \<and> ev_what e = REventPollDone then DT_SetState DT_StateIdle d
      else d)"

definition DT_RegisterJoiningDevice :: "device_key \<Rightarrow> u8 \<Rightarrow> device_tick \<Rightarrow> device_tick" where
  "DT_RegisterJoiningDevice key caps d =
     (if List.find (\<lambda>j. jd_deviceKey j = key) (dt_joinDevices d) = None
      then d\<lparr>dt_joinDevices := dt_joinDevices d @ [\<lparr>jd_deviceKey = key, jd_macCapabilities = caps\<rparr>]\<rparr>
      else d)"

definition DT_PollNextJoiningDevice :: "device_tick \<Rightarrow> device_tick \<times> event list" where
  "DT_PollNextJoiningDevice d =
     (if dt_joinDevices d = [] then (d, [])
      else
        (let i = dt_devIter d mod length (dt_joinDevices d) in
         (d\<lparr>dt_devIter := i + 1\<rparr>, [EventNum RDevices REventAwake 0 (jd_deviceKey (dt_joinDevices d ! i))])))"

definition stateJoin_tick :: "tick_env \<Rightarrow> event \<Rightarrow> device_tick \<Rightarrow> device_tick \<times> event list" where
  "stateJoin_tick env e d =
     (if ev_what e = REventPermitjoinDisabled then (d\<lparr>dt_joinDisabledTime := Some (te_now env)\<rparr>, [])
      else if ev_what e = REventDeviceAnnounce then (DT_RegisterJoiningDevice (ev_deviceKey e) (ucast (ev_num e)) d, [])
      else if ev_resource e = RLocal then
        (if ev_what e = REventStateTimeout then
           (case dt_joinDisabledTime d of
              Some t \<Rightarrow>
                if 20000 < te_now env - t then (DT_SetState DT_StateIdle d, [])
                else (case DT_PollNextJoiningDevice d of (d, evs) \<Rightarrow> (DT_StartTimer TICK_INTERVAL_JOIN d, evs))
            | None \<Rightarrow> (case DT_PollNextJoiningDevice d of (d, evs) \<Rightarrow> (DT_StartTimer TICK_INTERVAL_JOIN d, evs)))
         else if ev_what e = REventStateEnter then (dt_enter DT_StateJoin d, [])
         else if ev_what e = REventStateLeave then (dt_leave DT_StateJoin d, [])
         else (d, []))
      else (d, []))"

definition dt_handleEvent :: "tick_env \<Rightarrow> event \<Rightarrow> device_tick \<Rightarrow> device_tick \<times> event list" where
  "dt_handleEvent env e d =
     (case dt_stateHandler d of
        DT_StateInit \<Rightarrow> (stateInit_tick e d, [])
      | DT_StateIdle \<Rightarrow> stateIdle_tick env e d
      | DT_StatePoll \<Rightarrow> (statePoll_tick e d, [])
      | DT_StateJoin \<Rightarrow> stateJoin_tick env e d)"

text \<open>The single shot timer is no longer running when it fires.\<close>

definition timoutFired :: "tick_env \<Rightarrow> device_tick \<Rightarrow> device_tick \<times> event list" where
  "timoutFired env d = dt_handleEvent env (EventNum RLocal REventStateTimeout 0 0) (DT_StopTimer d)"

section \<open>Permit join\<close>

definition PERMIT_JOIN_SEND_INTERVAL :: int where "PERMIT_JOIN_SEND_INTERVAL = 1000 * 60"

record permit_join =
  gwPermitJoinDuration :: int
  permitJoinFlag :: bool
  permitJoinLastSendTime :: "int option"

record pj_env =
  pe_now :: int
  pe_active :: bool
  pe_inNetwork :: bool
  DEV_TestManaged :: bool
  pe_ctrlPermitJoin :: int
  gwdisablePermitJoinAutoOff :: bool
  pe_sent :: bool

text \<open>What the manager does besides its own state: events, the controller's parameter, the broadcast, the search for lights.\<close>

datatype pj_action =
    PJ_Event event
  | PJ_AddLightNodes
  | PJ_UpdateEtag
  | PJ_SetPermitJoin int
  | PJ_Broadcast u8
  | PJ_ProxyCommissioningMode
  | PJ_ClearApiKey

definition initPermitJoin :: "permit_join \<Rightarrow> permit_join" where
  "initPermitJoin p = p\<lparr>permitJoinFlag := False\<rparr>"

definition setPermitJoinDuration :: "int \<Rightarrow> permit_join \<Rightarrow> permit_join" where
  "setPermitJoinDuration duration p =
     (let p = (if gwPermitJoinDuration p \<noteq> duration then p\<lparr>gwPermitJoinDuration := duration\<rparr> else p) in
      p\<lparr>permitJoinLastSendTime := None\<rparr>)"

text \<open>The count down.\<close>

definition pj_countdown :: "pj_env \<Rightarrow> permit_join \<Rightarrow> permit_join \<times> pj_action list" where
  "pj_countdown env p =
     (if gwPermitJoinDuration p > 0 then
        (let n = gwPermitJoinDuration p - 1;
             what = (if permitJoinFlag p then REventPermitjoinRunning else REventPermitjoinEnabled) in
         (p\<lparr>gwPermitJoinDuration := n, permitJoinFlag := True\<rparr>,
          [PJ_Event (EventNum RConfig what (word_of_int n) 0)]
          @ (if DEV_TestManaged env then [] else if n mod 10 = 0 then [PJ_AddLightNodes] else [])
          @ [PJ_UpdateEtag]))
      else (p, []))"

text \<open>Closing the controller when it still reports open.\<close>

definition pj_close :: "pj_env \<Rightarrow> permit_join \<Rightarrow> permit_join \<times> pj_action list" where
  "pj_close env p =
     (if pe_ctrlPermitJoin env > 0 \<and> gwPermitJoinDuration p = 0
      then (p\<lparr>permitJoinLastSendTime := None\<rparr>, [PJ_SetPermitJoin (gwPermitJoinDuration p)])
      else (p, []))"

definition pj_send :: "pj_env \<Rightarrow> permit_join \<Rightarrow> permit_join \<times> pj_action list" where
  "pj_send env p =
     (let send = (case permitJoinLastSendTime p of
                    None \<Rightarrow> True
                  | Some t \<Rightarrow> pe_now env - t > PERMIT_JOIN_SEND_INTERVAL \<and> \<not> gwdisablePermitJoinAutoOff env) in
      if \<not> permitJoinFlag p then (p, [])
      else if send then
        (let duration = min (gwPermitJoinDuration p) (PERMIT_JOIN_SEND_INTERVAL div 1000 + 5);
             actions = [PJ_SetPermitJoin duration, PJ_Broadcast (word_of_int duration)] in
         if pe_sent env
         then (p\<lparr>permitJoinLastSendTime := Some (pe_now env)\<rparr>,
               actions @ (if gwPermitJoinDuration p > 0 then [PJ_ProxyCommissioningMode] else []))
         else (p, actions))
      else (p, []))"

definition pj_disabled :: "permit_join \<Rightarrow> permit_join \<times> pj_action list" where
  "pj_disabled p =
     (if gwPermitJoinDuration p = 0 \<and> permitJoinFlag p
      then (p\<lparr>permitJoinFlag := False\<rparr>, [PJ_ClearApiKey, PJ_Event (EventNum RConfig REventPermitjoinDisabled 0 0)])
      else (p, []))"

definition permitJoinTimerFired :: "pj_env \<Rightarrow> permit_join \<Rightarrow> permit_join \<times> pj_action list" where
  "permitJoinTimerFired env p =
     (if \<not> pe_active env then (p, [])
      else
        (case pj_countdown env p of (p, a1) \<Rightarrow>
           if \<not> pe_inNetwork env then (p, a1)
           else
             (case pj_close env p of (p, a2) \<Rightarrow>
              case pj_send env p of (p, a3) \<Rightarrow>
              case pj_disabled p of (p, a4) \<Rightarrow> (p, a1 @ a2 @ a3 @ a4))))"

section \<open>The branches are those of the handlers\<close>

lemma tick_enter_leave:
  "dt_stateHandler d = st \<Longrightarrow> dt_handleEvent env (EventNum RLocal REventStateLeave 0 0) d = (dt_leave st d, [])"
  "dt_stateHandler d = st \<Longrightarrow> dt_handleEvent env (EventNum RLocal REventStateEnter 0 0) d = (dt_enter st d, [])"
  by (cases st; simp add: dt_handleEvent_def stateInit_tick_def stateIdle_tick_def statePoll_tick_def stateJoin_tick_def dt_leave_def dt_enter_def
    EventNum_def Event0_def RLocal_def suffixes)+

section \<open>The tick never stops\<close>

text \<open>A step of the tick: an event from the emitter, which names a resource, or its timer fires, which only a running timer does.\<close>

inductive tick_reach :: "device_tick \<Rightarrow> bool" where
  tick_start: "tick_reach DeviceTick"
| tick_event: "tick_reach d \<Longrightarrow> ev_resource e \<noteq> RLocal \<Longrightarrow> tick_reach (fst (dt_handleEvent env e d))"
| tick_timer: "tick_reach d \<Longrightarrow> dt_timer d \<noteq> None \<Longrightarrow> tick_reach (fst (timoutFired env d))"

definition tick_ok :: "device_tick \<Rightarrow> bool" where
  "tick_ok d \<longleftrightarrow> dt_timer d \<noteq> None \<and> distinct (map jd_deviceKey (dt_joinDevices d)) \<and> (dt_stateHandler d \<noteq> DT_StateJoin \<longrightarrow> dt_joinDevices d = [])"

lemma tick_set_state:
  assumes "distinct (map jd_deviceKey (dt_joinDevices d))" "dt_stateHandler d \<noteq> DT_StateJoin \<longrightarrow> dt_joinDevices d = []"
    "st \<noteq> DT_StateInit" "st \<noteq> dt_stateHandler d"
  shows "tick_ok (DT_SetState st d)"
  using assms by (cases st; cases "dt_stateHandler d") (simp_all add: DT_SetState_def tick_ok_def dt_enter_def dt_leave_def DT_StartTimer_def DT_StopTimer_def)

lemma register_ok:
  "distinct (map jd_deviceKey (dt_joinDevices d)) \<Longrightarrow> distinct (map jd_deviceKey (dt_joinDevices (DT_RegisterJoiningDevice key caps d)))"
  by (auto simp: DT_RegisterJoiningDevice_def find_None_iff)

lemma register_fields:
  "dt_timer (DT_RegisterJoiningDevice key caps d) = dt_timer d" "dt_stateHandler (DT_RegisterJoiningDevice key caps d) = dt_stateHandler d"
  by (simp_all add: DT_RegisterJoiningDevice_def)

lemma poll_idle_fields:
  "DT_PollNextIdleDevice env d = (p, d', evs) \<Longrightarrow>
    dt_timer d' = dt_timer d \<and> dt_stateHandler d' = dt_stateHandler d \<and> dt_joinDevices d' = dt_joinDevices d"
  by (auto simp: DT_PollNextIdleDevice_def Let_def split: if_split_asm prod.split_asm)

lemma poll_join_fields:
  "DT_PollNextJoiningDevice d = (d', evs) \<Longrightarrow>
    dt_timer d' = dt_timer d \<and> dt_stateHandler d' = dt_stateHandler d \<and> dt_joinDevices d' = dt_joinDevices d"
  by (auto simp: DT_PollNextJoiningDevice_def Let_def split: if_split_asm)

definition joins_ok :: "device_tick \<Rightarrow> bool" where
  "joins_ok d \<longleftrightarrow> distinct (map jd_deviceKey (dt_joinDevices d)) \<and> (dt_stateHandler d \<noteq> DT_StateJoin \<longrightarrow> dt_joinDevices d = [])"

lemma tick_ok_iff: "tick_ok d \<longleftrightarrow> dt_timer d \<noteq> None \<and> joins_ok d"
  by (auto simp: tick_ok_def joins_ok_def)

lemma set_state_ok: "joins_ok d \<Longrightarrow> st \<noteq> DT_StateInit \<Longrightarrow> st \<noteq> dt_stateHandler d \<Longrightarrow> tick_ok (DT_SetState st d)"
  by (simp add: joins_ok_def tick_set_state)

lemma start_ok: "joins_ok d \<Longrightarrow> tick_ok (DT_StartTimer ms d)"
  by (simp add: tick_ok_def joins_ok_def DT_StartTimer_def)

lemma event_step_ok:
  assumes "tick_ok d" "ev_resource e \<noteq> RLocal"
  shows "tick_ok (fst (dt_handleEvent env e d))"
proof (cases "dt_stateHandler d")
  case DT_StateJoin
  have "tick_ok (DT_RegisterJoiningDevice key caps d)" for key caps
    using assms(1) register_ok [of d key caps] DT_StateJoin by (simp add: tick_ok_def register_fields)
  then show ?thesis using assms DT_StateJoin by (simp add: dt_handleEvent_def stateJoin_tick_def) (simp add: tick_ok_def)
qed (use assms set_state_ok [of d] in \<open>auto simp: dt_handleEvent_def stateInit_tick_def stateIdle_tick_def statePoll_tick_def tick_ok_iff\<close>)

definition tick_timeout :: event where
  "tick_timeout = EventNum RLocal REventStateTimeout 0 0"

lemma tick_timeout_fields: "ev_resource tick_timeout = RLocal" "ev_what tick_timeout = REventStateTimeout"
  by (simp_all add: tick_timeout_def EventNum_def Event0_def)

lemma timeout_whats: "REventStateTimeout \<noteq> REventPermitjoinEnabled" "REventStateTimeout \<noteq> REventPermitjoinDisabled"
  "REventStateTimeout \<noteq> REventDeviceAnnounce"
  by (simp_all add: suffixes)

lemma timer_step_ok:
  assumes "joins_ok d"
  shows "tick_ok (fst (dt_handleEvent env tick_timeout d))"
proof (cases "dt_stateHandler d")
  case DT_StateIdle
  show ?thesis
  proof (cases "te_unconfirmed env < 4")
    case True
    obtain p d' evs where p: "DT_PollNextIdleDevice env d = (p, d', evs)" by (metis prod_cases3)
    have "joins_ok d'" "dt_stateHandler d' = DT_StateIdle" using poll_idle_fields [OF p] assms DT_StateIdle by (auto simp: joins_ok_def)
    then show ?thesis using True p DT_StateIdle set_state_ok [of d' DT_StatePoll] start_ok [of d']
      by (simp add: dt_handleEvent_def stateIdle_tick_def tick_timeout_fields timeout_whats)
  qed (use assms DT_StateIdle start_ok [of d] in \<open>simp add: dt_handleEvent_def stateIdle_tick_def tick_timeout_fields timeout_whats\<close>)
next
  case DT_StateJoin
  obtain d' evs where p: "DT_PollNextJoiningDevice d = (d', evs)" by fastforce
  have "joins_ok d'" using poll_join_fields [OF p] assms DT_StateJoin by (auto simp: joins_ok_def)
  then show ?thesis using p DT_StateJoin assms set_state_ok [of d DT_StateIdle] start_ok [of d']
    by (simp add: dt_handleEvent_def stateJoin_tick_def tick_timeout_fields timeout_whats split: option.split)
qed (use assms set_state_ok [of d DT_StateIdle] in \<open>simp_all add: dt_handleEvent_def stateInit_tick_def statePoll_tick_def tick_timeout_fields timeout_whats\<close>)



section \<open>Every device gets its turn\<close>

text \<open>One turn: the timer fires, and a device that is polled reports that it is done.\<close>

definition tick_turn :: "tick_env \<Rightarrow> device_key \<Rightarrow> device_tick \<Rightarrow> device_tick \<times> event list" where
  "tick_turn env key d =
     (case timoutFired env d of
        (d, evs) \<Rightarrow> if dt_stateHandler d = DT_StatePoll then (case dt_handleEvent env (EventNum RDevices REventPollDone 0 key) d of (d, evs') \<Rightarrow> (d, evs @ evs')) else (d, evs))"

fun tick_turns :: "tick_env \<Rightarrow> device_key list \<Rightarrow> device_tick \<Rightarrow> device_tick \<times> event list" where
  "tick_turns env [] d = (d, [])"
| "tick_turns env (k # ks) d = (case tick_turn env k d of (d, evs) \<Rightarrow> case tick_turns env ks d of (d, evs') \<Rightarrow> (d, evs @ evs'))"

definition polls_of :: "tick_env \<Rightarrow> nat \<Rightarrow> event list" where
  "polls_of env i = (case te_devices env ! (i mod length (te_devices env)) of (key, reachable) \<Rightarrow> if reachable then [EventNum RDevices REventPoll 0 key] else [])"

lemma poll_done_fields: "ev_resource (EventNum RDevices REventPollDone 0 key) = RDevices" "ev_what (EventNum RDevices REventPollDone 0 key) = REventPollDone"
  by (simp_all add: EventNum_def Event0_def)

lemma poll_done_whats: "REventPollDone \<noteq> REventPermitjoinEnabled" "RDevices \<noteq> RLocal"
  by (simp_all add: suffixes RLocal_def)

lemma tick_turn_polls:
  assumes "dt_stateHandler d = DT_StateIdle" "te_unconfirmed env < 4" "te_devices env \<noteq> []"
  shows "\<exists>d'. tick_turn env key d = (d', polls_of env (dt_devIter d)) \<and> dt_stateHandler d' = DT_StateIdle
    \<and> dt_devIter d' mod length (te_devices env) = Suc (dt_devIter d) mod length (te_devices env)"
proof -
  let ?n = "length (te_devices env)"
  obtain key' r where dev: "te_devices env ! (dt_devIter d mod ?n) = (key', r)" by fastforce
  have it: "Suc (dt_devIter d mod ?n) mod ?n = Suc (dt_devIter d) mod ?n" by (simp add: mod_Suc_eq)
  show ?thesis
    using assms dev it
    by (cases r) (simp_all add: tick_turn_def timoutFired_def tick_timeout_fields timeout_whats dt_handleEvent_def stateIdle_tick_def statePoll_tick_def
      DT_PollNextIdleDevice_def DT_StopTimer_def DT_StartTimer_def DT_SetState_def dt_enter_def dt_leave_def polls_of_def poll_done_fields poll_done_whats
      flip: tick_timeout_def)
qed

lemma polls_mod: "i mod length (te_devices env) = j mod length (te_devices env) \<Longrightarrow> polls_of env i = polls_of env j"
  by (simp add: polls_of_def)

lemma turns_poll:
  assumes "te_unconfirmed env < 4" "te_devices env \<noteq> []"
  shows "dt_stateHandler d = DT_StateIdle \<Longrightarrow> dt_devIter d mod length (te_devices env) = i mod length (te_devices env) \<Longrightarrow>
    \<exists>d'. tick_turns env ks d = (d', concat (map (\<lambda>j. polls_of env (i + j)) [0..<length ks])) \<and> dt_stateHandler d' = DT_StateIdle"
proof (induction ks arbitrary: d i)
  case (Cons k ks)
  obtain d1 where d1: "tick_turn env k d = (d1, polls_of env (dt_devIter d))" "dt_stateHandler d1 = DT_StateIdle"
    "dt_devIter d1 mod length (te_devices env) = Suc (dt_devIter d) mod length (te_devices env)" using tick_turn_polls [OF Cons.prems(1) assms, of k] by blast
  have "dt_devIter d1 mod length (te_devices env) = Suc i mod length (te_devices env)" using d1(3) Cons.prems(2) by (metis mod_Suc_eq)
  then obtain d2 where d2: "tick_turns env ks d1 = (d2, concat (map (\<lambda>j. polls_of env (Suc i + j)) [0..<length ks]))" "dt_stateHandler d2 = DT_StateIdle"
    using Cons.IH [OF d1(2)] by blast
  have "[0..<Suc (length ks)] = 0 # map Suc [0..<length ks]" by (simp only: map_Suc_upt upt_conv_Cons zero_less_Suc)
  then have "concat (map (\<lambda>j. polls_of env (i + j)) [0..<length (k # ks)]) = polls_of env (dt_devIter d) @ concat (map (\<lambda>j. polls_of env (Suc i + j)) [0..<length ks])"
    using polls_mod [OF Cons.prems(2)] by (simp add: comp_def del: upt_Suc)
  then show ?case using d1(1) d2 by simp
qed simp

text \<open>C34: 
  While joining is closed and the APS queue is not busy, the devices are polled in turn, unreachable ones being passed over:
  with as many turns as there are devices every reachable device is polled.
\<close>

theorem device_tick_round_robin:
  assumes "dt_stateHandler d = DT_StateIdle" "te_unconfirmed env < 4" "(key, True) \<in> set (te_devices env)"
    and "length ks = length (te_devices env)"
  shows "snd (tick_turns env ks d) = concat (map (\<lambda>j. polls_of env (dt_devIter d + j)) [0..<length ks])
    \<and> EventNum RDevices REventPoll 0 key \<in> set (snd (tick_turns env ks d))"
proof -
  let ?n = "length (te_devices env)" and ?i = "dt_devIter d"
  have ne: "te_devices env \<noteq> []" using assms(3) by auto
  have evs: "snd (tick_turns env ks d) = concat (map (\<lambda>j. polls_of env (?i + j)) [0..<length ks])"
    using turns_poll [OF assms(2) ne assms(1) refl, of ks] by auto
  obtain k where k: "k < ?n" "te_devices env ! k = (key, True)" using assms(3) by (auto simp: in_set_conv_nth)
  have iless: "?i mod ?n < ?n" using ne by simp
  define j where "j = (k + (?n - ?i mod ?n)) mod ?n"
  have "(?i + j) mod ?n = k"
  proof -
    have "(?i + j) mod ?n = (?i mod ?n + (k + (?n - ?i mod ?n))) mod ?n" by (simp add: j_def mod_add_left_eq mod_add_right_eq)
    also have "?i mod ?n + (k + (?n - ?i mod ?n)) = k + ?n" using iless by linarith
    finally show ?thesis using k(1) by simp
  qed
  then have "EventNum RDevices REventPoll 0 key \<in> set (polls_of env (?i + j))" using k(2) by (simp add: polls_of_def)
  moreover have "j < length ks" using ne assms(4) by (simp add: j_def)
  ultimately show ?thesis unfolding evs by auto
qed

definition three_devices :: tick_env where
  "three_devices = \<lparr>te_now = 0, te_otauBusy = False, te_unconfirmed = 0, te_devices = [(1, True), (2, False), (3, True)]\<rparr>"

theorem device_tick_round_robin_witness:
  "snd (tick_turns three_devices [1, 2, 3] (fst (timoutFired three_devices DeviceTick)))
    = [EventNum RDevices REventPoll 0 1, EventNum RDevices REventPoll 0 3]"
proof -
  have "dt_stateHandler (fst (timoutFired three_devices DeviceTick)) = DT_StateIdle" "dt_devIter (fst (timoutFired three_devices DeviceTick)) = 0"
    by (simp_all add: timoutFired_def tick_timeout_fields dt_handleEvent_def DeviceTick_def DT_StopTimer_def stateInit_tick_def DT_SetState_def dt_enter_def
      dt_leave_def DT_StartTimer_def flip: tick_timeout_def)
  then show ?thesis
    using device_tick_round_robin [of "fst (timoutFired three_devices DeviceTick)" three_devices 1 "[1, 2, 3]"]
    by (simp add: three_devices_def polls_of_def upt_rec)
qed


section \<open>Joining that is opened again\<close>

text \<open>The events the manager sends while it counts down from \<open>n\<close>.\<close>

definition pj_events :: "pj_action list \<Rightarrow> event list" where
  "pj_events as = concat (map (\<lambda>a. case a of PJ_Event e \<Rightarrow> [e] | _ \<Rightarrow> []) as)"

fun pj_ticks :: "pj_env list \<Rightarrow> permit_join \<Rightarrow> permit_join \<times> event list" where
  "pj_ticks [] p = (p, [])"
| "pj_ticks (env # envs) p = (case permitJoinTimerFired env p of (p, as) \<Rightarrow> case pj_ticks envs p of (p, evs) \<Rightarrow> (p, pj_events as @ evs))"


definition pj_event :: "int \<Rightarrow> nat \<Rightarrow> event" where
  "pj_event n k = EventNum RConfig (if k = 0 then REventPermitjoinEnabled else REventPermitjoinRunning) (word_of_int (n - 1 - int k)) 0"

definition pj_normal :: "pj_env \<Rightarrow> bool" where
  "pj_normal env \<longleftrightarrow> pe_active env \<and> pe_inNetwork env"

lemma pj_events_simps [simp]:
  "pj_events [] = []" "pj_events (as @ bs) = pj_events as @ pj_events bs"
  "pj_events (PJ_Event e # as) = e # pj_events as" "pj_events (PJ_AddLightNodes # as) = pj_events as" "pj_events (PJ_UpdateEtag # as) = pj_events as"
  "pj_events (PJ_SetPermitJoin n # as) = pj_events as" "pj_events (PJ_Broadcast b # as) = pj_events as" "pj_events (PJ_ProxyCommissioningMode # as) = pj_events as"
  "pj_events (PJ_ClearApiKey # as) = pj_events as"
  by (simp_all add: pj_events_def)

lemma pj_send_fields: "gwPermitJoinDuration (fst (pj_send env p)) = gwPermitJoinDuration p" "permitJoinFlag (fst (pj_send env p)) = permitJoinFlag p"
  "pj_events (snd (pj_send env p)) = []"
  by (auto simp: pj_send_def Let_def split: option.split)

lemma pj_close_fields: "gwPermitJoinDuration (fst (pj_close env p)) = gwPermitJoinDuration p" "permitJoinFlag (fst (pj_close env p)) = permitJoinFlag p"
  "pj_events (snd (pj_close env p)) = []"
  by (auto simp: pj_close_def)

text \<open>One second of the count down.\<close>

lemma pj_tick:
  assumes "pj_normal env" "0 < gwPermitJoinDuration p"
  defines "n \<equiv> gwPermitJoinDuration p - 1"
  shows "\<exists>p' as. permitJoinTimerFired env p = (p', as) \<and> gwPermitJoinDuration p' = n \<and> permitJoinFlag p' = (n \<noteq> 0)
    \<and> pj_events as = EventNum RConfig (if permitJoinFlag p then REventPermitjoinRunning else REventPermitjoinEnabled) (word_of_int n) 0
        # (if n = 0 then [EventNum RConfig REventPermitjoinDisabled 0 0] else [])"
proof -
  obtain p1 a1 where c: "pj_countdown env p = (p1, a1)" by fastforce
  have p1: "gwPermitJoinDuration p1 = n" "permitJoinFlag p1"
    "pj_events a1 = [EventNum RConfig (if permitJoinFlag p then REventPermitjoinRunning else REventPermitjoinEnabled) (word_of_int n) 0]"
    using c assms(2) by (auto simp: pj_countdown_def n_def Let_def)
  obtain p2 a2 where d: "pj_close env p1 = (p2, a2)" by fastforce
  obtain p3 a3 where f: "pj_send env p2 = (p3, a3)" by fastforce
  have "gwPermitJoinDuration p3 = n" "permitJoinFlag p3" "pj_events a2 = []" "pj_events a3 = []"
    using pj_close_fields [of env p1] pj_send_fields [of env p2] p1 d f by simp_all
  then show ?thesis using assms(1) c d f p1 by (simp add: permitJoinTimerFired_def pj_normal_def pj_disabled_def)
qed

lemma pj_window:
  "list_all pj_normal envs \<Longrightarrow> envs \<noteq> [] \<Longrightarrow> gwPermitJoinDuration p = int (length envs) \<Longrightarrow>
    \<exists>p'. pj_ticks envs p = (p', EventNum RConfig (if permitJoinFlag p then REventPermitjoinRunning else REventPermitjoinEnabled) (word_of_int (int (length envs) - 1)) 0
        # map (\<lambda>k. EventNum RConfig REventPermitjoinRunning (word_of_int (int (length envs) - 1 - int k)) 0) [1..<length envs]
        @ [EventNum RConfig REventPermitjoinDisabled 0 0]) \<and> gwPermitJoinDuration p' = 0 \<and> \<not> permitJoinFlag p'"
proof (induction envs arbitrary: p)
  case (Cons env envs)
  let ?n = "int (length envs)"
  obtain p1 as where t: "permitJoinTimerFired env p = (p1, as)" "gwPermitJoinDuration p1 = ?n" "permitJoinFlag p1 = (?n \<noteq> 0)"
    "pj_events as = EventNum RConfig (if permitJoinFlag p then REventPermitjoinRunning else REventPermitjoinEnabled) (word_of_int ?n) 0
        # (if ?n = 0 then [EventNum RConfig REventPermitjoinDisabled 0 0] else [])"
    using pj_tick [of env p] Cons.prems by auto
  show ?case
  proof (cases "envs = []")
    case True
    then show ?thesis using t by simp
  next
    case False
    have l: "[1..<length (env # envs)] = 1 # map Suc [1..<length envs]" using False by (simp add: upt_conv_Cons map_Suc_upt del: upt_Suc)
    obtain p2 where p2: "pj_ticks envs p1 = (p2, EventNum RConfig REventPermitjoinRunning (word_of_int (?n - 1)) 0
        # map (\<lambda>k. EventNum RConfig REventPermitjoinRunning (word_of_int (?n - 1 - int k)) 0) [1..<length envs]
        @ [EventNum RConfig REventPermitjoinDisabled 0 0])" "gwPermitJoinDuration p2 = 0" "\<not> permitJoinFlag p2"
      using Cons.IH [of p1] Cons.prems False t(2,3) by auto
    show ?thesis unfolding l using t p2 False by (simp add: comp_def algebra_simps del: upt_Suc)
  qed
qed simp

text \<open>
  Opening joining for \<open>n\<close> seconds: the manager reports it open, then the seconds left once a second, and closed with the
  last second.
\<close>

theorem permit_join_window:
  assumes "list_all pj_normal envs" "envs \<noteq> []" "\<not> permitJoinFlag p"
  shows "\<exists>p'. pj_ticks envs (setPermitJoinDuration (int (length envs)) p)
      = (p', map (pj_event (int (length envs))) [0..<length envs] @ [EventNum RConfig REventPermitjoinDisabled 0 0])
    \<and> gwPermitJoinDuration p' = 0 \<and> \<not> permitJoinFlag p'"
proof -
  have f: "gwPermitJoinDuration (setPermitJoinDuration (int (length envs)) p) = int (length envs)" "\<not> permitJoinFlag (setPermitJoinDuration (int (length envs)) p)"
    using assms(3) by (simp_all add: setPermitJoinDuration_def)
  have l: "[0..<length envs] = 0 # [1..<length envs]" using assms(2) by (simp add: upt_conv_Cons)
  have m: "map (pj_event (int (length envs))) [1..<length envs]
    = map (\<lambda>k. EventNum RConfig REventPermitjoinRunning (word_of_int (int (length envs) - 1 - int k)) 0) [1..<length envs]"
    by (simp add: pj_event_def)
  show ?thesis using pj_window [OF assms(1,2) f(1)] f(2) unfolding l list.map m by (simp add: pj_event_def)
qed

definition pj_env0 :: pj_env where
  "pj_env0 = \<lparr>pe_now = 0, pe_active = True, pe_inNetwork = True, DEV_TestManaged = False, pe_ctrlPermitJoin = 0, gwdisablePermitJoinAutoOff = False, pe_sent = True\<rparr>"

definition pj_closed :: permit_join where
  "pj_closed = \<lparr>gwPermitJoinDuration = 0, permitJoinFlag = False, permitJoinLastSendTime = None\<rparr>"

theorem permit_join_window_witness:
  "snd (pj_ticks [pj_env0, pj_env0] (setPermitJoinDuration 2 pj_closed))
    = [EventNum RConfig REventPermitjoinEnabled 1 0, EventNum RConfig REventPermitjoinRunning 0 0, EventNum RConfig REventPermitjoinDisabled 0 0]"
  using permit_join_window [of "[pj_env0, pj_env0]" pj_closed] by (auto simp: pj_normal_def pj_env0_def pj_closed_def pj_event_def upt_rec)

text \<open>C35: 
  When joining is opened again within 20 seconds of its end the tick does not notice: it stays in fast polling with the old
  end, goes back to normal polling 20 seconds after it although joining is open, and the reports of the seconds left do not
  bring it back; devices that join then are not polled faster.
\<close>

theorem reopened_join_ignored:
  assumes "dt_stateHandler d = DT_StateJoin" "dt_joinDisabledTime d = Some t" "ev_what e = REventPermitjoinEnabled" "ev_resource e = RConfig"
    and "te_now late > t + 20000" "ev_what running = REventPermitjoinRunning" "ev_resource running = RConfig"
  shows "fst (dt_handleEvent env e d) = d
    \<and> dt_stateHandler (fst (timoutFired late d)) = DT_StateIdle
    \<and> dt_handleEvent env' running (fst (timoutFired late d)) = (fst (timoutFired late d), [])"
proof -
  have c: "REventPermitjoinEnabled \<noteq> REventPermitjoinDisabled" "REventPermitjoinEnabled \<noteq> REventDeviceAnnounce" "RConfig \<noteq> RLocal"
    "REventPermitjoinRunning \<noteq> REventPermitjoinEnabled" by (simp_all add: suffixes RLocal_def)
  have l: "dt_stateHandler (fst (timoutFired late d)) = DT_StateIdle"
    using assms(1,2,5) by (simp add: timoutFired_def dt_handleEvent_def DT_StopTimer_def stateJoin_tick_def tick_timeout_fields timeout_whats DT_SetState_def
      dt_enter_def dt_leave_def DT_StartTimer_def flip: tick_timeout_def)
  then show ?thesis using assms c by (simp add: dt_handleEvent_def stateJoin_tick_def stateIdle_tick_def)
qed

theorem reopened_join_ignored_witness:
  "dt_stateHandler (fst (timoutFired (three_devices\<lparr>te_now := 30000\<rparr>)
      (DeviceTick\<lparr>dt_stateHandler := DT_StateJoin, dt_joinDisabledTime := Some 5000\<rparr>))) = DT_StateIdle"
  by (rule conjunct1 [OF conjunct2 [OF reopened_join_ignored [where t = 5000 and e = "EventNum RConfig REventPermitjoinEnabled 60 0" and running = "EventNum RConfig REventPermitjoinRunning 59 0"]]])
    (simp_all add: EventNum_def Event0_def)

end
