(* ===== verification/Device_State.thy ===== *)
theory Device_State
  imports Res_Resource Event_Data
begin

text \<open>
  A device (\<^verbatim>\<open>device.h\<close>, \<^verbatim>\<open>device.cpp\<close>): the state of its state machine and the operations all handlers use. The
  machine has three levels, level 0 for the life of the device and levels 1 and 2 for the maintenance of its bindings and
  for polling, which run in parallel while level 0 is idle. A handler gives the new state, or no value where the code
  dereferences a null pointer, reads outside a vector or fails an assertion.
\<close>

section \<open>Data\<close>

datatype dev_level = StateLevel0 | StateLevel1 | StateLevel2

abbreviation STATE_LEVEL_BINDING :: dev_level where "STATE_LEVEL_BINDING \<equiv> StateLevel1"
abbreviation STATE_LEVEL_POLL :: dev_level where "STATE_LEVEL_POLL \<equiv> StateLevel2"

definition level_num :: "dev_level \<Rightarrow> s32" where
  "level_num l = (case l of StateLevel0 \<Rightarrow> 0 | StateLevel1 \<Rightarrow> 1 | StateLevel2 \<Rightarrow> 2)"

definition level_of :: "s32 \<Rightarrow> dev_level option" where
  "level_of n = (if n = 0 then Some StateLevel0 else if n = 1 then Some StateLevel1 else if n = 2 then Some StateLevel2 else None)"

text \<open>The functions a state can be.\<close>

datatype dev_handler =
    DEV_InitStateHandler
  | DEV_IdleStateHandler
  | DEV_NodeDescriptorStateHandler
  | DEV_ActiveEndpointsStateHandler
  | DEV_SimpleDescriptorStateHandler
  | DEV_BasicClusterStateHandler
  | DEV_GetDeviceDescriptionHandler
  | DEV_BindingHandler
  | DEV_BindingTableReadHandler
  | DEV_BindingTableVerifyHandler
  | DEV_BindingCreateHandler
  | DEV_BindingRemoveHandler
  | DEV_ReadReportConfigurationHandler
  | DEV_ReadNextReportConfigurationHandler
  | DEV_ConfigureNextReportConfigurationHandler
  | DEV_ConfigureReportingHandler
  | DEV_BindingIdleHandler
  | DEV_PollIdleStateHandler
  | DEV_PollNextStateHandler
  | DEV_PollBusyStateHandler
  | DEV_DeadStateHandler
  | DEV_ZgpStateHandler

definition RxOnWhenIdleResponseTime :: int where "RxOnWhenIdleResponseTime = 2000"
definition RxOffWhenIdleResponseTime :: int where "RxOffWhenIdleResponseTime = 8000"
definition MaxConfirmTimeout :: int where "MaxConfirmTimeout = 20000"
definition BindingAutoCheckInterval :: int where "BindingAutoCheckInterval = 1000 * 60 * 60"
definition MaxPollItemRetries :: nat where "MaxPollItemRetries = 3"
definition MaxIdleApsConfirmErrors :: int where "MaxIdleApsConfirmErrors = 16"
definition MaxSubResources :: nat where "MaxSubResources = 8"
definition MarkZclConfigureBusy :: int where "MarkZclConfigureBusy = 21"
definition MaxRecords :: nat where "MaxRecords = 6"

datatype mgmt_bind = MGMT_BIND_SUPPORT_UNKNOWN | MGMT_BIND_SUPPORTED | MGMT_BIND_NOT_SUPPORTED

record ddf_report =
  dr_reportableChange :: u32
  dr_attributeId :: u16
  dr_minInterval :: u16
  dr_maxInterval :: u16
  dr_manufacturerCode :: u16
  dr_direction :: u8
  dr_dataType :: u8

text \<open>\<open>bd_dst\<close> is the union of \<open>dstExtAddress\<close> and, in its low 16 bits, \<open>dstGroup\<close>.\<close>

record ddf_binding =
  bd_dst :: u64
  bd_clusterId :: u16
  bd_srcEndpoint :: u8
  bd_dstEndpoint :: u8
  bd_configGroup :: u8
  bd_isGroupBinding :: bool
  bd_isUnicastBinding :: bool
  bd_reporting :: "ddf_report list"

definition bd_dstGroup :: "ddf_binding \<Rightarrow> u16" where
  "bd_dstGroup b = ucast (bd_dst b)"

definition bd_setDstGroup :: "u16 \<Rightarrow> ddf_binding \<Rightarrow> ddf_binding" where
  "bd_setDstGroup g b = b\<lparr>bd_dst := (bd_dst b AND NOT 0xFFFF) OR ucast g\<rparr>"

text \<open>Times of the steady clock are milliseconds, 0 is no time.\<close>

record report_tracker =
  rt_lastReport :: int
  rt_lastConfigureCheck :: int
  rt_clusterId :: u16
  rt_attributeId :: u16
  rt_endpoint :: u8

record read_report_record =
  rr_attributeId :: u16
  rr_direction :: u8

record read_report_param =
  rp_extAddress :: u64
  rp_nwkAddress :: u16
  rp_manufacturerCode :: u16
  rp_clusterId :: u16
  rp_endpoint :: u8
  rp_records :: "read_report_record list"

definition rp_empty :: read_report_param where
  "rp_empty = \<lparr>rp_extAddress = 0, rp_nwkAddress = 0, rp_manufacturerCode = 0, rp_clusterId = 0, rp_endpoint = 0, rp_records = []\<rparr>"

record zcl_result =
  zc_isEnqueued :: bool
  zc_apsReqId :: u8
  zc_sequenceNumber :: u8

record zdp_result =
  zd_isEnqueued :: bool
  zd_apsReqId :: u8
  zd_zdpSeq :: u8

record read_result =
  re_isEnqueued :: bool
  re_ignoreResponseSequenceNumber :: bool
  re_apsReqId :: u8
  re_sequenceNumber :: u8
  re_clusterId :: u16

definition zdp_none :: zdp_result where "zdp_none = \<lparr>zd_isEnqueued = False, zd_apsReqId = 0, zd_zdpSeq = 0\<rparr>"
definition zcl_none :: zcl_result where "zcl_none = \<lparr>zc_isEnqueued = False, zc_apsReqId = 0, zc_sequenceNumber = 0\<rparr>"
definition read_none :: read_result where
  "read_none = \<lparr>re_isEnqueued = False, re_ignoreResponseSequenceNumber = False, re_apsReqId = 0, re_sequenceNumber = 0, re_clusterId = 0\<rparr>"

record binding_context =
  bc_bindingCheckRound :: nat
  bc_bindingIter :: nat
  bc_reportIter :: nat
  bc_configIter :: nat
  bc_mgmtBindSupported :: mgmt_bind
  bc_mgmtBindStartIndex :: u8
  bc_bindingTrackers :: "int list"
  bc_bindings :: "ddf_binding list"
  bc_reportTrackers :: "report_tracker list"
  bc_readReportParam :: read_report_param
  bc_zclResult :: zcl_result

text \<open>The read parameters of an item: a map has at least one entry, and perhaps the name of a function.\<close>

datatype read_params = ReadNull | ReadNoMap | ReadMap "string option"

text \<open>The pointers of a poll item are the number of the sub-device and the name of the item.\<close>

record poll_item =
  pi_retry :: nat
  pi_resource :: nat
  pi_item :: string
  pi_readParameters :: read_params

section \<open>The core\<close>

text \<open>What the device reads of the node of the deCONZ core.\<close>

datatype core_dst = CoreExt u64 u8 | CoreGroup u16 | CoreOther

record core_binding =
  cb_srcAddress :: u64
  cb_clusterId :: u16
  cb_srcEndpoint :: u8
  cb_dst :: core_dst
  cb_confirmed :: int

record core_attribute =
  ca_id :: u16
  ca_value :: qvariant
  ca_isNull :: bool

record simple_descriptor =
  sd_endpoint :: u8
  sd_deviceId :: u16
  sd_inClusters :: "(u16 \<times> core_attribute list) list"

record core_node =
  cn_isCoordinator :: bool
  cn_hasExt :: bool
  cn_ext :: u64
  cn_hasNwk :: bool
  cn_nwk :: u16
  cn_nodeDescriptorNull :: bool
  cn_receiverOnWhenIdle :: bool
  cn_endpoints :: "u8 list"
  cn_simpleDescriptors :: "simple_descriptor list"
  cn_bindingTable :: "core_binding list"

text \<open>Requests to the network.\<close>

datatype zdp_request =
    ZDP_NodeDescriptorReq
  | ZDP_ActiveEndpointsReq
  | ZDP_SimpleDescriptorReq u8
  | ZDP_MgmtBindReq u8
  | ZDP_BindReq core_binding
  | ZDP_UnbindReq core_binding

record configure_record =
  cr_reportableChange :: u64
  cr_attributeId :: u16
  cr_minInterval :: u16
  cr_maxInterval :: u16
  cr_timeout :: u16
  cr_direction :: u8
  cr_dataType :: u8

datatype zcl_request =
    ZCL_ReadAttributes u8 u16 "u16 list" u64 u16
  | ZCL_ReadReportConfiguration read_report_param
  | ZCL_ConfigureReporting read_report_param "configure_record list"

text \<open>The response to a request for a report configuration.\<close>

record report_rsp_record =
  rq_reportableChange :: u64
  rq_attributeId :: u16
  rq_minInterval :: u16
  rq_maxInterval :: u16
  rq_status :: u8

record report_rsp =
  rsp_manufacturerCode :: u16
  rsp_records :: "report_rsp_record list"

section \<open>The device and its surroundings\<close>

text \<open>
  What a device does besides its own state: events, messages to the core, requests, reads of items, the legacy poll and
  the callback \<open>didSetValue\<close> of a sub-device.
\<close>

datatype dev_effect =
    FX_Event event
  | FX_NodeChange string string
  | FX_Zdp zdp_request
  | FX_Zcl zcl_request
  | FX_Read poll_item
  | FX_PollLegacy
  | FX_DidSetValue nat string

text \<open>
  \<open>dv_node\<close>: the pointer to the core's node is not null. A timer is the interval it runs with, \<open>dv_awake\<close> the start
  of the elapsed timer. The last four fields are not the device's own: the sub-devices (behind the handles, in their
  order), the atom table, the static counter of \<open>DEV_PollIdleStateHandler\<close>, and what has been done so far.
\<close>

record 'at device =
  dv_res :: resource
  dv_key :: device_key
  dv_deviceId :: int
  dv_creationTime :: int
  dv_node :: bool
  dv_state :: "dev_level \<Rightarrow> dev_handler option"
  dv_timer :: "dev_level \<Rightarrow> int option"
  dv_lock :: "dev_level \<Rightarrow> bool"
  dv_awake :: "int option"
  dv_binding :: binding_context
  dv_pollItems :: "poll_item list"
  dv_idleApsConfirmErrors :: int
  dv_managed :: bool
  dv_zdpResult :: zdp_result
  dv_readResult :: read_result
  dv_zdpNeedFetchEndpointIndex :: u8
  dv_maxResponseTime :: int
  dv_hasDdf :: bool
  dv_initialRun :: bool
  dv_needZDPMaintenanceOnce :: bool
  dv_needReadActiveEndpoints :: bool
  dv_needReadSimpleDescriptors :: bool
  dv_subResources :: "nat list"
  dv_subs :: "resource list"
  dv_atoms :: 'at
  dv_randomDelay :: nat
  dv_out :: "dev_effect list"

record item_info =
  ii_lastZclReport :: int
  ii_zclParam :: "(u16 \<times> u8 \<times> u16 list) option"
  ii_refreshInterval :: int
  ii_readParameters :: read_params

text \<open>Status codes of the deCONZ library.\<close>

record dev_codes =
  ApsSuccessStatus :: u8
  ZdpSuccess :: u8
  ZdpNotSupported :: u8
  ZdpNotPermitted :: u8
  ZclSuccessStatus :: u8
  ZclUnsupportedAttributeStatus :: u8

text \<open>
  The surroundings during one call: both clocks, the core (is there a node for the device and what it says, which other
  nodes there are, the own address, the answers to requests), the APS queue, the read functions, the device description
  and report data of an item, the response an event carries, and the surroundings of the state changes of a sub-device.
\<close>

record dev_env = dev_codes +
  de_now :: int
  de_time :: int
  de_hasNode :: bool
  de_node :: core_node
  de_hasCoreNode :: "u64 \<Rightarrow> bool"
  de_macAddress :: u64
  de_zdp :: "zdp_request \<Rightarrow> zdp_result"
  de_zcl :: "zcl_request \<Rightarrow> zcl_result"
  de_read :: "poll_item \<Rightarrow> read_result"
  de_unconfirmed :: nat
  de_info :: "resource_item \<Rightarrow> item_info"
  de_data :: "event \<Rightarrow> u8 list option"
  de_reportRsp :: "event \<Rightarrow> report_rsp option"
  de_toUShort :: "string \<Rightarrow> u16 option"
  de_changes :: "resource \<Rightarrow> sc_env"
  de_same :: "qvariant \<Rightarrow> resource_item \<Rightarrow> bool"

section \<open>Events, items and timers\<close>

text \<open>Milliseconds to seconds: \<^verbatim>\<open>/\<close> rounds towards 0.\<close>

definition secs_of :: "int \<Rightarrow> int" where
  "secs_of ms = (if ms < 0 then - ((- ms) div 1000) else ms div 1000)"

definition dev_do :: "dev_effect \<Rightarrow> 'at device \<Rightarrow> 'at device" where
  "dev_do x d = d\<lparr>dv_out := dv_out d @ [x]\<rparr>"

text \<open>\<^verbatim>\<open>device->prefix()\<close> is \<open>RDevices\<close>, which the constructor of \<open>Device\<close> gives its resource.\<close>

definition DEV_EnqueueEvent :: "string \<Rightarrow> 'at device \<Rightarrow> 'at device" where
  "DEV_EnqueueEvent what d = dev_do (FX_Event (EventNum (rs_prefix (dv_res d)) what 0 (dv_key d))) d"

definition DEV_ForwardNodeChange :: "string \<Rightarrow> string \<Rightarrow> 'at device \<Rightarrow> 'at device" where
  "DEV_ForwardNodeChange k v d = dev_do (FX_NodeChange k v) d"

definition dev_item :: "'at res_lib \<Rightarrow> string \<Rightarrow> 'at device \<Rightarrow> resource_item option" where
  "dev_item L s d = rs_item (al_rids L) s (dv_res d)"

definition dev_write :: "'at res_lib \<Rightarrow> string \<Rightarrow> resource_item \<Rightarrow> 'at device \<Rightarrow> 'at device" where
  "dev_write L s i d = d\<lparr>dv_res := rs_update (al_rids L) s (\<lambda>_. i) (dv_res d)\<rparr>"

text \<open>\<^verbatim>\<open>item->setValue(number)\<close>\<close>

definition dev_setNumber :: "'at res_lib \<Rightarrow> int \<Rightarrow> string \<Rightarrow> s64 \<Rightarrow> 'at device \<Rightarrow> 'at device option" where
  "dev_setNumber L now s n d = do {
     i \<leftarrow> dev_item L s d;
     Some (dev_write L s (snd (ri_setNumber (al_rids L) now n SourceUnknown i)) d) }"

definition bool_num :: "bool \<Rightarrow> s64" where
  "bool_num b = (if b then 1 else 0)"

text \<open>Setting a number that is not set yet or differs.\<close>

definition dev_syncNumber :: "'at res_lib \<Rightarrow> int \<Rightarrow> string \<Rightarrow> s64 \<Rightarrow> 'at device \<Rightarrow> 'at device option" where
  "dev_syncNumber L now s n d = do {
     i \<leftarrow> dev_item L s d;
     if ri_lastSet i = None \<or> ri_toNumber i \<noteq> n then dev_setNumber L now s n d else Some d }"

definition dev_subDevices :: "'at device \<Rightarrow> 'at device" where
  "dev_subDevices d = d\<lparr>dv_subResources := [0..<length (dv_subs d)]\<rparr>"

definition dev_startStateTimer :: "int \<Rightarrow> dev_level \<Rightarrow> 'at device \<Rightarrow> 'at device" where
  "dev_startStateTimer ms l d = d\<lparr>dv_timer := (dv_timer d)(l := Some ms)\<rparr>"

definition dev_stopStateTimer :: "dev_level \<Rightarrow> 'at device \<Rightarrow> 'at device" where
  "dev_stopStateTimer l d = d\<lparr>dv_timer := (dv_timer d)(l := None)\<rparr>"

text \<open>The node behind the pointer.\<close>

definition dev_core :: "dev_env \<Rightarrow> 'at device \<Rightarrow> core_node option" where
  "dev_core env d = (if dv_node d then Some (de_node env) else None)"

definition lastAwakeMs :: "dev_env \<Rightarrow> 'at device \<Rightarrow> int" where
  "lastAwakeMs env d = (case dv_awake d of Some t \<Rightarrow> de_time env - t | None \<Rightarrow> 8640000)"

definition dev_toBool :: "'at res_lib \<Rightarrow> string \<Rightarrow> 'at device \<Rightarrow> bool option" where
  "dev_toBool L s d = map_option ri_toBool (dev_item L s d)"

definition dev_reachable :: "'at res_lib \<Rightarrow> dev_env \<Rightarrow> 'at device \<Rightarrow> bool option" where
  "dev_reachable L env d =
     (if lastAwakeMs env d < RxOffWhenIdleResponseTime then Some True
      else if dv_node d \<and> \<not> cn_nodeDescriptorNull (de_node env) \<and> cn_receiverOnWhenIdle (de_node env) then dev_toBool L RStateReachable d
      else do {
        sleeper \<leftarrow> dev_toBool L RCapSleeper d;
        if \<not> sleeper then dev_toBool L RStateReachable d else Some False })"

definition dev_isManaged :: "'at device \<Rightarrow> bool" where
  "dev_isManaged d \<longleftrightarrow> dv_managed d \<and> dv_hasDdf d"

section \<open>Changing the state\<close>

text \<open>
  The branches of the handlers for \<open>REventStateLeave\<close>; those of the sub states only stop timers, and the one of
  \<open>DEV_IdleStateHandler\<close> ends the sub states.
\<close>

definition leave_simple :: "dev_handler \<Rightarrow> 'at device \<Rightarrow> 'at device" where
  "leave_simple h d =
     (if h \<in> {DEV_NodeDescriptorStateHandler, DEV_ActiveEndpointsStateHandler, DEV_SimpleDescriptorStateHandler, DEV_BasicClusterStateHandler}
      then dev_stopStateTimer StateLevel0 d
      else if h \<in> {DEV_BindingTableReadHandler, DEV_BindingCreateHandler, DEV_BindingRemoveHandler, DEV_ReadReportConfigurationHandler,
                   DEV_ConfigureReportingHandler, DEV_BindingIdleHandler}
      then dev_stopStateTimer STATE_LEVEL_BINDING d
      else if h \<in> {DEV_PollNextStateHandler, DEV_PollBusyStateHandler} then dev_stopStateTimer STATE_LEVEL_POLL d
      else d)"

text \<open>\<open>setState\<close>, given what leaving a state does; no state is the null pointer.\<close>

definition dev_setState_with :: "(dev_handler \<Rightarrow> 'at device \<Rightarrow> 'at device) \<Rightarrow> dev_handler option \<Rightarrow> dev_level \<Rightarrow> 'at device \<Rightarrow> 'at device" where
  "dev_setState_with leave new l d =
     (if dv_state d l \<noteq> new then
        (let d = (case dv_state d l of
                    Some h \<Rightarrow> (let d = leave h d in d\<lparr>dv_lock := (dv_lock d)(l := False)\<rparr>)
                  | None \<Rightarrow> d);
             d = d\<lparr>dv_state := (dv_state d)(l := new)\<rparr> in
         if new \<noteq> None then
           (let d = d\<lparr>dv_lock := (dv_lock d)(l := True)\<rparr> in
            dev_do (FX_Event ((EventNum (rs_prefix (dv_res d)) REventStateEnter (level_num l) (dv_key d))\<lparr>ev_urgent := True\<rparr>)) d)
         else d)
      else d)"

definition leave_idle :: "'at device \<Rightarrow> 'at device" where
  "leave_idle d =
     (let d = dev_setState_with leave_simple None STATE_LEVEL_BINDING d;
          d = dev_setState_with leave_simple None STATE_LEVEL_POLL d;
          d = dev_stopStateTimer STATE_LEVEL_BINDING d in
      dev_stopStateTimer STATE_LEVEL_POLL d)"

definition dev_leave :: "dev_handler \<Rightarrow> 'at device \<Rightarrow> 'at device" where
  "dev_leave h d = (if h = DEV_IdleStateHandler then leave_idle d else leave_simple h d)"

definition dev_setState :: "dev_handler \<Rightarrow> dev_level \<Rightarrow> 'at device \<Rightarrow> 'at device" where
  "dev_setState h l d = dev_setState_with dev_leave (Some h) l d"

section \<open>Reachability of the sub-devices\<close>

text \<open>One sub-device of the list that \<open>subDevices\<close> has made.\<close>

definition checkReachable_one :: "'at res_lib \<Rightarrow> int \<Rightarrow> bool \<Rightarrow> nat \<Rightarrow> 'at device \<Rightarrow> 'at device" where
  "checkReachable_one L now reachable k d =
     (let r = dv_subs d ! k;
          suffix = (if rs_item (al_rids L) RConfigReachable r \<noteq> None then RConfigReachable else RStateReachable) in
      case rs_item (al_rids L) suffix r of
        None \<Rightarrow> d
      | Some item \<Rightarrow>
          if ri_toBool item \<noteq> reachable \<or> ri_lastSet item = None then
            (let (changed, r) = rs_setNumber (al_rids L) now suffix (bool_num reachable) False r;
                 d = (if changed then dev_do (FX_DidSetValue k suffix) d else d) in
             d\<lparr>dv_subs := (dv_subs d)[k := rs_update (al_rids L) suffix ri_setNeedStore r]\<rparr>)
          else d)"

definition DEV_CheckReachable :: "'at res_lib \<Rightarrow> dev_env \<Rightarrow> 'at device \<Rightarrow> 'at device option" where
  "DEV_CheckReachable L env d = do {
     reachable \<leftarrow> dev_reachable L env d;
     Some (fold (checkReachable_one L (de_now env) reachable) (dv_subResources d) d) }"

text \<open>\<open>DEV_GetSubDevice\<close>: the first sub-device with the prefix (if one is given) whose unique id or id is the text.\<close>

fun find_sub :: "'at res_lib \<Rightarrow> string \<Rightarrow> string \<Rightarrow> nat \<Rightarrow> resource list \<Rightarrow> nat option option" where
  "find_sub L prefix i k [] = Some None"
| "find_sub L prefix i k (r # rs) =
     (if prefix \<noteq> [] \<and> rs_prefix r \<noteq> prefix then find_sub L prefix i (k + 1) rs
      else do {
        u \<leftarrow> rs_item (al_rids L) RAttrUniqueId r;
        if ri_toString (al_fmt L) (al_rids L) u = i then Some (Some k)
        else do {
          v \<leftarrow> rs_item (al_rids L) RAttrId r;
          if ri_toString (al_fmt L) (al_rids L) v = i then Some (Some k) else find_sub L prefix i (k + 1) rs } })"

definition DEV_GetSubDevice :: "'at res_lib \<Rightarrow> string \<Rightarrow> string \<Rightarrow> 'at device \<Rightarrow> (nat option \<times> 'at device) option" where
  "DEV_GetSubDevice L prefix i d = do {
     let d = dev_subDevices d;
     k \<leftarrow> find_sub L prefix i 0 (dv_subs d);
     Some (k, d) }"

end
