(* ===== verification/Device_Interview.thy ===== *)
theory Device_Interview
  imports Device_State
begin

text \<open>
  The handlers of level 0 up to the device description: the interview of a device, which collects its node descriptor,
  endpoints, simple descriptors and the attributes that identify it, and starts again whenever a step fails. The branch for
  \<open>REventStateLeave\<close> is \<open>dev_leave\<close>.
\<close>

section \<open>#1 Init\<close>

definition init_wakes :: "string set" where
  "init_wakes = {REventPoll, REventAwake, RConfigReachable, RStateReachable, REventStateTimeout, RStateLastUpdated}"

definition init_run :: "'at res_lib \<Rightarrow> dev_env \<Rightarrow> 'at device \<Rightarrow> 'at device option" where
  "init_run L env d = do {
     let d = d\<lparr>dv_initialRun := False, dv_binding := (dv_binding d)\<lparr>bc_bindingCheckRound := 0\<rparr>\<rparr>;
     let d = (if \<not> dv_node d then d\<lparr>dv_node := de_hasNode env\<rparr> else d);
     if dv_node d then do {
       d \<leftarrow> dev_syncNumber L (de_now env) RAttrExtAddress (cn_ext (de_node env)) d;
       d \<leftarrow> dev_syncNumber L (de_now env) RAttrNwkAddress (ucast (cn_nwk (de_node env))) d;
       go \<leftarrow> (if \<not> cn_nodeDescriptorNull (de_node env) then Some True else dev_reachable L env d);
       Some (if go then dev_setState DEV_NodeDescriptorStateHandler StateLevel0 d else d) }
     else if dv_key d AND 0xffffffff00000000 = 0 then Some (dev_setState DEV_ZgpStateHandler StateLevel0 d)
     else Some d }"

definition dev_init :: "'at res_lib \<Rightarrow> dev_env \<Rightarrow> event \<Rightarrow> 'at device \<Rightarrow> 'at device option" where
  "dev_init L env e d =
     (if ev_what e = REventStateLeave then Some (dev_leave DEV_InitStateHandler d)
      else
        (let entered = (ev_what e = REventStateEnter);
             d = (if entered then d\<lparr>dv_zdpResult := zdp_none, dv_node := de_hasNode env\<rparr> else d) in
         if entered \<and> ev_deviceKey e AND 0x00212E0000000000 = 0x00212E0000000000 \<and> dv_node d \<and> cn_isCoordinator (de_node env)
         then Some (dev_setState DEV_DeadStateHandler StateLevel0 d)
         else if ev_what e \<in> init_wakes \<or> dv_initialRun d then init_run L env d
         else Some d))"

section \<open>What the request states share\<close>

text \<open>Sending a ZDP request and waiting for its confirm; the state is left when it is not accepted.\<close>

definition zdp_send :: "dev_env \<Rightarrow> zdp_request \<Rightarrow> dev_level \<Rightarrow> dev_handler \<Rightarrow> 'at device \<Rightarrow> 'at device" where
  "zdp_send env req l otherwise d =
     (let d = dev_do (FX_Zdp req) (d\<lparr>dv_zdpResult := de_zdp env req\<rparr>) in
      if zd_isEnqueued (dv_zdpResult d) then dev_startStateTimer MaxConfirmTimeout l d else dev_setState otherwise l d)"

text \<open>The confirm of the request: wait for the response, or leave the state.\<close>

definition aps_confirm :: "dev_env \<Rightarrow> u8 \<Rightarrow> dev_level \<Rightarrow> dev_handler \<Rightarrow> event \<Rightarrow> 'at device \<Rightarrow> 'at device" where
  "aps_confirm env reqId l otherwise e d =
     (if reqId = EventApsConfirmId e then
        (if EventApsConfirmStatus e = ApsSuccessStatus env
         then dev_startStateTimer (dv_maxResponseTime d) l (dev_stopStateTimer l d)
         else dev_setState otherwise l d)
      else d)"

section \<open>#2 Node descriptor\<close>

definition nodeDescriptor_enter :: "'at res_lib \<Rightarrow> dev_env \<Rightarrow> 'at device \<Rightarrow> 'at device option" where
  "nodeDescriptor_enter L env d = do {
     node \<leftarrow> dev_core env d;
     if \<not> cn_nodeDescriptorNull node then do {
       let d = d\<lparr>dv_maxResponseTime := (if cn_receiverOnWhenIdle node then RxOnWhenIdleResponseTime else RxOffWhenIdleResponseTime)\<rparr>;
       let isSleeper = (\<not> cn_receiverOnWhenIdle node);
       cap \<leftarrow> dev_item L RCapSleeper d;
       d \<leftarrow> (if ri_lastSet cap = None \<or> ri_toBool cap \<noteq> isSleeper then dev_setNumber L (de_now env) RCapSleeper (bool_num isSleeper) d else Some d);
       Some (dev_setState DEV_ActiveEndpointsStateHandler StateLevel0 d) }
     else do {
       reachable \<leftarrow> dev_reachable L env d;
       if \<not> reachable then Some (dev_setState DEV_InitStateHandler StateLevel0 d)
       else Some (zdp_send env ZDP_NodeDescriptorReq StateLevel0 DEV_InitStateHandler d) } }"

definition dev_nodeDescriptor :: "'at res_lib \<Rightarrow> dev_env \<Rightarrow> event \<Rightarrow> 'at device \<Rightarrow> 'at device option" where
  "dev_nodeDescriptor L env e d =
     (if ev_what e = REventStateEnter then nodeDescriptor_enter L env d
      else if ev_what e = REventStateLeave then Some (dev_leave DEV_NodeDescriptorStateHandler d)
      else if ev_what e = REventApsConfirm then Some (aps_confirm env (zd_apsReqId (dv_zdpResult d)) StateLevel0 DEV_InitStateHandler e d)
      else if ev_what e = REventNodeDescriptor then Some (DEV_EnqueueEvent REventAwake (dev_setState DEV_InitStateHandler StateLevel0 d))
      else if ev_what e = REventStateTimeout then Some (dev_setState DEV_InitStateHandler StateLevel0 d)
      else Some d)"

section \<open>#3 Active endpoints\<close>

definition activeEndpoints_enter :: "'at res_lib \<Rightarrow> dev_env \<Rightarrow> 'at device \<Rightarrow> 'at device option" where
  "activeEndpoints_enter L env d = do {
     node \<leftarrow> dev_core env d;
     if cn_endpoints node \<noteq> [] \<and> \<not> dv_needReadActiveEndpoints d then Some (dev_setState DEV_SimpleDescriptorStateHandler StateLevel0 d)
     else do {
       reachable \<leftarrow> dev_reachable L env d;
       if \<not> reachable then Some (dev_setState DEV_InitStateHandler StateLevel0 d)
       else Some (zdp_send env ZDP_ActiveEndpointsReq StateLevel0 DEV_InitStateHandler d) } }"

definition dev_activeEndpoints :: "'at res_lib \<Rightarrow> dev_env \<Rightarrow> event \<Rightarrow> 'at device \<Rightarrow> 'at device option" where
  "dev_activeEndpoints L env e d =
     (if ev_what e = REventStateEnter then activeEndpoints_enter L env d
      else if ev_what e = REventStateLeave then Some (dev_leave DEV_ActiveEndpointsStateHandler d)
      else if ev_what e = REventApsConfirm then Some (aps_confirm env (zd_apsReqId (dv_zdpResult d)) StateLevel0 DEV_InitStateHandler e d)
      else if ev_what e = REventActiveEndpoints then
        Some (DEV_EnqueueEvent REventAwake (dev_setState DEV_InitStateHandler StateLevel0 (d\<lparr>dv_needReadActiveEndpoints := False\<rparr>)))
      else if ev_what e = REventStateTimeout then Some (dev_setState DEV_InitStateHandler StateLevel0 d)
      else Some d)"

section \<open>#4 Simple descriptors\<close>

definition has_descriptor :: "core_node \<Rightarrow> u8 \<Rightarrow> bool" where
  "has_descriptor node ep = list_ex (\<lambda>sd. sd_endpoint sd = ep \<and> sd_deviceId sd \<noteq> 0xffff) (cn_simpleDescriptors node)"

text \<open>The endpoint to ask for its descriptor, 0 if none.\<close>

definition needFetchEp :: "core_node \<Rightarrow> 'at device \<Rightarrow> u8" where
  "needFetchEp node d =
     (if dv_needReadSimpleDescriptors d then
        (if unat (dv_zdpNeedFetchEndpointIndex d) < length (cn_endpoints node) then cn_endpoints node ! unat (dv_zdpNeedFetchEndpointIndex d) else 0)
      else (case List.find (\<lambda>ep. \<not> has_descriptor node ep) (cn_endpoints node) of Some ep \<Rightarrow> ep | None \<Rightarrow> 0))"

definition simpleDescriptor_enter :: "'at res_lib \<Rightarrow> dev_env \<Rightarrow> 'at device \<Rightarrow> 'at device option" where
  "simpleDescriptor_enter L env d = do {
     node \<leftarrow> dev_core env d;
     let ep = needFetchEp node d;
     if ep = 0 then
       Some (dev_setState DEV_BasicClusterStateHandler StateLevel0 (d\<lparr>dv_needReadSimpleDescriptors := False, dv_zdpNeedFetchEndpointIndex := 0xFF\<rparr>))
     else do {
       reachable \<leftarrow> dev_reachable L env d;
       if \<not> reachable then Some (dev_setState DEV_InitStateHandler StateLevel0 d)
       else Some (zdp_send env (ZDP_SimpleDescriptorReq ep) StateLevel0 DEV_InitStateHandler d) } }"

definition dev_simpleDescriptor :: "'at res_lib \<Rightarrow> dev_env \<Rightarrow> event \<Rightarrow> 'at device \<Rightarrow> 'at device option" where
  "dev_simpleDescriptor L env e d =
     (if ev_what e = REventStateEnter then simpleDescriptor_enter L env d
      else if ev_what e = REventStateLeave then Some (dev_leave DEV_SimpleDescriptorStateHandler d)
      else if ev_what e = REventApsConfirm then Some (aps_confirm env (zd_apsReqId (dv_zdpResult d)) StateLevel0 DEV_InitStateHandler e d)
      else if ev_what e = REventSimpleDescriptor then do {
        d \<leftarrow> (if dv_needReadSimpleDescriptors d then do {
               node \<leftarrow> dev_core env d;
               Some (if unat (dv_zdpNeedFetchEndpointIndex d) < length (cn_endpoints node)
                     then d\<lparr>dv_zdpNeedFetchEndpointIndex := dv_zdpNeedFetchEndpointIndex d + 1\<rparr> else d) }
             else Some d);
        Some (DEV_EnqueueEvent REventAwake (dev_setState DEV_InitStateHandler StateLevel0 d)) }
      else if ev_what e = REventStateTimeout then Some (dev_setState DEV_InitStateHandler StateLevel0 d)
      else Some d)"

section \<open>#5 Basic cluster\<close>

definition DEV_GetSimpleDescriptorForServerCluster :: "core_node \<Rightarrow> u16 \<Rightarrow> simple_descriptor option" where
  "DEV_GetSimpleDescriptorForServerCluster node clusterId =
     List.find (\<lambda>sd. List.find (\<lambda>cl. fst cl = clusterId) (sd_inClusters sd) \<noteq> None) (cn_simpleDescriptors node)"

text \<open>\<^verbatim>\<open>ditem->setValue(variant)\<close>\<close>

definition dev_setVariant :: "'at res_lib \<Rightarrow> int \<Rightarrow> string \<Rightarrow> qvariant \<Rightarrow> 'at device \<Rightarrow> (bool \<times> 'at device) option" where
  "dev_setVariant L now s v d = do {
     i \<leftarrow> dev_item L s d;
     let (ok, at, i) = ri_setVariant (al_atoms L) (al_qt L) (al_rids L) now v SourceUnknown (dv_atoms d) i;
     Some (ok, dev_write L s i (d\<lparr>dv_atoms := at\<rparr>)) }"

fun fill_from_subs :: "'at res_lib \<Rightarrow> int \<Rightarrow> string \<Rightarrow> resource list \<Rightarrow> 'at device \<Rightarrow> (bool \<times> 'at device) option" where
  "fill_from_subs L now s [] d = Some (False, d)"
| "fill_from_subs L now s (r # rs) d =
     (case rs_item (al_rids L) s r of
        None \<Rightarrow> fill_from_subs L now s rs d
      | Some sitem \<Rightarrow>
          if ri_lastSet sitem \<noteq> None then do {
            (ok, d) \<leftarrow> dev_setVariant L now s (ri_toVariant (al_fmt L) (al_rids L) sitem) d;
            if ok then Some (True, d) else fill_from_subs L now s rs d }
          else fill_from_subs L now s rs d)"

definition DEV_FillItemFromSubdevices :: "'at res_lib \<Rightarrow> dev_env \<Rightarrow> string \<Rightarrow> 'at device \<Rightarrow> (bool \<times> 'at device) option" where
  "DEV_FillItemFromSubdevices L env s d = do {
     ditem \<leftarrow> dev_item L s d;
     if ri_lastSet ditem \<noteq> None then Some (True, d) else fill_from_subs L (de_now env) s (dv_subs d) d }"

definition attr_of :: "u16 \<Rightarrow> u16 \<Rightarrow> simple_descriptor \<Rightarrow> core_attribute option" where
  "attr_of clusterId attrId sd = do {
     cl \<leftarrow> List.find (\<lambda>cl. fst cl = clusterId) (sd_inClusters sd);
     List.find (\<lambda>at. ca_id at = attrId) (snd cl) }"

fun fill_from_node :: "'at res_lib \<Rightarrow> int \<Rightarrow> string \<Rightarrow> u16 \<Rightarrow> u16 \<Rightarrow> simple_descriptor list \<Rightarrow> 'at device \<Rightarrow> (bool \<times> 'at device) option" where
  "fill_from_node L now s cl at [] d = Some (False, d)"
| "fill_from_node L now s cl at (sd # sds) d =
     (case attr_of cl at sd of
        None \<Rightarrow> fill_from_node L now s cl at sds d
      | Some a \<Rightarrow>
          if \<not> ca_isNull a then do {
            (ok, d) \<leftarrow> dev_setVariant L now s (ca_value a) d;
            if ok then Some (True, d) else fill_from_node L now s cl at sds d }
          else fill_from_node L now s cl at sds d)"

definition DEV_FillItemFromBasicCluster :: "'at res_lib \<Rightarrow> dev_env \<Rightarrow> string \<Rightarrow> u16 \<Rightarrow> u16 \<Rightarrow> 'at device \<Rightarrow> (bool \<times> 'at device) option" where
  "DEV_FillItemFromBasicCluster L env s cl at d =
     (case (dev_item L s d, dev_core env d) of
        (Some ditem, Some node) \<Rightarrow>
          if ri_lastSet ditem \<noteq> None then Some (True, d) else fill_from_node L (de_now env) s cl at (cn_simpleDescriptors node) d
      | _ \<Rightarrow> Some (False, d))"

definition DEV_ZclRead :: "'at res_lib \<Rightarrow> dev_env \<Rightarrow> u16 \<Rightarrow> u16 \<Rightarrow> 'at device \<Rightarrow> (bool \<times> 'at device) option" where
  "DEV_ZclRead L env cl at d = do {
     reachable \<leftarrow> dev_reachable L env d;
     if \<not> reachable then Some (False, d)
     else do {
       node \<leftarrow> dev_core env d;
       (case DEV_GetSimpleDescriptorForServerCluster node cl of
          None \<Rightarrow> Some (False, d)
        | Some sd \<Rightarrow> do {
            ext \<leftarrow> dev_item L RAttrExtAddress d;
            nwk \<leftarrow> dev_item L RAttrNwkAddress d;
            let req = ZCL_ReadAttributes (sd_endpoint sd) cl [at] (ri_toNumber ext) (ucast (ri_toNumber nwk));
            let r = de_zcl env req;
            let d = dev_do (FX_Zcl req) d;
            let d = d\<lparr>dv_readResult := (dv_readResult d)\<lparr>re_isEnqueued := zc_isEnqueued r, re_apsReqId := zc_apsReqId r, re_sequenceNumber := zc_sequenceNumber r\<rparr>\<rparr>;
            Some (zc_isEnqueued r, d) }) } }"

text \<open>The loop over the two items: how many are known, and whether a read is under way.\<close>

fun basic_items :: "'at res_lib \<Rightarrow> dev_env \<Rightarrow> (string \<times> u16 \<times> u16) list \<Rightarrow> nat \<Rightarrow> 'at device \<Rightarrow> (bool \<times> nat \<times> 'at device) option" where
  "basic_items L env [] n d = Some (False, n, d)"
| "basic_items L env ((s, cl, at) # its) n d = do {
     (ok, d) \<leftarrow> DEV_FillItemFromSubdevices L env s d;
     if ok then basic_items L env its (n + 1) d
     else do {
       (ok, d) \<leftarrow> DEV_FillItemFromBasicCluster L env s cl at d;
       if ok then basic_items L env its (n + 1) d
       else do {
         _ \<leftarrow> dev_item L s d;
         (reading, d) \<leftarrow> DEV_ZclRead L env cl at d;
         Some (reading, n, d) } } }"

definition basic_list :: "(string \<times> u16 \<times> u16) list" where
  "basic_list = [(RAttrManufacturerName, 0x0000, 0x0004), (RAttrModelId, 0x0000, 0x0005)]"

definition basicCluster_enter :: "'at res_lib \<Rightarrow> dev_env \<Rightarrow> 'at device \<Rightarrow> 'at device option" where
  "basicCluster_enter L env d = do {
     (reading, okCount, d) \<leftarrow> basic_items L env basic_list 0 (dev_subDevices d);
     if reading then Some (dev_startStateTimer MaxConfirmTimeout StateLevel0 d)
     else if okCount \<noteq> length basic_list then Some (dev_setState DEV_InitStateHandler StateLevel0 d)
     else Some (dev_setState DEV_GetDeviceDescriptionHandler StateLevel0 d) }"

definition dev_basicCluster :: "'at res_lib \<Rightarrow> dev_env \<Rightarrow> event \<Rightarrow> 'at device \<Rightarrow> 'at device option" where
  "dev_basicCluster L env e d =
     (if ev_what e = REventStateEnter then basicCluster_enter L env d
      else if ev_what e = REventStateLeave then Some (dev_leave DEV_BasicClusterStateHandler d)
      else if ev_what e = REventApsConfirm then Some (aps_confirm env (re_apsReqId (dv_readResult d)) StateLevel0 DEV_InitStateHandler e d)
      else if ev_what e = RAttrManufacturerName \<or> ev_what e = RAttrModelId then
        Some (DEV_EnqueueEvent REventAwake (dev_setState DEV_InitStateHandler StateLevel0 d))
      else if ev_what e = REventStateTimeout then Some (dev_setState DEV_InitStateHandler StateLevel0 d)
      else Some d)"

section \<open>#6 Device description\<close>

fun publish_items :: "'at res_lib \<Rightarrow> resource \<Rightarrow> (string \<times> string) list \<Rightarrow> 'at device \<Rightarrow> 'at device" where
  "publish_items L r [] d = d"
| "publish_items L r ((s, mapped) # its) d =
     publish_items L r its
       (case rs_item (al_rids L) s r of
          None \<Rightarrow> d
        | Some i \<Rightarrow> (let t = ri_toString (al_fmt L) (al_rids L) i in if t \<noteq> [] then DEV_ForwardNodeChange mapped t d else d))"

definition DEV_PublishToCore :: "'at res_lib \<Rightarrow> 'at device \<Rightarrow> 'at device" where
  "DEV_PublishToCore L d =
     (let d = dev_subDevices d in
      case dv_subs d of
        [] \<Rightarrow> d
      | r # _ \<Rightarrow> publish_items L r [(RAttrName, ''name''), (RAttrModelId, ''modelid''), (RAttrManufacturerName, ''vendor''), (RAttrSwVersion, ''version'')] d)"

definition dev_getDescription :: "'at res_lib \<Rightarrow> dev_env \<Rightarrow> event \<Rightarrow> 'at device \<Rightarrow> 'at device option" where
  "dev_getDescription L env e d =
     (if ev_what e = REventStateEnter then do {
        node \<leftarrow> dev_core env d;
        let d = (if DEV_GetSimpleDescriptorForServerCluster node 0x0500 \<noteq> None then
                   (case rs_addItem (al_rids L) DataTypeUInt16 RAttrZoneType (dv_res d) of
                      (ok, r) \<Rightarrow> d\<lparr>dv_res := (if ok then rs_update (al_rids L) RAttrZoneType (ri_setIsPublic False) r else r)\<rparr>)
                 else d);
        Some (DEV_EnqueueEvent REventDDFInitRequest d) }
      else if ev_what e = REventDDFInitResponse then
        (let d = DEV_PublishToCore L d in
         Some
           (if ev_num e = 1 \<or> ev_num e = 3 then
              (let d = dev_setState DEV_IdleStateHandler StateLevel0 (d\<lparr>dv_managed := True, dv_hasDdf := True\<rparr>) in
               DEV_ForwardNodeChange ''hasddf'' (if ev_num e = 1 then ''1'' else ''2'') d)
            else dev_setState DEV_DeadStateHandler StateLevel0 (d\<lparr>dv_managed := False, dv_hasDdf := False\<rparr>)))
      else Some d)"

end
