(* ===== verification/Device_Bindings.thy ===== *)
theory Device_Bindings
  imports Device_Interview
begin

text \<open>
  The sub states of level 1, which keep the bindings of a device and the reporting behind them as its description wants
  them: read the binding table, verify each binding, create missing ones, read and configure the reports, remove bindings
  that lead nowhere, and wait an hour.
\<close>

section \<open>The context\<close>

definition upd_binding :: "(binding_context \<Rightarrow> binding_context) \<Rightarrow> 'at device \<Rightarrow> 'at device" where
  "upd_binding f d = d\<lparr>dv_binding := f (dv_binding d)\<rparr>"

definition set_bindingIter :: "nat \<Rightarrow> 'at device \<Rightarrow> 'at device" where
  "set_bindingIter n = upd_binding (\<lambda>b. b\<lparr>bc_bindingIter := n\<rparr>)"

definition set_supported :: "mgmt_bind \<Rightarrow> 'at device \<Rightarrow> 'at device" where
  "set_supported m = upd_binding (\<lambda>b. b\<lparr>bc_mgmtBindSupported := m\<rparr>)"

text \<open>\<^verbatim>\<open>bindings[bindingIter]\<close>, writing it, and the time in its tracker.\<close>

definition cur_binding :: "'at device \<Rightarrow> ddf_binding option" where
  "cur_binding d = (let b = dv_binding d in if bc_bindingIter b < length (bc_bindings b) then Some (bc_bindings b ! bc_bindingIter b) else None)"

definition set_curBinding :: "ddf_binding \<Rightarrow> 'at device \<Rightarrow> 'at device" where
  "set_curBinding x = upd_binding (\<lambda>b. b\<lparr>bc_bindings := (bc_bindings b)[bc_bindingIter b := x]\<rparr>)"

definition cur_tBound :: "'at device \<Rightarrow> int option" where
  "cur_tBound d = (let b = dv_binding d in if bc_bindingIter b < length (bc_bindingTrackers b) then Some (bc_bindingTrackers b ! bc_bindingIter b) else None)"

definition set_tBound :: "int \<Rightarrow> 'at device \<Rightarrow> 'at device" where
  "set_tBound t = upd_binding (\<lambda>b. b\<lparr>bc_bindingTrackers := (bc_bindingTrackers b)[bc_bindingIter b := t]\<rparr>)"

definition to_binding :: "dev_handler \<Rightarrow> 'at device \<Rightarrow> 'at device" where
  "to_binding h = dev_setState h STATE_LEVEL_BINDING"

section \<open>Waiting for work\<close>

definition dev_binding :: "dev_env \<Rightarrow> event \<Rightarrow> 'at device \<Rightarrow> 'at device option" where
  "dev_binding env e d =
     Some
       (if ev_what e = REventStateEnter then d
        else if ev_what e = REventPoll \<or> ev_what e = REventAwake \<or> ev_what e = REventBindingTick then
          (if bc_bindings (dv_binding d) = [] then d
           else if de_unconfirmed env > 4 then d
           else
             (let d = set_bindingIter 0 d in
              if bc_mgmtBindSupported (dv_binding d) = MGMT_BIND_NOT_SUPPORTED then to_binding DEV_BindingTableVerifyHandler d
              else to_binding DEV_BindingTableReadHandler d))
        else if ev_what e = REventBindingTable then
          (if ev_num e = ucast (ZdpSuccess env) then set_supported MGMT_BIND_SUPPORTED d
           else if ev_num e = ucast (ZdpNotSupported env) then set_supported MGMT_BIND_NOT_SUPPORTED d
           else d)
        else d)"

definition DEV_ToCoreBinding :: "ddf_binding \<Rightarrow> u64 \<Rightarrow> core_binding option" where
  "DEV_ToCoreBinding b src =
     (let c = \<lparr>cb_srcAddress = src, cb_clusterId = bd_clusterId b, cb_srcEndpoint = bd_srcEndpoint b, cb_dst = CoreOther, cb_confirmed = 0\<rparr> in
      if bd_isUnicastBinding b then Some (c\<lparr>cb_dst := CoreExt (bd_dst b) (bd_dstEndpoint b)\<rparr>)
      else if bd_isGroupBinding b then Some (c\<lparr>cb_dst := CoreGroup (bd_dstGroup b)\<rparr>)
      else None)"

section \<open>Reading the binding table\<close>

text \<open>The response: its sequence number, status and, with at least five bytes, the table's size and the part it holds.\<close>

definition mgmtBind_rsp :: "dev_env \<Rightarrow> event \<Rightarrow> 'at device \<Rightarrow> 'at device" where
  "mgmtBind_rsp env e d =
     (case de_data env e of
        None \<Rightarrow> d
      | Some buf \<Rightarrow>
          if \<not> (2 \<le> length buf \<and> length buf < 128) then d
          else if buf ! 0 \<noteq> zd_zdpSeq (dv_zdpResult d) then d
          else if buf ! 1 = ZdpSuccess env then
            (let d = set_supported MGMT_BIND_SUPPORTED (dev_stopStateTimer STATE_LEVEL_BINDING d);
                 (sz, index, count) = (if 5 \<le> length buf then (buf ! 2, buf ! 3, buf ! 4) else (0, 0, 0)) in
             if unat sz > unat index + unat count then
               DEV_EnqueueEvent REventBindingTick (upd_binding (\<lambda>b. b\<lparr>bc_mgmtBindStartIndex := index + count\<rparr>) d)
             else to_binding DEV_BindingTableVerifyHandler (set_bindingIter 0 d))
          else
            to_binding DEV_BindingHandler
              (if buf ! 1 = ZdpNotSupported env \<or> buf ! 1 = ZdpNotPermitted env then set_supported MGMT_BIND_NOT_SUPPORTED d else d))"

definition dev_bindingTableRead :: "dev_env \<Rightarrow> event \<Rightarrow> 'at device \<Rightarrow> 'at device option" where
  "dev_bindingTableRead env e d =
     (if ev_what e = REventStateEnter then Some (DEV_EnqueueEvent REventBindingTick (upd_binding (\<lambda>b. b\<lparr>bc_mgmtBindStartIndex := 0\<rparr>) d))
      else if ev_what e = REventBindingTick then do {
        _ \<leftarrow> dev_core env d;
        Some (zdp_send env (ZDP_MgmtBindReq (bc_mgmtBindStartIndex (dv_binding d))) STATE_LEVEL_BINDING DEV_BindingHandler d) }
      else if ev_what e = REventStateLeave then Some (dev_leave DEV_BindingTableReadHandler d)
      else if ev_what e = REventApsConfirm then Some (aps_confirm env (zd_apsReqId (dv_zdpResult d)) STATE_LEVEL_BINDING DEV_BindingHandler e d)
      else if ev_what e = REventZdpMgmtBindResponse then Some (mgmtBind_rsp env e d)
      else if ev_what e = REventStateTimeout then Some (to_binding DEV_BindingHandler d)
      else Some d)"

section \<open>Verifying a binding\<close>

text \<open>\<^verbatim>\<open>QString::split(',', SkipEmptyParts)\<close>\<close>

fun split_comma :: "string \<Rightarrow> string \<Rightarrow> string list" where
  "split_comma acc [] = (if acc = [] then [] else [acc])"
| "split_comma acc (c # s) = (if c = CHR '','' then (if acc = [] then [] else [acc]) @ split_comma [] s else split_comma (acc @ [c]) s)"

text \<open>The destination group of the first sub-device with groups; the flag says whether there is a number to go on with.\<close>

definition group_of_subs :: "'at res_lib \<Rightarrow> dev_env \<Rightarrow> resource list \<Rightarrow> ddf_binding \<Rightarrow> bool \<times> ddf_binding" where
  "group_of_subs L env subs b =
     (case List.find (\<lambda>r. rs_item (al_rids L) RConfigGroup r \<noteq> None) subs of
        None \<Rightarrow> (False, b)
      | Some r \<Rightarrow>
          (let ls = split_comma [] (case rs_item (al_rids L) RConfigGroup r of Some i \<Rightarrow> ri_toString (al_fmt L) (al_rids L) i | None \<Rightarrow> []) in
           if length ls \<le> unat (bd_configGroup b) then (False, bd_setDstGroup 0 b)
           else (case de_toUShort env (ls ! unat (bd_configGroup b)) of
                   None \<Rightarrow> (False, b)
                 | Some g \<Rightarrow> (True, if g \<noteq> 0 then bd_setDstGroup g b else b))))"

text \<open>Equality of the core's bindings is that of their addresses.\<close>

definition same_binding :: "core_binding \<Rightarrow> core_binding \<Rightarrow> bool" where
  "same_binding a b \<longleftrightarrow> cb_srcAddress a = cb_srcAddress b \<and> cb_clusterId a = cb_clusterId b \<and> cb_srcEndpoint a = cb_srcEndpoint b \<and> cb_dst a = cb_dst b"

definition next_binding_tick :: "'at device \<Rightarrow> 'at device" where
  "next_binding_tick d = DEV_EnqueueEvent REventBindingTick (set_bindingIter (bc_bindingIter (dv_binding d) + 1) d)"

text \<open>The second part: look the binding up in the table of the node.\<close>

definition verify_lookup :: "dev_env \<Rightarrow> 'at device \<Rightarrow> 'at device option" where
  "verify_lookup env d = do {
     node \<leftarrow> dev_core env d;
     b \<leftarrow> cur_binding d;
     tBound \<leftarrow> cur_tBound d;
     bnd \<leftarrow> DEV_ToCoreBinding b (dv_key d);
     (case List.find (same_binding bnd) (cn_bindingTable node) of
        None \<Rightarrow> Some (to_binding DEV_BindingCreateHandler d)
      | Some i \<Rightarrow>
          (let d = (if tBound < cb_confirmed i then set_tBound (cb_confirmed i) d else d);
               t = max tBound (cb_confirmed i);
               dt = (if t \<noteq> 0 then secs_of (de_time env - t) else -1) in
           Some
             (if dt < 0 \<or> dt > 1800 then to_binding DEV_BindingCreateHandler d
              else (case cb_dst i of
                      CoreExt _ _ \<Rightarrow> to_binding DEV_ReadReportConfigurationHandler (upd_binding (\<lambda>b. b\<lparr>bc_configIter := 0, bc_reportIter := 0\<rparr>) d)
                    | CoreGroup _ \<Rightarrow> next_binding_tick d
                    | CoreOther \<Rightarrow> d)))) }"

definition verify_one_binding :: "'at res_lib \<Rightarrow> dev_env \<Rightarrow> 'at device \<Rightarrow> 'at device option" where
  "verify_one_binding L env d = do {
     b \<leftarrow> cur_binding d;
     _ \<leftarrow> cur_tBound d;
     if bd_dst b = 0 \<and> bd_isUnicastBinding b then
       (let d = set_curBinding (b\<lparr>bd_dst := de_macAddress env\<rparr>) d in
        if de_macAddress env = 0 then Some (to_binding DEV_BindingHandler d) else verify_lookup env d)
     else if bd_isGroupBinding b then
       (let d = dev_subDevices d; (ok, b) = group_of_subs L env (dv_subs d) b; d = set_curBinding b d in
        if \<not> ok then Some (next_binding_tick d) else verify_lookup env d)
     else verify_lookup env d }"

definition dev_bindingTableVerify :: "'at res_lib \<Rightarrow> dev_env \<Rightarrow> event \<Rightarrow> 'at device \<Rightarrow> 'at device option" where
  "dev_bindingTableVerify L env e d =
     (if ev_what e = REventStateEnter then Some (DEV_EnqueueEvent REventBindingTick d)
      else if ev_what e \<noteq> REventBindingTick then Some d
      else if bc_bindingIter (dv_binding d) \<ge> length (bc_bindings (dv_binding d)) then
        Some (to_binding DEV_BindingRemoveHandler (upd_binding (\<lambda>b. b\<lparr>bc_bindingCheckRound := bc_bindingCheckRound b + 1\<rparr>) d))
      else verify_one_binding L env d)"

definition DEV_ProcessNextBinding :: "'at device \<Rightarrow> 'at device" where
  "DEV_ProcessNextBinding d = to_binding DEV_BindingTableVerifyHandler (set_bindingIter (bc_bindingIter (dv_binding d) + 1) d)"

section \<open>Creating and removing bindings\<close>

definition bindingCreate_enter :: "dev_env \<Rightarrow> 'at device \<Rightarrow> 'at device option" where
  "bindingCreate_enter env d = do {
     b \<leftarrow> cur_binding d;
     _ \<leftarrow> cur_tBound d;
     let d = set_tBound 0 d;
     bnd \<leftarrow> DEV_ToCoreBinding b (dv_key d);
     Some (zdp_send env (ZDP_BindReq bnd) STATE_LEVEL_BINDING DEV_BindingHandler d) }"

definition dev_bindingCreate :: "dev_env \<Rightarrow> event \<Rightarrow> 'at device \<Rightarrow> 'at device option" where
  "dev_bindingCreate env e d =
     (if ev_what e = REventStateEnter then bindingCreate_enter env d
      else if ev_what e = REventStateLeave then Some (dev_leave DEV_BindingCreateHandler d)
      else if ev_what e = REventApsConfirm then Some (aps_confirm env (zd_apsReqId (dv_zdpResult d)) STATE_LEVEL_BINDING DEV_BindingHandler e d)
      else if ev_what e = REventZdpResponse then
        (if EventZdpResponseSequenceNumber e = zd_zdpSeq (dv_zdpResult d) then
           (if EventZdpResponseStatus e = ZdpSuccess env then do {
              _ \<leftarrow> cur_tBound d;
              Some (to_binding DEV_BindingTableVerifyHandler (set_tBound (de_time env) d)) }
            else Some (to_binding DEV_BindingHandler d))
         else Some d)
      else if ev_what e = REventStateTimeout then Some (to_binding DEV_BindingHandler d)
      else Some d)"

text \<open>
  A binding of the table that is to be removed: to a group when the description binds the cluster to other groups only, or
  to a node that does not exist.
\<close>

definition binding_stale :: "dev_env \<Rightarrow> ddf_binding list \<Rightarrow> core_binding \<Rightarrow> bool" where
  "binding_stale env bs i =
     (case cb_dst i of
        CoreGroup g \<Rightarrow>
          (let mine = filter (\<lambda>b. bd_isGroupBinding b \<and> cb_clusterId i = bd_clusterId b \<and> cb_srcEndpoint i = bd_srcEndpoint b) bs in
           mine \<noteq> [] \<and> \<not> list_ex (\<lambda>b. g = bd_dstGroup b) mine)
      | CoreExt ext _ \<Rightarrow> \<not> de_hasCoreNode env ext
      | CoreOther \<Rightarrow> False)"

definition bindingRemove_enter :: "dev_env \<Rightarrow> 'at device \<Rightarrow> 'at device option" where
  "bindingRemove_enter env d = do {
     node \<leftarrow> dev_core env d;
     Some
       (case List.find (binding_stale env (bc_bindings (dv_binding d))) (cn_bindingTable node) of
          None \<Rightarrow> to_binding DEV_BindingIdleHandler d
        | Some i \<Rightarrow> zdp_send env (ZDP_UnbindReq i) STATE_LEVEL_BINDING DEV_BindingHandler d) }"

definition dev_bindingRemove :: "dev_env \<Rightarrow> event \<Rightarrow> 'at device \<Rightarrow> 'at device option" where
  "dev_bindingRemove env e d =
     (if ev_what e = REventStateEnter then bindingRemove_enter env d
      else if ev_what e = REventStateLeave then Some (dev_leave DEV_BindingRemoveHandler d)
      else if ev_what e = REventApsConfirm then Some (aps_confirm env (zd_apsReqId (dv_zdpResult d)) STATE_LEVEL_BINDING DEV_BindingHandler e d)
      else if ev_what e = REventZdpResponse then
        Some (if EventZdpResponseSequenceNumber e = zd_zdpSeq (dv_zdpResult d)
              then DEV_EnqueueEvent REventBindingTick (to_binding DEV_BindingHandler d) else d)
      else if ev_what e = REventStateTimeout then Some (to_binding DEV_BindingHandler d)
      else Some d)"

section \<open>Reading and configuring reports\<close>

text \<open>\<open>DEV_GetOrCreateReportTracker\<close>: the trackers with the one that is asked for, and its position.\<close>

definition tracker_is :: "u16 \<Rightarrow> u16 \<Rightarrow> u8 \<Rightarrow> report_tracker \<Rightarrow> bool" where
  "tracker_is cl at ep t \<longleftrightarrow> rt_endpoint t = ep \<and> rt_clusterId t = cl \<and> rt_attributeId t = at"

fun tracker_index :: "(report_tracker \<Rightarrow> bool) \<Rightarrow> report_tracker list \<Rightarrow> nat" where
  "tracker_index P [] = 0"
| "tracker_index P (t # ts) = (if P t then 0 else Suc (tracker_index P ts))"

definition DEV_GetOrCreateReportTracker :: "u16 \<Rightarrow> u16 \<Rightarrow> u8 \<Rightarrow> report_tracker list \<Rightarrow> nat \<times> report_tracker list" where
  "DEV_GetOrCreateReportTracker cl at ep ts =
     (let k = tracker_index (tracker_is cl at ep) ts in
      (k, if k < length ts then ts
          else ts @ [\<lparr>rt_lastReport = 0, rt_lastConfigureCheck = 0, rt_clusterId = cl, rt_attributeId = at, rt_endpoint = ep\<rparr>]))"

text \<open>
  The loop of \<open>DEV_ReadReportConfigurationHandler\<close>: which reports go into the request. It ends with the reports, at a
  report of another manufacturer and when the frame is full; in the last two cases \<open>reportIter\<close> is not moved on.
\<close>

fun collect_reports ::
  "int \<Rightarrow> nat \<Rightarrow> u16 \<Rightarrow> u8 \<Rightarrow> ddf_report list \<Rightarrow> nat \<Rightarrow> read_report_param \<Rightarrow> report_tracker list \<Rightarrow> nat \<times> read_report_param \<times> report_tracker list" where
  "collect_reports now round cl ep [] k p ts = (k, p, ts)"
| "collect_reports now round cl ep (r # rs) k p ts =
     (let (i, ts) = DEV_GetOrCreateReportTracker cl (dr_attributeId r) ep ts in
      if round \<noteq> 0 \<and> now - rt_lastConfigureCheck (ts ! i) < 3600 * 1000 then collect_reports now round cl ep rs (k + 1) p ts
      else if rp_records p \<noteq> [] \<and> rp_manufacturerCode p \<noteq> dr_manufacturerCode r then (k, p, ts)
      else
        (let p = (if rp_records p = [] then p\<lparr>rp_manufacturerCode := dr_manufacturerCode r\<rparr> else p);
             ts = ts[i := (ts ! i)\<lparr>rt_lastConfigureCheck := MarkZclConfigureBusy\<rparr>];
             p = p\<lparr>rp_records := rp_records p @ [\<lparr>rr_attributeId = dr_attributeId r, rr_direction = dr_direction r\<rparr>]\<rparr> in
         if length (rp_records p) = MaxRecords then (k, p, ts) else collect_reports now round cl ep rs (k + 1) p ts))"

text \<open>Sending a ZCL request and waiting for its confirm.\<close>

definition zcl_send :: "dev_env \<Rightarrow> zcl_request \<Rightarrow> 'at device \<Rightarrow> 'at device" where
  "zcl_send env req d = dev_do (FX_Zcl req) (upd_binding (\<lambda>b. b\<lparr>bc_zclResult := de_zcl env req\<rparr>) d)"

definition zcl_wait :: "'at device \<Rightarrow> 'at device" where
  "zcl_wait d =
     (if zc_isEnqueued (bc_zclResult (dv_binding d)) then dev_startStateTimer MaxConfirmTimeout STATE_LEVEL_BINDING d
      else to_binding DEV_BindingHandler d)"

definition readReport_enter :: "dev_env \<Rightarrow> 'at device \<Rightarrow> 'at device option" where
  "readReport_enter env d = do {
     bnd \<leftarrow> cur_binding d;
     if bd_reporting bnd = [] then Some (DEV_ProcessNextBinding d)
     else do {
       node \<leftarrow> dev_core env d;
       let b = dv_binding d;
       let p = rp_empty\<lparr>rp_extAddress := cn_ext node, rp_nwkAddress := cn_nwk node, rp_clusterId := bd_clusterId bnd, rp_endpoint := bd_srcEndpoint bnd\<rparr>;
       let (k, p, ts) = collect_reports (de_time env) (bc_bindingCheckRound b) (bd_clusterId bnd) (bd_srcEndpoint bnd)
                          (drop (bc_reportIter b) (bd_reporting bnd)) (bc_reportIter b) p (bc_reportTrackers b);
       let d = upd_binding (\<lambda>b. b\<lparr>bc_reportIter := k, bc_readReportParam := p, bc_reportTrackers := ts\<rparr>) d;
       if rp_records p = [] then Some (DEV_ProcessNextBinding d)
       else Some (zcl_wait (zcl_send env (ZCL_ReadReportConfiguration p) d)) } }"

text \<open>\<open>reportingConfigurationValid\<close> counts the pairs of a record of the response and a report that agree.\<close>

definition report_agrees :: "read_report_param \<Rightarrow> u16 \<Rightarrow> u8 \<Rightarrow> report_rsp_record \<Rightarrow> ddf_report \<Rightarrow> bool" where
  "report_agrees p mf ok rec r \<longleftrightarrow>
     list_ex (\<lambda>q. rr_attributeId q = dr_attributeId r \<and> rr_direction q = dr_direction r) (rp_records p) \<and> rq_status rec = ok
     \<and> dr_manufacturerCode r = mf \<and> dr_attributeId r = rq_attributeId rec \<and> dr_minInterval r = rq_minInterval rec
     \<and> dr_maxInterval r = rq_maxInterval rec \<and> ucast (dr_reportableChange r) = rq_reportableChange rec"

definition reportingConfigurationValid :: "dev_env \<Rightarrow> event \<Rightarrow> 'at device \<Rightarrow> bool option" where
  "reportingConfigurationValid env e d =
     (case de_reportRsp env e of
        None \<Rightarrow> Some False
      | Some rsp \<Rightarrow> do {
          bnd \<leftarrow> cur_binding d;
          let p = bc_readReportParam (dv_binding d);
          let okCount = sum_list (map (\<lambda>rec. length (filter (report_agrees p (rsp_manufacturerCode rsp) (ZclSuccessStatus env) rec) (bd_reporting bnd))) (rsp_records rsp));
          Some (okCount = length (rp_records p)) })"

definition dev_readReport :: "dev_env \<Rightarrow> event \<Rightarrow> 'at device \<Rightarrow> 'at device option" where
  "dev_readReport env e d =
     (if ev_what e = REventStateEnter then readReport_enter env d
      else if ev_what e = REventStateLeave then Some (dev_leave DEV_ReadReportConfigurationHandler d)
      else if ev_what e = REventApsConfirm then
        Some (aps_confirm env (zc_apsReqId (bc_zclResult (dv_binding d))) STATE_LEVEL_BINDING DEV_BindingHandler e d)
      else if ev_what e = REventZclReadReportConfigResponse then do {
        valid \<leftarrow> reportingConfigurationValid env e d;
        if valid then do {
          let d = upd_binding (\<lambda>b. b\<lparr>bc_reportTrackers :=
                    map (\<lambda>t. if rt_lastConfigureCheck t = MarkZclConfigureBusy then t\<lparr>rt_lastConfigureCheck := de_time env\<rparr> else t) (bc_reportTrackers b)\<rparr>) d;
          bnd \<leftarrow> cur_binding d;
          if bc_reportIter (dv_binding d) < length (bd_reporting bnd) then Some (to_binding DEV_ReadNextReportConfigurationHandler d)
          else Some (DEV_ProcessNextBinding d) }
        else Some (to_binding DEV_ConfigureReportingHandler d) }
      else if ev_what e = REventStateTimeout then Some (to_binding DEV_BindingHandler d)
      else Some d)"

definition dev_readNextReport :: "event \<Rightarrow> 'at device \<Rightarrow> 'at device option" where
  "dev_readNextReport e d = Some (if ev_what e = REventStateEnter then to_binding DEV_ReadReportConfigurationHandler d else d)"

definition dev_configureNextReport :: "event \<Rightarrow> 'at device \<Rightarrow> 'at device option" where
  "dev_configureNextReport e d = Some (if ev_what e = REventStateEnter then to_binding DEV_ConfigureReportingHandler d else d)"

text \<open>The loop of \<open>DEV_ConfigureReportingHandler\<close> over the reports of the request.\<close>

fun collect_configure :: "u16 \<Rightarrow> ddf_report list \<Rightarrow> nat \<Rightarrow> configure_record list \<Rightarrow> nat \<times> configure_record list" where
  "collect_configure mf [] k recs = (k, recs)"
| "collect_configure mf (r # rs) k recs =
     (if dr_manufacturerCode r \<noteq> mf then collect_configure mf rs (k + 1) recs
      else
        (let recs = recs @ [\<lparr>cr_reportableChange = ucast (dr_reportableChange r), cr_attributeId = dr_attributeId r, cr_minInterval = dr_minInterval r,
                             cr_maxInterval = dr_maxInterval r, cr_timeout = 0, cr_direction = dr_direction r, cr_dataType = dr_dataType r\<rparr>] in
         if length recs = MaxRecords then (k + 1, recs) else collect_configure mf rs (k + 1) recs))"

definition configure_enter :: "dev_env \<Rightarrow> 'at device \<Rightarrow> 'at device option" where
  "configure_enter env d = do {
     bnd \<leftarrow> cur_binding d;
     c_assert (bd_reporting bnd \<noteq> []);
     node \<leftarrow> dev_core env d;
     let b = dv_binding d;
     let p = rp_empty\<lparr>rp_extAddress := cn_ext node, rp_nwkAddress := cn_nwk node, rp_clusterId := bd_clusterId bnd,
                      rp_manufacturerCode := rp_manufacturerCode (bc_readReportParam b), rp_endpoint := bd_srcEndpoint bnd\<rparr>;
     let (k, recs) = collect_configure (rp_manufacturerCode p) (drop (bc_configIter b) (take (bc_reportIter b) (bd_reporting bnd))) (bc_configIter b) [];
     let d = upd_binding (\<lambda>b. b\<lparr>bc_configIter := k, bc_zclResult := (bc_zclResult b)\<lparr>zc_isEnqueued := False\<rparr>\<rparr>) d;
     Some (zcl_wait (if recs \<noteq> [] then zcl_send env (ZCL_ConfigureReporting p recs) d else d)) }"

definition dev_configureReporting :: "dev_env \<Rightarrow> event \<Rightarrow> 'at device \<Rightarrow> 'at device option" where
  "dev_configureReporting env e d =
     (if ev_what e = REventStateEnter then configure_enter env d
      else if ev_what e = REventStateLeave then Some (dev_leave DEV_ConfigureReportingHandler d)
      else if ev_what e = REventApsConfirm then
        Some (aps_confirm env (zc_apsReqId (bc_zclResult (dv_binding d))) STATE_LEVEL_BINDING DEV_BindingHandler e d)
      else if ev_what e = REventZclResponse then
        (if zc_sequenceNumber (bc_zclResult (dv_binding d)) = EventZclSequenceNumber e then
           (if EventZclStatus e = ZclSuccessStatus env then do {
              bnd \<leftarrow> cur_binding d;
              Some
                (if bc_configIter (dv_binding d) < bc_reportIter (dv_binding d) then to_binding DEV_ConfigureNextReportConfigurationHandler d
                 else if bc_reportIter (dv_binding d) < length (bd_reporting bnd) then to_binding DEV_ReadNextReportConfigurationHandler d
                 else DEV_ProcessNextBinding d) }
            else Some (to_binding DEV_BindingHandler d))
         else Some d)
      else if ev_what e = REventStateTimeout then Some (to_binding DEV_BindingHandler d)
      else Some d)"

definition dev_bindingIdle :: "event \<Rightarrow> 'at device \<Rightarrow> 'at device option" where
  "dev_bindingIdle e d =
     Some
       (if ev_what e = REventStateEnter then dev_startStateTimer BindingAutoCheckInterval STATE_LEVEL_BINDING d
        else if ev_what e = REventStateLeave then dev_leave DEV_BindingIdleHandler d
        else if ev_what e = REventStateTimeout then to_binding DEV_BindingHandler d
        else d)"

end
