(* ===== verification/Device_Poll.thy ===== *)
theory Device_Poll
  imports Device_Bindings
begin

text \<open>
  The sub states of level 2, which read the items of the sub-devices that are due, one after the other, each at most
  three times.
\<close>

section \<open>Which items are due\<close>

definition update_tracker :: "u16 \<Rightarrow> u8 \<Rightarrow> int \<Rightarrow> u16 \<Rightarrow> report_tracker list \<Rightarrow> report_tracker list" where
  "update_tracker cl ep t at ts =
     (case DEV_GetOrCreateReportTracker cl at ep ts of (i, ts) \<Rightarrow> ts[i := (ts ! i)\<lparr>rt_lastReport := t\<rparr>])"

definition DEV_UpdateReportTracker :: "item_info \<Rightarrow> report_tracker list \<Rightarrow> report_tracker list option" where
  "DEV_UpdateReportTracker info ts =
     (if ii_lastZclReport info = 0 then Some ts
      else case ii_zclParam info of
          None \<Rightarrow> Some ts
        | Some (cl, ep, ats) \<Rightarrow>
            if ats = [] then Some ts
            else do {
              c_assert (length ats < 8);
              Some (fold (update_tracker cl ep (ii_lastZclReport info)) ats ts) })"

text \<open>Whether an item with a refresh interval was reported or set recently enough.\<close>

definition item_fresh :: "dev_env \<Rightarrow> item_info \<Rightarrow> resource_item \<Rightarrow> bool" where
  "item_fresh env info item \<longleftrightarrow>
     ii_refreshInterval info \<noteq> 0 \<and>
     (ii_lastZclReport info \<noteq> 0 \<and> secs_of (de_time env - ii_lastZclReport info) < ii_refreshInterval info \<or>
      (case ri_lastSet item of
         None \<Rightarrow> False
       | Some t \<Rightarrow> (ri_valueSource item = SourceDevice \<or> ri_valueSource item = SourceUnknown) \<and> secs_of (de_now env - t) < ii_refreshInterval info))"

definition item_due :: "dev_env \<Rightarrow> resource_item \<Rightarrow> bool" where
  "item_due env item \<longleftrightarrow>
     (case ii_readParameters (de_info env item) of
        ReadMap fn \<Rightarrow> \<not> item_fresh env (de_info env item) item \<and> fn \<noteq> Some ''none''
      | _ \<Rightarrow> False)"

fun poll_items_of :: "'at res_lib \<Rightarrow> dev_env \<Rightarrow> nat \<Rightarrow> resource_item list \<Rightarrow> report_tracker list \<Rightarrow> (poll_item list \<times> report_tracker list) option" where
  "poll_items_of L env k [] ts = Some ([], ts)"
| "poll_items_of L env k (item # its) ts =
     (if ri_zclUnsupportedAttribute item then poll_items_of L env k its ts
      else do {
        ts \<leftarrow> DEV_UpdateReportTracker (de_info env item) ts;
        (ps, ts) \<leftarrow> poll_items_of L env k its ts;
        Some (if item_due env item
              then \<lparr>pi_retry = 0, pi_resource = k, pi_item = ri_suffix (al_rids L) item, pi_readParameters = ii_readParameters (de_info env item)\<rparr> # ps
              else ps, ts) })"

fun poll_items_subs :: "'at res_lib \<Rightarrow> dev_env \<Rightarrow> nat \<Rightarrow> resource list \<Rightarrow> report_tracker list \<Rightarrow> (poll_item list \<times> report_tracker list) option" where
  "poll_items_subs L env k [] ts = Some ([], ts)"
| "poll_items_subs L env k (r # rs) ts = do {
     (ps, ts) \<leftarrow> poll_items_of L env k (rs_items r) ts;
     (qs, ts) \<leftarrow> poll_items_subs L env (k + 1) rs ts;
     Some (ps @ qs, ts) }"

text \<open>The last of the list is read first, so that it is the first item of the first sub-device.\<close>

definition DEV_GetPollItems :: "'at res_lib \<Rightarrow> dev_env \<Rightarrow> 'at device \<Rightarrow> (poll_item list \<times> 'at device) option" where
  "DEV_GetPollItems L env d = do {
     let d = dev_subDevices d;
     (ps, ts) \<leftarrow> poll_items_subs L env 0 (dv_subs d) (bc_reportTrackers (dv_binding d));
     Some (rev ps, upd_binding (\<lambda>b. b\<lparr>bc_reportTrackers := ts\<rparr>) d) }"

section \<open>Polling\<close>

definition to_poll :: "dev_handler \<Rightarrow> 'at device \<Rightarrow> 'at device" where
  "to_poll h = dev_setState h STATE_LEVEL_POLL"

text \<open>The address is kept up to date.\<close>

definition poll_address :: "'at res_lib \<Rightarrow> dev_env \<Rightarrow> 'at device \<Rightarrow> 'at device option" where
  "poll_address L env d =
     (case dev_core env d of
        None \<Rightarrow> Some d
      | Some node \<Rightarrow>
          if cn_hasNwk node then do {
            nwk \<leftarrow> dev_item L RAttrNwkAddress d;
            if ucast (cn_nwk node) \<noteq> ri_toNumber nwk then dev_setNumber L (de_now env) RAttrNwkAddress (ucast (cn_nwk node)) d else Some d }
          else Some d)"

text \<open>The refresh of the ZDP descriptors, once and after a delay that depends on the address; the flag says whether it starts now.\<close>

definition poll_maintenance :: "'at res_lib \<Rightarrow> dev_env \<Rightarrow> 'at device \<Rightarrow> (bool \<times> 'at device) option" where
  "poll_maintenance L env d =
     (if \<not> dv_needZDPMaintenanceOnce d then Some (False, d)
      else
        (let n = dv_randomDelay d + 1 in
         if n > unat (dv_key d AND 0xFF) then
           (let d = d\<lparr>dv_randomDelay := 0, dv_needZDPMaintenanceOnce := False\<rparr> in do {
              sleeper \<leftarrow> dev_toBool L RCapSleeper d;
              go \<leftarrow> (if sleeper then Some False else dev_reachable L env d);
              Some (if go then
                      (True, DEV_EnqueueEvent REventZdpReload
                         (d\<lparr>dv_needReadActiveEndpoints := True, dv_needReadSimpleDescriptors := True, dv_zdpNeedFetchEndpointIndex := 0\<rparr>))
                    else (False, d)) })
         else Some (False, d\<lparr>dv_randomDelay := n\<rparr>)))"

definition dev_pollIdle :: "'at res_lib \<Rightarrow> dev_env \<Rightarrow> event \<Rightarrow> 'at device \<Rightarrow> 'at device option" where
  "dev_pollIdle L env e d =
     (if ev_what e = REventPoll \<or> ev_what e = REventAwake then
        (if de_unconfirmed env > 4 then Some d
         else do {
           d \<leftarrow> poll_address L env d;
           (reload, d) \<leftarrow> poll_maintenance L env d;
           if reload then Some d
           else do {
             (ps, d) \<leftarrow> DEV_GetPollItems L env d;
             let d = d\<lparr>dv_pollItems := ps\<rparr>;
             Some (if ps \<noteq> [] then to_poll DEV_PollNextStateHandler d
                   else if ev_what e = REventPoll then DEV_EnqueueEvent REventPollDone d
                   else d) } })
      else Some d)"

text \<open>\<open>DA_GetReadFunction\<close>: whether the read parameters name a function.\<close>

definition DA_GetReadFunction :: "read_params \<Rightarrow> bool" where
  "DA_GetReadFunction p =
     (case p of ReadMap fn \<Rightarrow> (case fn of None \<Rightarrow> ''zcl:attr'' | Some s \<Rightarrow> s) \<in> {''zcl'', ''zcl:attr'', ''zcl:cmd'', ''tuya''} | _ \<Rightarrow> False)"

definition pollNext_enter :: "'at res_lib \<Rightarrow> dev_env \<Rightarrow> 'at device \<Rightarrow> 'at device option" where
  "pollNext_enter L env d = do {
     reachable \<leftarrow> dev_reachable L env d;
     let d = (if \<not> reachable then d\<lparr>dv_pollItems := []\<rparr> else d);
     if dv_pollItems d = [] then Some (DEV_EnqueueEvent REventPollDone (to_poll DEV_PollIdleStateHandler d))
     else
       (let poll = last (dv_pollItems d) in
        if DA_GetReadFunction (pi_readParameters poll) then
          (let d = dev_do (FX_Read poll) (d\<lparr>dv_readResult := de_read env poll\<rparr>) in
           Some
             (if re_isEnqueued (dv_readResult d) then to_poll DEV_PollBusyStateHandler d
              else
                (let poll = poll\<lparr>pi_retry := pi_retry poll + 1\<rparr>;
                     ps = (if pi_retry poll \<ge> MaxPollItemRetries then butlast (dv_pollItems d) else butlast (dv_pollItems d) @ [poll]) in
                 dev_startStateTimer (dv_maxResponseTime d) STATE_LEVEL_POLL (d\<lparr>dv_pollItems := ps\<rparr>))))
        else
          Some (dev_startStateTimer 5 STATE_LEVEL_POLL (d\<lparr>dv_readResult := read_none, dv_pollItems := butlast (dv_pollItems d)\<rparr>))) }"

definition dev_pollNext :: "'at res_lib \<Rightarrow> dev_env \<Rightarrow> event \<Rightarrow> 'at device \<Rightarrow> 'at device option" where
  "dev_pollNext L env e d =
     (if ev_what e = REventStateEnter \<or> ev_what e = REventStateTimeout then do {
        c_assert (ev_num e = level_num STATE_LEVEL_POLL);
        pollNext_enter L env d }
      else if ev_what e = REventStateLeave then Some (dev_leave DEV_PollNextStateHandler d)
      else Some d)"

definition checkPollItemRetry :: "poll_item list \<Rightarrow> poll_item list" where
  "checkPollItemRetry ps =
     (if ps = [] then []
      else
        (let p = (last ps)\<lparr>pi_retry := pi_retry (last ps) + 1\<rparr> in
         if pi_retry p \<ge> MaxPollItemRetries then butlast ps else butlast ps @ [p]))"

text \<open>The response to the read: an attribute the device does not have is noted at the item, if it is still there.\<close>

definition poll_response :: "'at res_lib \<Rightarrow> dev_env \<Rightarrow> event \<Rightarrow> 'at device \<Rightarrow> 'at device" where
  "poll_response L env e d =
     (let d =
        (if dv_pollItems d = [] then d
         else
           (let p = last (dv_pollItems d);
                d = (if EventZclStatus e = ZclUnsupportedAttributeStatus env \<and> pi_resource p < length (dv_subs d)
                     then d\<lparr>dv_subs := (dv_subs d)[pi_resource p := rs_update (al_rids L) (pi_item p) ri_setZclUnsupportedAttribute (dv_subs d ! pi_resource p)]\<rparr>
                     else d) in
            d\<lparr>dv_pollItems := butlast (dv_pollItems d)\<rparr>)) in
      to_poll DEV_PollNextStateHandler d)"

definition dev_pollBusy :: "'at res_lib \<Rightarrow> dev_env \<Rightarrow> event \<Rightarrow> 'at device \<Rightarrow> 'at device option" where
  "dev_pollBusy L env e d =
     Some
       (if ev_what e = REventStateEnter then dev_startStateTimer MaxConfirmTimeout STATE_LEVEL_POLL d
        else if ev_what e = REventStateLeave then dev_leave DEV_PollBusyStateHandler d
        else if ev_what e = REventApsConfirm \<and> EventApsConfirmId e = re_apsReqId (dv_readResult d) then
          (if EventApsConfirmStatus e = ApsSuccessStatus env then
             dev_startStateTimer (dv_maxResponseTime d) STATE_LEVEL_POLL (dev_stopStateTimer StateLevel0 (d\<lparr>dv_idleApsConfirmErrors := 0\<rparr>))
           else to_poll DEV_PollNextStateHandler (d\<lparr>dv_pollItems := checkPollItemRetry (dv_pollItems d)\<rparr>))
        else if ev_what e = REventZclResponse then
          (if ucast (re_clusterId (dv_readResult d)) \<noteq> EventZclClusterId e then d
           else if re_sequenceNumber (dv_readResult d) = EventZclSequenceNumber e \<or> re_ignoreResponseSequenceNumber (dv_readResult d)
           then poll_response L env e d
           else d)
        else if ev_what e = REventStateTimeout then
          to_poll DEV_PollNextStateHandler (d\<lparr>dv_pollItems := checkPollItemRetry (dv_pollItems d)\<rparr>)
        else d)"

end
