(* ===== verification/Device_Machine.thy ===== *)
theory Device_Machine
  imports Device_Poll Utils_Text
begin

text \<open>
  The operational state of a device, its passive states, the dispatch of events and timers to the handlers of the three
  levels, and the operations of the class \<open>Device\<close>.
\<close>

section \<open>State changes of the sub-devices\<close>

text \<open>One state change: it is verified against the item of the event, and may send if nothing was sent yet.\<close>

definition change_one :: "'at res_lib \<Rightarrow> dev_env \<Rightarrow> bool \<Rightarrow> sc_env \<Rightarrow> resource_item option \<Rightarrow> state_change \<Rightarrow> nat \<Rightarrow> nat \<times> state_change" where
  "change_one L env reachable scenv item c aps =
     (let c = (case item of Some i \<Rightarrow> sc_verifyItemChange (de_same env) (al_rids L) i c | None \<Rightarrow> c) in
      if reachable \<and> aps = 0 then (case sc_tick scenv c of (n, c) \<Rightarrow> (if n = 1 then aps + 1 else aps, c))
      else (aps, c))"

fun change_all :: "'at res_lib \<Rightarrow> dev_env \<Rightarrow> bool \<Rightarrow> sc_env \<Rightarrow> resource_item option \<Rightarrow> state_change list \<Rightarrow> nat \<Rightarrow> nat \<times> state_change list" where
  "change_all L env reachable scenv item [] aps = (aps, [])"
| "change_all L env reachable scenv item (c # cs) aps =
     (case change_one L env reachable scenv item c aps of
        (aps, c) \<Rightarrow> (case change_all L env reachable scenv item cs aps of (aps, cs) \<Rightarrow> (aps, c # cs)))"

fun change_subs :: "'at res_lib \<Rightarrow> dev_env \<Rightarrow> string \<Rightarrow> nat list \<Rightarrow> nat \<Rightarrow> 'at device \<Rightarrow> 'at device option" where
  "change_subs L env what [] aps d = Some d"
| "change_subs L env what (k # ks) aps d =
     (let r = dv_subs d ! k in
      if rs_stateChanges r = [] then change_subs L env what ks aps d
      else do {
        reachable \<leftarrow> dev_reachable L env d;
        let (aps, cs) = change_all L env reachable (de_changes env r) (rs_item (al_rids L) what r) (rs_stateChanges r) aps;
        change_subs L env what ks aps (d\<lparr>dv_subs := (dv_subs d)[k := r\<lparr>rs_stateChanges := rs_cleanupStateChanges cs\<rparr>]\<rparr>) })"

definition DEV_CheckItemChanges :: "'at res_lib \<Rightarrow> dev_env \<Rightarrow> event \<Rightarrow> 'at device \<Rightarrow> 'at device option" where
  "DEV_CheckItemChanges L env e d =
     (if ev_what e = REventAwake \<or> ev_what e = REventPoll then
        (let d = dev_subDevices d in change_subs L env (ev_what e) [0..<length (dv_subs d)] 0 d)
      else do {
        (k, d) \<leftarrow> DEV_GetSubDevice L (ev_resource e) (ev_id e) d;
        change_subs L env (ev_what e) (case k of None \<Rightarrow> [] | Some k \<Rightarrow> [k]) 0 d })"

section \<open>Passive states\<close>

definition dead_address :: "'at res_lib \<Rightarrow> dev_env \<Rightarrow> 'at device \<Rightarrow> 'at device option" where
  "dead_address L env d =
     (case dev_core env d of
        None \<Rightarrow> Some d
      | Some node \<Rightarrow> do {
          d \<leftarrow> (if cn_hasExt node then dev_syncNumber L (de_now env) RAttrExtAddress (cn_ext node) d else Some d);
          nwk \<leftarrow> dev_item L RAttrNwkAddress d;
          if cn_hasNwk node then
            dev_syncNumber L (de_now env) RAttrNwkAddress (ucast (cn_nwk node)) (dev_write L RAttrNwkAddress (ri_setIsPublic True nwk) d)
          else Some (if ri_lastSet nwk = None then dev_write L RAttrNwkAddress (ri_setIsPublic False nwk) d else d) })"

definition dev_dead :: "'at res_lib \<Rightarrow> dev_env \<Rightarrow> event \<Rightarrow> 'at device \<Rightarrow> 'at device option" where
  "dev_dead L env e d =
     (if ev_what e = REventStateEnter \<or> ev_what e = REventStateLeave then Some d
      else if dev_isManaged d then Some (dev_setState DEV_InitStateHandler StateLevel0 d)
      else if ev_what e = REventPoll \<or> ev_what e = REventAwake then do {
        d \<leftarrow> dead_address L env d;
        Some (if dv_node d \<and> cn_isCoordinator (de_node env) then d else dev_do FX_PollLegacy d) }
      else Some d)"

definition dev_zgp :: "'at res_lib \<Rightarrow> dev_env \<Rightarrow> event \<Rightarrow> 'at device \<Rightarrow> 'at device option" where
  "dev_zgp L env e d =
     (if ev_what e = REventStateEnter then
        (let d = (case dev_item L RAttrNwkAddress d of Some i \<Rightarrow> dev_write L RAttrNwkAddress (ri_setIsPublic False i) d | None \<Rightarrow> d) in
         Some (case dev_item L RCapSleeper d of
                 Some i \<Rightarrow> dev_write L RCapSleeper (snd (ri_setNumber (al_rids L) (de_now env) 1 SourceUnknown i)) d
               | None \<Rightarrow> d))
      else Some d)"

section \<open>Dispatch\<close>

text \<open>The handlers other than the one of the idle state, which passes events on to the others.\<close>

definition run_simple :: "'at res_lib \<Rightarrow> dev_env \<Rightarrow> dev_handler \<Rightarrow> event \<Rightarrow> 'at device \<Rightarrow> 'at device option" where
  "run_simple L env h e d =
     (case h of
        DEV_InitStateHandler \<Rightarrow> dev_init L env e d
      | DEV_IdleStateHandler \<Rightarrow> Some d
      | DEV_NodeDescriptorStateHandler \<Rightarrow> dev_nodeDescriptor L env e d
      | DEV_ActiveEndpointsStateHandler \<Rightarrow> dev_activeEndpoints L env e d
      | DEV_SimpleDescriptorStateHandler \<Rightarrow> dev_simpleDescriptor L env e d
      | DEV_BasicClusterStateHandler \<Rightarrow> dev_basicCluster L env e d
      | DEV_GetDeviceDescriptionHandler \<Rightarrow> dev_getDescription L env e d
      | DEV_BindingHandler \<Rightarrow> dev_binding env e d
      | DEV_BindingTableReadHandler \<Rightarrow> dev_bindingTableRead env e d
      | DEV_BindingTableVerifyHandler \<Rightarrow> dev_bindingTableVerify L env e d
      | DEV_BindingCreateHandler \<Rightarrow> dev_bindingCreate env e d
      | DEV_BindingRemoveHandler \<Rightarrow> dev_bindingRemove env e d
      | DEV_ReadReportConfigurationHandler \<Rightarrow> dev_readReport env e d
      | DEV_ReadNextReportConfigurationHandler \<Rightarrow> dev_readNextReport e d
      | DEV_ConfigureNextReportConfigurationHandler \<Rightarrow> dev_configureNextReport e d
      | DEV_ConfigureReportingHandler \<Rightarrow> dev_configureReporting env e d
      | DEV_BindingIdleHandler \<Rightarrow> dev_bindingIdle e d
      | DEV_PollIdleStateHandler \<Rightarrow> dev_pollIdle L env e d
      | DEV_PollNextStateHandler \<Rightarrow> dev_pollNext L env e d
      | DEV_PollBusyStateHandler \<Rightarrow> dev_pollBusy L env e d
      | DEV_DeadStateHandler \<Rightarrow> dev_dead L env e d
      | DEV_ZgpStateHandler \<Rightarrow> dev_zgp L env e d)"

text \<open>\<open>Device::handleEvent\<close>, given what running a handler does.\<close>

definition handleEvent_with ::
  "(dev_handler \<Rightarrow> event \<Rightarrow> 'at device \<Rightarrow> 'at device option) \<Rightarrow> 'at res_lib \<Rightarrow> dev_env \<Rightarrow> event \<Rightarrow> dev_level \<Rightarrow> 'at device \<Rightarrow> 'at device option" where
  "handleEvent_with run L env e l d =
     (if ev_what e = REventStateEnter \<or> ev_what e = REventStateLeave then
        (case level_of (ev_num e) of
           None \<Rightarrow> Some d
         | Some l1 \<Rightarrow>
             (let fn = dv_state d l1;
                  d = (if dv_lock d l1 \<and> ev_what e = REventStateEnter then d\<lparr>dv_lock := (dv_lock d)(l1 := False)\<rparr> else d) in
              case fn of None \<Rightarrow> Some d | Some h \<Rightarrow> run h e d))
      else if dv_lock d l then Some d
      else if ev_what e = REventDDFReload then
        Some (dev_startStateTimer 50 StateLevel0 (upd_binding (\<lambda>b. b\<lparr>bc_bindingCheckRound := 0\<rparr>) (dev_setState DEV_InitStateHandler StateLevel0 d)))
      else if ev_what e = REventZdpReload then
        Some (dev_startStateTimer 50 StateLevel0 (dev_setState DEV_ActiveEndpointsStateHandler StateLevel0 d))
      else
        (case dv_state d l of
           None \<Rightarrow> Some d
         | Some h \<Rightarrow> do {
             d \<leftarrow> (if ev_what e = REventAwake \<and> l = StateLevel0 then Some (d\<lparr>dv_awake := Some (de_time env)\<rparr>)
                  else if ev_what e = RStateReachable \<and> ev_resource e = RDevices then DEV_CheckReachable L env d
                  else Some d);
             run h e d }))"

definition handle_sub :: "'at res_lib \<Rightarrow> dev_env \<Rightarrow> event \<Rightarrow> dev_level \<Rightarrow> 'at device \<Rightarrow> 'at device option" where
  "handle_sub L env = handleEvent_with (run_simple L env) L env"

section \<open>#7 Idle\<close>

definition idle_enter :: "'at res_lib \<Rightarrow> dev_env \<Rightarrow> 'at device \<Rightarrow> 'at device option" where
  "idle_enter L env d = do {
     d \<leftarrow> DEV_CheckReachable L env d;
     let d = set_bindingIter 0 d;
     let d = dev_setState DEV_BindingHandler STATE_LEVEL_BINDING d;
     Some (dev_setState DEV_PollIdleStateHandler STATE_LEVEL_POLL d) }"

definition idle_confirm :: "'at res_lib \<Rightarrow> dev_env \<Rightarrow> event \<Rightarrow> 'at device \<Rightarrow> 'at device option" where
  "idle_confirm L env e d =
     (if EventApsConfirmStatus e = ApsSuccessStatus env then Some (d\<lparr>dv_idleApsConfirmErrors := 0\<rparr>)
      else
        (let d = d\<lparr>dv_idleApsConfirmErrors := dv_idleApsConfirmErrors d + 1\<rparr> in
         if dv_idleApsConfirmErrors d > MaxIdleApsConfirmErrors then do {
           there \<leftarrow> dev_toBool L RStateReachable d;
           if there then do {
             d \<leftarrow> dev_setNumber L (de_now env) RStateReachable 0 (d\<lparr>dv_idleApsConfirmErrors := 0\<rparr>);
             DEV_CheckReachable L env d }
           else Some d }
         else Some d))"

definition dev_idle :: "'at res_lib \<Rightarrow> dev_env \<Rightarrow> event \<Rightarrow> 'at device \<Rightarrow> 'at device option" where
  "dev_idle L env e d =
     (if ev_what e = REventStateEnter then idle_enter L env d
      else if ev_what e = REventStateLeave then Some (dev_leave DEV_IdleStateHandler d)
      else do {
        d \<leftarrow> (if ev_what e = REventApsConfirm then idle_confirm L env e d
             else if ev_what e \<noteq> RAttrLastSeen \<and> ev_what e \<noteq> REventPoll \<and> (ev_what e = RAttrSwVersion \<or> ev_what e = RAttrName)
             then Some (DEV_PublishToCore L d)
             else Some d);
        reachable \<leftarrow> dev_reachable L env d;
        _ \<leftarrow> (if reachable then Some True else dev_toBool L RCapSleeper d);
        d \<leftarrow> DEV_CheckItemChanges L env e d;
        d \<leftarrow> handle_sub L env e StateLevel1 d;
        handle_sub L env e StateLevel2 d })"

definition run_handler :: "'at res_lib \<Rightarrow> dev_env \<Rightarrow> dev_handler \<Rightarrow> event \<Rightarrow> 'at device \<Rightarrow> 'at device option" where
  "run_handler L env h e d = (if h = DEV_IdleStateHandler then dev_idle L env e d else run_simple L env h e d)"

definition dev_handleEvent :: "'at res_lib \<Rightarrow> dev_env \<Rightarrow> event \<Rightarrow> 'at device \<Rightarrow> 'at device option" where
  "dev_handleEvent L env e d = handleEvent_with (run_handler L env) L env e StateLevel0 d"

text \<open>The timer of a level fires.\<close>

definition dev_timerEvent :: "'at res_lib \<Rightarrow> dev_env \<Rightarrow> dev_level \<Rightarrow> 'at device \<Rightarrow> 'at device option" where
  "dev_timerEvent L env l d =
     (let d = d\<lparr>dv_timer := (dv_timer d)(l := None)\<rparr> in
      case dv_state d l of
        None \<Rightarrow> Some d
      | Some h \<Rightarrow> run_handler L env h (EventNum (rs_prefix (dv_res d)) REventStateTimeout (level_num l) (dv_key d)) d)"

section \<open>The class\<close>

definition bc_new :: binding_context where
  "bc_new = \<lparr>bc_bindingCheckRound = 0, bc_bindingIter = 0, bc_reportIter = 0, bc_configIter = 0, bc_mgmtBindSupported = MGMT_BIND_SUPPORT_UNKNOWN,
     bc_mgmtBindStartIndex = 0, bc_bindingTrackers = [], bc_bindings = [], bc_reportTrackers = [], bc_readReportParam = rp_empty, bc_zclResult = zcl_none\<rparr>"

text \<open>The items of the constructor; the flag is the one of \<open>setIsPublic\<close>.\<close>

definition device_items :: "(ApiDataType \<times> string \<times> bool) list" where
  "device_items =
     [(DataTypeBool, RStateReachable, True), (DataTypeBool, RCapSleeper, True), (DataTypeUInt64, RAttrExtAddress, False), (DataTypeUInt16, RAttrNwkAddress, True),
      (DataTypeString, RAttrUniqueId, True), (DataTypeString, RAttrManufacturerName, True), (DataTypeString, RAttrModelId, True),
      (DataTypeString, RAttrDdfPolicy, True), (DataTypeString, RAttrDdfHash, True), (DataTypeUInt32, RAttrOtaVersion, False)]"

fun add_device_items :: "'at res_lib \<Rightarrow> (ApiDataType \<times> string \<times> bool) list \<Rightarrow> resource \<Rightarrow> resource option" where
  "add_device_items L [] r = Some r"
| "add_device_items L ((t, s, public) # its) r =
     (case rs_addItem (al_rids L) t s r of
        (ok, r) \<Rightarrow> do {
          c_assert (ok \<or> (public \<and> s \<noteq> RAttrUniqueId));
          add_device_items L its (if public then r else rs_update (al_rids L) s (ri_setIsPublic False) r) })"

definition Device :: "'at res_lib \<Rightarrow> int \<Rightarrow> device_key \<Rightarrow> 'at \<Rightarrow> 'at device option" where
  "Device L now key at = do {
     r \<leftarrow> rs_new RDevices;
     r \<leftarrow> add_device_items L device_items r;
     u \<leftarrow> rs_item (al_rids L) RAttrUniqueId r;
     uid \<leftarrow> generateUniqueId key 0 0;
     let (_, at, u) = ri_setString (al_atoms L) (al_qt L) (al_rids L) now uid SourceUnknown at u;
     Some \<lparr>dv_res = rs_update (al_rids L) RAttrUniqueId (\<lambda>_. u) r, dv_key = key, dv_deviceId = -1, dv_creationTime = -1, dv_node = False,
       dv_state = (\<lambda>_. None), dv_timer = (\<lambda>_. None), dv_lock = (\<lambda>_. False), dv_awake = None, dv_binding = bc_new, dv_pollItems = [],
       dv_idleApsConfirmErrors = 0, dv_managed = False, dv_zdpResult = zdp_none, dv_readResult = read_none, dv_zdpNeedFetchEndpointIndex = 0xFF,
       dv_maxResponseTime = RxOffWhenIdleResponseTime, dv_hasDdf = False, dv_initialRun = True, dv_needZDPMaintenanceOnce = True,
       dv_needReadActiveEndpoints = False, dv_needReadSimpleDescriptors = False, dv_subResources = [], dv_subs = [], dv_atoms = at, dv_randomDelay = 0,
       dv_out = []\<rparr> }"

text \<open>The single shot of the constructor.\<close>

definition dev_start :: "'at device \<Rightarrow> 'at device" where
  "dev_start d = dev_setState DEV_InitStateHandler StateLevel0 d"

definition dev_setDeviceId :: "int \<Rightarrow> 'at device \<Rightarrow> 'at device" where
  "dev_setDeviceId i d = (if i \<ge> 0 then d\<lparr>dv_deviceId := i\<rparr> else d)"

definition dev_setCreationTime :: "int \<Rightarrow> 'at device \<Rightarrow> 'at device" where
  "dev_setCreationTime t d = (if 0 < t then d\<lparr>dv_creationTime := t\<rparr> else d)"

definition dev_setManaged :: "bool \<Rightarrow> 'at device \<Rightarrow> 'at device" where
  "dev_setManaged b d = d\<lparr>dv_managed := b\<rparr>"

definition dev_setSupportsMgmtBind :: "bool \<Rightarrow> 'at device \<Rightarrow> 'at device" where
  "dev_setSupportsMgmtBind b d = set_supported (if b then MGMT_BIND_SUPPORTED else MGMT_BIND_NOT_SUPPORTED) d"

definition dev_clearBindings :: "'at device \<Rightarrow> 'at device" where
  "dev_clearBindings d =
     (let d = upd_binding (\<lambda>b. b\<lparr>bc_bindings := [], bc_bindingTrackers := []\<rparr>) d in
      if dv_state d STATE_LEVEL_BINDING \<noteq> None then dev_setState DEV_BindingHandler STATE_LEVEL_BINDING d else d)"

definition isSame :: "ddf_binding \<Rightarrow> ddf_binding \<Rightarrow> bool" where
  "isSame a b \<longleftrightarrow> bd_clusterId a = bd_clusterId b \<and> bd_srcEndpoint a = bd_srcEndpoint b \<and>
     (bd_isGroupBinding a \<and> bd_isGroupBinding b \<and> bd_configGroup a = bd_configGroup b \<or>
      bd_isUnicastBinding a \<and> bd_isUnicastBinding b \<and> bd_dst a = bd_dst b)"

definition mergeBindingReportConfigs :: "ddf_binding \<Rightarrow> ddf_binding \<Rightarrow> ddf_binding" where
  "mergeBindingReportConfigs a b =
     fold (\<lambda>br a. if list_ex (\<lambda>ar. dr_attributeId ar = dr_attributeId br) (bd_reporting a) then a
                  else a\<lparr>bd_reporting := bd_reporting a @ [br]\<rparr>) (bd_reporting b) a"

definition dev_addBinding :: "ddf_binding \<Rightarrow> 'at device \<Rightarrow> 'at device option" where
  "dev_addBinding bnd d =
     (let bs = bc_bindings (dv_binding d) in
      if list_ex (\<lambda>i. isSame i bnd) bs then
        Some (upd_binding (\<lambda>b. b\<lparr>bc_bindings := update_first (\<lambda>i. isSame i bnd) (\<lambda>i. mergeBindingReportConfigs i bnd) (bc_bindings b)\<rparr>) d)
      else do {
        c_assert (length bs + 1 = length (bc_bindingTrackers (dv_binding d)) + 1);
        let bnd = (if bd_dstEndpoint bnd = 0 \<and> bd_isUnicastBinding bnd then bnd\<lparr>bd_dstEndpoint := 0x01\<rparr> else bnd);
        Some (upd_binding (\<lambda>b. b\<lparr>bc_bindings := bs @ [bnd], bc_bindingTrackers := bc_bindingTrackers b @ [0]\<rparr>) d) })"

text \<open>The container of the devices.\<close>

definition DEV_GetDevice :: "device_key \<Rightarrow> 'at device list \<Rightarrow> 'at device option" where
  "DEV_GetDevice key ds = List.find (\<lambda>d. dv_key d = key) ds"

definition DEV_GetOrCreateDevice :: "'at res_lib \<Rightarrow> int \<Rightarrow> device_key \<Rightarrow> 'at \<Rightarrow> 'at device list \<Rightarrow> ('at device \<times> 'at device list) option" where
  "DEV_GetOrCreateDevice L now key at ds = do {
     c_assert (key \<noteq> 0);
     (case DEV_GetDevice key ds of
        Some d \<Rightarrow> Some (d, ds)
      | None \<Rightarrow> do { d \<leftarrow> Device L now key at; Some (d, ds @ [d]) }) }"

definition DEV_RemoveDevice :: "device_key \<Rightarrow> 'at device list \<Rightarrow> bool \<times> 'at device list" where
  "DEV_RemoveDevice key ds = (False, erase_first (\<lambda>d. dv_key d = key) ds)"

end
