(* ===== verification/Device_Frame.thy ===== *)
theory Device_Frame
  imports Device_Machine
begin

text \<open>
  The invariant of a device, the part of its state it speaks about, and the lemmas for what all handlers do: setting
  states, timers and items.
\<close>

section \<open>Partial results\<close>

text \<open>A computation has a value, and it satisfies \<open>P\<close>.\<close>

definition ends :: "'a option \<Rightarrow> ('a \<Rightarrow> bool) \<Rightarrow> bool" where
  "ends x P = (case x of None \<Rightarrow> False | Some y \<Rightarrow> P y)"

lemma ends_Some [simp]: "ends (Some y) P = P y"
  by (simp add: ends_def)

lemma ends_None [simp]: "ends None P = False"
  by (simp add: ends_def)

lemma ends_iff: "ends x P \<longleftrightarrow> (\<exists>y. x = Some y \<and> P y)"
  by (cases x) simp_all

lemma ends_mono: "ends x P \<Longrightarrow> (\<And>y. P y \<Longrightarrow> Q y) \<Longrightarrow> ends x Q"
  by (auto simp: ends_iff)

lemma ends_bind: "ends x P \<Longrightarrow> (\<And>y. P y \<Longrightarrow> ends (f y) Q) \<Longrightarrow> ends (x \<bind> f) Q"
  by (cases x) simp_all

lemma ends_assert [simp]: "ends (c_assert b \<bind> f) Q \<longleftrightarrow> b \<and> ends (f ()) Q"
  by (cases b) simp_all

section \<open>The parts of the state the machine rests on\<close>

definition dev_waits :: "dev_handler set" where
  "dev_waits = {DEV_NodeDescriptorStateHandler, DEV_ActiveEndpointsStateHandler, DEV_SimpleDescriptorStateHandler, DEV_BasicClusterStateHandler}"

definition dev_main :: "dev_handler set" where
  "dev_main = dev_waits \<union> {DEV_InitStateHandler, DEV_IdleStateHandler, DEV_GetDeviceDescriptionHandler, DEV_DeadStateHandler, DEV_ZgpStateHandler}"

definition binding_waits :: "dev_handler set" where
  "binding_waits = {DEV_BindingCreateHandler, DEV_BindingRemoveHandler, DEV_ReadReportConfigurationHandler, DEV_ConfigureReportingHandler, DEV_BindingIdleHandler}"

definition binding_states :: "dev_handler set" where
  "binding_states = binding_waits \<union> {DEV_BindingHandler, DEV_BindingTableReadHandler, DEV_BindingTableVerifyHandler,
     DEV_ReadNextReportConfigurationHandler, DEV_ConfigureNextReportConfigurationHandler}"

text \<open>The states that work on the current binding, and those that need one with reports.\<close>

definition binding_current :: "dev_handler set" where
  "binding_current = {DEV_BindingCreateHandler, DEV_ReadReportConfigurationHandler, DEV_ReadNextReportConfigurationHandler,
     DEV_ConfigureNextReportConfigurationHandler, DEV_ConfigureReportingHandler}"

definition binding_reports :: "dev_handler set" where
  "binding_reports = {DEV_ConfigureNextReportConfigurationHandler, DEV_ConfigureReportingHandler}"

definition poll_waits :: "dev_handler set" where
  "poll_waits = {DEV_PollNextStateHandler, DEV_PollBusyStateHandler}"

lemmas dev_sets = dev_waits_def dev_main_def binding_waits_def binding_states_def binding_current_def binding_reports_def poll_waits_def

definition bshape :: "binding_context \<Rightarrow> nat \<times> nat \<times> (bool \<times> bool) list" where
  "bshape b = (bc_bindingIter b, length (bc_bindingTrackers b),
     map (\<lambda>x. (bd_isUnicastBinding x \<or> bd_isGroupBinding x, bd_reporting x \<noteq> [])) (bc_bindings b))"

definition dnames :: "'at res_lib \<Rightarrow> 'at device \<Rightarrow> string list \<times> string list list" where
  "dnames L d = (names_of (al_rids L) (dv_res d), map (names_of (al_rids L)) (dv_subs d))"

definition need_items :: "string set" where
  "need_items = {RStateReachable, RCapSleeper, RAttrExtAddress, RAttrNwkAddress, RAttrManufacturerName, RAttrModelId}"

text \<open>The parts: the names of the items, the states, locks and timers, the node, the context of the bindings and the poll items.\<close>

type_synonym dev_core_state = "(string list \<times> string list list) \<times> (dev_level \<Rightarrow> dev_handler option) \<times> (dev_level \<Rightarrow> bool)
  \<times> (dev_level \<Rightarrow> int option) \<times> bool \<times> (nat \<times> nat \<times> (bool \<times> bool) list) \<times> poll_item list"

definition dev_view :: "'at res_lib \<Rightarrow> 'at device \<Rightarrow> dev_core_state" where
  "dev_view L d = (dnames L d, dv_state d, dv_lock d, dv_timer d, dv_node d, bshape (dv_binding d), dv_pollItems d)"

definition names_ok :: "string list \<times> string list list \<Rightarrow> bool" where
  "names_ok ns \<longleftrightarrow> need_items \<subseteq> set (fst ns) \<and> (\<forall>n \<in> set (snd ns). RAttrUniqueId \<in> set n \<and> RAttrId \<in> set n)"

definition states_ok :: "(dev_level \<Rightarrow> dev_handler option) \<Rightarrow> bool" where
  "states_ok st \<longleftrightarrow>
     (\<forall>h. st StateLevel0 = Some h \<longrightarrow> h \<in> dev_main) \<and>
     (\<forall>h. st StateLevel1 = Some h \<longrightarrow> h \<in> binding_states) \<and>
     (\<forall>h. st StateLevel2 = Some h \<longrightarrow> h \<in> poll_waits \<or> h = DEV_PollIdleStateHandler) \<and>
     (st StateLevel1 \<noteq> None \<or> st StateLevel2 \<noteq> None \<longrightarrow> st StateLevel0 = Some DEV_IdleStateHandler)"

definition timers_ok :: "(dev_level \<Rightarrow> dev_handler option) \<Rightarrow> (dev_level \<Rightarrow> bool) \<Rightarrow> (dev_level \<Rightarrow> int option) \<Rightarrow> bool" where
  "timers_ok st lk tm \<longleftrightarrow>
     (\<forall>l. lk l \<longrightarrow> st l \<noteq> None) \<and>
     (st StateLevel0 = Some DEV_GetDeviceDescriptionHandler \<or> st StateLevel0 = Some DEV_IdleStateHandler \<longrightarrow> tm StateLevel0 = None) \<and>
     (tm StateLevel1 \<noteq> None \<longrightarrow> \<not> lk StateLevel1 \<and> (\<exists>h. st StateLevel1 = Some h \<and> (h = DEV_BindingTableReadHandler \<or> h \<in> binding_waits))) \<and>
     (tm StateLevel2 \<noteq> None \<longrightarrow> \<not> lk StateLevel2 \<and> (\<exists>h. st StateLevel2 = Some h \<and> h \<in> poll_waits))"

definition bindings_ok :: "dev_handler option \<Rightarrow> nat \<times> nat \<times> (bool \<times> bool) list \<Rightarrow> bool" where
  "bindings_ok h b \<longleftrightarrow> (case b of (i, n, bs) \<Rightarrow>
     n = length bs \<and> (\<forall>b \<in> set bs. fst b) \<and>
     (\<forall>s. h = Some s \<longrightarrow> s \<in> binding_current \<longrightarrow> i < n) \<and>
     (\<forall>s. h = Some s \<longrightarrow> s \<in> binding_reports \<longrightarrow> snd (bs ! i)))"

definition needs_node :: "dev_handler set" where
  "needs_node = dev_waits \<union> {DEV_GetDeviceDescriptionHandler, DEV_IdleStateHandler}"

text \<open>What holds at any time.\<close>

definition base_view :: "dev_core_state \<Rightarrow> bool" where
  "base_view v \<longleftrightarrow> (case v of (ns, st, lk, tm, node, b, ps) \<Rightarrow>
     names_ok ns \<and> states_ok st \<and> timers_ok st lk tm \<and> bindings_ok (st StateLevel1) b \<and>
     (\<forall>h. st StateLevel0 = Some h \<longrightarrow> h \<in> needs_node \<longrightarrow> node) \<and> (\<forall>p \<in> set ps. pi_retry p < MaxPollItemRetries))"

text \<open>What holds once a state has seen its \<open>REventStateEnter\<close>: it waits for its timer.\<close>

definition entered_view :: "dev_level \<Rightarrow> dev_core_state \<Rightarrow> bool" where
  "entered_view l v \<longleftrightarrow> (case v of (ns, st, lk, tm, node, b, ps) \<Rightarrow>
     (\<forall>h. st l = Some h \<longrightarrow> h \<in> (case l of StateLevel0 \<Rightarrow> dev_waits | StateLevel1 \<Rightarrow> binding_waits | StateLevel2 \<Rightarrow> poll_waits) \<longrightarrow> tm l \<noteq> None) \<and>
     (l = StateLevel1 \<longrightarrow> st l = Some DEV_ReadReportConfigurationHandler \<longrightarrow> (case b of (i, n, bs) \<Rightarrow> snd (bs ! i))))"

definition base_ok :: "'at res_lib \<Rightarrow> 'at device \<Rightarrow> bool" where
  "base_ok L d = base_view (dev_view L d)"

definition entered :: "'at res_lib \<Rightarrow> dev_level \<Rightarrow> 'at device \<Rightarrow> bool" where
  "entered L l d = entered_view l (dev_view L d)"

definition weak_ok :: "dev_level \<Rightarrow> 'at res_lib \<Rightarrow> 'at device \<Rightarrow> bool" where
  "weak_ok l L d \<longleftrightarrow> base_ok L d \<and> (\<forall>m. m \<noteq> l \<longrightarrow> \<not> dv_lock d m \<longrightarrow> entered L m d)"

definition dev_ok :: "'at res_lib \<Rightarrow> 'at device \<Rightarrow> bool" where
  "dev_ok L d \<longleftrightarrow> base_ok L d \<and> (\<forall>l. \<not> dv_lock d l \<longrightarrow> entered L l d)"

lemma ok_weak: "dev_ok L d \<Longrightarrow> weak_ok l L d"
  by (simp add: dev_ok_def weak_ok_def)

text \<open>Steps that leave all that alone.\<close>

definition quiet :: "'at res_lib \<Rightarrow> 'at device \<Rightarrow> 'at device \<Rightarrow> bool" where
  "quiet L d d' \<longleftrightarrow> dev_view L d' = dev_view L d"

lemma quiet_refl [simp]: "quiet L d d"
  by (simp add: quiet_def)

lemma quiet_trans: "quiet L a b \<Longrightarrow> quiet L b c \<Longrightarrow> quiet L a c"
  by (simp add: quiet_def)

lemma quiet_fields:
  assumes "quiet L d d'"
  shows "dv_state d' = dv_state d" "dv_lock d' = dv_lock d" "dv_timer d' = dv_timer d" "dv_node d' = dv_node d"
    "dv_pollItems d' = dv_pollItems d" "bshape (dv_binding d') = bshape (dv_binding d)" "dnames L d' = dnames L d"
  using assms by (simp_all add: quiet_def dev_view_def)

lemma quietI:
  assumes "dv_state d' = dv_state d" "dv_lock d' = dv_lock d" "dv_timer d' = dv_timer d" "dv_node d' = dv_node d"
    "dv_pollItems d' = dv_pollItems d" "bshape (dv_binding d') = bshape (dv_binding d)" "dnames L d' = dnames L d"
  shows "quiet L d d'"
  using assms by (simp add: quiet_def dev_view_def)

lemma quiet_entered: "quiet L d d' \<Longrightarrow> entered L l d' = entered L l d"
  by (simp add: quiet_def entered_def)

lemma quiet_base: "quiet L d d' \<Longrightarrow> base_ok L d' = base_ok L d"
  by (simp add: quiet_def base_ok_def)

lemma quiet_ok: "quiet L d d' \<Longrightarrow> dev_ok L d' = dev_ok L d"
  by (simp add: dev_ok_def quiet_base quiet_entered quiet_fields)

lemma quiet_weak: "quiet L d d' \<Longrightarrow> weak_ok l L d' = weak_ok l L d"
  by (simp add: weak_ok_def quiet_base quiet_entered quiet_fields)

section \<open>Helpers that are quiet\<close>

lemma quiet_do [simp]: "quiet L d (dev_do x d)"
  by (simp add: quiet_def dev_view_def dev_do_def dnames_def)

lemma quiet_enqueue [simp]: "quiet L d (DEV_EnqueueEvent s d)" "quiet L d (DEV_ForwardNodeChange k v d)"
  by (simp_all add: DEV_EnqueueEvent_def DEV_ForwardNodeChange_def)

lemma quiet_subDevices [simp]: "quiet L d (dev_subDevices d)"
  by (simp add: quiet_def dev_view_def dev_subDevices_def dnames_def)

lemma item_exists: "base_ok L d \<Longrightarrow> s \<in> need_items \<Longrightarrow> \<exists>i. dev_item L s d = Some i"
  using item_None [of "al_rids L" s "dv_res d"] by (auto simp: base_ok_def base_view_def dev_view_def names_ok_def dnames_def dev_item_def)

lemma names_write:
  assumes "ri_suffix (al_rids L) i' = s"
  shows "names_of (al_rids L) (rs_update (al_rids L) s (\<lambda>_. i') r) = names_of (al_rids L) r"
  by (rule names_update) (rule assms)

lemma setNumber_suffix': "ri_suffix ds (snd (ri_setNumber ds now n src i)) = ri_suffix ds i"
  by (cases "ri_setNumber ds now n src i") (auto simp: ri_descriptor_def elim!: setNumber_cases)

lemma setNumber_quiet:
  assumes "base_ok L d" "s \<in> need_items"
  shows "ends (dev_setNumber L now s n d) (quiet L d)"
proof -
  obtain i where i: "dev_item L s d = Some i" using item_exists [OF assms] by blast
  then have "ri_suffix (al_rids L) i = s" using item_suffix [of "al_rids L" s "dv_res d" i] by (simp add: dev_item_def)
  then have "names_of (al_rids L) (rs_update (al_rids L) s (\<lambda>_. snd (ri_setNumber (al_rids L) now n SourceUnknown i)) (dv_res d)) = names_of (al_rids L) (dv_res d)"
    by (intro names_write) (simp add: setNumber_suffix')
  then show ?thesis by (simp add: dev_setNumber_def i dev_write_def quiet_def dev_view_def dnames_def)
qed

lemma syncNumber_quiet:
  assumes "base_ok L d" "s \<in> need_items"
  shows "ends (dev_syncNumber L now s n d) (quiet L d)"
proof -
  obtain i where i: "dev_item L s d = Some i" using item_exists [OF assms] by blast
  then show ?thesis using setNumber_quiet [OF assms] by (simp add: dev_syncNumber_def)
qed

lemma toBool_ends: "base_ok L d \<Longrightarrow> s \<in> need_items \<Longrightarrow> \<exists>b. dev_toBool L s d = Some b"
  using item_exists by (fastforce simp: dev_toBool_def)

lemma reachable_ends: "base_ok L d \<Longrightarrow> \<exists>b. dev_reachable L env d = Some b"
  using toBool_ends [of L d RStateReachable] toBool_ends [of L d RCapSleeper] by (auto simp: dev_reachable_def need_items_def)

section \<open>Setting a state\<close>

lemma setState1_fields:
  assumes "dv_state d StateLevel1 \<noteq> Some h" "\<forall>s. dv_state d StateLevel1 = Some s \<longrightarrow> s \<in> binding_states"
  shows "dv_state (to_binding h d) = (dv_state d)(StateLevel1 := Some h)"
    "dv_lock (to_binding h d) = (dv_lock d)(StateLevel1 := True)"
    "dv_node (to_binding h d) = dv_node d" "dv_pollItems (to_binding h d) = dv_pollItems d" "dv_binding (to_binding h d) = dv_binding d"
    "dv_res (to_binding h d) = dv_res d" "dv_subs (to_binding h d) = dv_subs d"
    "dv_timer (to_binding h d) m = (if m = StateLevel1 \<and> (\<exists>s. dv_state d StateLevel1 = Some s \<and> (s = DEV_BindingTableReadHandler \<or> s \<in> binding_waits)) then None else dv_timer d m)"
  using assms
  by (auto simp: to_binding_def dev_setState_def dev_setState_with_def dev_leave_def leave_simple_def dev_stopStateTimer_def dev_do_def Let_def dev_sets
      split: option.split)

lemma setState2_fields:
  assumes "dv_state d StateLevel2 \<noteq> Some h" "\<forall>s. dv_state d StateLevel2 = Some s \<longrightarrow> s \<in> poll_waits \<or> s = DEV_PollIdleStateHandler"
  shows "dv_state (to_poll h d) = (dv_state d)(StateLevel2 := Some h)"
    "dv_lock (to_poll h d) = (dv_lock d)(StateLevel2 := True)"
    "dv_node (to_poll h d) = dv_node d" "dv_pollItems (to_poll h d) = dv_pollItems d" "dv_binding (to_poll h d) = dv_binding d"
    "dv_res (to_poll h d) = dv_res d" "dv_subs (to_poll h d) = dv_subs d"
    "dv_timer (to_poll h d) m = (if m = StateLevel2 \<and> (\<exists>s. dv_state d StateLevel2 = Some s \<and> s \<in> poll_waits) then None else dv_timer d m)"
  using assms
  by (auto simp: to_poll_def dev_setState_def dev_setState_with_def dev_leave_def leave_simple_def dev_stopStateTimer_def dev_do_def Let_def dev_sets
      split: option.split)

text \<open>Level 0: leaving the idle state ends the sub states and their timers.\<close>

lemma leave_simple_fields [simp]:
  "dv_state (leave_simple h d) = dv_state d" "dv_lock (leave_simple h d) = dv_lock d" "dv_node (leave_simple h d) = dv_node d"
  "dv_pollItems (leave_simple h d) = dv_pollItems d" "dv_binding (leave_simple h d) = dv_binding d" "dv_res (leave_simple h d) = dv_res d"
  "dv_subs (leave_simple h d) = dv_subs d"
  by (simp_all add: leave_simple_def dev_stopStateTimer_def)

lemma leave_simple_timer: "dv_timer (leave_simple h d) m =
    (if m = StateLevel0 \<and> h \<in> dev_waits \<or> m = StateLevel1 \<and> (h = DEV_BindingTableReadHandler \<or> h \<in> binding_waits) \<or> m = StateLevel2 \<and> h \<in> poll_waits
     then None else dv_timer d m)"
  by (cases h) (auto simp: leave_simple_def dev_stopStateTimer_def dev_sets)

lemma leave_none_fields [simp]:
  "dv_state (dev_setState_with leave_simple None l d) = (dv_state d)(l := None)"
  "dv_lock (dev_setState_with leave_simple None l d) = (if dv_state d l = None then dv_lock d else (dv_lock d)(l := False))"
  "dv_node (dev_setState_with leave_simple None l d) = dv_node d"
  "dv_pollItems (dev_setState_with leave_simple None l d) = dv_pollItems d" "dv_binding (dev_setState_with leave_simple None l d) = dv_binding d"
  "dv_res (dev_setState_with leave_simple None l d) = dv_res d" "dv_subs (dev_setState_with leave_simple None l d) = dv_subs d"
  by (simp_all add: dev_setState_with_def Let_def fun_upd_idem split: option.split)

lemma leave_none_timer: "dv_timer (dev_setState_with leave_simple None l d) m =
    (case dv_state d l of None \<Rightarrow> dv_timer d m | Some h \<Rightarrow> dv_timer (leave_simple h d) m)"
  by (simp add: dev_setState_with_def Let_def split: option.split)

lemma stop_fields [simp]:
  "dv_state (dev_stopStateTimer l d) = dv_state d" "dv_lock (dev_stopStateTimer l d) = dv_lock d" "dv_node (dev_stopStateTimer l d) = dv_node d"
  "dv_pollItems (dev_stopStateTimer l d) = dv_pollItems d" "dv_binding (dev_stopStateTimer l d) = dv_binding d" "dv_res (dev_stopStateTimer l d) = dv_res d"
  "dv_subs (dev_stopStateTimer l d) = dv_subs d" "dv_timer (dev_stopStateTimer l d) = (dv_timer d)(l := None)"
  by (simp_all add: dev_stopStateTimer_def)

lemma start_fields [simp]:
  "dv_state (dev_startStateTimer t l d) = dv_state d" "dv_lock (dev_startStateTimer t l d) = dv_lock d" "dv_node (dev_startStateTimer t l d) = dv_node d"
  "dv_pollItems (dev_startStateTimer t l d) = dv_pollItems d" "dv_binding (dev_startStateTimer t l d) = dv_binding d" "dv_res (dev_startStateTimer t l d) = dv_res d"
  "dv_subs (dev_startStateTimer t l d) = dv_subs d" "dv_timer (dev_startStateTimer t l d) = (dv_timer d)(l := Some t)"
  by (simp_all add: dev_startStateTimer_def)

lemma leave_idle_fields [simp]:
  "dv_state (leave_idle d) = (dv_state d)(StateLevel1 := None, StateLevel2 := None)"
  "dv_lock (leave_idle d) l = (dv_lock d l \<and> (l = StateLevel0 \<or> dv_state d l = None))"
  "dv_node (leave_idle d) = dv_node d"
  "dv_pollItems (leave_idle d) = dv_pollItems d" "dv_binding (leave_idle d) = dv_binding d"
  "dv_res (leave_idle d) = dv_res d" "dv_subs (leave_idle d) = dv_subs d"
  by (cases l; auto simp: leave_idle_def Let_def)+

lemma leave_idle_timer:
  assumes "\<And>h. dv_state d StateLevel1 = Some h \<Longrightarrow> h \<in> binding_states" "\<And>k. dv_state d StateLevel2 = Some k \<Longrightarrow> k \<in> poll_waits \<or> k = DEV_PollIdleStateHandler"
  shows "dv_timer (leave_idle d) m = (if m = StateLevel0 then dv_timer d m else None)"
proof -
  have "\<And>h. dv_state d StateLevel1 = Some h \<Longrightarrow> h \<notin> dev_waits" "\<And>h. dv_state d StateLevel2 = Some h \<Longrightarrow> h \<notin> dev_waits"
    using assms by (fastforce simp: dev_sets)+
  then show ?thesis
    by (cases m) (auto simp: leave_idle_def Let_def leave_none_timer leave_simple_timer split: option.split)
qed

lemma setState_some:
  assumes "dv_state d l \<noteq> Some h"
  shows "dv_state (dev_setState h l d) = (case dv_state d l of None \<Rightarrow> dv_state d | Some s \<Rightarrow> dv_state (dev_leave s d))(l := Some h)"
    "dv_lock (dev_setState h l d) = (case dv_state d l of None \<Rightarrow> dv_lock d | Some s \<Rightarrow> dv_lock (dev_leave s d))(l := True)"
    "dv_timer (dev_setState h l d) = (case dv_state d l of None \<Rightarrow> dv_timer d | Some s \<Rightarrow> dv_timer (dev_leave s d))"
  using assms by (simp_all add: dev_setState_def dev_setState_with_def dev_do_def Let_def fun_upd_idem split: option.split)

lemma leave_rest [simp]:
  "dv_node (dev_leave h d) = dv_node d"
  "dv_pollItems (dev_leave h d) = dv_pollItems d" "dv_binding (dev_leave h d) = dv_binding d"
  "dv_res (dev_leave h d) = dv_res d" "dv_subs (dev_leave h d) = dv_subs d"
  by (simp_all add: dev_leave_def)

lemma setState_rest [simp]:
  "dv_node (dev_setState h l d) = dv_node d" "dv_pollItems (dev_setState h l d) = dv_pollItems d"
  "dv_binding (dev_setState h l d) = dv_binding d"
  "dv_res (dev_setState h l d) = dv_res d" "dv_subs (dev_setState h l d) = dv_subs d"
  by (simp_all add: dev_setState_def dev_setState_with_def dev_do_def Let_def split: option.split)

lemma setState0_fields:
  assumes "states_ok (dv_state d)" "timers_ok (dv_state d) (dv_lock d) (dv_timer d)" "dv_state d StateLevel0 \<noteq> Some h"
  shows "dv_state (dev_setState h StateLevel0 d) = (\<lambda>l. if l = StateLevel0 then Some h else None)"
    "dv_lock (dev_setState h StateLevel0 d) = (\<lambda>l. l = StateLevel0)"
    "dv_timer (dev_setState h StateLevel0 d) = (\<lambda>m. if m = StateLevel0 \<and> (\<forall>s. dv_state d StateLevel0 = Some s \<longrightarrow> s \<notin> dev_waits) then dv_timer d m else None)"
proof -
  have lk: "dv_lock d k \<Longrightarrow> \<exists>y. dv_state d k = Some y" for k using assms(2) by (auto simp: timers_ok_def)
  have nl: "dv_state d k = None \<Longrightarrow> \<not> dv_lock d k" for k using lk by fastforce
  have tm: "dv_state d StateLevel1 = None \<Longrightarrow> dv_timer d StateLevel1 = None" "dv_state d StateLevel2 = None \<Longrightarrow> dv_timer d StateLevel2 = None"
    using assms(2) by (auto simp: timers_ok_def)
  have st: "\<And>h. dv_state d StateLevel1 = Some h \<Longrightarrow> h \<in> binding_states" "\<And>k. dv_state d StateLevel2 = Some k \<Longrightarrow> k \<in> poll_waits \<or> k = DEV_PollIdleStateHandler"
    using assms(1) by (auto simp: states_ok_def)
  have idle: "DEV_IdleStateHandler \<notin> dev_waits" by (simp add: dev_sets)
  consider "dv_state d StateLevel0 = Some DEV_IdleStateHandler"
    | "dv_state d StateLevel0 \<noteq> Some DEV_IdleStateHandler" "dv_state d StateLevel1 = None" "dv_state d StateLevel2 = None"
    using assms(1) by (auto simp: states_ok_def)
  then have "dv_state (dev_setState h StateLevel0 d) l = (if l = StateLevel0 then Some h else None) \<and>
      dv_lock (dev_setState h StateLevel0 d) l = (l = StateLevel0) \<and>
      dv_timer (dev_setState h StateLevel0 d) l = (if l = StateLevel0 \<and> (\<forall>s. dv_state d StateLevel0 = Some s \<longrightarrow> s \<notin> dev_waits) then dv_timer d l else None)" for l
  proof cases
    case 1
    then show ?thesis using assms(3) idle lk
      by (cases l) (auto simp: setState_some dev_leave_def leave_idle_timer [OF st])
  next
    case 2
    show ?thesis
    proof (cases "dv_state d StateLevel0")
      case None
      then show ?thesis using 2 nl tm assms(3) by (cases l) (simp_all add: setState_some)
    next
      case (Some s)
      then have s: "s \<in> dev_main" "s \<noteq> DEV_IdleStateHandler" using 2 assms(1) by (auto simp: states_ok_def)
      then have "s \<notin> binding_waits" "s \<notin> poll_waits" "s \<noteq> DEV_BindingTableReadHandler" by (auto simp: dev_sets)
      then show ?thesis using 2 nl tm assms(3) Some s by (cases l) (simp_all add: setState_some dev_leave_def leave_simple_timer)
    qed
  qed
  then show "dv_state (dev_setState h StateLevel0 d) = (\<lambda>l. if l = StateLevel0 then Some h else None)"
    "dv_lock (dev_setState h StateLevel0 d) = (\<lambda>l. l = StateLevel0)"
    "dv_timer (dev_setState h StateLevel0 d) = (\<lambda>m. if m = StateLevel0 \<and> (\<forall>s. dv_state d StateLevel0 = Some s \<longrightarrow> s \<notin> dev_waits) then dv_timer d m else None)"
    by auto
qed

lemma viewE:
  assumes "base_ok L d"
  shows "names_ok (dnames L d)" "states_ok (dv_state d)" "timers_ok (dv_state d) (dv_lock d) (dv_timer d)"
    "bindings_ok (dv_state d StateLevel1) (bshape (dv_binding d))" "\<And>h. dv_state d StateLevel0 = Some h \<Longrightarrow> h \<in> needs_node \<Longrightarrow> dv_node d"
    "\<And>p. p \<in> set (dv_pollItems d) \<Longrightarrow> pi_retry p < MaxPollItemRetries"
  using assms by (simp_all add: base_ok_def base_view_def dev_view_def)

lemma baseI:
  assumes "names_ok (dnames L d)" "states_ok (dv_state d)" "timers_ok (dv_state d) (dv_lock d) (dv_timer d)"
    "bindings_ok (dv_state d StateLevel1) (bshape (dv_binding d))" "\<And>h. dv_state d StateLevel0 = Some h \<Longrightarrow> h \<in> needs_node \<Longrightarrow> dv_node d"
    "\<And>p. p \<in> set (dv_pollItems d) \<Longrightarrow> pi_retry p < MaxPollItemRetries"
  shows "base_ok L d"
  using assms by (simp add: base_ok_def base_view_def dev_view_def)

lemma dnames_cong: "dv_res d' = dv_res d \<Longrightarrow> dv_subs d' = dv_subs d \<Longrightarrow> dnames L d' = dnames L d"
  by (simp add: dnames_def)

lemma entered_cong:
  assumes "dv_state d' l = dv_state d l" "dv_timer d' l = dv_timer d l" "bshape (dv_binding d') = bshape (dv_binding d)"
  shows "entered L l d' = entered L l d"
  using assms by (cases l) (simp_all add: entered_def entered_view_def dev_view_def)

lemma weak_entered: "weak_ok l L d \<Longrightarrow> entered L l d \<Longrightarrow> dev_ok L d"
  unfolding weak_ok_def dev_ok_def by metis

definition cur_shape :: "'at device \<Rightarrow> bool" where
  "cur_shape d \<longleftrightarrow> bc_bindingIter (dv_binding d) < length (bc_bindings (dv_binding d))"

definition cur_reports :: "'at device \<Rightarrow> bool" where
  "cur_reports d \<longleftrightarrow> bd_reporting (bc_bindings (dv_binding d) ! bc_bindingIter (dv_binding d)) \<noteq> []"

lemma bindings_okE:
  assumes "bindings_ok h (bshape (dv_binding d))"
  shows "length (bc_bindingTrackers (dv_binding d)) = length (bc_bindings (dv_binding d))"
    "\<And>b. b \<in> set (bc_bindings (dv_binding d)) \<Longrightarrow> bd_isUnicastBinding b \<or> bd_isGroupBinding b"
    "\<And>s. h = Some s \<Longrightarrow> s \<in> binding_current \<Longrightarrow> cur_shape d"
    "\<And>s. h = Some s \<Longrightarrow> s \<in> binding_reports \<Longrightarrow> cur_reports d"
proof -
  have sub: "binding_reports \<subseteq> binding_current" by (auto simp: dev_sets)
  show "length (bc_bindingTrackers (dv_binding d)) = length (bc_bindings (dv_binding d))"
    "\<And>b. b \<in> set (bc_bindings (dv_binding d)) \<Longrightarrow> bd_isUnicastBinding b \<or> bd_isGroupBinding b"
    "\<And>s. h = Some s \<Longrightarrow> s \<in> binding_current \<Longrightarrow> cur_shape d"
    using assms by (auto simp: bindings_ok_def bshape_def cur_shape_def)
  then show "\<And>s. h = Some s \<Longrightarrow> s \<in> binding_reports \<Longrightarrow> cur_reports d"
    using assms sub by (auto simp: bindings_ok_def bshape_def cur_shape_def cur_reports_def)
qed

lemma bindings_okI:
  assumes "length (bc_bindingTrackers (dv_binding d)) = length (bc_bindings (dv_binding d))"
    "\<And>b. b \<in> set (bc_bindings (dv_binding d)) \<Longrightarrow> bd_isUnicastBinding b \<or> bd_isGroupBinding b"
    "\<And>s. h = Some s \<Longrightarrow> s \<in> binding_current \<Longrightarrow> cur_shape d"
    "\<And>s. h = Some s \<Longrightarrow> s \<in> binding_reports \<Longrightarrow> cur_reports d"
  shows "bindings_ok h (bshape (dv_binding d))"
proof -
  have sub: "binding_reports \<subseteq> binding_current" by (auto simp: dev_sets)
  show ?thesis using assms sub by (auto simp: bindings_ok_def bshape_def cur_shape_def cur_reports_def)
qed

lemma to_binding_ok:
  assumes w: "weak_ok StateLevel1 L d" and s: "dv_state d StateLevel1 = Some s"
    and h: "h \<in> binding_states" "s \<noteq> h \<or> h \<notin> binding_waits"
    and i: "h \<in> binding_current \<Longrightarrow> cur_shape d" and r: "h \<in> binding_reports \<Longrightarrow> cur_reports d"
  shows "dev_ok L (to_binding h d)"
proof (cases "s = h")
  case True
  then have "to_binding h d = d" using s by (simp add: to_binding_def dev_setState_def dev_setState_with_def)
  moreover have "entered L StateLevel1 d" using s h True
    by (auto simp: entered_def entered_view_def dev_view_def dev_sets)
  ultimately show ?thesis using weak_entered [OF w] by simp
next
  case False
  then have ne: "dv_state d StateLevel1 \<noteq> Some h" using s by simp
  note b = viewE [OF conjunct1 [OF w [unfolded weak_ok_def]]]
  have st: "\<forall>s. dv_state d StateLevel1 = Some s \<longrightarrow> s \<in> binding_states" using b(2) by (auto simp: states_ok_def)
  note f = setState1_fields [OF ne st]
  have t1: "s = DEV_BindingTableReadHandler \<or> s \<in> binding_waits \<or> dv_timer d StateLevel1 = None"
    using b(3) s by (auto simp: timers_ok_def)
  have "base_ok L (to_binding h d)"
  proof (rule baseI)
    show "names_ok (dnames L (to_binding h d))" using b(1) by (simp add: dnames_def f)
    show "states_ok (dv_state (to_binding h d))" using b(2) s h(1) by (auto simp: f states_ok_def)
    show "timers_ok (dv_state (to_binding h d)) (dv_lock (to_binding h d)) (dv_timer (to_binding h d))"
      using b(3) s t1 by (auto simp: f timers_ok_def)
    show "bindings_ok (dv_state (to_binding h d) StateLevel1) (bshape (dv_binding (to_binding h d)))"
      unfolding f(5) by (rule bindings_okI) (use bindings_okE [OF b(4)] i r in \<open>auto simp: f(1)\<close>)
    show "\<And>k. dv_state (to_binding h d) StateLevel0 = Some k \<Longrightarrow> k \<in> needs_node \<Longrightarrow> dv_node (to_binding h d)" using b(5) by (auto simp: f)
    show "\<And>p. p \<in> set (dv_pollItems (to_binding h d)) \<Longrightarrow> pi_retry p < MaxPollItemRetries" using b(6) by (simp add: f)
  qed
  moreover have "entered L m (to_binding h d)" if "\<not> dv_lock (to_binding h d) m" for m
  proof -
    have m: "m \<noteq> StateLevel1" "\<not> dv_lock d m" using that by (auto simp: f split: if_splits)
    then have "entered L m d" using w by (simp add: weak_ok_def)
    then show ?thesis using m entered_cong [of "to_binding h d" m d L] by (simp add: f)
  qed
  ultimately show ?thesis by (simp add: dev_ok_def)
qed

lemma to_poll_ok:
  assumes w: "weak_ok StateLevel2 L d" and s: "dv_state d StateLevel2 = Some s"
    and h: "h \<in> poll_waits \<or> h = DEV_PollIdleStateHandler" "s \<noteq> h \<or> h \<notin> poll_waits"
  shows "dev_ok L (to_poll h d)"
proof (cases "s = h")
  case True
  then have "to_poll h d = d" using s by (simp add: to_poll_def dev_setState_def dev_setState_with_def)
  moreover have "entered L StateLevel2 d" using s h True
    by (auto simp: entered_def entered_view_def dev_view_def dev_sets)
  ultimately show ?thesis using weak_entered [OF w] by simp
next
  case False
  then have ne: "dv_state d StateLevel2 \<noteq> Some h" using s by simp
  note b = viewE [OF conjunct1 [OF w [unfolded weak_ok_def]]]
  have st: "\<forall>s. dv_state d StateLevel2 = Some s \<longrightarrow> s \<in> poll_waits \<or> s = DEV_PollIdleStateHandler" using b(2) by (auto simp: states_ok_def)
  note f = setState2_fields [OF ne st]
  have t2: "s \<in> poll_waits \<or> dv_timer d StateLevel2 = None"
    using b(3) s by (auto simp: timers_ok_def)
  have "base_ok L (to_poll h d)"
  proof (rule baseI)
    show "names_ok (dnames L (to_poll h d))" using b(1) by (simp add: dnames_def f)
    show "states_ok (dv_state (to_poll h d))" using b(2) s h(1) by (auto simp: f states_ok_def)
    show "timers_ok (dv_state (to_poll h d)) (dv_lock (to_poll h d)) (dv_timer (to_poll h d))"
      using b(3) s t2 by (auto simp: f timers_ok_def)
    show "bindings_ok (dv_state (to_poll h d) StateLevel1) (bshape (dv_binding (to_poll h d)))" using b(4) by (simp add: f)
    show "\<And>k. dv_state (to_poll h d) StateLevel0 = Some k \<Longrightarrow> k \<in> needs_node \<Longrightarrow> dv_node (to_poll h d)" using b(5) by (auto simp: f)
    show "\<And>p. p \<in> set (dv_pollItems (to_poll h d)) \<Longrightarrow> pi_retry p < MaxPollItemRetries" using b(6) by (simp add: f)
  qed
  moreover have "entered L m (to_poll h d)" if "\<not> dv_lock (to_poll h d) m" for m
  proof -
    have m: "m \<noteq> StateLevel2" "\<not> dv_lock d m" using that by (auto simp: f split: if_splits)
    then have "entered L m d" using w by (simp add: weak_ok_def)
    then show ?thesis using m entered_cong [of "to_poll h d" m d L] by (simp add: f)
  qed
  ultimately show ?thesis by (simp add: dev_ok_def)
qed

lemma to_state0_ok:
  assumes w: "weak_ok StateLevel0 L d" and ne: "dv_state d StateLevel0 \<noteq> Some h \<or> h \<notin> dev_waits"
    and h: "h \<in> dev_main" "h \<in> needs_node \<Longrightarrow> dv_node d"
    and t: "h = DEV_GetDeviceDescriptionHandler \<or> h = DEV_IdleStateHandler \<Longrightarrow> dv_timer d StateLevel0 = None \<or> (\<exists>s \<in> dev_waits. dv_state d StateLevel0 = Some s)"
  shows "dev_ok L (dev_setState h StateLevel0 d)"
proof (cases "dv_state d StateLevel0 = Some h")
  case True
  then have "dev_setState h StateLevel0 d = d" by (simp add: dev_setState_def dev_setState_with_def)
  moreover have "entered L StateLevel0 d" using ne True by (auto simp: entered_def entered_view_def dev_view_def)
  ultimately show ?thesis using weak_entered [OF w] by simp
next
  case False
  note b = viewE [OF conjunct1 [OF w [unfolded weak_ok_def]]]
  note f = setState0_fields [OF b(2,3) False]
  have "base_ok L (dev_setState h StateLevel0 d)"
  proof (rule baseI)
    show "names_ok (dnames L (dev_setState h StateLevel0 d))" using b(1) by (simp add: dnames_def)
    show "states_ok (dv_state (dev_setState h StateLevel0 d))" using h(1) by (auto simp: f states_ok_def)
    show "timers_ok (dv_state (dev_setState h StateLevel0 d)) (dv_lock (dev_setState h StateLevel0 d)) (dv_timer (dev_setState h StateLevel0 d))"
      using t by (auto simp: f timers_ok_def)
    show "bindings_ok (dv_state (dev_setState h StateLevel0 d) StateLevel1) (bshape (dv_binding (dev_setState h StateLevel0 d)))"
      by (rule bindings_okI) (use bindings_okE [OF b(4)] in \<open>auto simp: f\<close>)
    show "\<And>k. dv_state (dev_setState h StateLevel0 d) StateLevel0 = Some k \<Longrightarrow> k \<in> needs_node \<Longrightarrow> dv_node (dev_setState h StateLevel0 d)"
      using h(2) by (auto simp: f)
    show "\<And>p. p \<in> set (dv_pollItems (dev_setState h StateLevel0 d)) \<Longrightarrow> pi_retry p < MaxPollItemRetries" using b(6) by simp
  qed
  moreover have "entered L m (dev_setState h StateLevel0 d)" if "\<not> dv_lock (dev_setState h StateLevel0 d) m" for m
    using that by (cases m) (simp_all add: f entered_def entered_view_def dev_view_def)
  ultimately show ?thesis by (simp add: dev_ok_def)
qed

section \<open>Starting and stopping a timer\<close>

lemma start1_ok:
  assumes w: "weak_ok StateLevel1 L d" and lk: "\<not> dv_lock d StateLevel1" and s: "dv_state d StateLevel1 = Some s"
    and h: "s = DEV_BindingTableReadHandler \<or> s \<in> binding_waits" and r: "s = DEV_ReadReportConfigurationHandler \<Longrightarrow> cur_reports d"
  shows "dev_ok L (dev_startStateTimer t StateLevel1 d)"
proof -
  note b = viewE [OF conjunct1 [OF w [unfolded weak_ok_def]]]
  have sh: "s = DEV_ReadReportConfigurationHandler \<Longrightarrow> cur_shape d" using bindings_okE(3) [OF b(4) s] by (auto simp: dev_sets)
  have "base_ok L (dev_startStateTimer t StateLevel1 d)"
    by (rule baseI) (use b lk s h in \<open>auto simp: dnames_def timers_ok_def\<close>)
  moreover have "entered L m (dev_startStateTimer t StateLevel1 d)" if "\<not> dv_lock (dev_startStateTimer t StateLevel1 d) m" for m
  proof (cases "m = StateLevel1")
    case True
    then show ?thesis using s r sh by (auto simp: entered_def entered_view_def dev_view_def bshape_def cur_reports_def cur_shape_def)
  next
    case False
    then have "entered L m d" using w that by (simp add: weak_ok_def)
    then show ?thesis using False entered_cong [of "dev_startStateTimer t StateLevel1 d" m d L] by simp
  qed
  ultimately show ?thesis by (simp add: dev_ok_def)
qed

lemma start2_ok:
  assumes w: "weak_ok StateLevel2 L d" and lk: "\<not> dv_lock d StateLevel2" and s: "dv_state d StateLevel2 = Some s" "s \<in> poll_waits"
  shows "dev_ok L (dev_startStateTimer t StateLevel2 d)"
proof -
  note b = viewE [OF conjunct1 [OF w [unfolded weak_ok_def]]]
  have "base_ok L (dev_startStateTimer t StateLevel2 d)"
    by (rule baseI) (use b lk s in \<open>auto simp: dnames_def timers_ok_def\<close>)
  moreover have "entered L m (dev_startStateTimer t StateLevel2 d)" if "\<not> dv_lock (dev_startStateTimer t StateLevel2 d) m" for m
  proof (cases "m = StateLevel2")
    case True
    then show ?thesis by (auto simp: entered_def entered_view_def dev_view_def)
  next
    case False
    then have "entered L m d" using w that by (simp add: weak_ok_def)
    then show ?thesis using False entered_cong [of "dev_startStateTimer t StateLevel2 d" m d L] by simp
  qed
  ultimately show ?thesis by (simp add: dev_ok_def)
qed

lemma start0_ok:
  assumes w: "weak_ok StateLevel0 L d" and s: "dv_state d StateLevel0 \<noteq> Some DEV_GetDeviceDescriptionHandler" "dv_state d StateLevel0 \<noteq> Some DEV_IdleStateHandler"
  shows "dev_ok L (dev_startStateTimer t StateLevel0 d)"
proof -
  note b = viewE [OF conjunct1 [OF w [unfolded weak_ok_def]]]
  have "base_ok L (dev_startStateTimer t StateLevel0 d)"
    by (rule baseI) (use b s in \<open>auto simp: dnames_def timers_ok_def\<close>)
  moreover have "entered L m (dev_startStateTimer t StateLevel0 d)" if "\<not> dv_lock (dev_startStateTimer t StateLevel0 d) m" for m
  proof (cases "m = StateLevel0")
    case True
    then show ?thesis by (auto simp: entered_def entered_view_def dev_view_def)
  next
    case False
    then have "entered L m d" using w that by (simp add: weak_ok_def)
    then show ?thesis using False entered_cong [of "dev_startStateTimer t StateLevel0 d" m d L] by simp
  qed
  ultimately show ?thesis by (simp add: dev_ok_def)
qed

text \<open>Stopping the timer of a level keeps what is needed to start it again.\<close>

lemma stop_weak:
  assumes "weak_ok l L d"
  shows "weak_ok l L (dev_stopStateTimer l d)"
proof -
  note b = viewE [OF conjunct1 [OF assms [unfolded weak_ok_def]]]
  have "base_ok L (dev_stopStateTimer l d)"
    by (rule baseI) (use b in \<open>auto simp: dnames_def timers_ok_def\<close>)
  moreover have "entered L m (dev_stopStateTimer l d)" if "m \<noteq> l" "\<not> dv_lock (dev_stopStateTimer l d) m" for m
    using that assms entered_cong [of "dev_stopStateTimer l d" m d L] by (simp add: weak_ok_def)
  ultimately show ?thesis by (simp add: weak_ok_def)
qed

section \<open>What a handler is run with\<close>

text \<open>
  The handler of a level is run with its \<open>REventStateEnter\<close> or a timeout, when its timer need not run, or with another
  event, when it does.
\<close>

definition runs :: "dev_level \<Rightarrow> 'at res_lib \<Rightarrow> event \<Rightarrow> dev_handler \<Rightarrow> 'at device \<Rightarrow> bool" where
  "runs l L e h d \<longleftrightarrow> weak_ok l L d \<and> dv_state d l = Some h \<and> ev_what e \<noteq> REventStateLeave
     \<and> (ev_what e = REventStateEnter \<or> ev_what e = REventStateTimeout \<or> dev_ok L d)"

lemma weak_base: "weak_ok l L d \<Longrightarrow> base_ok L d"
  by (simp add: weak_ok_def)

lemma ok_base: "dev_ok L d \<Longrightarrow> base_ok L d"
  by (simp add: dev_ok_def)

text \<open>A state that waits for nothing needs no timer.\<close>

lemma passive_ok:
  assumes "weak_ok l L d" "dv_state d l = Some h" "h \<notin> dev_waits \<union> binding_waits \<union> poll_waits"
  shows "dev_ok L d"
proof -
  have "entered L l d" using assms by (cases l) (auto simp: entered_def entered_view_def dev_view_def dev_sets)
  then show ?thesis using weak_entered [OF assms(1)] by simp
qed

lemma event_names:
  "REventStateEnter \<noteq> REventStateLeave" "REventStateTimeout \<noteq> REventStateLeave" "REventStateTimeout \<noteq> REventStateEnter"
  "REventStateTimeout \<noteq> REventApsConfirm" "REventStateTimeout \<noteq> REventNodeDescriptor" "REventStateTimeout \<noteq> REventActiveEndpoints"
  "REventStateTimeout \<noteq> REventSimpleDescriptor" "REventStateTimeout \<noteq> RAttrManufacturerName" "REventStateTimeout \<noteq> RAttrModelId"
  "REventStateTimeout \<noteq> REventBindingTick" "REventStateTimeout \<noteq> REventZdpMgmtBindResponse" "REventStateTimeout \<noteq> REventZdpResponse"
  "REventStateTimeout \<noteq> REventZclReadReportConfigResponse" "REventStateTimeout \<noteq> REventZclResponse"
  "REventStateTimeout \<noteq> REventDDFInitResponse" "REventStateTimeout \<noteq> REventPoll" "REventStateTimeout \<noteq> REventAwake"
  "REventStateTimeout \<noteq> REventBindingTable"
  by (simp_all add: suffixes)

section \<open>Items\<close>

lemma quiet_write:
  assumes "rs_item (al_rids L) s (dv_res d) = Some i" "ri_suffix (al_rids L) j = s"
  shows "quiet L d (dev_write L s j d)"
  using assms by (intro quietI) (simp_all add: dev_write_def dnames_def names_write)

lemma public_suffix [simp]: "ri_descriptor ds (ri_setIsPublic b i) = ri_descriptor ds i" "ri_descriptor ds (ri_setNeedStore i) = ri_descriptor ds i"
  "ri_descriptor ds (ri_setZclUnsupportedAttribute i) = ri_descriptor ds i"
  by (simp_all add: ri_setIsPublic_def ri_setNeedStore_def ri_setZclUnsupportedAttribute_def ri_descriptor_def)

lemma quiet_public:
  assumes "dev_item L s d = Some i"
  shows "quiet L d (dev_write L s (ri_setIsPublic b i) d)"
  using assms item_suffix [of "al_rids L" s "dv_res d" i] by (intro quiet_write [of L s d i]) (simp_all add: dev_item_def)

lemma setVariant_quiet:
  assumes "base_ok L d" "s \<in> need_items"
  shows "ends (dev_setVariant L now s v d) (\<lambda>x. quiet L d (snd x))"
proof -
  obtain i where i: "dev_item L s d = Some i" using item_exists [OF assms] by blast
  obtain ok at j where v: "ri_setVariant (al_atoms L) (al_qt L) (al_rids L) now v SourceUnknown (dv_atoms d) i = (ok, at, j)" by (metis prod_cases3)
  have "ri_suffix (al_rids L) j = s"
    using item_suffix [of "al_rids L" s "dv_res d" i] i descriptor_cong [OF setVariant_index [OF v]] by (simp add: dev_item_def)
  then have "quiet L d (dev_write L s j (d\<lparr>dv_atoms := at\<rparr>))"
    by (intro quietI) (simp_all add: dev_write_def dnames_def names_write)
  then show ?thesis by (simp add: dev_setVariant_def i v)
qed

lemma subs_quiet:
  assumes "dv_state d' = dv_state d" "dv_lock d' = dv_lock d" "dv_timer d' = dv_timer d" "dv_node d' = dv_node d"
    "dv_pollItems d' = dv_pollItems d" "dv_binding d' = dv_binding d" "dv_res d' = dv_res d"
    "dv_subs d' = (dv_subs d)[k := r]" "names_of (al_rids L) r = names_of (al_rids L) (dv_subs d ! k)"
  shows "quiet L d d'"
proof -
  have "map (names_of (al_rids L)) ((dv_subs d)[k := r]) = map (names_of (al_rids L)) (dv_subs d)"
  proof (rule nth_equalityI)
    fix i assume "i < length (map (names_of (al_rids L)) ((dv_subs d)[k := r]))"
    then show "map (names_of (al_rids L)) ((dv_subs d)[k := r]) ! i = map (names_of (al_rids L)) (dv_subs d) ! i"
      by (cases "i = k") (simp_all add: assms(9))
  qed simp
  then show ?thesis by (intro quietI) (simp_all add: dnames_def assms)
qed

lemma setNumber_names: "names_of ds (snd (rs_setNumber ds now s n force r)) = names_of ds r"
proof (cases "rs_item ds s r")
  case (Some i)
  obtain ok j where j: "ri_setNumber ds now n SourceUnknown i = (ok, j)" by fastforce
  then have "ri_suffix ds j = s" using setNumber_suffix [OF j] item_suffix [OF Some] by simp
  then show ?thesis using names_update [of ds s "\<lambda>_. j" r] by (simp add: rs_setNumber_def Some j)
qed (simp add: rs_setNumber_def)

lemma checkReachable_one_quiet: "quiet L d (checkReachable_one L now b k d)"
proof -
  define s where "s = (if rs_item (al_rids L) RConfigReachable (dv_subs d ! k) \<noteq> None then RConfigReachable else RStateReachable)"
  obtain ch r where r: "rs_setNumber (al_rids L) now s (bool_num b) False (dv_subs d ! k) = (ch, r)" by fastforce
  have n: "names_of (al_rids L) r = names_of (al_rids L) (dv_subs d ! k)"
    using setNumber_names [of "al_rids L" now s "bool_num b" False "dv_subs d ! k"] by (simp add: r)
  have m: "names_of (al_rids L) (rs_update (al_rids L) s ri_setNeedStore r) = names_of (al_rids L) (dv_subs d ! k)"
    by (subst names_update) (simp_all add: n)
  have e: "checkReachable_one L now b k d = (case rs_item (al_rids L) s (dv_subs d ! k) of None \<Rightarrow> d
      | Some item \<Rightarrow> if ri_toBool item \<noteq> b \<or> ri_lastSet item = None
          then (if ch then dev_do (FX_DidSetValue k s) d else d)\<lparr>dv_subs := (dv_subs d)[k := rs_update (al_rids L) s ri_setNeedStore r]\<rparr> else d)"
    unfolding checkReachable_one_def Let_def s_def [symmetric] r by (simp add: dev_do_def split: option.split)
  have "quiet L d ((if ch then dev_do (FX_DidSetValue k s) d else d)\<lparr>dv_subs := (dv_subs d)[k := rs_update (al_rids L) s ri_setNeedStore r]\<rparr>)"
    by (rule subs_quiet [where k = k, OF _ _ _ _ _ _ _ _ m]) (simp_all add: dev_do_def)
  then show ?thesis by (cases ch) (simp_all add: e split: option.split)
qed

lemma fold_quiet: "(\<And>x d. quiet L d (f x d)) \<Longrightarrow> quiet L d (fold f xs d)"
proof (induction xs arbitrary: d)
  case (Cons x xs)
  have "quiet L (f x d) (fold f xs (f x d))" by (rule Cons.IH) (rule Cons.prems)
  then show ?case using quiet_trans [OF Cons.prems] by simp
qed simp

lemma CheckReachable_quiet: "base_ok L d \<Longrightarrow> ends (DEV_CheckReachable L env d) (quiet L d)"
  using reachable_ends [of L d env] fold_quiet [of L "checkReachable_one L (de_now env) _" d "dv_subResources d", OF checkReachable_one_quiet]
  by (auto simp: DEV_CheckReachable_def)

lemma reachable_ok: "base_ok L d \<Longrightarrow> (\<And>b. ends (f b) Q) \<Longrightarrow> ends (dev_reachable L env d \<bind> f) Q"
  using reachable_ends [of L d env] by auto

lemma item_ok: "base_ok L d \<Longrightarrow> s \<in> need_items \<Longrightarrow> (\<And>i. dev_item L s d = Some i \<Longrightarrow> ends (f i) Q) \<Longrightarrow> ends (dev_item L s d \<bind> f) Q"
  using item_exists [of L d s] by auto

lemma core_ok: "dv_node d \<Longrightarrow> ends (f (de_node env)) Q \<Longrightarrow> ends (dev_core env d \<bind> f) Q"
  by (simp add: dev_core_def)

lemma quiet_bind:
  assumes "ends x (quiet L d)" "\<And>d'. quiet L d d' \<Longrightarrow> ends (f d') Q"
  shows "ends (x \<bind> f) Q"
  using assms by (rule ends_bind)

lemma quiet_same: "quiet L d d' \<Longrightarrow> weak_ok l L d \<Longrightarrow> weak_ok l L d' \<and> base_ok L d'"
  using quiet_weak [of L d d' l] by (simp add: weak_base)

lemma quiet_weakD: "quiet L d d' \<Longrightarrow> weak_ok l L d \<Longrightarrow> weak_ok l L d'"
  by (simp add: quiet_weak)

end
