(* ===== verification/Device_Level0.thy ===== *)
theory Device_Level0
  imports Device_Frame
begin

text \<open>
  The handlers of level 0 but the idle state: each keeps the invariant and has a value, whatever it is run with.
\<close>

section \<open>The interview\<close>

lemma to_init_ok: "weak_ok StateLevel0 L d \<Longrightarrow> dev_ok L (dev_setState DEV_InitStateHandler StateLevel0 d)"
  by (rule to_state0_ok) (simp_all add: dev_sets needs_node_def)

lemma zdp_send0_ok:
  assumes "weak_ok StateLevel0 L d" "dv_state d StateLevel0 = Some s" "s \<in> dev_waits"
  shows "dev_ok L (zdp_send env req StateLevel0 DEV_InitStateHandler d)"
proof -
  have q: "quiet L d (dev_do (FX_Zdp req) (d\<lparr>dv_zdpResult := de_zdp env req\<rparr>))"
    by (rule quietI) (simp_all add: dev_do_def dnames_def)
  note w = quiet_weakD [OF q assms(1)]
  have "s \<noteq> DEV_GetDeviceDescriptionHandler" "s \<noteq> DEV_IdleStateHandler" using assms(3) by (auto simp: dev_sets)
  then show ?thesis using start0_ok [OF w] to_init_ok [OF w] assms(2) by (simp add: zdp_send_def Let_def quiet_fields [OF q])
qed

lemma aps_confirm0_ok:
  assumes "dev_ok L d" "dv_state d StateLevel0 = Some s" "s \<in> dev_waits"
  shows "dev_ok L (aps_confirm env r StateLevel0 DEV_InitStateHandler e d)"
proof -
  note w = ok_weak [OF assms(1), of StateLevel0]
  have "s \<noteq> DEV_GetDeviceDescriptionHandler" "s \<noteq> DEV_IdleStateHandler" using assms(3) by (auto simp: dev_sets)
  then show ?thesis using assms start0_ok [OF stop_weak [OF w]] to_init_ok [OF w] by (simp add: aps_confirm_def)
qed

lemma runs_node:
  assumes "runs StateLevel0 L e h d" "h \<in> needs_node"
  shows "dv_node d"
  using assms viewE(5) [OF weak_base] by (auto simp: runs_def)

lemma enqueue_ok [simp]: "dev_ok L (DEV_EnqueueEvent s d) = dev_ok L d"
  by (rule quiet_ok) simp

text \<open>The next state of the interview, and asking the device unless it is unreachable.\<close>

lemma advance_ok:
  assumes "weak_ok StateLevel0 L d" "dv_state d StateLevel0 = Some s" "s \<in> dev_waits" "h \<in> dev_main" "h \<noteq> s" "dv_node d"
  shows "dev_ok L (dev_setState h StateLevel0 d)"
  by (rule to_state0_ok) (use assms in auto)

lemma ask_ok:
  assumes w: "weak_ok StateLevel0 L d" and s: "dv_state d StateLevel0 = Some s" "s \<in> dev_waits"
  shows "ends (dev_reachable L env d \<bind> (\<lambda>reachable. if \<not> reachable then Some (dev_setState DEV_InitStateHandler StateLevel0 d)
    else Some (zdp_send env req StateLevel0 DEV_InitStateHandler d))) (dev_ok L)"
  by (rule reachable_ok [OF weak_base [OF w]]) (simp add: to_init_ok [OF w] zdp_send0_ok [OF w s])

lemma nodeDescriptor_ok:
  assumes r: "runs StateLevel0 L e DEV_NodeDescriptorStateHandler d"
  shows "ends (dev_nodeDescriptor L env e d) (dev_ok L)"
proof -
  have h: "DEV_NodeDescriptorStateHandler \<in> dev_waits" by (simp add: dev_sets)
  have n: "dv_node d" using r runs_node by (auto simp: needs_node_def dev_sets)
  from r have w: "weak_ok StateLevel0 L d" and st: "dv_state d StateLevel0 = Some DEV_NodeDescriptorStateHandler"
    and ev: "ev_what e \<noteq> REventStateLeave" "ev_what e = REventStateEnter \<or> ev_what e = REventStateTimeout \<or> dev_ok L d" by (auto simp: runs_def)
  have next_ok: "dev_ok L (dev_setState DEV_ActiveEndpointsStateHandler StateLevel0 d')" if "weak_ok StateLevel0 L d'" "dv_state d' = dv_state d" "dv_node d'" for d'
    by (rule advance_ok [OF that(1) _ h]) (use that st in \<open>auto simp: dev_sets\<close>)
  have enter: "ends (nodeDescriptor_enter L env d) (dev_ok L)"
  proof -
    define d1 where "d1 = d\<lparr>dv_maxResponseTime := (if cn_receiverOnWhenIdle (de_node env) then RxOnWhenIdleResponseTime else RxOffWhenIdleResponseTime)\<rparr>"
    have q1: "quiet L d d1" by (rule quietI) (simp_all add: d1_def dnames_def)
    have w1: "weak_ok StateLevel0 L d1" by (rule quiet_weakD [OF q1 w])
    have go: "ends (dev_setNumber L now RCapSleeper x d1 \<bind> (\<lambda>d. Some (dev_setState DEV_ActiveEndpointsStateHandler StateLevel0 d))) (dev_ok L)" for now x
      by (rule ends_bind [OF setNumber_quiet [OF weak_base [OF w1]]])
        (use quiet_fields [OF q1] n in \<open>auto simp: need_items_def quiet_fields intro!: next_ok quiet_weakD [OF _ w1]\<close>)
    have a: "ends (dev_item L RCapSleeper d1 \<bind> (\<lambda>cap. (if ri_lastSet cap = None \<or> ri_toBool cap \<noteq> b then dev_setNumber L now RCapSleeper x d1 else Some d1) \<bind>
        (\<lambda>d. Some (dev_setState DEV_ActiveEndpointsStateHandler StateLevel0 d)))) (dev_ok L)" for b now x
      by (rule item_ok [OF weak_base [OF w1]])
        (use go next_ok [OF w1] quiet_fields [OF q1] n in \<open>auto simp: need_items_def\<close>)
    show ?thesis unfolding nodeDescriptor_enter_def
      by (intro core_ok [OF n]) (use a [of "\<not> cn_receiverOnWhenIdle (de_node env)"] ask_ok [OF w st h] in \<open>simp add: Let_def flip: d1_def\<close>)
  qed
  show ?thesis using ev enter to_init_ok [OF w] aps_confirm0_ok [OF _ st h] event_names by (auto simp: dev_nodeDescriptor_def)
qed

lemma activeEndpoints_ok:
  assumes r: "runs StateLevel0 L e DEV_ActiveEndpointsStateHandler d"
  shows "ends (dev_activeEndpoints L env e d) (dev_ok L)"
proof -
  have h: "DEV_ActiveEndpointsStateHandler \<in> dev_waits" by (simp add: dev_sets)
  have n: "dv_node d" using r runs_node by (auto simp: needs_node_def dev_sets)
  from r have w: "weak_ok StateLevel0 L d" and st: "dv_state d StateLevel0 = Some DEV_ActiveEndpointsStateHandler"
    and ev: "ev_what e \<noteq> REventStateLeave" "ev_what e = REventStateEnter \<or> ev_what e = REventStateTimeout \<or> dev_ok L d" by (auto simp: runs_def)
  have "dev_ok L (dev_setState DEV_SimpleDescriptorStateHandler StateLevel0 d)"
    by (rule advance_ok [OF w st h]) (use n in \<open>simp_all add: dev_sets\<close>)
  then have enter: "ends (activeEndpoints_enter L env d) (dev_ok L)"
    unfolding activeEndpoints_enter_def by (intro core_ok [OF n]) (use ask_ok [OF w st h] in simp)
  have q: "quiet L d (d\<lparr>dv_needReadActiveEndpoints := False\<rparr>)" by (rule quietI) (simp_all add: dnames_def)
  show ?thesis using ev enter to_init_ok [OF w] to_init_ok [OF quiet_weakD [OF q w]] aps_confirm0_ok [OF _ st h] event_names
    by (auto simp: dev_activeEndpoints_def)
qed

lemma simpleDescriptor_ok:
  assumes r: "runs StateLevel0 L e DEV_SimpleDescriptorStateHandler d"
  shows "ends (dev_simpleDescriptor L env e d) (dev_ok L)"
proof -
  have h: "DEV_SimpleDescriptorStateHandler \<in> dev_waits" by (simp add: dev_sets)
  have n: "dv_node d" using r runs_node by (auto simp: needs_node_def dev_sets)
  from r have w: "weak_ok StateLevel0 L d" and st: "dv_state d StateLevel0 = Some DEV_SimpleDescriptorStateHandler"
    and ev: "ev_what e \<noteq> REventStateLeave" "ev_what e = REventStateEnter \<or> ev_what e = REventStateTimeout \<or> dev_ok L d" by (auto simp: runs_def)
  have q: "quiet L d (d\<lparr>dv_needReadSimpleDescriptors := False, dv_zdpNeedFetchEndpointIndex := 0xFF\<rparr>)" by (rule quietI) (simp_all add: dnames_def)
  have "dev_ok L (dev_setState DEV_BasicClusterStateHandler StateLevel0 (d\<lparr>dv_needReadSimpleDescriptors := False, dv_zdpNeedFetchEndpointIndex := 0xFF\<rparr>))"
    by (rule advance_ok [OF quiet_weakD [OF q w] _ h]) (use n st in \<open>simp_all add: dev_sets\<close>)
  then have enter: "ends (simpleDescriptor_enter L env d) (dev_ok L)"
    unfolding simpleDescriptor_enter_def Let_def by (intro core_ok [OF n]) (use ask_ok [OF w st h] in simp)
  have q2: "quiet L d (d\<lparr>dv_zdpNeedFetchEndpointIndex := k\<rparr>)" for k by (rule quietI) (simp_all add: dnames_def)
  have c: "dev_core env d = Some (de_node env)" using n by (simp add: dev_core_def)
  have fetched: "ends ((if dv_needReadSimpleDescriptors d then do {
               node \<leftarrow> dev_core env d;
               Some (if unat (dv_zdpNeedFetchEndpointIndex d) < length (cn_endpoints node)
                     then d\<lparr>dv_zdpNeedFetchEndpointIndex := dv_zdpNeedFetchEndpointIndex d + 1\<rparr> else d) }
             else Some d) \<bind> (\<lambda>d. Some (DEV_EnqueueEvent REventAwake (dev_setState DEV_InitStateHandler StateLevel0 d)))) (dev_ok L)"
    using to_init_ok [OF w] to_init_ok [OF quiet_weakD [OF q2 w]] by (simp add: c)
  show ?thesis using ev enter fetched to_init_ok [OF w] aps_confirm0_ok [OF _ st h] event_names
    by (auto simp: dev_simpleDescriptor_def simp del: bind.bind_lunit)
qed

text \<open>The attributes of the basic cluster.\<close>

lemma quiet_base': "quiet L d d' \<Longrightarrow> base_ok L d \<Longrightarrow> base_ok L d'"
  by (simp add: quiet_base)

lemma fill_from_subs_quiet:
  assumes "base_ok L d" "s \<in> need_items"
  shows "ends (fill_from_subs L now s rs d) (\<lambda>x. quiet L d (snd x))"
  using assms
proof (induction rs arbitrary: d)
  case (Cons r rs)
  have step: "ends (dev_setVariant L now s v d \<bind> (\<lambda>(ok, d). if ok then Some (True, d) else fill_from_subs L now s rs d)) (\<lambda>x. quiet L d (snd x))" for v
  proof (rule ends_bind [OF setVariant_quiet [OF Cons.prems]])
    fix x :: "bool \<times> 'a device" assume q: "quiet L d (snd x)"
    have "ends (fill_from_subs L now s rs (snd x)) (\<lambda>y. quiet L d (snd y))"
      by (rule ends_mono [OF Cons.IH [OF quiet_base' [OF q Cons.prems(1)] Cons.prems(2)]]) (rule quiet_trans [OF q])
    then show "ends (case x of (ok, d) \<Rightarrow> if ok then Some (True, d) else fill_from_subs L now s rs d) (\<lambda>x. quiet L d (snd x))"
      using q by (cases x) simp
  qed
  show ?case using step Cons.IH [OF Cons.prems] by (simp split: option.split)
qed simp

lemma fill_from_node_quiet:
  assumes "base_ok L d" "s \<in> need_items"
  shows "ends (fill_from_node L now s cl at sds d) (\<lambda>x. quiet L d (snd x))"
  using assms
proof (induction sds arbitrary: d)
  case (Cons r rs)
  have step: "ends (dev_setVariant L now s v d \<bind> (\<lambda>(ok, d). if ok then Some (True, d) else fill_from_node L now s cl at rs d)) (\<lambda>x. quiet L d (snd x))" for v
  proof (rule ends_bind [OF setVariant_quiet [OF Cons.prems]])
    fix x :: "bool \<times> 'a device" assume q: "quiet L d (snd x)"
    have "ends (fill_from_node L now s cl at rs (snd x)) (\<lambda>y. quiet L d (snd y))"
      by (rule ends_mono [OF Cons.IH [OF quiet_base' [OF q Cons.prems(1)] Cons.prems(2)]]) (rule quiet_trans [OF q])
    then show "ends (case x of (ok, d) \<Rightarrow> if ok then Some (True, d) else fill_from_node L now s cl at rs d) (\<lambda>x. quiet L d (snd x))"
      using q by (cases x) simp
  qed
  show ?case using step Cons.IH [OF Cons.prems] by (simp split: option.split)
qed simp

lemma FillSubdevices_quiet: "base_ok L d \<Longrightarrow> s \<in> need_items \<Longrightarrow> ends (DEV_FillItemFromSubdevices L env s d) (\<lambda>x. quiet L d (snd x))"
  using item_exists [of L d s] fill_from_subs_quiet [of L d s] by (auto simp: DEV_FillItemFromSubdevices_def)

lemma FillBasicCluster_quiet: "base_ok L d \<Longrightarrow> s \<in> need_items \<Longrightarrow> ends (DEV_FillItemFromBasicCluster L env s cl at d) (\<lambda>x. quiet L d (snd x))"
  using fill_from_node_quiet [of L d s] by (auto simp: DEV_FillItemFromBasicCluster_def split: option.split)

lemma ZclRead_quiet:
  assumes "base_ok L d" "dv_node d"
  shows "ends (DEV_ZclRead L env cl at d) (\<lambda>x. quiet L d (snd x))"
proof -
  obtain i j where i: "dev_item L RAttrExtAddress d = Some i" "dev_item L RAttrNwkAddress d = Some j"
    using item_exists [OF assms(1)] by (fastforce simp: need_items_def)
  have c: "dev_core env d = Some (de_node env)" using assms(2) by (simp add: dev_core_def)
  have q: "quiet L d ((dev_do x d)\<lparr>dv_readResult := r\<rparr>)" for x r by (rule quietI) (simp_all add: dev_do_def dnames_def)
  show ?thesis unfolding DEV_ZclRead_def
    by (rule reachable_ok [OF assms(1)]) (simp add: c i Let_def q split: option.split)
qed

lemma basic_items_quiet:
  assumes "base_ok L d" "dv_node d" "\<forall>x \<in> set its. fst x \<in> need_items"
  shows "ends (basic_items L env its n d) (\<lambda>(reading, n, d'). quiet L d d')"
  using assms
proof (induction its arbitrary: n d)
  case (Cons x its)
  obtain s cl at where x: "x = (s, cl, at)" by (metis prod_cases3)
  have s: "s \<in> need_items" using Cons.prems x by simp
  have rest: "ends (basic_items L env its m d') (\<lambda>(reading, n, d''). quiet L d d'')" if q: "quiet L d d'" for m d'
    by (rule ends_mono [OF Cons.IH [OF quiet_base' [OF q Cons.prems(1)]]]) (use q Cons.prems in \<open>auto simp: quiet_fields intro: quiet_trans\<close>)
  show ?case unfolding x basic_items.simps
  proof (rule ends_bind [OF FillSubdevices_quiet [OF Cons.prems(1) s]], clarify)
    fix ok d1 assume "quiet L d (snd (ok :: bool, d1))"
    then have q1: "quiet L d d1" by simp
    note b1 = quiet_base' [OF q1 Cons.prems(1)]
    show "ends (if ok then basic_items L env its (n + 1) d1 else DEV_FillItemFromBasicCluster L env s cl at d1 \<bind>
        (\<lambda>(ok, d). if ok then basic_items L env its (n + 1) d else dev_item L s d \<bind> (\<lambda>_. DEV_ZclRead L env cl at d \<bind> (\<lambda>(reading, d). Some (reading, n, d)))))
        (\<lambda>(reading, n, d''). quiet L d d'')"
    proof (cases ok)
      case False
      have "ends (DEV_FillItemFromBasicCluster L env s cl at d1 \<bind>
        (\<lambda>(ok, d). if ok then basic_items L env its (n + 1) d else dev_item L s d \<bind> (\<lambda>_. DEV_ZclRead L env cl at d \<bind> (\<lambda>(reading, d). Some (reading, n, d)))))
        (\<lambda>(reading, n, d''). quiet L d d'')"
      proof (rule ends_bind [OF FillBasicCluster_quiet [OF b1 s]], clarify)
        fix ok d2 assume "quiet L d1 (snd (ok :: bool, d2))"
        then have q2: "quiet L d d2" using quiet_trans [OF q1] by simp
        note b2 = quiet_base' [OF q2 Cons.prems(1)]
        have n2: "dv_node d2" using Cons.prems(2) by (simp add: quiet_fields [OF q2])
        have "ends (dev_item L s d2 \<bind> (\<lambda>_. DEV_ZclRead L env cl at d2 \<bind> (\<lambda>(reading, d). Some (reading, n, d)))) (\<lambda>(reading, n, d''). quiet L d d'')"
          by (rule item_ok [OF b2 s]) (auto intro!: ends_bind [OF ZclRead_quiet [OF b2 n2]] intro: quiet_trans [OF q2])
        then show "ends (if ok then basic_items L env its (n + 1) d2 else dev_item L s d2 \<bind> (\<lambda>_. DEV_ZclRead L env cl at d2 \<bind> (\<lambda>(reading, d). Some (reading, n, d))))
            (\<lambda>(reading, n, d''). quiet L d d'')"
          using rest [OF q2] by simp
      qed
      then show ?thesis using False by simp
    qed (use rest [OF q1] in simp)
  qed
qed simp

lemma basicCluster_ok:
  assumes r: "runs StateLevel0 L e DEV_BasicClusterStateHandler d"
  shows "ends (dev_basicCluster L env e d) (dev_ok L)"
proof -
  have h: "DEV_BasicClusterStateHandler \<in> dev_waits" by (simp add: dev_sets)
  have n: "dv_node d" using r runs_node by (auto simp: needs_node_def dev_sets)
  from r have w: "weak_ok StateLevel0 L d" and st: "dv_state d StateLevel0 = Some DEV_BasicClusterStateHandler"
    and ev: "ev_what e \<noteq> REventStateLeave" "ev_what e = REventStateEnter \<or> ev_what e = REventStateTimeout \<or> dev_ok L d" by (auto simp: runs_def)
  have enter: "ends (basicCluster_enter L env d) (dev_ok L)"
    unfolding basicCluster_enter_def
  proof (rule ends_bind [OF basic_items_quiet], goal_cases)
    case (4 y)
    obtain reading ok d' where y: "y = (reading, ok, d')" by (metis prod_cases3)
    have q: "quiet L d d'" using 4 quiet_trans [OF quiet_subDevices] by (simp add: y)
    note w' = quiet_weakD [OF q w] and f = quiet_fields [OF q]
    have "dev_ok L (dev_setState DEV_GetDeviceDescriptionHandler StateLevel0 d')"
      by (rule to_state0_ok [OF w']) (use st n h in \<open>auto simp: f dev_sets\<close>)
    moreover have "dev_ok L (dev_startStateTimer MaxConfirmTimeout StateLevel0 d')" by (rule start0_ok [OF w']) (simp_all add: f st)
    ultimately show ?case using to_init_ok [OF w'] by (simp add: y)
  qed (use quiet_base' [OF quiet_subDevices weak_base [OF w]] n in \<open>simp_all add: basic_list_def need_items_def dev_subDevices_def\<close>)
  show ?thesis using ev enter to_init_ok [OF w] aps_confirm0_ok [OF _ st h] event_names by (auto simp: dev_basicCluster_def)
qed

text \<open>The description.\<close>

lemma publish_quiet: "quiet L d (publish_items L r its d)"
proof (induction its arbitrary: d)
  case (Cons x its)
  obtain s m where x: "x = (s, m)" by fastforce
  have "quiet L d (case rs_item (al_rids L) s r of None \<Rightarrow> d
      | Some i \<Rightarrow> (let t = ri_toString (al_fmt L) (al_rids L) i in if t \<noteq> [] then DEV_ForwardNodeChange m t d else d))"
    by (simp add: Let_def split: option.split)
  then show ?case unfolding x publish_items.simps by (rule quiet_trans) (rule Cons.IH)
qed simp

lemma PublishToCore_quiet [simp]: "quiet L d (DEV_PublishToCore L d)"
proof -
  have "quiet L d (publish_items L r its (dev_subDevices d))" for r its by (rule quiet_trans [OF quiet_subDevices publish_quiet])
  then show ?thesis by (simp add: DEV_PublishToCore_def Let_def del: publish_items.simps split: list.split)
qed

lemma addItem_names: "set (names_of ds r) \<subseteq> set (names_of ds (snd (rs_addItem ds t s r)))"
  by (auto simp: rs_addItem_def names_of_def split: option.split)

lemma zone_ok:
  assumes w: "weak_ok l L d"
    and d': "d' = (case rs_addItem (al_rids L) DataTypeUInt16 s (dv_res d) of (ok, r) \<Rightarrow> d\<lparr>dv_res := (if ok then rs_update (al_rids L) s (ri_setIsPublic False) r else r)\<rparr>)"
  shows "weak_ok l L d'"
proof -
  obtain ok r where a: "rs_addItem (al_rids L) DataTypeUInt16 s (dv_res d) = (ok, r)" by fastforce
  have n: "set (names_of (al_rids L) (dv_res d)) \<subseteq> set (names_of (al_rids L) (dv_res d'))"
    using addItem_names [of "al_rids L" "dv_res d" DataTypeUInt16 s] by (simp add: d' a names_update)
  have f: "dv_state d' = dv_state d" "dv_lock d' = dv_lock d" "dv_timer d' = dv_timer d" "dv_node d' = dv_node d" "dv_pollItems d' = dv_pollItems d"
    "dv_binding d' = dv_binding d" "dv_subs d' = dv_subs d" by (simp_all add: d' a)
  note b = viewE [OF weak_base [OF w]]
  have "base_ok L d'" by (rule baseI) (use b n in \<open>auto simp: f names_ok_def dnames_def\<close>)
  moreover have "entered L m d'" if "entered L m d" for m using that entered_cong [of d' m d L] by (simp add: f)
  ultimately show ?thesis using w by (simp add: weak_ok_def f)
qed

lemma getDescription_ok:
  assumes r: "runs StateLevel0 L e DEV_GetDeviceDescriptionHandler d"
  shows "ends (dev_getDescription L env e d) (dev_ok L)"
proof -
  have n: "dv_node d" using r runs_node by (auto simp: needs_node_def)
  from r have w: "weak_ok StateLevel0 L d" and st: "dv_state d StateLevel0 = Some DEV_GetDeviceDescriptionHandler" by (auto simp: runs_def)
  have p: "DEV_GetDeviceDescriptionHandler \<notin> dev_waits \<union> binding_waits \<union> poll_waits" by (simp add: dev_sets)
  have ok: "dev_ok L d'" if "weak_ok StateLevel0 L d'" "dv_state d' = dv_state d" for d' by (rule passive_ok [OF that(1) _ p]) (simp add: that st)
  have t0: "dv_timer d StateLevel0 = None" using viewE(3) [OF weak_base [OF w]] st by (simp add: timers_ok_def)
  have q: "quiet L d (DEV_PublishToCore L d)" by simp
  have q1: "quiet L d ((DEV_PublishToCore L d)\<lparr>dv_managed := b, dv_hasDdf := c\<rparr>)" for b c
    by (rule quiet_trans [OF q]) (rule quietI, simp_all add: dnames_def)
  have idle: "dev_ok L (dev_setState DEV_IdleStateHandler StateLevel0 ((DEV_PublishToCore L d)\<lparr>dv_managed := b, dv_hasDdf := c\<rparr>))" for b c
    by (rule to_state0_ok [OF quiet_weakD [OF q1 w]]) (use quiet_fields [OF q] st n t0 in \<open>simp_all add: dev_sets\<close>)
  have dead: "dev_ok L (dev_setState DEV_DeadStateHandler StateLevel0 ((DEV_PublishToCore L d)\<lparr>dv_managed := b, dv_hasDdf := c\<rparr>))" for b c
    by (rule to_state0_ok [OF quiet_weakD [OF q1 w]]) (simp_all add: dev_sets needs_node_def)
  have fwd: "dev_ok L (DEV_ForwardNodeChange k v x) = dev_ok L x" for k v x by (rule quiet_ok) simp
  have enter: "ends (dev_getDescription L env e d) (dev_ok L)" if "ev_what e = REventStateEnter"
  proof -
    define d1 where "d1 = (if DEV_GetSimpleDescriptorForServerCluster (de_node env) 0x0500 \<noteq> None then
                   (case rs_addItem (al_rids L) DataTypeUInt16 RAttrZoneType (dv_res d) of
                      (ok, r) \<Rightarrow> d\<lparr>dv_res := (if ok then rs_update (al_rids L) RAttrZoneType (ri_setIsPublic False) r else r)\<rparr>)
                 else d)"
    have "weak_ok StateLevel0 L d1" using zone_ok [OF w refl, of RAttrZoneType] w by (simp add: d1_def)
    moreover have "dv_state d1 = dv_state d" by (simp add: d1_def split: prod.split)
    ultimately have "dev_ok L d1" by (rule ok)
    then show ?thesis using that n
      by (cases "DEV_GetSimpleDescriptorForServerCluster (de_node env) 0x0500 = None") (simp_all add: dev_getDescription_def dev_core_def Let_def d1_def)
  qed
  show ?thesis
  proof (cases "ev_what e = REventStateEnter")
    case False
    then show ?thesis using idle dead ok [OF w] by (simp add: dev_getDescription_def Let_def fwd)
  qed (rule enter)
qed

section \<open>The states that only listen\<close>

lemma dead_address_quiet:
  assumes "base_ok L d"
  shows "ends (dead_address L env d) (quiet L d)"
proof (cases "dv_node d")
  case True
  have sync: "ends (dev_syncNumber L now s x d') (quiet L d)" if "quiet L d d'" "s \<in> need_items" for now s x d'
    by (rule ends_mono [OF syncNumber_quiet [OF quiet_base' [OF that(1) assms] that(2)]]) (rule quiet_trans [OF that(1)])
  have first: "ends (if cn_hasExt (de_node env) then dev_syncNumber L (de_now env) RAttrExtAddress (cn_ext (de_node env)) d else Some d) (quiet L d)"
    using sync by (simp add: need_items_def)
  show ?thesis
  proof -
    have "ends ((if cn_hasExt (de_node env) then dev_syncNumber L (de_now env) RAttrExtAddress (cn_ext (de_node env)) d else Some d) \<bind>
        (\<lambda>d. dev_item L RAttrNwkAddress d \<bind> (\<lambda>nwk.
          if cn_hasNwk (de_node env) then
            dev_syncNumber L (de_now env) RAttrNwkAddress (ucast (cn_nwk (de_node env))) (dev_write L RAttrNwkAddress (ri_setIsPublic True nwk) d)
          else Some (if ri_lastSet nwk = None then dev_write L RAttrNwkAddress (ri_setIsPublic False nwk) d else d)))) (quiet L d)"
    proof (rule quiet_bind [OF first])
      fix d1 assume q: "quiet L d d1"
      note b = quiet_base' [OF q assms]
      show "ends (dev_item L RAttrNwkAddress d1 \<bind> (\<lambda>nwk.
          if cn_hasNwk (de_node env) then
            dev_syncNumber L (de_now env) RAttrNwkAddress (ucast (cn_nwk (de_node env))) (dev_write L RAttrNwkAddress (ri_setIsPublic True nwk) d1)
          else Some (if ri_lastSet nwk = None then dev_write L RAttrNwkAddress (ri_setIsPublic False nwk) d1 else d1))) (quiet L d)"
      proof (rule item_ok [OF b])
        fix i assume "dev_item L RAttrNwkAddress d1 = Some i"
        then have "quiet L d (dev_write L RAttrNwkAddress (ri_setIsPublic x i) d1)" for x by (rule quiet_trans [OF q quiet_public])
        then show "ends (if cn_hasNwk (de_node env) then
            dev_syncNumber L (de_now env) RAttrNwkAddress (ucast (cn_nwk (de_node env))) (dev_write L RAttrNwkAddress (ri_setIsPublic True i) d1)
          else Some (if ri_lastSet i = None then dev_write L RAttrNwkAddress (ri_setIsPublic False i) d1 else d1)) (quiet L d)"
          using sync q by (simp add: need_items_def)
      qed (simp add: need_items_def)
    qed
    then show ?thesis using True by (simp add: dead_address_def dev_core_def)
  qed
qed (simp add: dead_address_def dev_core_def)

lemma dead_ok:
  assumes r: "runs StateLevel0 L e DEV_DeadStateHandler d"
  shows "ends (dev_dead L env e d) (dev_ok L)"
proof -
  from r have w: "weak_ok StateLevel0 L d" and st: "dv_state d StateLevel0 = Some DEV_DeadStateHandler" by (auto simp: runs_def)
  have ok: "dev_ok L d" by (rule passive_ok [OF w st]) (simp add: dev_sets)
  have l: "dev_ok L d'" if "quiet L d d'" for d' using quiet_ok [OF that] ok by simp
  have p: "quiet L d d' \<Longrightarrow> quiet L d (dev_do FX_PollLegacy d')" for d' using quiet_trans [OF _ quiet_do] by blast
  have "ends (dead_address L env d \<bind> (\<lambda>d. Some (if dv_node d \<and> cn_isCoordinator (de_node env) then d else dev_do FX_PollLegacy d))) (dev_ok L)"
    by (rule quiet_bind [OF dead_address_quiet [OF weak_base [OF w]]]) (simp add: l p)
  then show ?thesis using ok to_init_ok [OF w] by (simp add: dev_dead_def)
qed

lemma zgp_ok:
  assumes r: "runs StateLevel0 L e DEV_ZgpStateHandler d"
  shows "ends (dev_zgp L env e d) (dev_ok L)"
proof -
  from r have w: "weak_ok StateLevel0 L d" and st: "dv_state d StateLevel0 = Some DEV_ZgpStateHandler" by (auto simp: runs_def)
  have ok: "dev_ok L d" by (rule passive_ok [OF w st]) (simp add: dev_sets)
  have l: "dev_ok L d'" if "quiet L d d'" for d' using quiet_ok [OF that] ok by simp
  define d1 where "d1 = (case dev_item L RAttrNwkAddress d of Some i \<Rightarrow> dev_write L RAttrNwkAddress (ri_setIsPublic False i) d | None \<Rightarrow> d)"
  have q1: "quiet L d d1" using quiet_public by (auto simp: d1_def split: option.split)
  have q2: "quiet L d1 (dev_write L RCapSleeper (snd (ri_setNumber (al_rids L) now n src i)) d1)" if "dev_item L RCapSleeper d1 = Some i" for i now n src
    using that item_suffix [of "al_rids L" RCapSleeper "dv_res d1" i] by (intro quiet_write [of L RCapSleeper d1 i]) (simp_all add: dev_item_def setNumber_suffix')
  show ?thesis using ok l [OF q1] l [OF quiet_trans [OF q1 q2]] by (simp add: dev_zgp_def Let_def flip: d1_def split: option.split)
qed

section \<open>Init\<close>

lemma syncNumber_from:
  assumes "base_ok L d0" "quiet L d0 d" "s \<in> need_items"
  shows "ends (dev_syncNumber L now s n d) (quiet L d0)"
  by (rule ends_mono [OF syncNumber_quiet [OF quiet_base' [OF assms(2,1)] assms(3)]]) (rule quiet_trans [OF assms(2)])

lemma init_run_ok:
  assumes w: "weak_ok StateLevel0 L d" and st: "dv_state d StateLevel0 = Some DEV_InitStateHandler"
  shows "ends (init_run L env d) (dev_ok L)"
proof -
  define d1 where "d1 = (let d = d\<lparr>dv_initialRun := False, dv_binding := (dv_binding d)\<lparr>bc_bindingCheckRound := 0\<rparr>\<rparr> in
      if \<not> dv_node d then d\<lparr>dv_node := de_hasNode env\<rparr> else d)"
  have f: "dv_state d1 = dv_state d" "dv_lock d1 = dv_lock d" "dv_timer d1 = dv_timer d" "dv_pollItems d1 = dv_pollItems d"
    "bshape (dv_binding d1) = bshape (dv_binding d)" "dv_res d1 = dv_res d" "dv_subs d1 = dv_subs d" by (simp_all add: d1_def Let_def bshape_def)
  note b = viewE [OF weak_base [OF w]]
  have "base_ok L d1" by (rule baseI) (use b st in \<open>auto simp: f dnames_cong [OF f(6,7)] needs_node_def dev_sets\<close>)
  then have w1: "weak_ok StateLevel0 L d1" using w entered_cong [of d1 _ d L] by (simp add: weak_ok_def f)
  have ok: "dev_ok L d'" if "quiet L d1 d'" for d'
    by (rule passive_ok [OF quiet_weakD [OF that w1], of DEV_InitStateHandler]) (simp_all add: quiet_fields [OF that] f st dev_sets)
  have nd: "dev_ok L (dev_setState DEV_NodeDescriptorStateHandler StateLevel0 d')" if "quiet L d1 d'" "dv_node d1" for d'
    by (rule to_state0_ok [OF quiet_weakD [OF that(1) w1]]) (use that in \<open>simp_all add: quiet_fields [OF that(1)] f st dev_sets\<close>)
  have zgp: "dev_ok L (dev_setState DEV_ZgpStateHandler StateLevel0 d1)"
    by (rule to_state0_ok [OF w1]) (simp_all add: f st dev_sets needs_node_def)
  have "ends (do {
       d \<leftarrow> dev_syncNumber L (de_now env) RAttrExtAddress (cn_ext (de_node env)) d1;
       d \<leftarrow> dev_syncNumber L (de_now env) RAttrNwkAddress (ucast (cn_nwk (de_node env))) d;
       go \<leftarrow> (if \<not> cn_nodeDescriptorNull (de_node env) then Some True else dev_reachable L env d);
       Some (if go then dev_setState DEV_NodeDescriptorStateHandler StateLevel0 d else d) }) (dev_ok L)" if n: "dv_node d1"
  proof (rule quiet_bind [OF syncNumber_quiet [OF weak_base [OF w1]]], goal_cases)
    case (2 d2)
    show ?case
    proof (rule quiet_bind [OF syncNumber_from [OF weak_base [OF w1] 2]], goal_cases)
      case (2 d3)
      obtain r where "dev_reachable L env d3 = Some r" using reachable_ends [OF quiet_base' [OF 2 weak_base [OF w1]]] by blast
      then show ?case using nd [OF 2 n] ok [OF 2] by simp
    qed (simp add: need_items_def)
  qed (simp add: need_items_def)
  then show ?thesis unfolding init_run_def Let_def d1_def [unfolded Let_def, symmetric] using zgp ok [OF quiet_refl] by simp
qed

lemma init_ok:
  assumes r: "runs StateLevel0 L e DEV_InitStateHandler d"
  shows "ends (dev_init L env e d) (dev_ok L)"
proof -
  from r have w: "weak_ok StateLevel0 L d" and st: "dv_state d StateLevel0 = Some DEV_InitStateHandler" and ev: "ev_what e \<noteq> REventStateLeave" by (auto simp: runs_def)
  define d1 where "d1 = (if ev_what e = REventStateEnter then d\<lparr>dv_zdpResult := zdp_none, dv_node := de_hasNode env\<rparr> else d)"
  have f: "dv_state d1 = dv_state d" "dv_lock d1 = dv_lock d" "dv_timer d1 = dv_timer d" "dv_pollItems d1 = dv_pollItems d"
    "dv_binding d1 = dv_binding d" "dv_res d1 = dv_res d" "dv_subs d1 = dv_subs d" by (simp_all add: d1_def)
  note b = viewE [OF weak_base [OF w]]
  have "base_ok L d1" by (rule baseI) (use b st in \<open>auto simp: f dnames_cong [OF f(6,7)] needs_node_def dev_sets\<close>)
  then have w1: "weak_ok StateLevel0 L d1" using w entered_cong [of d1 _ d L] by (simp add: weak_ok_def f)
  have ok: "dev_ok L d1" by (rule passive_ok [OF w1, of DEV_InitStateHandler]) (simp_all add: f st dev_sets)
  have dead: "dev_ok L (dev_setState DEV_DeadStateHandler StateLevel0 d1)"
    by (rule to_state0_ok [OF w1]) (simp_all add: dev_sets needs_node_def)
  have run: "ends (init_run L env d1) (dev_ok L)" by (rule init_run_ok [OF w1]) (simp add: f st)
  show ?thesis unfolding dev_init_def Let_def d1_def [symmetric] using ev ok dead run by simp
qed

end
