(* ===== verification/Device_Level1.thy ===== *)
theory Device_Level1
  imports Device_Level0
begin

text \<open>
  The handlers of level 1: the current binding exists wherever a state works on it, it has reports where they are
  configured, and a state that waits has its timer running.
\<close>

section \<open>Steps of level 1\<close>

text \<open>To a state that needs no binding, and to one that works on the current binding.\<close>

lemma to_waiting_ok:
  assumes "weak_ok StateLevel1 L d" "dv_state d StateLevel1 = Some s" "h \<in> binding_states" "s \<noteq> h \<or> h \<notin> binding_waits" "h \<notin> binding_current"
  shows "dev_ok L (to_binding h d)"
  by (rule to_binding_ok [OF assms(1,2,3,4)]) (use assms(5) in \<open>auto simp: dev_sets\<close>)

lemma to_DEV_Binding_ok:
  assumes "weak_ok StateLevel1 L d" "dv_state d StateLevel1 = Some s"
  shows "dev_ok L (to_binding DEV_BindingHandler d)"
  by (rule to_waiting_ok [OF assms]) (simp_all add: dev_sets)

lemma zdp_send1_ok:
  assumes w: "weak_ok StateLevel1 L d" "\<not> dv_lock d StateLevel1" and s: "dv_state d StateLevel1 = Some s" "s = DEV_BindingTableReadHandler \<or> s \<in> binding_waits"
    "s \<noteq> DEV_ReadReportConfigurationHandler"
  shows "dev_ok L (zdp_send env req StateLevel1 DEV_BindingHandler d)"
proof -
  have q: "quiet L d (dev_do (FX_Zdp req) (d\<lparr>dv_zdpResult := de_zdp env req\<rparr>))"
    by (rule quietI) (simp_all add: dev_do_def dnames_def)
  note w' = quiet_weakD [OF q w(1)] and f = quiet_fields [OF q]
  have "dev_ok L (dev_startStateTimer t StateLevel1 (dev_do (FX_Zdp req) (d\<lparr>dv_zdpResult := de_zdp env req\<rparr>)))" for t
    by (rule start1_ok [OF w' _ _ s(2)]) (simp_all add: f w s)
  moreover have "dev_ok L (to_binding DEV_BindingHandler (dev_do (FX_Zdp req) (d\<lparr>dv_zdpResult := de_zdp env req\<rparr>)))"
    by (rule to_DEV_Binding_ok [OF w']) (simp add: f s)
  ultimately show ?thesis by (simp add: zdp_send_def Let_def to_binding_def)
qed

lemma aps_confirm1_ok:
  assumes d: "dev_ok L d" "\<not> dv_lock d StateLevel1" and s: "dv_state d StateLevel1 = Some s" "s = DEV_BindingTableReadHandler \<or> s \<in> binding_waits"
  shows "dev_ok L (aps_confirm env r StateLevel1 DEV_BindingHandler e d)"
proof -
  note w = ok_weak [OF d(1), of StateLevel1]
  have cr: "s = DEV_ReadReportConfigurationHandler \<Longrightarrow> cur_reports d"
  proof -
    assume s': "s = DEV_ReadReportConfigurationHandler"
    then have "cur_shape d" using bindings_okE(3) [OF viewE(4) [OF ok_base [OF d(1)]] s(1)] by (simp add: dev_sets)
    moreover have "entered L StateLevel1 d" using d by (simp add: dev_ok_def)
    ultimately show "cur_reports d" using s s' by (simp add: entered_def entered_view_def dev_view_def bshape_def cur_shape_def cur_reports_def)
  qed
  have "dev_ok L (dev_startStateTimer t StateLevel1 (dev_stopStateTimer StateLevel1 d))" for t
    by (rule start1_ok [OF stop_weak [OF w] _ _ s(2)]) (use d s cr in \<open>simp_all add: cur_reports_def\<close>)
  moreover have "dev_ok L (dev_setState DEV_BindingHandler StateLevel1 d)" using to_DEV_Binding_ok [OF w s(1)] by (simp add: to_binding_def)
  ultimately show ?thesis using d(1) by (simp add: aps_confirm_def)
qed

lemma runs1:
  assumes "runs StateLevel1 L e h d"
  shows "weak_ok StateLevel1 L d" "dv_state d StateLevel1 = Some h" "ev_what e \<noteq> REventStateLeave" "dv_node d"
    "ev_what e = REventStateEnter \<or> ev_what e = REventStateTimeout \<or> dev_ok L d"
proof -
  show w: "weak_ok StateLevel1 L d" and s: "dv_state d StateLevel1 = Some h" and "ev_what e \<noteq> REventStateLeave"
    and "ev_what e = REventStateEnter \<or> ev_what e = REventStateTimeout \<or> dev_ok L d" using assms by (auto simp: runs_def)
  note b = viewE [OF weak_base [OF w]]
  have "dv_state d StateLevel0 = Some DEV_IdleStateHandler" using b(2) s by (simp add: states_ok_def)
  then show "dv_node d" using b(5) by (simp add: needs_node_def)
qed

text \<open>Changes of the context that keep its shape, or the shape it has in a state that needs none.\<close>

lemma upd_quiet: "bshape (f (dv_binding d)) = bshape (dv_binding d) \<Longrightarrow> quiet L d (upd_binding f d)"
  by (rule quietI) (simp_all add: upd_binding_def dnames_def)

lemma upd_binding_fields [simp]:
  "dv_state (upd_binding f d) = dv_state d" "dv_lock (upd_binding f d) = dv_lock d" "dv_timer (upd_binding f d) = dv_timer d" "dv_node (upd_binding f d) = dv_node d"
  "dv_pollItems (upd_binding f d) = dv_pollItems d" "dv_binding (upd_binding f d) = f (dv_binding d)" "dv_res (upd_binding f d) = dv_res d" "dv_subs (upd_binding f d) = dv_subs d"
  "dv_key (upd_binding f d) = dv_key d" "dv_zdpResult (upd_binding f d) = dv_zdpResult d" "dv_maxResponseTime (upd_binding f d) = dv_maxResponseTime d"
  by (simp_all add: upd_binding_def)

lemma supported_quiet [simp]: "quiet L d (set_supported m d)"
  unfolding set_supported_def by (rule upd_quiet) (simp add: bshape_def)

lemma upd_weak:
  assumes w: "weak_ok l L d" and l: "l = StateLevel1 \<or> (\<forall>h. dv_state d StateLevel1 = Some h \<longrightarrow> h \<noteq> DEV_ReadReportConfigurationHandler)"
    and b: "bindings_ok (dv_state d StateLevel1) (bshape (f (dv_binding d)))"
  shows "weak_ok l L (upd_binding f d)"
proof -
  note v = viewE [OF weak_base [OF w]]
  have n: "dnames L (upd_binding f d) = dnames L d" by (simp add: dnames_def)
  have "base_ok L (upd_binding f d)" by (rule baseI) (use v b n in auto)
  moreover have "entered L m (upd_binding f d)" if "m \<noteq> l" "entered L m d" for m
    using that l by (cases m) (auto simp: entered_def entered_view_def dev_view_def)
  ultimately show ?thesis using w by (simp add: weak_ok_def)
qed

lemma set_iter_weak:
  assumes "weak_ok StateLevel1 L d" "\<forall>h. dv_state d StateLevel1 = Some h \<longrightarrow> h \<notin> binding_current"
  shows "weak_ok StateLevel1 L (set_bindingIter n d)"
proof -
  have sub: "binding_reports \<subseteq> binding_current" by (auto simp: dev_sets)
  have "bindings_ok (dv_state d StateLevel1) (bshape (dv_binding d))" by (rule viewE(4) [OF weak_base [OF assms(1)]])
  then have "bindings_ok (dv_state d StateLevel1) (bshape ((dv_binding d)\<lparr>bc_bindingIter := n\<rparr>))"
    using assms(2) sub by (auto simp: bindings_ok_def bshape_def)
  then show ?thesis unfolding set_bindingIter_def by (rule upd_weak [OF assms(1), rotated]) simp
qed

section \<open>The handlers of level 1\<close>

lemma binding_ok:
  assumes r: "runs StateLevel1 L e DEV_BindingHandler d"
  shows "ends (dev_binding env e d) (dev_ok L)"
proof -
  note r = runs1 [OF r]
  have ok: "dev_ok L d" by (rule passive_ok [OF r(1,2)]) (simp add: dev_sets)
  have w: "weak_ok StateLevel1 L (set_bindingIter 0 d)" by (rule set_iter_weak [OF r(1)]) (simp add: r dev_sets)
  have "dev_ok L (to_binding h (set_bindingIter 0 d))" if "h = DEV_BindingTableVerifyHandler \<or> h = DEV_BindingTableReadHandler" for h
    by (rule to_waiting_ok [OF w]) (use that r in \<open>auto simp: dev_sets set_bindingIter_def\<close>)
  moreover have "dev_ok L (set_supported m d)" for m using quiet_ok [OF supported_quiet] ok by blast
  ultimately show ?thesis using ok by (simp add: dev_binding_def Let_def)
qed

lemma tableRead_ok:
  assumes r: "runs StateLevel1 L e DEV_BindingTableReadHandler d" and lk: "\<not> dv_lock d StateLevel1"
  shows "ends (dev_bindingTableRead env e d) (dev_ok L)"
proof -
  note r = runs1 [OF r]
  have ok: "dev_ok L d" using weak_entered [OF r(1)] r(2) by (simp add: entered_def entered_view_def dev_view_def dev_sets)
  have q: "quiet L d (upd_binding (\<lambda>b. b\<lparr>bc_mgmtBindStartIndex := k\<rparr>) d)" for k by (rule upd_quiet) (simp add: bshape_def)
  have idx: "dev_ok L (upd_binding (\<lambda>b. b\<lparr>bc_mgmtBindStartIndex := k\<rparr>) d)" for k using quiet_ok [OF q] ok by simp
  have rsp: "dev_ok L (mgmtBind_rsp env e d)"
  proof -
    define d1 where "d1 = set_supported MGMT_BIND_SUPPORTED (dev_stopStateTimer StateLevel1 d)"
    have w1: "weak_ok StateLevel1 L d1" unfolding d1_def by (rule quiet_weakD [OF supported_quiet stop_weak [OF r(1)]])
    have f1: "dv_state d1 = dv_state d" by (simp add: d1_def set_supported_def)
    have "dev_ok L d1" using weak_entered [OF w1] r(2) f1 by (simp add: entered_def entered_view_def dev_view_def dev_sets)
    then have a: "dev_ok L (DEV_EnqueueEvent REventBindingTick (upd_binding (\<lambda>b. b\<lparr>bc_mgmtBindStartIndex := k\<rparr>) d1))" for k
      using quiet_ok [OF upd_quiet, of "\<lambda>b. b\<lparr>bc_mgmtBindStartIndex := k\<rparr>" d1 L] by (simp add: bshape_def)
    have b: "dev_ok L (to_binding DEV_BindingTableVerifyHandler (set_bindingIter 0 d1))"
      by (rule to_waiting_ok [OF set_iter_weak [OF w1]]) (simp_all add: f1 r dev_sets set_bindingIter_def)
    have c: "dev_ok L (to_binding DEV_BindingHandler d)" by (rule to_DEV_Binding_ok [OF r(1,2)])
    have e: "dev_ok L (to_binding DEV_BindingHandler (set_supported m d))" for m
      by (rule to_DEV_Binding_ok [OF quiet_weakD [OF supported_quiet r(1)]]) (simp add: set_supported_def r)
    show ?thesis using ok a b c e
      by (simp add: mgmtBind_rsp_def Let_def split: option.split prod.split flip: d1_def)
  qed
  have send: "dev_ok L (zdp_send env req StateLevel1 DEV_BindingHandler d)" for req
    by (rule zdp_send1_ok [OF r(1) lk r(2)]) simp_all
  have conf: "dev_ok L (aps_confirm env k StateLevel1 DEV_BindingHandler e d)" for k by (rule aps_confirm1_ok [OF ok lk r(2)]) simp
  show ?thesis using r(3,4) ok idx rsp send conf to_DEV_Binding_ok [OF r(1,2)]
    by (simp add: dev_bindingTableRead_def dev_core_def)
qed

lemma tableVerify_next:
  assumes "dev_ok L d" "dv_state d StateLevel1 = Some DEV_BindingTableVerifyHandler"
  shows "dev_ok L (next_binding_tick d)"
proof -
  have w: "weak_ok StateLevel1 L (set_bindingIter n d)" for n by (rule set_iter_weak [OF ok_weak [OF assms(1)]]) (simp add: assms dev_sets)
  have "dev_ok L (set_bindingIter n d)" for n
    by (rule passive_ok [OF w, of _ DEV_BindingTableVerifyHandler]) (simp_all add: set_bindingIter_def assms dev_sets)
  then show ?thesis by (simp add: next_binding_tick_def)
qed

lemma cur_binding_Some: "cur_shape d \<Longrightarrow> cur_binding d = Some (bc_bindings (dv_binding d) ! bc_bindingIter (dv_binding d))"
  by (simp add: cur_binding_def cur_shape_def Let_def)

lemma cur_tBound_Some: "base_ok L d \<Longrightarrow> cur_shape d \<Longrightarrow> cur_tBound d = Some (bc_bindingTrackers (dv_binding d) ! bc_bindingIter (dv_binding d))"
  using bindings_okE(1) [OF viewE(4) [of L d]] by (auto simp: cur_tBound_def cur_shape_def Let_def)

lemma toCore_Some:
  assumes "base_ok L d" "cur_shape d"
  shows "\<exists>c. DEV_ToCoreBinding (bc_bindings (dv_binding d) ! bc_bindingIter (dv_binding d)) k = Some c"
proof -
  have "bc_bindings (dv_binding d) ! bc_bindingIter (dv_binding d) \<in> set (bc_bindings (dv_binding d))" using assms(2) by (simp add: cur_shape_def)
  then show ?thesis using bindings_okE(2) [OF viewE(4) [OF assms(1)]] by (auto simp: DEV_ToCoreBinding_def Let_def)
qed

lemma set_tBound_quiet [simp]: "quiet L d (set_tBound t d)"
  unfolding set_tBound_def by (rule upd_quiet) (simp add: bshape_def)

lemma curBinding_quiet:
  assumes "cur_shape d" "b = bc_bindings (dv_binding d) ! bc_bindingIter (dv_binding d)"
    "bd_isUnicastBinding b' = bd_isUnicastBinding b" "bd_isGroupBinding b' = bd_isGroupBinding b" "bd_reporting b' = bd_reporting b"
  shows "quiet L d (set_curBinding b' d)"
proof -
  have "map g ((bc_bindings (dv_binding d))[bc_bindingIter (dv_binding d) := b']) = map g (bc_bindings (dv_binding d))"
    if "g = (\<lambda>x. (bd_isUnicastBinding x \<or> bd_isGroupBinding x, bd_reporting x \<noteq> []))" for g
    by (subst map_update, subst list_update_same_conv) (use assms that in \<open>auto simp: cur_shape_def\<close>)
  then show ?thesis unfolding set_curBinding_def by (intro upd_quiet) (simp add: bshape_def)
qed

lemma verify_lookup_ok:
  assumes ok: "dev_ok L d" and st: "dv_state d StateLevel1 = Some DEV_BindingTableVerifyHandler" and n: "dv_node d" and cs: "cur_shape d"
  shows "ends (verify_lookup env d) (dev_ok L)"
proof -
  note b = ok_base [OF ok] and w = ok_weak [OF ok, of StateLevel1]
  obtain c where c: "DEV_ToCoreBinding (bc_bindings (dv_binding d) ! bc_bindingIter (dv_binding d)) (dv_key d) = Some c" using toCore_Some [OF b cs] by blast
  have create: "dev_ok L (to_binding DEV_BindingCreateHandler d')" if "quiet L d d'" "cur_shape d'" for d'
    by (rule to_binding_ok [OF quiet_weakD [OF that(1) w], where s = DEV_BindingTableVerifyHandler]) (use that(2) in \<open>simp_all add: quiet_fields [OF that(1)] st dev_sets\<close>)
  have read: "dev_ok L (to_binding DEV_ReadReportConfigurationHandler (upd_binding (\<lambda>b. b\<lparr>bc_configIter := 0, bc_reportIter := 0\<rparr>) d'))" if q: "quiet L d d'" "cur_shape d'" for d'
  proof -
    have "quiet L d (upd_binding (\<lambda>b. b\<lparr>bc_configIter := 0, bc_reportIter := 0\<rparr>) d')" by (rule quiet_trans [OF q(1)], rule upd_quiet) (simp add: bshape_def)
    then show ?thesis by (intro to_binding_ok [OF quiet_weakD [OF _ w], where s = DEV_BindingTableVerifyHandler]) (use q(2) in \<open>simp_all add: quiet_fields [OF q(1)] st dev_sets cur_shape_def\<close>)
  qed
  have tick: "dev_ok L (next_binding_tick d')" if "quiet L d d'" for d' by (rule tableVerify_next) (use quiet_ok [OF that] ok st in \<open>simp_all add: quiet_fields [OF that]\<close>)
  have e: "verify_lookup env d = (case List.find (same_binding c) (cn_bindingTable (de_node env)) of
        None \<Rightarrow> Some (to_binding DEV_BindingCreateHandler d)
      | Some i \<Rightarrow>
          (let tb = bc_bindingTrackers (dv_binding d) ! bc_bindingIter (dv_binding d);
               d = (if tb < cb_confirmed i then set_tBound (cb_confirmed i) d else d);
               t = max tb (cb_confirmed i);
               dt = (if t \<noteq> 0 then secs_of (de_time env - t) else -1) in
           Some
             (if dt < 0 \<or> dt > 1800 then to_binding DEV_BindingCreateHandler d
              else (case cb_dst i of
                      CoreExt _ _ \<Rightarrow> to_binding DEV_ReadReportConfigurationHandler (upd_binding (\<lambda>b. b\<lparr>bc_configIter := 0, bc_reportIter := 0\<rparr>) d)
                    | CoreGroup _ \<Rightarrow> next_binding_tick d
                    | CoreOther \<Rightarrow> d))))"
    using n by (simp only: verify_lookup_def dev_core_def cur_binding_Some [OF cs] cur_tBound_Some [OF b cs] c if_True bind.bind_lunit Let_def)
  show ?thesis
  proof (cases "List.find (same_binding c) (cn_bindingTable (de_node env))")
    case None
    then show ?thesis using create [OF quiet_refl cs] by (simp add: e)
  next
    case (Some i)
    define d1 where "d1 = (if bc_bindingTrackers (dv_binding d) ! bc_bindingIter (dv_binding d) < cb_confirmed i then set_tBound (cb_confirmed i) d else d)"
    have q: "quiet L d d1" by (simp add: d1_def)
    have sh: "cur_shape d1" using cs by (simp add: d1_def cur_shape_def set_tBound_def)
    have "dev_ok L d1" using quiet_ok [OF q] ok by simp
    then show ?thesis using create [OF q sh] read [OF q sh] tick [OF q]
      unfolding e Some option.case Let_def d1_def [symmetric] by (simp split: core_dst.split)
  qed
qed

lemma verify_one_ok:
  assumes ok: "dev_ok L d" and st: "dv_state d StateLevel1 = Some DEV_BindingTableVerifyHandler" and n: "dv_node d" and cs: "cur_shape d"
  shows "ends (verify_one_binding L env d) (dev_ok L)"
proof -
  note b = ok_base [OF ok]
  let ?b = "bc_bindings (dv_binding d) ! bc_bindingIter (dv_binding d)"
  have look: "ends (verify_lookup env d') (dev_ok L)" if "quiet L d d'" for d'
  proof (rule verify_lookup_ok)
    show "dev_ok L d'" using quiet_ok [OF that] ok by simp
    have sh: "bshape (dv_binding d') = bshape (dv_binding d)" by (rule quiet_fields [OF that])
    then have "bc_bindingIter (dv_binding d') = bc_bindingIter (dv_binding d)" by (simp add: bshape_def)
    moreover have "length (bc_bindings (dv_binding d')) = length (bc_bindings (dv_binding d))" using arg_cong [OF sh, of "\<lambda>x. length (snd (snd x))"] by (simp add: bshape_def)
    ultimately show "cur_shape d'" using cs by (simp add: cur_shape_def)
  qed (simp_all add: quiet_fields [OF that] st n)
  have u: "quiet L d (set_curBinding (?b\<lparr>bd_dst := m\<rparr>) d)" for m by (rule curBinding_quiet [OF cs refl]) simp_all
  have mac: "dev_ok L (to_binding DEV_BindingHandler (set_curBinding (?b\<lparr>bd_dst := m\<rparr>) d))" for m
    by (rule to_DEV_Binding_ok [OF quiet_weakD [OF u ok_weak [OF ok]]]) (use st in \<open>simp add: quiet_fields [OF u]\<close>)
  obtain g b' where g: "group_of_subs L env (dv_subs (dev_subDevices d)) ?b = (g, b')" by fastforce
  have b': "bd_isUnicastBinding b' = bd_isUnicastBinding ?b" "bd_isGroupBinding b' = bd_isGroupBinding ?b" "bd_reporting b' = bd_reporting ?b"
    using g by (auto simp: group_of_subs_def Let_def bd_setDstGroup_def split: option.splits if_splits)
  have v: "quiet L d (set_curBinding b' (dev_subDevices d))"
    by (rule quiet_trans [OF quiet_subDevices], rule curBinding_quiet [OF _ refl]) (use cs b' in \<open>simp_all add: dev_subDevices_def cur_shape_def\<close>)
  have tick: "dev_ok L (next_binding_tick (set_curBinding b' (dev_subDevices d)))"
    by (rule tableVerify_next) (use quiet_ok [OF v] ok st in \<open>simp_all add: quiet_fields [OF v]\<close>)
  show ?thesis
    using look [OF u] look [OF v] look [OF quiet_refl] mac tick
    by (simp add: verify_one_binding_def cur_binding_Some [OF cs] cur_tBound_Some [OF b cs] Let_def g)
qed

lemma tableVerify_ok:
  assumes r: "runs StateLevel1 L e DEV_BindingTableVerifyHandler d"
  shows "ends (dev_bindingTableVerify L env e d) (dev_ok L)"
proof -
  note r = runs1 [OF r]
  have ok: "dev_ok L d" by (rule passive_ok [OF r(1,2)]) (simp add: dev_sets)
  have q: "quiet L d (upd_binding (\<lambda>b. b\<lparr>bc_bindingCheckRound := bc_bindingCheckRound b + 1\<rparr>) d)" by (rule upd_quiet) (simp add: bshape_def)
  have "dev_ok L (to_binding DEV_BindingRemoveHandler (upd_binding (\<lambda>b. b\<lparr>bc_bindingCheckRound := bc_bindingCheckRound b + 1\<rparr>) d))"
    by (rule to_waiting_ok [OF quiet_weakD [OF q r(1)], where s = DEV_BindingTableVerifyHandler]) (simp_all add: r dev_sets)
  moreover have "ends (verify_one_binding L env d) (dev_ok L)" if "\<not> bc_bindingIter (dv_binding d) \<ge> length (bc_bindings (dv_binding d))"
    by (rule verify_one_ok [OF ok r(2,4)]) (use that in \<open>simp add: cur_shape_def\<close>)
  ultimately show ?thesis using ok by (simp add: dev_bindingTableVerify_def)
qed

lemma processNext_ok:
  assumes "weak_ok StateLevel1 L d" "dv_state d StateLevel1 = Some s" "s \<noteq> DEV_BindingTableVerifyHandler"
  shows "dev_ok L (DEV_ProcessNextBinding d)"
proof -
  have "base_ok L d" by (rule weak_base [OF assms(1)])
  note v = viewE [OF this]
  have ne: "dv_state d StateLevel1 \<noteq> Some DEV_BindingTableVerifyHandler" using assms by simp
  have st: "\<forall>s. dv_state d StateLevel1 = Some s \<longrightarrow> s \<in> binding_states" using v(2) by (auto simp: states_ok_def)
  have "s \<noteq> DEV_IdleStateHandler" using st assms(2) by (auto simp: dev_sets)
  then have c: "to_binding DEV_BindingTableVerifyHandler (set_bindingIter n d) = set_bindingIter n (to_binding DEV_BindingTableVerifyHandler d)" for n
    using assms(2,3)
    by (simp add: to_binding_def dev_setState_def dev_setState_with_def dev_leave_def leave_idle_def leave_simple_def dev_stopStateTimer_def dev_do_def
        set_bindingIter_def upd_binding_def Let_def)
  have "dev_ok L (to_binding DEV_BindingTableVerifyHandler d)" by (rule to_waiting_ok [OF assms(1,2)]) (use assms in \<open>simp_all add: dev_sets\<close>)
  then have w: "weak_ok StateLevel1 L (set_bindingIter n (to_binding DEV_BindingTableVerifyHandler d))" for n
    by (intro set_iter_weak ok_weak) (simp_all add: setState1_fields [OF ne st] dev_sets)
  have "dev_ok L (set_bindingIter n (to_binding DEV_BindingTableVerifyHandler d))" for n
    by (rule passive_ok [OF w, where h = DEV_BindingTableVerifyHandler]) (simp_all add: set_bindingIter_def setState1_fields [OF ne st] dev_sets)
  then show ?thesis by (simp add: DEV_ProcessNextBinding_def c)
qed

lemma bindingCreate_ok:
  assumes r: "runs StateLevel1 L e DEV_BindingCreateHandler d" and lk: "\<not> dv_lock d StateLevel1"
  shows "ends (dev_bindingCreate env e d) (dev_ok L)"
proof -
  note r = runs1 [OF r]
  note b = weak_base [OF r(1)]
  have cs: "cur_shape d" using bindings_okE(3) [OF viewE(4) [OF b] r(2)] by (simp add: dev_sets)
  obtain c where c: "DEV_ToCoreBinding (bc_bindings (dv_binding d) ! bc_bindingIter (dv_binding d)) (dv_key d) = Some c" using toCore_Some [OF b cs] by blast
  have f: "dv_state (set_tBound t d) = dv_state d" "dv_lock (set_tBound t d) = dv_lock d" "dv_key (set_tBound t d) = dv_key d" for t by (simp_all add: set_tBound_def)
  have "dev_ok L (zdp_send env q StateLevel1 DEV_BindingHandler (set_tBound 0 d))" for q
    by (rule zdp_send1_ok [OF quiet_weakD [OF set_tBound_quiet r(1)], where s = DEV_BindingCreateHandler]) (simp_all add: f lk r dev_sets)
  then have enter: "ends (bindingCreate_enter env d) (dev_ok L)"
    by (simp add: bindingCreate_enter_def cur_binding_Some [OF cs] cur_tBound_Some [OF b cs] f c)
  have verify: "dev_ok L (to_binding DEV_BindingTableVerifyHandler (set_tBound t d))" for t
    by (rule to_waiting_ok [OF quiet_weakD [OF set_tBound_quiet r(1)], where s = DEV_BindingCreateHandler]) (simp_all add: f r dev_sets)
  have conf: "dev_ok L d \<Longrightarrow> dev_ok L (aps_confirm env k StateLevel1 DEV_BindingHandler e d)" for k
    by (rule aps_confirm1_ok [OF _ lk r(2)]) (simp_all add: dev_sets)
  show ?thesis using r(3,5) enter verify conf to_DEV_Binding_ok [OF r(1,2)] event_names
    by (auto simp: dev_bindingCreate_def cur_tBound_Some [OF b cs])
qed

lemma bindingRemove_ok:
  assumes r: "runs StateLevel1 L e DEV_BindingRemoveHandler d" and lk: "\<not> dv_lock d StateLevel1"
  shows "ends (dev_bindingRemove env e d) (dev_ok L)"
proof -
  note r = runs1 [OF r]
  have send: "dev_ok L (zdp_send env q StateLevel1 DEV_BindingHandler d)" for q
    by (rule zdp_send1_ok [OF r(1) lk r(2)]) (simp_all add: dev_sets)
  have idle: "dev_ok L (to_binding DEV_BindingIdleHandler d)" by (rule to_waiting_ok [OF r(1,2)]) (simp_all add: dev_sets)
  have conf: "dev_ok L d \<Longrightarrow> dev_ok L (aps_confirm env k StateLevel1 DEV_BindingHandler e d)" for k
    by (rule aps_confirm1_ok [OF _ lk r(2)]) (simp_all add: dev_sets)
  have enter: "ends (bindingRemove_enter env d) (dev_ok L)" using send idle r(4) by (simp add: bindingRemove_enter_def dev_core_def split: option.split)
  show ?thesis using r(3,5) enter conf to_DEV_Binding_ok [OF r(1,2)] event_names by (auto simp: dev_bindingRemove_def)
qed

lemma bindingIdle_ok:
  assumes r: "runs StateLevel1 L e DEV_BindingIdleHandler d" and lk: "\<not> dv_lock d StateLevel1"
  shows "ends (dev_bindingIdle e d) (dev_ok L)"
proof -
  note r = runs1 [OF r]
  have "dev_ok L (dev_startStateTimer t StateLevel1 d)" for t by (rule start1_ok [OF r(1) lk r(2)]) (simp_all add: dev_sets)
  then show ?thesis using r(3,5) to_DEV_Binding_ok [OF r(1,2)] event_names by (auto simp: dev_bindingIdle_def)
qed

section \<open>Reports\<close>

lemma zcl_wait_ok:
  assumes w: "weak_ok StateLevel1 L d" "\<not> dv_lock d StateLevel1" and s: "dv_state d StateLevel1 = Some s" "s \<in> binding_waits" and c: "cur_reports d"
  shows "dev_ok L (zcl_wait d)"
proof -
  have "dev_ok L (dev_startStateTimer t StateLevel1 d)" for t by (rule start1_ok [OF w s(1)]) (use s c in auto)
  then show ?thesis using to_DEV_Binding_ok [OF w(1) s(1)] by (simp add: zcl_wait_def)
qed

lemma zcl_send_quiet [simp]: "quiet L d (zcl_send env q d)"
proof -
  have "quiet L d (upd_binding (\<lambda>b. b\<lparr>bc_zclResult := de_zcl env q\<rparr>) d)" by (rule upd_quiet) (simp add: bshape_def)
  then show ?thesis unfolding zcl_send_def by (rule quiet_trans) simp
qed

lemma readReport_enter_ok:
  assumes w: "weak_ok StateLevel1 L d" and lk: "\<not> dv_lock d StateLevel1" and st: "dv_state d StateLevel1 = Some DEV_ReadReportConfigurationHandler"
    and n: "dv_node d" and cs: "cur_shape d"
  shows "ends (readReport_enter env d) (dev_ok L)"
proof (cases "cur_reports d")
  case False
  then show ?thesis using processNext_ok [OF w st]
    by (simp add: readReport_enter_def cur_binding_Some [OF cs] cur_reports_def)
next
  case True
  let ?b = "bc_bindings (dv_binding d) ! bc_bindingIter (dv_binding d)"
  obtain k p ts where cr: "collect_reports (de_time env) (bc_bindingCheckRound (dv_binding d)) (bd_clusterId ?b) (bd_srcEndpoint ?b)
      (drop (bc_reportIter (dv_binding d)) (bd_reporting ?b)) (bc_reportIter (dv_binding d))
      (rp_empty\<lparr>rp_extAddress := cn_ext (de_node env), rp_nwkAddress := cn_nwk (de_node env), rp_clusterId := bd_clusterId ?b, rp_endpoint := bd_srcEndpoint ?b\<rparr>)
      (bc_reportTrackers (dv_binding d)) = (k, p, ts)" by (metis prod_cases3)
  define d1 where "d1 = upd_binding (\<lambda>b. b\<lparr>bc_reportIter := k, bc_readReportParam := p, bc_reportTrackers := ts\<rparr>) d"
  have q: "quiet L d d1" unfolding d1_def by (rule upd_quiet) (simp add: bshape_def)
  have "dev_ok L (DEV_ProcessNextBinding d1)" by (rule processNext_ok [OF quiet_weakD [OF q w], where s = DEV_ReadReportConfigurationHandler]) (simp_all add: quiet_fields [OF q] st)
  moreover have "dev_ok L (zcl_wait (zcl_send env x d1))" for x
  proof -
    have q2: "quiet L d (zcl_send env x d1)" by (rule quiet_trans [OF q zcl_send_quiet])
    show ?thesis by (rule zcl_wait_ok [OF quiet_weakD [OF q2 w], where s = DEV_ReadReportConfigurationHandler])
      (use True in \<open>simp_all add: quiet_fields [OF q2] st lk dev_sets, simp add: cur_reports_def zcl_send_def d1_def dev_do_def\<close>)
  qed
  ultimately show ?thesis using True n unfolding readReport_enter_def
    by (simp add: cur_binding_Some [OF cs] cur_reports_def dev_core_def Let_def cr flip: d1_def)
qed

lemma readReport_ok:
  assumes r: "runs StateLevel1 L e DEV_ReadReportConfigurationHandler d" and lk: "\<not> dv_lock d StateLevel1"
  shows "ends (dev_readReport env e d) (dev_ok L)"
proof -
  note r = runs1 [OF r]
  note b = weak_base [OF r(1)]
  have cs: "cur_shape d" using bindings_okE(3) [OF viewE(4) [OF b] r(2)] by (simp add: dev_sets)
  have conf: "dev_ok L d \<Longrightarrow> dev_ok L (aps_confirm env k StateLevel1 DEV_BindingHandler e d)" for k
    by (rule aps_confirm1_ok [OF _ lk r(2)]) (simp_all add: dev_sets)
  have enter: "ends (readReport_enter env d) (dev_ok L)" by (rule readReport_enter_ok [OF r(1) lk r(2,4) cs])
  have rsp: "ends (dev_readReport env e d) (dev_ok L)" if ok: "dev_ok L d" and ev: "ev_what e = REventZclReadReportConfigResponse"
  proof -
    have crep: "cur_reports d" using ok lk r(2) cs by (auto simp: dev_ok_def entered_def entered_view_def dev_view_def bshape_def cur_shape_def cur_reports_def)
    have "reportingConfigurationValid env e d \<noteq> None"
      by (cases "de_reportRsp env e") (auto simp: reportingConfigurationValid_def cur_binding_Some [OF cs] Let_def)
    then obtain v where v: "reportingConfigurationValid env e d = Some v" by blast
    define d1 where "d1 = upd_binding (\<lambda>b. b\<lparr>bc_reportTrackers :=
        map (\<lambda>t. if rt_lastConfigureCheck t = MarkZclConfigureBusy then t\<lparr>rt_lastConfigureCheck := de_time env\<rparr> else t) (bc_reportTrackers b)\<rparr>) d"
    have q: "quiet L d d1" unfolding d1_def by (rule upd_quiet) (simp add: bshape_def)
    have cs1: "cur_shape d1" using cs by (simp add: d1_def cur_shape_def)
    have "dev_ok L (to_binding DEV_ReadNextReportConfigurationHandler d1)"
      by (rule to_binding_ok [OF quiet_weakD [OF q r(1)], where s = DEV_ReadReportConfigurationHandler]) (use cs1 in \<open>simp_all add: quiet_fields [OF q] r dev_sets\<close>)
    moreover have "dev_ok L (DEV_ProcessNextBinding d1)" by (rule processNext_ok [OF quiet_weakD [OF q r(1)], where s = DEV_ReadReportConfigurationHandler]) (simp_all add: quiet_fields [OF q] r)
    moreover have "dev_ok L (to_binding DEV_ConfigureReportingHandler d)"
      by (rule to_binding_ok [OF r(1,2)]) (use cs crep in \<open>simp_all add: dev_sets\<close>)
    ultimately show ?thesis using ev
      by (simp add: dev_readReport_def v Let_def cur_binding_Some [OF cs1] suffixes flip: d1_def)
  qed
  show ?thesis
  proof (cases "ev_what e = REventZclReadReportConfigResponse \<and> dev_ok L d")
    case False
    then show ?thesis using r(3,5) enter conf to_DEV_Binding_ok [OF r(1,2)] event_names by (auto simp: dev_readReport_def)
  qed (use rsp in blast)
qed

lemma readNext_ok:
  assumes r: "runs StateLevel1 L e DEV_ReadNextReportConfigurationHandler d"
  shows "ends (dev_readNextReport e d) (dev_ok L)"
proof -
  note r = runs1 [OF r]
  have cs: "cur_shape d" using bindings_okE(3) [OF viewE(4) [OF weak_base [OF r(1)]] r(2)] by (simp add: dev_sets)
  have "dev_ok L (to_binding DEV_ReadReportConfigurationHandler d)" by (rule to_binding_ok [OF r(1,2)]) (use cs in \<open>simp_all add: dev_sets\<close>)
  moreover have "dev_ok L d" by (rule passive_ok [OF r(1,2)]) (simp add: dev_sets)
  ultimately show ?thesis by (simp add: dev_readNextReport_def)
qed

lemma configureNext_ok:
  assumes r: "runs StateLevel1 L e DEV_ConfigureNextReportConfigurationHandler d"
  shows "ends (dev_configureNextReport e d) (dev_ok L)"
proof -
  note r = runs1 [OF r]
  note b = bindings_okE(3,4) [OF viewE(4) [OF weak_base [OF r(1)]] r(2)]
  have "dev_ok L (to_binding DEV_ConfigureReportingHandler d)" by (rule to_binding_ok [OF r(1,2)]) (use b in \<open>simp_all add: dev_sets\<close>)
  moreover have "dev_ok L d" by (rule passive_ok [OF r(1,2)]) (simp add: dev_sets)
  ultimately show ?thesis by (simp add: dev_configureNextReport_def)
qed

lemma configureReporting_ok:
  assumes r: "runs StateLevel1 L e DEV_ConfigureReportingHandler d" and lk: "\<not> dv_lock d StateLevel1"
  shows "ends (dev_configureReporting env e d) (dev_ok L)"
proof -
  note r = runs1 [OF r]
  note b = bindings_okE(3,4) [OF viewE(4) [OF weak_base [OF r(1)]] r(2)]
  have cs: "cur_shape d" and crep: "cur_reports d" using b by (simp_all add: dev_sets)
  have conf: "dev_ok L d \<Longrightarrow> dev_ok L (aps_confirm env k StateLevel1 DEV_BindingHandler e d)" for k
    by (rule aps_confirm1_ok [OF _ lk r(2)]) (simp_all add: dev_sets)
  have enter: "ends (configure_enter env d) (dev_ok L)"
  proof -
    let ?b = "bc_bindings (dv_binding d) ! bc_bindingIter (dv_binding d)"
    let ?p = "rp_empty\<lparr>rp_extAddress := cn_ext (de_node env), rp_nwkAddress := cn_nwk (de_node env), rp_clusterId := bd_clusterId ?b,
                      rp_manufacturerCode := rp_manufacturerCode (bc_readReportParam (dv_binding d)), rp_endpoint := bd_srcEndpoint ?b\<rparr>"
    obtain k recs where cc: "collect_configure (rp_manufacturerCode ?p) (drop (bc_configIter (dv_binding d)) (take (bc_reportIter (dv_binding d)) (bd_reporting ?b)))
        (bc_configIter (dv_binding d)) [] = (k, recs)" by fastforce
    define d1 where "d1 = upd_binding (\<lambda>b. b\<lparr>bc_configIter := k, bc_zclResult := (bc_zclResult b)\<lparr>zc_isEnqueued := False\<rparr>\<rparr>) d"
    define d2 where "d2 = (if recs \<noteq> [] then zcl_send env (ZCL_ConfigureReporting ?p recs) d1 else d1)"
    have q1: "quiet L d d1" unfolding d1_def by (rule upd_quiet) (simp add: bshape_def)
    have q: "quiet L d d2" using q1 quiet_trans [OF q1 zcl_send_quiet] by (simp add: d2_def)
    have crep2: "cur_reports d2" using crep by (simp add: cur_reports_def d2_def d1_def zcl_send_def dev_do_def)
    have "dev_ok L (zcl_wait d2)"
      by (rule zcl_wait_ok [OF quiet_weakD [OF q r(1)], where s = DEV_ConfigureReportingHandler]) (use crep2 in \<open>simp_all add: quiet_fields [OF q] r lk dev_sets\<close>)
    then show ?thesis using crep r(4) unfolding configure_enter_def
      by (cases "recs = []") (simp_all add: cur_binding_Some [OF cs] cur_reports_def dev_core_def Let_def cc [simplified] d2_def d1_def)
  qed
  have next1: "dev_ok L (to_binding DEV_ConfigureNextReportConfigurationHandler d)"
    by (rule to_binding_ok [OF r(1,2)]) (use cs crep in \<open>simp_all add: dev_sets\<close>)
  have next2: "dev_ok L (to_binding DEV_ReadNextReportConfigurationHandler d)"
    by (rule to_binding_ok [OF r(1,2)]) (use cs in \<open>simp_all add: dev_sets\<close>)
  have next3: "dev_ok L (DEV_ProcessNextBinding d)" by (rule processNext_ok [OF r(1,2)]) simp
  show ?thesis using r(3,5) enter conf next1 next2 next3 to_DEV_Binding_ok [OF r(1,2)] event_names
    by (auto simp: dev_configureReporting_def cur_binding_Some [OF cs])
qed

end
