(* ===== verification/Device_Level2.thy ===== *)
theory Device_Level2
  imports Device_Level1
begin

text \<open>
  The handlers of level 2: whatever is polled has been tried less than three times, and a poll that waits has its timer
  running.
\<close>

section \<open>Which surroundings\<close>

text \<open>The read parameters of an item name fewer than eight attributes.\<close>

definition env_ok :: "dev_env \<Rightarrow> bool" where
  "env_ok env \<longleftrightarrow> (\<forall>i cl ep ats. ii_zclParam (de_info env i) = Some (cl, ep, ats) \<longrightarrow> length ats < 8)"

section \<open>Which items are polled\<close>

lemma trackers_ends: "env_ok env \<Longrightarrow> \<exists>ts'. DEV_UpdateReportTracker (de_info env i) ts = Some ts'"
  by (auto simp: DEV_UpdateReportTracker_def env_ok_def split: option.split)

lemma poll_items_of_ends: "env_ok env \<Longrightarrow> ends (poll_items_of L env k its ts) (\<lambda>(ps, ts). \<forall>p \<in> set ps. pi_retry p = 0)"
proof (induction its arbitrary: ts)
  case (Cons i its)
  obtain ts' where t: "DEV_UpdateReportTracker (de_info env i) ts = Some ts'" using trackers_ends [OF Cons.prems] by blast
  obtain ps us where p: "poll_items_of L env k its ts' = Some (ps, us)" "\<forall>p \<in> set ps. pi_retry p = 0"
    using Cons.IH [OF Cons.prems, of ts'] by (auto simp: ends_iff)
  have "ends (poll_items_of L env k its ts) (\<lambda>(ps, ts). \<forall>p \<in> set ps. pi_retry p = 0)" by (rule Cons.IH [OF Cons.prems])
  then show ?case using p by (simp add: t)
qed simp

lemma poll_items_subs_ends: "env_ok env \<Longrightarrow> ends (poll_items_subs L env k rs ts) (\<lambda>(ps, ts). \<forall>p \<in> set ps. pi_retry p = 0)"
proof (induction rs arbitrary: k ts)
  case (Cons r rs)
  obtain ps us where p: "poll_items_of L env k (rs_items r) ts = Some (ps, us)" "\<forall>p \<in> set ps. pi_retry p = 0"
    using poll_items_of_ends [OF Cons.prems, of L k "rs_items r" ts] by (auto simp: ends_iff)
  obtain qs vs where q: "poll_items_subs L env (k + 1) rs us = Some (qs, vs)" "\<forall>p \<in> set qs. pi_retry p = 0"
    using Cons.IH [OF Cons.prems, of "k + 1" us] by (auto simp: ends_iff)
  show ?case using p q by auto
qed simp

lemma GetPollItems_ends:
  assumes "env_ok env"
  shows "ends (DEV_GetPollItems L env d) (\<lambda>(ps, d'). quiet L d d' \<and> (\<forall>p \<in> set ps. pi_retry p = 0))"
proof -
  obtain ps ts where p: "poll_items_subs L env 0 (dv_subs (dev_subDevices d)) (bc_reportTrackers (dv_binding (dev_subDevices d))) = Some (ps, ts)"
      "\<forall>p \<in> set ps. pi_retry p = 0"
    using poll_items_subs_ends [OF assms, of L 0 "dv_subs (dev_subDevices d)" "bc_reportTrackers (dv_binding (dev_subDevices d))"] by (auto simp: ends_iff)
  have "quiet L d (upd_binding (\<lambda>b. b\<lparr>bc_reportTrackers := ts\<rparr>) (dev_subDevices d))"
    by (rule quiet_trans [OF quiet_subDevices], rule upd_quiet) (simp add: bshape_def)
  then show ?thesis using p by (simp add: DEV_GetPollItems_def Let_def)
qed

section \<open>Steps of level 2\<close>

lemma pollItems_weak:
  assumes "weak_ok l L d" "\<forall>p \<in> set ps. pi_retry p < MaxPollItemRetries"
  shows "weak_ok l L (d\<lparr>dv_pollItems := ps\<rparr>)"
proof -
  note v = viewE [OF weak_base [OF assms(1)]]
  have "dnames L (d\<lparr>dv_pollItems := ps\<rparr>) = dnames L d" by (simp add: dnames_def)
  then have "base_ok L (d\<lparr>dv_pollItems := ps\<rparr>)" by (intro baseI) (use v assms(2) in auto)
  then show ?thesis using assms entered_cong [of "d\<lparr>dv_pollItems := ps\<rparr>" _ d L] by (simp add: weak_ok_def)
qed

lemma poll_retries: "weak_ok l L d \<Longrightarrow> p \<in> set (dv_pollItems d) \<Longrightarrow> pi_retry p < MaxPollItemRetries"
  using viewE(6) [OF weak_base] by blast

lemma retry_ok: "\<forall>p \<in> set ps. pi_retry p < MaxPollItemRetries \<Longrightarrow> \<forall>p \<in> set (checkPollItemRetry ps). pi_retry p < MaxPollItemRetries"
  by (auto simp: checkPollItemRetry_def Let_def dest: in_set_butlastD)

lemma runs2:
  assumes "runs StateLevel2 L e h d"
  shows "weak_ok StateLevel2 L d" "dv_state d StateLevel2 = Some h" "ev_what e \<noteq> REventStateLeave" "dv_state d StateLevel0 = Some DEV_IdleStateHandler"
    "ev_what e = REventStateEnter \<or> ev_what e = REventStateTimeout \<or> dev_ok L d"
proof -
  show w: "weak_ok StateLevel2 L d" and s: "dv_state d StateLevel2 = Some h" and "ev_what e \<noteq> REventStateLeave"
    and "ev_what e = REventStateEnter \<or> ev_what e = REventStateTimeout \<or> dev_ok L d" using assms by (auto simp: runs_def)
  show "dv_state d StateLevel0 = Some DEV_IdleStateHandler" using viewE(2) [OF weak_base [OF w]] s by (simp add: states_ok_def)
qed

lemma poll_address_quiet:
  assumes "base_ok L d"
  shows "ends (poll_address L env d) (quiet L d)"
proof (cases "dev_core env d")
  case (Some node)
  have "ends (dev_item L RAttrNwkAddress d \<bind> (\<lambda>nwk. if x \<noteq> ri_toNumber nwk then dev_setNumber L now RAttrNwkAddress x d else Some d)) (quiet L d)" for x now
    by (rule item_ok [OF assms]) (use setNumber_quiet [OF assms] in \<open>simp_all add: need_items_def\<close>)
  then show ?thesis by (simp add: poll_address_def Some)
qed (simp add: poll_address_def)

lemma poll_maintenance_quiet:
  assumes "base_ok L d"
  shows "ends (poll_maintenance L env d) (\<lambda>(go, d'). quiet L d d')"
proof -
  define d1 where "d1 = d\<lparr>dv_randomDelay := 0, dv_needZDPMaintenanceOnce := False\<rparr>"
  have q: "quiet L d d1" unfolding d1_def by (rule quietI) (simp_all add: dnames_def)
  have q2: "quiet L d (DEV_EnqueueEvent s (d1\<lparr>dv_needReadActiveEndpoints := True, dv_needReadSimpleDescriptors := True, dv_zdpNeedFetchEndpointIndex := 0\<rparr>))" for s
    by (rule quiet_trans [OF q], rule quiet_trans [OF _ quiet_enqueue(1)], rule quietI) (simp_all add: dnames_def)
  have q3: "quiet L d (d\<lparr>dv_randomDelay := n\<rparr>)" for n by (rule quietI) (simp_all add: dnames_def)
  note b = quiet_base' [OF q assms]
  obtain s where s: "dev_toBool L RCapSleeper d1 = Some s" using toBool_ends [OF b, of RCapSleeper] by (auto simp: need_items_def)
  obtain r where r: "dev_reachable L env d1 = Some r" using reachable_ends [OF b] by blast
  show ?thesis using q q2 q3 s r by (simp add: poll_maintenance_def Let_def flip: d1_def)
qed

lemma pollIdle_ok:
  assumes r: "runs StateLevel2 L e DEV_PollIdleStateHandler d" and env: "env_ok env"
  shows "ends (dev_pollIdle L env e d) (dev_ok L)"
proof -
  note r = runs2 [OF r]
  have ok: "dev_ok L d" by (rule passive_ok [OF r(1,2)]) (simp add: dev_sets)
  have okq: "dev_ok L d'" if "quiet L d d'" for d' using quiet_ok [OF that] ok by simp
  have "ends (do {
       d \<leftarrow> poll_address L env d;
       (reload, d) \<leftarrow> poll_maintenance L env d;
       if reload then Some d
       else do {
         (ps, d) \<leftarrow> DEV_GetPollItems L env d;
         let d = d\<lparr>dv_pollItems := ps\<rparr>;
         Some (if ps \<noteq> [] then to_poll DEV_PollNextStateHandler d else if b then DEV_EnqueueEvent REventPollDone d else d) } }) (dev_ok L)" for b
  proof (rule quiet_bind [OF poll_address_quiet [OF ok_base [OF ok]]])
    fix d1 assume q1: "quiet L d d1"
    show "ends (poll_maintenance L env d1 \<bind> (\<lambda>(reload, d). if reload then Some d
       else do {
         (ps, d) \<leftarrow> DEV_GetPollItems L env d;
         let d = d\<lparr>dv_pollItems := ps\<rparr>;
         Some (if ps \<noteq> [] then to_poll DEV_PollNextStateHandler d else if b then DEV_EnqueueEvent REventPollDone d else d) })) (dev_ok L)"
    proof (rule ends_bind [OF poll_maintenance_quiet [OF quiet_base' [OF q1 ok_base [OF ok]]]], clarify)
      fix go d2 assume "quiet L d1 d2"
      then have q2: "quiet L d d2" by (rule quiet_trans [OF q1])
      have "ends (do {
         (ps, d) \<leftarrow> DEV_GetPollItems L env d2;
         let d = d\<lparr>dv_pollItems := ps\<rparr>;
         Some (if ps \<noteq> [] then to_poll DEV_PollNextStateHandler d else if b then DEV_EnqueueEvent REventPollDone d else d) }) (dev_ok L)"
      proof (rule ends_bind [OF GetPollItems_ends [OF env]], clarify)
        fix ps :: "poll_item list" and d3 assume "quiet L d2 d3" and p: "\<forall>p \<in> set ps. pi_retry p = 0"
        then have q: "quiet L d d3" by (blast intro: quiet_trans [OF q2])
        have w: "weak_ok StateLevel2 L (d3\<lparr>dv_pollItems := ps\<rparr>)"
          by (rule pollItems_weak [OF quiet_weakD [OF q r(1)]]) (use p in \<open>simp add: MaxPollItemRetries_def\<close>)
        have "dev_ok L (d3\<lparr>dv_pollItems := ps\<rparr>)"
          by (rule passive_ok [OF w, where h = DEV_PollIdleStateHandler]) (simp_all add: quiet_fields [OF q] r dev_sets)
        moreover have "dev_ok L (to_poll DEV_PollNextStateHandler (d3\<lparr>dv_pollItems := ps\<rparr>))"
          by (rule to_poll_ok [OF w, where s = DEV_PollIdleStateHandler]) (simp_all add: quiet_fields [OF q] r dev_sets)
        ultimately show "ends (let d = d3\<lparr>dv_pollItems := ps\<rparr> in
           Some (if ps \<noteq> [] then to_poll DEV_PollNextStateHandler d else if b then DEV_EnqueueEvent REventPollDone d else d)) (dev_ok L)"
          by (cases "ps = []") (simp_all add: Let_def)
      qed
      then show "ends (if go then Some d2 else do {
         (ps, d) \<leftarrow> DEV_GetPollItems L env d2;
         let d = d\<lparr>dv_pollItems := ps\<rparr>;
         Some (if ps \<noteq> [] then to_poll DEV_PollNextStateHandler d else if b then DEV_EnqueueEvent REventPollDone d else d) }) (dev_ok L)"
        using okq [OF q2] by simp
    qed
  qed
  then show ?thesis using ok unfolding dev_pollIdle_def by simp
qed

lemma last_butlast_retry:
  assumes "\<forall>p \<in> set ps. pi_retry p < MaxPollItemRetries"
  shows "\<forall>p \<in> set (butlast ps). pi_retry p < MaxPollItemRetries"
  using assms by (auto dest: in_set_butlastD)

lemma pollNext_enter_ok:
  assumes w: "weak_ok StateLevel2 L d" and st: "dv_state d StateLevel2 = Some DEV_PollNextStateHandler" and lk: "\<not> dv_lock d StateLevel2"
  shows "ends (pollNext_enter L env d) (dev_ok L)"
proof -
  obtain r where r: "dev_reachable L env d = Some r" using reachable_ends [OF weak_base [OF w]] by blast
  define d1 where "d1 = (if \<not> r then d\<lparr>dv_pollItems := []\<rparr> else d)"
  have w1: "weak_ok StateLevel2 L d1" using w pollItems_weak [OF w, of "[]"] by (simp add: d1_def)
  have f1: "dv_state d1 = dv_state d" "dv_lock d1 = dv_lock d" by (simp_all add: d1_def)
  have rt: "\<forall>p \<in> set (dv_pollItems d1). pi_retry p < MaxPollItemRetries" using poll_retries [OF w1] by blast
  have idle: "dev_ok L (to_poll DEV_PollIdleStateHandler d1)"
    by (rule to_poll_ok [OF w1, where s = DEV_PollNextStateHandler]) (simp_all add: f1 st dev_sets)
  define d2 where "d2 = dev_do (FX_Read (last (dv_pollItems d1))) (d1\<lparr>dv_readResult := de_read env (last (dv_pollItems d1))\<rparr>)"
  have q2: "quiet L d1 d2" unfolding d2_def by (rule quietI) (simp_all add: dev_do_def dnames_def)
  have q3: "quiet L d1 (d1\<lparr>dv_readResult := read_none\<rparr>)" by (rule quietI) (simp_all add: dnames_def)
  have busy: "dev_ok L (to_poll DEV_PollBusyStateHandler d2)"
    by (rule to_poll_ok [OF quiet_weakD [OF q2 w1], where s = DEV_PollNextStateHandler]) (simp_all add: quiet_fields [OF q2] f1 st dev_sets)
  have again: "dev_ok L (dev_startStateTimer t StateLevel2 (d'\<lparr>dv_pollItems := ps\<rparr>))"
    if "quiet L d1 d'" "\<forall>p \<in> set ps. pi_retry p < MaxPollItemRetries" for t ps d'
    by (rule start2_ok [OF pollItems_weak [OF quiet_weakD [OF that(1) w1] that(2)], where s = DEV_PollNextStateHandler])
      (simp_all add: quiet_fields [OF that(1)] f1 st lk dev_sets)
  have ps: "\<forall>p \<in> set (if pi_retry q \<ge> MaxPollItemRetries then butlast (dv_pollItems d1) else butlast (dv_pollItems d1) @ [q]). pi_retry p < MaxPollItemRetries" for q
    using last_butlast_retry [OF rt] by auto
  have d2p: "dv_pollItems d2 = dv_pollItems d1" by (rule quiet_fields [OF q2])
  have e: "d1\<lparr>dv_readResult := read_none, dv_pollItems := ps\<rparr> = (d1\<lparr>dv_readResult := read_none\<rparr>)\<lparr>dv_pollItems := ps\<rparr>" for ps by simp
  show ?thesis
    unfolding pollNext_enter_def r bind.bind_lunit d1_def [symmetric] Let_def d2_def [symmetric] d2p
    using idle busy again [OF q2 ps [of "(last (dv_pollItems d1))\<lparr>pi_retry := pi_retry (last (dv_pollItems d1)) + 1\<rparr>"]] again [OF q3 last_butlast_retry [OF rt]]
    by (cases "MaxPollItemRetries \<le> Suc (pi_retry (last (dv_pollItems d1)))") simp_all
qed

lemma pollNext_ok:
  assumes r: "runs StateLevel2 L e DEV_PollNextStateHandler d" and lk: "\<not> dv_lock d StateLevel2"
    and num: "ev_what e = REventStateEnter \<or> ev_what e = REventStateTimeout \<Longrightarrow> ev_num e = level_num StateLevel2"
  shows "ends (dev_pollNext L env e d) (dev_ok L)"
proof -
  note r = runs2 [OF r]
  show ?thesis using r(3,5) num pollNext_enter_ok [OF r(1,2) lk] by (auto simp: dev_pollNext_def)
qed

lemma pollBusy_ok:
  assumes r: "runs StateLevel2 L e DEV_PollBusyStateHandler d" and lk: "\<not> dv_lock d StateLevel2"
  shows "ends (dev_pollBusy L env e d) (dev_ok L)"
proof -
  note r = runs2 [OF r]
  have start: "dev_ok L (dev_startStateTimer t StateLevel2 d)" for t by (rule start2_ok [OF r(1) lk r(2)]) (simp add: dev_sets)
  have rt: "\<forall>p \<in> set (dv_pollItems d). pi_retry p < MaxPollItemRetries" using poll_retries [OF r(1)] by blast
  have nxt: "dev_ok L (to_poll DEV_PollNextStateHandler d')" if "weak_ok StateLevel2 L d'" "dv_state d' = dv_state d" for d'
    by (rule to_poll_ok [OF that(1), where s = DEV_PollBusyStateHandler]) (use that r in \<open>simp_all add: dev_sets\<close>)
  have retry: "dev_ok L (to_poll DEV_PollNextStateHandler (d\<lparr>dv_pollItems := checkPollItemRetry (dv_pollItems d)\<rparr>))"
    by (rule nxt [OF pollItems_weak [OF r(1) retry_ok [OF rt]]]) simp
  have conf: "dev_ok L (dev_startStateTimer t StateLevel2 (dev_stopStateTimer StateLevel0 (d\<lparr>dv_idleApsConfirmErrors := 0\<rparr>)))" if "dev_ok L d" for t
  proof -
    define d1 where "d1 = dev_stopStateTimer StateLevel0 (d\<lparr>dv_idleApsConfirmErrors := 0\<rparr>)"
    have q: "quiet L d (d\<lparr>dv_idleApsConfirmErrors := 0\<rparr>)" by (rule quietI) (simp_all add: dnames_def)
    have "dev_ok L (d\<lparr>dv_idleApsConfirmErrors := 0\<rparr>)" using quiet_ok [OF q] that by simp
    then have "weak_ok StateLevel0 L d1" unfolding d1_def by (intro stop_weak ok_weak)
    then have "dev_ok L d1" by (rule passive_ok [where h = DEV_IdleStateHandler]) (simp_all add: d1_def r dev_sets)
    then show ?thesis unfolding d1_def [symmetric]
      by (rule start2_ok [OF ok_weak, where s = DEV_PollBusyStateHandler]) (simp_all add: d1_def lk r dev_sets)
  qed
  have rsp: "dev_ok L (poll_response L env e d)"
  proof -
    define b where "b = (EventZclStatus e = ZclUnsupportedAttributeStatus env \<and> pi_resource (last (dv_pollItems d)) < length (dv_subs d))"
    define d1 where "d1 = (if b then d\<lparr>dv_subs := (dv_subs d)[pi_resource (last (dv_pollItems d)) :=
        rs_update (al_rids L) (pi_item (last (dv_pollItems d))) ri_setZclUnsupportedAttribute (dv_subs d ! pi_resource (last (dv_pollItems d)))]\<rparr> else d)"
    have "names_of (al_rids L) (rs_update (al_rids L) s ri_setZclUnsupportedAttribute r) = names_of (al_rids L) r" for s r by (rule names_update) simp
    then have q: "quiet L d d1" unfolding d1_def by (cases b) (simp_all add: subs_quiet [where k = "pi_resource (last (dv_pollItems d))"])
    have "dev_ok L (to_poll DEV_PollNextStateHandler (d1\<lparr>dv_pollItems := butlast (dv_pollItems d1)\<rparr>))"
      by (rule nxt [OF pollItems_weak [OF quiet_weakD [OF q r(1)]]]) (use last_butlast_retry [OF rt] in \<open>simp_all add: quiet_fields [OF q]\<close>)
    moreover have "dev_ok L (to_poll DEV_PollNextStateHandler d)" by (rule nxt [OF r(1)]) simp
    ultimately show ?thesis unfolding poll_response_def Let_def b_def [symmetric] d1_def [symmetric] by simp
  qed
  show ?thesis using r(3,5) start retry conf rsp event_names by (auto simp: dev_pollBusy_def)
qed

end
