(* ===== verification/Device_Idle.thy ===== *)
theory Device_Idle
  imports Device_Level2
begin

text \<open>
  The state changes of the sub-devices, the dispatch of an event to a handler, and the idle state, which passes what it gets
  on to levels 1 and 2.
\<close>

section \<open>State changes of the sub-devices\<close>

lemma find_sub_ends: "\<forall>r \<in> set rs. RAttrUniqueId \<in> set (names_of (al_rids L) r) \<and> RAttrId \<in> set (names_of (al_rids L) r) \<Longrightarrow> \<exists>x. find_sub L p i k rs = Some x"
proof (induction rs arbitrary: k)
  case (Cons r rs)
  have "rs_item (al_rids L) RAttrUniqueId r \<noteq> None" "rs_item (al_rids L) RAttrId r \<noteq> None" using Cons.prems item_None by fastforce+
  then obtain u v where "rs_item (al_rids L) RAttrUniqueId r = Some u" "rs_item (al_rids L) RAttrId r = Some v" by blast
  then show ?case using Cons.IH [of "k + 1"] Cons.prems by auto
qed simp

lemma change_subs_quiet: "base_ok L d \<Longrightarrow> ends (change_subs L env w ks aps d) (quiet L d)"
proof (induction ks arbitrary: aps d)
  case (Cons k ks)
  obtain b where b: "dev_reachable L env d = Some b" using reachable_ends [OF Cons.prems] by blast
  obtain aps' cs where c: "change_all L env b (de_changes env (dv_subs d ! k)) (rs_item (al_rids L) w (dv_subs d ! k)) (rs_stateChanges (dv_subs d ! k)) aps = (aps', cs)" by fastforce
  define d1 where "d1 = d\<lparr>dv_subs := (dv_subs d)[k := (dv_subs d ! k)\<lparr>rs_stateChanges := rs_cleanupStateChanges cs\<rparr>]\<rparr>"
  have q: "quiet L d d1" unfolding d1_def
    by (rule subs_quiet [where k = k and r = "(dv_subs d ! k)\<lparr>rs_stateChanges := rs_cleanupStateChanges cs\<rparr>"]) (simp_all add: names_of_def)
  have "ends (change_subs L env w ks aps' d1) (quiet L d)"
    by (rule ends_mono [OF Cons.IH [OF quiet_base' [OF q Cons.prems]]]) (rule quiet_trans [OF q])
  then show ?case using Cons.IH [OF Cons.prems] by (simp add: Let_def b c flip: d1_def)
qed simp

lemma CheckItemChanges_quiet:
  assumes "base_ok L d"
  shows "ends (DEV_CheckItemChanges L env e d) (quiet L d)"
proof -
  note b1 = quiet_base' [OF quiet_subDevices assms]
  have subs: "ends (change_subs L env w ks 0 (dev_subDevices d)) (quiet L d)" for w ks
    by (rule ends_mono [OF change_subs_quiet [OF b1]]) (rule quiet_trans [OF quiet_subDevices])
  have "\<forall>r \<in> set (dv_subs (dev_subDevices d)). RAttrUniqueId \<in> set (names_of (al_rids L) r) \<and> RAttrId \<in> set (names_of (al_rids L) r)"
    using viewE(1) [OF b1] by (simp add: names_ok_def dnames_def)
  from find_sub_ends [OF this] obtain k where "find_sub L (ev_resource e) (ev_id e) 0 (dv_subs (dev_subDevices d)) = Some k" by blast
  then show ?thesis using subs by (simp add: DEV_CheckItemChanges_def Let_def DEV_GetSubDevice_def)
qed

section \<open>Dispatch\<close>

lemma event_names_sub:
  "REventStateEnter \<noteq> REventStateTimeout" "REventDDFReload \<noteq> REventStateTimeout" "REventZdpReload \<noteq> REventStateTimeout"
  by (simp_all add: suffixes)

lemma run_level1:
  assumes r: "runs StateLevel1 L e h d" and lk: "\<not> dv_lock d StateLevel1"
  shows "ends (run_simple L env h e d) (dev_ok L)"
proof -
  have "h \<in> binding_states" using runs1 [OF r] viewE(2) [OF weak_base [OF runs1(1) [OF r]]] by (simp add: states_ok_def)
  then show ?thesis
    using r lk by (auto simp: dev_sets run_simple_def intro: binding_ok tableRead_ok tableVerify_ok bindingCreate_ok bindingRemove_ok readReport_ok readNext_ok
        configureNext_ok configureReporting_ok bindingIdle_ok)
qed

lemma run_level2:
  assumes r: "runs StateLevel2 L e h d" and lk: "\<not> dv_lock d StateLevel2" and env: "env_ok env"
    and num: "ev_what e = REventStateEnter \<or> ev_what e = REventStateTimeout \<Longrightarrow> ev_num e = level_num StateLevel2"
  shows "ends (run_simple L env h e d) (dev_ok L)"
proof -
  have "h \<in> poll_waits \<or> h = DEV_PollIdleStateHandler" using runs2 [OF r] viewE(2) [OF weak_base [OF runs2(1) [OF r]]] by (simp add: states_ok_def)
  then show ?thesis
    using r pollNext_ok [OF _ lk num, of L env] pollIdle_ok [OF _ env] pollBusy_ok [OF _ lk]
    by (auto simp: poll_waits_def run_simple_def)
qed

lemma run_level0:
  assumes r: "runs StateLevel0 L e h d" and h: "h \<noteq> DEV_IdleStateHandler"
  shows "ends (run_simple L env h e d) (dev_ok L)"
proof -
  have w: "weak_ok StateLevel0 L d" and s: "dv_state d StateLevel0 = Some h" using r by (simp_all add: runs_def)
  have "h \<in> dev_main" using viewE(2) [OF weak_base [OF w]] s by (simp add: states_ok_def)
  then show ?thesis
    using r h by (auto simp: dev_main_def dev_waits_def run_simple_def intro: init_ok nodeDescriptor_ok activeEndpoints_ok simpleDescriptor_ok basicCluster_ok
        getDescription_ok dead_ok zgp_ok)
qed

text \<open>An event for the sub states, which is none of the events of the machine itself.\<close>

definition plain :: "event \<Rightarrow> bool" where
  "plain e \<longleftrightarrow> ev_what e \<notin> {REventStateEnter, REventStateLeave, REventStateTimeout, REventDDFReload, REventZdpReload}"

lemma handle_sub_ok:
  assumes ok: "dev_ok L d" and e: "plain e" and env: "env_ok env" and l: "l = StateLevel1 \<or> l = StateLevel2"
  shows "ends (handle_sub L env e l d) (dev_ok L)"
proof (cases "dv_lock d l \<or> dv_state d l = None")
  case True
  then show ?thesis using ok e by (auto simp: handle_sub_def handleEvent_with_def plain_def)
next
  case False
  then obtain h where h: "dv_state d l = Some h" and lk: "\<not> dv_lock d l" by auto
  have run: "ends (run_simple L env h e d') (dev_ok L)" if q: "quiet L d d'" for d'
  proof -
    have ok': "dev_ok L d'" using quiet_ok [OF q] ok by simp
    then have "runs l L e h d'" using ok_weak [OF ok'] h e quiet_fields [OF q] by (simp add: runs_def plain_def)
    moreover have "\<not> dv_lock d' l" using lk quiet_fields [OF q] by simp
    moreover have "\<not> (ev_what e = REventStateEnter \<or> ev_what e = REventStateTimeout)" using e by (simp add: plain_def)
    ultimately show ?thesis using l run_level1 [of L e h d' env] run_level2 [of L e h d' env, OF _ _ env] by blast
  qed
  have "ends (if ev_what e = REventAwake \<and> l = StateLevel0 then Some (d\<lparr>dv_awake := Some (de_time env)\<rparr>)
          else if ev_what e = RStateReachable \<and> ev_resource e = RDevices then DEV_CheckReachable L env d else Some d) (quiet L d)"
    using CheckReachable_quiet [OF ok_base [OF ok]] l by auto
  then have "ends ((if ev_what e = REventAwake \<and> l = StateLevel0 then Some (d\<lparr>dv_awake := Some (de_time env)\<rparr>)
          else if ev_what e = RStateReachable \<and> ev_resource e = RDevices then DEV_CheckReachable L env d else Some d) \<bind> run_simple L env h e) (dev_ok L)"
    by (rule ends_bind) (rule run)
  then show ?thesis using h lk e by (simp add: handle_sub_def handleEvent_with_def plain_def)
qed

section \<open>Idle\<close>

lemma start_binding_ok:
  assumes ok: "dev_ok L d" and st: "dv_state d StateLevel0 = Some DEV_IdleStateHandler"
  shows "dev_ok L (to_binding DEV_BindingHandler d)"
proof (cases "dv_state d StateLevel1")
  case None
  then have ne: "dv_state d StateLevel1 \<noteq> Some DEV_BindingHandler" and st1: "\<forall>s. dv_state d StateLevel1 = Some s \<longrightarrow> s \<in> binding_states" by simp_all
  note f = setState1_fields [OF ne st1] and v = viewE [OF ok_base [OF ok]]
  have t: "dv_timer d StateLevel1 = None" using v(3) None by (auto simp: timers_ok_def)
  have "base_ok L (to_binding DEV_BindingHandler d)"
  proof (rule baseI)
    show "bindings_ok (dv_state (to_binding DEV_BindingHandler d) StateLevel1) (bshape (dv_binding (to_binding DEV_BindingHandler d)))"
      unfolding f(5) by (rule bindings_okI) (use bindings_okE [OF v(4)] in \<open>auto simp: f(1) dev_sets\<close>)
    show "\<And>k. dv_state (to_binding DEV_BindingHandler d) StateLevel0 = Some k \<Longrightarrow> k \<in> needs_node \<Longrightarrow> dv_node (to_binding DEV_BindingHandler d)"
      using v(5) by (auto simp: f)
    show "timers_ok (dv_state (to_binding DEV_BindingHandler d)) (dv_lock (to_binding DEV_BindingHandler d)) (dv_timer (to_binding DEV_BindingHandler d))"
      using v(3) t by (auto simp: f timers_ok_def)
    show "states_ok (dv_state (to_binding DEV_BindingHandler d))" using v(2) st by (auto simp: f states_ok_def dev_sets)
  qed (use v in \<open>simp_all add: dnames_def f\<close>)
  moreover have "entered L m (to_binding DEV_BindingHandler d)" if "\<not> dv_lock (to_binding DEV_BindingHandler d) m" for m
  proof -
    have m: "m \<noteq> StateLevel1" "\<not> dv_lock d m" using that by (auto simp: f split: if_splits)
    then have "entered L m d" using ok by (simp add: dev_ok_def)
    then show ?thesis using m entered_cong [of "to_binding DEV_BindingHandler d" m d L] by (simp add: f)
  qed
  ultimately show ?thesis by (simp add: dev_ok_def)
qed (rule to_DEV_Binding_ok [OF ok_weak [OF ok]])

lemma start_poll_ok:
  assumes ok: "dev_ok L d" and st: "dv_state d StateLevel0 = Some DEV_IdleStateHandler"
  shows "dev_ok L (to_poll DEV_PollIdleStateHandler d)"
proof (cases "dv_state d StateLevel2")
  case None
  then have ne: "dv_state d StateLevel2 \<noteq> Some DEV_PollIdleStateHandler" and st2: "\<forall>s. dv_state d StateLevel2 = Some s \<longrightarrow> s \<in> poll_waits \<or> s = DEV_PollIdleStateHandler" by simp_all
  note f = setState2_fields [OF ne st2] and v = viewE [OF ok_base [OF ok]]
  have t: "dv_timer d StateLevel2 = None" using v(3) None by (auto simp: timers_ok_def)
  have "base_ok L (to_poll DEV_PollIdleStateHandler d)"
  proof (rule baseI)
    show "\<And>k. dv_state (to_poll DEV_PollIdleStateHandler d) StateLevel0 = Some k \<Longrightarrow> k \<in> needs_node \<Longrightarrow> dv_node (to_poll DEV_PollIdleStateHandler d)"
      using v(5) by (auto simp: f)
    show "timers_ok (dv_state (to_poll DEV_PollIdleStateHandler d)) (dv_lock (to_poll DEV_PollIdleStateHandler d)) (dv_timer (to_poll DEV_PollIdleStateHandler d))"
      using v(3) t by (auto simp: f timers_ok_def)
    show "states_ok (dv_state (to_poll DEV_PollIdleStateHandler d))" using v(2) st by (auto simp: f states_ok_def dev_sets)
  qed (use v in \<open>simp_all add: dnames_def f\<close>)
  moreover have "entered L m (to_poll DEV_PollIdleStateHandler d)" if "\<not> dv_lock (to_poll DEV_PollIdleStateHandler d) m" for m
  proof -
    have m: "m \<noteq> StateLevel2" "\<not> dv_lock d m" using that by (auto simp: f split: if_splits)
    then have "entered L m d" using ok by (simp add: dev_ok_def)
    then show ?thesis using m entered_cong [of "to_poll DEV_PollIdleStateHandler d" m d L] by (simp add: f)
  qed
  ultimately show ?thesis by (simp add: dev_ok_def)
next
  case (Some s)
  then show ?thesis using to_poll_ok [OF ok_weak [OF ok] Some, of DEV_PollIdleStateHandler] by (simp add: dev_sets)
qed

lemma idle_enter_ok:
  assumes w: "weak_ok StateLevel0 L d" and st: "dv_state d StateLevel0 = Some DEV_IdleStateHandler"
  shows "ends (idle_enter L env d) (dev_ok L)"
  unfolding idle_enter_def
proof (rule quiet_bind [OF CheckReachable_quiet [OF weak_base [OF w]]])
  fix d1 assume q: "quiet L d d1"
  have s0: "dv_state d1 StateLevel0 = Some DEV_IdleStateHandler" using quiet_fields [OF q] st by simp
  have ok: "dev_ok L d1" by (rule passive_ok [OF quiet_weakD [OF q w] s0]) (simp add: dev_sets)
  have st1: "\<forall>s. dv_state d1 StateLevel1 = Some s \<longrightarrow> s \<in> binding_states" using viewE(2) [OF ok_base [OF ok]] by (auto simp: states_ok_def)
  then have c: "to_binding DEV_BindingHandler (set_bindingIter 0 d1) = set_bindingIter 0 (to_binding DEV_BindingHandler d1)"
    by (cases "dv_state d1 StateLevel1")
      (auto simp: to_binding_def dev_setState_def dev_setState_with_def dev_leave_def leave_simple_def dev_stopStateTimer_def dev_do_def
        set_bindingIter_def upd_binding_def Let_def dev_sets)
  have ok1: "dev_ok L (to_binding DEV_BindingHandler d1)" by (rule start_binding_ok [OF ok s0])
  have s1: "dv_state (to_binding DEV_BindingHandler d1) StateLevel1 = Some DEV_BindingHandler"
    by (cases "dv_state d1 StateLevel1 = Some DEV_BindingHandler") (simp_all add: setState1_fields st1, simp add: to_binding_def dev_setState_def dev_setState_with_def)
  have w2: "weak_ok StateLevel1 L (set_bindingIter 0 (to_binding DEV_BindingHandler d1))"
    by (rule set_iter_weak [OF ok_weak [OF ok1]]) (simp add: s1 dev_sets)
  have ok2: "dev_ok L (set_bindingIter 0 (to_binding DEV_BindingHandler d1))"
    by (rule passive_ok [OF w2, where h = DEV_BindingHandler]) (simp_all add: set_bindingIter_def s1 dev_sets)
  have s02: "dv_state (set_bindingIter 0 (to_binding DEV_BindingHandler d1)) StateLevel0 = Some DEV_IdleStateHandler"
    using s0 by (cases "dv_state d1 StateLevel1 = Some DEV_BindingHandler")
      (simp_all add: set_bindingIter_def setState1_fields st1, simp add: to_binding_def dev_setState_def dev_setState_with_def)
  have "dev_ok L (to_poll DEV_PollIdleStateHandler (set_bindingIter 0 (to_binding DEV_BindingHandler d1)))" by (rule start_poll_ok [OF ok2 s02])
  then show "ends (let d = set_bindingIter 0 d1; d = dev_setState DEV_BindingHandler StateLevel1 d in Some (dev_setState DEV_PollIdleStateHandler StateLevel2 d)) (dev_ok L)"
    using c by (simp add: Let_def to_binding_def to_poll_def)
qed

lemma idle_confirm_quiet:
  assumes "base_ok L d"
  shows "ends (idle_confirm L env e d) (quiet L d)"
proof -
  define n where "n = dv_idleApsConfirmErrors d + 1"
  have q: "quiet L d (d\<lparr>dv_idleApsConfirmErrors := k\<rparr>)" for k by (rule quietI) (simp_all add: dnames_def)
  obtain b where b: "dev_toBool L RStateReachable (d\<lparr>dv_idleApsConfirmErrors := n\<rparr>) = Some b"
    using toBool_ends [OF quiet_base' [OF q assms], of RStateReachable] by (auto simp: need_items_def)
  have u: "d\<lparr>dv_idleApsConfirmErrors := n, dv_idleApsConfirmErrors := 0\<rparr> = d\<lparr>dv_idleApsConfirmErrors := 0\<rparr>" by simp
  have "ends (dev_setNumber L (de_now env) RStateReachable 0 (d\<lparr>dv_idleApsConfirmErrors := 0\<rparr>) \<bind> DEV_CheckReachable L env) (quiet L d)"
  proof (rule ends_bind [OF setNumber_quiet [OF quiet_base' [OF q assms]]])
    fix d1 assume "quiet L (d\<lparr>dv_idleApsConfirmErrors := 0\<rparr>) d1"
    then have q1: "quiet L d d1" by (rule quiet_trans [OF q])
    show "ends (DEV_CheckReachable L env d1) (quiet L d)"
      by (rule ends_mono [OF CheckReachable_quiet [OF quiet_base' [OF q1 assms]]]) (rule quiet_trans [OF q1])
  qed (simp add: need_items_def)
  then show ?thesis using q b by (simp add: idle_confirm_def Let_def u flip: n_def)
qed

lemma idle_ok:
  assumes r: "runs StateLevel0 L e DEV_IdleStateHandler d" and env: "env_ok env" and t: "ev_what e = REventStateEnter \<or> plain e"
  shows "ends (dev_idle L env e d) (dev_ok L)"
proof (cases "ev_what e = REventStateEnter")
  case True
  then show ?thesis using idle_enter_ok [of L d env] r by (simp add: dev_idle_def runs_def)
next
  case False
  then have e: "plain e" using t by simp
  then have ok: "dev_ok L d" using r False by (auto simp: runs_def plain_def)
  note b = ok_base [OF ok]
  have first: "ends (if ev_what e = REventApsConfirm then idle_confirm L env e d
             else if ev_what e \<noteq> RAttrLastSeen \<and> ev_what e \<noteq> REventPoll \<and> (ev_what e = RAttrSwVersion \<or> ev_what e = RAttrName)
             then Some (DEV_PublishToCore L d) else Some d) (quiet L d)"
    using idle_confirm_quiet [OF b] by simp
  have "ends ((if ev_what e = REventApsConfirm then idle_confirm L env e d
             else if ev_what e \<noteq> RAttrLastSeen \<and> ev_what e \<noteq> REventPoll \<and> (ev_what e = RAttrSwVersion \<or> ev_what e = RAttrName)
             then Some (DEV_PublishToCore L d) else Some d) \<bind> (\<lambda>d. do {
        reachable \<leftarrow> dev_reachable L env d;
        _ \<leftarrow> (if reachable then Some True else dev_toBool L RCapSleeper d);
        d \<leftarrow> DEV_CheckItemChanges L env e d;
        d \<leftarrow> handle_sub L env e StateLevel1 d;
        handle_sub L env e StateLevel2 d })) (dev_ok L)"
  proof (rule quiet_bind [OF first])
    fix d1 assume q1: "quiet L d d1"
    note b1 = quiet_base' [OF q1 b]
    obtain r where r: "dev_reachable L env d1 = Some r" using reachable_ends [OF b1] by blast
    obtain s where s: "dev_toBool L RCapSleeper d1 = Some s" using toBool_ends [OF b1, of RCapSleeper] by (auto simp: need_items_def)
    have "ends (DEV_CheckItemChanges L env e d1 \<bind> (\<lambda>d. handle_sub L env e StateLevel1 d \<bind> handle_sub L env e StateLevel2)) (dev_ok L)"
    proof (rule ends_bind [OF CheckItemChanges_quiet [OF b1]])
      fix d2 assume "quiet L d1 d2"
      then have "dev_ok L d2" using quiet_ok [OF quiet_trans [OF q1]] ok by blast
      then show "ends (handle_sub L env e StateLevel1 d2 \<bind> handle_sub L env e StateLevel2) (dev_ok L)"
        by (intro ends_bind [OF handle_sub_ok [OF _ e env]] handle_sub_ok [OF _ e env]) simp_all
    qed
    then show "ends (do {
        reachable \<leftarrow> dev_reachable L env d1;
        _ \<leftarrow> (if reachable then Some True else dev_toBool L RCapSleeper d1);
        d \<leftarrow> DEV_CheckItemChanges L env e d1;
        d \<leftarrow> handle_sub L env e StateLevel1 d;
        handle_sub L env e StateLevel2 d }) (dev_ok L)" using r s by simp
  qed
  then show ?thesis using False e by (simp add: dev_idle_def plain_def)
qed

end
