(* ===== verification/Device_Steps.thy ===== *)
theory Device_Steps
  imports Device_Idle
begin

text \<open>
  Every event, every timer and every operation of the class has a value and keeps the invariant.
\<close>

section \<open>Events and timers\<close>

lemma unlock_weak:
  assumes ok: "dev_ok L d"
  shows "weak_ok l L (d\<lparr>dv_lock := (dv_lock d)(l := False)\<rparr>)"
proof -
  note v = viewE [OF ok_base [OF ok]]
  have "dnames L (d\<lparr>dv_lock := k\<rparr>) = dnames L d" for k by (simp add: dnames_def)
  then have "base_ok L (d\<lparr>dv_lock := (dv_lock d)(l := False)\<rparr>)" by (intro baseI) (use v in \<open>auto simp: timers_ok_def\<close>)
  then show ?thesis using ok entered_cong [of "d\<lparr>dv_lock := (dv_lock d)(l := False)\<rparr>" _ d L] by (simp add: weak_ok_def dev_ok_def)
qed

lemma level_of_num: "level_of n = Some l \<Longrightarrow> n = level_num l"
  by (auto simp: level_of_def level_num_def split: if_split_asm)

text \<open>The handler of a level with its \<open>REventStateEnter\<close>.\<close>

lemma enter_ok:
  assumes ok: "dev_ok L d" and env: "env_ok env" and e: "ev_what e = REventStateEnter" "level_of (ev_num e) = Some l" and h: "dv_state d l = Some h"
  shows "ends (run_handler L env h e (d\<lparr>dv_lock := (dv_lock d)(l := False)\<rparr>)) (dev_ok L)"
proof -
  let ?d = "d\<lparr>dv_lock := (dv_lock d)(l := False)\<rparr>"
  have r: "runs l L e h ?d" using unlock_weak [OF ok] h e event_names(1) by (simp add: runs_def)
  have lk: "\<not> dv_lock ?d l" by simp
  have n: "ev_num e = level_num l" by (rule level_of_num [OF e(2)])
  have st: "states_ok (dv_state d)" by (rule viewE(2) [OF ok_base [OF ok]])
  show ?thesis
  proof (cases l)
    case StateLevel0
    show ?thesis
    proof (cases "h = DEV_IdleStateHandler")
      case True
      then show ?thesis using idle_ok [of L e ?d env] r env e StateLevel0 by (simp add: run_handler_def)
    next
      case False
      then show ?thesis using run_level0 [of L e h ?d env] r StateLevel0 by (simp add: run_handler_def)
    qed
  next
    case StateLevel1
    then have "h \<noteq> DEV_IdleStateHandler" using st h by (auto simp: states_ok_def dev_sets)
    then show ?thesis using run_level1 [of L e h ?d env] r lk StateLevel1 by (simp add: run_handler_def)
  next
    case StateLevel2
    then have "h \<noteq> DEV_IdleStateHandler" using st h by (auto simp: states_ok_def dev_sets)
    then show ?thesis using run_level2 [of L e h ?d env] r lk env n StateLevel2 by (simp add: run_handler_def)
  qed
qed

lemma unlock_same: "\<not> dv_lock d l \<Longrightarrow> d\<lparr>dv_lock := (dv_lock d)(l := False)\<rparr> = d"
proof -
  assume "\<not> dv_lock d l"
  then have "(dv_lock d)(l := False) = dv_lock d" by (simp add: fun_eq_iff)
  then show ?thesis by simp
qed

lemma handleEvent_ok:
  assumes ok: "dev_ok L d" and env: "env_ok env" and e: "ev_what e \<noteq> REventStateLeave" "ev_what e \<noteq> REventStateTimeout"
    and z: "ev_what e = REventZdpReload \<Longrightarrow> dv_node d"
  shows "ends (dev_handleEvent L env e d) (dev_ok L)"
proof -
  note w = ok_weak [OF ok, of StateLevel0]
  show ?thesis
  proof (cases "ev_what e = REventStateEnter")
    case True
    show ?thesis
    proof (cases "level_of (ev_num e)")
      case (Some l)
      have lk: "dv_lock d l \<Longrightarrow> dv_state d l \<noteq> None" using viewE(3) [OF ok_base [OF ok]] by (auto simp: timers_ok_def)
      show ?thesis
      proof (cases "dv_state d l")
        case None
        then have "\<not> dv_lock d l" using lk by blast
        then show ?thesis using True Some None ok by (simp add: dev_handleEvent_def handleEvent_with_def)
      next
        case (Some h)
        then show ?thesis using True \<open>level_of (ev_num e) = Some l\<close> enter_ok [OF ok env True _ Some] unlock_same [of d l]
          by (cases "dv_lock d l") (simp_all add: dev_handleEvent_def handleEvent_with_def)
      qed
    qed (use ok True in \<open>simp add: dev_handleEvent_def handleEvent_with_def\<close>)
  next
    case ne: False
    show ?thesis
    proof (cases "dv_lock d StateLevel0")
      case True
      then show ?thesis using ok ne e by (simp add: dev_handleEvent_def handleEvent_with_def)
    next
      case lk: False
      have ddf: "dev_ok L (dev_startStateTimer 50 StateLevel0 (upd_binding (\<lambda>b. b\<lparr>bc_bindingCheckRound := 0\<rparr>) (dev_setState DEV_InitStateHandler StateLevel0 d)))"
      proof -
        have i: "dev_ok L (dev_setState DEV_InitStateHandler StateLevel0 d)" by (rule to_init_ok [OF w])
        have q: "quiet L (dev_setState DEV_InitStateHandler StateLevel0 d) (upd_binding (\<lambda>b. b\<lparr>bc_bindingCheckRound := 0\<rparr>) (dev_setState DEV_InitStateHandler StateLevel0 d))"
          by (rule upd_quiet) (simp add: bshape_def)
        have s: "dv_state (dev_setState DEV_InitStateHandler StateLevel0 d) StateLevel0 = Some DEV_InitStateHandler"
          by (cases "dv_state d StateLevel0 = Some DEV_InitStateHandler") (simp_all add: setState_some, simp add: dev_setState_def dev_setState_with_def)
        show ?thesis by (rule start0_ok [OF quiet_weakD [OF q ok_weak [OF i]]]) (simp_all add: s)
      qed
      have zdp: "dev_ok L (dev_startStateTimer 50 StateLevel0 (dev_setState DEV_ActiveEndpointsStateHandler StateLevel0 d))" if "dv_node d"
      proof -
        have s: "dv_state (dev_setState DEV_ActiveEndpointsStateHandler StateLevel0 d) StateLevel0 = Some DEV_ActiveEndpointsStateHandler"
          by (cases "dv_state d StateLevel0 = Some DEV_ActiveEndpointsStateHandler") (simp_all add: setState_some, simp add: dev_setState_def dev_setState_with_def)
        have "weak_ok StateLevel0 L (dev_setState DEV_ActiveEndpointsStateHandler StateLevel0 d)"
        proof (cases "dv_state d StateLevel0 = Some DEV_ActiveEndpointsStateHandler")
          case True
          then show ?thesis using w by (simp add: dev_setState_def dev_setState_with_def)
        next
          case False
          show ?thesis by (rule ok_weak, rule to_state0_ok [OF w]) (use that False in \<open>simp_all add: dev_sets\<close>)
        qed
        then show ?thesis by (rule start0_ok) (simp_all add: s)
      qed
      consider "ev_what e = REventDDFReload" | "ev_what e = REventZdpReload" "ev_what e \<noteq> REventDDFReload"
        | "plain e" using e ne unfolding plain_def by blast
      then show ?thesis
      proof cases
        case 1
        then show ?thesis using ddf ne e lk by (simp add: dev_handleEvent_def handleEvent_with_def)
      next
        case 2
        then show ?thesis using zdp [OF z] ne e lk by (simp add: dev_handleEvent_def handleEvent_with_def)
      next
        case 3
        show ?thesis
        proof (cases "dv_state d StateLevel0")
          case None
          then show ?thesis using ok 3 lk by (simp add: dev_handleEvent_def handleEvent_with_def plain_def)
        next
          case (Some h)
          have awake: "quiet L d (d\<lparr>dv_awake := x\<rparr>)" for x by (rule quietI) (simp_all add: dnames_def)
          have "ends (if ev_what e = REventAwake \<and> StateLevel0 = StateLevel0 then Some (d\<lparr>dv_awake := Some (de_time env)\<rparr>)
              else if ev_what e = RStateReachable \<and> ev_resource e = RDevices then DEV_CheckReachable L env d else Some d) (quiet L d)"
            using CheckReachable_quiet [OF ok_base [OF ok], of env] awake by simp
          then have "ends ((if ev_what e = REventAwake \<and> StateLevel0 = StateLevel0 then Some (d\<lparr>dv_awake := Some (de_time env)\<rparr>)
              else if ev_what e = RStateReachable \<and> ev_resource e = RDevices then DEV_CheckReachable L env d else Some d) \<bind> run_handler L env h e) (dev_ok L)"
          proof (rule ends_bind)
            fix d1 assume q: "quiet L d d1"
            have "dev_ok L d1" using quiet_ok [OF q] ok by simp
            then have r: "runs StateLevel0 L e h d1" using ok_weak quiet_fields(1) [OF q] Some e by (simp add: runs_def)
            show "ends (run_handler L env h e d1) (dev_ok L)"
            proof (cases "h = DEV_IdleStateHandler")
              case True
              then show ?thesis using idle_ok [of L e d1 env] r env 3 by (simp add: run_handler_def)
            next
              case False
              then show ?thesis using run_level0 [OF r False, of env] by (simp add: run_handler_def)
            qed
          qed
          then show ?thesis using 3 lk Some by (simp add: dev_handleEvent_def handleEvent_with_def plain_def)
        qed
      qed
    qed
  qed
qed

lemma cleared_weak:
  assumes "dev_ok L d"
  shows "weak_ok l L (d\<lparr>dv_timer := (dv_timer d)(l := None)\<rparr>)"
  using stop_weak [OF ok_weak [OF assms], of l] by (simp add: dev_stopStateTimer_def)

lemma timerEvent_ok:
  assumes ok: "dev_ok L d" and env: "env_ok env" and t: "dv_timer d l \<noteq> None"
  shows "ends (dev_timerEvent L env l d) (dev_ok L)"
proof -
  let ?d = "d\<lparr>dv_timer := (dv_timer d)(l := None)\<rparr>"
  define e where "e = EventNum (rs_prefix (dv_res ?d)) REventStateTimeout (level_num l) (dv_key ?d)"
  have w: "weak_ok l L ?d" by (rule cleared_weak [OF ok])
  have what: "ev_what e = REventStateTimeout" and num: "ev_num e = level_num l" by (simp_all add: e_def EventNum_def)
  note v = viewE [OF ok_base [OF ok]]
  show ?thesis
  proof (cases "dv_state d l")
    case None
    then have "entered L l ?d" by (cases l) (simp_all add: entered_def entered_view_def dev_view_def)
    then show ?thesis using weak_entered [OF w] None by (simp add: dev_timerEvent_def)
  next
    case (Some h)
    have r: "runs l L e h ?d" using w Some what event_names by (simp add: runs_def)
    have ni: "h \<noteq> DEV_IdleStateHandler"
    proof (cases l)
      case StateLevel0
      then show ?thesis using v(3) t Some by (auto simp: timers_ok_def)
    qed (use v(2) Some in \<open>auto simp: states_ok_def dev_sets\<close>)
    have lk: "l \<noteq> StateLevel0 \<Longrightarrow> \<not> dv_lock ?d l" using v(3) t by (cases l) (auto simp: timers_ok_def)
    have "ends (run_simple L env h e ?d) (dev_ok L)"
    proof (cases l)
      case StateLevel0
      then show ?thesis using run_level0 [of L e h ?d env] r ni by simp
    next
      case StateLevel1
      then show ?thesis using run_level1 [of L e h ?d env] r lk by simp
    next
      case StateLevel2
      then show ?thesis using run_level2 [of L e h ?d env] r lk num env by simp
    qed
    then show ?thesis using Some ni by (simp add: dev_timerEvent_def Let_def run_handler_def e_def)
  qed
qed

section \<open>The operations of the class\<close>

lemma clearBindings_ok:
  assumes ok: "dev_ok L d"
  shows "dev_ok L (dev_clearBindings d)"
proof -
  define f where "f = (\<lambda>b :: binding_context. b\<lparr>bc_bindings := [], bc_bindingTrackers := []\<rparr>)"
  note v = viewE [OF ok_base [OF ok]]
  show ?thesis
  proof (cases "dv_state d StateLevel1")
    case None
    have w: "weak_ok StateLevel1 L (upd_binding f d)"
      by (rule upd_weak [OF ok_weak [OF ok]]) (simp_all add: None f_def bindings_ok_def bshape_def)
    have "entered L StateLevel1 (upd_binding f d)" using None by (simp add: entered_def entered_view_def dev_view_def)
    then show ?thesis using weak_entered [OF w] None by (simp add: dev_clearBindings_def Let_def f_def)
  next
    case (Some s)
    then have s: "s \<noteq> DEV_IdleStateHandler" using v(2) by (auto simp: states_ok_def dev_sets)
    have c: "to_binding DEV_BindingHandler (upd_binding f d) = upd_binding f (to_binding DEV_BindingHandler d)"
      using Some s by (simp add: to_binding_def dev_setState_def dev_setState_with_def dev_leave_def leave_simple_def dev_stopStateTimer_def dev_do_def upd_binding_def Let_def)
    have ok1: "dev_ok L (to_binding DEV_BindingHandler d)" by (rule to_DEV_Binding_ok [OF ok_weak [OF ok] Some])
    have st1: "\<forall>s. dv_state d StateLevel1 = Some s \<longrightarrow> s \<in> binding_states" using v(2) by (auto simp: states_ok_def)
    have s1: "dv_state (to_binding DEV_BindingHandler d) StateLevel1 = Some DEV_BindingHandler"
      by (cases "dv_state d StateLevel1 = Some DEV_BindingHandler") (simp_all add: setState1_fields st1, simp add: to_binding_def dev_setState_def dev_setState_with_def)
    have w: "weak_ok StateLevel1 L (upd_binding f (to_binding DEV_BindingHandler d))"
      by (rule upd_weak [OF ok_weak [OF ok1]]) (simp_all add: s1 f_def bindings_ok_def bshape_def dev_sets)
    have "dev_ok L (upd_binding f (to_binding DEV_BindingHandler d))"
      by (rule passive_ok [OF w, where h = DEV_BindingHandler]) (simp_all add: s1 dev_sets)
    then show ?thesis using Some c by (simp add: dev_clearBindings_def Let_def f_def to_binding_def)
  qed
qed

lemma bshape_grow:
  assumes ok: "dev_ok L d" and f: "bc_bindingIter (f (dv_binding d)) = bc_bindingIter (dv_binding d)"
    "length (bc_bindingTrackers (f (dv_binding d))) = length (bc_bindings (f (dv_binding d)))"
    "length (bc_bindings (dv_binding d)) \<le> length (bc_bindings (f (dv_binding d)))"
    and b: "\<And>b. b \<in> set (bc_bindings (f (dv_binding d))) \<Longrightarrow> bd_isUnicastBinding b \<or> bd_isGroupBinding b"
    and r: "\<And>i. i < length (bc_bindings (dv_binding d)) \<Longrightarrow> bd_reporting (bc_bindings (dv_binding d) ! i) \<noteq> [] \<Longrightarrow> bd_reporting (bc_bindings (f (dv_binding d)) ! i) \<noteq> []"
  shows "dev_ok L (upd_binding f d)"
proof -
  note v = viewE [OF ok_base [OF ok]]
  note e = bindings_okE [OF v(4)]
  have sh: "bindings_ok (dv_state d StateLevel1) (bshape (f (dv_binding d)))"
  proof -
    have sub: "binding_reports \<subseteq> binding_current" by (auto simp: dev_sets)
    have "s \<in> binding_current \<Longrightarrow> bc_bindingIter (dv_binding d) < length (bc_bindings (dv_binding d))" if "dv_state d StateLevel1 = Some s" for s
      using e(3) [OF that] by (simp add: cur_shape_def)
    moreover have "s \<in> binding_reports \<Longrightarrow> bd_reporting (bc_bindings (f (dv_binding d)) ! bc_bindingIter (dv_binding d)) \<noteq> []" if "dv_state d StateLevel1 = Some s" for s
      using e(3,4) [OF that] sub r by (auto simp: cur_shape_def cur_reports_def)
    ultimately show ?thesis using f b sub by (fastforce simp: bindings_ok_def bshape_def)
  qed
  have n: "dnames L (upd_binding f d) = dnames L d" by (simp add: dnames_def)
  have "base_ok L (upd_binding f d)" by (rule baseI) (use v sh n in auto)
  moreover have "entered L m (upd_binding f d)" if "\<not> dv_lock d m" for m
  proof -
    have en: "entered L m d" using ok that by (simp add: dev_ok_def)
    show ?thesis
    proof (cases "m = StateLevel1 \<and> dv_state d StateLevel1 = Some DEV_ReadReportConfigurationHandler")
      case True
      then have "cur_shape d" using e(3) by (simp add: dev_sets)
      then show ?thesis using en True f r by (simp add: entered_def entered_view_def dev_view_def bshape_def cur_shape_def)
    next
      case False
      then show ?thesis using en by (auto simp: entered_def entered_view_def dev_view_def)
    qed
  qed
  ultimately show ?thesis by (simp add: dev_ok_def)
qed

lemma merge_fields:
  "bd_isUnicastBinding (mergeBindingReportConfigs a b) = bd_isUnicastBinding a" "bd_isGroupBinding (mergeBindingReportConfigs a b) = bd_isGroupBinding a"
  "bd_reporting a \<noteq> [] \<Longrightarrow> bd_reporting (mergeBindingReportConfigs a b) \<noteq> []"
proof -
  define g where "g = (\<lambda>br (a :: ddf_binding). if list_ex (\<lambda>ar. dr_attributeId ar = dr_attributeId br) (bd_reporting a) then a else a\<lparr>bd_reporting := bd_reporting a @ [br]\<rparr>)"
  have "bd_isUnicastBinding (fold g rs a) = bd_isUnicastBinding a \<and> bd_isGroupBinding (fold g rs a) = bd_isGroupBinding a \<and>
      (bd_reporting a \<noteq> [] \<longrightarrow> bd_reporting (fold g rs a) \<noteq> [])" for rs a
    by (induction rs arbitrary: a) (simp_all add: g_def)
  then show "bd_isUnicastBinding (mergeBindingReportConfigs a b) = bd_isUnicastBinding a" "bd_isGroupBinding (mergeBindingReportConfigs a b) = bd_isGroupBinding a"
    "bd_reporting a \<noteq> [] \<Longrightarrow> bd_reporting (mergeBindingReportConfigs a b) \<noteq> []"
    by (simp_all add: mergeBindingReportConfigs_def flip: g_def)
qed

lemma update_first_props: "length (update_first P f xs) = length xs \<and> (\<forall>i < length xs. update_first P f xs ! i = xs ! i \<or> update_first P f xs ! i = f (xs ! i))"
proof (induction xs)
  case (Cons x xs)
  then show ?case by (auto simp: nth_Cons split: nat.split)
qed simp

lemma addBinding_ok:
  assumes ok: "dev_ok L d" and b: "bd_isUnicastBinding b \<or> bd_isGroupBinding b"
  shows "ends (dev_addBinding b d) (dev_ok L)"
proof -
  let ?bs = "bc_bindings (dv_binding d)"
  note e = bindings_okE [OF viewE(4) [OF ok_base [OF ok]]]
  have "dev_ok L (upd_binding (\<lambda>c. c\<lparr>bc_bindings := update_first (\<lambda>i. isSame i b) (\<lambda>i. mergeBindingReportConfigs i b) (bc_bindings c)\<rparr>) d)"
  proof (rule bshape_grow [OF ok])
    note u = update_first_props [of "\<lambda>i. isSame i b" "\<lambda>i. mergeBindingReportConfigs i b" ?bs]
    show "bd_isUnicastBinding x \<or> bd_isGroupBinding x" if "x \<in> set (bc_bindings ((dv_binding d)\<lparr>bc_bindings := update_first (\<lambda>i. isSame i b) (\<lambda>i. mergeBindingReportConfigs i b) ?bs\<rparr>))" for x
    proof -
      note m = that
      obtain i where "i < length (update_first (\<lambda>i. isSame i b) (\<lambda>i. mergeBindingReportConfigs i b) ?bs)"
          "x = update_first (\<lambda>i. isSame i b) (\<lambda>i. mergeBindingReportConfigs i b) ?bs ! i" using m by (auto simp: in_set_conv_nth)
      then have "i < length ?bs" "x = ?bs ! i \<or> x = mergeBindingReportConfigs (?bs ! i) b" using u by auto
      then show ?thesis using e(2) [of "?bs ! i"] merge_fields by auto
    qed
    show "bd_reporting (bc_bindings ((dv_binding d)\<lparr>bc_bindings := update_first (\<lambda>i. isSame i b) (\<lambda>i. mergeBindingReportConfigs i b) ?bs\<rparr>) ! i) \<noteq> []"
      if "i < length ?bs" "bd_reporting (?bs ! i) \<noteq> []" for i
      using u that merge_fields(3) [OF that(2)] by auto
  qed (use e(1) update_first_props [of _ _ ?bs] in auto)
  moreover have "dev_ok L (upd_binding (\<lambda>c. c\<lparr>bc_bindings := ?bs @ [x], bc_bindingTrackers := bc_bindingTrackers c @ [0]\<rparr>) d)"
    if "bd_isUnicastBinding x \<or> bd_isGroupBinding x" for x
    by (rule bshape_grow [OF ok]) (use e that in \<open>auto simp: nth_append\<close>)
  ultimately show ?thesis using b e(1) by (simp add: dev_addBinding_def Let_def)
qed

end
