(* ===== verification/Device_Reach.thy ===== *)
theory Device_Reach
  imports Device_Steps
begin

text \<open>
  Devices as the program makes them: the constructor establishes the invariant, and everything that happens to a device
  afterwards keeps it.
\<close>

section \<open>A new device\<close>

lemma addItem_there:
  assumes "distinct (map rd_suffix ds)" "length ds \<le> 65536" "\<exists>d \<in> set ds. rd_suffix d = s \<and> rd_type d = t"
  shows "fst (rs_addItem ds t s r) \<and> s \<in> set (names_of ds (snd (rs_addItem ds t s r)))"
proof (cases "rs_item ds s r")
  case None
  obtain d where f: "List.find (\<lambda>d. rd_suffix d = s \<and> rd_type d = t) ds = Some d" using assms(3) by (cases "List.find (\<lambda>d. rd_suffix d = s \<and> rd_type d = t) ds") (auto simp: find_None_iff)
  then have d: "d \<in> set ds" "rd_suffix d = s" by (auto simp: find_Some_iff)
  then show ?thesis using descriptor_new [OF assms(1,2) d(1)] by (simp add: rs_addItem_def None f names_of_def)
next
  case (Some i)
  then show ?thesis using item_None [of ds s r] by (simp add: rs_addItem_def)
qed

lemma add_device_items_ends:
  assumes "distinct (map rd_suffix (al_rids L))" "length (al_rids L) \<le> 65536" "\<forall>(t, s, p) \<in> set its. \<exists>d \<in> set (al_rids L). rd_suffix d = s \<and> rd_type d = t"
  shows "ends (add_device_items L its r) (\<lambda>r'. set (names_of (al_rids L) r) \<union> (\<lambda>(t, s, p). s) ` set its \<subseteq> set (names_of (al_rids L) r'))"
  using assms(3)
proof (induction its arbitrary: r)
  case (Cons x its)
  obtain t s p where x: "x = (t, s, p)" by (metis prod_cases3)
  obtain ok r1 where a: "rs_addItem (al_rids L) t s r = (ok, r1)" by fastforce
  define r2 where "r2 = (if p then r1 else rs_update (al_rids L) s (ri_setIsPublic False) r1)"
  have "\<exists>d \<in> set (al_rids L). rd_suffix d = s \<and> rd_type d = t" using Cons.prems x by simp
  then have there: "ok" "s \<in> set (names_of (al_rids L) r1)" using addItem_there [OF assms(1,2), of s t r] a by simp_all
  have n: "names_of (al_rids L) r2 = names_of (al_rids L) r1" by (simp add: r2_def names_update)
  have "ends (add_device_items L its r2) (\<lambda>r'. set (names_of (al_rids L) r2) \<union> (\<lambda>(t, s, p). s) ` set its \<subseteq> set (names_of (al_rids L) r'))"
    by (rule Cons.IH) (use Cons.prems in simp)
  then have "ends (add_device_items L its r2) (\<lambda>r'. set (names_of (al_rids L) r) \<union> (\<lambda>(t, s, p). s) ` set (x # its) \<subseteq> set (names_of (al_rids L) r'))"
    by (rule ends_mono) (use addItem_names [of "al_rids L" r t s] there a n x in auto)
  then show ?case using there by (simp add: x a flip: r2_def)
qed simp

lemma rids_init:
  assumes "al_rids L = initResourceDescriptors"
  shows "distinct (map rd_suffix (al_rids L))" "length (al_rids L) \<le> 65536"
    "\<forall>(t, s, p) \<in> set device_items. \<exists>d \<in> set (al_rids L). rd_suffix d = s \<and> rd_type d = t"
proof -
  show "distinct (map rd_suffix (al_rids L))" using table_ok_init assms by (simp add: table_ok_def)
  show "length (al_rids L) \<le> 65536"
    by (simp add: assms initResourceDescriptors_def descriptors_attr_def descriptors_state_def descriptors_cap_def descriptors_config_def)
  have "set [rid DataTypeBool QVBool RStateReachable, rid DataTypeBool QVBool RCapSleeper, rid DataTypeUInt64 QVDouble RAttrExtAddress,
      rid DataTypeUInt16 QVDouble RAttrNwkAddress, rid DataTypeString QVString RAttrUniqueId, rid DataTypeString QVString RAttrManufacturerName,
      rid DataTypeString QVString RAttrModelId, rid DataTypeString QVString RAttrDdfPolicy, rid DataTypeString QVString RAttrDdfHash,
      rid DataTypeUInt32 QVDouble RAttrOtaVersion] \<subseteq> set initResourceDescriptors"
    by (simp add: initResourceDescriptors_def descriptors_attr_def descriptors_state_def descriptors_cap_def descriptors_config_def)
  moreover have "\<exists>d \<in> set initResourceDescriptors. rd_suffix d = s \<and> rd_type d = t" if "rid t v s \<in> set initResourceDescriptors" for t v s
    using that by (intro bexI [of _ "rid t v s"]) (simp_all add: rid_def rid_range_def)
  ultimately show "\<forall>(t, s, p) \<in> set device_items. \<exists>d \<in> set (al_rids L). rd_suffix d = s \<and> rd_type d = t"
    unfolding assms device_items_def by auto
qed

lemma Device_ok:
  assumes "al_rids L = initResourceDescriptors"
  shows "ends (Device L now key at) (dev_ok L)"
proof -
  note i = rids_init [OF assms]
  obtain r0 where r0: "rs_new RDevices = Some r0" by (simp add: rs_new_def)
  obtain r where r: "add_device_items L device_items r0 = Some r" and n: "(\<lambda>(t, s, p). s) ` set device_items \<subseteq> set (names_of (al_rids L) r)"
    using add_device_items_ends [OF i, of r0] by (auto simp: ends_iff)
  have "RAttrUniqueId \<in> set (names_of (al_rids L) r)" using n by (auto simp: device_items_def)
  then obtain u where u: "rs_item (al_rids L) RAttrUniqueId r = Some u" using item_None [of "al_rids L" RAttrUniqueId r] by auto
  obtain uid where uid: "generateUniqueId key 0 0 = Some uid" using unique_id_roundtrip [of key 0 0] by blast
  obtain ok at' u' where s: "ri_setString (al_atoms L) (al_qt L) (al_rids L) now uid SourceUnknown at u = (ok, at', u')" by (metis prod_cases3)
  have "ri_suffix (al_rids L) u' = RAttrUniqueId"
    using item_suffix [OF u] descriptor_cong [OF setVariant_index [OF s [unfolded ri_setString_def]]] by simp
  then have nm: "names_of (al_rids L) (rs_update (al_rids L) RAttrUniqueId (\<lambda>_. u') r) = names_of (al_rids L) r" by (rule names_write)
  have "names_ok (names_of (al_rids L) r, [])" using n by (auto simp: names_ok_def need_items_def device_items_def)
  then show ?thesis
    by (simp add: Device_def r0 r u uid s dev_ok_def base_ok_def base_view_def dev_view_def dnames_def nm states_ok_def timers_ok_def bindings_ok_def bshape_def
        bc_new_def entered_def entered_view_def)
qed

section \<open>Reachable devices\<close>

text \<open>
  A device as the program makes it: it is created, its state is set after the constructor, events and timers are handled,
  bindings are added and cleared, and other code writes its items, its sub-devices and its flags. The emitter has no
  leave or timeout events, and reloading the descriptors is for a device with a node.
\<close>

definition items_kept :: "'at res_lib \<Rightarrow> resource \<Rightarrow> resource list \<Rightarrow> bool" where
  "items_kept L r rs \<longleftrightarrow> need_items \<subseteq> set (names_of (al_rids L) r) \<and> (\<forall>s \<in> set rs. RAttrUniqueId \<in> set (names_of (al_rids L) s) \<and> RAttrId \<in> set (names_of (al_rids L) s))"

definition from_emitter :: "event \<Rightarrow> 'at device \<Rightarrow> bool" where
  "from_emitter e d \<longleftrightarrow> ev_what e \<noteq> REventStateLeave \<and> ev_what e \<noteq> REventStateTimeout \<and> (ev_what e = REventZdpReload \<longrightarrow> dv_node d)"

inductive dev_reach :: "'at res_lib \<Rightarrow> 'at device \<Rightarrow> bool" for L where
  created: "Device L now key at = Some d \<Longrightarrow> dev_reach L d"
| started: "dev_reach L d \<Longrightarrow> dev_reach L (dev_start d)"
| event: "dev_reach L d \<Longrightarrow> env_ok env \<Longrightarrow> from_emitter e d \<Longrightarrow> dev_handleEvent L env e d = Some d' \<Longrightarrow> dev_reach L d'"
| timer: "dev_reach L d \<Longrightarrow> env_ok env \<Longrightarrow> dv_timer d l \<noteq> None \<Longrightarrow> dev_timerEvent L env l d = Some d' \<Longrightarrow> dev_reach L d'"
| add: "dev_reach L d \<Longrightarrow> bd_isUnicastBinding b \<or> bd_isGroupBinding b \<Longrightarrow> dev_addBinding b d = Some d' \<Longrightarrow> dev_reach L d'"
| clear: "dev_reach L d \<Longrightarrow> dev_reach L (dev_clearBindings d)"
| items: "dev_reach L d \<Longrightarrow> items_kept L r rs \<Longrightarrow> dev_reach L (d\<lparr>dv_res := r, dv_subs := rs, dv_atoms := at\<rparr>)"
| managed: "dev_reach L d \<Longrightarrow> dev_reach L (dev_setManaged b d)"
| supports: "dev_reach L d \<Longrightarrow> dev_reach L (dev_setSupportsMgmtBind b d)"

lemma items_ok:
  assumes ok: "dev_ok L d" and k: "items_kept L r rs"
  shows "dev_ok L (d\<lparr>dv_res := r, dv_subs := rs, dv_atoms := at\<rparr>)"
proof -
  let ?d = "d\<lparr>dv_res := r, dv_subs := rs, dv_atoms := at\<rparr>"
  have "base_ok L ?d" by (rule baseI) (use viewE [OF ok_base [OF ok]] k in \<open>auto simp: names_ok_def dnames_def items_kept_def\<close>)
  then show ?thesis using ok entered_cong [of ?d _ d L] by (simp add: dev_ok_def)
qed

lemma reach_ok:
  assumes "dev_reach L d" and L: "al_rids L = initResourceDescriptors"
  shows "dev_ok L d"
  using assms(1)
proof (induction rule: dev_reach.induct)
  case (created now key at d)
  then show ?case using Device_ok [OF L, of now key at] by simp
next
  case (started d)
  then show ?case using to_init_ok [OF ok_weak] by (simp add: dev_start_def)
next
  case (event d env e d')
  then show ?case using handleEvent_ok [of L d env e] by (simp add: from_emitter_def)
next
  case (timer d env l d')
  then show ?case using timerEvent_ok [of L d env l] by simp
next
  case (add d b d')
  then show ?case using addBinding_ok [of L d b] by simp
next
  case (clear d)
  then show ?case using clearBindings_ok by blast
next
  case (items d r rs at)
  show ?case by (rule items_ok [OF items.IH items.hyps(2)])
next
  case (managed d b)
  have "quiet L d (dev_setManaged b d)" by (rule quietI) (simp_all add: dev_setManaged_def dnames_def)
  then show ?case using quiet_ok managed by blast
next
  case (supports d b)
  have "quiet L d (dev_setSupportsMgmtBind b d)" by (simp add: dev_setSupportsMgmtBind_def)
  then show ?case using quiet_ok supports by blast
qed

end
