(* ===== verification/Device_Safe.thy ===== *)
theory Device_Safe
  imports Device_Reach
begin

text \<open>
  What the invariant is for: no event or timer makes the code leave its data, whatever waits is woken by its timer, and
  polling comes to an end.
\<close>

section \<open>Timeouts\<close>

definition level_waits :: "dev_level \<Rightarrow> dev_handler set" where
  "level_waits l = (case l of StateLevel0 \<Rightarrow> dev_waits | StateLevel1 \<Rightarrow> insert DEV_BindingTableReadHandler binding_waits | StateLevel2 \<Rightarrow> poll_waits)"

text \<open>The state after a timeout.\<close>

definition timeout_state :: "dev_level \<Rightarrow> dev_handler" where
  "timeout_state l = (case l of StateLevel0 \<Rightarrow> DEV_InitStateHandler | StateLevel1 \<Rightarrow> DEV_BindingHandler | StateLevel2 \<Rightarrow> DEV_PollNextStateHandler)"

lemma setState_state: "dv_state (dev_setState h l d) l = Some h"
  by (cases "dv_state d l = Some h") (simp_all add: setState_some, simp add: dev_setState_def dev_setState_with_def)

lemma timeout_simple:
  assumes "h \<in> level_waits l" "h \<noteq> DEV_PollNextStateHandler" "ev_what e = REventStateTimeout" "run_simple L env h e d = Some d'"
  shows "dv_state d' l = Some (timeout_state l)"
  using assms event_names
  by (cases l) (auto simp: level_waits_def dev_sets timeout_state_def run_simple_def dev_nodeDescriptor_def dev_activeEndpoints_def dev_simpleDescriptor_def
      dev_basicCluster_def dev_bindingTableRead_def dev_bindingCreate_def dev_bindingRemove_def dev_readReport_def dev_configureReporting_def dev_bindingIdle_def
      dev_pollBusy_def to_binding_def to_poll_def setState_state)

lemma timeout_leaves:
  assumes "dv_state d l = Some h" "h \<in> level_waits l" "h \<noteq> DEV_PollNextStateHandler" "dev_timerEvent L env l d = Some d'"
  shows "dv_state d' l = Some (timeout_state l)"
proof -
  have "h \<noteq> DEV_IdleStateHandler" using assms(2) by (cases l) (auto simp: level_waits_def dev_sets)
  then have "run_simple L env h (EventNum (rs_prefix (dv_res d)) REventStateTimeout (level_num l) (dv_key d)) (d\<lparr>dv_timer := (dv_timer d)(l := None)\<rparr>) = Some d'"
    using assms(1,4) by (simp add: dev_timerEvent_def Let_def run_handler_def)
  then show ?thesis by (rule timeout_simple [OF assms(2,3), rotated]) (simp add: EventNum_def)
qed

section \<open>How long polling takes\<close>

text \<open>How often the items can still be tried, and a number that goes down with every step of polling.\<close>

definition poll_left :: "poll_item list \<Rightarrow> nat" where
  "poll_left ps = sum_list (map (\<lambda>p. MaxPollItemRetries - pi_retry p) ps)"

definition poll_rank :: "'at device \<Rightarrow> nat" where
  "poll_rank d =
     (if dv_state d StateLevel2 = Some DEV_PollNextStateHandler then 2 * poll_left (dv_pollItems d) + 1
      else if dv_state d StateLevel2 = Some DEV_PollBusyStateHandler then 2 * max 1 (poll_left (dv_pollItems d))
      else 0)"

lemma poll_left_last:
  assumes "ps \<noteq> []" "\<forall>p \<in> set ps. pi_retry p < MaxPollItemRetries"
  shows "poll_left ps = poll_left (butlast ps) + (MaxPollItemRetries - pi_retry (last ps))" "pi_retry (last ps) < MaxPollItemRetries"
proof -
  have "poll_left (butlast ps @ [last ps]) = poll_left (butlast ps) + (MaxPollItemRetries - pi_retry (last ps))" by (simp add: poll_left_def)
  then show "poll_left ps = poll_left (butlast ps) + (MaxPollItemRetries - pi_retry (last ps))" using assms(1) by simp
  show "pi_retry (last ps) < MaxPollItemRetries" using assms by simp
qed

lemma retry_less:
  assumes "ps \<noteq> []" "\<forall>p \<in> set ps. pi_retry p < MaxPollItemRetries" "q = (last ps)\<lparr>pi_retry := pi_retry (last ps) + 1\<rparr>"
  shows "poll_left (if pi_retry q \<ge> MaxPollItemRetries then butlast ps else butlast ps @ [q]) < poll_left ps" "poll_left (butlast ps) < poll_left ps"
  using poll_left_last [OF assms(1,2)] assms(3) by (auto simp: poll_left_def)

lemma pollNext_rank:
  assumes ok: "\<forall>p \<in> set (dv_pollItems d). pi_retry p < MaxPollItemRetries" and st: "dv_state d StateLevel2 = Some DEV_PollNextStateHandler"
    and r: "pollNext_enter L env d = Some d'"
  shows "poll_rank d' < poll_rank d"
proof -
  obtain b where b: "dev_reachable L env d = Some b" using r by (cases "dev_reachable L env d") (simp_all add: pollNext_enter_def)
  define d1 where "d1 = (if \<not> b then d\<lparr>dv_pollItems := []\<rparr> else d)"
  have st1: "dv_state d1 StateLevel2 = Some DEV_PollNextStateHandler" using st by (simp add: d1_def)
  have le: "poll_left (dv_pollItems d1) \<le> poll_left (dv_pollItems d)" by (simp add: d1_def poll_left_def)
  have ok1: "\<forall>p \<in> set (dv_pollItems d1). pi_retry p < MaxPollItemRetries" using ok by (simp add: d1_def)
  note r' = r [unfolded pollNext_enter_def b bind.bind_lunit d1_def [symmetric] Let_def]
  have rk: "poll_rank d = 2 * poll_left (dv_pollItems d) + 1" using st by (simp add: poll_rank_def)
  show ?thesis
  proof (cases "dv_pollItems d1 = []")
    case True
    then have "d' = DEV_EnqueueEvent REventPollDone (to_poll DEV_PollIdleStateHandler d1)" using r' by simp
    then have "dv_state d' StateLevel2 = Some DEV_PollIdleStateHandler" using setState_state [of DEV_PollIdleStateHandler StateLevel2 d1]
      by (simp add: DEV_EnqueueEvent_def dev_do_def to_poll_def)
    then show ?thesis by (simp add: poll_rank_def st)
  next
    case False
    note less = retry_less [OF False ok1 refl]
    let ?q = "(last (dv_pollItems d1))\<lparr>pi_retry := pi_retry (last (dv_pollItems d1)) + 1\<rparr>"
    consider (busy) x where "d' = to_poll DEV_PollBusyStateHandler x" "dv_pollItems x = dv_pollItems d1"
      | (again) "dv_state d' StateLevel2 = Some DEV_PollNextStateHandler"
          "dv_pollItems d' = (if pi_retry ?q \<ge> MaxPollItemRetries then butlast (dv_pollItems d1) else butlast (dv_pollItems d1) @ [?q])"
      | (skip) "dv_state d' StateLevel2 = Some DEV_PollNextStateHandler" "dv_pollItems d' = butlast (dv_pollItems d1)"
      using r' False st1 by (auto simp: dev_do_def split: if_split_asm)
    then show ?thesis
    proof cases
      case busy
      have "poll_left (dv_pollItems d1) \<ge> 1" using less(2) by simp
      moreover have "dv_pollItems d' = dv_pollItems d1" using busy by (simp add: to_poll_def)
      moreover have "dv_state d' StateLevel2 = Some DEV_PollBusyStateHandler" using busy setState_state by (simp add: to_poll_def)
      ultimately show ?thesis using le st by (simp add: poll_rank_def rk)
    next
      case again
      then show ?thesis using less(1) le st by (simp add: poll_rank_def)
    next
      case skip
      then show ?thesis using less(2) le st by (simp add: poll_rank_def)
    qed
  qed
qed

lemma retry_rank:
  assumes "\<forall>p \<in> set (dv_pollItems d). pi_retry p < MaxPollItemRetries" "dv_state d StateLevel2 = Some DEV_PollBusyStateHandler"
    "ps = checkPollItemRetry (dv_pollItems d) \<or> ps = (if dv_pollItems d = [] then [] else butlast (dv_pollItems d))"
    "dv_state d' StateLevel2 = Some DEV_PollNextStateHandler" "dv_pollItems d' = ps"
  shows "poll_rank d' < poll_rank d"
proof (cases "dv_pollItems d = []")
  case True
  then show ?thesis using assms by (auto simp: poll_rank_def poll_left_def checkPollItemRetry_def)
next
  case False
  have "poll_left ps < poll_left (dv_pollItems d)"
    using retry_less [OF False assms(1) refl] assms(3) False by (auto simp: checkPollItemRetry_def Let_def split: if_splits)
  then show ?thesis using assms by (simp add: poll_rank_def)
qed

lemma pollBusy_rank:
  assumes ok: "\<forall>p \<in> set (dv_pollItems d). pi_retry p < MaxPollItemRetries" and st: "dv_state d StateLevel2 = Some DEV_PollBusyStateHandler"
    and e: "ev_what e \<noteq> REventStateLeave" and r: "dev_pollBusy L env e d = Some d'"
  shows "poll_rank d' \<le> poll_rank d" "ev_what e = REventStateTimeout \<Longrightarrow> poll_rank d' < poll_rank d"
proof -
  have same: "poll_rank d' \<le> poll_rank d" if "dv_state d' StateLevel2 = dv_state d StateLevel2" "dv_pollItems d' = dv_pollItems d"
    using that by (simp add: poll_rank_def)
  have retry: "poll_rank d' < poll_rank d" if "d' = to_poll DEV_PollNextStateHandler (d\<lparr>dv_pollItems := checkPollItemRetry (dv_pollItems d)\<rparr>)"
    by (rule retry_rank [OF ok st disjI1 [OF refl]]) (simp_all add: that to_poll_def setState_state)
  have rsp: "poll_rank d' < poll_rank d" if "d' = poll_response L env e d"
    by (rule retry_rank [OF ok st disjI2 [OF refl]]) (auto simp: that poll_response_def Let_def to_poll_def setState_state)
  show "ev_what e = REventStateTimeout \<Longrightarrow> poll_rank d' < poll_rank d" using r event_names retry by (auto simp: dev_pollBusy_def)
  show "poll_rank d' \<le> poll_rank d"
    using r e same retry rsp by (auto simp: dev_pollBusy_def split: if_split_asm)
qed

lemma pollNext_handler_rank:
  assumes ok: "\<forall>p \<in> set (dv_pollItems d). pi_retry p < MaxPollItemRetries" and st: "dv_state d StateLevel2 = Some DEV_PollNextStateHandler"
    and e: "ev_what e \<noteq> REventStateLeave" and r: "dev_pollNext L env e d = Some d'"
  shows "poll_rank d' \<le> poll_rank d" "ev_what e = REventStateTimeout \<or> ev_what e = REventStateEnter \<Longrightarrow> poll_rank d' < poll_rank d"
proof -
  have "pollNext_enter L env d = Some d' \<or> d' = d" "ev_what e = REventStateTimeout \<or> ev_what e = REventStateEnter \<Longrightarrow> pollNext_enter L env d = Some d'"
    using r e by (auto simp: dev_pollNext_def c_assert_eq_Some bind_eq_Some_conv split: if_split_asm)
  then show "poll_rank d' \<le> poll_rank d" "ev_what e = REventStateTimeout \<or> ev_what e = REventStateEnter \<Longrightarrow> poll_rank d' < poll_rank d"
    using pollNext_rank [OF ok st] by fastforce+
qed

section \<open>Properties\<close>




text \<open>C40: 
  Error: the descriptors of a device without a node are reloaded although the interview needs it: the event is accepted in
  the first state, and the entered state reads the endpoints through the null pointer.
\<close>

theorem zdp_reload_without_node:
  assumes "dv_state d StateLevel0 = Some DEV_InitStateHandler" "\<not> dv_lock d StateLevel0" "\<not> dv_node d"
  shows "\<exists>d'. dev_handleEvent L env (EventNum RDevices REventZdpReload 0 (dv_key d)) d = Some d' \<and>
    dev_handleEvent L env' (EventNum RDevices REventStateEnter 0 (dv_key d)) d' = None"
proof -
  have n: "REventZdpReload \<noteq> REventStateEnter" "REventZdpReload \<noteq> REventStateLeave" "REventZdpReload \<noteq> REventDDFReload" by (simp_all add: suffixes)
  define d' where "d' = dev_startStateTimer 50 StateLevel0 (dev_setState DEV_ActiveEndpointsStateHandler StateLevel0 d)"
  have a: "dev_handleEvent L env (EventNum RDevices REventZdpReload 0 (dv_key d)) d = Some d'"
    using assms n by (simp add: dev_handleEvent_def handleEvent_with_def EventNum_def d'_def)
  have s: "dv_state d' StateLevel0 = Some DEV_ActiveEndpointsStateHandler" "dv_node d' = dv_node d" by (simp_all add: d'_def setState_state)
  have "dev_handleEvent L env' (EventNum RDevices REventStateEnter 0 (dv_key d)) d' = None"
    using assms s by (simp add: dev_handleEvent_def handleEvent_with_def EventNum_def level_of_def run_handler_def run_simple_def dev_activeEndpoints_def
        activeEndpoints_enter_def dev_core_def)
  then show ?thesis using a by blast
qed

section \<open>A device\<close>

definition node0 :: core_node where
  "node0 = \<lparr>cn_isCoordinator = False, cn_hasExt = True, cn_ext = 0x00158D0001, cn_hasNwk = True, cn_nwk = 0x1234, cn_nodeDescriptorNull = False,
     cn_receiverOnWhenIdle = True, cn_endpoints = [1], cn_simpleDescriptors = [\<lparr>sd_endpoint = 1, sd_deviceId = 0x0100, sd_inClusters = []\<rparr>], cn_bindingTable = []\<rparr>"

definition env0 :: dev_env where
  "env0 = \<lparr>ApsSuccessStatus = 0, ZdpSuccess = 0, ZdpNotSupported = 0x84, ZdpNotPermitted = 0x8B, ZclSuccessStatus = 0, ZclUnsupportedAttributeStatus = 0x86,
     de_now = 5000, de_time = 5000, de_hasNode = True, de_node = node0, de_hasCoreNode = \<lambda>_. True, de_macAddress = 0x00212E0001,
     de_zdp = \<lambda>_. \<lparr>zd_isEnqueued = True, zd_apsReqId = 1, zd_zdpSeq = 1\<rparr>, de_zcl = \<lambda>_. \<lparr>zc_isEnqueued = True, zc_apsReqId = 2, zc_sequenceNumber = 2\<rparr>,
     de_read = \<lambda>_. \<lparr>re_isEnqueued = True, re_ignoreResponseSequenceNumber = False, re_apsReqId = 3, re_sequenceNumber = 3, re_clusterId = 6\<rparr>,
     de_unconfirmed = 0, de_info = \<lambda>_. \<lparr>ii_lastZclReport = 0, ii_zclParam = Some (6, 1, [0]), ii_refreshInterval = 0, ii_readParameters = ReadMap None\<rparr>,
     de_data = \<lambda>_. None, de_reportRsp = \<lambda>_. None, de_toUShort = \<lambda>_. None, de_changes = \<lambda>_. idle_env 5000, de_same = \<lambda>_ _. False\<rparr>"

definition dev_lib0 :: "string list res_lib" where
  "dev_lib0 = \<lparr>al_atoms = atoms0, al_qt = qt0, al_fmt = \<lambda>_ _. [], al_rids = initResourceDescriptors\<rparr>"

lemma env0_ok: "env_ok env0"
  by (simp add: env_ok_def env0_def)

lemma dev_lib0_rids: "al_rids dev_lib0 = initResourceDescriptors"
  by (simp add: dev_lib0_def)

text \<open>A new device, started.\<close>

lemma new_fields:
  assumes "Device L now key at = Some d"
  shows "dv_state d = (\<lambda>_. None)" "\<not> dv_node d" "dv_key d = key" "dv_initialRun d" "dv_binding d = bc_new" "dv_awake d = None" "dv_randomDelay d = 0"
    "\<not> dv_needReadActiveEndpoints d" "\<not> dv_needReadSimpleDescriptors d" "dv_subs d = []" "dv_out d = []"
  using assms by (auto simp: Device_def bind_eq_Some_conv Let_def case_prod_beta)

lemma start_fields':
  assumes "dv_state d StateLevel0 = None"
  shows "dv_state (dev_start d) StateLevel0 = Some DEV_InitStateHandler" "dv_lock (dev_start d) StateLevel0" "dv_key (dev_start d) = dv_key d"
    "dv_initialRun (dev_start d) = dv_initialRun d" "dv_awake (dev_start d) = dv_awake d" "dv_randomDelay (dev_start d) = dv_randomDelay d"
  using assms by (simp_all add: dev_start_def dev_setState_def dev_setState_with_def dev_do_def Let_def)

lemma device0: "\<exists>d. dev_reach dev_lib0 d \<and> dv_state d StateLevel0 = Some DEV_InitStateHandler \<and> \<not> dv_node d \<and> dv_lock d StateLevel0 \<and> dv_key d = 0x00158D0001"
proof -
  obtain d where d: "Device dev_lib0 5000 0x00158D0001 [] = Some d" using Device_ok [OF dev_lib0_rids, of 5000 "0x00158D0001" "[]"] by (auto simp: ends_iff)
  have "dev_reach dev_lib0 (dev_start d)" by (rule started, rule created) (rule d)
  moreover have "\<not> dv_node (dev_start d)" using new_fields [OF d] by (simp add: dev_start_def)
  ultimately show ?thesis using start_fields' [of d] new_fields [OF d] by auto
qed

end
