(* ===== verification/Device_Run.thy ===== *)
theory Device_Run
  imports Device_Safe
begin

text \<open>
  The interview of a device that the core knows, and devices on which the properties are tried.
\<close>

section \<open>The interview of a device the core knows\<close>

fun dev_events :: "'at res_lib \<Rightarrow> dev_env \<Rightarrow> event list \<Rightarrow> 'at device \<Rightarrow> 'at device option" where
  "dev_events L env [] d = Some d"
| "dev_events L env (e # es) d = do { d \<leftarrow> dev_handleEvent L env e d; dev_events L env es d }"

text \<open>What the interview can ask for is there: the descriptors of the node, and the attributes that identify the device.\<close>

definition node_complete :: "core_node \<Rightarrow> bool" where
  "node_complete n \<longleftrightarrow> \<not> cn_isCoordinator n \<and> \<not> cn_nodeDescriptorNull n \<and> cn_endpoints n \<noteq> [] \<and> (\<forall>ep \<in> set (cn_endpoints n). has_descriptor n ep)"

definition known :: "'at res_lib \<Rightarrow> 'at device \<Rightarrow> bool" where
  "known L d \<longleftrightarrow> (\<forall>s \<in> {RAttrManufacturerName, RAttrModelId}. \<exists>i. dev_item L s d = Some i \<and> ri_lastSet i \<noteq> None)"

fun is_request :: "dev_effect \<Rightarrow> bool" where
  "is_request (FX_Zdp _) = True"
| "is_request (FX_Zcl _) = True"
| "is_request (FX_Read _) = True"
| "is_request _ = False"

definition asked :: "'at device \<Rightarrow> dev_effect list" where
  "asked d = filter is_request (dv_out d)"

definition ready :: "'at res_lib \<Rightarrow> dev_effect list \<Rightarrow> 'at device \<Rightarrow> bool" where
  "ready L q d \<longleftrightarrow> \<not> dv_needReadActiveEndpoints d \<and> \<not> dv_needReadSimpleDescriptors d \<and> known L d \<and> asked d = q"

lemma ready_cong:
  assumes "dv_needReadActiveEndpoints d' = dv_needReadActiveEndpoints d" "dv_needReadSimpleDescriptors d' = dv_needReadSimpleDescriptors d"
    "dv_res d' = dv_res d" "asked d' = asked d"
  shows "ready L q d' = ready L q d"
  using assms by (simp add: ready_def known_def dev_item_def)

lemma setState_more [simp]:
  "dv_needReadActiveEndpoints (dev_setState h l d) = dv_needReadActiveEndpoints d"
  "dv_needReadSimpleDescriptors (dev_setState h l d) = dv_needReadSimpleDescriptors d"
  "dv_managed (dev_setState h l d) = dv_managed d" "dv_hasDdf (dev_setState h l d) = dv_hasDdf d"
  "asked (dev_setState h l d) = asked d"
proof -
  have s: "dv_needReadActiveEndpoints (leave_simple h d) = dv_needReadActiveEndpoints d \<and> dv_needReadSimpleDescriptors (leave_simple h d) = dv_needReadSimpleDescriptors d \<and>
      dv_managed (leave_simple h d) = dv_managed d \<and> dv_hasDdf (leave_simple h d) = dv_hasDdf d \<and> dv_out (leave_simple h d) = dv_out d" for h and d :: "'a device"
    by (simp add: leave_simple_def dev_stopStateTimer_def)
  have n: "dv_needReadActiveEndpoints (dev_setState_with leave_simple None l d) = dv_needReadActiveEndpoints d \<and>
      dv_needReadSimpleDescriptors (dev_setState_with leave_simple None l d) = dv_needReadSimpleDescriptors d \<and>
      dv_managed (dev_setState_with leave_simple None l d) = dv_managed d \<and> dv_hasDdf (dev_setState_with leave_simple None l d) = dv_hasDdf d \<and>
      dv_out (dev_setState_with leave_simple None l d) = dv_out d" for l and d :: "'a device"
    by (simp add: dev_setState_with_def Let_def s split: option.split)
  have i: "dv_needReadActiveEndpoints (leave_idle d) = dv_needReadActiveEndpoints d \<and> dv_needReadSimpleDescriptors (leave_idle d) = dv_needReadSimpleDescriptors d \<and>
      dv_managed (leave_idle d) = dv_managed d \<and> dv_hasDdf (leave_idle d) = dv_hasDdf d \<and> dv_out (leave_idle d) = dv_out d" for d :: "'a device"
    by (simp add: leave_idle_def Let_def n dev_stopStateTimer_def)
  have v: "dv_needReadActiveEndpoints (dev_leave h d) = dv_needReadActiveEndpoints d \<and> dv_needReadSimpleDescriptors (dev_leave h d) = dv_needReadSimpleDescriptors d \<and>
      dv_managed (dev_leave h d) = dv_managed d \<and> dv_hasDdf (dev_leave h d) = dv_hasDdf d \<and> dv_out (dev_leave h d) = dv_out d" for h and d :: "'a device"
    by (simp add: dev_leave_def s i)
  show "dv_needReadActiveEndpoints (dev_setState h l d) = dv_needReadActiveEndpoints d"
    "dv_needReadSimpleDescriptors (dev_setState h l d) = dv_needReadSimpleDescriptors d"
    "dv_managed (dev_setState h l d) = dv_managed d" "dv_hasDdf (dev_setState h l d) = dv_hasDdf d"
    "asked (dev_setState h l d) = asked d"
    by (simp_all add: dev_setState_def dev_setState_with_def dev_do_def Let_def v asked_def split: option.split)
qed

lemma setState_ready [simp]: "ready L q (dev_setState h l d) = ready L q d"
  by (rule ready_cong) simp_all

lemma write_ready:
  assumes "ri_suffix (al_rids L) j = s" "s \<noteq> RAttrManufacturerName" "s \<noteq> RAttrModelId" "ready L q d"
  shows "ready L q (dev_write L s j d)"
proof -
  have "dev_item L t (dev_write L s j d) = dev_item L t d" if "t \<noteq> s" for t
    using that by (simp add: dev_item_def dev_write_def rs_item_update_const [OF assms(1)])
  then show ?thesis using assms by (auto simp: ready_def known_def) (simp_all add: dev_write_def asked_def)
qed

lemma setNumber_ready:
  assumes "dev_setNumber L now s n d = Some d'" "s \<noteq> RAttrManufacturerName" "s \<noteq> RAttrModelId" "ready L q d"
  shows "ready L q d'"
proof -
  obtain i where i: "dev_item L s d = Some i" and d': "d' = dev_write L s (snd (ri_setNumber (al_rids L) now n SourceUnknown i)) d"
    using assms(1) by (auto simp: dev_setNumber_def bind_eq_Some_conv)
  have "ri_suffix (al_rids L) i = s" using i item_suffix by (fastforce simp: dev_item_def)
  then show ?thesis unfolding d' using assms(2-4) by (intro write_ready) (simp_all add: setNumber_suffix')
qed

lemma syncNumber_ready:
  assumes "dev_syncNumber L now s n d = Some d'" "s \<noteq> RAttrManufacturerName" "s \<noteq> RAttrModelId" "ready L q d"
  shows "ready L q d'"
  using assms setNumber_ready [of L now s n d d' q] by (auto simp: dev_syncNumber_def bind_eq_Some_conv split: if_split_asm)

lemma item_names: "RAttrExtAddress \<noteq> RAttrManufacturerName" "RAttrExtAddress \<noteq> RAttrModelId" "RAttrNwkAddress \<noteq> RAttrManufacturerName" "RAttrNwkAddress \<noteq> RAttrModelId"
  "RCapSleeper \<noteq> RAttrManufacturerName" "RCapSleeper \<noteq> RAttrModelId" "RAttrZoneType \<noteq> RAttrManufacturerName" "RAttrZoneType \<noteq> RAttrModelId"
  by (simp_all add: suffixes)

text \<open>The enter event of level 0.\<close>

definition enter0 :: "device_key \<Rightarrow> event" where
  "enter0 k = EventNum RDevices REventStateEnter 0 k"

lemma enter0_run:
  assumes "dv_state d StateLevel0 = Some h"
  shows "dev_handleEvent L env (enter0 k) d = run_handler L env h (enter0 k) (d\<lparr>dv_lock := (dv_lock d)(StateLevel0 := False)\<rparr>)"
  using assms unlock_same [of d StateLevel0]
  by (cases "dv_lock d StateLevel0") (simp_all add: dev_handleEvent_def handleEvent_with_def enter0_def EventNum_def level_of_def Let_def)

lemma unlock_ready [simp]: "ready L q (d\<lparr>dv_lock := k\<rparr>) = ready L q d"
  by (rule ready_cong) (simp_all add: asked_def)

lemma toBool_Some: "base_ok L d \<Longrightarrow> s \<in> need_items \<Longrightarrow> ends (dev_toBool L s d) (\<lambda>_. True)"
  using toBool_ends by (auto simp: ends_iff)

lemma init_goes:
  assumes ok: "dev_ok L d" and st: "dv_state d StateLevel0 = Some DEV_InitStateHandler" and r: "ready L q d" and i: "dv_initialRun d"
    and env: "de_hasNode env" "node_complete (de_node env)"
  shows "ends (dev_init L env (enter0 k) d) (\<lambda>d'. dv_state d' StateLevel0 = Some DEV_NodeDescriptorStateHandler \<and> ready L q d')"
proof -
  define d1 where "d1 = d\<lparr>dv_zdpResult := zdp_none, dv_node := True, dv_initialRun := False, dv_binding := (dv_binding d)\<lparr>bc_bindingCheckRound := 0\<rparr>\<rparr>"
  have f: "dv_state d1 = dv_state d" "dv_lock d1 = dv_lock d" "dv_timer d1 = dv_timer d" "dv_pollItems d1 = dv_pollItems d"
    "bshape (dv_binding d1) = bshape (dv_binding d)" "dv_res d1 = dv_res d" "dv_subs d1 = dv_subs d" by (simp_all add: d1_def bshape_def)
  note v = viewE [OF ok_base [OF ok]]
  have nd: "dnames L d1 = dnames L d" by (rule dnames_cong [OF f(6,7)])
  have n1: "dv_node d1" by (simp add: d1_def)
  have b1: "base_ok L d1" by (rule baseI) (use v st in \<open>auto simp: f nd n1\<close>)
  have r1: "ready L q d1" using r ready_cong [of d1 d L q] by (simp add: d1_def asked_def)
  have run: "dev_init L env (enter0 k) d = init_run L env (d\<lparr>dv_zdpResult := zdp_none, dv_node := True\<rparr>)"
    using env i event_names by (simp add: dev_init_def enter0_def EventNum_def node_complete_def Let_def init_wakes_def)
  have go: "init_run L env (d\<lparr>dv_zdpResult := zdp_none, dv_node := True\<rparr>) = do {
       d \<leftarrow> dev_syncNumber L (de_now env) RAttrExtAddress (cn_ext (de_node env)) d1;
       d \<leftarrow> dev_syncNumber L (de_now env) RAttrNwkAddress (ucast (cn_nwk (de_node env))) d;
       Some (dev_setState DEV_NodeDescriptorStateHandler StateLevel0 d) }"
    using env by (simp add: init_run_def Let_def node_complete_def d1_def)
  obtain d2 where d2: "dev_syncNumber L (de_now env) RAttrExtAddress (cn_ext (de_node env)) d1 = Some d2" and q2: "quiet L d1 d2"
    using syncNumber_quiet [OF b1, of RAttrExtAddress] by (auto simp: ends_iff need_items_def)
  obtain d3 where d3: "dev_syncNumber L (de_now env) RAttrNwkAddress (ucast (cn_nwk (de_node env))) d2 = Some d3"
    using syncNumber_quiet [OF quiet_base' [OF q2 b1], of RAttrNwkAddress] by (auto simp: ends_iff need_items_def)
  have "ready L q d3" by (rule syncNumber_ready [OF d3 _ _ syncNumber_ready [OF d2 _ _ r1]]) (simp_all add: item_names)
  then show ?thesis by (simp add: run go d2 d3 setState_state)
qed

lemma nodeDescriptor_goes:
  assumes b: "base_ok L d" and n: "dv_node d" and r: "ready L q d" and env: "node_complete (de_node env)"
  shows "ends (dev_nodeDescriptor L env (enter0 k) d) (\<lambda>d'. dv_state d' StateLevel0 = Some DEV_ActiveEndpointsStateHandler \<and> ready L q d')"
proof -
  define d1 where "d1 = d\<lparr>dv_maxResponseTime := (if cn_receiverOnWhenIdle (de_node env) then RxOnWhenIdleResponseTime else RxOffWhenIdleResponseTime)\<rparr>"
  have q: "quiet L d d1" by (rule quietI) (simp_all add: d1_def dnames_def)
  have r1: "ready L q d1" using r ready_cong [of d1 d L q] by (simp add: d1_def asked_def)
  obtain i where i: "dev_item L RCapSleeper d1 = Some i" using item_exists [OF quiet_base' [OF q b], of RCapSleeper] by (auto simp: need_items_def)
  obtain d2 where d2: "dev_setNumber L (de_now env) RCapSleeper (bool_num (\<not> cn_receiverOnWhenIdle (de_node env))) d1 = Some d2"
    using setNumber_quiet [OF quiet_base' [OF q b], of RCapSleeper] by (auto simp: ends_iff need_items_def)
  have "ready L q d2" by (rule setNumber_ready [OF d2 _ _ r1]) (simp_all add: item_names)
  then show ?thesis using env n r1 i d2
    by (simp add: dev_nodeDescriptor_def enter0_def EventNum_def nodeDescriptor_enter_def node_complete_def dev_core_def Let_def setState_state flip: d1_def)
qed

lemma activeEndpoints_goes:
  assumes "dv_node d" "ready L q d" "node_complete (de_node env)"
  shows "ends (dev_activeEndpoints L env (enter0 k) d) (\<lambda>d'. dv_state d' StateLevel0 = Some DEV_SimpleDescriptorStateHandler \<and> ready L q d')"
  using assms by (simp add: dev_activeEndpoints_def enter0_def EventNum_def activeEndpoints_enter_def node_complete_def dev_core_def ready_def setState_state
      flip: ready_def) (simp add: ready_def)

lemma simpleDescriptor_goes:
  assumes n: "dv_node d" and r: "ready L q d" and env: "node_complete (de_node env)"
  shows "ends (dev_simpleDescriptor L env (enter0 k) d) (\<lambda>d'. dv_state d' StateLevel0 = Some DEV_BasicClusterStateHandler \<and> ready L q d')"
proof -
  have "List.find (\<lambda>ep. \<not> has_descriptor (de_node env) ep) (cn_endpoints (de_node env)) = None" using env by (auto simp: node_complete_def find_None_iff)
  then have "needFetchEp (de_node env) d = 0" using r by (simp add: needFetchEp_def ready_def)
  moreover have "ready L q (d\<lparr>dv_needReadSimpleDescriptors := False, dv_zdpNeedFetchEndpointIndex := 0xFF\<rparr>)"
    using r by (simp add: ready_def known_def dev_item_def asked_def)
  ultimately show ?thesis using n by (simp add: dev_simpleDescriptor_def enter0_def EventNum_def simpleDescriptor_enter_def dev_core_def setState_state)
qed

lemma basicCluster_goes:
  assumes r: "ready L q d"
  shows "ends (dev_basicCluster L env (enter0 k) d) (\<lambda>d'. dv_state d' StateLevel0 = Some DEV_GetDeviceDescriptionHandler \<and> ready L q d')"
proof -
  have r1: "ready L q (dev_subDevices d)" using r by (simp add: ready_def known_def dev_item_def asked_def dev_subDevices_def)
  then have "DEV_FillItemFromSubdevices L env s (dev_subDevices d) = Some (True, dev_subDevices d)" if "s = RAttrManufacturerName \<or> s = RAttrModelId" for s
    using that by (auto simp: ready_def known_def DEV_FillItemFromSubdevices_def)
  then have "basic_items L env basic_list 0 (dev_subDevices d) = Some (False, 2, dev_subDevices d)" by (simp add: basic_list_def)
  then show ?thesis using r1 by (simp add: dev_basicCluster_def enter0_def EventNum_def basicCluster_enter_def basic_list_def setState_state)
qed

lemma find_more: "List.find P xs = Some x \<Longrightarrow> List.find P (xs @ ys) = Some x"
  by (induction xs) auto

lemma zone_ready:
  assumes "ready L q d" "rs_addItem (al_rids L) t RAttrZoneType (dv_res d) = (ok, r)"
  shows "ready L q (d\<lparr>dv_res := (if ok then rs_update (al_rids L) RAttrZoneType (ri_setIsPublic False) r else r)\<rparr>)"
proof -
  have a: "rs_item (al_rids L) s r = Some i" if "rs_item (al_rids L) s (dv_res d) = Some i" for s i
    using assms(2) that by (auto simp: rs_addItem_def rs_item_def find_more split: option.split_asm)
  have "rs_item (al_rids L) s (rs_update (al_rids L) RAttrZoneType (ri_setIsPublic False) r) = rs_item (al_rids L) s r" if "s \<noteq> RAttrZoneType" for s
    using that by (subst rs_item_update) simp_all
  then show ?thesis using assms(1) a item_names(7,8) by (auto simp: ready_def known_def dev_item_def asked_def)
qed

lemma publish_ready: "ready L q (publish_items L r its d) = ready L q d"
proof (induction its arbitrary: d)
  case (Cons x its)
  obtain s m where x: "x = (s, m)" by fastforce
  show ?case by (simp add: x Cons.IH) (rule ready_cong, auto simp: Let_def DEV_ForwardNodeChange_def dev_do_def asked_def split: option.split)
qed simp

lemma PublishToCore_ready: "ready L q (DEV_PublishToCore L d) = ready L q d"
proof -
  have "ready L q (dev_subDevices d) = ready L q d" by (rule ready_cong) (simp_all add: dev_subDevices_def asked_def)
  then show ?thesis by (simp add: DEV_PublishToCore_def Let_def publish_ready del: publish_items.simps split: list.split)
qed

lemma getDescription_goes:
  assumes n: "dv_node d" and r: "ready L q d" and s: "dv_state d StateLevel0 = Some DEV_GetDeviceDescriptionHandler"
  shows "ends (dev_getDescription L env (enter0 k) d) (\<lambda>d'. dv_state d' = dv_state d \<and> dv_lock d' = dv_lock d \<and> ready L q d')"
proof -
  have e: "ready L q (DEV_EnqueueEvent x d') = ready L q d'" "dv_state (DEV_EnqueueEvent x d') = dv_state d'" "dv_lock (DEV_EnqueueEvent x d') = dv_lock d'" for x d'
    using ready_cong [of "DEV_EnqueueEvent x d'" d' L q] by (simp_all add: DEV_EnqueueEvent_def dev_do_def asked_def)
  obtain ok res where a: "rs_addItem (al_rids L) DataTypeUInt16 RAttrZoneType (dv_res d) = (ok, res)" by fastforce
  have "ready L q (d\<lparr>dv_res := (if ok then rs_update (al_rids L) RAttrZoneType (ri_setIsPublic False) res else res)\<rparr>)"
    by (rule zone_ready [OF r a])
  then show ?thesis using n r by (simp add: dev_getDescription_def enter0_def EventNum_def dev_core_def Let_def a e)
qed

lemma described:
  assumes r: "ready L q d" and s: "dv_state d StateLevel0 = Some DEV_GetDeviceDescriptionHandler" and lk: "\<not> dv_lock d StateLevel0"
  shows "ends (dev_handleEvent L env (EventNum RDevices REventDDFInitResponse 1 k) d)
    (\<lambda>d'. dv_state d' StateLevel0 = Some DEV_IdleStateHandler \<and> dv_managed d' \<and> dv_hasDdf d' \<and> ready L q d')"
proof -
  have n: "REventDDFInitResponse \<notin> {REventStateEnter, REventStateLeave, REventDDFReload, REventZdpReload, REventAwake, RStateReachable}" by (simp add: suffixes)
  have f: "dv_state (DEV_ForwardNodeChange a b d') = dv_state d'" "dv_managed (DEV_ForwardNodeChange a b d') = dv_managed d'"
    "dv_hasDdf (DEV_ForwardNodeChange a b d') = dv_hasDdf d'" "ready L q (DEV_ForwardNodeChange a b d') = ready L q d'" for a b d'
    using ready_cong [of "DEV_ForwardNodeChange a b d'" d' L q] by (simp_all add: DEV_ForwardNodeChange_def dev_do_def asked_def)
  have "ready L q ((DEV_PublishToCore L d)\<lparr>dv_managed := True, dv_hasDdf := True\<rparr>)"
    using r PublishToCore_ready [of L q d] ready_cong [of "(DEV_PublishToCore L d)\<lparr>dv_managed := True, dv_hasDdf := True\<rparr>" "DEV_PublishToCore L d" L q]
    by (simp add: asked_def)
  then show ?thesis using s lk n
    by (simp add: dev_handleEvent_def handleEvent_with_def EventNum_def run_handler_def run_simple_def dev_getDescription_def Let_def f setState_state)
qed

text \<open>Entering the idle state.\<close>

lemma checkReachable_asked: "asked (checkReachable_one L now b k d) = asked d \<and> dv_managed (checkReachable_one L now b k d) = dv_managed d \<and>
    dv_hasDdf (checkReachable_one L now b k d) = dv_hasDdf d"
  by (auto simp: checkReachable_one_def Let_def asked_def dev_do_def split: option.split prod.split)

lemma fold_asked: "asked (fold (checkReachable_one L now b) ks d) = asked d \<and> dv_managed (fold (checkReachable_one L now b) ks d) = dv_managed d \<and>
    dv_hasDdf (fold (checkReachable_one L now b) ks d) = dv_hasDdf d"
  by (induction ks arbitrary: d) (simp_all add: checkReachable_asked)

lemma idle_goes:
  assumes ok: "base_ok L d"
  shows "ends (dev_idle L env (enter0 k) d) (\<lambda>d'. dv_state d' StateLevel0 = dv_state d StateLevel0 \<and> dv_state d' StateLevel1 = Some DEV_BindingHandler \<and>
    dv_state d' StateLevel2 = Some DEV_PollIdleStateHandler \<and> asked d' = asked d \<and> dv_managed d' = dv_managed d \<and> dv_hasDdf d' = dv_hasDdf d)"
proof -
  obtain b where b: "dev_reachable L env d = Some b" using reachable_ends [OF ok] by blast
  define d1 where "d1 = set_bindingIter 0 (fold (checkReachable_one L (de_now env) b) (dv_subResources d) d)"
  have q: "quiet L d (fold (checkReachable_one L (de_now env) b) (dv_subResources d) d)" by (rule fold_quiet) (rule checkReachable_one_quiet)
  have f: "dv_state d1 = dv_state d" "asked d1 = asked d" "dv_managed d1 = dv_managed d" "dv_hasDdf d1 = dv_hasDdf d"
    using quiet_fields(1) [OF q] fold_asked by (simp_all add: d1_def set_bindingIter_def) (simp_all add: upd_binding_def asked_def fold_asked [unfolded asked_def])
  have st: "states_ok (dv_state d)" by (rule viewE(2) [OF ok])
  have l1: "dv_state (dev_setState h StateLevel1 x) m = (if m = StateLevel1 then Some h else dv_state x m)" if "states_ok (dv_state x)" for h x m
    using that setState1_fields(1) [unfolded to_binding_def, of x h] by (cases "dv_state x StateLevel1 = Some h") (simp_all add: states_ok_def, simp add: dev_setState_def dev_setState_with_def)
  have l2: "dv_state (dev_setState h StateLevel2 x) m = (if m = StateLevel2 then Some h else dv_state x m)"
    if "\<forall>s. dv_state x StateLevel2 = Some s \<longrightarrow> s \<in> poll_waits \<or> s = DEV_PollIdleStateHandler" for h x m
    using that setState2_fields(1) [unfolded to_poll_def, of x h] by (cases "dv_state x StateLevel2 = Some h") (simp_all, simp add: dev_setState_def dev_setState_with_def)
  have s1: "states_ok (dv_state d1)" using st by (simp add: f)
  have s2: "\<forall>s. dv_state (dev_setState DEV_BindingHandler StateLevel1 d1) StateLevel2 = Some s \<longrightarrow> s \<in> poll_waits \<or> s = DEV_PollIdleStateHandler"
    using st by (simp add: l1 [OF s1] f states_ok_def)
  show ?thesis
    by (simp add: dev_idle_def enter0_def EventNum_def idle_enter_def DEV_CheckReachable_def b Let_def l1 [OF s1] l2 [OF s2] f flip: d1_def)
qed

lemma enter_step:
  assumes "dev_ok L d" "env_ok env" "dv_state d StateLevel0 = Some h"
    and "\<And>d1. dev_ok L d \<Longrightarrow> weak_ok StateLevel0 L d1 \<Longrightarrow> d1 = d\<lparr>dv_lock := (dv_lock d)(StateLevel0 := False)\<rparr> \<Longrightarrow> ends (run_handler L env h (enter0 k) d1) P"
  shows "ends (dev_handleEvent L env (enter0 k) d) (\<lambda>d'. P d' \<and> dev_ok L d')"
proof -
  have "ends (dev_handleEvent L env (enter0 k) d) P" using assms(4) [OF assms(1) unlock_weak [OF assms(1)] refl] enter0_run [OF assms(3)] by simp
  moreover have "ends (dev_handleEvent L env (enter0 k) d) (dev_ok L)"
    by (rule handleEvent_ok [OF assms(1,2)]) (simp_all add: enter0_def EventNum_def suffixes)
  ultimately show ?thesis by (auto simp: ends_iff)
qed

text \<open>The device is in a state of the interview and still has nothing to ask for.\<close>

definition in_interview :: "'at res_lib \<Rightarrow> dev_effect list \<Rightarrow> dev_handler \<Rightarrow> 'at device \<Rightarrow> bool" where
  "in_interview L q h d \<longleftrightarrow> dev_ok L d \<and> dv_state d StateLevel0 = Some h \<and> ready L q d"

lemma interview_step:
  assumes x: "in_interview L q h d" and env: "env_ok env" and h: "h \<in> dev_waits"
    and run: "\<And>x. base_ok L x \<Longrightarrow> dv_node x \<Longrightarrow> ready L q x \<Longrightarrow> ends (run_simple L env h (enter0 k) x) (\<lambda>y. dv_state y StateLevel0 = Some h' \<and> ready L q y)"
  shows "\<exists>y. dev_handleEvent L env (enter0 k) d = Some y \<and> in_interview L q h' y"
proof -
  from x have ok: "dev_ok L d" and st: "dv_state d StateLevel0 = Some h" and r: "ready L q d" by (simp_all add: in_interview_def)
  have n: "dv_node d" using viewE(5) [OF ok_base [OF ok] st] h by (simp add: needs_node_def)
  have i: "h \<noteq> DEV_IdleStateHandler" using h by (auto simp: dev_sets)
  have "ends (dev_handleEvent L env (enter0 k) d) (\<lambda>y. (dv_state y StateLevel0 = Some h' \<and> ready L q y) \<and> dev_ok L y)"
  proof (rule enter_step [OF ok env st])
    fix x assume w: "weak_ok StateLevel0 L x" and e: "x = d\<lparr>dv_lock := (dv_lock d)(StateLevel0 := False)\<rparr>"
    show "ends (run_handler L env h (enter0 k) x) (\<lambda>y. dv_state y StateLevel0 = Some h' \<and> ready L q y)"
      using run [OF weak_base [OF w]] n r i by (simp add: run_handler_def e)
  qed
  then show ?thesis by (auto simp: ends_iff in_interview_def)
qed

lemma interview_first:
  assumes x: "in_interview L q DEV_InitStateHandler d" and env: "env_ok env" "dv_initialRun d" "de_hasNode env" "node_complete (de_node env)"
  shows "\<exists>y. dev_handleEvent L env (enter0 k) d = Some y \<and> in_interview L q DEV_NodeDescriptorStateHandler y"
proof -
  from x have ok: "dev_ok L d" and st: "dv_state d StateLevel0 = Some DEV_InitStateHandler" and r: "ready L q d" by (simp_all add: in_interview_def)
  have "ends (dev_handleEvent L env (enter0 k) d) (\<lambda>y. (dv_state y StateLevel0 = Some DEV_NodeDescriptorStateHandler \<and> ready L q y) \<and> dev_ok L y)"
  proof (rule enter_step [OF ok env(1) st])
    fix x assume w: "weak_ok StateLevel0 L x" and e: "x = d\<lparr>dv_lock := (dv_lock d)(StateLevel0 := False)\<rparr>"
    have "dev_ok L x" by (rule passive_ok [OF w, where h = DEV_InitStateHandler]) (use st in \<open>simp_all add: e dev_sets\<close>)
    then show "ends (run_handler L env DEV_InitStateHandler (enter0 k) x) (\<lambda>y. dv_state y StateLevel0 = Some DEV_NodeDescriptorStateHandler \<and> ready L q y)"
      using init_goes [of L x q env k] env r st by (simp add: run_handler_def run_simple_def e)
  qed
  then show ?thesis by (auto simp: ends_iff in_interview_def)
qed

lemma interview_steps:
  assumes "env_ok env" "node_complete (de_node env)"
  shows "in_interview L q DEV_NodeDescriptorStateHandler d \<Longrightarrow> \<exists>y. dev_handleEvent L env (enter0 k) d = Some y \<and> in_interview L q DEV_ActiveEndpointsStateHandler y"
    and "in_interview L q DEV_ActiveEndpointsStateHandler d \<Longrightarrow> \<exists>y. dev_handleEvent L env (enter0 k) d = Some y \<and> in_interview L q DEV_SimpleDescriptorStateHandler y"
    and "in_interview L q DEV_SimpleDescriptorStateHandler d \<Longrightarrow> \<exists>y. dev_handleEvent L env (enter0 k) d = Some y \<and> in_interview L q DEV_BasicClusterStateHandler y"
    and "in_interview L q DEV_BasicClusterStateHandler d \<Longrightarrow> \<exists>y. dev_handleEvent L env (enter0 k) d = Some y \<and> in_interview L q DEV_GetDeviceDescriptionHandler y"
  by (rule interview_step [OF _ assms(1)], assumption, simp add: dev_sets, simp add: run_simple_def nodeDescriptor_goes activeEndpoints_goes simpleDescriptor_goes
      basicCluster_goes assms(2))+

lemma interview_describe:
  assumes x: "in_interview L q DEV_GetDeviceDescriptionHandler d" and env: "env_ok env"
  shows "\<exists>y z. dev_handleEvent L env (enter0 k) d = Some y \<and> dev_handleEvent L env (EventNum RDevices REventDDFInitResponse 1 k) y = Some z \<and>
    in_interview L q DEV_IdleStateHandler z \<and> dv_managed z \<and> dv_hasDdf z"
proof -
  from x have ok: "dev_ok L d" and st: "dv_state d StateLevel0 = Some DEV_GetDeviceDescriptionHandler" and r: "ready L q d" by (simp_all add: in_interview_def)
  have n: "dv_node d" using viewE(5) [OF ok_base [OF ok] st] by (simp add: needs_node_def)
  have "ends (dev_handleEvent L env (enter0 k) d)
      (\<lambda>y. (dv_state y StateLevel0 = Some DEV_GetDeviceDescriptionHandler \<and> \<not> dv_lock y StateLevel0 \<and> ready L q y) \<and> dev_ok L y)"
  proof (rule enter_step [OF ok env st])
    fix x assume e: "x = d\<lparr>dv_lock := (dv_lock d)(StateLevel0 := False)\<rparr>"
    have "ends (dev_getDescription L env (enter0 k) x) (\<lambda>y. dv_state y = dv_state x \<and> dv_lock y = dv_lock x \<and> ready L q y)"
      by (rule getDescription_goes) (use n st r in \<open>simp_all add: e\<close>)
    then show "ends (run_handler L env DEV_GetDeviceDescriptionHandler (enter0 k) x)
        (\<lambda>y. dv_state y StateLevel0 = Some DEV_GetDeviceDescriptionHandler \<and> \<not> dv_lock y StateLevel0 \<and> ready L q y)"
      using st e by (auto simp: run_handler_def run_simple_def ends_iff)
  qed
  then obtain y where y: "dev_handleEvent L env (enter0 k) d = Some y" "dv_state y StateLevel0 = Some DEV_GetDeviceDescriptionHandler" "\<not> dv_lock y StateLevel0"
      "ready L q y" "dev_ok L y" by (auto simp: ends_iff)
  have "ends (dev_handleEvent L env (EventNum RDevices REventDDFInitResponse 1 k) y) (dev_ok L)"
    by (rule handleEvent_ok [OF y(5) env]) (simp_all add: EventNum_def suffixes)
  then show ?thesis using y(1) described [OF y(4,2,3), of env k] by (auto simp: ends_iff in_interview_def)
qed

lemma interview_end:
  assumes x: "in_interview L q DEV_IdleStateHandler d" and env: "env_ok env"
  shows "\<exists>y. dev_handleEvent L env (enter0 k) d = Some y \<and> dv_state y StateLevel0 = Some DEV_IdleStateHandler \<and> dv_state y StateLevel1 = Some DEV_BindingHandler \<and>
    dv_state y StateLevel2 = Some DEV_PollIdleStateHandler \<and> asked y = q \<and> dv_managed y = dv_managed d \<and> dv_hasDdf y = dv_hasDdf d"
proof -
  from x have ok: "dev_ok L d" and st: "dv_state d StateLevel0 = Some DEV_IdleStateHandler" and r: "asked d = q" by (simp_all add: in_interview_def ready_def)
  let ?P = "\<lambda>y. dv_state y StateLevel0 = Some DEV_IdleStateHandler \<and> dv_state y StateLevel1 = Some DEV_BindingHandler \<and>
    dv_state y StateLevel2 = Some DEV_PollIdleStateHandler \<and> asked y = q \<and> dv_managed y = dv_managed d \<and> dv_hasDdf y = dv_hasDdf d"
  have "ends (dev_handleEvent L env (enter0 k) d) (\<lambda>y. ?P y \<and> dev_ok L y)"
  proof (rule enter_step [OF ok env st])
    fix x assume w: "weak_ok StateLevel0 L x" and e: "x = d\<lparr>dv_lock := (dv_lock d)(StateLevel0 := False)\<rparr>"
    show "ends (run_handler L env DEV_IdleStateHandler (enter0 k) x) ?P"
      unfolding run_handler_def if_P [OF refl]
      by (rule ends_mono [OF idle_goes [OF weak_base [OF w]]]) (use st r in \<open>simp add: e asked_def\<close>)
  qed
  then show ?thesis by (auto simp: ends_iff)
qed

text \<open>C39: 
  Functional: a device whose node the core knows in full, and whose maker and model are known, goes from its first state
  through the whole interview without asking the device anything; once its description has come it is managed and idle,
  and the sub states for bindings and polling have started.
\<close>

theorem device_interview:
  assumes "al_rids L = initResourceDescriptors" "env_ok env" "dev_reach L d" "dv_state d StateLevel0 = Some DEV_InitStateHandler" "dv_initialRun d"
    "\<not> dv_needReadActiveEndpoints d" "\<not> dv_needReadSimpleDescriptors d" "known L d" "de_hasNode env" "node_complete (de_node env)"
  shows "\<exists>d'. dev_events L env (replicate 6 (enter0 k) @ [EventNum RDevices REventDDFInitResponse 1 k, enter0 k]) d = Some d' \<and>
    dv_state d' StateLevel0 = Some DEV_IdleStateHandler \<and> dv_state d' StateLevel1 = Some DEV_BindingHandler \<and>
    dv_state d' StateLevel2 = Some DEV_PollIdleStateHandler \<and> dv_managed d' \<and> dv_hasDdf d' \<and> asked d' = asked d"
proof -
  note s = interview_steps [OF assms(2,10), of L "asked d" _ k]
  have "in_interview L (asked d) DEV_InitStateHandler d" using assms reach_ok [OF assms(3,1)] by (simp add: in_interview_def ready_def)
  from interview_first [OF this assms(2,5,9,10), of k] obtain d1 where d1: "dev_handleEvent L env (enter0 k) d = Some d1"
    "in_interview L (asked d) DEV_NodeDescriptorStateHandler d1" by blast
  from s(1) [OF this(2)] obtain d2 where d2: "dev_handleEvent L env (enter0 k) d1 = Some d2" "in_interview L (asked d) DEV_ActiveEndpointsStateHandler d2" by blast
  from s(2) [OF this(2)] obtain d3 where d3: "dev_handleEvent L env (enter0 k) d2 = Some d3" "in_interview L (asked d) DEV_SimpleDescriptorStateHandler d3" by blast
  from s(3) [OF this(2)] obtain d4 where d4: "dev_handleEvent L env (enter0 k) d3 = Some d4" "in_interview L (asked d) DEV_BasicClusterStateHandler d4" by blast
  from s(4) [OF this(2)] obtain d5 where d5: "dev_handleEvent L env (enter0 k) d4 = Some d5" "in_interview L (asked d) DEV_GetDeviceDescriptionHandler d5" by blast
  from interview_describe [OF this(2) assms(2), of k] obtain d6 d7 where d6: "dev_handleEvent L env (enter0 k) d5 = Some d6"
      "dev_handleEvent L env (EventNum RDevices REventDDFInitResponse 1 k) d6 = Some d7" "in_interview L (asked d) DEV_IdleStateHandler d7" "dv_managed d7" "dv_hasDdf d7" by blast
  from interview_end [OF this(3) assms(2), of k] obtain d8 where d8: "dev_handleEvent L env (enter0 k) d7 = Some d8" "dv_state d8 StateLevel0 = Some DEV_IdleStateHandler"
      "dv_state d8 StateLevel1 = Some DEV_BindingHandler" "dv_state d8 StateLevel2 = Some DEV_PollIdleStateHandler" "asked d8 = asked d"
      "dv_managed d8 = dv_managed d7" "dv_hasDdf d8 = dv_hasDdf d7" by blast
  have "replicate 6 (enter0 k) = [enter0 k, enter0 k, enter0 k, enter0 k, enter0 k, enter0 k]" by (simp add: numeral_eq_Suc)
  then have "dev_events L env (replicate 6 (enter0 k) @ [EventNum RDevices REventDDFInitResponse 1 k, enter0 k]) d = Some d8"
    using d1(1) d2(1) d3(1) d4(1) d5(1) d6(1,2) d8(1) by simp
  then show ?thesis using d6 d8 by blast
qed

section \<open>Devices for the witnesses\<close>

abbreviation key0 :: device_key where "key0 \<equiv> 0x00158D0001"

lemma enter0_sel: "ev_what (enter0 k) = REventStateEnter" "ev_deviceKey (enter0 k) = k" "ev_num (enter0 k) = 0" "ev_resource (enter0 k) = RDevices"
  by (simp_all add: enter0_def EventNum_def)

lemma enqueue_reach: "dev_reach L d \<Longrightarrow> env_ok env \<Longrightarrow> dev_handleEvent L env (enter0 k) d = Some d' \<Longrightarrow> dev_reach L d'"
  by (erule event [where e = "enter0 k"]) (simp_all add: from_emitter_def enter0_def EventNum_def suffixes)

text \<open>A started device whose maker and model are known, from the database for example.\<close>

lemma known_device:
  "\<exists>d. dev_reach dev_lib0 d \<and> dv_state d StateLevel0 = Some DEV_InitStateHandler \<and> dv_initialRun d \<and> \<not> dv_needReadActiveEndpoints d \<and>
     \<not> dv_needReadSimpleDescriptors d \<and> known dev_lib0 d"
proof -
  obtain d where d: "Device dev_lib0 5000 key0 [] = Some d" using Device_ok [OF dev_lib0_rids, of 5000 key0 "[]"] by (auto simp: ends_iff)
  have r: "dev_reach dev_lib0 (dev_start d)" by (rule started, rule created) (rule d)
  have f: "dv_state (dev_start d) StateLevel0 = Some DEV_InitStateHandler" "dv_initialRun (dev_start d)" "\<not> dv_needReadActiveEndpoints (dev_start d)"
    "\<not> dv_needReadSimpleDescriptors (dev_start d)" using new_fields [OF d] start_fields' [of d] by (simp_all add: dev_start_def)
  let ?f = "\<lambda>i :: resource_item. i\<lparr>ri_lastSet := Some 1\<rparr>"
  define res where "res = rs_update initResourceDescriptors RAttrManufacturerName ?f (rs_update initResourceDescriptors RAttrModelId ?f (dv_res (dev_start d)))"
  have s: "ri_suffix ds (?f i) = ri_suffix ds i" for ds i by (simp add: ri_descriptor_def)
  have n: "names_of initResourceDescriptors res = names_of initResourceDescriptors (dv_res (dev_start d))" by (simp add: res_def names_update s)
  have k: "names_ok (dnames dev_lib0 (dev_start d))" by (rule viewE(1) [OF ok_base [OF reach_ok [OF r dev_lib0_rids]]])
  have items: "items_kept dev_lib0 res (dv_subs (dev_start d))" using k by (simp add: items_kept_def names_ok_def dnames_def dev_lib0_rids n)
  have "\<exists>i. rs_item initResourceDescriptors t (dv_res (dev_start d)) = Some i" if "t = RAttrManufacturerName \<or> t = RAttrModelId" for t
    using k that item_None [of initResourceDescriptors t "dv_res (dev_start d)"] by (auto simp: names_ok_def dnames_def need_items_def dev_lib0_rids)
  then have "\<exists>i. rs_item initResourceDescriptors t res = Some i \<and> ri_lastSet i \<noteq> None" if "t = RAttrManufacturerName \<or> t = RAttrModelId" for t
    using that by (fastforce simp: res_def rs_item_update s)
  then have "known dev_lib0 (dev_start d\<lparr>dv_res := res, dv_subs := dv_subs (dev_start d), dv_atoms := []\<rparr>)" by (auto simp: known_def dev_item_def dev_lib0_rids)
  then show ?thesis using dev_reach.items [OF r items, of "[]"] f
    by (intro exI [of _ "dev_start d\<lparr>dv_res := res, dv_subs := dv_subs (dev_start d), dv_atoms := []\<rparr>"]) simp
qed

lemma env0_complete: "de_hasNode env0 \<and> node_complete (de_node env0)"
  by (simp add: env0_def node0_def node_complete_def has_descriptor_def)

theorem device_interview_witness:
  "\<exists>d d'. dev_reach dev_lib0 d \<and> dev_events dev_lib0 env0 (replicate 6 (enter0 key0) @ [EventNum RDevices REventDDFInitResponse 1 key0, enter0 key0]) d = Some d' \<and>
    dv_state d' StateLevel0 = Some DEV_IdleStateHandler"
proof -
  obtain d where d: "dev_reach dev_lib0 d" "dv_state d StateLevel0 = Some DEV_InitStateHandler" "dv_initialRun d" "\<not> dv_needReadActiveEndpoints d"
    "\<not> dv_needReadSimpleDescriptors d" "known dev_lib0 d" using known_device by blast
  show ?thesis using device_interview [OF dev_lib0_rids env0_ok d env0_complete [THEN conjunct1] env0_complete [THEN conjunct2], of key0] d(1) by blast
qed


text \<open>A device that asks for its node descriptor: it is reachable, and the core has no descriptor.\<close>

definition env1 :: dev_env where
  "env1 = env0\<lparr>de_node := node0\<lparr>cn_nodeDescriptorNull := True\<rparr>\<rparr>"

lemma asking_device: "\<exists>d. dev_reach dev_lib0 d \<and> dv_state d StateLevel0 = Some DEV_NodeDescriptorStateHandler \<and> dv_timer d StateLevel0 = Some MaxConfirmTimeout"
proof -
  obtain d where d: "dev_reach dev_lib0 d" "dv_state d StateLevel0 = Some DEV_InitStateHandler" "dv_initialRun d" "\<not> dv_needReadActiveEndpoints d"
    "\<not> dv_needReadSimpleDescriptors d" "known dev_lib0 d" using known_device by blast
  have "in_interview dev_lib0 (asked d) DEV_InitStateHandler d" using d reach_ok [OF d(1) dev_lib0_rids] by (simp add: in_interview_def ready_def)
  from interview_first [OF this env0_ok d(3) env0_complete [THEN conjunct1] env0_complete [THEN conjunct2], of key0] obtain d1 where
    d1: "dev_handleEvent dev_lib0 env0 (enter0 key0) d = Some d1" and s1: "dv_state d1 StateLevel0 = Some DEV_NodeDescriptorStateHandler" by (auto simp: in_interview_def)
  have r1: "dev_reach dev_lib0 d1" by (rule enqueue_reach [OF d(1) env0_ok d1])
  note b1 = ok_base [OF reach_ok [OF r1 dev_lib0_rids]]
  have n1: "dv_node d1" using viewE(5) [OF b1 s1] by (simp add: needs_node_def dev_sets)
  let ?f = "\<lambda>n (i :: resource_item). i\<lparr>ri_num := n\<rparr>"
  define res where "res = rs_update initResourceDescriptors RStateReachable (?f 1) (rs_update initResourceDescriptors RCapSleeper (?f 0) (dv_res d1))"
  have s: "ri_suffix ds (?f n i) = ri_suffix ds i" for ds i n by (simp add: ri_descriptor_def)
  have n: "names_of initResourceDescriptors res = names_of initResourceDescriptors (dv_res d1)" by (simp add: res_def names_update s)
  have k: "names_ok (dnames dev_lib0 d1)" by (rule viewE(1) [OF b1])
  have items: "items_kept dev_lib0 res (dv_subs d1)" using k by (simp add: items_kept_def names_ok_def dnames_def dev_lib0_rids n)
  define d2 where "d2 = d1\<lparr>dv_res := res, dv_subs := dv_subs d1, dv_atoms := []\<rparr>"
  have r2: "dev_reach dev_lib0 d2" unfolding d2_def by (rule dev_reach.items [OF r1 items])
  have i: "\<exists>i. rs_item initResourceDescriptors t (dv_res d1) = Some i" if "t = RStateReachable \<or> t = RCapSleeper" for t
    using k that item_None [of initResourceDescriptors t "dv_res d1"] by (auto simp: names_ok_def dnames_def need_items_def dev_lib0_rids)
  have ne: "RStateReachable \<noteq> RCapSleeper" by (simp add: suffixes)
  obtain i1 i2 where i12: "rs_item initResourceDescriptors RStateReachable (dv_res d1) = Some i1" "rs_item initResourceDescriptors RCapSleeper (dv_res d1) = Some i2"
    using i by blast
  have u: "rs_item initResourceDescriptors t (rs_update initResourceDescriptors v (?f m) r) =
      (if t = v then map_option (?f m) (rs_item initResourceDescriptors v r) else rs_item initResourceDescriptors t r)" for t v m r
    by (rule rs_item_update) (simp add: s)
  have "rs_item initResourceDescriptors RStateReachable res = Some (?f 1 i1)" "rs_item initResourceDescriptors RCapSleeper res = Some (?f 0 i2)"
    using ne by (simp_all only: res_def u i12 if_True if_False simp_thms option.map refl not_sym)
  then have b: "dev_toBool dev_lib0 RStateReachable x = Some True" "dev_toBool dev_lib0 RCapSleeper x = Some False" if "dv_res x = res" for x
    using that by (simp_all add: dev_toBool_def dev_item_def dev_lib0_rids ri_toBool_def)
  have reach: "dev_reachable dev_lib0 env1 (d2\<lparr>dv_lock := l\<rparr>) = Some True" for l
    using b [of "d2\<lparr>dv_lock := l\<rparr>"] by (simp add: dev_reachable_def d2_def env1_def node0_def)
  have "dev_handleEvent dev_lib0 env1 (enter0 key0) d2 = Some (zdp_send env1 ZDP_NodeDescriptorReq StateLevel0 DEV_InitStateHandler (d2\<lparr>dv_lock := (dv_lock d2)(StateLevel0 := False)\<rparr>))"
  proof -
    have s2: "dv_state d2 StateLevel0 = Some DEV_NodeDescriptorStateHandler" using s1 by (simp add: d2_def)
    have "dv_node (d2\<lparr>dv_lock := (dv_lock d2)(StateLevel0 := False)\<rparr>)" using n1 by (simp add: d2_def)
    then show ?thesis using reach [of "(dv_lock d2)(StateLevel0 := False)"] event_names
      by (simp add: enter0_run [OF s2] run_handler_def run_simple_def dev_nodeDescriptor_def enter0_sel nodeDescriptor_enter_def dev_core_def env1_def node0_def)
  qed
  moreover have "env_ok env1" using env0_ok by (simp add: env1_def env_ok_def)
  ultimately have "dev_reach dev_lib0 (zdp_send env1 ZDP_NodeDescriptorReq StateLevel0 DEV_InitStateHandler (d2\<lparr>dv_lock := (dv_lock d2)(StateLevel0 := False)\<rparr>))"
    using enqueue_reach [OF r2] by blast
  then show ?thesis using s1
    by (intro exI [of _ "zdp_send env1 ZDP_NodeDescriptorReq StateLevel0 DEV_InitStateHandler (d2\<lparr>dv_lock := (dv_lock d2)(StateLevel0 := False)\<rparr>)"])
      (simp add: zdp_send_def env1_def env0_def d2_def dev_do_def)
qed


text \<open>A device that waits for the answer of a read.\<close>

lemma polling_device: "\<exists>d. dev_ok dev_lib0 d \<and> dv_state d StateLevel2 = Some DEV_PollBusyStateHandler \<and> dv_timer d StateLevel2 = Some MaxConfirmTimeout"
proof -
  obtain d where d: "Device dev_lib0 5000 key0 [] = Some d" using Device_ok [OF dev_lib0_rids, of 5000 key0 "[]"] by (auto simp: ends_iff)
  have v: "names_ok (dnames dev_lib0 d)" by (rule viewE(1) [OF ok_base [OF reach_ok [OF created [OF d] dev_lib0_rids]]])
  define x where "x = d\<lparr>dv_node := True, dv_state := (\<lambda>l. Some (case l of StateLevel0 \<Rightarrow> DEV_IdleStateHandler | StateLevel1 \<Rightarrow> DEV_BindingHandler | StateLevel2 \<Rightarrow> DEV_PollBusyStateHandler)),
    dv_lock := (\<lambda>_. False), dv_timer := (\<lambda>_. None)(StateLevel2 := Some MaxConfirmTimeout),
    dv_pollItems := [\<lparr>pi_retry = 1, pi_resource = 0, pi_item = RStateOn, pi_readParameters = ReadMap None\<rparr>]\<rparr>"
  have "dnames dev_lib0 x = dnames dev_lib0 d" by (simp add: dnames_def x_def)
  then have "base_ok dev_lib0 x"
    by (intro baseI) (use v new_fields [OF d] in \<open>auto simp: x_def states_ok_def timers_ok_def bindings_ok_def bshape_def bc_new_def dev_sets MaxPollItemRetries_def\<close>)
  moreover have "entered dev_lib0 l x" for l by (cases l) (simp_all add: entered_def entered_view_def dev_view_def x_def dev_sets)
  ultimately show ?thesis by (intro exI [of _ x]) (simp add: dev_ok_def, simp add: x_def)
qed


text \<open>A device that the core does not know.\<close>

abbreviation key1 :: device_key where "key1 \<equiv> 0x00158D0001020304"

lemma unknown_device: "\<exists>d. dev_reach dev_lib0 d \<and> dv_state d StateLevel0 = Some DEV_InitStateHandler \<and> \<not> dv_lock d StateLevel0 \<and> \<not> dv_node d \<and> dv_key d = key1"
proof -
  obtain d0 where d0: "Device dev_lib0 5000 key1 [] = Some d0" using Device_ok [OF dev_lib0_rids, of 5000 key1 "[]"] by (auto simp: ends_iff)
  define d where "d = dev_start d0"
  have r: "dev_reach dev_lib0 d" unfolding d_def by (rule started, rule created) (rule d0)
  have f: "dv_state d StateLevel0 = Some DEV_InitStateHandler" "dv_key d = key1"
    using new_fields [OF d0] start_fields' [of d0] by (simp_all add: d_def)
  let ?env = "env0\<lparr>de_hasNode := False\<rparr>"
  define d' where "d' = d\<lparr>dv_lock := (dv_lock d)(StateLevel0 := False), dv_zdpResult := zdp_none, dv_node := False, dv_initialRun := False,
    dv_binding := (dv_binding d)\<lparr>bc_bindingCheckRound := 0\<rparr>\<rparr>"
  have i: "dv_initialRun d" using new_fields [OF d0] start_fields' [of d0] by (simp add: d_def)
  have "dev_handleEvent dev_lib0 ?env (enter0 key1) d = Some d'"
    using f i event_names by (simp add: enter0_run [OF f(1)] run_handler_def run_simple_def dev_init_def enter0_sel Let_def init_run_def d'_def)
  moreover have "env_ok ?env" using env0_ok by (simp add: env_ok_def)
  ultimately have "dev_reach dev_lib0 d'" using enqueue_reach [OF r] by blast
  then show ?thesis using f by (intro exI [of _ d']) (simp add: d'_def)
qed

theorem zdp_reload_without_node_witness:
  "\<exists>d d'. dev_reach dev_lib0 d \<and> dev_handleEvent dev_lib0 env0 (EventNum RDevices REventZdpReload 0 key1) d = Some d' \<and>
    dev_handleEvent dev_lib0 env0 (EventNum RDevices REventStateEnter 0 key1) d' = None"
proof -
  obtain d where d: "dev_reach dev_lib0 d" "dv_state d StateLevel0 = Some DEV_InitStateHandler" "\<not> dv_lock d StateLevel0" "\<not> dv_node d" "dv_key d = key1"
    using unknown_device by blast
  show ?thesis using zdp_reload_without_node [OF d(2,3,4), of dev_lib0 env0 env0] d(1,5) by auto
qed

end
