(* ===== verification/Install_Code.thy ===== *)
theory Install_Code
  imports Deconz_Prelude
begin

text \<open>
  Install codes (\<^verbatim>\<open>crypto/mmohash.cpp\<close>): the link key of a device that joins with an install code is a hash of the code and its
  checksum. The block cipher is libcrypto's and a parameter; the checksum, the padding and the chaining are the code's.
\<close>

section \<open>The cipher\<close>

text \<open>
  What the calls of libcrypto leave in \<^verbatim>\<open>encrypted_block\<close> for a key and a block; \<open>None\<close> is a call that fails.
  A missing library or symbol is no function at all.
\<close>

type_synonym evp_encrypt = "u8 list \<Rightarrow> u8 list \<Rightarrow> u8 list option"

definition AES_BLOCK_SIZE :: nat where "AES_BLOCK_SIZE = 16"

definition xor_block :: "u8 list \<Rightarrow> u8 list \<Rightarrow> u8 list" where
  "xor_block = map2 (XOR)"

definition rd_block :: "u8 list \<Rightarrow> nat \<Rightarrow> u8 list option" where
  "rd_block mem p = (if p + AES_BLOCK_SIZE \<le> length mem then Some (seg p AES_BLOCK_SIZE mem) else None)"

text \<open>The result is whether all calls succeeded, and the hash, which the code updates in place.\<close>

fun aesMmoHash :: "evp_encrypt \<Rightarrow> u8 list \<Rightarrow> u8 list \<Rightarrow> nat \<Rightarrow> nat \<Rightarrow> (bool \<times> u8 list) option" where
  "aesMmoHash enc result mem p dataSize =
     (if dataSize < 16 then Some (True, result)
      else do {
        block \<leftarrow> rd_block mem p;
        case enc result block of
          None \<Rightarrow> Some (False, result)
        | Some out \<Rightarrow> aesMmoHash enc (xor_block (take AES_BLOCK_SIZE out) block) mem (p + 16) (dataSize - 16) })"

declare aesMmoHash.simps [simp del]

section \<open>The checksum\<close>

definition CRC_POLY :: u64 where "CRC_POLY = 0x8408"

definition crc_bit :: "u64 \<times> u32 \<Rightarrow> u64 \<times> u32" where
  "crc_bit s =
     (case s of (crc, data) \<Rightarrow>
        (if (crc AND 1) XOR (ucast data AND 1) \<noteq> 0 then drop_bit 1 crc XOR CRC_POLY else drop_bit 1 crc, drop_bit 1 data))"

definition crc_byte :: "u64 \<Rightarrow> u8 \<Rightarrow> u64" where
  "crc_byte crc b = fst ((crc_bit ^^ 8) (crc, 0xff AND ucast b))"

fun crc_loop :: "u8 list \<Rightarrow> nat \<Rightarrow> nat \<Rightarrow> u64 \<Rightarrow> u64 option" where
  "crc_loop mem p 0 crc = Some crc"
| "crc_loop mem p (Suc n) crc = do { b \<leftarrow> rd (Some mem) p; crc_loop mem (Suc p) n (crc_byte crc b) }"

definition ccit_crc16 :: "u8 list \<Rightarrow> nat \<Rightarrow> u16 \<Rightarrow> u16 option" where
  "ccit_crc16 mem p n =
     (if n = 0 then Some (ucast (NOT (0xFFFF :: u64)))
      else map_option (\<lambda>crc. ucast (NOT crc)) (crc_loop mem p (unat n) 0xFFFF))"

section \<open>Install codes\<close>

definition hex_nibble :: "char \<Rightarrow> u8 option" where
  "hex_nibble c =
     (let ch = of_char c :: u8 in
      if 48 \<le> ch \<and> ch \<le> 57 then Some (ch - 48)
      else if 65 \<le> ch \<and> ch \<le> 70 then Some (ch - 65 + 10)
      else if 97 \<le> ch \<and> ch \<le> 102 then Some (ch - 97 + 10)
      else None)"

text \<open>The loop over the digits: \<open>n\<close> bytes are left from the digit \<open>i\<close> on.\<close>

fun ic_bytes :: "string \<Rightarrow> nat \<Rightarrow> nat \<Rightarrow> u8 list option" where
  "ic_bytes s i 0 = Some []"
| "ic_bytes s i (Suc n) = do {
     h \<leftarrow> hex_nibble (s ! i);
     l \<leftarrow> hex_nibble (s ! (i + 1));
     bs \<leftarrow> ic_bytes s (i + 2) n;
     Some ((push_bit 4 (push_bit 4 0 OR h AND 0xF) OR l AND 0xF) # bs) }"

text \<open>A wrong checksum is corrected.\<close>

definition ic_fix_crc :: "u8 list \<Rightarrow> u8 list option" where
  "ic_fix_crc data = do {
     let dataLength = length data;
     crc \<leftarrow> ccit_crc16 data 0 (of_nat dataLength - 2);
     let crc_lo = ucast (crc AND 0xFF);
     let crc_hi = ucast (drop_bit 8 crc AND 0xFF);
     Some
       (if data ! (dataLength - 1) \<noteq> crc_hi \<or> data ! (dataLength - 2) \<noteq> crc_lo
        then data[dataLength - 1 := crc_hi, dataLength - 2 := crc_lo] else data) }"

text \<open>The loop over whole blocks: the hash, the position and what is left.\<close>

fun ic_blocks :: "evp_encrypt \<Rightarrow> u8 list \<Rightarrow> nat \<Rightarrow> nat \<Rightarrow> u8 list \<Rightarrow> (u8 list \<times> nat \<times> nat) option" where
  "ic_blocks enc data pos more hash =
     (if more < 16 then Some (hash, pos, more)
      else do {
        (_, hash) \<leftarrow> aesMmoHash enc hash data pos (length data);
        ic_blocks enc data (pos + 16) (more - 16) hash })"

declare ic_blocks.simps [simp del]

definition ic_hash :: "evp_encrypt \<Rightarrow> u8 list \<Rightarrow> u8 list option" where
  "ic_hash enc data = do {
     let dataLength = (of_nat (length data) :: u32);
     (hash, pos, more) \<leftarrow> ic_blocks enc data 0 (length data) (replicate AES_BLOCK_SIZE 0);
     let temp = map (\<lambda>i. if i < more then data ! (pos + i) else 0) [0..<AES_BLOCK_SIZE];
     let temp = temp[more := 0x80];
     (hash, temp) \<leftarrow>
       (if AES_BLOCK_SIZE - more < 3 then do {
          (_, hash) \<leftarrow> aesMmoHash enc hash temp 0 AES_BLOCK_SIZE;
          Some (hash, replicate AES_BLOCK_SIZE 0) }
        else Some (hash, temp));
     let temp = temp[AES_BLOCK_SIZE - 2 := ucast (drop_bit 5 dataLength AND 0xFF), AES_BLOCK_SIZE - 1 := ucast (push_bit 3 dataLength AND 0xFF)];
     (_, hash) \<leftarrow> aesMmoHash enc hash temp 0 AES_BLOCK_SIZE;
     Some hash }"

text \<open>\<open>None\<close> for the library is one that is not there or lacks a symbol.\<close>

definition CRYPTO_GetMmoHashFromInstallCode :: "evp_encrypt option \<Rightarrow> string \<Rightarrow> u8 list \<Rightarrow> (bool \<times> u8 list) option" where
  "CRYPTO_GetMmoHashFromInstallCode lib hexString result =
     (case lib of
        None \<Rightarrow> Some (False, result)
      | Some enc \<Rightarrow>
          if odd (length hexString) then Some (False, result)
          else
            (let icLength = (of_nat (length hexString) :: u32) div 2 in
             if icLength \<notin> {6 + 2, 8 + 2, 12 + 2, 16 + 2} then Some (False, result)
             else
               (case ic_bytes hexString 0 (unat icLength) of
                  None \<Rightarrow> Some (False, result)
                | Some data \<Rightarrow> do { data \<leftarrow> ic_fix_crc data; hash \<leftarrow> ic_hash enc data; Some (True, hash) })))"

section \<open>What the hash is\<close>

text \<open>The hash of Matyas, Meyer and Oseas with the padding of the Zigbee specification: a one bit, zeros, the length in bits.\<close>

fun blocks :: "u8 list \<Rightarrow> u8 list list" where
  "blocks m = (if m = [] then [] else take 16 m # blocks (drop 16 m))"

declare blocks.simps [simp del]

definition mmo_pad :: "u8 list \<Rightarrow> u8 list" where
  "mmo_pad m = m @ [0x80] @ replicate ((29 - length m mod 16) mod 16) 0 @ [byte (8 * length m div 256), byte (8 * length m mod 256)]"

definition mmo_hash :: "(u8 list \<Rightarrow> u8 list \<Rightarrow> u8 list) \<Rightarrow> u8 list \<Rightarrow> u8 list" where
  "mmo_hash aes m = foldl (\<lambda>h b. xor_block (aes h b) b) (replicate 16 0) (blocks (mmo_pad m))"

definition crc16 :: "u8 list \<Rightarrow> u16" where
  "crc16 bs = ucast (NOT (foldl crc_byte 0xFFFF bs))"

definition with_crc :: "u8 list \<Rightarrow> u8 list" where
  "with_crc bs = bs @ [ucast (crc16 bs AND 0xFF), ucast (drop_bit 8 (crc16 bs) AND 0xFF)]"

(*value "crc16 (map byte [0x83,0xFE,0xD3,0x40,0x7A,0x93,0x97,0x23,0xA5,0xC6,0x39,0xFF])"*)

lemma crc_loop_foldl: "p + n \<le> length mem \<Longrightarrow> crc_loop mem p n crc = Some (foldl crc_byte crc (seg p n mem))"
  by (induction n arbitrary: p crc) (simp_all add: seg_Suc)

lemma ccit_crc16_eq: "0 < unat n \<Longrightarrow> unat n \<le> length mem \<Longrightarrow> ccit_crc16 mem 0 n = Some (crc16 (take (unat n) mem))"
  by (simp add: ccit_crc16_def crc_loop_foldl crc16_def seg_def word_gt_0 flip: word_less_nat_alt)

lemma ic_bytes_length: "ic_bytes s i n = Some bs \<Longrightarrow> length bs = n"
  by (induction n arbitrary: i bs) (auto simp: bind_eq_Some_conv)

lemma fix_crc:
  assumes "length data = Suc (Suc n)" "0 < n" "n < 2 ^ 16 - 2"
  shows "ic_fix_crc data = Some (with_crc (take n data))"
proof -
  have "unat (of_nat (length data) - 2 :: u16) = n" using assms by (simp add: unat_of_nat)
  then have c: "ccit_crc16 data 0 (of_nat (length data) - 2) = Some (crc16 (take n data))" using assms ccit_crc16_eq [of "of_nat (length data) - 2" data] by simp
  define xs where "xs = take n data"
  have d: "data = xs @ [data ! n, data ! Suc n]"
    using assms by (intro nth_equalityI) (auto simp: xs_def nth_append nth_Cons' less_Suc_eq)
  have l: "length xs = n" using assms by (simp add: xs_def)
  obtain a b where d: "data = xs @ [a, b]" using d by blast
  show ?thesis using c l assms(1) unfolding d by (simp add: ic_fix_crc_def with_crc_def nth_append list_update_append Let_def Suc_diff_Suc)
qed
lemma aes_step:
  assumes "16 \<le> n" "n < 32" "p + 16 \<le> length mem" "enc h (seg p 16 mem) = Some out" "take 16 out = aes h (seg p 16 mem)"
  shows "aesMmoHash enc h mem p n = Some (True, xor_block (aes h (seg p 16 mem)) (seg p 16 mem))"
proof -
  have "n - 16 < 16" using assms(1,2) by linarith
  then show ?thesis using assms by (simp add: aesMmoHash.simps [of enc h] aesMmoHash.simps [of _ _ _ _ "n - 16"] rd_block_def AES_BLOCK_SIZE_def)
qed

lemma xor_block_length [simp]: "length (xor_block a b) = min (length a) (length b)"
  by (simp add: xor_block_def)

definition cipher_ok :: "evp_encrypt \<Rightarrow> (u8 list \<Rightarrow> u8 list \<Rightarrow> u8 list) \<Rightarrow> bool" where
  "cipher_ok enc aes \<longleftrightarrow> (\<forall>k b. length k = 16 \<longrightarrow> length b = 16 \<longrightarrow> length (aes k b) = 16 \<and> (\<exists>out. enc k b = Some out \<and> take 16 out = aes k b))"

lemma aes_ok:
  assumes "cipher_ok enc aes" "length h = 16" "16 \<le> n" "n < 32" "p + 16 \<le> length mem"
  shows "aesMmoHash enc h mem p n = Some (True, xor_block (aes h (seg p 16 mem)) (seg p 16 mem))"
proof -
  have "length (seg p 16 mem) = 16" using assms(5) by simp
  then obtain out where "enc h (seg p 16 mem) = Some out" "take 16 out = aes h (seg p 16 mem)" using assms(1,2) unfolding cipher_ok_def by blast
  then show ?thesis by (rule aes_step [OF assms(3-5)])
qed

lemma aes_len: "cipher_ok enc aes \<Longrightarrow> length h = 16 \<Longrightarrow> length b = 16 \<Longrightarrow> length (aes h b) = 16"
  by (simp add: cipher_ok_def)

lemma blocks_append: "length x = 16 \<Longrightarrow> blocks (x @ y) = x # blocks y"
  by (subst blocks.simps) auto

lemma blocks_one: "length x = 16 \<Longrightarrow> blocks x = [x]"
  using blocks_append [of x "[]"] by (simp add: blocks.simps)

text \<open>The last bytes in a block of zeros, with the one bit behind them.\<close>

lemma last_block:
  assumes "length t < 16" "drop pos data = t"
  shows "(map (\<lambda>i. if i < length t then data ! (pos + i) else 0) [0..<16])[length t := 0x80] = t @ 0x80 # replicate (15 - length t) 0"
  using assms by (intro nth_equalityI) (auto simp: nth_append nth_Cons' nth_list_update)

lemma two_more: "n \<le> 13 \<Longrightarrow> replicate (15 - n) z = replicate (13 - n) z @ [z, z]"
proof -
  assume "n \<le> 13"
  then have "15 - n = Suc (Suc (13 - n))" by simp
  then show ?thesis by (simp add: replicate_append_same [symmetric] del: replicate_append_same)
qed

lemma set_last: "(replicate 16 (0::u8))[14 := x, 15 := y] = replicate 14 0 @ [x, y]"
  by (intro nth_equalityI) (auto simp: nth_append nth_Cons' nth_list_update)

lemma set_bits:
  fixes t :: "u8 list"
  assumes "length t \<le> 13"
  shows "(t @ x # replicate (15 - length t) 0)[14 := hi, 15 := lo] = t @ x # replicate (13 - length t) 0 @ [hi, lo]"
proof -
  have l: "length (t @ x # replicate (13 - length t) 0) = 14" using assms by simp
  have u: "(zs @ [0, 0])[14 := hi, 15 := lo] = zs @ [hi, lo]" if "length zs = 14" for zs by (simp add: list_update_append that)
  show ?thesis using u [OF l] two_more [OF assms, of "0 :: u8"] by simp
qed

text \<open>The last blocks: one, or two when the length does not fit behind the last bytes.\<close>

definition bit_length :: "nat \<Rightarrow> u8 list" where
  "bit_length n = [byte (8 * n div 256), byte (8 * n mod 256)]"

lemma length_bytes:
  "n = 8 \<or> n = 10 \<or> n = 14 \<or> n = 18 \<Longrightarrow> [ucast (drop_bit 5 (of_nat n :: u32) AND 0xFF), ucast (push_bit 3 (of_nat n :: u32) AND 0xFF)] = bit_length n"
  by (auto simp: bit_length_def byte_def)

lemma pad_blocks:
  assumes "length t \<le> 13" "length x mod 16 = 0"
  shows "blocks (t @ 0x80 # replicate (13 - length t) 0 @ bit_length n) = [t @ 0x80 # replicate (13 - length t) 0 @ bit_length n]"
  using assms by (intro blocks_one) (simp add: bit_length_def)

lemma seg_16: "length x = 16 \<Longrightarrow> seg 0 16 x = x"
  by (simp add: seg_def)

text \<open>Hashing a block that lies in a buffer of its own.\<close>

lemma aes_block:
  assumes "cipher_ok enc aes" "length h = 16" "length x = 16"
  shows "aesMmoHash enc h x 0 16 = Some (True, xor_block (aes h x) x)"
  using aes_ok [OF assms(1,2), of 16 0 x] assms(3) by (simp add: seg_16)

lemma hash_one:
  assumes c: "cipher_ok enc aes" and n: "length data = 8 \<or> length data = 10"
  shows "ic_hash enc data = Some (mmo_hash aes data)"
proof -
  define m where "m = data @ 0x80 # replicate (13 - length data) 0 @ bit_length (length data)"
  have l: "length m = 16" using n by (auto simp: m_def bit_length_def)
  have p: "mmo_pad data = m" using n by (auto simp: m_def mmo_pad_def bit_length_def)
  have t: "(map (\<lambda>i. if i < length data then data ! (0 + i) else 0) [0..<16])[length data := 0x80] = data @ 0x80 # replicate (15 - length data) 0"
    by (rule last_block) (use n in auto)
  have u: "(data @ 0x80 # replicate (15 - length data) 0)[14 := hi, 15 := lo] = data @ 0x80 # replicate (13 - length data) 0 @ [hi, lo]" for hi lo
    by (rule set_bits) (use n in auto)
  have b: "data @ 0x80 # replicate (13 - length data) 0 @ [ucast (drop_bit 5 (of_nat (length data) :: u32) AND 0xFF), ucast (push_bit 3 (of_nat (length data) :: u32) AND 0xFF)] = m"
    unfolding m_def by (subst length_bytes) (use n in auto)
  have i: "ic_blocks enc data 0 (length data) h = Some (h, 0, length data)" for h using n by (auto simp: ic_blocks.simps)
  have s: "\<not> 16 - length data < 3" using n by auto
  have a: "aesMmoHash enc (replicate 16 0) m 0 16 = Some (True, xor_block (aes (replicate 16 0) m) m)" by (rule aes_block [OF c _ l]) simp
  show ?thesis
    by (simp only: ic_hash_def Let_def AES_BLOCK_SIZE_def i bind.bind_lunit split t s if_False u b a mmo_hash_def p blocks_one [OF l] foldl.simps)
       (simp add: t s u b a flip: numeral_2_eq_2)
qed

lemma hash_two:
  assumes c: "cipher_ok enc aes" and n: "length data = 14"
  shows "ic_hash enc data = Some (mmo_hash aes data)"
proof -
  define x where "x = data @ [0x80, 0]"
  define m where "m = replicate 14 (0::u8) @ bit_length 14"
  have l: "length x = 16" "length m = 16" using n by (auto simp: x_def m_def bit_length_def)
  have p: "mmo_pad data = x @ m" using n by (simp add: x_def m_def mmo_pad_def bit_length_def replicate_Suc [of 14, simplified])
  have t: "(map (\<lambda>i. if i < length data then data ! (0 + i) else 0) [0..<16])[length data := 0x80] = x"
    by (subst last_block) (use n in \<open>auto simp: x_def\<close>)
  have b: "(replicate 16 0)[14 := ucast (drop_bit 5 (of_nat (length data) :: u32) AND 0xFF), 15 := ucast (push_bit 3 (of_nat (length data) :: u32) AND 0xFF)] = m"
    using length_bytes [of "length data"] n unfolding set_last m_def by simp
  have i: "ic_blocks enc data 0 (length data) h = Some (h, 0, length data)" for h using n by (auto simp: ic_blocks.simps)
  have s: "16 - length data < 3" using n by auto
  define h where "h = xor_block (aes (replicate 16 0) x) x"
  have a: "aesMmoHash enc (replicate 16 0) x 0 16 = Some (True, h)" unfolding h_def by (rule aes_block [OF c _ l(1)]) simp
  have "length h = 16" unfolding h_def using aes_len [OF c, of "replicate 16 0" x] l by simp
  then have a2: "aesMmoHash enc h m 0 16 = Some (True, xor_block (aes h m) m)" by (rule aes_block [OF c _ l(2)])
  show ?thesis
    by (simp only: ic_hash_def Let_def AES_BLOCK_SIZE_def i bind.bind_lunit split t s if_True a mmo_hash_def p blocks_append [OF l(1)] blocks_one [OF l(2)] foldl.simps)
       (simp add: t s b a a2 flip: h_def)
qed

lemma hash_long:
  assumes c: "cipher_ok enc aes" and n: "length data = 18"
  shows "ic_hash enc data = Some (mmo_hash aes data)"
proof -
  define x where "x = take 16 data"
  define y where "y = drop 16 data"
  define m where "m = y @ 0x80 # replicate 11 0 @ bit_length 18"
  have l: "length x = 16" "length m = 16" "length y = 2" using n by (auto simp: x_def m_def bit_length_def y_def)
  have xy: "data = x @ y" by (simp add: x_def y_def)
  have p: "mmo_pad data = x @ m" using n l by (simp add: xy m_def mmo_pad_def bit_length_def)
  have t: "(map (\<lambda>i. if i < 2 then data ! (16 + i) else 0) [0..<16])[2 := 0x80] = y @ 0x80 # replicate 13 0"
    using last_block [of y 16 data] l by (simp add: y_def [symmetric])
  have b: "(y @ 0x80 # replicate 13 0)[14 := ucast (drop_bit 5 (of_nat 18 :: u32) AND 0xFF), 15 := ucast (push_bit 3 (of_nat 18 :: u32) AND 0xFF)] = m"
    using set_bits [of y "0x80"] length_bytes [of 18] l by (simp add: m_def)
  define h where "h = xor_block (aes (replicate 16 0) x) x"
  have "seg 0 16 data = x" by (simp add: seg_def x_def)
  then have a: "aesMmoHash enc (replicate 16 0) data 0 18 = Some (True, h)"
    using aes_ok [OF c, of "replicate 16 0" 18 0 data] n by (simp add: h_def)
  have i: "ic_blocks enc data 0 18 (replicate 16 0) = Some (h, 16, 2)" using n a by (simp add: ic_blocks.simps [of _ _ 0] ic_blocks.simps [of _ _ 16])
  have "length h = 16" unfolding h_def using aes_len [OF c, of "replicate 16 0" x] l by simp
  then have a2: "aesMmoHash enc h m 0 16 = Some (True, xor_block (aes h m) m)" by (rule aes_block [OF c _ l(2)])
  show ?thesis
    by (simp only: ic_hash_def Let_def AES_BLOCK_SIZE_def i n bind.bind_lunit split t mmo_hash_def p blocks_append [OF l(1)] blocks_one [OF l(2)] foldl.simps)
       (simp add: t b [simplified] a2 flip: h_def)
qed

lemmas hash_is_mmo = hash_one hash_two hash_long

section \<open>Properties\<close>

text \<open>The byte of two digits, and a hexadecimal text.\<close>

definition hex_byte :: "char \<Rightarrow> char \<Rightarrow> u8 option" where
  "hex_byte c c' = do { h \<leftarrow> hex_nibble c; l \<leftarrow> hex_nibble c'; Some (16 * h + l) }"

fun unhex :: "string \<Rightarrow> u8 list option" where
  "unhex (c # c' # s) = do { b \<leftarrow> hex_byte c c'; bs \<leftarrow> unhex s; Some (b # bs) }"
| "unhex _ = Some []"

lemma nibble_less: "hex_nibble c = Some h \<Longrightarrow> h < 16"
  by (auto simp: hex_nibble_def Let_def word_less_nat_alt word_le_nat_alt unat_sub_if' unat_word_ariths split: if_splits)

lemma join_nibbles: "h < 16 \<Longrightarrow> l < 16 \<Longrightarrow> push_bit 4 (push_bit 4 0 OR h AND 0xF) OR l AND 0xF = 16 * h + l" for h l :: u8
proof -
  assume "h < 16" "l < 16"
  then have "\<exists>i j. h = word_of_nat i \<and> l = word_of_nat j \<and> i < 16 \<and> j < 16"
    by (intro exI [of _ "unat h"] exI [of _ "unat l"]) (simp add: word_less_nat_alt)
  then obtain i j where h: "h = word_of_nat i" "l = word_of_nat j" and ij: "i \<in> set [0..<16]" "j \<in> set [0..<16]" by auto
  have "\<forall>i \<in> set [0..<16]. \<forall>j \<in> set [0..<16]. push_bit 4 (push_bit 4 0 OR word_of_nat i AND 0xF) OR word_of_nat j AND 0xF = (16 * word_of_nat i + word_of_nat j :: u8)"
    by code_simp
  then show ?thesis using ij h by blast
qed

lemma ic_bytes_unhex: "i + 2 * n = length s \<Longrightarrow> ic_bytes s i n = unhex (drop i s)"
proof (induction n arbitrary: i)
  case (Suc n)
  then have "drop i s = s ! i # s ! (i + 1) # drop (i + 2) s" by (simp add: Cons_nth_drop_Suc)
  then show ?case using Suc by (auto simp: hex_byte_def join_nibbles [simplified] nibble_less bind_eq_Some_conv split: Option.bind_splits)
qed simp

lemma unhex_length: "unhex s = Some bs \<Longrightarrow> even (length s) \<Longrightarrow> length bs = length s div 2"
  by (induction s arbitrary: bs rule: unhex.induct) (auto simp: bind_eq_Some_conv)

lemma with_crc_length: "length (with_crc bs) = length bs + 2"
  by (simp add: with_crc_def)

text \<open>
  Equivalence: for an install code of one of the four sizes the code computes the Matyas-Meyer-Oseas hash of the code with
  its checksum, padded as the Zigbee specification says, whatever checksum the text has; every other text is refused and
  the result left alone.
\<close>

theorem install_code_hash:
  assumes "cipher_ok enc aes" "length s < 2 ^ 32"
  shows "CRYPTO_GetMmoHashFromInstallCode (Some enc) s r =
    Some
      (if length s \<in> {16, 20, 28, 36} then
         (case unhex s of
            None \<Rightarrow> (False, r)
          | Some bs \<Rightarrow> (True, mmo_hash aes (with_crc (take (length bs - 2) bs))))
       else (False, r))"
proof -
  have l: "(of_nat (length s) :: u32) div 2 = of_nat (length s div 2)" using assms(2) by (simp add: word_eq_iff_unsigned unat_div unat_of_nat word_arith_nat_div)
  have u: "unat (of_nat (length s div 2) :: u32) = length s div 2" using assms(2) by (simp add: unat_of_nat)
  have v: "(of_nat (length s div 2) :: u32) \<in> {6 + 2, 8 + 2, 12 + 2, 16 + 2} \<longleftrightarrow> length s div 2 \<in> {8, 10, 14, 18}"
  proof
    assume "(of_nat (length s div 2) :: u32) \<in> {6 + 2, 8 + 2, 12 + 2, 16 + 2}"
    then have "unat (of_nat (length s div 2) :: u32) \<in> {8, 10, 14, 18}" by auto
    then show "length s div 2 \<in> {8, 10, 14, 18}" using u by simp
  next
    assume "length s div 2 \<in> {8, 10, 14, 18}"
    then show "(of_nat (length s div 2) :: u32) \<in> {6 + 2, 8 + 2, 12 + 2, 16 + 2}" by (elim insertE) simp_all
  qed
  have e: "length s \<in> {16, 20, 28, 36} \<longleftrightarrow> even (length s) \<and> length s div 2 \<in> {8, 10, 14, 18}" by auto
  show ?thesis
  proof (cases "length s \<in> {16, 20, 28, 36}")
    case False
    then show ?thesis using e v l by (auto simp: CRYPTO_GetMmoHashFromInstallCode_def Let_def)
  next
    case True
    then have ev: "even (length s)" "length s div 2 \<in> {8, 10, 14, 18}" using e by auto
    have b: "ic_bytes s 0 (length s div 2) = unhex s" using ic_bytes_unhex [of 0 "length s div 2" s] ev by simp
    show ?thesis
    proof (cases "unhex s")
      case None
      then show ?thesis using True ev v l u b by (simp add: CRYPTO_GetMmoHashFromInstallCode_def Let_def)
    next
      case (Some bs)
      then have n: "length bs = 8 \<or> length bs = 10 \<or> length bs = 14 \<or> length bs = 18" using unhex_length [OF Some ev(1)] ev(2) by auto
      have f: "ic_fix_crc bs = Some (with_crc (take (length bs - 2) bs))" by (rule fix_crc) (use n in auto)
      have h: "ic_hash enc (with_crc (take (length bs - 2) bs)) = Some (mmo_hash aes (with_crc (take (length bs - 2) bs)))"
        using n hash_is_mmo [OF assms(1)] by (auto simp: with_crc_length)
      show ?thesis using True ev v l u b f h Some by (simp add: CRYPTO_GetMmoHashFromInstallCode_def Let_def)
    qed
  qed
qed

text \<open>The example of the code's comment; the cipher is the identity on the block, so that the hash can be computed.\<close>

theorem install_code_hash_witness:
  "CRYPTO_GetMmoHashFromInstallCode (Some (\<lambda>k b. Some (b @ b))) ''83FED3407A934C12'' [] =
    Some (True, mmo_hash (\<lambda>k b. b) (with_crc (map byte [0x83, 0xFE, 0xD3, 0x40, 0x7A, 0x93])))"
proof -
  have c: "cipher_ok (\<lambda>k b. Some (b @ b)) (\<lambda>k b. b)" by (simp add: cipher_ok_def)
  have u: "unhex ''83FED3407A934C12'' = Some (map byte [0x83, 0xFE, 0xD3, 0x40, 0x7A, 0x93, 0x4C, 0x12])" by code_simp
  show ?thesis using install_code_hash [OF c, of "''83FED3407A934C12''" "[]"] unfolding u by simp
qed

text \<open>A cipher whose calls fail is not noticed: the code still reports success.\<close>

lemma failing_cipher: "p + 16 \<le> length mem \<Longrightarrow> aesMmoHash (\<lambda>_ _. None) h mem p 16 = Some (False, h)"
  by (simp add: aesMmoHash.simps [of _ h] rd_block_def AES_BLOCK_SIZE_def)

lemma install_code_failed_cipher:
  assumes "length s = 16" "unhex s = Some bs"
  shows "CRYPTO_GetMmoHashFromInstallCode (Some (\<lambda>_ _. None)) s r = Some (True, replicate 16 0)"
proof -
  have n: "length bs = 8" using unhex_length [OF assms(2)] assms(1) by simp
  have b: "ic_bytes s 0 8 = Some bs" using ic_bytes_unhex [of 0 8 s] assms by simp
  have f: "ic_fix_crc bs = Some (with_crc (take 6 bs))" using fix_crc [of bs 6] n by simp
  have "ic_hash (\<lambda>_ _. None) d = Some (replicate 16 0)" if "length d = 8" for d
    using that by (simp add: ic_hash_def Let_def AES_BLOCK_SIZE_def ic_blocks.simps failing_cipher)
  then show ?thesis using b f n assms by (simp add: CRYPTO_GetMmoHashFromInstallCode_def Let_def with_crc_length)
qed

section \<open>The checksum is the remainder of a division\<close>

text \<open>
  Polynomials over the field of two elements are lists of coefficients, the highest first. The generator is
  x^16 + x^12 + x^5 + 1; \<open>gf2_rem\<close> is long division by a polynomial with leading coefficient one and the coefficients \<open>g\<close>
  behind it.
\<close>

definition xor_prefix :: "bool list \<Rightarrow> bool list \<Rightarrow> bool list" where
  "xor_prefix g xs = map2 (\<noteq>) g (take (length g) xs) @ drop (length g) xs"

lemma xor_prefix_length [simp]: "length (xor_prefix g xs) = length xs"
  by (simp add: xor_prefix_def)

function gf2_rem :: "bool list \<Rightarrow> bool list \<Rightarrow> bool list" where
  "gf2_rem g [] = []"
| "gf2_rem g (x # xs) = (if length (x # xs) \<le> length g then x # xs else gf2_rem g (if x then xor_prefix g xs else xs))"
  by pat_completeness auto
termination by (relation "measure (length \<circ> snd)") auto

definition generator :: "bool list" where
  "generator = map (\<lambda>i. i \<in> {12, 5, 0}) (rev [0..<16])"

text \<open>The bits of the bytes, the lowest first, with the first 16 inverted; the remainder is inverted, too.\<close>

definition low_bits :: "nat \<Rightarrow> 'a::len word \<Rightarrow> bool list" where
  "low_bits n w = map (bit w) [0..<n]"

definition crc_remainder :: "u8 list \<Rightarrow> bool list" where
  "crc_remainder bs = map Not (gf2_rem generator (xor_prefix (replicate 16 True) (concat (map (low_bits 8) bs) @ replicate 16 False)))"

definition lfsr :: "bool list \<Rightarrow> bool \<Rightarrow> bool list" where
  "lfsr reg d = (if hd reg \<noteq> d then map2 (\<noteq>) generator (tl reg @ [False]) else tl reg @ [False])"

lemma generator_length [simp]: "length generator = 16"
  by (simp add: generator_def)

lemma lfsr_length [simp]: "0 < length reg \<Longrightarrow> length reg = 16 \<Longrightarrow> length (lfsr reg d) = 16"
  by (simp add: lfsr_def)

lemma division_step:
  assumes "length reg = 16" "16 \<le> length xs"
  shows "(if hd reg \<noteq> d then xor_prefix generator (tl (xor_prefix reg (d # xs))) else tl (xor_prefix reg (d # xs))) = xor_prefix (lfsr reg d) xs"
proof -
  have last_index: "i = 15" if "\<not> i < 15" "i < 16" for i :: nat using that by simp
  obtain r rs where r: "reg = r # rs" "length rs = 15" using assms(1) by (cases reg) auto
  have t: "tl (xor_prefix reg (d # xs)) = map2 (\<noteq>) rs (take 15 xs) @ drop 15 xs" using r by (simp add: xor_prefix_def)
  show ?thesis unfolding t using r assms(2)
    by (intro nth_equalityI) (auto simp: xor_prefix_def lfsr_def nth_append dest!: last_index)
qed

lemma division_is_lfsr:
  assumes "length reg = 16"
  shows "gf2_rem generator (xor_prefix reg (m @ replicate 16 False)) = foldl lfsr reg m"
  using assms
proof (induction m arbitrary: reg)
  case Nil
  have "xor_prefix reg (replicate 16 False) = reg" using Nil by (intro nth_equalityI) (simp_all add: xor_prefix_def)
  then show ?case using Nil by (cases reg) simp_all
next
  case (Cons d m)
  obtain y ys where y: "xor_prefix reg ((d # m) @ replicate 16 False) = y # ys" using Cons.prems by (cases reg) (auto simp: xor_prefix_def)
  have yd: "y = (hd reg \<noteq> d)" using y Cons.prems by (cases reg) (auto simp: xor_prefix_def)
  have l: "16 \<le> length ys" using arg_cong [OF y, of length] Cons.prems by (simp add: xor_prefix_def)
  have "gf2_rem generator (y # ys) = gf2_rem generator (xor_prefix (lfsr reg d) (m @ replicate 16 False))"
    using division_step [OF Cons.prems, of "m @ replicate 16 False" d] y yd l by (cases "hd reg = d") simp_all
  then show ?case using y Cons.IH [of "lfsr reg d"] Cons.prems by simp
qed

text \<open>The register of the code holds the bits of the division's.\<close>

lemma generator_bits: "i < 16 \<Longrightarrow> generator ! i = bit CRC_POLY i"
proof -
  have "\<forall>i \<in> set [0..<16]. generator ! i = bit CRC_POLY i" by code_simp
  then show "i < 16 \<Longrightarrow> generator ! i = bit CRC_POLY i" by simp
qed

lemma low_bits_nth [simp]: "i < n \<Longrightarrow> low_bits n w ! i = bit w i" "length (low_bits n w) = n"
  by (simp_all add: low_bits_def)

lemma crc_bit_lfsr:
  assumes "take_bit 16 crc = crc" "crc_bit (crc, data) = (crc', data')"
  shows "low_bits 16 crc' = lfsr (low_bits 16 crc) (bit data 0)" "take_bit 16 crc' = crc'" "data' = drop_bit 1 data"
proof -
  have c: "((crc AND 1) XOR (ucast data AND 1) \<noteq> 0) = (bit crc 0 \<noteq> bit data 0)" 
  proof -
    have "odd (ucast data :: u64) = bit data 0" by (simp only: bit_0 [symmetric] bit_unsigned_iff) simp
    then show ?thesis by (auto simp: and_one_eq mod2_eq_if bit_0)
  qed
  have z: "\<not> bit crc i" if "16 \<le> i" for i using assms(1) that by (metis bit_take_bit_iff linorder_not_le)
  have p: "take_bit 16 CRC_POLY = CRC_POLY" by (simp add: CRC_POLY_def)
  have crc': "crc' = (if bit crc 0 \<noteq> bit data 0 then drop_bit 1 crc XOR CRC_POLY else drop_bit 1 crc)"
    using assms(2) c unfolding crc_bit_def by auto
  have t: "tl (low_bits 16 crc) = map (bit crc) [1..<16]" by (simp add: low_bits_def map_tl [symmetric])
  have h: "hd (low_bits 16 crc) = bit crc 0" by (simp add: low_bits_def upt_rec)
  have s: "tl (low_bits 16 crc) @ [False] = low_bits 16 (drop_bit 1 crc)"
    unfolding t by (intro nth_equalityI) (auto simp: nth_append bit_drop_bit_eq z)
  show "low_bits 16 crc' = lfsr (low_bits 16 crc) (bit data 0)"
    unfolding lfsr_def s h crc' by (intro nth_equalityI) (auto simp: bit_xor_iff generator_bits)
  have "take_bit 16 (drop_bit 1 crc) = drop_bit 1 crc" 
  proof (rule bit_word_eqI)
    show "bit (take_bit 16 (drop_bit 1 crc)) n = bit (drop_bit 1 crc) n" if "n < LENGTH(64)" for n
      using z [of "Suc n"] by (cases "n < 16") (simp_all add: bit_take_bit_iff bit_drop_bit_eq)
  qed
  then show "take_bit 16 crc' = crc'" using p by (simp add: crc')
  show "data' = drop_bit 1 data" using assms(2) by (simp add: crc_bit_def)
qed

lemma crc_bits_lfsr:
  assumes "take_bit 16 crc = crc"
  shows "low_bits 16 (fst ((crc_bit ^^ n) (crc, data))) = foldl lfsr (low_bits 16 crc) (low_bits n data) \<and>
    take_bit 16 (fst ((crc_bit ^^ n) (crc, data))) = fst ((crc_bit ^^ n) (crc, data)) \<and> snd ((crc_bit ^^ n) (crc, data)) = drop_bit n data"
proof (induction n)
  case (Suc n)
  obtain c d where s: "(crc_bit ^^ n) (crc, data) = (c, d)" by (cases "(crc_bit ^^ n) (crc, data)")
  obtain c' d' where s': "crc_bit (c, d) = (c', d')" by (cases "crc_bit (c, d)")
  show ?case using Suc crc_bit_lfsr [of c d c' d'] s s' by (simp add: low_bits_def bit_drop_bit_eq)
qed (simp add: assms, simp add: low_bits_def)

lemma crc_bytes_lfsr:
  assumes "take_bit 16 crc = crc"
  shows "low_bits 16 (foldl crc_byte crc bs) = foldl lfsr (low_bits 16 crc) (concat (map (low_bits 8) bs)) \<and>
    take_bit 16 (foldl crc_byte crc bs) = foldl crc_byte crc bs"
  using assms
proof (induction bs arbitrary: crc)
  case (Cons b bs)
  have "\<forall>i \<in> set [0..<8]. bit (0xff :: u32) i" by code_simp
  then have "low_bits 8 (0xff AND ucast b :: u32) = low_bits 8 b" by (intro nth_equalityI) (auto simp: bit_simps)
  then show ?case using crc_bits_lfsr [OF Cons.prems, of 8 "0xff AND ucast b"] Cons.IH [of "crc_byte crc b"] by (simp add: crc_byte_def)
qed simp

text \<open>
  Equivalence: the checksum the code computes bit by bit with a shift register is the inverted remainder of the division of
  the bits of the bytes, the first 16 of them inverted, by the generator x^16 + x^12 + x^5 + 1.
\<close>

theorem install_code_crc: "low_bits 16 (crc16 bs) = crc_remainder bs"
proof -
  have "low_bits 16 (foldl crc_byte 0xFFFF bs) = foldl lfsr (low_bits 16 (0xFFFF :: u64)) (concat (map (low_bits 8) bs))"
    using crc_bytes_lfsr [of "0xFFFF" bs] by simp
  moreover have "low_bits 16 (0xFFFF :: u64) = replicate 16 True" by code_simp
  moreover have "low_bits 16 (crc16 bs) = map Not (low_bits 16 (foldl crc_byte 0xFFFF bs))"
    by (intro nth_equalityI) (auto simp: crc16_def bit_simps)
  ultimately show ?thesis by (simp add: crc_remainder_def division_is_lfsr)
qed

end
