(* ===== verification/Spec2Isabelle.thy ===== *)
theory Spec2Isabelle
  imports CJ_Copy_Utf8 Event_Emitter Res_Resource Alarm_Events Json_Grammar Aps_Queue Device_Tick Device_Run Install_Code
begin

text \<open>
  A verification development for the deCONZ REST plugin, the C++ program that makes the devices of a Zigbee network
  available as a REST API. File names below are relative to \<^verbatim>\<open>src/\<close>.

  \<^bold>\<open>The program and what is modelled.\<close>
  The core of the plugin is event driven. Everything it knows of a device, a light, a sensor or an alarm system is a
  \<^emph>\<open>resource\<close>, a list of \<^emph>\<open>items\<close> with a name, a value and time stamps. Whoever writes an item, and the callbacks of
  the deCONZ library, put an \<^emph>\<open>event\<close> into the queue of the \<^emph>\<open>emitter\<close>, and the emitter hands each event to every
  part of the plugin in turn. Two state machines hang on this queue: one for each \<^emph>\<open>device\<close>, which interviews it, keeps
  its bindings and reports as its description wants them and polls what does not report; and one for each
  \<^emph>\<open>alarm system\<close>, which is armed by keypads and the REST API and tripped by sensors. Around them are the \<^emph>\<open>tick\<close>
  that wakes the devices one after another, the table of \<^emph>\<open>unconfirmed requests\<close> it looks at, the \<^emph>\<open>state changes\<close>
  that send a command until the device reports it, the rows of the alarm systems in the database, and the two \<^emph>\<open>JSON\<close>
  parsers: one on bytes in C for device descriptions, one on Qt strings for the REST API.

  \<^bold>\<open>Theories and code.\<close> The names of definitions are those of the functions they translate; where a name is
  taken by HOL or belongs to a class it has a prefix or suffix of the theory.

  \<^item> \<open>Deconz_Prelude\<close>: integer types, memory that may be read or written out of range, and the lemmas on words, lists
    and options that all theories share.
  \<^item> \<open>CJ_Utf8\<close>, \<open>CJ_Token\<close>, \<open>CJ_Parse\<close> (\<^verbatim>\<open>cj/cj.c\<close>, \<^verbatim>\<open>cj/cj.h\<close>): the decoder and
    validator of UTF-8, the tokenizer, and \<open>cj_parse\<close>, whose loop body is split into stages in the order of the code.
    \<open>CJ_Machine\<close> has the abstract token machine with an explicit stack that the parser refines; \<open>CJ_Json\<close> relates
    both to JSON texts; \<open>CJ_Value\<close> has member lookup and \<open>cj_copy_ref\<close>, \<open>CJ_Copy_Utf8\<close> the copy with unescaping
    (\<^verbatim>\<open>cj/extra/cj_copy_ref_utf8.c\<close>).
  \<^item> \<open>Res_Suffix\<close>, \<open>Res_Descriptor\<close>, \<open>Res_Item\<close>, \<open>Res_Resource\<close> (\<^verbatim>\<open>resource.h\<close>,
    \<^verbatim>\<open>resource.cpp\<close>, \<^verbatim>\<open>utils/stringcache.cpp\<close>): the names, the table of descriptors with
    types and ranges, the class \<open>ResourceItem\<close> and the class \<open>Resource\<close>. \<open>State_Change\<close> is
    \<^verbatim>\<open>state_change.cpp\<close>.
  \<^item> \<open>Event_Data\<close>, \<open>Event_Emitter\<close> (\<^verbatim>\<open>event.cpp\<close>, \<^verbatim>\<open>event_emitter.cpp\<close>,
    \<^verbatim>\<open>event_queue.cpp\<close>): events with the numbers packed into them and the ring of data buffers, and the two queues.
  \<^item> \<open>Utils_Text\<close> (\<^verbatim>\<open>utils/utils.cpp\<close>): functions on C strings and unique ids.
  \<^item> \<open>Alarm_Devices\<close> (\<^verbatim>\<open>alarm_system_device_table.cpp\<close>, the alarm part of \<^verbatim>\<open>database.cpp\<close>),
    \<open>Alarm_System\<close>, \<open>Alarm_Setup\<close> (\<^verbatim>\<open>alarm_system.cpp\<close>): the table of devices with its rows, the
    six state handlers, and constructor, configuration, PIN codes and loading. \<open>Alarm_Machine\<close> has the abstract
    alarm machine, \<open>Alarm_Reach\<close> the reachable systems and their timing, and \<open>Alarm_Events\<close> the handlers of
    \<^verbatim>\<open>alarm_system_event_handler.cpp\<close> and \<^verbatim>\<open>ias_ace.cpp\<close> under the emitter.
  \<^item> \<open>Qt_Json\<close>, \<open>Json_Props\<close>, \<open>Json_Grammar\<close> (\<^verbatim>\<open>json.cpp\<close>): reader and writer of the REST API, and
    the grammar of RFC 8259 as syntax trees.
  \<^item> \<open>Aps_Queue\<close> (end of \<^verbatim>\<open>device_access_fn.cpp\<close>), \<open>Device_Tick\<close> (\<^verbatim>\<open>device_tick.cpp\<close>,
    \<^verbatim>\<open>permitJoin.cpp\<close>).
  \<^item> \<open>Device_State\<close>, \<open>Device_Interview\<close>, \<open>Device_Bindings\<close>, \<open>Device_Poll\<close>, \<open>Device_Machine\<close>
    (\<^verbatim>\<open>device.h\<close>, \<^verbatim>\<open>device.cpp\<close>): the record of \<open>DevicePrivate\<close>; the handlers of level 0 (interview),
    of level 1 (bindings and reports) and of level 2 (polling); the idle state that feeds the two other levels, the
    dispatch of events and timers, and the operations of the class. \<open>Device_Frame\<close> has the invariant;
    \<open>Device_Level0\<close>, \<open>Device_Level1\<close>, \<open>Device_Level2\<close>, \<open>Device_Idle\<close> and \<open>Device_Steps\<close> show that
    every handler and operation keeps it, \<open>Device_Reach\<close> has the reachable devices, and \<open>Device_Safe\<close> and
    \<open>Device_Run\<close> the properties.

  \<^bold>\<open>How the code is written down.\<close>
  A struct or class is a record, an enumeration a datatype, an integer a word of its width; \<^verbatim>\<open>int\<close> values of
  depths and clocks are \<open>int\<close>. A function takes the state and returns the new one with its result. \<open>None\<close> is a
  step the code must not take: an access out of range, a null pointer that is read, a failed assertion; it is not an
  error of the code's own, which are values of its error types. A handler of a state machine that enqueues events
  returns them in order, or appends them to the list of effects of a device (\<open>dv_out\<close>) together with the requests it
  sends. A handler is called again by the emitter only, except for \<^verbatim>\<open>REventStateLeave\<close>, which \<open>setState\<close>
  delivers at once: that branch of a handler is \<open>dev_leave\<close>. Timers are the interval they run with, or not running.

  \<^bold>\<open>How the parts fit together.\<close>
  \<open>same_event\<close> and \<open>keyed_table\<close> are interfaces: the emitter's queue needs of the comparison of events that it is
  an equivalence (locale \<open>event_equality\<close>), and the table of the alarm devices promises its users the laws of a map
  with a well-formedness invariant (locale \<open>keyed_table\<close>). Both are interpreted on the definitions of the code. The
  alarm systems are put under the emitter as handlers in \<open>Alarm_Events\<close>; a device uses resources, items, state
  changes, events and unique ids as they are defined in their theories.

  \<^bold>\<open>What the lemmas show.\<close>
  \<^item> \<^emph>\<open>Parser in C\<close>: no access outside of the text, the token array or the buffer on any input; every JSON text that fits
    is accepted with exactly its tokens; what is accepted is a balanced run of the abstract machine whose tokens cover the
    text; lookup, copy and unescaping agree with reference functions on the token list.
  \<^item> \<^emph>\<open>Items and resources\<close>: ranges are kept by every operation, a resource is a map from names to items, and a state
    change ends by a matching report or by its timeout, and not otherwise.
  \<^item> \<^emph>\<open>Events\<close>: packed numbers and data are read back, the queue is a first in first out queue without duplicates, and no
    event that waits is forgotten.
  \<^item> \<^emph>\<open>Alarm systems\<close>: reachable systems are consistent and refine the abstract machine; entry and exit delays take the
    seconds that are configured; table and configuration survive the database; an armed system is tripped by its own
    devices only, and a keypad needs a code that verifies.
  \<^item> \<^emph>\<open>JSON of the REST API\<close>: reading is total, right on the grammar, and inverts writing.
  \<^item> \<^emph>\<open>Requests and tick\<close>: the count is the number of busy slots; the tick never stops and polls in turn.
  \<^item> \<^emph>\<open>Devices\<close>: no event or timer makes a reachable device read a null node, a binding that is not there or an item it
    does not have; a state that waits has its timer running and is left by it; polling tries an item at most three times;
    a device that the core knows in full becomes managed without being asked.

  \<^bold>\<open>Bounds.\<close>
  Loops that the code runs over a list are recursions on that list. The reader of \<open>Qt_Json\<close> takes the number of calls it
  may nest: \<open>json_calls\<close>, twice the length of the text and two, is enough, as each call but one in two takes a
  character (\<open>json_parse_total\<close>, which also shows that more calls change nothing). \<open>process\<close> of the emitter takes
  the rounds its clock allows as an argument; the property about it holds for every number of rounds, and is about
  handlers that do not enqueue urgent events for ever. Polling is bounded by \<open>poll_rank\<close>. The search of the tick for a
  device needs as many turns as there are devices.

  \<^bold>\<open>Parameters.\<close>
  Code that is not in the repository is an argument: Qt's conversions of texts, numbers and variants (\<open>qt_ops\<close>,
  \<open>json_qt\<close>), the atom table, SQLite, scrypt and the stored secrets, the clocks, the APS controller's answers, the
  nodes of the core library with their descriptors, and for a device also what its description says of an item and the
  result of reading it (\<open>dev_env\<close>). The hypotheses on them are stated where they are used: Qt reads back the numbers it
  writes, the statements that go into the database give the rows that come out of it, and fewer than eight attributes are
  read at once by an item (\<open>env_ok\<close>, the size of the array in the code).
  The invariant of a device is about devices as \<open>dev_reach\<close> makes them: the emitter carries no leave or timeout
  events, as only \<open>setState\<close> and the timer make them; items are changed by other code but not removed; a binding is to
  an address or to a group; and the descriptors are reloaded only when there is a node. The code does not check the last of
  these, which \<open>zdp_reload_without_node\<close> shows.

  \<^bold>\<open>Not modelled\<close>, with the reason.
  \<^item> Of the modelled files: \<open>JsonBuilder\<close> (nothing calls it); copying and moving of items and resources;
    \<open>verifyRestData\<close> and the helpers on variants; the callbacks that read other tables and the creation of tables;
    \<open>permitJoin()\<close>, which starts searches; of a device \<open>addSubDevice\<close> with its handles (the sub-devices are a
    list), the destructor, the test switches and a pointer to a node that the core deleted. Log output is left out
    everywhere.
  \<^item> \<^verbatim>\<open>device_access_fn.cpp\<close> except for the request table, \<^verbatim>\<open>device_descriptions.cpp\<close> and the other files
    on device descriptions: they build frames with classes of the closed library, run JavaScript, and walk directories.
  \<^item> \<^verbatim>\<open>de_web_plugin.cpp\<close>, \<^verbatim>\<open>bindings.cpp\<close>, \<^verbatim>\<open>poll_manager.cpp\<close> and the files on clusters and
    vendors: hundreds of cases over objects of the closed library; the REST handlers, rules, groups, scenes and the other
    tables of the database: Qt containers and request objects around single operations.
  \<^item> Green power, ZDP and ZCL frames: built on \<^verbatim>\<open>QDataStream\<close> and the closed library's classes.
  \<^item> Firmware updates, backup, discovery, websockets, user interface, cryptography wrappers, the colour space and daylight
    formulas (floating point), and the vendored interpreter and JSON library.
\<close>

end
